(* ===== verification/Prelude.thy ===== *)
theory Prelude
  imports Main "HOL-Library.Word" "HOL-Library.AList"
begin

text \<open>
  Shared vocabulary of the development: the exceptions of crash-python and their class
  hierarchy (\<^verbatim>\<open>crash/exceptions.py\<close> and the classes the components add), results that may
  be an exception, generators, the attributes of a \<^verbatim>\<open>gdb.Type\<close> that the code reads, and the
  generic lemmas the component theories use.

  A Python function that may raise is a function into \<open>'a res\<close>, with \<open>Inl\<close> for the exception.
  A Python generator is the list of the values it yields together with the exception that ends
  it, if one does.  Messages of exceptions are not modelled, only their classes.
\<close>

unbundle bit_operations_syntax

named_theorems gen_simps \<open>equations of generators\<close>
named_theorems res_simps \<open>equations of results\<close>

section \<open>Exceptions\<close>

datatype exc =
    \<comment> \<open>Python\<close>
    BaseException
  | TypeError | AttributeError | RuntimeError | LookupError | IndexError | KeyError
  | ValueError | NameError | UnboundLocalError | AssertionError | NotImplementedError
  | BufferError | IOError | StopIteration | OverflowError
  | ZeroDivisionError | UnicodeDecodeError | RecursionError | FileNotFoundError
  | SystemExit | KeyboardInterrupt
    \<comment> \<open>gdb\<close>
  | GdbError | GdbMemoryError | GdbNotAvailableError
    \<comment> \<open>\<^verbatim>\<open>crash/exceptions.py\<close>\<close>
  | IncompatibleGDBError | IncompatibleKdumpfileError
  | MissingSymbolError | MissingTypeError | MissingFieldError | CorruptedError
  | DelayedAttributeError
  | InvalidArgumentError | ArgumentTypeError | UnexpectedGDBTypeBaseError
  | UnexpectedGDBTypeError | NotStructOrUnionError
    \<comment> \<open>exceptions of single modules\<close>
  | InvalidComponentError | InvalidComponentBaseError | InvalidComponentTypeError
  | InvalidComponentNameError
  | ListError | CorruptListError | ListCycleError
  | TreeError | CorruptTreeError | KlistCorruptedError
  | CallbackCompleted | PerCPUError | LogTypeException | LogInvalidOption
  | LogConsistencyException | KmemCacheNotFound | NoQueueError
  | CommandError | CommandLineError
  | CrashKernelError | NoMatchingFileError | ModinfoMismatchError | IncorrectTargetError
    \<comment> \<open>addrxlat\<close>
  | AddrxlatError | AddrxlatNotPresentError | AddrxlatNoDataError

text \<open>The base class of each exception class, \<open>None\<close> for the root.\<close>

fun exc_base :: "exc \<Rightarrow> exc option" where
  "exc_base BaseException = None"
| "exc_base IndexError = Some LookupError"
| "exc_base KeyError = Some LookupError"
| "exc_base UnboundLocalError = Some NameError"
| "exc_base NotImplementedError = Some RuntimeError"
| "exc_base RecursionError = Some RuntimeError"
| "exc_base GdbError = Some RuntimeError"
| "exc_base GdbMemoryError = Some GdbError"
| "exc_base GdbNotAvailableError = Some GdbError"
| "exc_base IncompatibleGDBError = Some RuntimeError"
| "exc_base IncompatibleKdumpfileError = Some RuntimeError"
| "exc_base MissingSymbolError = Some RuntimeError"
| "exc_base MissingTypeError = Some RuntimeError"
| "exc_base MissingFieldError = Some RuntimeError"
| "exc_base CorruptedError = Some RuntimeError"
| "exc_base DelayedAttributeError = Some AttributeError"
| "exc_base InvalidArgumentError = Some TypeError"
| "exc_base ArgumentTypeError = Some InvalidArgumentError"
| "exc_base UnexpectedGDBTypeBaseError = Some InvalidArgumentError"
| "exc_base UnexpectedGDBTypeError = Some UnexpectedGDBTypeBaseError"
| "exc_base NotStructOrUnionError = Some UnexpectedGDBTypeBaseError"
| "exc_base InvalidComponentError = Some LookupError"
| "exc_base InvalidComponentBaseError = Some RuntimeError"
| "exc_base InvalidComponentTypeError = Some InvalidComponentBaseError"
| "exc_base InvalidComponentNameError = Some InvalidComponentBaseError"
| "exc_base CorruptListError = Some ListError"
| "exc_base ListCycleError = Some CorruptListError"
| "exc_base CorruptTreeError = Some TreeError"
| "exc_base KlistCorruptedError = Some CorruptedError"
| "exc_base CallbackCompleted = Some RuntimeError"
| "exc_base PerCPUError = Some TypeError"
| "exc_base KmemCacheNotFound = Some RuntimeError"
| "exc_base NoQueueError = Some RuntimeError"
| "exc_base UnicodeDecodeError = Some ValueError"
| "exc_base CommandError = Some RuntimeError"
| "exc_base CommandLineError = Some RuntimeError"
| "exc_base CrashKernelError = Some RuntimeError"
| "exc_base FileNotFoundError = Some IOError"
| "exc_base NoMatchingFileError = Some FileNotFoundError"
| "exc_base IncorrectTargetError = Some ValueError"
| "exc_base AddrxlatNotPresentError = Some AddrxlatError"
| "exc_base AddrxlatNoDataError = Some AddrxlatError"
| "exc_base ModinfoMismatchError = Some ValueError"
| "exc_base _ = Some BaseException"

text \<open>
  \<open>except C\<close> catches an exception of class \<open>e\<close> when \<open>C\<close> is \<open>e\<close> or one of its bases.  No class is
  more than four steps below the root.
\<close>

fun exc_bases :: "nat \<Rightarrow> exc \<Rightarrow> exc list" where
  "exc_bases 0 e = [e]"
| "exc_bases (Suc n) e = e # (case exc_base e of None \<Rightarrow> [] | Some b \<Rightarrow> exc_bases n b)"

definition catches :: "exc \<Rightarrow> exc \<Rightarrow> bool" where
  "catches c e \<longleftrightarrow> c \<in> set (exc_bases 5 e)"

section \<open>Results\<close>

type_synonym 'a res = "exc + 'a"

fun bindR :: "'a res \<Rightarrow> ('a \<Rightarrow> 'b res) \<Rightarrow> 'b res" where
  "bindR (Inl e) f = Inl e"
| "bindR (Inr x) f = f x"

fun mapR :: "('a \<Rightarrow> 'b res) \<Rightarrow> 'a list \<Rightarrow> 'b list res" where
  "mapR f [] = Inr []"
| "mapR f (x # xs) = bindR (f x) (\<lambda>y. bindR (mapR f xs) (\<lambda>ys. Inr (y # ys)))"

definition of_option :: "exc \<Rightarrow> 'a option \<Rightarrow> 'a res" where
  "of_option e m = (case m of None \<Rightarrow> Inl e | Some x \<Rightarrow> Inr x)"

lemma of_option_simps [simp, res_simps]:
  "of_option e None = Inl e" "of_option e (Some x) = Inr x"
  by (simp_all add: of_option_def)

lemma of_option_eq_Inr [simp]: "of_option e m = Inr x \<longleftrightarrow> m = Some x"
  by (cases m) auto

lemma bindR_cong [fundef_cong]:
  "m = m' \<Longrightarrow> (\<And>x. m' = Inr x \<Longrightarrow> f x = g x) \<Longrightarrow> bindR m f = bindR m' g"
  by (cases m') auto

lemma bindR_eq_Inr: "bindR m f = Inr y \<longleftrightarrow> (\<exists>x. m = Inr x \<and> f x = Inr y)"
  by (cases m) auto

lemma bindR_eq_Inl: "bindR m f = Inl e \<longleftrightarrow> m = Inl e \<or> (\<exists>x. m = Inr x \<and> f x = Inl e)"
  by (cases m) auto

lemma bindR_assoc: "bindR (bindR m f) g = bindR m (\<lambda>x. bindR (f x) g)"
  by (cases m) auto

lemma mapR_Inr: "(\<And>x. x \<in> set xs \<Longrightarrow> f x = Inr (g x)) \<Longrightarrow> mapR f xs = Inr (map g xs)"
  by (induction xs) auto

lemma mapR_length: "mapR f xs = Inr ys \<Longrightarrow> length ys = length xs"
  by (induction xs arbitrary: ys) (auto simp: bindR_eq_Inr)

section \<open>Generators\<close>

type_synonym 'a gen = "'a list \<times> exc option"

definition gen_done :: "'a gen" where
  "gen_done = ([], None)"

definition gen_raise :: "exc \<Rightarrow> 'a gen" where
  "gen_raise e = ([], Some e)"

definition gen_of_list :: "'a list \<Rightarrow> 'a gen" where
  "gen_of_list xs = (xs, None)"

definition gen_yields :: "'a list \<Rightarrow> 'a gen \<Rightarrow> 'a gen" where
  "gen_yields xs g = (xs @ fst g, snd g)"

definition gen_seq :: "'a gen \<Rightarrow> 'a gen \<Rightarrow> 'a gen" where
  "gen_seq g h = (case snd g of None \<Rightarrow> gen_yields (fst g) h | Some e \<Rightarrow> g)"

text \<open>\<open>for x in xs: yield from f(x)\<close>\<close>

fun gen_for :: "'a list \<Rightarrow> ('a \<Rightarrow> 'b gen) \<Rightarrow> 'b gen" where
  "gen_for [] f = gen_done"
| "gen_for (x # xs) f = gen_seq (f x) (gen_for xs f)"

text \<open>\<open>for x in g: yield from f(x)\<close>, with \<open>g\<close> itself a generator that may raise\<close>

definition gen_bind :: "'a gen \<Rightarrow> ('a \<Rightarrow> 'b gen) \<Rightarrow> 'b gen" where
  "gen_bind g f = gen_seq (gen_for (fst g) f) ([], snd g)"

definition gen_of_res :: "'a res \<Rightarrow> 'a gen" where
  "gen_of_res r = (case r of Inl e \<Rightarrow> gen_raise e | Inr x \<Rightarrow> gen_of_list [x])"

text \<open>A call that may raise, then a generator on its result.\<close>

definition gen_try :: "'a res \<Rightarrow> ('a \<Rightarrow> 'b gen) \<Rightarrow> 'b gen" where
  "gen_try r f = (case r of Inl e \<Rightarrow> gen_raise e | Inr x \<Rightarrow> f x)"

text \<open>\<open>list(g)\<close>\<close>

definition gen_to_list :: "'a gen \<Rightarrow> 'a list res" where
  "gen_to_list g = (case snd g of None \<Rightarrow> Inr (fst g) | Some e \<Rightarrow> Inl e)"

lemma gen_basic [gen_simps]:
  "gen_yields [] g = g"
  "gen_yields xs (gen_yields ys g) = gen_yields (xs @ ys) g"
  "gen_seq gen_done g = g"
  "gen_seq (gen_raise e) g = gen_raise e"
  "gen_seq (gen_yields xs g) h = gen_yields xs (gen_seq g h)"
  "gen_seq (gen_of_list xs) g = gen_yields xs g"
  "gen_yields xs gen_done = gen_of_list xs"
  "gen_yields xs (gen_of_list ys) = gen_of_list (xs @ ys)"
  "gen_of_list [] = gen_done"
  by (auto simp: gen_yields_def gen_seq_def gen_done_def gen_raise_def gen_of_list_def
      split: option.splits)

lemma gen_try_simps [simp, gen_simps]:
  "gen_try (Inl e) f = gen_raise e" "gen_try (Inr x) f = f x"
  by (simp_all add: gen_try_def)

lemma gen_of_res_simps [simp, gen_simps]:
  "gen_of_res (Inl e) = gen_raise e" "gen_of_res (Inr x) = gen_of_list [x]"
  by (simp_all add: gen_of_res_def)

lemma gen_sel [simp]:
  "fst gen_done = []" "snd gen_done = None"
  "fst (gen_raise e) = []" "snd (gen_raise e) = Some e"
  "fst (gen_of_list xs) = xs" "snd (gen_of_list xs) = None"
  "fst (gen_yields xs g) = xs @ fst g" "snd (gen_yields xs g) = snd g"
  by (simp_all add: gen_done_def gen_raise_def gen_of_list_def gen_yields_def)

lemma gen_to_list_simps [simp]:
  "gen_to_list (gen_of_list xs) = Inr xs" "gen_to_list gen_done = Inr []"
  "gen_to_list (gen_raise e) = Inl e" "gen_to_list (xs, None) = Inr xs"
  "gen_to_list (xs, Some e) = Inl e"
  by (simp_all add: gen_to_list_def)

lemma gen_eqI: "fst g = fst h \<Longrightarrow> snd g = snd h \<Longrightarrow> g = h"
  by (rule prod_eqI)

lemma gen_for_of_list:
  "(\<And>x. x \<in> set xs \<Longrightarrow> f x = gen_of_list (h x)) \<Longrightarrow>
   gen_for xs f = gen_of_list (concat (map h xs))"
  by (induction xs) (auto simp: gen_simps)

lemma gen_for_append: "gen_for (xs @ ys) f = gen_seq (gen_for xs f) (gen_for ys f)"
  by (induction xs) (auto simp: gen_simps gen_seq_def split: option.splits)

lemma gen_for_cong [fundef_cong]:
  "xs = ys \<Longrightarrow> (\<And>x. x \<in> set ys \<Longrightarrow> f x = g x) \<Longrightarrow> gen_for xs f = gen_for ys g"
  by (induction ys arbitrary: xs) auto

lemma gen_bind_of_list [gen_simps]: "gen_bind (gen_of_list xs) f = gen_for xs f"
  by (simp add: gen_bind_def gen_seq_def split: option.splits)
     (metis gen_yields_def append_Nil2 fst_conv prod.collapse snd_conv)

lemma gen_bind_map:
  "gen_bind (xs, e) (\<lambda>x. gen_of_list [f x]) = (map f xs, e)"
proof -
  have "gen_for xs (\<lambda>x. gen_of_list [f x]) = gen_of_list (map f xs)"
    by (induction xs) (auto simp: gen_simps)
  then show ?thesis
    by (simp add: gen_bind_def gen_seq_def gen_yields_def gen_of_list_def)
qed

section \<open>Loops\<close>

text \<open>
  A \<open>while\<close> loop of a generator: one iteration from the state \<open>s\<close> either ends the generator
  (\<open>Stop\<close>, with the values it still yields and the exception it raises, if any) or goes on
  (\<open>Next\<close>, with the values it yields and the next state).  A loop that does not end is \<open>None\<close>.
\<close>

datatype ('s, 'a) step = Stop "'a list" "exc option" | Next "'a list" 's

partial_function (option) gen_while :: "('s \<Rightarrow> ('s, 'a) step) \<Rightarrow> 's \<Rightarrow> 'a gen option" where
  "gen_while f s = (case f s of
       Stop ys e \<Rightarrow> Some (ys, e)
     | Next ys s' \<Rightarrow> Option.bind (gen_while f s') (\<lambda>g. Some (gen_yields ys g)))"

declare gen_while.simps [code]

lemma gen_while_Stop: "f s = Stop ys e \<Longrightarrow> gen_while f s = Some (ys, e)"
  by (simp add: gen_while.simps)

lemma gen_while_Next:
  "f s = Next ys s' \<Longrightarrow> gen_while f s = map_option (gen_yields ys) (gen_while f s')"
  by (simp add: gen_while.simps [of f s] split: option.splits) (cases "gen_while f s'"; simp)

text \<open>A loop that does not end goes through an infinite run of iterations.\<close>

lemma gen_while_None_run:
  assumes "gen_while f s = None"
  obtains S where "S 0 = s" "\<And>i. \<exists>ys. f (S i) = Next ys (S (Suc i))"
proof -
  define nxt where "nxt s = (case f s of Next ys s' \<Rightarrow> s' | Stop ys e \<Rightarrow> s)" for s
  define S where "S i = (nxt ^^ i) s" for i
  have none: "gen_while f (S i) = None" for i
  proof (induction i)
    case 0
    then show ?case using assms by (simp add: S_def)
  next
    case (Suc i)
    then show ?case
      by (cases "f (S i)") (auto simp: gen_while_Stop gen_while_Next S_def nxt_def)
  qed
  have "\<exists>ys. f (S i) = Next ys (S (Suc i))" for i
    using none [of i] by (cases "f (S i)") (auto simp: gen_while_Stop S_def nxt_def)
  moreover have "S 0 = s" by (simp add: S_def)
  ultimately show ?thesis using that by blast
qed

text \<open>A loop ends when a measure of its state falls in every iteration that goes on.\<close>

lemma gen_while_terminates:
  fixes m :: "'s \<Rightarrow> nat"
  assumes "I s" and "\<And>s ys s'. I s \<Longrightarrow> f s = Next ys s' \<Longrightarrow> I s' \<and> m s' < m s"
  shows "\<exists>g. gen_while f s = Some g"
proof (rule ccontr)
  assume "\<nexists>g. gen_while f s = Some g"
  then have "gen_while f s = None" by (metis option.exhaust)
  then obtain S where S: "S 0 = s" "\<And>i. \<exists>ys. f (S i) = Next ys (S (Suc i))"
    using gen_while_None_run by metis
  have "I (S i) \<and> m (S i) + i \<le> m s" for i
  proof (induction i)
    case 0
    then show ?case using S(1) assms(1) by simp
  next
    case (Suc i)
    then show ?case using S(2) [of i] assms(2) [of "S i"] by fastforce
  qed
  from this [of "Suc (m s)"] show False by simp
qed

text \<open>Partial correctness: what holds of the values yielded so far and of the state.\<close>

lemma gen_while_induct:
  fixes f :: "'s \<Rightarrow> ('s, 'a) step"
  assumes "gen_while f s = Some g"
    and "\<And>s ys e. f s = Stop ys e \<Longrightarrow> R s (ys, e)"
    and "\<And>s ys s' g. f s = Next ys s' \<Longrightarrow> R s' g \<Longrightarrow> R s (gen_yields ys g)"
  shows "R s g"
proof -
  have "h = f \<longrightarrow> R s g" if "gen_while h s = Some g" for h s g
    using that
  proof (rule gen_while.raw_induct [rotated])
    fix gw :: "('s \<Rightarrow> ('s, 'a) step) \<Rightarrow> 's \<Rightarrow> 'a gen option" and h s g
    assume IH: "\<And>f' s g. gw f' s = Some g \<Longrightarrow> f' = f \<longrightarrow> R s g"
      and eq: "(case h s of Stop ys e \<Rightarrow> Some (ys, e)
        | Next ys s' \<Rightarrow> Option.bind (gw h s') (\<lambda>g. Some (gen_yields ys g))) = Some g"
    show "h = f \<longrightarrow> R s g"
    proof
      assume "h = f"
      then show "R s g"
        using eq IH assms(2, 3) by (cases "f s") (auto simp: bind_eq_Some_conv)
    qed
  qed
  then show ?thesis using assms(1) by blast
qed

lemma gen_while_invariant:
  fixes f :: "'s \<Rightarrow> ('s, 'a) step"
  assumes "gen_while f s = Some (ys, e)" and "P [] s"
    and "\<And>xs s us s'. P xs s \<Longrightarrow> f s = Next us s' \<Longrightarrow> P (xs @ us) s'"
    and "\<And>xs s us e. P xs s \<Longrightarrow> f s = Stop us e \<Longrightarrow> Q (xs @ us) e"
  shows "Q ys e"
proof -
  have "\<forall>xs. P xs s \<longrightarrow> Q (xs @ fst (ys, e)) (snd (ys, e))"
    using assms(1)
  proof (rule gen_while_induct)
    fix s ys s' and g :: "'a gen"
    assume "f s = Next ys s'" "\<forall>xs. P xs s' \<longrightarrow> Q (xs @ fst g) (snd g)"
    then show "\<forall>xs. P xs s \<longrightarrow> Q (xs @ fst (gen_yields ys g)) (snd (gen_yields ys g))"
      using assms(3) by (fastforce simp: gen_yields_def)
  qed (use assms(4) in auto)
  from this [rule_format, OF assms(2)] show ?thesis by simp
qed

section \<open>Attributes of a gdb.Type\<close>

datatype type_code =
    CODE_PTR | CODE_ARRAY | CODE_STRUCT | CODE_UNION | CODE_ENUM | CODE_INT | CODE_FUNC
  | CODE_VOID | CODE_OTHER

text \<open>
  A \<^verbatim>\<open>gdb.Type\<close> is what the code reads of it: \<^verbatim>\<open>code\<close>, \<^verbatim>\<open>sizeof\<close>, \<^verbatim>\<open>name\<close>, \<^verbatim>\<open>target()\<close> and
  \<^verbatim>\<open>fields()\<close>; a \<^verbatim>\<open>gdb.Field\<close> its \<^verbatim>\<open>name\<close>, \<^verbatim>\<open>bitpos\<close> and \<^verbatim>\<open>type\<close>.  \<^verbatim>\<open>==\<close> on types is structural
  equality, as in gdb.
\<close>

datatype gtype = GType (gt_code: type_code) (gt_sizeof: nat) (gt_name: string)
    (gt_target: "gtype option") (gt_fields: "gfield list")
  and gfield = GField (gf_name: "string option") (gf_bitpos: nat) (gf_type: gtype)

definition gt_pointer :: "gtype \<Rightarrow> gtype" where
  "gt_pointer t = GType CODE_PTR 8 [] (Some t) []"

type_synonym ulong = "64 word"
type_synonym addr = int

section \<open>Generic lemmas\<close>

lemma find_append: "find P (xs @ ys) = (case find P xs of None \<Rightarrow> find P ys | Some x \<Rightarrow> Some x)"
  by (induction xs) auto

lemma find_none_filter: "find P xs = None \<longleftrightarrow> filter P xs = []"
  by (induction xs) auto

lemma find_hd_filter: "find P xs = (case filter P xs of [] \<Rightarrow> None | x # _ \<Rightarrow> Some x)"
  by (induction xs) auto

lemma drop_bit_and_mask_int: "(a::int) AND 2 ^ n - 1 = a mod 2 ^ n"
  by (metis mask_eq_exp_minus_1 take_bit_eq_mask take_bit_eq_mod)

lemma find_in_set: "find P xs = Some x \<Longrightarrow> x \<in> set xs \<and> P x"
  by (induction xs) (auto split: if_splits)

text \<open>Association lists as dictionaries: the last assignment to a key counts.\<close>

lemma map_of_foldl_update:
  "map_of (foldl (\<lambda>d kv. AList.update (fst kv) (snd kv) d) d kvs) = map_of d ++ map_of (rev kvs)"
  by (induction kvs arbitrary: d) (simp_all add: update_conv' map_add_def fun_eq_iff split: option.splits)

lemma map_of_rev_distinct: "distinct (map fst fs) \<Longrightarrow> map_of (rev fs) = map_of fs"
proof
  fix k assume "distinct (map fst fs)"
  then have "map_of (rev fs) k = Some v \<longleftrightarrow> map_of fs k = Some v" for v
    by (simp add: map_of_eq_Some_iff rev_map [symmetric])
  then show "map_of (rev fs) k = map_of fs k" by (metis option.exhaust)
qed

section \<open>Contracts\<close>

text \<open>
  A lookup that fills a cache: as long as the cache is in order, it gives the answer that does not depend on the cache,
  and leaves the cache in order.  The caches of per-CPU ranges, of the configuration and of the names of the system
  provide this.
\<close>

locale transparent_cache =
  fixes query :: "'q \<Rightarrow> 's \<Rightarrow> 'r \<times> 's"
    and ok :: "'s \<Rightarrow> bool"
    and answer :: "'q \<Rightarrow> 'r"
  assumes query_answer: "ok s \<Longrightarrow> fst (query q s) = answer q"
    and query_ok: "ok s \<Longrightarrow> ok (snd (query q s))"
begin

lemma queries_ok: "ok s \<Longrightarrow> ok (fold (\<lambda>q s. snd (query q s)) qs s)"
  by (induction qs arbitrary: s) (simp_all add: query_ok)

lemma answer_after: "ok s \<Longrightarrow> fst (query q (fold (\<lambda>q s. snd (query q s)) qs s)) = answer q"
  by (intro query_answer queries_ok)

lemma same_answer: "ok s \<Longrightarrow> fst (query q (fold (\<lambda>q s. snd (query q s)) qs s)) = fst (query q s)"
  by (simp add: answer_after query_answer)

end

text \<open>A state machine with an inductive invariant.\<close>

locale invariant_machine =
  fixes init :: 's
    and step :: "'s \<Rightarrow> 's \<Rightarrow> bool"
    and inv :: "'s \<Rightarrow> bool"
  assumes inv_init: "inv init"
    and inv_step: "step s s' \<Longrightarrow> inv s \<Longrightarrow> inv s'"
begin

lemma inv_reachable: "step\<^sup>*\<^sup>* init s \<Longrightarrow> inv s"
  by (induction rule: rtranclp_induct) (auto intro: inv_init inv_step)

end

end
