(* ===== verification/Bitmap.thy ===== *)
theory Bitmap
  imports Prelude
begin

text \<open>
  In-memory bitmaps, \<^verbatim>\<open>crash/types/bitmap.py\<close>, and scalable bitmaps, \<^verbatim>\<open>crash/types/sbitmap.py\<close>.

  A bitmap is an array of \<^verbatim>\<open>unsigned long\<close> or a pointer to one; elements are 64-bit words, so
  \<^verbatim>\<open>gdb.Value\<close> arithmetic on them wraps.  Reading an element may fail (\<^verbatim>\<open>gdb.MemoryError\<close>), which is
  \<open>None\<close> in \<open>bm_mem\<close>.  \<open>find_*\<close> results count bits from 1, with 0 for \<open>no such bit\<close>, as in the source;
  \<open>for_each_set_bit\<close> and \<open>test_bit\<close> count from 0.
\<close>

section \<open>Bitmaps\<close>

record bitmap =
  bm_type :: gtype
  bm_mem :: "int \<Rightarrow> ulong option"

text \<open>\<open>types.unsigned_long_type\<close>\<close>

definition unsigned_long_type :: gtype where
  "unsigned_long_type = GType CODE_INT 8 ''unsigned long'' None []"

definition elem_is_ulong :: "gtype \<Rightarrow> bool" where
  "elem_is_ulong t = (case gt_target t of None \<Rightarrow> False
     | Some u \<Rightarrow> gt_code u = gt_code unsigned_long_type \<and> gt_sizeof u = gt_sizeof unsigned_long_type)"

definition check_bitmap_type :: "bitmap \<Rightarrow> unit res" where
  "check_bitmap_type bm =
     (if (gt_code (bm_type bm) \<noteq> CODE_ARRAY \<or> \<not> elem_is_ulong (bm_type bm)) \<and>
         (gt_code (bm_type bm) \<noteq> CODE_PTR \<or> \<not> elem_is_ulong (bm_type bm))
      then Inl InvalidArgumentError else Inr ())"

definition bm_get :: "bitmap \<Rightarrow> int \<Rightarrow> ulong res" where
  "bm_get bm n = of_option GdbMemoryError (bm_mem bm n)"

definition bits_per_ulong :: int where
  "bits_per_ulong = int (gt_sizeof unsigned_long_type) * 8"

definition get_bit_location :: "int \<Rightarrow> int \<times> int" where
  "get_bit_location b = (b div bits_per_ulong, b mod bits_per_ulong)"

definition bm_size :: "bitmap \<Rightarrow> int option \<Rightarrow> int" where
  "bm_size bm size_in_bytes =
     (case size_in_bytes of None \<Rightarrow> int (gt_sizeof (bm_type bm)) | Some s \<Rightarrow> s)"

definition bm_elements :: "int \<Rightarrow> int" where
  "bm_elements size_in_bytes = size_in_bytes div int (gt_sizeof unsigned_long_type)"

subsection \<open>for_each_set_bit\<close>

text \<open>The inner loop over one non-zero element: the bits it yields and the new value of \<open>bit\<close>.\<close>

fun word_bits :: "nat \<Rightarrow> ulong \<Rightarrow> int \<Rightarrow> int list \<times> int" where
  "word_bits 0 ulong b = ([], b)"
| "word_bits (Suc n) ulong b =
     (let (ys, b') = word_bits n (drop_bit 1 ulong) (b + 1)
      in (if ulong AND 1 \<noteq> 0 then b # ys else ys, b'))"

function set_bits_loop :: "bitmap \<Rightarrow> int \<Rightarrow> int \<Rightarrow> int \<Rightarrow> int gen" where
  "set_bits_loop bm sz idx b =
     (if sz > 0 then
        gen_try (bm_get bm idx) (\<lambda>ulong.
          if ulong \<noteq> 0 then
            (let (ys, b') = word_bits (nat (min sz bits_per_ulong)) ulong b
             in gen_yields ys (set_bits_loop bm (sz - bits_per_ulong) (idx + 1) b'))
          else set_bits_loop bm (sz - bits_per_ulong) (idx + 1) (b + bits_per_ulong))
      else gen_done)"
  by pat_completeness auto
termination
  by (relation "measure (\<lambda>(bm, sz, idx, b). nat sz)")
     (auto simp: bits_per_ulong_def unsigned_long_type_def)

definition for_each_set_bit :: "bitmap \<Rightarrow> int option \<Rightarrow> int gen" where
  "for_each_set_bit bm size_in_bytes =
     gen_try (check_bitmap_type bm) (\<lambda>_. set_bits_loop bm (bm_size bm size_in_bytes * 8) 0 0)"

subsection \<open>The find family\<close>

definition ffs_step :: "ulong \<Rightarrow> nat \<Rightarrow> ulong \<times> int \<Rightarrow> ulong \<times> int" where
  "ffs_step m k = (\<lambda>(val, r). if val AND m = 0 then (drop_bit k val, r + int k) else (val, r))"

definition find_first_set_bit_ulong :: "ulong \<Rightarrow> int" where
  "find_first_set_bit_ulong val =
     (if val = 0 then 0
      else snd (ffs_step 0x1 1 (ffs_step 0x3 2 (ffs_step 0xf 4 (ffs_step 0xff 8
             (ffs_step 0xffff 16 (ffs_step 0xffffffff 32 (val, 1))))))))"

definition fls_step :: "ulong \<Rightarrow> nat \<Rightarrow> ulong \<times> int \<Rightarrow> ulong \<times> int" where
  "fls_step m k = (\<lambda>(val, r). if val AND m = 0 then (push_bit k val, r - int k) else (val, r))"

definition find_last_set_bit_ulong :: "ulong \<Rightarrow> int" where
  "find_last_set_bit_ulong val =
     (if val = 0 then 0
      else snd (fls_step 0x8000000000000000 1 (fls_step 0xc000000000000000 2
             (fls_step 0xf000000000000000 4 (fls_step 0xff00000000000000 8
             (fls_step 0xffff000000000000 16 (fls_step 0xffffffff00000000 32
               (val, bits_per_ulong))))))))"

text \<open>\<open>item &= ~((1 << offset) - 1)\<close>, when \<open>offset > 0\<close>\<close>

definition clear_below :: "int \<Rightarrow> ulong \<Rightarrow> ulong" where
  "clear_below offset item =
     (if offset > 0 then item AND NOT (push_bit (nat offset) 1 - 1) else item)"

text \<open>The loop of \<open>find_next_zero_bit\<close> over \<open>range(element, elements)\<close>.\<close>

fun next_zero_loop :: "bitmap \<Rightarrow> int \<Rightarrow> int list \<Rightarrow> int \<Rightarrow> int res" where
  "next_zero_loop bm start [] offset = Inr 0"
| "next_zero_loop bm start (n # ns) offset =
     bindR (bm_get bm n) (\<lambda>w.
       let item = NOT w in
       if item = 0 then next_zero_loop bm start ns offset
       else (let item' = clear_below offset item; v = find_first_set_bit_ulong item' in
             if v > 0 then
               (let ret = n * bits_per_ulong + v in
                if ret \<ge> start then Inr ret else Inl AssertionError)
             else next_zero_loop bm start ns 0))"

definition find_next_zero_bit :: "bitmap \<Rightarrow> int \<Rightarrow> int option \<Rightarrow> int res" where
  "find_next_zero_bit bm start size_in_bytes =
     bindR (check_bitmap_type bm) (\<lambda>_.
       let sz = bm_size bm size_in_bytes; elements = bm_elements sz in
       if start > push_bit 3 sz then Inl IndexError
       else (let element = start div bits_per_ulong; offset = start mod bits_per_ulong in
             next_zero_loop bm start [element..elements - 1] offset))"

definition find_first_zero_bit :: "bitmap \<Rightarrow> int option \<Rightarrow> int res" where
  "find_first_zero_bit bm size_in_bytes = find_next_zero_bit bm 0 size_in_bytes"

fun next_set_loop :: "bitmap \<Rightarrow> int \<Rightarrow> int list \<Rightarrow> int \<Rightarrow> int res" where
  "next_set_loop bm start [] offset = Inr 0"
| "next_set_loop bm start (n # ns) offset =
     bindR (bm_get bm n) (\<lambda>w.
       if w = 0 then next_set_loop bm start ns offset
       else (let item = clear_below offset w; v = find_first_set_bit_ulong item in
             if v > 0 then
               (let ret = n * bits_per_ulong + v in
                if ret \<ge> start then Inr ret else Inl AssertionError)
             else next_set_loop bm start ns 0))"

definition find_next_set_bit :: "bitmap \<Rightarrow> int \<Rightarrow> int option \<Rightarrow> int res" where
  "find_next_set_bit bm start size_in_bytes =
     bindR (check_bitmap_type bm) (\<lambda>_.
       let sz = bm_size bm size_in_bytes; elements = bm_elements sz in
       if start > push_bit 3 sz then Inl IndexError
       else (let (element, offset) = get_bit_location start in
             next_set_loop bm start [element..elements - 1] offset))"

definition find_first_set_bit :: "bitmap \<Rightarrow> int option \<Rightarrow> int res" where
  "find_first_set_bit bm size_in_bytes = find_next_set_bit bm 0 size_in_bytes"

fun last_set_loop :: "bitmap \<Rightarrow> int list \<Rightarrow> int res" where
  "last_set_loop bm [] = Inr 0"
| "last_set_loop bm (n # ns) =
     bindR (bm_get bm n) (\<lambda>w.
       if w = 0 then last_set_loop bm ns
       else (let v = find_last_set_bit_ulong w in
             if v > 0 then Inr (n * bits_per_ulong + v) else last_set_loop bm ns))"

definition find_last_set_bit :: "bitmap \<Rightarrow> int option \<Rightarrow> int res" where
  "find_last_set_bit bm size_in_bytes =
     bindR (check_bitmap_type bm) (\<lambda>_.
       let sz = bm_size bm size_in_bytes; elements = bm_elements sz in
       last_set_loop bm (rev [0..elements - 1]))"

definition test_bit :: "bitmap \<Rightarrow> int \<Rightarrow> int option \<Rightarrow> bool res" where
  "test_bit bm b size_in_bytes =
     bindR (check_bitmap_type bm) (\<lambda>_.
       let sz = bm_size bm size_in_bytes; elements = bm_elements sz;
           (element, offset) = get_bit_location b in
       if element \<ge> elements then Inl ValueError
       else bindR (bm_get bm element) (\<lambda>w. Inr (w AND push_bit (nat offset) 1 \<noteq> 0)))"

section \<open>Scalable bitmaps\<close>

record sbitmap_word =
  sw_word :: ulong
  sw_cleared :: "ulong option" \<comment> \<open>\<open>None\<close>: the kernel's \<^verbatim>\<open>struct sbitmap_word\<close> has no \<^verbatim>\<open>cleared\<close>\<close>
  sw_depth :: int

record sbitmap =
  sb_depth :: int
  sb_shift :: nat
  sb_map_nr :: int
  sb_map :: "int \<Rightarrow> sbitmap_word option"

text \<open>
  \<open>word & (1 << j)\<close>: the integer \<open>1 << j\<close> becomes a \<^verbatim>\<open>gdb.Value\<close>, which fails from \<open>j = 64\<close> on.
\<close>

definition sbitmap_for_each_set :: "sbitmap \<Rightarrow> int gen" where
  "sbitmap_for_each_set sb =
     gen_for [0..sb_map_nr sb - 1] (\<lambda>i.
       gen_try (of_option GdbMemoryError (sb_map sb i)) (\<lambda>m.
         let word = (case sw_cleared m of None \<Rightarrow> sw_word m | Some c \<Rightarrow> sw_word m AND NOT c);
             offset = push_bit (sb_shift sb) i;
             bits = min (sw_depth m) (sb_depth sb - offset)
         in gen_for [0..bits - 1] (\<lambda>j.
              if j \<ge> 64 then gen_raise OverflowError
              else if word AND push_bit (nat j) 1 \<noteq> 0 then gen_of_list [offset + j]
              else gen_done)))"

section \<open>One word\<close>

text \<open>The lowest and the highest set bit of a word.\<close>

definition low_bit :: "ulong \<Rightarrow> nat \<Rightarrow> bool" where
  "low_bit w n \<longleftrightarrow> bit w n \<and> (\<forall>i<n. \<not> bit w i)"

definition high_bit :: "ulong \<Rightarrow> nat \<Rightarrow> bool" where
  "high_bit w n \<longleftrightarrow> bit w n \<and> (\<forall>i>n. \<not> bit w i)"

lemma ulong_eq_iff: "(v::ulong) = w \<longleftrightarrow> (\<forall>n<64. bit v n = bit w n)"
  by (auto intro: bit_word_eqI)

lemma word_nonzero_bit: "(w::ulong) \<noteq> 0 \<Longrightarrow> \<exists>n<64. bit w n"
  using ulong_eq_iff [of w 0] by auto

lemma bit_lt_64: "bit (w::ulong) n \<Longrightarrow> n < 64"
  using bit_imp_le_length [of w n] by simp

lemma and_single_bit_zero_iff: "(w::ulong) AND push_bit j 1 = 0 \<longleftrightarrow> \<not> bit w j"
  by (auto simp: ulong_eq_iff bit_simps) (use bit_lt_64 in blast)

lemma low_bit_ex: "w \<noteq> 0 \<Longrightarrow> \<exists>n<64. low_bit w n"
proof -
  assume "w \<noteq> 0"
  then obtain k where k: "bit w k" using word_nonzero_bit by blast
  then have "bit w (LEAST i. bit w i)" by (rule LeastI)
  moreover have "\<not> bit w i" if "i < (LEAST i. bit w i)" for i
    using that by (rule not_less_Least)
  ultimately show ?thesis
    unfolding low_bit_def using bit_lt_64 by blast
qed

lemma high_bit_ex: "w \<noteq> 0 \<Longrightarrow> \<exists>n<64. high_bit w n"
proof -
  assume "w \<noteq> 0"
  then obtain k where k: "bit w k" using word_nonzero_bit by blast
  have bound: "\<And>i. bit w i \<Longrightarrow> i \<le> 63" using bit_lt_64 by force
  have "bit w (GREATEST i. bit w i)" using k bound by (rule GreatestI_nat)
  moreover have "i \<le> (GREATEST i. bit w i)" if "bit w i" for i
    using that bound by (rule Greatest_le_nat)
  ultimately show ?thesis
    unfolding high_bit_def using bit_lt_64 leD by blast
qed

lemma low_bit_nonzero: "low_bit w n \<Longrightarrow> w \<noteq> 0"
  by (auto simp: low_bit_def)

lemma and_mask_zero_iff: "(w::ulong) AND mask k = 0 \<longleftrightarrow> (\<forall>i<k. \<not> bit w i)"
  by (auto simp: ulong_eq_iff bit_simps dest: bit_lt_64)

lemma and_high_mask_zero_iff:
  "k \<le> 64 \<Longrightarrow> (w::ulong) AND NOT (mask (64 - k)) = 0 \<longleftrightarrow> (\<forall>i. 64 - k \<le> i \<longrightarrow> \<not> bit w i)"
  by (auto simp: ulong_eq_iff bit_simps dest: bit_lt_64) (meson bit_lt_64 leI)

lemma low_bit_mask: "low_bit w n \<Longrightarrow> w AND mask k = 0 \<longleftrightarrow> k \<le> n"
  unfolding and_mask_zero_iff low_bit_def by (meson leI le_trans less_le_trans not_le)

lemma low_bit_drop: "low_bit w n \<Longrightarrow> k \<le> n \<Longrightarrow> low_bit (drop_bit k w) (n - k)"
  by (auto simp: low_bit_def bit_simps)

lemma high_bit_mask:
  "high_bit w n \<Longrightarrow> k \<le> 64 \<Longrightarrow> w AND NOT (mask (64 - k)) = 0 \<longleftrightarrow> n < 64 - k"
  unfolding high_bit_def by (subst and_high_mask_zero_iff) (auto, meson leI le_trans less_le_trans)

lemma high_bit_push: "high_bit w n \<Longrightarrow> n < 64 - k \<Longrightarrow> high_bit (push_bit k w) (n + k)"
  by (auto simp: high_bit_def bit_simps)

definition ffs_inv :: "nat \<Rightarrow> nat \<Rightarrow> ulong \<times> int \<Rightarrow> bool" where
  "ffs_inv n0 b = (\<lambda>(v, r). \<exists>n<b. low_bit v n \<and> r + int n = int n0 + 1)"

lemma ffs_step_inv: "ffs_inv n0 (2 * k) s \<Longrightarrow> m = mask k \<Longrightarrow> ffs_inv n0 k (ffs_step m k s)"
proof -
  assume inv: "ffs_inv n0 (2 * k) s" and m: "m = mask k"
  obtain v r where s: "s = (v, r)" by (cases s)
  from inv s obtain n where n: "n < 2 * k" "low_bit v n" "r + int n = int n0 + 1"
    by (auto simp: ffs_inv_def)
  show ?thesis
  proof (cases "k \<le> n")
    case True
    with n have "low_bit (drop_bit k v) (n - k)" by (simp add: low_bit_drop)
    with True n s m show ?thesis
      by (auto simp: ffs_inv_def ffs_step_def low_bit_mask intro!: exI [of _ "n - k"])
  next
    case False
    with n s m show ?thesis
      by (auto simp: ffs_inv_def ffs_step_def low_bit_mask intro!: exI [of _ n])
  qed
qed

definition fls_inv :: "nat \<Rightarrow> nat \<Rightarrow> ulong \<times> int \<Rightarrow> bool" where
  "fls_inv n0 b = (\<lambda>(v, r). \<exists>n<64. 63 - n < b \<and> high_bit v n \<and> r + int n = 64 + int n0)"

lemma fls_step_inv:
  "fls_inv n0 (2 * k) s \<Longrightarrow> k \<le> 64 \<Longrightarrow> m = NOT (mask (64 - k)) \<Longrightarrow> fls_inv n0 k (fls_step m k s)"
proof -
  assume inv: "fls_inv n0 (2 * k) s" and k: "k \<le> 64" and m: "m = NOT (mask (64 - k))"
  obtain v r where s: "s = (v, r)" by (cases s)
  from inv s obtain n where n: "n < 64" "63 - n < 2 * k" "high_bit v n" "r + int n = 64 + int n0"
    by (auto simp: fls_inv_def)
  show ?thesis
  proof (cases "n < 64 - k")
    case True
    with n have "high_bit (push_bit k v) (n + k)" by (simp add: high_bit_push)
    with True n s m k show ?thesis
      by (auto simp: fls_inv_def fls_step_def high_bit_mask intro!: exI [of _ "n + k"])
  next
    case False
    with n s m k show ?thesis
      by (auto simp: fls_inv_def fls_step_def high_bit_mask intro!: exI [of _ n])
  qed
qed

lemma ffs_masks:
  "(0x1::ulong) = mask 1" "(0x3::ulong) = mask 2" "(0xf::ulong) = mask 4"
  "(0xff::ulong) = mask 8" "(0xffff::ulong) = mask 16" "(0xffffffff::ulong) = mask 32"
  by (simp_all add: mask_eq_exp_minus_1)

lemma fls_masks:
  "(0x8000000000000000::ulong) = NOT (mask (64 - 1))"
  "(0xc000000000000000::ulong) = NOT (mask (64 - 2))"
  "(0xf000000000000000::ulong) = NOT (mask (64 - 4))"
  "(0xff00000000000000::ulong) = NOT (mask (64 - 8))"
  "(0xffff000000000000::ulong) = NOT (mask (64 - 16))"
  "(0xffffffff00000000::ulong) = NOT (mask (64 - 32))"
  by (simp_all add: mask_eq_exp_minus_1 not_eq_complement)

lemma find_first_set_bit_ulong_low:
  assumes "low_bit w n" shows "find_first_set_bit_ulong w = int n + 1"
proof -
  have "n < 64" using assms by (auto simp: low_bit_def dest: bit_lt_64)
  with assms have i0: "ffs_inv n (2 * 32) (w, 1)" by (auto simp: ffs_inv_def)
  have "ffs_inv n 1 (ffs_step 0x1 1 (ffs_step 0x3 2 (ffs_step 0xf 4 (ffs_step 0xff 8
             (ffs_step 0xffff 16 (ffs_step 0xffffffff 32 (w, 1)))))))"
    using i0 by (intro ffs_step_inv ffs_masks) (simp_all add: ffs_step_inv ffs_masks)
  with low_bit_nonzero [OF assms] show ?thesis
    by (auto simp: find_first_set_bit_ulong_def ffs_inv_def)
qed

lemma find_last_set_bit_ulong_high:
  assumes "high_bit w n" shows "find_last_set_bit_ulong w = int n + 1"
proof -
  have "n < 64" using assms by (auto simp: high_bit_def dest: bit_lt_64)
  with assms have i0: "fls_inv n (2 * 32) (w, 64)" by (auto simp: fls_inv_def)
  have "fls_inv n 1 (fls_step 0x8000000000000000 1 (fls_step 0xc000000000000000 2
             (fls_step 0xf000000000000000 4 (fls_step 0xff00000000000000 8
             (fls_step 0xffff000000000000 16 (fls_step 0xffffffff00000000 32 (w, 64)))))))"
    using i0 by (intro fls_step_inv fls_masks) (simp_all add: fls_step_inv fls_masks)
  moreover have "w \<noteq> 0" using assms by (auto simp: high_bit_def)
  ultimately show ?thesis
    by (auto simp: find_last_set_bit_ulong_def fls_inv_def bits_per_ulong_def
        unsigned_long_type_def)
qed

lemma find_first_set_bit_ulong_pos: "0 < find_first_set_bit_ulong w \<longleftrightarrow> w \<noteq> 0"
proof (cases "w = 0")
  case True
  then show ?thesis by (simp add: find_first_set_bit_ulong_def)
next
  case False
  with low_bit_ex show ?thesis using find_first_set_bit_ulong_low by fastforce
qed

section \<open>The bits of a bitmap\<close>

text \<open>
  Bit \<open>i\<close> of the bitmap whose elements are read through \<open>tr\<close> (the identity for set bits, the
  complement for clear ones).
\<close>

definition bm_bit_of :: "(ulong \<Rightarrow> ulong) \<Rightarrow> bitmap \<Rightarrow> nat \<Rightarrow> bool" where
  "bm_bit_of tr bm i =
     (case bm_mem bm (int (i div 64)) of None \<Rightarrow> False | Some w \<Rightarrow> bit (tr w) (i mod 64))"

abbreviation bm_bit :: "bitmap \<Rightarrow> nat \<Rightarrow> bool" where
  "bm_bit \<equiv> bm_bit_of (\<lambda>w. w)"

definition bm_readable :: "bitmap \<Rightarrow> nat \<Rightarrow> bool" where
  "bm_readable bm k = list_all (\<lambda>i. bm_mem bm (int i) \<noteq> None) [0..<k]"

lemma bm_readableD: "bm_readable bm k \<Longrightarrow> i < k \<Longrightarrow> \<exists>w. bm_mem bm (int i) = Some w"
  by (auto simp: bm_readable_def list_all_iff)

lemma bm_readable_mono: "bm_readable bm k \<Longrightarrow> j \<le> k \<Longrightarrow> bm_readable bm j"
  by (auto simp: bm_readable_def list_all_iff)

lemma bits_per_ulong_64 [simp]: "bits_per_ulong = 64"
  by (simp add: bits_per_ulong_def unsigned_long_type_def)

lemma word_bits_filter:
  "word_bits n w (int b) = (map int (filter (\<lambda>i. bit w (i - b)) [b..<b + n]), int (b + n))"
proof (induction n arbitrary: w b)
  case 0
  then show ?case by simp
next
  case (Suc n)
  have shift: "filter (\<lambda>i. bit (drop_bit 1 w) (i - Suc b)) [Suc b..<Suc b + n]
      = filter (\<lambda>i. bit w (i - b)) [Suc b..<Suc b + n]"
    by (rule filter_cong) (auto simp: bit_simps Suc_diff_Suc)
  have "word_bits n (drop_bit 1 w) (int b + 1) =
      (map int (filter (\<lambda>i. bit w (i - b)) [Suc b..<Suc b + n]), int (Suc b + n))"
    using Suc.IH [of "drop_bit 1 w" "Suc b"] shift by (simp add: add.commute)
  moreover have "[b..<b + Suc n] = b # [Suc b..<Suc b + n]"
    by (simp add: upt_conv_Cons)
  moreover have "w AND 1 \<noteq> 0 \<longleftrightarrow> bit w 0"
    by (simp add: and_one_eq bit_0 odd_iff_mod_2_eq_one)
  ultimately show ?case by simp
qed

lemma filter_word:
  assumes "bm_mem bm (int k) = Some w" "m \<le> 64"
  shows "filter (bm_bit_of tr bm) [64 * k..<64 * k + m] =
     filter (\<lambda>i. bit (tr w) (i - 64 * k)) [64 * k..<64 * k + m]"
proof (rule filter_cong)
  fix i assume "i \<in> set [64 * k..<64 * k + m]"
  then obtain j where j: "i = 64 * k + j" "j < 64"
    using assms(2) by (metis atLeastLessThan_iff le_Suc_ex less_le_trans nat_add_left_cancel_less set_upt)
  then have "i div 64 = k" "i mod 64 = j" by simp_all
  with assms(1) j show "bm_bit_of tr bm i = bit (tr w) (i - 64 * k)"
    by (simp add: bm_bit_of_def)
qed simp

lemma upt_split: "a \<le> b \<Longrightarrow> b \<le> c \<Longrightarrow> [a..<c] = [a..<b] @ [b..<c]"
  by (metis le_Suc_ex upt_add_eq_append)

declare set_bits_loop.simps [simp del]

lemma ceil_div_step: "0 < n \<Longrightarrow> Suc ((n - 64 + 63) div 64) \<le> (n + 63) div (64::nat)"
proof (cases "n \<le> 64")
  case True
  moreover assume "0 < n"
  then have "64 div 64 \<le> (n + 63) div (64::nat)" by (intro div_le_mono) simp
  ultimately show ?thesis by simp
next
  case False
  then obtain m where "n = 64 + m" using nat_le_linear le_Suc_ex by blast
  then show ?thesis by simp
qed

lemma set_bits_loop_filter:
  assumes "bm_readable bm (k + (nat sz + 63) div 64)"
  shows "set_bits_loop bm sz (int k) (int (64 * k)) =
     gen_of_list (map int (filter (bm_bit bm) [64 * k..<64 * k + nat sz]))"
  using assms
proof (induction "nat sz" arbitrary: sz k rule: less_induct)
  case less
  show ?case
  proof (cases "sz > 0")
    case False
    then show ?thesis by (simp add: set_bits_loop.simps gen_simps)
  next
    case True
    define m where "m = min (nat sz) 64"
    have m: "nat (min sz 64) = m" using True by (auto simp: m_def min_def)
    have "k < k + (nat sz + 63) div 64" using True by linarith
    then obtain w where w: "bm_mem bm (int k) = Some w"
      using less.prems bm_readableD by blast
    have rd: "bm_readable bm (Suc k + (nat (sz - 64) + 63) div 64)"
    proof (rule bm_readable_mono [OF less.prems])
      show "Suc k + (nat (sz - 64) + 63) div 64 \<le> k + (nat sz + 63) div 64"
      proof -
        have "nat (sz - 64) = nat sz - 64" "0 < nat sz" using True by simp_all
        then show ?thesis using ceil_div_step [of "nat sz"] by simp
      qed
    qed
    have IH: "set_bits_loop bm (sz - 64) (int (Suc k)) (int (64 * Suc k)) =
       gen_of_list (map int (filter (bm_bit bm) [64 * Suc k..<64 * Suc k + nat (sz - 64)]))"
      using less.hyps [OF _ rd] True by simp
    have split: "filter (bm_bit bm) [64 * k..<64 * k + nat sz] =
        filter (bm_bit bm) [64 * k..<64 * k + m] @
        filter (bm_bit bm) [64 * Suc k..<64 * Suc k + nat (sz - 64)]"
      using upt_split [of "64 * k" "64 * k + m" "64 * k + nat sz"] True
      by (cases "sz \<le> 64") (auto simp: m_def nat_diff_distrib add.commute)
    have word: "filter (bm_bit bm) [64 * k..<64 * k + m] =
        filter (\<lambda>i. bit w (i - 64 * k)) [64 * k..<64 * k + m]"
      using filter_word [OF w, of m "\<lambda>w. w"] by (simp add: m_def)
    have tail: "set_bits_loop bm (sz - 64) (int k + 1) (int (64 * k + m)) =
        set_bits_loop bm (sz - 64) (int (Suc k)) (int (64 * Suc k))"
    proof (cases "sz < 64")
      case True
      then show ?thesis by (simp add: set_bits_loop.simps)
    next
      case False
      then have "m = 64" by (simp add: m_def)
      then show ?thesis by (simp add: algebra_simps)
    qed
    show ?thesis
    proof (cases "w = 0")
      case True
      then have "filter (bm_bit bm) [64 * k..<64 * k + m] = []" by (simp add: word)
      with True w IH split \<open>sz > 0\<close> show ?thesis
        by (simp add: set_bits_loop.simps [of bm sz] bm_get_def algebra_simps)
    next
      case False
      with w \<open>sz > 0\<close> have "set_bits_loop bm sz (int k) (int (64 * k)) =
          gen_yields (map int (filter (bm_bit bm) [64 * k..<64 * k + m]))
            (set_bits_loop bm (sz - 64) (int k + 1) (int (64 * k + m)))"
        using word_bits_filter [of m w "64 * k"]
        by (simp add: set_bits_loop.simps [of bm sz] bm_get_def m word)
      then show ?thesis using tail IH split by (simp add: gen_simps)
    qed
  qed
qed

section \<open>Scanning word by word\<close>

text \<open>A bit position as the \<open>find\<close> family reports it: counted from 1, with 0 for none.\<close>

definition one_based :: "nat option \<Rightarrow> int" where
  "one_based p = (case p of None \<Rightarrow> 0 | Some p \<Rightarrow> int p + 1)"

lemma one_based_simps [simp]: "one_based None = 0" "one_based (Some p) = int p + 1"
  by (simp_all add: one_based_def)

lemma upto_int_upt: "[int a..int b - 1] = map int [a..<b]"
proof (induction b)
  case 0
  then show ?case by simp
next
  case (Suc b)
  then show ?case
    by (cases "a \<le> b") (auto simp: upto_rec2)
qed

lemma bit_clear_below:
  "off < 64 \<Longrightarrow> bit (clear_below (int off) w) i \<longleftrightarrow> bit w i \<and> off \<le> i"
proof -
  assume "off < 64"
  have "push_bit off 1 - 1 = (mask off :: ulong)"
    by (simp add: mask_eq_exp_minus_1 push_bit_eq_mult)
  then show ?thesis
    by (auto simp: clear_below_def bit_simps dest: bit_lt_64)
qed

lemma find_in_word:
  assumes "bm_mem bm (int k) = Some w" "off < 64"
  shows "find (bm_bit_of tr bm) [64 * k + off..<64 * Suc k] =
    (if clear_below (int off) (tr w) = 0 then None
     else Some (64 * k + nat (find_first_set_bit_ulong (clear_below (int off) (tr w)) - 1)))"
proof -
  let ?v = "clear_below (int off) (tr w)"
  have at: "bm_bit_of tr bm ([64 * k + off..<64 * Suc k] ! j) = bit ?v (off + j)"
    if "j < 64 - off" for j
  proof -
    have "(64 * k + off + j) div 64 = k" "(64 * k + off + j) mod 64 = off + j"
      using that assms(2) by (simp_all add: add.assoc)
    with that assms show ?thesis by (simp add: bm_bit_of_def bit_clear_below)
  qed
  show ?thesis
  proof (cases "?v = 0")
    case True
    have "\<not> bm_bit_of tr bm x" if "x \<in> set [64 * k + off..<64 * Suc k]" for x
    proof -
      from that obtain j where "j < 64 - off" "x = [64 * k + off..<64 * Suc k] ! j"
        unfolding in_set_conv_nth by auto
      with at [of j] True show ?thesis by simp
    qed
    then have "find (bm_bit_of tr bm) [64 * k + off..<64 * Suc k] = None"
      unfolding find_None_iff by blast
    with True show ?thesis by simp
  next
    case False
    then obtain n where n: "n < 64" "low_bit ?v n" using low_bit_ex by blast
    then have off: "off \<le> n" using assms(2) by (auto simp: low_bit_def bit_clear_below)
    have "bm_bit_of tr bm (64 * k + n)"
      using at [of "n - off"] n off by (simp add: low_bit_def)
    then have "find (bm_bit_of tr bm) [64 * k + off..<64 * Suc k] = Some (64 * k + n)"
      unfolding find_Some_iff
      using n off at by (intro exI [of _ "n - off"]) (auto simp: low_bit_def)
    with False n find_first_set_bit_ulong_low [OF n(2)] show ?thesis by simp
  qed
qed

text \<open>
  What \<open>next_set_loop\<close> and \<open>next_zero_loop\<close> share: a scan of the elements, each read through
  \<open>tr\<close>, for the first bit.
\<close>

locale word_scan =
  fixes scan :: "bitmap \<Rightarrow> int \<Rightarrow> int list \<Rightarrow> int \<Rightarrow> int res"
    and tr :: "ulong \<Rightarrow> ulong"
  assumes scan_Nil: "scan bm start [] offset = Inr 0"
    and scan_Cons: "scan bm start (n # ns) offset =
      bindR (bm_get bm n) (\<lambda>w.
        if tr w = 0 then scan bm start ns offset
        else let v = find_first_set_bit_ulong (clear_below offset (tr w)) in
          if v > 0 then
            (if n * 64 + v \<ge> start then Inr (n * 64 + v) else Inl AssertionError)
          else scan bm start ns 0)"
begin

lemma scan_step:
  assumes "bm_mem bm (int k) = Some w" "off < 64" "start \<le> int (64 * k + off)"
    and "off = 0 \<or> tr w \<noteq> 0"
    and rest: "scan bm start ns 0 = Inr (one_based (find (bm_bit_of tr bm) [64 * Suc k..<64 * b]))"
    and "k < b"
  shows "scan bm start (int k # ns) (int off) =
     Inr (one_based (find (bm_bit_of tr bm) [64 * k + off..<64 * b]))"
proof -
  let ?v = "clear_below (int off) (tr w)"
  have split: "find (bm_bit_of tr bm) [64 * k + off..<64 * b] =
      (case find (bm_bit_of tr bm) [64 * k + off..<64 * Suc k] of
         None \<Rightarrow> find (bm_bit_of tr bm) [64 * Suc k..<64 * b] | Some x \<Rightarrow> Some x)"
    using upt_split [of "64 * k + off" "64 * Suc k" "64 * b"] assms(2,6)
    by (simp only: find_append [symmetric]) simp
  show ?thesis
  proof (cases "?v = 0")
    case True
    then have none: "find (bm_bit_of tr bm) [64 * k + off..<64 * Suc k] = None"
      unfolding find_in_word [OF assms(1,2)] by simp
    have "tr w = 0 \<Longrightarrow> off = 0" using assms(4) by simp
    with True have "scan bm start (int k # ns) (int off) = scan bm start ns 0"
      using find_first_set_bit_ulong_pos [of 0]
      by (auto simp: scan_Cons bm_get_def assms(1) Let_def)
    then show ?thesis by (simp only: rest split none option.case)
  next
    case False
    then have pos: "0 < find_first_set_bit_ulong ?v"
      by (simp add: find_first_set_bit_ulong_pos)
    have nz: "tr w \<noteq> 0" using False by (auto simp: clear_below_def split: if_splits)
    obtain n where n: "low_bit ?v n" using low_bit_ex [OF False] by blast
    then have "off \<le> n" using assms(2) by (auto simp: low_bit_def bit_clear_below)
    then have "start \<le> int k * 64 + find_first_set_bit_ulong ?v"
      using assms(3) find_first_set_bit_ulong_low [OF n] by simp
    with nz pos have lhs: "scan bm start (int k # ns) (int off) =
        Inr (int k * 64 + find_first_set_bit_ulong ?v)"
      by (simp add: scan_Cons bm_get_def assms(1) Let_def)
    have "find (bm_bit_of tr bm) [64 * k + off..<64 * Suc k] =
        Some (64 * k + nat (find_first_set_bit_ulong ?v - 1))"
      unfolding find_in_word [OF assms(1,2)] using False by simp
    then have "find (bm_bit_of tr bm) [64 * k + off..<64 * b] =
        Some (64 * k + nat (find_first_set_bit_ulong ?v - 1))"
      by (simp only: split option.case)
    with lhs pos show ?thesis by (simp add:)
  qed
qed

lemma scan_aligned:
  assumes "bm_readable bm b" "start \<le> int (64 * a)" "a \<le> b"
  shows "scan bm start (map int [a..<b]) 0 = Inr (one_based (find (bm_bit_of tr bm) [64 * a..<64 * b]))"
  using assms
proof (induction "b - a" arbitrary: a)
  case 0
  then show ?case by (simp add: scan_Nil)
next
  case (Suc d)
  then have "a < b" by simp
  then obtain w where w: "bm_mem bm (int a) = Some w"
    using bm_readableD [OF Suc.prems(1)] by blast
  have "scan bm start (map int [Suc a..<b]) 0 =
      Inr (one_based (find (bm_bit_of tr bm) [64 * Suc a..<64 * b]))"
    using Suc by (intro Suc.hyps(1)) auto
  from scan_step [OF w _ _ _ this \<open>a < b\<close>, of 0] Suc.prems \<open>a < b\<close> show ?case
    by (simp add: upt_conv_Cons)
qed

text \<open>
  The scan from bit \<open>start\<close> finds the first hit, unless \<open>start\<close> is inside an element in which
  there is no bit at all (then the loop skips the element without clearing \<open>offset\<close>).
\<close>

lemma scan_from:
  assumes "bm_readable bm b"
    and ok: "start mod 64 = 0 \<or> b \<le> start div 64 \<or>
        (\<exists>i\<in>{64 * (start div 64)..<64 * (start div 64) + 64}. bm_bit_of tr bm i)"
  shows "scan bm (int start) [int start div 64..int b - 1] (int start mod 64) =
     Inr (one_based (find (bm_bit_of tr bm) [start..<64 * b]))"
proof -
  let ?k = "start div 64" and ?off = "start mod 64"
  have conv: "int start div 64 = int ?k" "int start mod 64 = int ?off"
    by (simp_all add: zdiv_int zmod_int)
  have st: "start = 64 * ?k + ?off" by simp
  show ?thesis
  proof (cases "?k < b")
    case False
    then have "64 * b \<le> start" using st by linarith
    with False show ?thesis
      by (simp add: conv upto_int_upt scan_Nil)
  next
    case True
    obtain w where w: "bm_mem bm (int ?k) = Some w"
      using bm_readableD [OF assms(1) True] by blast
    have nz: "?off = 0 \<or> tr w \<noteq> 0"
    proof (rule disjCI)
      assume "\<not> tr w \<noteq> 0"
      then have "\<not> bm_bit_of tr bm i" if "i \<in> {64 * ?k..<64 * ?k + 64}" for i
      proof -
        have "i div 64 = ?k" using that by (auto intro!: div_nat_eqI)
        with w \<open>\<not> tr w \<noteq> 0\<close> show ?thesis by (simp add: bm_bit_of_def)
      qed
      with ok True show "?off = 0" by auto
    qed
    have rest: "scan bm (int start) (map int [Suc ?k..<b]) 0 =
        Inr (one_based (find (bm_bit_of tr bm) [64 * Suc ?k..<64 * b]))"
    proof (rule scan_aligned [OF assms(1)])
      show "int start \<le> int (64 * Suc ?k)"
      proof -
        have "start \<le> 64 * Suc ?k" using dividend_less_times_div [of 64 start] by simp
        then show ?thesis by (simp only: of_nat_le_iff)
      qed
    qed (use True in simp)
    have "scan bm (int start) (int ?k # map int [Suc ?k..<b]) (int ?off) =
        Inr (one_based (find (bm_bit_of tr bm) [64 * ?k + ?off..<64 * b]))"
      by (rule scan_step [OF w _ _ nz rest True]) (use st in simp_all)
    then show ?thesis
      by (simp add: conv upto_int_upt upt_conv_Cons [OF True])
  qed
qed

end

interpretation set_scan: word_scan next_set_loop "\<lambda>w. w"
  by unfold_locales (simp_all add: Let_def cong: if_cong)

interpretation zero_scan: word_scan next_zero_loop "NOT"
  by unfold_locales (simp_all add: Let_def cong: if_cong)

section \<open>Properties\<close>

lemma bm_elements_8: "0 \<le> s \<Longrightarrow> bm_elements s = int (nat s div 8)"
  by (simp add: bm_elements_def unsigned_long_type_def zdiv_int)

text \<open>C39: \<open>_find_first_set_bit\<close> computes the lowest set bit of a 64-bit word, counted from 1, by
  binary search, and 0 for the zero word.\<close>

theorem find_first_set_bit_ulong_correct:
  "find_first_set_bit_ulong w =
     one_based (find (bit w) [0..<64])"
proof (cases "w = 0")
  case True
  then have "find (bit w) [0..<64] = None" by (simp add: find_None_iff)
  with True show ?thesis by (simp add: find_first_set_bit_ulong_def)
next
  case False
  then obtain n where n: "n < 64" "low_bit w n" using low_bit_ex by blast
  have "find (bit w) [0..<64] = Some n"
    unfolding find_Some_iff using n by (intro exI [of _ n]) (auto simp: low_bit_def)
  with n find_first_set_bit_ulong_low show ?thesis by simp
qed

text \<open>\<open>_find_last_set_bit\<close> computes the highest set bit of a 64-bit word, counted from 1, and 0
  for the zero word, although the shifts of the search push the high bits out of the word.\<close>

theorem find_last_set_bit_ulong_correct:
  "find_last_set_bit_ulong w =
     one_based (find (bit w) (rev [0..<64]))"
proof (cases "w = 0")
  case True
  then have "find (bit w) (rev [0..<64]) = None" by (simp add: find_None_iff)
  with True show ?thesis by (simp add: find_last_set_bit_ulong_def)
next
  case False
  then obtain n where n: "n < 64" "high_bit w n" using high_bit_ex by blast
  have "find (bit w) (rev [0..<64]) = Some n"
    unfolding find_Some_iff using n
    by (intro exI [of _ "63 - n"]) (auto simp: high_bit_def rev_nth)
  with n find_last_set_bit_ulong_high show ?thesis by simp
qed

lemma for_each_set_bit_filter:
  assumes "check_bitmap_type bm = Inr ()" and "0 \<le> bm_size bm s"
    and "bm_readable bm ((nat (bm_size bm s) + 7) div 8)"
  shows "for_each_set_bit bm s =
     gen_of_list (map int (filter (bm_bit bm) [0..<8 * nat (bm_size bm s)]))"
proof -
  let ?n = "nat (bm_size bm s)"
  have "(8 * ?n + 63) div 64 = (?n + 7) div 8"
  proof -
    have "(8 * ?n + 63) div 64 = (8 * ?n + 63) div 8 div 8" by (simp add: div_mult2_eq [symmetric])
    then show ?thesis by simp
  qed
  moreover have "nat (bm_size bm s * 8) = 8 * ?n" using assms(2) by (simp add: nat_mult_distrib)
  ultimately have "bm_readable bm (0 + (nat (bm_size bm s * 8) + 63) div 64)"
    using assms(3) by simp
  from set_bits_loop_filter [OF this] assms(1) \<open>nat (bm_size bm s * 8) = 8 * ?n\<close> show ?thesis
    by (simp add: for_each_set_bit_def)
qed

text \<open>C24: on a readable bitmap of \<open>size\<close> bytes \<open>for_each_set_bit\<close> yields exactly the set bits below
  \<open>8 * size\<close>, each once, in increasing order, and ends without an exception; the size need not be
  a multiple of the word size.\<close>

theorem for_each_set_bit_correct:
  assumes "check_bitmap_type bm = Inr ()" and "0 \<le> bm_size bm s"
    and "bm_readable bm ((nat (bm_size bm s) + 7) div 8)"
  shows "for_each_set_bit bm s =
     gen_of_list (map int (filter (bm_bit bm) [0..<8 * nat (bm_size bm s)]))"
  using assms by (rule for_each_set_bit_filter)


text \<open>\<open>find_next_zero_bit\<close> returns the first clear bit at or after \<open>start\<close>, counted from 1, or 0
  if there is none, provided \<open>start\<close> is the first bit of an element or the element it lies in has
  a clear bit.\<close>

theorem find_next_zero_bit_correct:
  assumes "check_bitmap_type bm = Inr ()" and "0 \<le> bm_size bm s"
    and "int start \<le> 8 * bm_size bm s"
    and "bm_readable bm (nat (bm_size bm s) div 8)"
    and "start mod 64 = 0 \<or>
      (\<exists>i\<in>{64 * (start div 64)..<64 * (start div 64) + 64}. \<not> bm_bit bm i)"
  shows "find_next_zero_bit bm (int start) s =
     Inr (one_based (find (\<lambda>i. \<not> bm_bit bm i) [start..<64 * (nat (bm_size bm s) div 8)]))"
proof -
  let ?b = "nat (bm_size bm s) div 8"
  have not: "bm_bit_of NOT bm i \<longleftrightarrow> \<not> bm_bit bm i" if "i < 64 * ?b" for i
  proof -
    have "i div 64 < ?b" using that by (simp add: less_mult_imp_div_less mult.commute)
    then obtain w where "bm_mem bm (int (i div 64)) = Some w"
      using bm_readableD [OF assms(4)] by blast
    then show ?thesis by (simp add: bm_bit_of_def bit_simps)
  qed
  have "find (bm_bit_of NOT bm) [start..<64 * ?b] = find (\<lambda>i. \<not> bm_bit bm i) [start..<64 * ?b]"
    using not by (intro find_cong) auto
  moreover have "start mod 64 = 0 \<or> ?b \<le> start div 64 \<or>
      (\<exists>i\<in>{64 * (start div 64)..<64 * (start div 64) + 64}. bm_bit_of NOT bm i)"
  proof (cases "?b \<le> start div 64")
    case False
    then have "64 * (start div 64) + 64 \<le> 64 * ?b" by simp
    with assms(5) not show ?thesis by fastforce
  qed simp
  moreover have "\<not> int start > push_bit 3 (bm_size bm s)"
    using assms(3) by (simp add: push_bit_eq_mult)
  ultimately show ?thesis
    using assms zero_scan.scan_from [OF assms(4), of start]
    by (simp add: find_next_zero_bit_def bm_elements_8 Let_def)
qed

text \<open>The bitmap of the witnesses: two elements, bits 2, 4 and 64 set.\<close>

definition example_bitmap :: bitmap where
  "example_bitmap = \<lparr>bm_type = GType CODE_ARRAY 16 [] (Some unsigned_long_type) [],
     bm_mem = (\<lambda>i. if i = 0 then Some 20 else if i = 1 then Some 1 else None)\<rparr>"

lemma example_bitmap_ok:
  "check_bitmap_type example_bitmap = Inr ()" "bm_size example_bitmap None = 16"
  "bm_readable example_bitmap 2"
  by code_simp+

theorem for_each_set_bit_witness:
  "for_each_set_bit example_bitmap None = gen_of_list [2, 4, 64]"
proof -
  have "map int (filter (bm_bit example_bitmap) [0..<128]) = [2, 4, 64]" by code_simp
  then show ?thesis
    using for_each_set_bit_correct [of example_bitmap None] example_bitmap_ok by simp
qed


theorem find_next_zero_bit_witness: "find_next_zero_bit example_bitmap 2 None = Inr 4"
proof -
  have h: "\<exists>i\<in>{64 * (2 div 64)..<64 * (2 div 64) + 64}. \<not> bm_bit example_bitmap i"
    by (rule bexI [of _ 0]) code_simp+
  have "find (\<lambda>i. \<not> bm_bit example_bitmap i) [2..<128] = Some 3" by code_simp
  with h show ?thesis
    using find_next_zero_bit_correct [of example_bitmap None 2] example_bitmap_ok by simp
qed

text \<open>When the element that holds \<open>start\<close> has no set bit at all, \<open>find_next_set_bit\<close> skips it
  without clearing the offset and then ignores the low bits of the next element: from bit 5 of a
  bitmap whose only set bit is bit 64 it reports that there is none, although from bit 0 it finds
  the bit.\<close>

theorem find_next_set_bit_skips:
  "\<exists>bm. check_bitmap_type bm = Inr () \<and> bm_size bm None = 16 \<and> bm_readable bm 2 \<and>
     filter (bm_bit bm) [5..<128] = [64] \<and>
     find_next_set_bit bm 5 None = Inr 0 \<and> find_next_set_bit bm 0 None = Inr 65"
proof -
  let ?bm = "example_bitmap\<lparr>bm_mem := \<lambda>i. if i = 0 then Some 0 else if i = 1 then Some 1 else None\<rparr>"
  have "check_bitmap_type ?bm = Inr ()" by code_simp
  moreover have "bm_size ?bm None = 16" by code_simp
  moreover have "bm_readable ?bm 2" by code_simp
  moreover have "filter (bm_bit ?bm) [5..<128] = [64]" by code_simp
  moreover have "find_next_set_bit ?bm 5 None = Inr 0" by code_simp
  moreover have "find_next_set_bit ?bm 0 None = Inr 65" by code_simp
  ultimately show ?thesis by blast
qed

lemma last_set_loop_find:
  assumes "bm_readable bm b"
  shows "last_set_loop bm (rev (map int [0..<b])) =
     Inr (one_based (find (bm_bit bm) (rev [0..<64 * b])))"
  using assms
proof (induction b)
  case 0
  then show ?case by simp
next
  case (Suc b)
  obtain w where w: "bm_mem bm (int b) = Some w" using bm_readableD [OF Suc.prems] by blast
  have at: "bm_bit bm (64 * b + j) = bit w j" if "j < 64" for j
    using that w by (simp add: bm_bit_of_def)
  have app: "rev [0..<64 * Suc b] = rev [64 * b..<64 * b + 64] @ rev [0..<64 * b]"
    using upt_split [of 0 "64 * b" "64 * b + 64"] by (simp add: add.commute)
  have IH: "last_set_loop bm (rev (map int [0..<b])) =
     Inr (one_based (find (bm_bit bm) (rev [0..<64 * b])))"
    using Suc.IH bm_readable_mono [OF Suc.prems] by simp
  show ?case
  proof (cases "w = 0")
    case True
    have "\<not> bm_bit bm x" if "x \<in> set (rev [64 * b..<64 * b + 64])" for x
      using at [of "x - 64 * b"] that True by (auto simp: less_diff_conv2)
    then have "find (bm_bit bm) (rev [64 * b..<64 * b + 64]) = None"
      unfolding find_None_iff by blast
    with IH True w show ?thesis
      unfolding app find_append by (simp add: bm_get_def)
  next
    case False
    then obtain n where n: "n < 64" "high_bit w n" using high_bit_ex by blast
    have rn: "bm_bit bm (rev [64 * b..<64 * b + 64] ! j) = bit w (63 - j)" if "j < 64" for j
      using that at [of "63 - j"] by (simp add: rev_nth)
    have "rev [64 * b..<64 * b + 64] ! (63 - n) = 64 * b + n" "bm_bit bm (64 * b + n)"
      using n at by (simp_all add: rev_nth high_bit_def)
    then have "find (bm_bit bm) (rev [64 * b..<64 * b + 64]) = Some (64 * b + n)"
      unfolding find_Some_iff using n rn
      by (intro exI [of _ "63 - n"]) (auto simp: high_bit_def)
    with n False w find_last_set_bit_ulong_high [OF n(2)] show ?thesis
      unfolding app find_append by (simp add: bm_get_def Let_def)
  qed
qed

text \<open>\<open>find_last_set_bit\<close> returns the highest set bit of the bitmap, counted from 1, or 0 if no
  bit is set.\<close>

theorem find_last_set_bit_correct:
  assumes "check_bitmap_type bm = Inr ()" and "0 \<le> bm_size bm s"
    and "bm_readable bm (nat (bm_size bm s) div 8)"
  shows "find_last_set_bit bm s =
     Inr (one_based (find (bm_bit bm) (rev [0..<64 * (nat (bm_size bm s) div 8)])))"
  using assms last_set_loop_find [OF assms(3)]
    upto_int_upt [of 0 "nat (bm_size bm s) div 8"]
  by (simp add: find_last_set_bit_def bm_elements_8 Let_def rev_map)

theorem find_last_set_bit_witness: "find_last_set_bit example_bitmap None = Inr 65"
proof -
  have "find (bm_bit example_bitmap) (rev [0..<128]) = Some 64" by code_simp
  then show ?thesis
    using find_last_set_bit_correct [of example_bitmap None] example_bitmap_ok by simp
qed

text \<open>\<open>test_bit\<close> and \<open>for_each_set_bit\<close> agree on a bitmap of whole words: \<open>test_bit\<close> is true
  exactly for the positions the generator yields, and raises \<^verbatim>\<open>ValueError\<close> from the end of the
  bitmap on.\<close>

theorem test_bit_correct:
  assumes "check_bitmap_type bm = Inr ()" and "bm_size bm s = 8 * int n"
    and "bm_readable bm n"
  shows "test_bit bm (int b) s =
     (if b < 64 * n then Inr (int b \<in> set (fst (for_each_set_bit bm s))) else Inl ValueError)"
proof -
  have el: "bm_elements (bm_size bm s) = int n"
    using assms(2) by (simp add: bm_elements_def unsigned_long_type_def)
  have conv: "int b div 64 = int (b div 64)" "int b mod 64 = int (b mod 64)"
    by (simp_all add: zdiv_int zmod_int)
  show ?thesis
  proof (cases "b < 64 * n")
    case False
    then have "n \<le> b div 64" by (simp add: less_eq_div_iff_mult_less_eq mult.commute)
    with False el conv assms(1) show ?thesis
      by (simp add: test_bit_def get_bit_location_def Let_def)
  next
    case True
    then have lt: "b div 64 < n" by (simp add: less_mult_imp_div_less mult.commute)
    then obtain w where w: "bm_mem bm (int (b div 64)) = Some w"
      using bm_readableD [OF assms(3)] by blast
    have "set (fst (for_each_set_bit bm s)) = int ` {i. i < 64 * n \<and> bm_bit bm i}"
      using for_each_set_bit_filter [OF assms(1), of s] assms(2,3) by (auto simp: nat_mult_distrib)
    moreover have "bm_bit bm b \<longleftrightarrow> bit w (b mod 64)" using w by (simp add: bm_bit_of_def)
    ultimately show ?thesis
      using True lt w el conv assms(1)
      by (auto simp: test_bit_def get_bit_location_def Let_def bm_get_def
          and_single_bit_zero_iff simp del: push_bit_of_1)
  qed
qed

theorem test_bit_witness:
  "test_bit example_bitmap 64 None = Inr True \<and> test_bit example_bitmap 128 None = Inl ValueError"
proof -
  have "int 64 \<in> set (fst (for_each_set_bit example_bitmap None))" by code_simp
  then show ?thesis
    using test_bit_correct [of example_bitmap None 2 64] test_bit_correct [of example_bitmap None 2 128]
      example_bitmap_ok by simp
qed

section \<open>Scalable bitmaps\<close>

text \<open>Bit \<open>t\<close> of a scalable bitmap: bit \<open>t mod 2\<^sup>shift\<close> of word \<open>t div 2\<^sup>shift\<close>, if not cleared.\<close>

definition sw_live :: "sbitmap_word \<Rightarrow> ulong" where
  "sw_live m = (case sw_cleared m of None \<Rightarrow> sw_word m | Some c \<Rightarrow> sw_word m AND NOT c)"

definition sb_bit :: "sbitmap \<Rightarrow> nat \<Rightarrow> bool" where
  "sb_bit sb t = (case sb_map sb (int (t div 2 ^ sb_shift sb)) of None \<Rightarrow> False
     | Some m \<Rightarrow> bit (sw_live m) (t mod 2 ^ sb_shift sb))"

text \<open>
  The layout the kernel gives a scalable bitmap: every word readable, of \<open>2\<^sup>shift\<close> bits (the last
  one may be shorter, but not so short that it misses bits below the total depth).
\<close>

definition sb_layout :: "sbitmap \<Rightarrow> bool" where
  "sb_layout sb \<longleftrightarrow> sb_shift sb \<le> 6 \<and> 0 \<le> sb_depth sb \<and> 0 \<le> sb_map_nr sb \<and>
     sb_depth sb \<le> sb_map_nr sb * 2 ^ sb_shift sb \<and>
     list_all (\<lambda>i. case sb_map sb i of None \<Rightarrow> False
       | Some m \<Rightarrow> sw_depth m \<le> 2 ^ sb_shift sb \<and>
           min (2 ^ sb_shift sb) (sb_depth sb - i * 2 ^ sb_shift sb) \<le> sw_depth m)
       [0..sb_map_nr sb - 1]"

lemma gen_for_filter:
  "(\<And>j. j \<in> set xs \<Longrightarrow> f j = (if P j then gen_of_list [g j] else gen_done)) \<Longrightarrow>
   gen_for xs f = gen_of_list (map g (filter P xs))"
  by (induction xs) (auto simp: gen_simps)

lemma sbitmap_word_bits:
  assumes "sb_map sb (int i) = Some m" "n \<le> 2 ^ sb_shift sb" "sb_shift sb \<le> 6"
  shows "gen_for [0..int n - 1] (\<lambda>j.
      if j \<ge> 64 then gen_raise OverflowError
      else if sw_live m AND push_bit (nat j) 1 \<noteq> 0
      then gen_of_list [push_bit (sb_shift sb) (int i) + j] else gen_done) =
    gen_of_list (map int (filter (sb_bit sb) [i * 2 ^ sb_shift sb..<i * 2 ^ sb_shift sb + n]))"
proof -
  let ?s = "2 ^ sb_shift sb :: nat"
  have "?s \<le> 2 ^ 6" using assms(3) by (intro power_increasing) simp_all
  then have n64: "n \<le> 64" using assms(2) by simp
  have b: "sw_live m AND push_bit j 1 = 0 \<longleftrightarrow> \<not> sb_bit sb (i * ?s + j)" if "j < n" for j
  proof -
    have "(i * ?s + j) div ?s = i" "(i * ?s + j) mod ?s = j" using that assms(2) by simp_all
    with assms(1) have "sb_bit sb (i * ?s + j) = bit (sw_live m) j" by (simp add: sb_bit_def)
    moreover have "sw_live m AND push_bit j 1 = 0 \<longleftrightarrow> \<not> bit (sw_live m) j"
      by (rule and_single_bit_zero_iff)
    ultimately show ?thesis by blast
  qed
  have shift: "[i * ?s..<i * ?s + n] = map (\<lambda>j. i * ?s + j) [0..<n]"
    by (simp add: map_add_upt add.commute)
  have "gen_for (map int [0..<n]) (\<lambda>j.
      if j \<ge> 64 then gen_raise OverflowError
      else if sw_live m AND push_bit (nat j) 1 \<noteq> 0
      then gen_of_list [push_bit (sb_shift sb) (int i) + j] else gen_done) =
    gen_of_list (map (\<lambda>j. push_bit (sb_shift sb) (int i) + j)
      (filter (\<lambda>j. sb_bit sb (i * ?s + nat j)) (map int [0..<n])))"
    using n64 b by (intro gen_for_filter) auto
  moreover have "push_bit (sb_shift sb) (int i) + int j = int (i * ?s + j)" for j
    by (simp add: push_bit_eq_mult)
  ultimately show ?thesis
    using upto_int_upt [of 0 n] by (simp add: shift filter_map comp_def)
qed

lemma sbitmap_prefix:
  assumes "sb_layout sb" "k \<le> nat (sb_map_nr sb)"
  shows "gen_for (map int [0..<k]) (\<lambda>i.
       gen_try (of_option GdbMemoryError (sb_map sb i)) (\<lambda>m.
         gen_for [0..min (sw_depth m) (sb_depth sb - push_bit (sb_shift sb) i) - 1] (\<lambda>j.
              if j \<ge> 64 then gen_raise OverflowError
              else if sw_live m AND push_bit (nat j) 1 \<noteq> 0
              then gen_of_list [push_bit (sb_shift sb) i + j] else gen_done))) =
    gen_of_list (map int (filter (sb_bit sb) [0..<min (nat (sb_depth sb)) (k * 2 ^ sb_shift sb)]))"
  using assms(2)
proof (induction k)
  case 0
  then show ?case by (simp add: gen_simps)
next
  case (Suc k)
  let ?s = "2 ^ sb_shift sb :: nat" and ?d = "nat (sb_depth sb)"
  have "int k \<in> set [0..sb_map_nr sb - 1]" using Suc.prems by auto
  with assms(1) obtain m where m: "sb_map sb (int k) = Some m"
    "sw_depth m \<le> 2 ^ sb_shift sb"
    "min (2 ^ sb_shift sb) (sb_depth sb - int k * 2 ^ sb_shift sb) \<le> sw_depth m"
    unfolding sb_layout_def list_all_iff by (fastforce split: option.splits)
  define n where "n = min ?s (?d - k * ?s)"
  have d0: "0 \<le> sb_depth sb" "sb_shift sb \<le> 6" using assms(1) by (auto simp: sb_layout_def)
  have off: "push_bit (sb_shift sb) (int k) = int (k * ?s)" by (simp add: push_bit_eq_mult)
  have cnt: "[0..min (sw_depth m) (sb_depth sb - int (k * ?s)) - 1] = [0..int n - 1]"
  proof (cases "k * ?s \<le> ?d")
    case True
    then have "int (?d - k * ?s) = sb_depth sb - int (k * ?s)" using d0 by simp
    then have "int n = min (int ?s) (sb_depth sb - int (k * ?s))"
      by (simp only: n_def of_nat_min)
    with m have "min (sw_depth m) (sb_depth sb - int (k * ?s)) = int n" by (auto simp: min_def)
    then show ?thesis by simp
  next
    case False
    then have "int ?d < int (k * ?s)" by (simp only: of_nat_less_iff not_le)
    then have "sb_depth sb - int (k * ?s) < 0" "n = 0"
      using d0 False by (simp_all add: n_def)
    then show ?thesis by simp
  qed
  have split: "[0..<min ?d (Suc k * ?s)] = [0..<min ?d (k * ?s)] @ [k * ?s..<k * ?s + n]"
  proof (cases "k * ?s \<le> ?d")
    case True
    then have "min ?d (Suc k * ?s) = k * ?s + n" "min ?d (k * ?s) = k * ?s"
      by (auto simp: n_def min_def)
    then show ?thesis using upt_split [of 0 "k * ?s" "k * ?s + n"] by simp
  next
    case False
    then show ?thesis by (simp add: n_def min_def)
  qed
  have IH: "gen_for (map int [0..<k]) (\<lambda>i.
       gen_try (of_option GdbMemoryError (sb_map sb i)) (\<lambda>m.
         gen_for [0..min (sw_depth m) (sb_depth sb - push_bit (sb_shift sb) i) - 1] (\<lambda>j.
              if j \<ge> 64 then gen_raise OverflowError
              else if sw_live m AND push_bit (nat j) 1 \<noteq> 0
              then gen_of_list [push_bit (sb_shift sb) i + j] else gen_done))) =
    gen_of_list (map int (filter (sb_bit sb) [0..<min ?d (k * ?s)]))"
    using Suc.IH Suc.prems by simp
  show ?case
    using sbitmap_word_bits [OF m(1), of n] d0
    by (simp only: upt_Suc_append map_append list.map gen_for_append IH gen_for.simps m
        of_option_simps gen_try_simps off cnt split filter_append le0)
       (simp add: n_def gen_simps off)
qed

lemma sbitmap_layout_tags:
  assumes "sb_layout sb"
  shows "sbitmap_for_each_set sb =
    gen_of_list (map int (filter (sb_bit sb) [0..<nat (sb_depth sb)]))"
proof -
  have r: "0 \<le> sb_map_nr sb" "sb_depth sb \<le> sb_map_nr sb * 2 ^ sb_shift sb"
    using assms by (auto simp: sb_layout_def)
  then have "nat (sb_depth sb) \<le> nat (sb_map_nr sb * 2 ^ sb_shift sb)" by (simp add: nat_mono)
  then have "min (nat (sb_depth sb)) (nat (sb_map_nr sb) * 2 ^ sb_shift sb) = nat (sb_depth sb)"
    using r by (simp add: nat_mult_distrib nat_power_eq)
  moreover have "[0..sb_map_nr sb - 1] = map int [0..<nat (sb_map_nr sb)]"
    using upto_int_upt [of 0 "nat (sb_map_nr sb)"] r by simp
  ultimately show ?thesis
    using sbitmap_prefix [OF assms, of "nat (sb_map_nr sb)"]
    by (simp add: sbitmap_for_each_set_def sw_live_def [symmetric] Let_def)
qed

text \<open>On a scalable bitmap with the kernel's layout \<open>sbitmap_for_each_set\<close> yields exactly the tags
  below the depth whose bit is set and not marked cleared, in increasing order.\<close>

theorem sbitmap_for_each_set_correct:
  assumes "sb_layout sb"
  shows "sbitmap_for_each_set sb =
    gen_of_list (map int (filter (sb_bit sb) [0..<nat (sb_depth sb)]))"
  using assms by (rule sbitmap_layout_tags)

definition example_sbitmap :: sbitmap where
  "example_sbitmap = \<lparr>sb_depth = 6, sb_shift = 2, sb_map_nr = 2,
     sb_map = (\<lambda>i. if i = 0 then Some \<lparr>sw_word = 0b1011, sw_cleared = Some 0b10, sw_depth = 4\<rparr>
       else if i = 1 then Some \<lparr>sw_word = 0b1110, sw_cleared = None, sw_depth = 2\<rparr> else None)\<rparr>"

theorem sbitmap_for_each_set_witness:
  "sbitmap_for_each_set example_sbitmap = gen_of_list [0, 3, 5]"
proof -
  have "sb_layout example_sbitmap" by code_simp
  moreover have "map int (filter (sb_bit example_sbitmap) [0..<6]) = [0, 3, 5]" by code_simp
  moreover have "sb_depth example_sbitmap = 6" by code_simp
  ultimately show ?thesis
    using sbitmap_for_each_set_correct [of example_sbitmap] by simp
qed

end
