(* ===== verification/Struct_Layout.thy ===== *)
theory Struct_Layout
  imports Prelude
begin

text \<open>
  The helpers of \<^verbatim>\<open>crash/util/__init__.py\<close>: member offsets of C types, \<open>container_of\<close>, member
  variants, arrays, typed pointers, flag and UUID decoding, number parsing.

  Types are the attribute trees of \<open>Prelude\<close>.  What gdb looks up by name (types, symbols) is a
  parameter.  Addresses are integers; pointer arithmetic of gdb wraps at \<open>2\<^sup>64\<close>.
\<close>

section \<open>Python strings\<close>

text \<open>\<open>s.split(c)\<close> for a one-character separator, and \<open>sep.join(xs)\<close>.\<close>

fun py_split :: "char \<Rightarrow> string \<Rightarrow> string list" where
  "py_split c [] = [[]]"
| "py_split c (x # xs) =
     (if x = c then [] # py_split c xs
      else (case py_split c xs of [] \<Rightarrow> [[x]] | y # ys \<Rightarrow> (x # y) # ys))"

fun py_join :: "string \<Rightarrow> string list \<Rightarrow> string" where
  "py_join sep [] = []"
| "py_join sep [x] = x"
| "py_join sep (x # y # ys) = x @ sep @ py_join sep (y # ys)"

text \<open>\<open>"{}".format(n)\<close> for a natural number: its decimal digits.\<close>

fun py_digits :: "nat \<Rightarrow> string" where
  "py_digits n = (if n < 10 then [char_of (48 + n)] else py_digits (n div 10) @ [char_of (48 + n mod 10)])"

declare py_digits.simps [simp del]

section \<open>Member offsets\<close>

definition is_struct_or_union :: "gtype \<Rightarrow> bool" where
  "is_struct_or_union t \<longleftrightarrow> gt_code t = CODE_STRUCT \<or> gt_code t = CODE_UNION"

text \<open>
  One component of a member specification: the loop over \<open>gdbtype.fields()\<close>, which steps into
  anonymous structs and unions by a recursive call of \<open>__offsetof\<close> with \<open>error = False\<close>.
\<close>

fun offsetof_member :: "gtype \<Rightarrow> string \<Rightarrow> (nat \<times> gtype) option res"
  and offsetof_fields :: "gfield list \<Rightarrow> string \<Rightarrow> (nat \<times> gtype) option res" where
  "offsetof_member (GType code sz nm tg fs) m =
     (if code \<noteq> CODE_STRUCT \<and> code \<noteq> CODE_UNION then Inl InvalidComponentTypeError
      else offsetof_fields fs m)"
| "offsetof_fields [] m = Inr None"
| "offsetof_fields (GField fname bitpos ftype # fs) m =
     (if fname = Some m then Inr (Some (drop_bit 3 bitpos, ftype))
      else if fname = None then
        bindR (offsetof_member ftype m) (\<lambda>r. case r of
            Some (off, t) \<Rightarrow> Inr (Some (drop_bit 3 bitpos + off, t))
          | None \<Rightarrow> offsetof_fields fs m)
      else offsetof_fields fs m)"

text \<open>The loop of \<open>__offsetof\<close> over \<open>spec.split('.')\<close>.\<close>

fun offsetof_path :: "gtype \<Rightarrow> string list \<Rightarrow> bool \<Rightarrow> nat \<Rightarrow> (nat \<times> gtype) option res" where
  "offsetof_path t [] err offset = Inr (Some (offset, t))"
| "offsetof_path t (m # ms) err offset =
     bindR (offsetof_member t m) (\<lambda>r. case r of
         None \<Rightarrow> if err then Inl InvalidComponentNameError else Inr None
       | Some (off, t') \<Rightarrow> offsetof_path t' ms err (offset + off))"

definition offsetof_spec :: "gtype \<Rightarrow> string \<Rightarrow> bool \<Rightarrow> (nat \<times> gtype) option res" where
  "offsetof_spec t spec err = offsetof_path t (py_split CHR ''.'' spec) err 0"

definition offsetof_type :: "gtype \<Rightarrow> string \<Rightarrow> bool \<Rightarrow> (nat \<times> gtype) option res" where
  "offsetof_type gdbtype member_name err =
     bindR (if gt_code gdbtype = CODE_PTR then of_option RuntimeError (gt_target gdbtype)
            else Inr gdbtype) (\<lambda>t.
     if \<not> is_struct_or_union t then Inl NotStructOrUnionError
     else case offsetof_spec t member_name err of
         Inr r \<Rightarrow> Inr r
       | Inl e \<Rightarrow> if catches InvalidComponentBaseError e
                  then if err then Inl InvalidComponentError else Inr None
                  else Inl e)"

definition offsetof :: "gtype \<Rightarrow> string \<Rightarrow> bool \<Rightarrow> nat option res" where
  "offsetof gdbtype member_name err =
     bindR (offsetof_type gdbtype member_name err) (\<lambda>res. Inr (map_option fst res))"

text \<open>\<open>offsetof(gdbtype, member)\<close> with the default \<open>error = True\<close>, which never returns \<open>None\<close>.\<close>

definition offsetof_err :: "gtype \<Rightarrow> string \<Rightarrow> nat res" where
  "offsetof_err gdbtype m = bindR (offsetof gdbtype m True) (of_option TypeError)"

definition ptr_add :: "addr \<Rightarrow> int \<Rightarrow> addr" where
  "ptr_add a n = (a + n) mod 2 ^ 64"

text \<open>
  The address of the object \<open>container_of\<close> returns; \<open>val\<close> is the pointer passed, or the address of
  the value passed.
\<close>

definition container_of :: "addr \<Rightarrow> gtype \<Rightarrow> string \<Rightarrow> addr res" where
  "container_of val gdbtype m =
     bindR (offsetof_err gdbtype m) (\<lambda>offset. Inr (ptr_add val (- int offset)))"

section \<open>Resolving types and symbols\<close>

datatype type_specifier = SpecType gtype | SpecValue gtype | SpecStr string | SpecSymbol gtype
  | SpecOther

definition resolve_type :: "(string \<Rightarrow> gtype option) \<Rightarrow> type_specifier \<Rightarrow> gtype res" where
  "resolve_type lookup_type val = (case val of
       SpecType t \<Rightarrow> Inr t
     | SpecValue t \<Rightarrow> Inr t
     | SpecStr s \<Rightarrow> of_option MissingTypeError (lookup_type s)
     | SpecSymbol t \<Rightarrow> Inr t
     | SpecOther \<Rightarrow> Inl TypeError)"

definition struct_has_member ::
  "(string \<Rightarrow> gtype option) \<Rightarrow> type_specifier \<Rightarrow> string \<Rightarrow> bool res" where
  "struct_has_member lookup_type spec name =
     bindR (resolve_type lookup_type spec) (\<lambda>gdbtype.
       case offsetof gdbtype name True of
         Inr _ \<Rightarrow> Inr True
       | Inl e \<Rightarrow> if catches InvalidComponentError e then Inr False else Inl e)"

definition get_symbol_value :: "(string \<Rightarrow> 'v option) \<Rightarrow> string \<Rightarrow> 'v res" where
  "get_symbol_value lookup_symbol symname = of_option MissingSymbolError (lookup_symbol symname)"

definition safe_get_symbol_value :: "(string \<Rightarrow> 'v option) \<Rightarrow> string \<Rightarrow> 'v option res" where
  "safe_get_symbol_value lookup_symbol symname =
     (case get_symbol_value lookup_symbol symname of
        Inr v \<Rightarrow> Inr (Some v)
      | Inl e \<Rightarrow> if catches MissingSymbolError e then Inr None else Inl e)"

fun find_variant :: "gtype \<Rightarrow> string list \<Rightarrow> string res" where
  "find_variant gdbtype [] = Inl TypeError"
| "find_variant gdbtype (v # vs) =
     bindR (offsetof gdbtype v False) (\<lambda>r.
       if r \<noteq> None then Inr v else find_variant gdbtype vs)"

text \<open>After an empty list of variants the error message itself fails on \<open>variants[0]\<close>.\<close>

definition find_member_variant :: "gtype \<Rightarrow> string list \<Rightarrow> string res" where
  "find_member_variant gdbtype variants =
     (if variants = [] then Inl IndexError else find_variant gdbtype variants)"

definition safe_find_member_variant :: "gtype \<Rightarrow> string list \<Rightarrow> string option res" where
  "safe_find_member_variant gdbtype variants =
     (case find_member_variant gdbtype variants of
        Inr v \<Rightarrow> Inr (Some v)
      | Inl e \<Rightarrow> if catches TypeError e then Inr None else Inl e)"

definition safe_lookup_type :: "(string \<Rightarrow> gtype option) \<Rightarrow> string \<Rightarrow> gtype option" where
  "safe_lookup_type lookup_type name = lookup_type name"

section \<open>Arrays\<close>

definition array_size :: "gtype \<Rightarrow> int res" where
  "array_size t = bindR (of_option GdbError (gt_target t)) (\<lambda>u.
     if gt_sizeof u = 0 then Inl ZeroDivisionError
     else Inr (int (gt_sizeof t div gt_sizeof u)))"

text \<open>\<open>value[i]\<close> for each index; \<open>at\<close> reads one element.\<close>

definition array_for_each :: "gtype \<Rightarrow> (int \<Rightarrow> 'v res) \<Rightarrow> 'v gen" where
  "array_for_each t at = gen_try (array_size t) (\<lambda>n. gen_for [0..n - 1] (\<lambda>i. gen_of_res (at i)))"

section \<open>Numbers in strings\<close>

text \<open>
  Python's \<open>int(s, base)\<close> on ASCII strings: surrounding white space, a sign, a base prefix, digits with
  single underscores between them.  Base 0 takes the base from the prefix, and without a prefix is
  decimal, without leading zeros except for zero itself.
\<close>

definition is_space :: "char \<Rightarrow> bool" where
  "is_space c \<longleftrightarrow> c \<in> {CHR '' '', CHR 0x09, CHR 0x0a, CHR 0x0b, CHR 0x0c, CHR 0x0d, CHR 0x1c, CHR 0x1d, CHR 0x1e,
     CHR 0x1f, CHR 0x85, CHR 0xa0}"

definition py_strip :: "string \<Rightarrow> string" where
  "py_strip s = rev (dropWhile is_space (rev (dropWhile is_space s)))"

definition digit_val :: "char \<Rightarrow> nat option" where
  "digit_val c = (let n = of_char c :: nat in
     if 48 \<le> n \<and> n \<le> 57 then Some (n - 48)
     else if 97 \<le> n \<and> n \<le> 122 then Some (n - 87)
     else if 65 \<le> n \<and> n \<le> 90 then Some (n - 55)
     else None)"

text \<open>The digits after at least one digit has been read.\<close>

fun parse_digits :: "nat \<Rightarrow> nat \<Rightarrow> string \<Rightarrow> nat option" where
  "parse_digits base acc [] = Some acc"
| "parse_digits base acc (c # cs) =
     (if c = CHR ''_'' then
        (case cs of [] \<Rightarrow> None
         | d # ds \<Rightarrow> (case digit_val d of
               Some v \<Rightarrow> if v < base then parse_digits base (acc * base + v) ds else None
             | None \<Rightarrow> None))
      else (case digit_val c of
               Some v \<Rightarrow> if v < base then parse_digits base (acc * base + v) cs else None
             | None \<Rightarrow> None))"

fun parse_number :: "nat \<Rightarrow> string \<Rightarrow> nat option" where
  "parse_number base [] = None"
| "parse_number base (c # cs) =
     (case digit_val c of
        Some v \<Rightarrow> if v < base then parse_digits base v cs else None
      | None \<Rightarrow> None)"

definition prefix_base :: "string \<Rightarrow> (nat \<times> string) option" where
  "prefix_base s = (case s of
       z # x # rest \<Rightarrow>
         if z = CHR ''0'' then
           (if x = CHR ''x'' \<or> x = CHR ''X'' then Some (16, rest)
            else if x = CHR ''o'' \<or> x = CHR ''O'' then Some (8, rest)
            else if x = CHR ''b'' \<or> x = CHR ''B'' then Some (2, rest)
            else None)
         else None
     | _ \<Rightarrow> None)"

text \<open>After a prefix one underscore may precede the first digit.\<close>

definition skip_underscore :: "string \<Rightarrow> string" where
  "skip_underscore s = (case s of c # cs \<Rightarrow> if c = CHR ''_'' then cs else s | [] \<Rightarrow> s)"

definition parse_unsigned :: "nat \<Rightarrow> string \<Rightarrow> nat option" where
  "parse_unsigned base s =
     (case prefix_base s of
        Some (b, rest) \<Rightarrow>
          if base = 0 \<or> base = b then parse_number b (skip_underscore rest) else parse_number base s
      | None \<Rightarrow>
          if base = 0 then
            (case parse_number 10 s of
               Some n \<Rightarrow> if hd s = CHR ''0'' \<and> n \<noteq> 0 then None else Some n
             | None \<Rightarrow> None)
          else parse_number base s)"

definition py_int :: "string \<Rightarrow> nat \<Rightarrow> int res" where
  "py_int s base = of_option ValueError (case py_strip s of
       [] \<Rightarrow> None
     | c # cs \<Rightarrow>
         if c = CHR ''-'' then map_option (\<lambda>n. - int n) (parse_unsigned base cs)
         else if c = CHR ''+'' then map_option int (parse_unsigned base cs)
         else map_option int (parse_unsigned base (c # cs)))"

definition safe_int :: "string \<Rightarrow> int option" where
  "safe_int value = (case py_int value 0 of
       Inr n \<Rightarrow> Some n
     | Inl _ \<Rightarrow> (case py_int value 16 of Inr n \<Rightarrow> Some n | Inl _ \<Rightarrow> None))"

section \<open>Typed pointers\<close>

datatype address_specifier =
    AddrPtr addr     \<comment> \<open>a pointer value\<close>
  | AddrObject addr  \<comment> \<open>a value that is not a pointer, at this address\<close>
  | AddrStr string
  | AddrInt int

text \<open>
  The address and the type of the pointer returned.  The source catches \<^verbatim>\<open>TypeError\<close> around
  \<open>int(val, 16)\<close>, which raises \<^verbatim>\<open>ValueError\<close> for a string that is no number.
\<close>

definition get_typed_pointer :: "address_specifier \<Rightarrow> gtype \<Rightarrow> (addr \<times> gtype) res" where
  "get_typed_pointer val gdbtype =
     (let t = (if gt_code gdbtype \<noteq> CODE_PTR then gt_pointer gdbtype else gdbtype) in
      case val of
        AddrPtr a \<Rightarrow> Inr (a, t)
      | AddrObject a \<Rightarrow> Inr (a, t)
      | AddrStr s \<Rightarrow> (case py_int s 16 of
            Inr n \<Rightarrow> Inr (n, t)
          | Inl e \<Rightarrow> if catches TypeError e then Inl TypeError else Inl e)
      | AddrInt n \<Rightarrow> Inr (n, t))"

section \<open>Decoders\<close>

text \<open>The name of bit \<open>n\<close>, and the string for a flags value of \<open>sizeof\<close> bytes.\<close>

definition flag_name :: "(int \<rightharpoonup> string) \<Rightarrow> nat \<Rightarrow> string" where
  "flag_name names n = (case names (push_bit n 1) of Some s \<Rightarrow> s | None \<Rightarrow> ''FLAG_'' @ py_digits n)"

definition decode_flags :: "int \<Rightarrow> nat \<Rightarrow> (int \<rightharpoonup> string) \<Rightarrow> string \<Rightarrow> string" where
  "decode_flags flags_val sizeof names separator =
     py_join separator
       (map (flag_name names) (filter (\<lambda>n. flags_val AND push_bit n 1 \<noteq> 0) [0..<push_bit 3 sizeof]))"

text \<open>An array of \<open>char\<close> or \<open>uint8_t\<close> as the integers its elements convert to.\<close>

fun uuid_fold :: "int \<Rightarrow> int list \<Rightarrow> int" where
  "uuid_fold u [] = u"
| "uuid_fold u (b # bs) = uuid_fold (push_bit 8 u + b) bs"

text \<open>\<open>uuid.UUID(int=u)\<close> raises \<^verbatim>\<open>ValueError\<close> unless \<open>0 \<le> u < 2\<^sup>128\<close>.\<close>

definition uuid_of_int :: "int \<Rightarrow> int res" where
  "uuid_of_int u = (if 0 \<le> u \<and> u < 2 ^ 128 then Inr u else Inl ValueError)"

definition decode_uuid :: "gtype \<Rightarrow> (nat \<Rightarrow> int res) \<Rightarrow> int res" where
  "decode_uuid t at =
     (if gt_code t \<noteq> CODE_ARRAY \<or> map_option gt_sizeof (gt_target t) \<noteq> Some 1 \<or> gt_sizeof t \<noteq> 16
      then Inl TypeError
      else bindR (mapR at [0..<16]) (\<lambda>bs. uuid_of_int (uuid_fold 0 bs)))"

text \<open>
  A \<open>uuid_t\<close> or a pointer to one; \<open>field\<close> gives the type and the elements of the array member that
  holds the bytes.
\<close>

definition decode_uuid_t ::
  "gtype \<Rightarrow> gtype \<Rightarrow> (string \<Rightarrow> gtype \<times> (nat \<Rightarrow> int res)) \<Rightarrow> int res" where
  "decode_uuid_t uuid_t_type t field =
     (if t \<noteq> uuid_t_type \<and> \<not> (gt_code t = CODE_PTR \<and> gt_target t = Some uuid_t_type)
      then Inl TypeError
      else bindR (struct_has_member (\<lambda>_. None) (SpecType uuid_t_type) ''b'') (\<lambda>has_b.
        let (ft, at) = field (if has_b then ''b'' else ''__u_bits'') in decode_uuid ft at))"

section \<open>Lemmas\<close>

subsection \<open>Strings\<close>

lemma py_split_nonempty [simp]: "py_split c s \<noteq> []"
  by (induction s) (auto split: list.splits)

lemma py_split_append: "py_split c (s @ c # t) = py_split c s @ py_split c t"
  by (induction s) (auto split: list.splits)

lemma py_split_no_sep: "c \<notin> set s \<Longrightarrow> py_split c s = [s]"
  by (induction s) auto

lemma py_split_join:
  "xs \<noteq> [] \<Longrightarrow> (\<And>x. x \<in> set xs \<Longrightarrow> c \<notin> set x) \<Longrightarrow> py_split c (py_join [c] xs) = xs"
proof (induction "[c]" xs rule: py_join.induct)
  case 1
  then show ?case by simp
next
  case (2 x)
  then show ?case by (simp add: py_split_no_sep)
next
  case (3 x y ys)
  then show ?case by (simp add: py_split_append py_split_no_sep)
qed

lemma digits_no_bar: "CHR ''|'' \<notin> set (py_digits n)" "CHR '','' \<notin> set (py_digits n)"
proof -
  have "\<forall>c \<in> set (py_digits n). 48 \<le> (of_char c :: nat) \<and> (of_char c :: nat) \<le> 57"
  proof (induction n rule: py_digits.induct)
    case (1 n)
    have "n < 10 \<Longrightarrow> (48 + n) mod 256 = 48 + n" by simp
    moreover have "(48 + n mod 10) mod 256 = 48 + n mod 10" by simp
    ultimately show ?case using 1 by (auto simp: py_digits.simps [of n])
  qed
  then show "CHR ''|'' \<notin> set (py_digits n)" "CHR '','' \<notin> set (py_digits n)" by force+
qed

subsection \<open>Offsets\<close>

text \<open>
  The reference for member lookup: the named members of a type in order, those of anonymous
  structs and unions at their offset in the enclosing type.
\<close>

fun flat_members :: "gtype \<Rightarrow> (string \<times> (nat \<times> gtype)) list"
  and flat_fields :: "gfield list \<Rightarrow> (string \<times> (nat \<times> gtype)) list" where
  "flat_members (GType code sz nm tg fs) = flat_fields fs"
| "flat_fields [] = []"
| "flat_fields (GField fname bitpos ftype # fs) =
     (case fname of
        Some s \<Rightarrow> [(s, (bitpos div 8, ftype))]
      | None \<Rightarrow> map (\<lambda>(s, (off, t)). (s, (bitpos div 8 + off, t))) (flat_members ftype)) @
     flat_fields fs"

text \<open>Every anonymous member, at any depth, is itself a struct or union.\<close>

fun anon_ok :: "gtype \<Rightarrow> bool" and anon_ok_fields :: "gfield list \<Rightarrow> bool" where
  "anon_ok (GType code sz nm tg fs) \<longleftrightarrow> (code = CODE_STRUCT \<or> code = CODE_UNION) \<and> anon_ok_fields fs"
| "anon_ok_fields [] \<longleftrightarrow> True"
| "anon_ok_fields (GField fname bitpos ftype # fs) \<longleftrightarrow>
     (fname = None \<longrightarrow> anon_ok ftype) \<and> anon_ok_fields fs"

lemma map_of_shift:
  "map_of (map (\<lambda>(s, (off, t)). (s, (d + off, t))) xs) m =
   map_option (\<lambda>(off, t). (d + off, t)) (map_of xs m)"
  by (induction xs) auto

lemma offsetof_member_flat:
  "anon_ok t \<Longrightarrow> offsetof_member t m = Inr (map_of (flat_members t) m)"
  "anon_ok_fields fs \<Longrightarrow> offsetof_fields fs m = Inr (map_of (flat_fields fs) m)"
proof (induction t m and fs m rule: offsetof_member_offsetof_fields.induct)
  case (3 fname bitpos ftype fs m)
  show ?case
  proof (cases fname)
    case None
    with 3 have inner: "offsetof_member ftype m = Inr (map_of (flat_members ftype) m)" by simp
    show ?thesis
    proof (cases "map_of (flat_members ftype) m")
      case None
      with inner \<open>fname = None\<close> 3 show ?thesis
        by (simp add: map_of_shift drop_bit_eq_div map_add_def)
    next
      case (Some p)
      with inner \<open>fname = None\<close> 3 show ?thesis
        by (cases p) (simp add: map_of_shift drop_bit_eq_div map_add_def split: option.splits)
    qed
  next
    case (Some s)
    with 3 show ?thesis by (auto simp: drop_bit_eq_div)
  qed
qed auto

lemma offsetof_path_shift:
  "offsetof_path t ms err (d + offset) =
   (case offsetof_path t ms err offset of Inl e \<Rightarrow> Inl e
    | Inr r \<Rightarrow> Inr (map_option (\<lambda>(o1, t1). (d + o1, t1)) r))"
proof (induction ms arbitrary: t offset)
  case Nil
  then show ?case by simp
next
  case (Cons m ms)
  show ?case
  proof (cases "offsetof_member t m")
    case (Inr r)
    then show ?thesis
      by (cases r) (auto simp: Cons.IH add.assoc split: sum.splits)
  qed simp
qed

lemma offsetof_path_append:
  "offsetof_path t (ms @ ns) err offset =
   bindR (offsetof_path t ms err offset) (\<lambda>r. case r of
       None \<Rightarrow> Inr None
     | Some (o1, t1) \<Rightarrow> offsetof_path t1 ns err o1)"
proof (induction ms arbitrary: t offset)
  case Nil
  then show ?case by simp
next
  case (Cons m ms)
  show ?case
  proof (cases "offsetof_member t m")
    case (Inr r)
    then show ?thesis by (cases r) (auto simp: Cons.IH)
  qed simp
qed

lemma offsetof_spec_dot:
  "offsetof_spec t (s @ CHR ''.'' # s') err =
   bindR (offsetof_spec t s err) (\<lambda>r. case r of
       None \<Rightarrow> Inr None
     | Some (o1, t1) \<Rightarrow> bindR (offsetof_spec t1 s' err) (\<lambda>r'.
         Inr (map_option (\<lambda>(o2, t2). (o1 + o2, t2)) r')))"
proof -
  have shift: "offsetof_path t1 ms err o1 = bindR (offsetof_path t1 ms err 0) (\<lambda>r'.
         Inr (map_option (\<lambda>(o2, t2). (o1 + o2, t2)) r'))" for t1 ms o1
    using offsetof_path_shift [of t1 ms err o1 0] by (cases "offsetof_path t1 ms err 0") auto
  show ?thesis
    unfolding offsetof_spec_def py_split_append offsetof_path_append
  proof (intro arg_cong [of _ _ "bindR _"] ext)
    fix r :: "(nat \<times> gtype) option"
    show "(case r of None \<Rightarrow> Inr None
        | Some (o1, t1) \<Rightarrow> offsetof_path t1 (py_split CHR ''.'' s') err o1) =
      (case r of None \<Rightarrow> Inr None
        | Some (o1, t1) \<Rightarrow> bindR (offsetof_path t1 (py_split CHR ''.'' s') err 0) (\<lambda>r'.
            Inr (map_option (\<lambda>(o2, t2). (o1 + o2, t2)) r')))"
    proof (cases r)
      case (Some p)
      then show ?thesis using shift [of "snd p" _ "fst p"] by (cases p) simp
    qed simp
  qed
qed

lemma offsetof_path_errors:
  "offsetof_path t ms err offset = Inl e \<Longrightarrow> catches InvalidComponentBaseError e"
  "offsetof_member t m = Inl e \<Longrightarrow> e = InvalidComponentTypeError"
proof -
  have "offsetof_member t m = Inl e \<Longrightarrow> e = InvalidComponentTypeError"
    and "offsetof_fields fs m = Inl e \<Longrightarrow> e = InvalidComponentTypeError" for t fs m
    by (induction t m and fs m rule: offsetof_member_offsetof_fields.induct)
       (auto simp: bindR_eq_Inl split: if_splits option.splits, metis option.exhaust surj_pair)
  note memb = this(1)
  then show "offsetof_member t m = Inl e \<Longrightarrow> e = InvalidComponentTypeError" .
  have c: "catches InvalidComponentBaseError InvalidComponentTypeError"
    "catches InvalidComponentBaseError InvalidComponentNameError" by code_simp+
  show "offsetof_path t ms err offset = Inl e \<Longrightarrow> catches InvalidComponentBaseError e"
    by (induction t ms err offset rule: offsetof_path.induct)
       (auto simp: bindR_eq_Inl c dest: memb split: if_splits option.splits)
qed

text \<open>With \<open>error = False\<close> a lookup in a struct or union never raises.\<close>

lemma offsetof_False_total:
  assumes "is_struct_or_union t"
  shows "\<exists>r. offsetof t m False = Inr r"
proof -
  have "gt_code t \<noteq> CODE_PTR" using assms by (auto simp: is_struct_or_union_def)
  with assms show ?thesis
    using offsetof_path_errors(1) [of t "py_split CHR ''.'' m" False 0]
    by (auto simp: offsetof_def offsetof_type_def offsetof_spec_def split: sum.splits)
qed

lemma offsetof_struct:
  assumes "is_struct_or_union t"
  shows "offsetof_type t m True =
    (case offsetof_spec t m True of Inr r \<Rightarrow> Inr r | Inl e \<Rightarrow> Inl InvalidComponentError)"
  using assms offsetof_path_errors(1) [of t "py_split CHR ''.'' m" True 0]
  by (auto simp: offsetof_type_def is_struct_or_union_def offsetof_spec_def split: sum.splits)

lemma anon_ok_struct: "anon_ok t \<Longrightarrow> is_struct_or_union t"
  by (cases t) (auto simp: is_struct_or_union_def)

lemma offsetof_single:
  assumes "anon_ok t" and "CHR ''.'' \<notin> set m"
  shows "offsetof t m True =
    (case map_of (flat_members t) m of
       Some (off, _) \<Rightarrow> Inr (Some off) | None \<Rightarrow> Inl InvalidComponentError)"
proof -
  have "offsetof_spec t m True =
      (case map_of (flat_members t) m of
         Some p \<Rightarrow> Inr (Some p) | None \<Rightarrow> Inl InvalidComponentNameError)"
    using assms by (auto simp: offsetof_spec_def py_split_no_sep offsetof_member_flat split: option.splits)
  then show ?thesis
    using assms by (auto simp: offsetof_def offsetof_struct anon_ok_struct split: option.splits)
qed

lemma offsetof_spec_Some_struct: "offsetof_spec t m err = Inr (Some p) \<Longrightarrow> is_struct_or_union t"
  by (cases t; cases "py_split CHR ''.'' m")
     (auto simp: offsetof_spec_def is_struct_or_union_def split: if_splits)

lemma offsetof_dotted:
  assumes "offsetof_type t s True = Inr (Some (o1, t1))"
    and "offsetof_type t1 s' True = Inr (Some (o2, t2))"
    and "is_struct_or_union t" and "is_struct_or_union t1"
  shows "offsetof_type t (s @ CHR ''.'' # s') True = Inr (Some (o1 + o2, t2))"
proof -
  have "offsetof_spec t s True = Inr (Some (o1, t1))" "offsetof_spec t1 s' True = Inr (Some (o2, t2))"
    using assms by (auto simp: offsetof_struct split: sum.splits)
  then have "offsetof_spec t (s @ CHR ''.'' # s') True = Inr (Some (o1 + o2, t2))"
    by (simp add: offsetof_spec_dot)
  then show ?thesis using assms(3) by (simp add: offsetof_struct)
qed

lemma container_of_ptr_add:
  assumes "offsetof_err t m = Inr off" and "0 \<le> base" and "base < 2 ^ 64"
  shows "container_of (ptr_add base (int off)) t m = Inr base"
proof -
  have "((base + int off) mod 2 ^ 64 - int off) mod 2 ^ 64 = base"
    using assms(2, 3) by (simp add: mod_diff_left_eq)
  then show ?thesis using assms(1) by (simp add: container_of_def ptr_add_def)
qed

subsection \<open>Variants\<close>

lemma find_variant_find:
  assumes "is_struct_or_union t"
  shows "find_variant t vs =
    of_option TypeError (find (\<lambda>v. \<exists>off. offsetof t v False = Inr (Some off)) vs)"
proof (induction vs)
  case (Cons v vs)
  obtain r where "offsetof t v False = Inr r" using offsetof_False_total [OF assms] by blast
  with Cons show ?case by (cases r) auto
qed simp

subsection \<open>Decoders\<close>

lemma uuid_fold_horner: "uuid_fold u bs = u * 256 ^ length bs + uuid_fold 0 bs"
proof (induction bs arbitrary: u)
  case (Cons b bs)
  have "uuid_fold u (b # bs) = (u * 256 + b) * 256 ^ length bs + uuid_fold 0 bs"
    using Cons [of "push_bit 8 u + b"] by (simp add: push_bit_eq_mult)
  moreover have "uuid_fold 0 (b # bs) = b * 256 ^ length bs + uuid_fold 0 bs"
    using Cons [of b] by simp
  ultimately show ?case by (simp add: algebra_simps)
qed simp

lemma uuid_fold_bounds:
  "\<forall>b \<in> set bs. 0 \<le> b \<and> b < 256 \<Longrightarrow> 0 \<le> uuid_fold 0 bs \<and> uuid_fold 0 bs < 256 ^ length bs"
proof (induction bs)
  case (Cons b bs)
  then have IH: "0 \<le> uuid_fold 0 bs" "uuid_fold 0 bs < 256 ^ length bs" and b: "0 \<le> b" "b < 256"
    by auto
  have eq: "uuid_fold 0 (b # bs) = b * 256 ^ length bs + uuid_fold 0 bs"
    using uuid_fold_horner [of b bs] by simp
  have "b * 256 ^ length bs \<le> 255 * 256 ^ length bs" using b by (intro mult_right_mono) auto
  then have "uuid_fold 0 (b # bs) < 256 * 256 ^ length bs" unfolding eq using IH(2) by linarith
  moreover have "0 \<le> uuid_fold 0 (b # bs)" unfolding eq using IH b by simp
  ultimately show ?case by simp
qed simp

lemma uuid_fold_byte:
  "\<forall>b \<in> set bs. 0 \<le> b \<and> b < 256 \<Longrightarrow> i < length bs \<Longrightarrow>
   uuid_fold 0 bs div 256 ^ (length bs - 1 - i) mod 256 = bs ! i"
proof (induction bs arbitrary: i)
  case (Cons b bs)
  have eq: "uuid_fold 0 (b # bs) = uuid_fold 0 bs + b * 256 ^ length bs"
    using uuid_fold_horner [of b bs] by simp
  have bnd: "0 \<le> uuid_fold 0 bs" "uuid_fold 0 bs < 256 ^ length bs"
    using uuid_fold_bounds [of bs] Cons.prems(1) by auto
  show ?case
  proof (cases i)
    case 0
    then show ?thesis unfolding eq using bnd Cons.prems(1)
      by (simp add: div_mult_self1 div_pos_pos_trivial)
  next
    case (Suc j)
    define k where "k = length bs - 1 - j"
    have j: "j < length bs" using Suc Cons.prems by simp
    have len: "length bs = Suc (k + j)" using j unfolding k_def by simp
    have "(uuid_fold 0 bs + b * 256 ^ length bs) div 256 ^ k =
        uuid_fold 0 bs div 256 ^ k + b * 256 ^ Suc j"
    proof -
      have "b * 256 ^ length bs = (b * 256 ^ Suc j) * (256 ^ k :: int)"
        unfolding len by (simp add: power_add)
      then show ?thesis by (simp only:) (simp add: div_mult_self1)
    qed
    moreover have "(uuid_fold 0 bs div 256 ^ k + b * 256 ^ Suc j) mod 256 = uuid_fold 0 bs div 256 ^ k mod 256"
      by (metis mod_mult_self2 mult.commute mult.left_commute power_Suc)
    moreover have "uuid_fold 0 bs div 256 ^ k mod 256 = bs ! j"
      using Cons.IH [OF _ j] Cons.prems(1) unfolding k_def by simp
    moreover have "length (b # bs) - 1 - i = k" using Suc unfolding k_def by simp
    ultimately show ?thesis using Suc unfolding eq by simp
  qed
qed simp

lemma decode_flags_split:
  assumes "flags_val AND mask (push_bit 3 sizeof) \<noteq> 0"
    and "\<And>n. n < push_bit 3 sizeof \<Longrightarrow> c \<notin> set (flag_name names n)"
  shows "py_split c (decode_flags flags_val sizeof names [c]) =
    map (flag_name names) (filter (bit flags_val) [0..<push_bit 3 sizeof])"
proof -
  obtain n where "bit (flags_val AND mask (push_bit 3 sizeof)) n"
    using assms(1) by (metis bit_eq_iff bit_0_eq bot_apply bot_bool_def)
  then have "n \<in> set (filter (bit flags_val) [0..<push_bit 3 sizeof])"
    by (auto simp: bit_simps)
  then have ne: "filter (bit flags_val) [0..<push_bit 3 sizeof] \<noteq> []" by (metis empty_iff set_empty)
  have "(flags_val AND push_bit n 1 \<noteq> 0) = bit flags_val n" for n
    by (metis bit_iff_and_push_bit_not_eq_0)
  then show ?thesis
    unfolding decode_flags_def using ne assms(2) by (subst py_split_join) auto
qed

subsection \<open>Numbers\<close>

text \<open>The hexadecimal digits of \<open>"{:x}".format(n)\<close>, with which the commands print addresses.\<close>

definition hex_char :: "nat \<Rightarrow> char" where
  "hex_char d = (if d < 10 then char_of (48 + d) else char_of (87 + d))"

fun py_hex :: "nat \<Rightarrow> string" where
  "py_hex n = (if n < 16 then [hex_char n] else py_hex (n div 16) @ [hex_char (n mod 16)])"

declare py_hex.simps [simp del]

lemma digit_val_hex_char: "d < 16 \<Longrightarrow> digit_val (hex_char d) = Some d"
  by (auto simp: digit_val_def hex_char_def Let_def)

lemma digit_chars:
  assumes "digit_val c = Some d"
  shows "\<not> is_space c" "c \<noteq> CHR ''_''" "c \<noteq> CHR ''-''" "c \<noteq> CHR ''+''"
  using assms by (auto simp: digit_val_def is_space_def)

lemma parse_digits_snoc:
  "parse_digits base acc s = Some v \<Longrightarrow> digit_val c = Some d \<Longrightarrow> d < base \<Longrightarrow>
   parse_digits base acc (s @ [c]) = Some (v * base + d)"
  by (induction base acc s rule: parse_digits.induct)
     (auto dest: digit_chars(2) split: if_splits option.splits list.splits)

lemma parse_number_snoc:
  "parse_number base s = Some v \<Longrightarrow> digit_val c = Some d \<Longrightarrow> d < base \<Longrightarrow>
   parse_number base (s @ [c]) = Some (v * base + d)"
  by (cases s) (auto intro: parse_digits_snoc split: option.splits if_splits)

lemma char_of_hex: "d < 10 \<Longrightarrow> char_of (48 + d) = hex_char d"
  by (simp add: hex_char_def)

lemma parse_number_py_hex: "parse_number 16 (py_hex n) = Some n"
proof (induction n rule: py_hex.induct)
  case (1 n)
  show ?case
  proof (cases "n < 16")
    case True
    then show ?thesis by (simp add: py_hex.simps [of n] digit_val_hex_char)
  next
    case False
    then show ?thesis
      using parse_number_snoc [OF 1 [OF False] digit_val_hex_char [of "n mod 16"]]
      by (simp add: py_hex.simps [of n])
  qed
qed

lemma parse_number_py_digits: "parse_number 10 (py_digits n) = Some n"
proof (induction n rule: py_digits.induct)
  case (1 n)
  show ?case
  proof (cases "n < 10")
    case True
    then show ?thesis by (simp add: py_digits.simps [of n] digit_val_hex_char char_of_hex)
  next
    case False
    then show ?thesis
      using parse_number_snoc [OF 1 [OF False] digit_val_hex_char [of "n mod 10"]]
      by (simp add: py_digits.simps [of n] char_of_hex)
  qed
qed

lemma digit_string:
  "\<forall>c \<in> set (py_hex n). \<exists>d. digit_val c = Some d"
  "\<forall>c \<in> set (py_digits n). \<exists>d. digit_val c = Some d"
proof -
  show "\<forall>c \<in> set (py_hex n). \<exists>d. digit_val c = Some d"
  proof (induction n rule: py_hex.induct)
    case (1 n)
    then show ?case by (auto simp: py_hex.simps [of n] digit_val_hex_char)
  qed
  show "\<forall>c \<in> set (py_digits n). \<exists>d. digit_val c = Some d"
  proof (induction n rule: py_digits.induct)
    case (1 n)
    then show ?case by (auto simp: py_digits.simps [of n] digit_val_hex_char char_of_hex)
  qed
qed

lemma digit_string_nonempty [simp]: "py_hex n \<noteq> []" "py_digits n \<noteq> []"
  by (auto simp: py_hex.simps [of n] py_digits.simps [of n])

lemma hd_zero:
  "n \<noteq> 0 \<Longrightarrow> hd (py_hex n) \<noteq> CHR ''0''"
  "n \<noteq> 0 \<Longrightarrow> hd (py_digits n) \<noteq> CHR ''0''"
proof -
  have z: "hex_char d = CHR ''0'' \<Longrightarrow> d < 16 \<Longrightarrow> d = 0" for d
    using digit_val_hex_char [of d] by (auto simp: digit_val_def)
  show "n \<noteq> 0 \<Longrightarrow> hd (py_hex n) \<noteq> CHR ''0''"
  proof (induction n rule: py_hex.induct)
    case (1 n)
    then show ?case using z [of n] by (cases "n < 16") (auto simp: py_hex.simps [of n])
  qed
  show "n \<noteq> 0 \<Longrightarrow> hd (py_digits n) \<noteq> CHR ''0''"
  proof (induction n rule: py_digits.induct)
    case (1 n)
    then show ?case using z [of n]
      by (cases "n < 10") (auto simp: py_digits.simps [of n] char_of_hex)
  qed
qed

lemma py_strip_digits: "\<forall>c \<in> set s. \<exists>d. digit_val c = Some d \<Longrightarrow> py_strip s = s"
  unfolding py_strip_def using digit_chars(1)
  by (metis dropWhile_eq_self_iff list.set_sel(1) rev_is_Nil_conv rev_rev_ident set_rev)

lemma py_int_digit_string:
  assumes "\<forall>c \<in> set s. \<exists>d. digit_val c = Some d" and "s \<noteq> []"
  shows "py_int s base = of_option ValueError (map_option int (parse_unsigned base s))"
  using assms py_strip_digits [OF assms(1)] digit_chars(3, 4)
  by (cases s) (auto simp: py_int_def)

lemma prefix_base_None: "hd s \<noteq> CHR ''0'' \<Longrightarrow> prefix_base s = None"
  by (auto simp: prefix_base_def split: list.splits)

lemma py_int_hex: "py_int (py_hex n) 16 = Inr (int n)"
proof (cases "n = 0")
  case True
  then show ?thesis by (simp add: py_hex.simps) code_simp
next
  case False
  then show ?thesis
    by (simp add: py_int_digit_string digit_string parse_unsigned_def prefix_base_None hd_zero
        parse_number_py_hex)
qed

lemma py_int_decimal: "py_int (py_digits n) 0 = Inr (int n)"
proof (cases "n = 0")
  case True
  then show ?thesis by (simp add: py_digits.simps) code_simp
next
  case False
  then show ?thesis
    by (simp add: py_int_digit_string digit_string parse_unsigned_def prefix_base_None hd_zero
        parse_number_py_digits)
qed

section \<open>Properties\<close>

text \<open>
  A small type for the witnesses: \<open>struct { int a; struct { int b; union { int c; }; }; struct s d; }\<close>
  with \<open>struct s { long x; long y; }\<close>.
\<close>

definition ex_int :: gtype where
  "ex_int = GType CODE_INT 4 ''int'' None []"

definition ex_inner :: gtype where
  "ex_inner = GType CODE_STRUCT 16 ''s'' None
     [GField (Some ''x'') 0 ex_int, GField (Some ''y'') 64 ex_int]"

definition ex_outer :: gtype where
  "ex_outer = GType CODE_STRUCT 32 ''outer'' None
     [GField (Some ''a'') 0 ex_int,
      GField None 32 (GType CODE_STRUCT 8 [] None
        [GField (Some ''b'') 0 ex_int,
         GField None 32 (GType CODE_UNION 4 [] None [GField (Some ''c'') 0 ex_int])]),
      GField (Some ''d'') 128 ex_inner]"

text \<open>C25: for a struct or union whose anonymous members are structs or unions, \<open>offsetof\<close> of an
  undotted name is the lookup of the name in the flattened list of members, where the members of
  anonymous members appear at the sum of the offsets; a name that is not there is an
  \<^verbatim>\<open>InvalidComponentError\<close>.\<close>

theorem offsetof_flattens_anonymous:
  assumes "anon_ok t" and "CHR ''.'' \<notin> set m"
  shows "offsetof t m True =
    (case map_of (flat_members t) m of
       Some (off, _) \<Rightarrow> Inr (Some off) | None \<Rightarrow> Inl InvalidComponentError)"
  using assms by (rule offsetof_single)

theorem offsetof_flattens_anonymous_witness:
  "offsetof ex_outer ''c'' True = Inr (Some 8) \<and> offsetof ex_outer ''z'' True = Inl InvalidComponentError"
proof -
  have "anon_ok ex_outer" by code_simp
  moreover have "map (\<lambda>(s, (off, _)). (s, off)) (flat_members ex_outer) =
      [(''a'', 0), (''b'', 4), (''c'', 8), (''d'', 16)]" by code_simp
  moreover have "map_option fst (map_of (flat_members ex_outer) ''c'') = Some 8" by code_simp
  moreover have "map_of (flat_members ex_outer) ''z'' = None" by code_simp
  ultimately show ?thesis
    using offsetof_flattens_anonymous [of ex_outer "''c''"]
      offsetof_flattens_anonymous [of ex_outer "''z''"]
    by (auto split: option.splits)
qed

text \<open>A dotted specification \<open>s.s'\<close> resolves to the sum of the offset of \<open>s\<close> in the type and of
  \<open>s'\<close> in the type of \<open>s\<close>, and to the type of \<open>s'\<close>, whatever further dots \<open>s\<close> and \<open>s'\<close> hold.\<close>

theorem offsetof_dotted_path:
  assumes "is_struct_or_union t" and "is_struct_or_union t1"
    and "offsetof_type t s True = Inr (Some (o1, t1))"
    and "offsetof_type t1 s' True = Inr (Some (o2, t2))"
  shows "offsetof_type t (s @ CHR ''.'' # s') True = Inr (Some (o1 + o2, t2))"
  using assms by (intro offsetof_dotted)

theorem offsetof_dotted_path_witness:
  "offsetof_type ex_outer ''d.y'' True = Inr (Some (16 + 8, ex_int))"
proof -
  have "is_struct_or_union ex_outer" "is_struct_or_union ex_inner" by code_simp+
  moreover have "offsetof_type ex_outer ''d'' True = Inr (Some (16, ex_inner))"
    "offsetof_type ex_inner ''y'' True = Inr (Some (8, ex_int))" by code_simp+
  ultimately show ?thesis using offsetof_dotted_path [of ex_outer ex_inner "''d''" 16 "''y''" 8 ex_int] by simp
qed

text \<open>\<open>container_of\<close> inverts taking the address of a member: from the address of the member of
  an object, it returns the address of the object, also when the address wraps.\<close>

theorem container_of_roundtrip:
  assumes "offsetof_err t m = Inr off" and "0 \<le> base" and "base < 2 ^ 64"
  shows "container_of (ptr_add base (int off)) t m = Inr base"
  using assms by (rule container_of_ptr_add)

theorem container_of_roundtrip_witness:
  "container_of (ptr_add (2 ^ 64 - 8) 24) ex_outer ''d.y'' = Inr (2 ^ 64 - 8)"
proof -
  have "offsetof_err ex_outer ''d.y'' = Inr 24" by code_simp
  then show ?thesis using container_of_roundtrip [of ex_outer "''d.y''" 24 "2 ^ 64 - 8"] by simp
qed

text \<open>On a struct or union \<open>find_member_variant\<close> returns the first variant that names a member,
  and raises \<^verbatim>\<open>TypeError\<close> when none of a non-empty list does.\<close>

theorem find_member_variant_first:
  assumes "is_struct_or_union t" and "vs \<noteq> []"
  shows "find_member_variant t vs =
    of_option TypeError (find (\<lambda>v. \<exists>off. offsetof t v False = Inr (Some off)) vs)"
  using assms by (simp add: find_member_variant_def find_variant_find)

theorem find_member_variant_first_witness:
  "find_member_variant ex_outer [''e'', ''d.x''] = Inr ''d.x''"
proof -
  have "is_struct_or_union ex_outer" by code_simp
  moreover have "offsetof ex_outer ''e'' False = Inr None"
    "offsetof ex_outer ''d.x'' False = Inr (Some 16)" by code_simp+
  ultimately show ?thesis
    using find_member_variant_first [of ex_outer "[''e'', ''d.x'']"] by simp
qed

text \<open>Splitting the string \<open>decode_flags\<close> returns at its separator gives exactly the names of
  the bits set in the low \<open>8 * sizeof\<close> bits, in ascending order, when at least one is set and no name
  contains the separator.\<close>

theorem decode_flags_roundtrip:
  assumes "flags_val AND mask (push_bit 3 sizeof) \<noteq> 0"
    and "\<forall>n < push_bit 3 sizeof. c \<notin> set (flag_name names n)"
  shows "py_split c (decode_flags flags_val sizeof names [c]) =
    map (flag_name names) (filter (bit flags_val) [0..<push_bit 3 sizeof])"
  using assms by (intro decode_flags_split) auto

theorem decode_flags_roundtrip_witness:
  "py_split CHR ''|'' (decode_flags 6 1 [2 \<mapsto> ''RO''] ''|'') = [''RO'', ''FLAG_2'']"
proof -
  have "\<forall>n < push_bit 3 (1::nat). CHR ''|'' \<notin> set (flag_name [2 \<mapsto> ''RO''] n)"
    by (auto simp: flag_name_def digits_no_bar split: option.splits if_splits)
  moreover have "(6::int) AND mask (push_bit 3 1) \<noteq> 0" by code_simp
  moreover have "map (flag_name [2 \<mapsto> ''RO'']) (filter (bit (6::int)) [0..<push_bit 3 1]) = [''RO'', ''FLAG_2'']"
    by code_simp
  ultimately show ?thesis using decode_flags_roundtrip [of 6 1 "CHR ''|''" "[2 \<mapsto> ''RO'']"] by simp
qed

text \<open>\<open>decode_uuid\<close> of an array of 16 unsigned bytes succeeds, and byte \<open>i\<close> of the result, counted
  from the most significant, is element \<open>i\<close> of the array.\<close>

theorem decode_uuid_bytes:
  assumes "gt_code t = CODE_ARRAY" and "map_option gt_sizeof (gt_target t) = Some 1"
    and "gt_sizeof t = 16" and "length bs = 16" and "\<forall>b \<in> set bs. 0 \<le> b \<and> b < 256"
  shows "\<exists>u. decode_uuid t (\<lambda>i. Inr (bs ! i)) = Inr u \<and> 0 \<le> u \<and> u < 2 ^ 128 \<and>
    (\<forall>i < 16. u div 256 ^ (15 - i) mod 256 = bs ! i)"
proof -
  have "mapR (\<lambda>i. Inr (bs ! i)) [0..<16] = Inr (map ((!) bs) [0..<16])" by (rule mapR_Inr) simp
  also have "map ((!) bs) [0..<16] = bs" using map_nth [of bs] assms(4) by simp
  finally have bs: "mapR (\<lambda>i. Inr (bs ! i)) [0..<16] = (Inr bs :: int list res)" .
  have "0 \<le> uuid_fold 0 bs" "uuid_fold 0 bs < 2 ^ 128"
    using uuid_fold_bounds [OF assms(5)] assms(4) by auto
  then have "decode_uuid t (\<lambda>i. Inr (bs ! i)) = Inr (uuid_fold 0 bs)"
    using assms(1-3) unfolding decode_uuid_def bs by (simp add: uuid_of_int_def)
  moreover have "\<forall>i < 16. uuid_fold 0 bs div 256 ^ (15 - i) mod 256 = bs ! i"
    using uuid_fold_byte [OF assms(5)] assms(4) by simp
  ultimately show ?thesis
    using \<open>0 \<le> uuid_fold 0 bs\<close> \<open>uuid_fold 0 bs < 2 ^ 128\<close> by blast
qed

theorem decode_uuid_bytes_witness:
  "\<exists>u. decode_uuid (GType CODE_ARRAY 16 [] (Some (GType CODE_INT 1 ''u8'' None [])) [])
         (\<lambda>i. Inr ([0..15] ! i)) = Inr u \<and> u div 256 ^ 12 mod 256 = 3"
proof -
  have "length [0..15::int] = 16" "\<forall>b \<in> set [0..15::int]. 0 \<le> b \<and> b < 256" by auto
  then obtain u where
    "decode_uuid (GType CODE_ARRAY 16 [] (Some (GType CODE_INT 1 ''u8'' None [])) [])
         (\<lambda>i. Inr ([0..15] ! i)) = Inr u"
    and "\<forall>i < 16. u div 256 ^ (15 - i) mod 256 = [0..15] ! i"
    using decode_uuid_bytes [of "GType CODE_ARRAY 16 [] (Some (GType CODE_INT 1 ''u8'' None [])) []"
        "[0..15]"] by (simp only: gtype.sel option.map) blast
  moreover from this(2) have "u div 256 ^ (15 - 3) mod 256 = [0..15] ! 3" by (rule allE [of _ 3]) simp
  moreover have "[0..15::int] ! 3 = 3" by code_simp
  ultimately show ?thesis by auto
qed

text \<open>The address a command prints with \<open>"{:x}"\<close> is read back by \<open>get_typed_pointer\<close>, and a
  decimal number by \<open>safe_int\<close>.\<close>

theorem address_string_roundtrip:
  "get_typed_pointer (AddrStr (py_hex n)) t =
     Inr (int n, if gt_code t = CODE_PTR then t else gt_pointer t) \<and>
   safe_int (py_digits n) = Some (int n)"
  by (simp add: get_typed_pointer_def py_int_hex safe_int_def py_int_decimal Let_def)

text \<open>A string that is not a hexadecimal number makes \<open>get_typed_pointer\<close> raise \<^verbatim>\<open>ValueError\<close>,
  not the \<^verbatim>\<open>TypeError\<close> its documentation names.\<close>

theorem get_typed_pointer_bad_string:
  "get_typed_pointer (AddrStr ''zz'') t = Inl ValueError"
proof -
  have "py_int ''zz'' 16 = Inl ValueError" "\<not> catches TypeError ValueError" by code_simp+
  then show ?thesis by (simp add: get_typed_pointer_def Let_def)
qed

end
