(* ===== verification/Iterators.thy ===== *)
theory Iterators
  imports Struct_Layout
begin

text \<open>
  The contract between the iterators over kernel containers (lists, klists, red-black trees) and the
  code that maps the nodes they yield to the objects that contain them.
\<close>

text \<open>Mapping the members of objects back to the objects.\<close>

lemma entries_of_nodes:
  assumes "offsetof_err t m = Inr off" and "\<forall>b \<in> set bs. 0 \<le> b \<and> b < 2 ^ 64"
  shows "gen_for (map (\<lambda>b. ptr_add b (int off)) bs) (\<lambda>node. gen_of_res (container_of node t m)) = gen_of_list bs"
  using assms(2)
proof (induction bs)
  case (Cons b bs)
  then have "container_of (ptr_add b (int off)) t m = Inr b" using assms(1) by (intro container_of_ptr_add) auto
  with Cons show ?case by (simp add: gen_simps)
qed (simp add: gen_simps)

text \<open>
  What the users of an iterator rely on: for a well-formed container \<open>lst h xs\<close> at \<open>h\<close> it yields the
  nodes \<open>xs\<close> in order and ends.  \<open>list_for_each\<close> in both directions, \<open>klist_for_each\<close> and
  \<open>rbtree_postorder_for_each\<close> provide it.
\<close>

locale list_iter =
  fixes walk :: "addr \<Rightarrow> addr gen option"
    and lst :: "addr \<Rightarrow> addr list \<Rightarrow> bool"
  assumes walk_list: "lst h xs \<Longrightarrow> walk h = Some (gen_of_list xs)"
begin

lemma entries_list:
  assumes "lst h (map (\<lambda>b. ptr_add b (int off)) bs)" and "offsetof_err t m = Inr off"
    and "\<forall>b \<in> set bs. 0 \<le> b \<and> b < 2 ^ 64"
  shows "map_option (\<lambda>g. gen_bind g (\<lambda>node. gen_of_res (container_of node t m))) (walk h) =
    Some (gen_of_list bs)"
  using walk_list [OF assms(1)] entries_of_nodes [OF assms(2, 3)] by (simp add: gen_bind_of_list)

lemma bind_list: "lst h xs \<Longrightarrow> map_option (\<lambda>g. gen_bind g f) (walk h) = Some (gen_for xs f)"
  using walk_list by (simp add: gen_bind_of_list)

end

end
