(* ===== verification/Linked_List.thy ===== *)
theory Linked_List
  imports Iterators
begin

text \<open>
  The kernel's doubly linked lists and their users: \<^verbatim>\<open>crash/types/list.py\<close>, \<^verbatim>\<open>klist.py\<close>,
  \<^verbatim>\<open>module.py\<close> and \<^verbatim>\<open>classdev.py\<close>.

  Memory is a function that gives the value of the \<open>next\<close> and of the \<open>prev\<close> member of the
  \<open>struct list_head\<close> at an address, or \<open>None\<close> where reading the member raises \<^verbatim>\<open>gdb.error\<close>.  A
  \<^verbatim>\<open>gdb.Value\<close> is lazy: \<open>node[next_]\<close> reads nothing until \<^verbatim>\<open>int()\<close>, \<open>dereference()\<close> or a
  comparison needs the contents, and the model reads where the code does.  Warnings printed about
  broken links are not modelled.
\<close>

section \<open>Iteration over a list\<close>

datatype link = Lnext | Lprev

type_synonym list_mem = "addr \<Rightarrow> link \<Rightarrow> addr option"

text \<open>The argument \<open>list_head\<close>: a \<open>struct list_head *\<close>, a \<open>struct list_head\<close> at an address, a value
  of another type, or no \<^verbatim>\<open>gdb.Value\<close> at all.\<close>

datatype list_arg = ListPtr addr | ListObj addr | ListOther | ListNoValue

record list_opts =
  include_head :: bool
  reverse :: bool
  exact_cycles :: bool

record list_state =
  ls_node :: addr
  ls_prev :: addr
  ls_fast :: "addr option"
  ls_visited :: "addr set"
  ls_pending :: bool

definition next_link :: "list_opts \<Rightarrow> link" where
  "next_link opts = (if reverse opts then Lprev else Lnext)"

definition prev_link :: "list_opts \<Rightarrow> link" where
  "prev_link opts = (if reverse opts then Lnext else Lprev)"

text \<open>
  \<open>fast\<close> takes \<open>n\<close> steps and is compared with \<open>node\<close> after each; an unreadable element ends the
  search for cycles.
\<close>

fun advance_fast :: "list_mem \<Rightarrow> link \<Rightarrow> addr \<Rightarrow> nat \<Rightarrow> addr \<Rightarrow> addr option res" where
  "advance_fast mem l node 0 fast = Inr (Some fast)"
| "advance_fast mem l node (Suc n) fast =
     (case mem fast l of
        None \<Rightarrow> Inr None
      | Some fast' \<Rightarrow>
          if node = fast' then Inl ListCycleError else advance_fast mem l node n fast')"

text \<open>One iteration of the \<open>while\<close> loop of \<open>list_for_each\<close>.\<close>

definition list_step :: "list_mem \<Rightarrow> list_opts \<Rightarrow> addr \<Rightarrow> list_state \<Rightarrow> (list_state, addr) step" where
  "list_step mem opts list_head s =
     (let node = ls_node s; nx = next_link opts; pv = prev_link opts in
      if node = list_head then Stop [] (if ls_pending s then Some CorruptListError else None)
      else if exact_cycles opts \<and> node \<in> ls_visited s then Stop [] (Some ListCycleError)
      else (case mem node pv of
          None \<Rightarrow> Stop [] (Some BufferError)
        | Some p \<Rightarrow>
            let broken = (ls_prev s \<noteq> p);
                fast = (if broken \<and> \<not> exact_cycles opts \<and> ls_fast s = None then Some node
                        else ls_fast s)
            in (case (case fast of None \<Rightarrow> Inr None
                      | Some f \<Rightarrow> advance_fast mem nx node 2 f) of
                  Inl e \<Rightarrow> Stop [node] (Some e)
                | Inr fast' \<Rightarrow> (case mem node nx of
                      None \<Rightarrow> Stop [node] (Some GdbMemoryError)
                    | Some nxt \<Rightarrow>
                        if nxt = 0 then Stop [node] (Some CorruptListError)
                        else Next [node]
                          \<lparr>ls_node = nxt, ls_prev = node, ls_fast = fast',
                           ls_visited = (if exact_cycles opts then insert node (ls_visited s)
                                         else ls_visited s),
                           ls_pending = (ls_pending s \<or> broken)\<rparr>))))"

definition list_start :: "addr \<Rightarrow> addr \<Rightarrow> list_state" where
  "list_start list_head nxt =
     \<lparr>ls_node = nxt, ls_prev = list_head, ls_fast = None, ls_visited = {}, ls_pending = False\<rparr>"

definition list_walk :: "list_mem \<Rightarrow> list_opts \<Rightarrow> addr \<Rightarrow> addr gen option" where
  "list_walk mem opts list_head =
     (case mem list_head (next_link opts) of
        None \<Rightarrow> Some (gen_raise BufferError)
      | Some nxt \<Rightarrow>
          if nxt = 0 then Some (gen_raise CorruptListError)
          else gen_while (list_step mem opts list_head) (list_start list_head nxt))"

definition list_for_each :: "list_mem \<Rightarrow> list_arg \<Rightarrow> list_opts \<Rightarrow> addr gen option" where
  "list_for_each mem arg opts =
     (case (case arg of ListNoValue \<Rightarrow> Inl ArgumentTypeError
            | ListPtr a \<Rightarrow> Inr a | ListObj a \<Rightarrow> Inr a
            | ListOther \<Rightarrow> Inl UnexpectedGDBTypeError) of
        Inl e \<Rightarrow> Some (gen_raise e)
      | Inr list_head \<Rightarrow>
          if list_head = 0 then Some (gen_raise CorruptListError)
          else map_option (gen_yields (if include_head opts then [list_head] else []))
            (list_walk mem opts list_head))"

definition list_for_each_entry ::
  "list_mem \<Rightarrow> list_arg \<Rightarrow> gtype \<Rightarrow> string \<Rightarrow> list_opts \<Rightarrow> addr gen option" where
  "list_for_each_entry mem arg gdbtype member opts =
     map_option (\<lambda>g. gen_bind g (\<lambda>node. gen_of_res (container_of node gdbtype member)))
       (list_for_each mem arg opts)"

text \<open>Both kinds of argument reduce to the address of the list head.\<close>

definition list_empty :: "list_mem \<Rightarrow> addr \<Rightarrow> bool res" where
  "list_empty mem a = bindR (of_option GdbMemoryError (mem a Lnext)) (\<lambda>n. Inr (a = n))"

definition default_opts :: list_opts where
  "default_opts = \<lparr>include_head = False, reverse = False, exact_cycles = False\<rparr>"

section \<open>Klists\<close>

text \<open>A \<open>struct klist *\<close> or a \<open>struct klist\<close> at an address, or a value of another type.\<close>

datatype klist_arg = KlistPtr addr | KlistObj addr | KlistOther

text \<open>What the klist code reads: the offset of \<open>k_list\<close>, the type of the nodes, and the member
  \<open>n_klist\<close> of the node at an address.\<close>

record klist_env =
  k_list_off :: nat
  klist_node_type :: gtype
  n_klist :: "addr \<Rightarrow> addr option"

definition klist_for_each :: "list_mem \<Rightarrow> klist_env \<Rightarrow> klist_arg \<Rightarrow> addr gen option" where
  "klist_for_each mem env arg =
     (case (case arg of KlistPtr a \<Rightarrow> Inr a | KlistObj a \<Rightarrow> Inr a
            | KlistOther \<Rightarrow> Inl InvalidArgumentError) of
        Inl e \<Rightarrow> Some (gen_raise e)
      | Inr klist \<Rightarrow>
          map_option (\<lambda>g. gen_bind g (\<lambda>node.
              gen_try (of_option GdbMemoryError (n_klist env node)) (\<lambda>k.
                if k \<noteq> klist then gen_raise KlistCorruptedError else gen_of_list [node])))
            (list_for_each_entry mem (ListObj (ptr_add klist (int (k_list_off env))))
               (klist_node_type env) ''n_node'' default_opts))"

definition klist_for_each_entry ::
  "list_mem \<Rightarrow> klist_env \<Rightarrow> klist_arg \<Rightarrow> gtype \<Rightarrow> string \<Rightarrow> addr gen option" where
  "klist_for_each_entry mem env arg gdbtype member =
     map_option (\<lambda>g. gen_bind g (\<lambda>node. gen_of_res (container_of node gdbtype member)))
       (klist_for_each mem env arg)"

section \<open>Modules\<close>

definition for_each_module :: "list_mem \<Rightarrow> addr \<Rightarrow> gtype \<Rightarrow> addr gen option" where
  "for_each_module mem modules module_type =
     list_for_each_entry mem (ListObj modules) module_type ''list'' default_opts"

text \<open>An element of \<open>sect_attrs->attrs\<close>: the name under \<open>battr\<close> or under \<open>name\<close>, for the members its
  type has, and the address.\<close>

record sect_attr =
  sa_battr :: "string option"
  sa_name :: "string option"
  sa_address :: int

text \<open>\<open>name\<close> keeps its value from one iteration to the next, and is unbound at first.\<close>

fun module_sections :: "string option \<Rightarrow> sect_attr list \<Rightarrow> (string \<times> int) gen" where
  "module_sections name [] = gen_done"
| "module_sections name (a # as) =
     (let name' = (case sa_battr a of Some s \<Rightarrow> Some s | None \<Rightarrow>
                     (case sa_name a of Some s \<Rightarrow> Some s | None \<Rightarrow> name))
      in case name' of
           None \<Rightarrow> gen_raise UnboundLocalError
         | Some s \<Rightarrow>
             if s = ''.text'' then module_sections name' as
             else gen_yields [(s, sa_address a)] (module_sections name' as))"

definition for_each_module_section :: "sect_attr list \<Rightarrow> (string \<times> int) gen" where
  "for_each_module_section attrs = module_sections None attrs"

section \<open>Class devices\<close>

text \<open>The class variable \<open>_class_is_private\<close>, \<open>True\<close> initially, and the type callback that sets it.\<close>

definition setup_iterator_type :: "gtype \<Rightarrow> bool \<Rightarrow> bool res" where
  "setup_iterator_type gdbtype class_is_private =
     bindR (struct_has_member (\<lambda>_. None) (SpecType gdbtype) ''knode_class'') (\<lambda>b.
       Inr (if b then False else class_is_private))"

record classdev_env =
  cd_device_type :: gtype
  cd_device_private_type :: gtype
  cd_device :: "addr \<Rightarrow> addr option"  \<comment> \<open>\<open>device\<close> of a \<open>struct device_private\<close>\<close>
  cd_type :: "addr \<Rightarrow> addr option"    \<comment> \<open>\<open>type\<close> of a \<open>struct device\<close>\<close>

definition class_device ::
  "classdev_env \<Rightarrow> bool \<Rightarrow> addr option \<Rightarrow> addr \<Rightarrow> addr gen" where
  "class_device env priv subtype knode =
     gen_try (container_of knode
         (if priv then cd_device_private_type env else cd_device_type env) ''knode_class'') (\<lambda>c.
     gen_try (if priv then of_option GdbMemoryError (cd_device env c) else Inr c) (\<lambda>dev.
     case subtype of
       None \<Rightarrow> gen_of_list [dev]
     | Some st \<Rightarrow> gen_try (of_option GdbMemoryError (cd_type env dev)) (\<lambda>ty.
         if st = ty then gen_of_list [dev] else gen_done)))"

definition for_each_class_device ::
  "list_mem \<Rightarrow> klist_env \<Rightarrow> classdev_env \<Rightarrow> bool \<Rightarrow> klist_arg \<Rightarrow> addr option \<Rightarrow> addr gen option" where
  "for_each_class_device mem kenv env priv klist_devices subtype =
     map_option (\<lambda>g. gen_bind g (class_device env priv subtype))
       (klist_for_each mem kenv klist_devices)"

section \<open>Well-formed lists\<close>

text \<open>\<open>linked mem l a xs b\<close>: following \<open>l\<close> from \<open>a\<close> visits \<open>xs\<close> and then \<open>b\<close>.\<close>

fun linked :: "list_mem \<Rightarrow> link \<Rightarrow> addr \<Rightarrow> addr list \<Rightarrow> addr \<Rightarrow> bool" where
  "linked mem l a [] b \<longleftrightarrow> mem a l = Some b"
| "linked mem l a (x # xs) b \<longleftrightarrow> mem a l = Some x \<and> linked mem l x xs b"

text \<open>\<open>backed mem l a xs\<close>: the links \<open>l\<close> of \<open>xs\<close> point to the element before, \<open>a\<close> for the first.\<close>

fun backed :: "list_mem \<Rightarrow> link \<Rightarrow> addr \<Rightarrow> addr list \<Rightarrow> bool" where
  "backed mem l a [] \<longleftrightarrow> True"
| "backed mem l a (x # xs) \<longleftrightarrow> mem x l = Some a \<and> backed mem l x xs"

definition is_list :: "list_mem \<Rightarrow> addr \<Rightarrow> addr list \<Rightarrow> bool" where
  "is_list mem h xs \<longleftrightarrow> distinct (h # xs) \<and> 0 \<notin> set (h # xs) \<and>
     linked mem Lnext h xs h \<and> linked mem Lprev h (rev xs) h"

lemma linked_snoc: "linked mem l a (xs @ [x]) b \<longleftrightarrow> linked mem l a xs x \<and> mem x l = Some b"
  by (induction xs arbitrary: a) auto

lemma backed_snoc:
  "backed mem l a (xs @ [x]) \<longleftrightarrow> backed mem l a xs \<and> mem x l = Some (last (a # xs))"
  by (induction xs arbitrary: a) auto

lemma linked_rev:
  "linked mem l b (rev xs) a \<longleftrightarrow> mem b l = Some (last (a # xs)) \<and> backed mem l a xs"
  by (induction xs arbitrary: a) (auto simp: linked_snoc)

lemma is_list_directed:
  "is_list mem h xs \<longleftrightarrow> distinct (h # xs) \<and> 0 \<notin> set (h # xs) \<and>
     linked mem Lnext h xs h \<and> backed mem Lprev h xs \<and> mem h Lprev = Some (last (h # xs))"
  by (auto simp: is_list_def linked_rev)

lemma is_list_reversed:
  "is_list mem h xs \<longleftrightarrow> distinct (h # rev xs) \<and> 0 \<notin> set (h # rev xs) \<and>
     linked mem Lprev h (rev xs) h \<and> backed mem Lnext h (rev xs) \<and> mem h Lnext = Some (last (h # rev xs))"
  using linked_rev [of mem Lnext h "rev xs" h] by (auto simp: is_list_def)

lemma linked_hd: "linked mem l a xs b \<Longrightarrow> mem a l = Some (hd (xs @ [b]))"
  by (cases xs) auto

lemma hd_snoc_nonzero: "0 \<notin> set (h # xs) \<Longrightarrow> hd (xs @ [h]) \<noteq> (0 :: addr)"
  by (cases xs) auto

section \<open>Iteration of a well-formed list\<close>

lemma gen_while_linked:
  assumes "linked mem (next_link opts) p xs h" and "backed mem (prev_link opts) p xs"
    and "distinct xs" and "h \<notin> set xs" and "0 \<notin> set (h # xs)" and "V \<inter> set xs = {}"
  shows "gen_while (list_step mem opts h)
     \<lparr>ls_node = hd (xs @ [h]), ls_prev = p, ls_fast = None, ls_visited = V, ls_pending = False\<rparr> =
     Some (gen_of_list xs)"
  using assms
proof (induction xs arbitrary: p V)
  case Nil
  then show ?case by (subst gen_while_Stop) (auto simp: list_step_def Let_def gen_of_list_def)
next
  case (Cons x xs)
  define V' where "V' = (if exact_cycles opts then insert x V else V)"
  have nx: "mem x (next_link opts) = Some (hd (xs @ [h]))" and "hd (xs @ [h]) \<noteq> 0"
    using Cons.prems linked_hd [of mem "next_link opts" x xs h] hd_snoc_nonzero [of h xs] by auto
  then have "list_step mem opts h
     \<lparr>ls_node = hd ((x # xs) @ [h]), ls_prev = p, ls_fast = None, ls_visited = V, ls_pending = False\<rparr> =
     Next [x]
     \<lparr>ls_node = hd (xs @ [h]), ls_prev = x, ls_fast = None, ls_visited = V', ls_pending = False\<rparr>"
    using Cons.prems by (auto simp: list_step_def Let_def V'_def)
  then have "gen_while (list_step mem opts h)
     \<lparr>ls_node = hd ((x # xs) @ [h]), ls_prev = p, ls_fast = None, ls_visited = V, ls_pending = False\<rparr> =
     map_option (gen_yields [x]) (gen_while (list_step mem opts h)
     \<lparr>ls_node = hd (xs @ [h]), ls_prev = x, ls_fast = None, ls_visited = V', ls_pending = False\<rparr>)"
    by (rule gen_while_Next)
  moreover have "V' \<inter> set xs = {}" using Cons.prems by (auto simp: V'_def)
  ultimately show ?case using Cons by (simp add: gen_simps)
qed

lemma list_walk_ok:
  assumes "is_list mem h xs"
  shows "list_walk mem opts h = Some (gen_of_list (if reverse opts then rev xs else xs))"
proof -
  define ys where "ys = (if reverse opts then rev xs else xs)"
  have l: "linked mem (next_link opts) h ys h" "backed mem (prev_link opts) h ys"
    "distinct ys" "h \<notin> set ys" "0 \<notin> set (h # ys)"
    using assms is_list_directed [of mem h xs] is_list_reversed [of mem h xs]
    by (auto simp: ys_def next_link_def prev_link_def)
  then have "mem h (next_link opts) = Some (hd (ys @ [h]))" "hd (ys @ [h]) \<noteq> 0"
    using linked_hd [of mem "next_link opts" h ys h] hd_snoc_nonzero [of h ys] by auto
  then show ?thesis
    using gen_while_linked [OF l, of "{}"] by (simp add: list_walk_def list_start_def ys_def)
qed

lemma is_list_head: "is_list mem h xs \<Longrightarrow> h \<noteq> 0"
  by (simp add: is_list_def)

lemma list_for_each_ok:
  assumes "is_list mem h xs" and "arg = ListPtr h \<or> arg = ListObj h"
  shows "list_for_each mem arg opts =
    Some (gen_of_list ((if include_head opts then [h] else []) @ (if reverse opts then rev xs else xs)))"
  using assms list_walk_ok [OF assms(1), of opts] is_list_head [OF assms(1)]
  by (auto simp: list_for_each_def gen_simps)

section \<open>What a run that ends without an exception shows\<close>

text \<open>The fields of the state after an iteration that goes on, one by one.\<close>

lemma list_step_Next:
  assumes "list_step mem opts h s = Next us s'"
  shows "us = [ls_node s]" "ls_node s \<noteq> h" "mem (ls_node s) (next_link opts) = Some (ls_node s')"
    "ls_node s' \<noteq> 0" "ls_prev s' = ls_node s"
    "\<exists>p. mem (ls_node s) (prev_link opts) = Some p \<and> (ls_pending s' \<longleftrightarrow> ls_pending s \<or> ls_prev s \<noteq> p)"
    "exact_cycles opts \<Longrightarrow> ls_node s \<notin> ls_visited s"
    "ls_visited s' = (if exact_cycles opts then insert (ls_node s) (ls_visited s) else ls_visited s)"
    "exact_cycles opts \<Longrightarrow> ls_fast s = None \<Longrightarrow> ls_fast s' = None"
  using assms by (auto simp: list_step_def Let_def split: if_splits option.splits sum.splits)

lemma list_step_Stop_None:
  assumes "list_step mem opts h s = Stop us None"
  shows "us = []" "ls_node s = h" "\<not> ls_pending s"
  using assms by (auto simp: list_step_def Let_def split: if_splits option.splits sum.splits)

lemma backed_linked_distinct:
  assumes "backed mem pv h ys" and "h \<notin> set ys"
  shows "distinct ys"
  using assms
proof (induction ys rule: rev_induct)
  case (snoc y ys)
  have before: "i < length xs \<Longrightarrow> mem (xs ! i) pv = Some ((h # xs) ! i)" if "backed mem pv h xs" for xs i
    using that
  proof (induction xs arbitrary: i rule: rev_induct)
    case (snoc x xs)
    then show ?case
      by (auto simp: backed_snoc nth_append nth_Cons' last_conv_nth less_Suc_eq split: if_splits)
  qed simp
  have "y \<notin> set ys"
  proof
    assume "y \<in> set ys"
    then obtain i where i: "i < length ys" "ys ! i = y" by (metis in_set_conv_nth)
    have "(h # ys) ! i = last (h # ys)"
      using snoc.prems before [of ys i] i by (auto simp: backed_snoc)
    also have "\<dots> = (h # ys) ! length ys" by (simp add: last_conv_nth)
    finally have eq: "(h # ys) ! i = (h # ys) ! length ys" .
    moreover have "distinct (h # ys)" using snoc by (auto simp: backed_snoc)
    ultimately show False using i by (metis distinct_conv_nth length_Cons less_Suc_eq nat_neq_iff)
  qed
  then show ?case using snoc by (auto simp: backed_snoc)
qed simp

definition list_trace :: "list_mem \<Rightarrow> list_opts \<Rightarrow> addr \<Rightarrow> addr list \<Rightarrow> list_state \<Rightarrow> bool" where
  "list_trace mem opts h xs s \<longleftrightarrow>
     linked mem (next_link opts) h xs (ls_node s) \<and> h \<notin> set xs \<and> ls_prev s = last (h # xs) \<and>
     (\<not> ls_pending s \<longrightarrow> backed mem (prev_link opts) h xs) \<and>
     (exact_cycles opts \<longrightarrow> ls_visited s = set xs \<and> distinct xs \<and> ls_fast s = None) \<and> 0 \<notin> set xs \<and> ls_node s \<noteq> 0"

lemma list_trace_step:
  assumes "list_trace mem opts h xs s" and "list_step mem opts h s = Next us s'"
  shows "list_trace mem opts h (xs @ us) s'"
  using assms(1) list_step_Next [OF assms(2)]
  by (auto simp: list_trace_def linked_snoc backed_snoc)

lemma list_trace_start:
  "mem h (next_link opts) = Some nxt \<Longrightarrow> nxt \<noteq> 0 \<Longrightarrow> list_trace mem opts h [] (list_start h nxt)"
  by (simp add: list_trace_def list_start_def)

lemma list_walk_trace:
  assumes "list_walk mem opts h = Some (ys, e)"
    and "\<And>xs s us e. list_trace mem opts h xs s \<Longrightarrow> list_step mem opts h s = Stop us e \<Longrightarrow> Q (xs @ us) e"
    and "Q [] (Some BufferError)" and "Q [] (Some CorruptListError)"
  shows "Q ys e"
proof (cases "mem h (next_link opts)")
  case None
  then show ?thesis using assms by (simp add: list_walk_def gen_raise_def)
next
  case (Some nxt)
  show ?thesis
  proof (cases "nxt = 0")
    case True
    then show ?thesis using assms Some by (simp add: list_walk_def gen_raise_def)
  next
    case False
    then have "gen_while (list_step mem opts h) (list_start h nxt) = Some (ys, e)"
      using assms(1) Some by (simp add: list_walk_def)
    then show ?thesis
    proof (rule gen_while_invariant [where P = "list_trace mem opts h"])
      show "list_trace mem opts h [] (list_start h nxt)" using Some False by (rule list_trace_start)
    qed (use list_trace_step assms(2) in blast)+
  qed
qed

lemma list_walk_clean:
  assumes "list_walk mem opts h = Some (ys, None)"
  shows "linked mem (next_link opts) h ys h \<and> backed mem (prev_link opts) h ys \<and>
    distinct ys \<and> h \<notin> set ys"
proof -
  define Q where "Q ys (e :: exc option) \<longleftrightarrow> (e = None \<longrightarrow> linked mem (next_link opts) h ys h \<and>
    backed mem (prev_link opts) h ys \<and> distinct ys \<and> h \<notin> set ys)" for ys e
  have "Q ys None"
    using assms
  proof (rule list_walk_trace)
    fix xs s us e assume "list_trace mem opts h xs s" "list_step mem opts h s = Stop us e"
    then show "Q (xs @ us) e"
      using list_step_Stop_None [of mem opts h s us] backed_linked_distinct [of mem "prev_link opts" h xs]
      by (auto simp: Q_def list_trace_def)
  qed (simp_all add: Q_def)
  then show ?thesis by (simp add: Q_def)
qed

text \<open>With \<open>exact_cycles\<close> no node is yielded twice, and \<^verbatim>\<open>ListCycleError\<close> means a node met again.\<close>

lemma list_step_Stop_exact:
  assumes "exact_cycles opts" and "list_step mem opts h s = Stop us e" and "ls_fast s = None"
  shows "us = [] \<or> us = [ls_node s] \<and> ls_node s \<notin> ls_visited s"
    "e = Some ListCycleError \<Longrightarrow> us = [] \<and> ls_node s \<in> ls_visited s"
  using assms by (auto simp: list_step_def Let_def split: if_splits option.splits sum.splits)

lemma list_walk_exact:
  assumes "exact_cycles opts" and "list_walk mem opts h = Some (ys, e)"
  shows "distinct ys \<and>
    (e = Some ListCycleError \<longrightarrow> (\<exists>y \<in> set ys. linked mem (next_link opts) h ys y))"
  using assms(2)
proof (rule list_walk_trace)
  fix xs s us e assume t: "list_trace mem opts h xs s" and st: "list_step mem opts h s = Stop us e"
  have "ls_fast s = None" "ls_visited s = set xs" "distinct xs"
    "linked mem (next_link opts) h xs (ls_node s)"
    using t assms(1) by (auto simp: list_trace_def)
  then show "distinct (xs @ us) \<and>
      (e = Some ListCycleError \<longrightarrow> (\<exists>y \<in> set (xs @ us). linked mem (next_link opts) h (xs @ us) y))"
    using list_step_Stop_exact [OF assms(1) st] by auto
qed simp_all

section \<open>Termination\<close>

text \<open>
  The iteration ends on every memory in which finitely many addresses can be read, whatever the links
  are.  An endless run would come back to a node \<open>x\<close> from two different predecessors, or to the first
  node from one that is not the head, so one of the two visits finds the \<open>prev\<close> link of \<open>x\<close> broken and
  sends \<open>fast\<close> off; from then on \<open>fast\<close> is twice as far from its start as \<open>node\<close> is, and meets it.
\<close>

lemma advance_fast_2:
  assumes "mem f l = Some f1" and "mem f1 l = Some f2" and "advance_fast mem l node 2 f = Inr r"
  shows "node \<noteq> f1 \<and> r = Some f2"
  using assms by (simp add: numeral_2_eq_2 split: if_splits)

definition broken :: "list_mem \<Rightarrow> list_opts \<Rightarrow> list_state \<Rightarrow> bool" where
  "broken mem opts s \<longleftrightarrow> mem (ls_node s) (prev_link opts) \<noteq> Some (ls_prev s)"

lemma list_step_fast:
  assumes "list_step mem opts h s = Next us s'" and "\<not> exact_cycles opts"
  shows "(case (if broken mem opts s \<and> ls_fast s = None then Some (ls_node s) else ls_fast s) of
      None \<Rightarrow> ls_fast s' = None
    | Some f \<Rightarrow> advance_fast mem (next_link opts) (ls_node s) 2 f = Inr (ls_fast s'))"
  using assms by (auto simp: list_step_def Let_def broken_def split: if_splits option.splits sum.splits)

lemma orbit_periodic:
  fixes n :: "nat \<Rightarrow> 'a"
  assumes "\<And>i. n (Suc i) = f (n i)" and "n i = n j" and "i < j" and "i \<le> a"
  shows "n (a + m * (j - i)) = n a"
proof -
  have shift: "n (a + (j - i)) = n a" if "i \<le> a" for a
    using that
  proof (induction a rule: dec_induct)
    case base
    then show ?case using assms(2, 3) by simp
  next
    case (step a)
    then show ?case using assms(1) [of "a + (j - i)"] assms(1) [of a] by simp
  qed
  show ?thesis
  proof (induction m)
    case (Suc m)
    then show ?case using shift [of "a + m * (j - i)"] assms(4) by (simp add: ac_simps)
  qed simp
qed

lemma floyd_meets:
  fixes n :: "nat \<Rightarrow> 'a"
  assumes "\<And>i. n (Suc i) = f (n i)" and "n i = n j" and "i < j"
  shows "\<exists>t. n (k + 2 * t + 1) = n (k + t)"
proof -
  define t where "t = (i + 1) * (j - i) - 1"
  have pos: "(i + 1) * (j - i) \<ge> i + 1" using assms(3) by (cases "j - i") auto
  then have "i \<le> k + t" and "k + 2 * t + 1 = (k + t) + (i + 1) * (j - i)" by (auto simp: t_def)
  then have "n (k + 2 * t + 1) = n (k + t)"
    using orbit_periodic [where n = n and f = f and m = "i + 1", OF assms] by metis
  then show ?thesis ..
qed

lemma not_inj_first:
  fixes n :: "nat \<Rightarrow> 'a"
  assumes "finite (range n)"
  obtains i j where "i < j" "n i = n j" "\<And>i' j'. i' < i \<Longrightarrow> i' < j' \<Longrightarrow> n i' \<noteq> n j'"
proof -
  have "\<not> inj n" using assms finite_imageD infinite_UNIV_nat by blast
  then obtain a b where "a \<noteq> b" "n a = n b" by (auto simp: inj_def)
  then have ex: "\<exists>i. \<exists>j > i. n i = n j" by (metis nat_neq_iff)
  define i where "i = (LEAST i. \<exists>j > i. n i = n j)"
  have "\<exists>j > i. n i = n j" unfolding i_def using ex by (rule LeastI_ex)
  moreover have "\<And>i' j'. i' < i \<Longrightarrow> i' < j' \<Longrightarrow> n i' \<noteq> n j'" unfolding i_def using not_less_Least by blast
  ultimately show ?thesis using that by blast
qed

text \<open>An infinite run from a state, and what it implies.\<close>

definition list_run :: "list_mem \<Rightarrow> list_opts \<Rightarrow> addr \<Rightarrow> (nat \<Rightarrow> list_state) \<Rightarrow> bool" where
  "list_run mem opts h S \<longleftrightarrow> ls_fast (S 0) = None \<and> ls_prev (S 0) = h \<and>
     (\<forall>i. \<exists>us. list_step mem opts h (S i) = Next us (S (Suc i)))"

lemma list_run_facts:
  assumes "list_run mem opts h S"
  shows "mem (ls_node (S i)) (next_link opts) = Some (ls_node (S (Suc i)))"
    "mem (ls_node (S i)) (prev_link opts) \<noteq> None" "ls_node (S i) \<noteq> h"
    "ls_prev (S i) = (case i of 0 \<Rightarrow> h | Suc k \<Rightarrow> ls_node (S k))"
proof -
  have "\<exists>us. list_step mem opts h (S i) = Next us (S (Suc i))" for i
    using assms by (simp add: list_run_def)
  then obtain us where us: "\<And>i. list_step mem opts h (S i) = Next (us i) (S (Suc i))" by metis
  show "mem (ls_node (S i)) (next_link opts) = Some (ls_node (S (Suc i)))" "ls_node (S i) \<noteq> h"
    "mem (ls_node (S i)) (prev_link opts) \<noteq> None"
    using list_step_Next [OF us [of i]] by auto
  show "ls_prev (S i) = (case i of 0 \<Rightarrow> h | Suc k \<Rightarrow> ls_node (S k))"
    using assms list_step_Next(5) [OF us] by (auto simp: list_run_def split: nat.splits)
qed

lemma list_run_repeats:
  assumes "list_run mem opts h S" and "finite {a. mem a (prev_link opts) \<noteq> None}"
  obtains i j where "i < j" "ls_node (S i) = ls_node (S j)"
    "\<And>i' j'. i' < i \<Longrightarrow> i' < j' \<Longrightarrow> ls_node (S i') \<noteq> ls_node (S j')"
proof -
  have "range (\<lambda>i. ls_node (S i)) \<subseteq> {a. mem a (prev_link opts) \<noteq> None}"
    using list_run_facts(2) [OF assms(1)] by auto
  then have "finite (range (\<lambda>i. ls_node (S i)))" using assms(2) by (rule finite_subset)
  then show ?thesis using that by (rule not_inj_first)
qed

lemma list_run_broken:
  assumes "list_run mem opts h S" and "finite {a. mem a (prev_link opts) \<noteq> None}"
  shows "\<exists>b. broken mem opts (S b)"
proof (rule ccontr)
  assume "\<nexists>b. broken mem opts (S b)"
  then have ok: "mem (ls_node (S b)) (prev_link opts) = Some (ls_prev (S b))" for b
    by (simp add: broken_def)
  obtain i j where ij: "i < j" "ls_node (S i) = ls_node (S j)"
    "\<And>i' j'. i' < i \<Longrightarrow> i' < j' \<Longrightarrow> ls_node (S i') \<noteq> ls_node (S j')"
    using list_run_repeats [OF assms] by metis
  have prevs: "ls_prev (S i) = ls_prev (S j)" using ok [of i] ok [of j] ij(2) by simp
  obtain j' where j': "j = Suc j'" using ij(1) by (cases j) auto
  show False
  proof (cases i)
    case 0
    then show False
      using prevs list_run_facts(3, 4) [OF assms(1)] j' by (metis nat.case(1) nat.case(2))
  next
    case (Suc i')
    then show False using prevs list_run_facts(4) [OF assms(1)] j' ij(1) ij(3) [of i' j'] by simp
  qed
qed

text \<open>Once \<open>fast\<close> is set, at iteration \<open>k\<close>, it stays twice as far ahead.\<close>

lemma list_run_fast:
  assumes "list_run mem opts h S" and "\<not> exact_cycles opts"
    and "ls_fast (S k) = None" and "broken mem opts (S k)"
  shows "ls_fast (S (Suc (k + t))) = Some (ls_node (S (k + 2 * t + 2))) \<and>
    ls_node (S (k + t)) \<noteq> ls_node (S (k + 2 * t + 1))"
proof -
  obtain us where us: "\<And>i. list_step mem opts h (S i) = Next (us i) (S (Suc i))"
    using assms(1) unfolding list_run_def by metis
  have adv: "advance_fast mem (next_link opts) node 2 (ls_node (S m)) = Inr r \<Longrightarrow>
      node \<noteq> ls_node (S (m + 1)) \<and> r = Some (ls_node (S (m + 2)))" for node m r
    using advance_fast_2 [of mem "ls_node (S m)" "next_link opts" "ls_node (S (Suc m))"
        "ls_node (S (Suc (Suc m)))" node r] list_run_facts(1) [OF assms(1)] by simp
  show ?thesis
  proof (induction t)
    case 0
    then show ?case using list_step_fast [OF us [of k] assms(2)] assms(3, 4) adv by auto
  next
    case (Suc t)
    then show ?case
      using list_step_fast [OF us [of "Suc (k + t)"] assms(2)]
        adv [of "ls_node (S (Suc (k + t)))" "k + 2 * t + 2"] by auto
  qed
qed

lemma list_run_fast_set:
  assumes "list_run mem opts h S" and "\<not> exact_cycles opts" and "broken mem opts (S b)"
  obtains k where "ls_fast (S k) = None" "broken mem opts (S k)"
proof -
  obtain us where us: "\<And>i. list_step mem opts h (S i) = Next (us i) (S (Suc i))"
    using assms(1) unfolding list_run_def by metis
  show ?thesis
  proof (cases "\<forall>i \<le> b. ls_fast (S i) = None")
    case True
    then show ?thesis using that assms(3) by blast
  next
    case False
    define m where "m = (LEAST i. ls_fast (S i) \<noteq> None)"
    have m: "ls_fast (S m) \<noteq> None" unfolding m_def using False by (metis (mono_tags) LeastI_ex)
    have below: "i < m \<Longrightarrow> ls_fast (S i) = None" for i unfolding m_def using not_less_Least by blast
    have "m \<noteq> 0" using m assms(1) by (metis list_run_def)
    then obtain k where k: "m = Suc k" by (cases m) auto
    then have "ls_fast (S k) = None" using below by simp
    moreover have "broken mem opts (S k)"
      using list_step_fast [OF us [of k] assms(2)] m k calculation by (auto split: if_splits)
    ultimately show ?thesis using that by blast
  qed
qed

lemma list_run_impossible:
  assumes "list_run mem opts h S" and "finite {a. mem a (prev_link opts) \<noteq> None}"
    and "\<not> exact_cycles opts"
  shows False
proof -
  obtain k where k: "ls_fast (S k) = None" "broken mem opts (S k)"
    using list_run_broken [OF assms(1, 2)] list_run_fast_set [OF assms(1, 3)] by metis
  obtain i j where ij: "i < j" "ls_node (S i) = ls_node (S j)"
    using list_run_repeats [OF assms(1, 2)] by metis
  have "ls_node (S (Suc i)) = (\<lambda>a. the (mem a (next_link opts))) (ls_node (S i))" for i
    using list_run_facts(1) [OF assms(1), of i] by simp
  then obtain t where "ls_node (S (k + 2 * t + 1)) = ls_node (S (k + t))"
    using floyd_meets [where n = "\<lambda>i. ls_node (S i)" and f = "\<lambda>a. the (mem a (next_link opts))"] ij
    by blast
  then show False using list_run_fast [OF assms(1, 3) k, of t] by simp
qed

lemma list_run_exact_impossible:
  assumes "list_run mem opts h S" and "finite {a. mem a (prev_link opts) \<noteq> None}"
    and "exact_cycles opts"
  shows False
proof -
  obtain us where us: "\<And>i. list_step mem opts h (S i) = Next (us i) (S (Suc i))"
    using assms(1) unfolding list_run_def by metis
  have visited: "ls_node (S i) \<in> ls_visited (S (Suc (i + d)))" for i d
    by (induction d) (use list_step_Next(8) [OF us] assms(3) in auto)
  obtain i j where ij: "i < j" "ls_node (S i) = ls_node (S j)"
    using list_run_repeats [OF assms(1, 2)] by metis
  then have "ls_node (S j) \<in> ls_visited (S j)" using visited [of i "j - Suc i"] by simp
  then show False using list_step_Next(7) [OF us assms(3)] by blast
qed

lemma list_walk_terminates:
  assumes "finite {a. mem a (prev_link opts) \<noteq> None}"
  shows "\<exists>g. list_walk mem opts h = Some g"
proof (rule ccontr)
  assume "\<nexists>g. list_walk mem opts h = Some g"
  then have "list_walk mem opts h = None" by (metis option.exhaust)
  then obtain nxt where "gen_while (list_step mem opts h) (list_start h nxt) = None"
    by (auto simp: list_walk_def split: option.splits if_splits)
  then obtain S where "S 0 = list_start h nxt" "\<And>i. \<exists>us. list_step mem opts h (S i) = Next us (S (Suc i))"
    using gen_while_None_run by metis
  then have "list_run mem opts h S" by (simp add: list_run_def list_start_def)
  then show False
    using list_run_impossible list_run_exact_impossible assms by blast
qed

section \<open>Clients of the iterators\<close>

interpretation fwd: list_iter "\<lambda>h. list_for_each mem (ListObj h) default_opts" "is_list mem" for mem
  by unfold_locales (simp add: list_for_each_ok default_opts_def)

interpretation bwd: list_iter
  "\<lambda>h. list_for_each mem (ListObj h) (default_opts\<lparr>reverse := True\<rparr>)" "\<lambda>h xs. is_list mem h (rev xs)"
  for mem
  by unfold_locales (simp add: list_for_each_ok default_opts_def)

lemma list_for_each_entry_ok:
  assumes "is_list mem h (map (\<lambda>b. ptr_add b (int off)) bs)" and "offsetof_err t m = Inr off"
    and "\<forall>b \<in> set bs. 0 \<le> b \<and> b < 2 ^ 64"
  shows "list_for_each_entry mem (ListObj h) t m default_opts = Some (gen_of_list bs)"
    "list_for_each_entry mem (ListObj h) t m (default_opts\<lparr>reverse := True\<rparr>) = Some (gen_of_list (rev bs))"
  using fwd.entries_list [OF assms] bwd.entries_list [of mem h off "rev bs" t m] assms
  by (simp_all add: list_for_each_entry_def rev_map)

text \<open>A klist: its nodes are on the list at \<open>k_list\<close> and each points back to the klist.\<close>

definition is_klist :: "list_mem \<Rightarrow> klist_env \<Rightarrow> addr \<Rightarrow> addr list \<Rightarrow> bool" where
  "is_klist mem env k nodes \<longleftrightarrow> (\<exists>off. offsetof_err (klist_node_type env) ''n_node'' = Inr off \<and>
     is_list mem (ptr_add k (int (k_list_off env))) (map (\<lambda>b. ptr_add b (int off)) nodes)) \<and>
     (\<forall>b \<in> set nodes. 0 \<le> b \<and> b < 2 ^ 64)"

lemma klist_nodes:
  "(\<And>b. b \<in> set nodes \<Longrightarrow> n_klist env b \<noteq> None) \<Longrightarrow>
   gen_for nodes (\<lambda>node. gen_try (of_option GdbMemoryError (n_klist env node)) (\<lambda>k'.
     if k' \<noteq> k then gen_raise KlistCorruptedError else gen_of_list [node])) =
   (takeWhile (\<lambda>b. n_klist env b = Some k) nodes,
    if \<forall>b \<in> set nodes. n_klist env b = Some k then None else Some KlistCorruptedError)"
proof (induction nodes)
  case (Cons b nodes)
  then obtain k' where "n_klist env b = Some k'" by fastforce
  with Cons show ?case by (auto simp: gen_simps gen_seq_def gen_yields_def gen_raise_def)
qed (simp add: gen_done_def)

lemma klist_for_each_ok:
  assumes "is_klist mem env k nodes" and "\<And>b. b \<in> set nodes \<Longrightarrow> n_klist env b \<noteq> None"
  shows "klist_for_each mem env (KlistObj k) =
   Some (takeWhile (\<lambda>b. n_klist env b = Some k) nodes,
    if \<forall>b \<in> set nodes. n_klist env b = Some k then None else Some KlistCorruptedError)"
proof -
  obtain off where "offsetof_err (klist_node_type env) ''n_node'' = Inr off"
    "is_list mem (ptr_add k (int (k_list_off env))) (map (\<lambda>b. ptr_add b (int off)) nodes)"
    "\<forall>b \<in> set nodes. 0 \<le> b \<and> b < 2 ^ 64"
    using assms(1) by (auto simp: is_klist_def)
  then have "list_for_each_entry mem (ListObj (ptr_add k (int (k_list_off env)))) (klist_node_type env)
      ''n_node'' default_opts = Some (gen_of_list nodes)"
    by (intro list_for_each_entry_ok)
  then show ?thesis
    using klist_nodes [OF assms(2)] by (simp add: klist_for_each_def gen_bind_of_list)
qed

interpretation kl: list_iter "\<lambda>k. klist_for_each mem env (KlistObj k)"
  "\<lambda>k nodes. is_klist mem env k nodes \<and> (\<forall>b \<in> set nodes. n_klist env b = Some k)" for mem env
proof
  fix k nodes
  assume "is_klist mem env k nodes \<and> (\<forall>b \<in> set nodes. n_klist env b = Some k)"
  then show "klist_for_each mem env (KlistObj k) = Some (gen_of_list nodes)"
    using klist_for_each_ok [of mem env k nodes] by (auto simp: gen_of_list_def takeWhile_eq_all_conv)
qed

lemma klist_for_each_entry_ok:
  assumes "is_klist mem env k (map (\<lambda>b. ptr_add b (int off)) bs)"
    and "\<forall>b \<in> set bs. n_klist env (ptr_add b (int off)) = Some k" and "offsetof_err t m = Inr off"
    and "\<forall>b \<in> set bs. 0 \<le> b \<and> b < 2 ^ 64"
  shows "klist_for_each_entry mem env (KlistObj k) t m = Some (gen_of_list bs)"
  unfolding klist_for_each_entry_def using assms by (intro kl.entries_list) auto

text \<open>The devices of a class, for both places of \<open>knode_class\<close>.\<close>

definition class_devices :: "classdev_env \<Rightarrow> bool \<Rightarrow> addr list \<Rightarrow> addr list" where
  "class_devices env priv bs = (if priv then map (\<lambda>b. the (cd_device env b)) bs else bs)"

lemma class_device_one:
  assumes "offsetof_err (if priv then cd_device_private_type env else cd_device_type env)
      ''knode_class'' = Inr off"
    and "0 \<le> b" and "b < 2 ^ 64" and "priv \<Longrightarrow> cd_device env b \<noteq> None"
    and "\<And>d. d \<in> set (class_devices env priv [b]) \<Longrightarrow> cd_type env d \<noteq> None"
  shows "class_device env priv subtype (ptr_add b (int off)) =
    gen_of_list (filter (\<lambda>d. \<forall>st. subtype = Some st \<longrightarrow> cd_type env d = Some st)
      (class_devices env priv [b]))"
  using container_of_ptr_add [OF assms(1-3)] assms(4, 5)
  by (cases priv; cases subtype) (auto simp: class_device_def class_devices_def gen_simps)

lemma for_each_class_device_ok:
  assumes "is_klist mem kenv k (map (\<lambda>b. ptr_add b (int off)) bs)"
    and "\<forall>b \<in> set bs. n_klist kenv (ptr_add b (int off)) = Some k"
    and "offsetof_err (if priv then cd_device_private_type env else cd_device_type env)
      ''knode_class'' = Inr off"
    and "\<forall>b \<in> set bs. 0 \<le> b \<and> b < 2 ^ 64 \<and> (priv \<longrightarrow> cd_device env b \<noteq> None)"
    and "\<forall>d \<in> set (class_devices env priv bs). cd_type env d \<noteq> None"
  shows "for_each_class_device mem kenv env priv (KlistObj k) subtype =
    Some (gen_of_list (filter (\<lambda>d. \<forall>st. subtype = Some st \<longrightarrow> cd_type env d = Some st)
      (class_devices env priv bs)))"
proof -
  have "gen_for (map (\<lambda>b. ptr_add b (int off)) bs) (class_device env priv subtype) =
    gen_of_list (filter (\<lambda>d. \<forall>st. subtype = Some st \<longrightarrow> cd_type env d = Some st)
      (class_devices env priv bs))"
    using assms(4, 5)
  proof (induction bs)
    case (Cons b bs)
    have "class_device env priv subtype (ptr_add b (int off)) =
        gen_of_list (filter (\<lambda>d. \<forall>st. subtype = Some st \<longrightarrow> cd_type env d = Some st)
          (class_devices env priv [b]))"
      using Cons.prems by (intro class_device_one assms(3)) (auto simp: class_devices_def split: if_splits)
    moreover have "class_devices env priv (b # bs) =
        class_devices env priv [b] @ class_devices env priv bs"
      by (simp add: class_devices_def)
    ultimately show ?case using Cons by (simp add: gen_simps class_devices_def split: if_splits)
  qed (simp add: gen_simps class_devices_def)
  moreover have "for_each_class_device mem kenv env priv (KlistObj k) subtype =
      Some (gen_for (map (\<lambda>b. ptr_add b (int off)) bs) (class_device env priv subtype))"
    unfolding for_each_class_device_def using assms(1, 2) by (intro kl.bind_list) simp
  ultimately show ?thesis by simp
qed

section \<open>Properties\<close>

text \<open>Memories for the witnesses, as tables of (address, \<open>next\<close>, \<open>prev\<close>).\<close>

definition mem_of :: "(addr \<times> addr \<times> addr) list \<Rightarrow> list_mem" where
  "mem_of tab a l = map_option (case_link fst snd l) (map_of tab a)"

lemma mem_of_finite: "finite {a. mem_of tab a l \<noteq> None}"
proof -
  have "{a. mem_of tab a l \<noteq> None} = dom (map_of tab)" by (auto simp: mem_of_def)
  then show ?thesis by (simp add: finite_dom_map_of)
qed

text \<open>A list of two nodes, one whose second node points back to itself, and one whose first node has
  a wrong \<open>prev\<close> link.\<close>

definition ex_good :: list_mem where
  "ex_good = mem_of [(100, 200, 300), (200, 300, 100), (300, 100, 200)]"

definition ex_cycle :: list_mem where
  "ex_cycle = mem_of [(100, 200, 300), (200, 300, 100), (300, 300, 200)]"

definition ex_bad_prev :: list_mem where
  "ex_bad_prev = mem_of [(100, 200, 200), (200, 100, 500)]"

text \<open>C2: iterating a well-formed list of any length yields its nodes in order, from the last to the
  first with \<open>reverse\<close>, after the head with \<open>include_head\<close>, and ends without an exception, for every
  combination of options and for both kinds of argument.\<close>

theorem list_for_each_wellformed:
  assumes "is_list mem h xs" and "arg = ListPtr h \<or> arg = ListObj h"
  shows "list_for_each mem arg opts =
    Some (gen_of_list ((if include_head opts then [h] else []) @ (if reverse opts then rev xs else xs)))"
  using assms by (rule list_for_each_ok)

theorem list_for_each_wellformed_witness:
  "list_for_each ex_good (ListPtr 100) \<lparr>include_head = True, reverse = True, exact_cycles = False\<rparr> =
   Some (gen_of_list [100, 300, 200])"
proof -
  have "is_list ex_good 100 [200, 300]" by code_simp
  then show ?thesis using list_for_each_wellformed [of ex_good 100 "[200, 300]" "ListPtr 100"] by simp
qed

text \<open>C1: on a memory in which finitely many \<open>list_head\<close>s can be read the iteration ends, with or without
  \<open>exact_cycles\<close>, whatever the links are: every cycle that does not contain the head is detected.\<close>

theorem list_for_each_terminates:
  assumes "finite {a. mem a (prev_link opts) \<noteq> None}"
  shows "\<exists>g. list_for_each mem arg opts = Some g"
proof -
  have "list_walk mem opts h \<noteq> None" for h using list_walk_terminates [of mem opts h] assms by auto
  then have "list_for_each mem arg opts \<noteq> None"
    by (cases arg) (simp_all add: list_for_each_def del: not_None_eq split_paired_Ex)
  then show ?thesis by (cases "list_for_each mem arg opts") auto
qed

theorem list_for_each_terminates_witness:
  "\<exists>g. list_for_each ex_cycle (ListObj 100) default_opts = Some g"
  using list_for_each_terminates [of ex_cycle default_opts] mem_of_finite by (simp add: ex_cycle_def)

text \<open>C3: an iteration that ends without an exception has checked the list: the nodes it yields are
  distinct and differ from the head, their forward links lead through them back to the head, and the
  backward link of each is the node before.\<close>

theorem list_for_each_clean:
  assumes "list_for_each mem (ListObj h) opts = Some (ys, None)" and "\<not> include_head opts"
  shows "distinct ys \<and> h \<notin> set ys \<and> linked mem (next_link opts) h ys h \<and>
    backed mem (prev_link opts) h ys"
proof -
  have "list_walk mem opts h = Some (ys, None)"
    using assms by (auto simp: list_for_each_def gen_raise_def gen_yields_def split: if_splits)
  then show ?thesis using list_walk_clean by blast
qed

theorem list_for_each_clean_witness:
  "backed ex_good Lprev 100 [200, 300]"
proof -
  have "list_for_each ex_good (ListObj 100) default_opts = Some ([200, 300], None)" by code_simp
  then show ?thesis
    using list_for_each_clean [of ex_good 100 default_opts "[200, 300]"]
    by (simp add: default_opts_def prev_link_def)
qed

text \<open>With \<open>exact_cycles\<close> no node is yielded twice, also when the iteration fails, and
  \<^verbatim>\<open>ListCycleError\<close> is raised only where the links really lead from the last node yielded to one
  yielded before.\<close>

theorem list_for_each_exact_cycles:
  assumes "list_for_each mem (ListObj h) opts = Some (ys, e)" and "exact_cycles opts"
    and "\<not> include_head opts"
  shows "distinct ys \<and> (e = Some ListCycleError \<longrightarrow> (\<exists>y \<in> set ys. linked mem (next_link opts) h ys y))"
proof (cases "h = 0")
  case True
  then show ?thesis using assms by (auto simp: list_for_each_def gen_raise_def)
next
  case False
  then have "list_walk mem opts h = Some (ys, e)"
    using assms by (auto simp: list_for_each_def gen_yields_def)
  then show ?thesis using list_walk_exact [OF assms(2)] by blast
qed

theorem list_for_each_exact_cycles_witness:
  "\<exists>y \<in> {200, 300}. linked ex_cycle Lnext 100 [200, 300] y"
proof -
  have "list_for_each ex_cycle (ListObj 100) (default_opts\<lparr>exact_cycles := True\<rparr>) =
      Some ([200, 300], Some ListCycleError)" by code_simp
  then show ?thesis
    using list_for_each_exact_cycles [of ex_cycle 100 "default_opts\<lparr>exact_cycles := True\<rparr>"]
    by (simp add: default_opts_def next_link_def)
qed

text \<open>Without \<open>exact_cycles\<close> a list without any cycle besides the one through the head, whose first
  node has a wrong \<open>prev\<close> link, is reported with \<^verbatim>\<open>ListCycleError\<close> although \<open>exact_cycles\<close> reports it as
  corrupt only: \<open>fast\<close> runs through the head and round the list.\<close>

theorem list_for_each_false_cycle:
  "list_for_each ex_bad_prev (ListObj 100) default_opts = Some ([200], Some ListCycleError) \<and>
   list_for_each ex_bad_prev (ListObj 100) (default_opts\<lparr>exact_cycles := True\<rparr>) =
     Some ([200], Some CorruptListError) \<and>
   linked ex_bad_prev Lnext 100 [200] 100"
  by (intro conjI) code_simp+

text \<open>The devices of a class are found on both sides of the move of \<open>knode_class\<close> into
  \<open>struct device_private\<close>: iterating the klist of a class yields the devices whose type is the one asked
  for, in list order.\<close>

theorem class_devices_of_klist:
  assumes "is_klist mem kenv k (map (\<lambda>b. ptr_add b (int off)) bs)"
    and "\<forall>b \<in> set bs. n_klist kenv (ptr_add b (int off)) = Some k"
    and "offsetof_err (if priv then cd_device_private_type env else cd_device_type env)
      ''knode_class'' = Inr off"
    and "\<forall>b \<in> set bs. 0 \<le> b \<and> b < 2 ^ 64 \<and> (priv \<longrightarrow> cd_device env b \<noteq> None)"
    and "\<forall>d \<in> set (class_devices env priv bs). cd_type env d \<noteq> None"
  shows "for_each_class_device mem kenv env priv (KlistObj k) subtype =
    Some (gen_of_list (filter (\<lambda>d. \<forall>st. subtype = Some st \<longrightarrow> cd_type env d = Some st)
      (class_devices env priv bs)))"
  using assms by (rule for_each_class_device_ok)

definition ex_knode :: gtype where
  "ex_knode = GType CODE_STRUCT 32 ''klist_node'' None
     [GField (Some ''n_klist'') 0 ex_int, GField (Some ''n_node'') 64 ex_int]"

definition ex_dev_private :: gtype where
  "ex_dev_private = GType CODE_STRUCT 64 ''device_private'' None
     [GField (Some ''device'') 0 ex_int, GField (Some ''knode_class'') 128 ex_knode]"

definition ex_kenv :: klist_env where
  "ex_kenv = \<lparr>k_list_off = 8, klist_node_type = ex_knode, n_klist = (\<lambda>_. Some 92)\<rparr>"

definition ex_cenv :: classdev_env where
  "ex_cenv = \<lparr>cd_device_type = ex_inner, cd_device_private_type = ex_dev_private,
     cd_device = (\<lambda>a. Some (a + 1000)), cd_type = (\<lambda>a. Some (if a = 1176 then 7 else 8))\<rparr>"

theorem class_devices_of_klist_witness:
  "for_each_class_device ex_good ex_kenv ex_cenv True (KlistObj 92) (Some 7) = Some (gen_of_list [1176])"
proof -
  have "is_klist ex_good ex_kenv 92 (map (\<lambda>b. ptr_add b (int 16)) [176, 276])"
  proof -
    have "offsetof_err (klist_node_type ex_kenv) ''n_node'' = Inr 8" by code_simp
    moreover have "is_list ex_good (ptr_add 92 (int (k_list_off ex_kenv)))
        (map (\<lambda>b. ptr_add b (int 8)) (map (\<lambda>b. ptr_add b (int 16)) [176, 276]))" by code_simp
    moreover have "\<forall>b \<in> set (map (\<lambda>b. ptr_add b (int 16)) [176, 276]). 0 \<le> b \<and> b < 2 ^ 64" by code_simp
    ultimately show ?thesis unfolding is_klist_def by blast
  qed
  moreover have "\<forall>b \<in> set [176, 276]. n_klist ex_kenv (ptr_add b (int 16)) = Some 92" by code_simp
  moreover have "offsetof_err (if True then cd_device_private_type ex_cenv else cd_device_type ex_cenv)
      ''knode_class'' = Inr 16" by code_simp
  moreover have "\<forall>b \<in> set [176, 276]. 0 \<le> b \<and> b < 2 ^ 64 \<and> (True \<longrightarrow> cd_device ex_cenv b \<noteq> None)"
    by code_simp
  moreover have "\<forall>d \<in> set (class_devices ex_cenv True [176, 276]). cd_type ex_cenv d \<noteq> None" by code_simp
  ultimately have "for_each_class_device ex_good ex_kenv ex_cenv True (KlistObj 92) (Some 7) =
    Some (gen_of_list (filter (\<lambda>d. \<forall>st. Some 7 = Some st \<longrightarrow> cd_type ex_cenv d = Some st)
      (class_devices ex_cenv True [176, 276])))"
    by (rule class_devices_of_klist)
  then show ?thesis by (simp add: class_devices_def ex_cenv_def)
qed

end
