(* ===== verification/Rbtree.thy ===== *)
theory Rbtree
  imports Iterators
begin

text \<open>
  Post-order iteration of the kernel's red-black trees: \<^verbatim>\<open>crash/types/rbtree.py\<close>.

  Memory gives the members of the \<open>struct rb_node\<close> at an address, \<open>None\<close> where they cannot be read.
  Neither loop of the source is bounded, so both are partial functions; not returning is \<open>None\<close>.
\<close>

section \<open>The iteration\<close>

record rb_node =
  rb_left :: addr
  rb_right :: addr
  rb_parent_color :: int

type_synonym rb_mem = "addr \<Rightarrow> rb_node option"

datatype rb_arg = RbPtr addr | RbObj addr | RbOther | RbNoValue

partial_function (option) rb_left_deepest_node :: "rb_mem \<Rightarrow> addr \<Rightarrow> addr option res option" where
  "rb_left_deepest_node mem node =
     (if node = 0 then Some (Inr None)
      else (case mem node of
          None \<Rightarrow> Some (Inl GdbMemoryError)
        | Some n \<Rightarrow>
            if rb_left n \<noteq> 0 then rb_left_deepest_node mem (rb_left n)
            else if rb_right n \<noteq> 0 then rb_left_deepest_node mem (rb_right n)
            else Some (Inr (Some node))))"

definition rb_parent :: "rb_mem \<Rightarrow> addr \<Rightarrow> addr option res" where
  "rb_parent mem node = bindR (of_option GdbMemoryError (mem node)) (\<lambda>n.
     let a = rb_parent_color n AND NOT 0x3 in Inr (if a = 0 then None else Some a))"

definition rb_next_postorder :: "rb_mem \<Rightarrow> addr \<Rightarrow> addr option res option" where
  "rb_next_postorder mem node =
     (if node = 0 then Some (Inr None)
      else (case rb_parent mem node of
          Inl e \<Rightarrow> Some (Inl e)
        | Inr None \<Rightarrow> Some (Inr None)
        | Inr (Some parent) \<Rightarrow> (case mem parent of
              None \<Rightarrow> Some (Inl GdbMemoryError)
            | Some p \<Rightarrow>
                if node = rb_left p \<and> rb_right p \<noteq> 0 then rb_left_deepest_node mem (rb_right p)
                else Some (Inr (Some parent)))))"

text \<open>The \<open>while node is not None\<close> loop.\<close>

partial_function (option) rb_loop :: "rb_mem \<Rightarrow> addr option \<Rightarrow> addr gen option" where
  "rb_loop mem node = (case node of
       None \<Rightarrow> Some gen_done
     | Some n \<Rightarrow> Option.bind (rb_next_postorder mem n) (\<lambda>r. case r of
           Inl e \<Rightarrow> Some (gen_yields [n] (gen_raise e))
         | Inr node' \<Rightarrow> Option.bind (rb_loop mem node') (\<lambda>g. Some (gen_yields [n] g))))"

declare rb_left_deepest_node.simps [code] rb_loop.simps [code]

text \<open>\<open>rb_node_of\<close> reads the member \<open>rb_node\<close> of the \<open>struct rb_root\<close> at an address.\<close>

definition rbtree_postorder_for_each ::
  "rb_mem \<Rightarrow> (addr \<Rightarrow> addr option) \<Rightarrow> rb_arg \<Rightarrow> addr gen option" where
  "rbtree_postorder_for_each mem rb_node_of arg =
     (case (case arg of RbNoValue \<Rightarrow> Inl ArgumentTypeError
            | RbPtr a \<Rightarrow> Inr a | RbObj a \<Rightarrow> Inr a
            | RbOther \<Rightarrow> Inl UnexpectedGDBTypeError) of
        Inl e \<Rightarrow> Some (gen_raise e)
      | Inr root \<Rightarrow>
          if root = 0 then Some (gen_raise CorruptTreeError)
          else (case rb_node_of root of
              None \<Rightarrow> Some (gen_raise GdbMemoryError)
            | Some n \<Rightarrow> Option.bind (rb_left_deepest_node mem n) (\<lambda>r. case r of
                  Inl e \<Rightarrow> Some (gen_raise e)
                | Inr node \<Rightarrow> rb_loop mem node)))"

definition rbtree_postorder_for_each_entry ::
  "rb_mem \<Rightarrow> (addr \<Rightarrow> addr option) \<Rightarrow> rb_arg \<Rightarrow> gtype \<Rightarrow> string \<Rightarrow> addr gen option" where
  "rbtree_postorder_for_each_entry mem rb_node_of arg gdbtype member =
     map_option (\<lambda>g. gen_bind g (\<lambda>node. gen_of_res (container_of node gdbtype member)))
       (rbtree_postorder_for_each mem rb_node_of arg)"

section \<open>Trees in memory\<close>

datatype rb_tree = RbLeaf | RbNode rb_tree addr rb_tree

fun postorder :: "rb_tree \<Rightarrow> addr list" where
  "postorder RbLeaf = []"
| "postorder (RbNode l x r) = postorder l @ postorder r @ [x]"

text \<open>The tree at address \<open>a\<close> below the parent \<open>p\<close>; the two low bits of the parent word hold the colour.\<close>

fun rb_repr :: "rb_mem \<Rightarrow> addr \<Rightarrow> rb_tree \<Rightarrow> addr \<Rightarrow> bool" where
  "rb_repr mem p RbLeaf a \<longleftrightarrow> a = 0"
| "rb_repr mem p (RbNode l x r) a \<longleftrightarrow> a = x \<and> x \<noteq> 0 \<and>
     (case mem x of None \<Rightarrow> False
      | Some n \<Rightarrow> rb_parent_color n AND NOT 0x3 = p \<and> rb_repr mem x l (rb_left n) \<and>
          rb_repr mem x r (rb_right n))"

lemma rb_repr_nonzero: "rb_repr mem p t a \<Longrightarrow> a \<noteq> 0 \<longleftrightarrow> t \<noteq> RbLeaf"
  by (cases t) auto

lemma rb_repr_in: "rb_repr mem p t a \<Longrightarrow> t \<noteq> RbLeaf \<Longrightarrow> a \<in> set (postorder t)"
  by (cases t) auto

text \<open>The iteration of a subtree: it starts at the deepest node and comes to the root of the subtree
  after yielding everything below.\<close>

lemma bind_Some_map [simp]: "Option.bind m (\<lambda>g. Some (f g)) = map_option f m"
  by (cases m) auto

lemma rb_loop_next:
  "rb_next_postorder mem n = Some (Inr r) \<Longrightarrow>
   rb_loop mem (Some n) = map_option (gen_yields [n]) (rb_loop mem r)"
  by (subst rb_loop.simps) simp

lemma rb_next_of_child:
  assumes "rb_repr mem x t a" and "t \<noteq> RbLeaf" and "mem x = Some n" and "x \<noteq> 0"
  shows "rb_next_postorder mem a =
    (if a = rb_left n \<and> rb_right n \<noteq> 0 then rb_left_deepest_node mem (rb_right n)
     else Some (Inr (Some x)))"
  using assms by (cases t) (auto simp: rb_next_postorder_def rb_parent_def Let_def split: option.splits)

lemma rb_subtree:
  assumes "rb_repr mem p t a" and "t \<noteq> RbLeaf" and "distinct (postorder t)"
  shows "\<exists>n. rb_left_deepest_node mem a = Some (Inr (Some n)) \<and>
    rb_loop mem (Some n) = map_option (gen_yields (butlast (postorder t))) (rb_loop mem (Some a))"
  using assms
proof (induction t arbitrary: p a)
  case (RbNode l x r)
  obtain n where n: "mem x = Some n" "rb_repr mem x l (rb_left n)" "rb_repr mem x r (rb_right n)"
    and x: "a = x" "x \<noteq> 0"
    using RbNode.prems(1) by (auto split: option.splits)
  have dl: "distinct (postorder l)" "distinct (postorder r)" using RbNode.prems(3) by auto
  let ?L = "rb_left_deepest_node mem"
  have deep: "?L a = (if rb_left n \<noteq> 0 then ?L (rb_left n) else if rb_right n \<noteq> 0 then ?L (rb_right n)
      else Some (Inr (Some a)))"
    using n x by (subst rb_left_deepest_node.simps) simp
  have last_snoc: "t \<noteq> RbLeaf \<Longrightarrow> rb_repr mem x t b \<Longrightarrow> butlast (postorder t) @ [b] = postorder t"
    for t b by (cases t) (auto simp: butlast_append)
  have right: "\<exists>m. ?L (rb_right n) = Some (Inr (Some m)) \<and>
      rb_loop mem (Some m) = map_option (gen_yields (postorder r)) (rb_loop mem (Some a))"
    if r: "r \<noteq> RbLeaf"
  proof -
    obtain m where m: "?L (rb_right n) = Some (Inr (Some m))"
      "rb_loop mem (Some m) =
        map_option (gen_yields (butlast (postorder r))) (rb_loop mem (Some (rb_right n)))"
      using RbNode.IH(2) [OF n(3) r dl(2)] by blast
    have "rb_right n \<noteq> rb_left n"
    proof (cases "l = RbLeaf")
      case True
      then show ?thesis using n r rb_repr_nonzero [OF n(3)] by simp
    next
      case False
      then show ?thesis using rb_repr_in [OF n(2) False] rb_repr_in [OF n(3) r] RbNode.prems(3) by auto
    qed
    then have "rb_loop mem (Some (rb_right n)) = map_option (gen_yields [rb_right n]) (rb_loop mem (Some a))"
      using rb_next_of_child [OF n(3) r n(1) x(2)] x(1) by (simp add: rb_loop_next)
    then show ?thesis
      using m last_snoc [OF r n(3)]
      by (simp add: option.map_comp comp_def gen_simps del: butlast_append)
  qed
  show ?case
  proof (cases "l = RbLeaf")
    case True
    then show ?thesis using deep right n(2, 3) x rb_repr_nonzero [OF n(3)]
      by (cases "r = RbLeaf") (auto simp: butlast_append gen_simps option.map_ident)
  next
    case l: False
    obtain m where m: "?L (rb_left n) = Some (Inr (Some m))"
      "rb_loop mem (Some m) =
        map_option (gen_yields (butlast (postorder l))) (rb_loop mem (Some (rb_left n)))"
      using RbNode.IH(1) [OF n(2) l dl(1)] by blast
    have "rb_loop mem (Some (rb_left n)) =
        map_option (gen_yields (rb_left n # postorder r)) (rb_loop mem (Some a))"
    proof (cases "r = RbLeaf")
      case True
      then show ?thesis using rb_next_of_child [OF n(2) l n(1) x(2)] n(3) x(1) by (simp add: rb_loop_next)
    next
      case False
      then obtain m' where m': "?L (rb_right n) = Some (Inr (Some m'))"
        "rb_loop mem (Some m') = map_option (gen_yields (postorder r)) (rb_loop mem (Some a))"
        using right by blast
      then have "rb_next_postorder mem (rb_left n) = Some (Inr (Some m'))"
        using rb_next_of_child [OF n(2) l n(1) x(2)] rb_repr_nonzero [OF n(3)] False by simp
      then show ?thesis using m'(2) by (simp add: rb_loop_next option.map_comp comp_def gen_simps)
    qed
    then show ?thesis
      using m deep rb_repr_nonzero [OF n(2)] l last_snoc [OF l n(2)]
      by (simp add: option.map_comp comp_def gen_simps butlast_append flip: append_assoc)
         (metis append.assoc append_Cons append_Nil)
  qed
qed simp

text \<open>A tree below a root: the parent word of its top node is 0.\<close>

definition is_rbtree :: "rb_mem \<Rightarrow> (addr \<Rightarrow> addr option) \<Rightarrow> addr \<Rightarrow> rb_tree \<Rightarrow> bool" where
  "is_rbtree mem rb_node_of root t \<longleftrightarrow> root \<noteq> 0 \<and> distinct (postorder t) \<and>
     (case rb_node_of root of None \<Rightarrow> False | Some a \<Rightarrow> rb_repr mem 0 t a)"

lemma rbtree_postorder_ok:
  assumes "is_rbtree mem rb_node_of root t" and "arg = RbPtr root \<or> arg = RbObj root"
  shows "rbtree_postorder_for_each mem rb_node_of arg = Some (gen_of_list (postorder t))"
proof -
  obtain a where a: "rb_node_of root = Some a" "rb_repr mem 0 t a" "root \<noteq> 0" "distinct (postorder t)"
    using assms(1) by (auto simp: is_rbtree_def split: option.splits)
  show ?thesis
  proof (cases t)
    case RbLeaf
    then have "rb_left_deepest_node mem a = Some (Inr None)"
      using a by (subst rb_left_deepest_node.simps) simp
    moreover have "rb_loop mem None = Some gen_done" by (subst rb_loop.simps) simp
    ultimately show ?thesis using a RbLeaf assms(2) by (auto simp: rbtree_postorder_for_each_def gen_simps)
  next
    case (RbNode l x r)
    then have ne: "t \<noteq> RbLeaf" by simp
    obtain n where n: "rb_left_deepest_node mem a = Some (Inr (Some n))"
      "rb_loop mem (Some n) = map_option (gen_yields (butlast (postorder t))) (rb_loop mem (Some a))"
      using rb_subtree [OF a(2) ne a(4)] by blast
    have "rb_next_postorder mem a = Some (Inr None)"
      using a(2) RbNode by (auto simp: rb_next_postorder_def rb_parent_def split: option.splits)
    then have "rb_loop mem (Some a) = Some (gen_of_list [a])"
      using rb_loop.simps [of mem None] by (simp add: rb_loop_next gen_simps del: split_paired_Ex)
    moreover have "butlast (postorder t) @ [a] = postorder t"
      using a(2) RbNode by (auto simp: butlast_append)
    ultimately have "rb_loop mem (Some n) = Some (gen_of_list (postorder t))"
      using n(2) by (simp add: gen_simps del: postorder.simps)
    then show ?thesis using a n(1) assms(2) by (auto simp: rbtree_postorder_for_each_def)
  qed
qed

interpretation rb: list_iter "\<lambda>root. rbtree_postorder_for_each mem rb_node_of (RbObj root)"
  "\<lambda>root xs. \<exists>t. is_rbtree mem rb_node_of root t \<and> xs = postorder t" for mem rb_node_of
  by unfold_locales (auto simp: rbtree_postorder_ok)

text \<open>A node that is its own left child.\<close>

lemma rb_left_deepest_selfloop:
  assumes "mem a = Some n" and "rb_left n = a" and "a \<noteq> 0"
  shows "rb_left_deepest_node mem a = None"
proof (rule ccontr)
  assume "rb_left_deepest_node mem a \<noteq> None"
  then obtain y where "rb_left_deepest_node mem a = Some y" by auto
  then have "a = a \<longrightarrow> mem = mem \<longrightarrow> \<not> (mem a = Some n)"
  proof (rule rb_left_deepest_node.raw_induct
      [where P = "\<lambda>m b y. b = a \<longrightarrow> m = mem \<longrightarrow> \<not> (mem a = Some n)", rotated])
    fix f :: "rb_mem \<Rightarrow> addr \<Rightarrow> addr option res option" and m b y
    assume IH: "\<And>m b y. f m b = Some y \<Longrightarrow> b = a \<longrightarrow> m = mem \<longrightarrow> \<not> (mem a = Some n)"
      and eq: "(if b = 0 then Some (Inr None)
      else (case m b of None \<Rightarrow> Some (Inl GdbMemoryError)
        | Some n \<Rightarrow> if rb_left n \<noteq> 0 then f m (rb_left n)
            else if rb_right n \<noteq> 0 then f m (rb_right n)
            else Some (Inr (Some b)))) = Some y"
    show "b = a \<longrightarrow> m = mem \<longrightarrow> \<not> (mem a = Some n)"
      using IH [of m b y] eq assms by (auto split: if_splits)
  qed
  then show False using assms by simp
qed

section \<open>Properties\<close>

text \<open>C28: for every tree in memory, balanced or not, the iteration yields its nodes in post-order and
  ends, and with \<open>rbtree_postorder_for_each_entry\<close> the objects that contain them.\<close>

theorem rbtree_postorder_correct:
  assumes "is_rbtree mem rb_node_of root t" and "offsetof_err gdbtype m = Inr off"
    and "postorder t = map (\<lambda>b. ptr_add b (int off)) bs" and "\<forall>b \<in> set bs. 0 \<le> b \<and> b < 2 ^ 64"
  shows "rbtree_postorder_for_each mem rb_node_of (RbPtr root) = Some (gen_of_list (postorder t)) \<and>
    rbtree_postorder_for_each_entry mem rb_node_of (RbObj root) gdbtype m = Some (gen_of_list bs)"
proof -
  have "\<exists>t. is_rbtree mem rb_node_of root t \<and> map (\<lambda>b. ptr_add b (int off)) bs = postorder t"
    using assms(1, 3) by metis
  then have "rbtree_postorder_for_each_entry mem rb_node_of (RbObj root) gdbtype m = Some (gen_of_list bs)"
    unfolding rbtree_postorder_for_each_entry_def using assms(2, 4) by (rule rb.entries_list)
  then show ?thesis using rbtree_postorder_ok [OF assms(1)] by blast
qed

definition ex_rb_mem :: rb_mem where
  "ex_rb_mem = map_of
     [(16, \<lparr>rb_left = 32, rb_right = 48, rb_parent_color = 1\<rparr>),
      (32, \<lparr>rb_left = 0, rb_right = 64, rb_parent_color = 17\<rparr>),
      (48, \<lparr>rb_left = 0, rb_right = 0, rb_parent_color = 17\<rparr>),
      (64, \<lparr>rb_left = 0, rb_right = 0, rb_parent_color = 32\<rparr>)]"

theorem rbtree_postorder_correct_witness:
  "rbtree_postorder_for_each_entry ex_rb_mem [8 \<mapsto> 16] (RbObj 8) ex_inner ''y'' =
   Some (gen_of_list [56, 24, 40, 8])"
proof -
  define t where "t = RbNode (RbNode RbLeaf 32 (RbNode RbLeaf 64 RbLeaf)) 16 (RbNode RbLeaf 48 RbLeaf)"
  have "is_rbtree ex_rb_mem [8 \<mapsto> 16] 8 t" unfolding t_def by code_simp
  moreover have "offsetof_err ex_inner ''y'' = Inr 8" by code_simp
  moreover have "postorder t = map (\<lambda>b. ptr_add b (int 8)) [56, 24, 40, 8]" unfolding t_def by code_simp
  moreover have "\<forall>b \<in> set [56, 24, 40, 8]. 0 \<le> b \<and> b < (2 ^ 64 :: int)" by simp
  ultimately show ?thesis
    using rbtree_postorder_correct [of ex_rb_mem "[8 \<mapsto> 16]" 8 t ex_inner "''y''" 8 "[56, 24, 40, 8]"]
    by blast
qed

text \<open>A cycle in the tree is not detected: on a node that is its own left child the iteration does
  not return, and no \<^verbatim>\<open>CorruptTreeError\<close> is raised.\<close>

theorem rbtree_cycle_diverges:
  assumes "mem a = Some n" and "rb_left n = a" and "a \<noteq> 0" and "root \<noteq> 0"
    and "rb_node_of root = Some a"
  shows "rbtree_postorder_for_each mem rb_node_of (RbObj root) = None"
  using assms rb_left_deepest_selfloop [of mem a n] by (simp add: rbtree_postorder_for_each_def)

theorem rbtree_cycle_diverges_witness:
  "rbtree_postorder_for_each [16 \<mapsto> \<lparr>rb_left = 16, rb_right = 0, rb_parent_color = 0\<rparr>]
     [8 \<mapsto> 16] (RbObj 8) = None"
  by (rule rbtree_cycle_diverges [of _ 16 "\<lparr>rb_left = 16, rb_right = 0, rb_parent_color = 0\<rparr>"])
     simp_all

end
