(* ===== verification/Percpu.thy ===== *)
theory Percpu
  imports Bitmap Linked_List "HOL-Library.AList"
begin

text \<open>
  CPU masks (\<^verbatim>\<open>crash/types/cpu.py\<close>) and per-CPU variables (\<^verbatim>\<open>crash/types/percpu.py\<close>).

  The class variables of \<open>TypesCPUClass\<close> and \<open>PerCPUState\<close> are records; a Python dictionary is an
  association list in insertion order.  The kernel's symbols are the fields of an environment record:
  a symbol whose value is not available yet is a \<^verbatim>\<open>DelayedAttributeError\<close>.
\<close>

section \<open>CPUs\<close>

record cpu_state =
  cpus_online :: "int list"
  cpus_possible :: "int list"

definition setup_online_mask :: "bitmap \<Rightarrow> cpu_state \<Rightarrow> cpu_state res" where
  "setup_online_mask bits st =
     bindR (gen_to_list (for_each_set_bit bits None)) (\<lambda>l. Inr (st\<lparr>cpus_online := l\<rparr>))"

definition setup_possible_mask :: "bitmap \<Rightarrow> cpu_state \<Rightarrow> cpu_state res" where
  "setup_possible_mask bits st =
     bindR (gen_to_list (for_each_set_bit bits None)) (\<lambda>l. Inr (st\<lparr>cpus_possible := l\<rparr>))"

definition for_each_online_cpu :: "cpu_state \<Rightarrow> int gen" where
  "for_each_online_cpu st = gen_of_list (cpus_online st)"

definition for_each_possible_cpu :: "cpu_state \<Rightarrow> int gen" where
  "for_each_possible_cpu st = gen_of_list (cpus_possible st)"

definition highest_online_cpu_nr :: "cpu_state \<Rightarrow> int res" where
  "highest_online_cpu_nr st =
     (if cpus_online st = [] then Inl DelayedAttributeError else Inr (last (cpus_online st)))"

definition highest_possible_cpu_nr :: "cpu_state \<Rightarrow> int res" where
  "highest_possible_cpu_nr st =
     (if cpus_possible st = [] then Inl DelayedAttributeError else Inr (last (cpus_possible st)))"

section \<open>The ranges of per-CPU addresses\<close>

record percpu_state =
  dynamic_offset_cache :: "(int \<times> int) list"
  static_ranges :: "(int \<times> int) list"
  module_ranges :: "(int \<times> int) list"
  last_cpu :: int
  nr_cpus :: int

definition percpu_init :: percpu_state where
  "percpu_init = \<lparr>dynamic_offset_cache = [], static_ranges = [], module_ranges = [],
     last_cpu = -1, nr_cpus = 0\<rparr>"

text \<open>The members of a \<open>struct pcpu_chunk\<close>; \<open>ch_map\<close> is the array of area sizes or offsets.\<close>

record pcpu_chunk =
  ch_base_addr :: int
  ch_map :: "nat \<Rightarrow> int"
  ch_map_used :: nat
  ch_nr_pages :: int

record percpu_env =
  per_cpu_start :: "int res"
  per_cpu_end :: "int res"
  per_cpu_offset :: "int \<Rightarrow> int res"
  per_cpu_offset_size :: int
  pcpu_base_addr :: int
  pcpu_has_map :: bool
  pcpu_slots :: "pcpu_chunk gen list res"
  pcpu_page_size :: int

definition setup_per_cpu_size :: "percpu_env \<Rightarrow> cpu_state \<Rightarrow> percpu_state \<Rightarrow> percpu_state res" where
  "setup_per_cpu_size env cpus st =
     (case bindR (per_cpu_end env) (\<lambda>e. bindR (per_cpu_start env) (\<lambda>s. Inr (e - s))) of
        Inl e \<Rightarrow> if catches DelayedAttributeError e then Inl UnboundLocalError else Inl e
      | Inr sz \<Rightarrow>
          bindR (per_cpu_start env) (\<lambda>start.
          let ranges = AList.update 0 sz (static_ranges st);
              st' = st\<lparr>static_ranges := (if start \<noteq> 0 then AList.update start sz ranges else ranges)\<rparr>
          in case highest_possible_cpu_nr cpus of
               Inr n \<Rightarrow> Inr (st'\<lparr>last_cpu := n, nr_cpus := n + 1\<rparr>)
             | Inl e \<Rightarrow> if catches DelayedAttributeError e then Inr st' else Inl e))"

definition setup_nr_cpus :: "percpu_env \<Rightarrow> percpu_state \<Rightarrow> percpu_state" where
  "setup_nr_cpus env st =
     (let st' = (if nr_cpus st = 0 then st\<lparr>nr_cpus := per_cpu_offset_size env\<rparr> else st)
      in if last_cpu st' = -1 then st'\<lparr>last_cpu := nr_cpus st'\<rparr> else st')"

text \<open>\<open>modules\<close> yields the members \<open>percpu\<close> and \<open>percpu_size\<close> of the modules.\<close>

fun add_module_ranges :: "(int \<times> int) list \<Rightarrow> (int \<times> int) list \<Rightarrow> (int \<times> int) list" where
  "add_module_ranges ranges [] = ranges"
| "add_module_ranges ranges ((start, sz) # ms) =
     add_module_ranges (if start = 0 then ranges else AList.update start sz ranges) ms"

definition setup_module_ranges :: "(int \<times> int) list \<Rightarrow> percpu_state \<Rightarrow> percpu_state" where
  "setup_module_ranges modules st =
     st\<lparr>module_ranges := add_module_ranges (module_ranges st) modules\<rparr>"

text \<open>
  The two loops over \<open>chunk.map\<close>: areas given by signed lengths, negative when used, and areas given
  by offsets, with the low bit set when used.  Both return the pairs passed to
  \<open>_add_to_offset_cache\<close>, without the base.
\<close>

definition close_area :: "int option \<Rightarrow> int \<Rightarrow> (int \<times> int) list" where
  "close_area start off = (case start of None \<Rightarrow> [] | Some s \<Rightarrow> [(s, off)])"

fun areas_by_length :: "int \<Rightarrow> int option \<Rightarrow> int list \<Rightarrow> (int \<times> int) list" where
  "areas_by_length off start [] = close_area start off"
| "areas_by_length off start (v # vs) =
     (if v < 0
      then areas_by_length (off + \<bar>v\<bar>) (case start of None \<Rightarrow> Some off | Some s \<Rightarrow> Some s) vs
      else close_area start off @ areas_by_length (off + \<bar>v\<bar>) None vs)"

fun areas_by_offset :: "int \<Rightarrow> int option \<Rightarrow> int list \<Rightarrow> (int \<times> int) list" where
  "areas_by_offset sentry start [] = close_area start (sentry - 1)"
| "areas_by_offset sentry start (v # vs) =
     (if v AND 1 = 1
      then areas_by_offset sentry (case start of None \<Rightarrow> Some (v - 1) | Some s \<Rightarrow> Some s) vs
      else close_area start v @ areas_by_offset sentry None vs)"

definition setup_dynamic_offset_cache_area_map :: "percpu_env \<Rightarrow> pcpu_chunk \<Rightarrow> (int \<times> int) list" where
  "setup_dynamic_offset_cache_area_map env chunk =
     (let chunk_base = ch_base_addr chunk - pcpu_base_addr env;
          vals = map (ch_map chunk) [0..<ch_map_used chunk];
          used_is_negative = list_ex (\<lambda>v. v < 0) vals;
          areas = (if used_is_negative then areas_by_length 0 None vals
                   else areas_by_offset (ch_map chunk (ch_map_used chunk)) None vals)
      in map (\<lambda>(s, e). (chunk_base + s, chunk_base + e)) areas)"

definition setup_dynamic_offset_cache_bitmap :: "percpu_env \<Rightarrow> pcpu_chunk \<Rightarrow> (int \<times> int) list" where
  "setup_dynamic_offset_cache_bitmap env chunk =
     (let chunk_base = ch_base_addr chunk - pcpu_base_addr env
      in [(chunk_base, chunk_base + ch_nr_pages chunk * pcpu_page_size env)])"

definition chunk_ranges :: "percpu_env \<Rightarrow> pcpu_chunk \<Rightarrow> (int \<times> int) list" where
  "chunk_ranges env chunk =
     (if pcpu_has_map env then setup_dynamic_offset_cache_area_map env chunk
      else setup_dynamic_offset_cache_bitmap env chunk)"

text \<open>The ranges appended, up to the exception that ends the setup, if one does.\<close>

definition setup_dynamic_offset_cache :: "percpu_env \<Rightarrow> percpu_state \<Rightarrow> percpu_state \<times> exc option" where
  "setup_dynamic_offset_cache env st =
     (let g = gen_try (pcpu_slots env) (\<lambda>slots.
            gen_for slots (\<lambda>slot. gen_bind slot (\<lambda>chunk. gen_of_list (chunk_ranges env chunk))))
      in (st\<lparr>dynamic_offset_cache := dynamic_offset_cache st @ fst g\<rparr>, snd g))"

definition in_ranges :: "(int \<times> int) list \<Rightarrow> int \<Rightarrow> bool" where
  "in_ranges ranges a = list_ex (\<lambda>(start, stop). start \<le> a \<and> a < stop) ranges"

definition is_percpu_var_dynamic :: "percpu_env \<Rightarrow> percpu_state \<Rightarrow> int \<Rightarrow> bool res \<times> percpu_state" where
  "is_percpu_var_dynamic env st var =
     (let (st', e) = (if dynamic_offset_cache st = [] then setup_dynamic_offset_cache env st
                      else (st, None))
      in case e of
           None \<Rightarrow> (Inr (in_ranges (dynamic_offset_cache st') var), st')
         | Some e \<Rightarrow> (if catches DelayedAttributeError e then Inr False else Inl e, st'))"

definition in_sized :: "(int \<times> int) list \<Rightarrow> int \<Rightarrow> bool" where
  "in_sized ranges a = list_ex (\<lambda>(start, sz). start \<le> a \<and> a < start + sz) ranges"

definition is_static_percpu_var :: "percpu_state \<Rightarrow> int \<Rightarrow> bool" where
  "is_static_percpu_var st a = in_sized (static_ranges st) a"

definition is_module_percpu_var :: "percpu_state \<Rightarrow> int \<Rightarrow> bool" where
  "is_module_percpu_var st a = in_sized (module_ranges st) a"

definition is_percpu_var :: "percpu_env \<Rightarrow> percpu_state \<Rightarrow> int \<Rightarrow> bool res \<times> percpu_state" where
  "is_percpu_var env st ivar =
     (if is_static_percpu_var st ivar then (Inr True, st)
      else if is_module_percpu_var st ivar then (Inr True, st)
      else is_percpu_var_dynamic env st ivar)"

text \<open>\<open>_is_static_percpu_address\<close>: the resolved address of a static variable, on the CPUs below \<open>_last_cpu\<close>.\<close>

fun static_cpu_search :: "percpu_env \<Rightarrow> int \<Rightarrow> int \<Rightarrow> int \<Rightarrow> int list \<Rightarrow> bool res" where
  "static_cpu_search env start sz a [] = Inr False"
| "static_cpu_search env start sz a (cpu # cpus) =
     bindR (per_cpu_offset env cpu) (\<lambda>o1.
       if o1 + start \<le> a \<and> a < o1 + start + sz then Inr True
       else static_cpu_search env start sz a cpus)"

fun static_search :: "percpu_env \<Rightarrow> int list \<Rightarrow> int \<Rightarrow> (int \<times> int) list \<Rightarrow> bool res" where
  "static_search env cpus a [] = Inr False"
| "static_search env cpus a ((start, sz) # rs) =
     bindR (static_cpu_search env start sz a cpus) (\<lambda>b.
       if b then Inr True else static_search env cpus a rs)"

definition is_static_percpu_address :: "percpu_env \<Rightarrow> percpu_state \<Rightarrow> int \<Rightarrow> bool res" where
  "is_static_percpu_address env st a =
     static_search env [0..last_cpu st - 1] a (static_ranges st)"

section \<open>Resolving a variable\<close>

text \<open>A \<^verbatim>\<open>gdb.Value\<close>: its type, its address if it has one, and \<^verbatim>\<open>int()\<close> of it.\<close>

record gvalue =
  gv_type :: gtype
  gv_address :: "addr option"
  gv_int :: int

datatype percpu_arg = PSymbol gvalue | PValue gvalue | PMinSymbol gvalue | POther

definition gv_address_of :: "gvalue \<Rightarrow> addr \<Rightarrow> gvalue" where
  "gv_address_of v a = \<lparr>gv_type = gt_pointer (gv_type v), gv_address = None, gv_int = a\<rparr>"

definition void_p_type :: gtype where
  "void_p_type = gt_pointer (GType CODE_VOID 1 ''void'' None [])"

text \<open>The state is returned with the result: the first query fills the cache of dynamic ranges.\<close>

definition resolve_percpu_var ::
  "percpu_env \<Rightarrow> percpu_state \<Rightarrow> percpu_arg \<Rightarrow> gvalue res \<times> percpu_state" where
  "resolve_percpu_var env st symvar =
     (case (case symvar of PSymbol v \<Rightarrow> Inr v | PValue v \<Rightarrow> Inr v
            | PMinSymbol v \<Rightarrow> Inl InvalidArgumentError | POther \<Rightarrow> Inl InvalidArgumentError) of
        Inl e \<Rightarrow> (Inl e, st)
      | Inr var \<Rightarrow>
          if gt_code (gv_type var) = CODE_PTR then
            (let (own, st1) = (case gv_address var of None \<Rightarrow> (Inr False, st)
                               | Some a \<Rightarrow> is_percpu_var env st a)
             in case own of
                  Inl e \<Rightarrow> (Inl e, st1)
                | Inr True \<Rightarrow> (Inr (gv_address_of var (the (gv_address var))), st1)
                | Inr False \<Rightarrow>
                    let (tgt, st2) = is_percpu_var env st1 (gv_int var) in
                    (case tgt of
                       Inl e \<Rightarrow> (Inl e, st2)
                     | Inr True \<Rightarrow>
                         if gv_type var \<noteq> void_p_type
                         then (Inr \<lparr>gv_type = gv_type var, gv_address = None, gv_int = gv_int var\<rparr>, st2)
                         else (Inr var, st2)
                     | Inr False \<Rightarrow> (Inl PerCPUError, st2)))
          else (case gv_address var of
              None \<Rightarrow> (Inl TypeError, st)
            | Some a \<Rightarrow>
                let (own, st1) = is_percpu_var env st a in
                (case own of
                   Inl e \<Rightarrow> (Inl e, st1)
                 | Inr True \<Rightarrow> (Inr (gv_address_of var a), st1)
                 | Inr False \<Rightarrow> (Inl PerCPUError, st1))))"

definition relocated_offset :: "percpu_env \<Rightarrow> percpu_state \<Rightarrow> int \<Rightarrow> int res" where
  "relocated_offset env st a =
     bindR (per_cpu_start env) (\<lambda>start.
     bindR (of_option KeyError (map_of (static_ranges st) start)) (\<lambda>sz.
     Inr (if start \<le> a \<and> a < start + sz then a - start else a)))"

text \<open>The result: the object at an address, or a \<open>void *\<close>.\<close>

datatype percpu_val = PObject addr "gtype option" | PVoid addr

definition get_percpu_var1 :: "percpu_env \<Rightarrow> percpu_state \<Rightarrow> gvalue \<Rightarrow> int \<Rightarrow> percpu_val res" where
  "get_percpu_var1 env st var cpu =
     (if cpu < 0 then Inl ValueError
      else bindR (per_cpu_offset env cpu) (\<lambda>o1.
        bindR (if 0 < o1 then bindR (relocated_offset env st (gv_int var)) (\<lambda>r. Inr (ptr_add o1 r))
               else Inr o1) (\<lambda>a.
        Inr (if gv_type var \<noteq> void_p_type then PObject a (gt_target (gv_type var)) else PVoid a))))"

definition get_percpu_var ::
  "percpu_env \<Rightarrow> percpu_state \<Rightarrow> percpu_arg \<Rightarrow> int \<Rightarrow> percpu_val res \<times> percpu_state" where
  "get_percpu_var env st var cpu =
     (let (r, st') = resolve_percpu_var env st var
      in (bindR r (\<lambda>v. get_percpu_var1 env st' v cpu), st'))"

definition get_percpu_vars ::
  "percpu_env \<Rightarrow> percpu_state \<Rightarrow> percpu_arg \<Rightarrow> int option \<Rightarrow>
     (int \<times> percpu_val) list res \<times> percpu_state" where
  "get_percpu_vars env st var n =
     (let k = (case n of None \<Rightarrow> nr_cpus st | Some k \<Rightarrow> k)
      in if k \<le> 0 then (Inl ValueError, st)
         else (let (r, st') = resolve_percpu_var env st var
               in (bindR r (\<lambda>v. mapR (\<lambda>cpu. bindR (get_percpu_var1 env st' v cpu) (\<lambda>x. Inr (cpu, x)))
                     [0..k - 1]), st')))"

text \<open>\<open>count\<close> and \<open>counters\<close> are members of the counter; \<open>read_s32\<close> is \<^verbatim>\<open>int()\<close> of a value found.\<close>

definition percpu_counter_sum ::
  "percpu_env \<Rightarrow> percpu_state \<Rightarrow> bool \<Rightarrow> int \<Rightarrow> gvalue \<Rightarrow> (percpu_val \<Rightarrow> int res) \<Rightarrow> int res \<times> percpu_state"
  where
  "percpu_counter_sum env st is_counter count counters read_s32 =
     (if \<not> is_counter then (Inl InvalidArgumentError, st)
      else let (r, st') = get_percpu_vars env st (PValue counters) None
           in (bindR r (\<lambda>v. bindR (mapR (\<lambda>(cpu, x). read_s32 x) v) (\<lambda>ns. Inr (count + sum_list ns))), st'))"

section \<open>The area map\<close>

text \<open>
  The reference: a chunk is a sequence of areas, each used or not and of a length; \<open>used_at off areas x\<close>
  says that \<open>x\<close> lies in a used area when the first area starts at \<open>off\<close>.  The two encodings in
  \<open>chunk.map\<close> are the lengths, negated for used areas, and the offsets, with the low bit set for used
  areas, followed by the total size with the low bit set.
\<close>

fun used_at :: "int \<Rightarrow> (bool \<times> int) list \<Rightarrow> int \<Rightarrow> bool" where
  "used_at off [] x \<longleftrightarrow> False"
| "used_at off ((u, l) # as) x \<longleftrightarrow> u \<and> off \<le> x \<and> x < off + l \<or> used_at (off + l) as x"

definition enc_length :: "(bool \<times> int) list \<Rightarrow> int list" where
  "enc_length as = map (\<lambda>(u, l). if u then - l else l) as"

fun enc_offset :: "int \<Rightarrow> (bool \<times> int) list \<Rightarrow> int list" where
  "enc_offset off [] = []"
| "enc_offset off ((u, l) # as) = (if u then off + 1 else off) # enc_offset (off + l) as"

definition areas_ok :: "(bool \<times> int) list \<Rightarrow> bool" where
  "areas_ok as \<longleftrightarrow> (\<forall>(u, l) \<in> set as. 0 < l \<and> even l)"

definition pending :: "int option \<Rightarrow> int \<Rightarrow> int \<Rightarrow> bool" where
  "pending start off x = in_ranges (close_area start off) x"

lemma in_ranges_append [simp]: "in_ranges (xs @ ys) x \<longleftrightarrow> in_ranges xs x \<or> in_ranges ys x"
  by (simp add: in_ranges_def)

lemma in_ranges_Nil [simp]: "\<not> in_ranges [] x"
  by (simp add: in_ranges_def)

lemma pending_simps [simp]:
  "\<not> pending None off x" "pending (Some s) off x \<longleftrightarrow> s \<le> x \<and> x < off"
  by (simp_all add: pending_def close_area_def in_ranges_def)

lemma close_area_pending: "in_ranges (close_area start off) x = pending start off x"
  by (simp add: pending_def)

lemma areas_ok_Cons [simp]: "areas_ok ((u, l) # as) \<longleftrightarrow> 0 < l \<and> even l \<and> areas_ok as"
  by (auto simp: areas_ok_def)

lemma low_bit_int: "even (v :: int) \<Longrightarrow> v AND 1 = 0" "even (v :: int) \<Longrightarrow> (v + 1) AND 1 = 1"
  unfolding and_one_eq by presburger+

lemma areas_by_length_used:
  assumes "areas_ok as" and "\<And>s. start = Some s \<Longrightarrow> s \<le> off"
  shows "in_ranges (areas_by_length off start (enc_length as)) x \<longleftrightarrow> pending start off x \<or> used_at off as x"
  using assms
proof (induction as arbitrary: off start)
  case Nil
  then show ?case by (simp add: enc_length_def close_area_pending)
next
  case (Cons a as)
  obtain u l where a: "a = (u, l)" by fastforce
  show ?case
  proof (cases u)
    case True
    define start' where "start' = (case start of None \<Rightarrow> Some off | Some s \<Rightarrow> Some s)"
    have "in_ranges (areas_by_length (off + l) start' (enc_length as)) x \<longleftrightarrow>
        pending start' (off + l) x \<or> used_at (off + l) as x"
      using Cons.prems a by (intro Cons.IH) (auto simp: start'_def split: option.splits)
    moreover have "areas_by_length off start (enc_length (a # as)) =
        areas_by_length (off + l) start' (enc_length as)"
      using True a Cons.prems by (simp add: enc_length_def start'_def cong: option.case_cong)
    moreover have "pending start' (off + l) x \<longleftrightarrow> pending start off x \<or> off \<le> x \<and> x < off + l"
      using Cons.prems a by (auto simp: start'_def split: option.splits)
    ultimately show ?thesis using True a by auto
  next
    case False
    have "in_ranges (areas_by_length (off + l) None (enc_length as)) x \<longleftrightarrow> used_at (off + l) as x"
      using Cons.IH [of None "off + l"] Cons.prems a by simp
    then show ?thesis using Cons.prems False a by (simp add: enc_length_def close_area_pending)
  qed
qed

lemma areas_by_offset_used:
  assumes "areas_ok as" and "\<And>s. start = Some s \<Longrightarrow> s \<le> off" and "even off"
  shows "in_ranges (areas_by_offset (off + sum_list (map snd as) + 1) start (enc_offset off as)) x \<longleftrightarrow>
    pending start off x \<or> used_at off as x"
  using assms
proof (induction as arbitrary: off start)
  case Nil
  then show ?case by (simp add: close_area_pending)
next
  case (Cons a as)
  obtain u l where a: "a = (u, l)" by fastforce
  have total: "off + sum_list (map snd (a # as)) + 1 = (off + l) + sum_list (map snd as) + 1"
    using a by simp
  have bit: "(off + 1) AND 1 = 1" "off AND 1 = 0"
    using Cons.prems(3) low_bit_int by auto
  show ?case
  proof (cases u)
    case True
    define start' where "start' = (case start of None \<Rightarrow> Some off | Some s \<Rightarrow> Some s)"
    have "in_ranges (areas_by_offset ((off + l) + sum_list (map snd as) + 1) start'
        (enc_offset (off + l) as)) x \<longleftrightarrow> pending start' (off + l) x \<or> used_at (off + l) as x"
      using Cons a by (intro Cons.IH) (auto simp: start'_def split: option.splits)
    moreover have "pending start' (off + l) x \<longleftrightarrow> pending start off x \<or> off \<le> x \<and> x < off + l"
      using Cons.prems a by (auto simp: start'_def split: option.splits)
    moreover have "areas_by_offset s start (enc_offset off (a # as)) =
        areas_by_offset s start' (enc_offset (off + l) as)" for s
      using True a bit by (simp add: start'_def cong: option.case_cong)
    ultimately show ?thesis unfolding total using True a by auto
  next
    case False
    have "in_ranges (areas_by_offset ((off + l) + sum_list (map snd as) + 1) None
        (enc_offset (off + l) as)) x \<longleftrightarrow> used_at (off + l) as x"
      using Cons.IH [of None "off + l"] Cons.prems a by simp
    moreover have "areas_by_offset s start (enc_offset off (a # as)) =
        close_area start off @ areas_by_offset s None (enc_offset (off + l) as)" for s
      using False a bit by simp
    ultimately show ?thesis unfolding total using Cons.prems False a by (simp add: close_area_pending)
  qed
qed

lemma areas_by_offset_even: "\<forall>v \<in> set vs. even v \<Longrightarrow> areas_by_offset s None vs = []"
  by (induction vs) (auto simp: close_area_def low_bit_int(1))

lemma enc_offset_nonneg: "areas_ok as \<Longrightarrow> 0 \<le> off \<Longrightarrow> \<forall>v \<in> set (enc_offset off as). 0 \<le> v"
proof (induction off as rule: enc_offset.induct)
  case (2 off u l as)
  have "0 \<le> off + l" "areas_ok as" using 2(2, 3) unfolding areas_ok_Cons by linarith+
  then have "\<forall>v \<in> set (enc_offset (off + l) as). 0 \<le> v" using 2(1) by blast
  then show ?case using 2(3) by simp
qed simp

lemma used_at_none: "\<forall>(u, l) \<in> set as. \<not> u \<Longrightarrow> \<not> used_at off as x"
  by (induction off as x rule: used_at.induct) auto

lemma in_ranges_shift: "in_ranges (map (\<lambda>(s, e). (b + s, b + e)) rs) x \<longleftrightarrow> in_ranges rs (x - b)"
  by (induction rs) (auto simp: in_ranges_def)

text \<open>Whether a map has a negative entry tells the encodings apart.\<close>

lemma area_map_encodings:
  assumes "areas_ok as"
    and "map (ch_map c) [0..<ch_map_used c] = enc_length as \<or>
      map (ch_map c) [0..<ch_map_used c] = enc_offset 0 as \<and>
      ch_map c (ch_map_used c) = sum_list (map snd as) + 1"
  shows "in_ranges (setup_dynamic_offset_cache_area_map env c) x \<longleftrightarrow>
    used_at 0 as (x - (ch_base_addr c - pcpu_base_addr env))"
  using assms(2)
proof
  assume vals: "map (ch_map c) [0..<ch_map_used c] = enc_length as"
  show ?thesis
  proof (cases "list_ex (\<lambda>v. v < 0) (enc_length as)")
    case True
    then show ?thesis
      using areas_by_length_used [OF assms(1), of None 0]
      by (simp add: setup_dynamic_offset_cache_area_map_def vals in_ranges_shift Let_def)
  next
    case False
    have "\<forall>(u, l) \<in> set as. \<not> u"
      using False assms(1) by (fastforce simp: enc_length_def list_ex_iff areas_ok_def)
    moreover have "\<forall>v \<in> set (enc_length as). even v"
      using assms(1) by (auto simp: enc_length_def areas_ok_def)
    ultimately show ?thesis
      using False areas_by_offset_even used_at_none
      by (simp add: setup_dynamic_offset_cache_area_map_def vals in_ranges_shift Let_def)
  qed
next
  assume vals: "map (ch_map c) [0..<ch_map_used c] = enc_offset 0 as \<and>
      ch_map c (ch_map_used c) = sum_list (map snd as) + 1"
  then have "\<not> list_ex (\<lambda>v. v < 0) (enc_offset 0 as)"
    using enc_offset_nonneg [OF assms(1), of 0] by (auto simp: list_ex_iff)
  then show ?thesis
    using vals areas_by_offset_used [OF assms(1), of None 0]
    by (simp add: setup_dynamic_offset_cache_area_map_def in_ranges_shift Let_def)
qed

section \<open>Queries and the cache of dynamic ranges\<close>

definition slots_chunks :: "pcpu_chunk gen list \<Rightarrow> pcpu_chunk list" where
  "slots_chunks slots = concat (map fst slots)"

lemma setup_dynamic_offset_cache_ok:
  assumes "pcpu_slots env = Inr slots" and "\<forall>s \<in> set slots. snd s = None"
  shows "setup_dynamic_offset_cache env st =
    (st\<lparr>dynamic_offset_cache := dynamic_offset_cache st @
        concat (map (chunk_ranges env) (slots_chunks slots))\<rparr>, None)"
proof -
  have "gen_bind slot (\<lambda>chunk. gen_of_list (chunk_ranges env chunk)) =
      gen_of_list (concat (map (chunk_ranges env) (fst slot)))" if "slot \<in> set slots" for slot
  proof -
    have "slot = gen_of_list (fst slot)" using that assms(2) by (simp add: gen_eqI)
    then have "gen_bind slot (\<lambda>chunk. gen_of_list (chunk_ranges env chunk)) =
        gen_for (fst slot) (\<lambda>chunk. gen_of_list (chunk_ranges env chunk))"
      using gen_bind_of_list [of "fst slot"] by metis
    then show ?thesis by (simp add: gen_for_of_list)
  qed
  then have "gen_for slots (\<lambda>slot. gen_bind slot (\<lambda>chunk. gen_of_list (chunk_ranges env chunk))) =
      gen_of_list (concat (map (\<lambda>slot. concat (map (chunk_ranges env) (fst slot))) slots))"
    by (rule gen_for_of_list)
  moreover have "concat (map (\<lambda>slot. concat (map (chunk_ranges env) (fst slot))) slots) =
      concat (map (chunk_ranges env) (slots_chunks slots))"
    by (induction slots) (simp_all add: slots_chunks_def)
  ultimately show ?thesis
    using assms(1) by (simp add: setup_dynamic_offset_cache_def)
qed

lemma in_ranges_concat: "in_ranges (concat (map f cs)) x \<longleftrightarrow> (\<exists>c \<in> set cs. in_ranges (f c) x)"
  by (induction cs) auto

text \<open>A cache that is empty or was filled from the chunks.\<close>

definition cache_ok :: "percpu_env \<Rightarrow> pcpu_chunk gen list \<Rightarrow> percpu_state \<Rightarrow> bool" where
  "cache_ok env slots st \<longleftrightarrow> dynamic_offset_cache st = [] \<or>
     dynamic_offset_cache st = concat (map (chunk_ranges env) (slots_chunks slots))"

definition percpu_address :: "percpu_env \<Rightarrow> pcpu_chunk gen list \<Rightarrow> percpu_state \<Rightarrow> int \<Rightarrow> bool" where
  "percpu_address env slots st a \<longleftrightarrow> is_static_percpu_var st a \<or> is_module_percpu_var st a \<or>
     (\<exists>c \<in> set (slots_chunks slots). in_ranges (chunk_ranges env c) a)"

lemma is_percpu_var_ok:
  assumes "pcpu_slots env = Inr slots" and "\<forall>s \<in> set slots. snd s = None" and "cache_ok env slots st"
  shows "fst (is_percpu_var env st a) = Inr (percpu_address env slots st a)"
    and "cache_ok env slots (snd (is_percpu_var env st a))"
    and "percpu_address env slots (snd (is_percpu_var env st a)) = percpu_address env slots st"
    and "static_ranges (snd (is_percpu_var env st a)) = static_ranges st"
proof -
  have dyn: "is_percpu_var_dynamic env st a =
      (Inr (\<exists>c \<in> set (slots_chunks slots). in_ranges (chunk_ranges env c) a),
       st\<lparr>dynamic_offset_cache := concat (map (chunk_ranges env) (slots_chunks slots))\<rparr>)"
    using assms(3) by (auto simp: is_percpu_var_dynamic_def cache_ok_def in_ranges_concat
        setup_dynamic_offset_cache_ok [OF assms(1, 2)])
  then show "fst (is_percpu_var env st a) = Inr (percpu_address env slots st a)"
    "cache_ok env slots (snd (is_percpu_var env st a))"
    "percpu_address env slots (snd (is_percpu_var env st a)) = percpu_address env slots st"
    "static_ranges (snd (is_percpu_var env st a)) = static_ranges st"
    using assms(3)
    by (auto simp: is_percpu_var_def percpu_address_def cache_ok_def is_static_percpu_var_def
        is_module_percpu_var_def fun_eq_iff)
qed

interpretation pv: transparent_cache "\<lambda>a st. is_percpu_var env st a"
  "\<lambda>s. pcpu_slots env = Inr slots \<and> (\<forall>s \<in> set slots. snd s = None) \<and> cache_ok env slots s \<and>
     percpu_address env slots s = percpu_address env slots st"
  "\<lambda>a. Inr (percpu_address env slots st a)" for env slots st
  by unfold_locales (auto simp: is_percpu_var_ok)

section \<open>Addresses of variables\<close>

lemma setup_per_cpu_size_ranges:
  assumes "setup_per_cpu_size env cpus st = Inr st'" and "per_cpu_start env = Inr start"
    and "per_cpu_end env = Inr stop"
  shows "map_of (static_ranges st') start = Some (stop - start)"
    "start \<le> a \<Longrightarrow> a < stop \<Longrightarrow> is_static_percpu_var st' a"
proof -
  show m: "map_of (static_ranges st') start = Some (stop - start)"
    using assms by (auto simp: setup_per_cpu_size_def Let_def update_conv' split: sum.splits if_splits)
  then have "(start, stop - start) \<in> set (static_ranges st')" by (rule map_of_SomeD)
  then show "start \<le> a \<Longrightarrow> a < stop \<Longrightarrow> is_static_percpu_var st' a"
    by (force simp: is_static_percpu_var_def in_sized_def list_ex_iff)
qed

lemma resolve_static_object:
  assumes "gt_code (gv_type v) \<noteq> CODE_PTR" and "gv_address v = Some a" and "is_static_percpu_var st a"
  shows "resolve_percpu_var env st (PSymbol v) = (Inr (gv_address_of v a), st)"
    "resolve_percpu_var env st (PValue v) = (Inr (gv_address_of v a), st)"
  using assms by (auto simp: resolve_percpu_var_def is_percpu_var_def Let_def)

lemma get_percpu_var1_static:
  assumes "per_cpu_start env = Inr start" and "map_of (static_ranges st) start = Some sz"
    and "start \<le> a" and "a < start + sz" and "0 \<le> cpu" and "per_cpu_offset env cpu = Inr o1" and "0 < o1"
    and "gt_code (gv_type v) \<noteq> CODE_VOID"
  shows "get_percpu_var1 env st (gv_address_of v a) cpu = Inr (PObject (ptr_add o1 (a - start)) (Some (gv_type v)))"
proof -
  have "gt_pointer (gv_type v) \<noteq> void_p_type" using assms(8) by (auto simp: void_p_type_def gt_pointer_def)
  then show ?thesis
    using assms by (simp add: get_percpu_var1_def relocated_offset_def gv_address_of_def gt_pointer_def)
qed

section \<open>Properties\<close>

text \<open>C10: Both encodings of the area map of a chunk, before and after the kernel's change from lengths to
  offsets, give the addresses of exactly the used areas, for every sequence of areas of positive even
  length; the encoding is recognised from the map alone.\<close>

theorem area_map_covers_used:
  assumes "areas_ok as"
    and "map (ch_map c) [0..<ch_map_used c] = enc_length as \<or>
      map (ch_map c) [0..<ch_map_used c] = enc_offset 0 as \<and>
      ch_map c (ch_map_used c) = sum_list (map snd as) + 1"
  shows "in_ranges (setup_dynamic_offset_cache_area_map env c) x \<longleftrightarrow>
    used_at 0 as (x - (ch_base_addr c - pcpu_base_addr env))"
  using assms by (rule area_map_encodings)

definition ex_chunk :: pcpu_chunk where
  "ex_chunk = \<lparr>ch_base_addr = 1000, ch_map = (\<lambda>i. [0, 9, 25, 32, 65] ! i), ch_map_used = 4,
     ch_nr_pages = 1\<rparr>"

definition ex_penv :: percpu_env where
  "ex_penv = \<lparr>per_cpu_start = Inr 4096, per_cpu_end = Inr 8192,
     per_cpu_offset = (\<lambda>cpu. Inr (65536 * (cpu + 1))), per_cpu_offset_size = 64, pcpu_base_addr = 900,
     pcpu_has_map = True, pcpu_slots = Inr [([ex_chunk], None)], pcpu_page_size = 4096\<rparr>"

theorem area_map_covers_used_witness:
  "in_ranges (setup_dynamic_offset_cache_area_map ex_penv ex_chunk) 131 \<and>
   \<not> in_ranges (setup_dynamic_offset_cache_area_map ex_penv ex_chunk) 132"
proof -
  have "areas_ok [(False, 8), (True, 16), (True, 8), (False, 32)]" by (simp add: areas_ok_def)
  moreover have "map (ch_map ex_chunk) [0..<ch_map_used ex_chunk] =
      enc_offset 0 [(False, 8), (True, 16), (True, 8), (False, 32)]" by code_simp
  moreover have "ch_map ex_chunk (ch_map_used ex_chunk) =
      sum_list (map snd [(False, 8), (True, 16), (True, 8), (False, 32)]) + 1" by code_simp
  moreover have "used_at 0 [(False, 8), (True, 16), (True, 8), (False, 32)] (131 - (1000 - 900))"
    "\<not> used_at 0 [(False, 8), (True, 16), (True, 8), (False, 32)] (132 - (1000 - 900))" by simp_all
  ultimately show ?thesis
    using area_map_covers_used [of "[(False, 8), (True, 16), (True, 8), (False, 32)]" ex_chunk ex_penv]
    by (simp add: ex_chunk_def ex_penv_def)
qed

text \<open>C9: A query is true exactly for addresses in a static range, a module range or a dynamic range of
  some chunk, and the cache that the first query fills changes no later answer: after any sequence of
  queries the answer is the one of the initial state.\<close>

theorem is_percpu_var_cache_transparent:
  assumes "pcpu_slots env = Inr slots" and "\<forall>s \<in> set slots. snd s = None"
    and "dynamic_offset_cache st = []"
  shows "fst (is_percpu_var env (fold (\<lambda>q s. snd (is_percpu_var env s q)) qs st) a) =
    Inr (percpu_address env slots st a)"
  using assms by (intro pv.answer_after) (simp add: cache_ok_def)

theorem is_percpu_var_cache_transparent_witness:
  "fst (is_percpu_var ex_penv (fold (\<lambda>q s. snd (is_percpu_var ex_penv s q)) [7, 110] percpu_init) 110) =
   Inr True"
proof -
  have "pcpu_slots ex_penv = Inr [([ex_chunk], None)]" by (simp add: ex_penv_def)
  moreover have "percpu_address ex_penv [([ex_chunk], None)] percpu_init 110" by code_simp
  ultimately show ?thesis
    using is_percpu_var_cache_transparent [of ex_penv "[([ex_chunk], None)]" percpu_init "[7, 110]" 110]
    by (simp add: percpu_init_def)
qed

text \<open>After \<open>setup_per_cpu_size\<close>, a symbol in the static per-CPU section resolves on a CPU to the object at
  the CPU's offset plus the symbol's offset in the section, with the symbol's type.\<close>

theorem get_percpu_var_static:
  assumes "setup_per_cpu_size env cpus st0 = Inr st" and "per_cpu_start env = Inr start"
    and "per_cpu_end env = Inr stop" and "gv_address v = Some a" and "start \<le> a" and "a < stop"
    and "gt_code (gv_type v) \<noteq> CODE_PTR" and "gt_code (gv_type v) \<noteq> CODE_VOID"
    and "0 \<le> cpu" and "per_cpu_offset env cpu = Inr o1" and "0 < o1"
  shows "get_percpu_var env st (PSymbol v) cpu =
    (Inr (PObject (ptr_add o1 (a - start)) (Some (gv_type v))), st)"
proof -
  have "map_of (static_ranges st) start = Some (stop - start)" "is_static_percpu_var st a"
    using setup_per_cpu_size_ranges [OF assms(1-3)] assms(5, 6) by auto
  then show ?thesis
    using assms resolve_static_object [OF assms(7, 4)] get_percpu_var1_static [of env start st "stop - start" a]
    by (simp add: get_percpu_var_def)
qed

theorem get_percpu_var_static_witness:
  "\<exists>st. setup_per_cpu_size ex_penv \<lparr>cpus_online = [0], cpus_possible = [0, 1]\<rparr> percpu_init = Inr st \<and>
     get_percpu_var ex_penv st (PSymbol \<lparr>gv_type = ex_int, gv_address = Some 4100, gv_int = 0\<rparr>) 1 =
     (Inr (PObject 131076 (Some ex_int)), st)"
proof -
  obtain st where st: "setup_per_cpu_size ex_penv \<lparr>cpus_online = [0], cpus_possible = [0, 1]\<rparr> percpu_init = Inr st"
    by (simp add: setup_per_cpu_size_def ex_penv_def highest_possible_cpu_nr_def)
  have "get_percpu_var ex_penv st (PSymbol \<lparr>gv_type = ex_int, gv_address = Some 4100, gv_int = 0\<rparr>) 1 =
      (Inr (PObject (ptr_add 131072 (4100 - 4096)) (Some ex_int)), st)"
    using get_percpu_var_static [OF st, of 4096 8192
        "\<lparr>gv_type = ex_int, gv_address = Some 4100, gv_int = 0\<rparr>" 4100 1 131072]
    by (simp add: ex_penv_def ex_int_def)
  with st show ?thesis by (simp add: ptr_add_def)
qed

text \<open>\<open>percpu_counter_sum\<close> is the counter's \<open>count\<close> plus the values of its instances on the CPUs
  \<open>0 .. nr_cpus - 1\<close>, each read at the address \<open>get_percpu_var\<close> gives.\<close>

theorem percpu_counter_sum_total:
  assumes "0 < nr_cpus st" and "resolve_percpu_var env st (PValue counters) = (Inr v, st')"
    and "\<forall>cpu \<in> {0..<nr_cpus st}. \<exists>x. get_percpu_var1 env st' v cpu = Inr x \<and> rd x = Inr (val cpu)"
  shows "percpu_counter_sum env st True count counters rd =
    (Inr (count + (\<Sum>cpu \<in> {0..<nr_cpus st}. val cpu)), st')"
proof -
  obtain x where x: "\<And>cpu. cpu \<in> {0..<nr_cpus st} \<Longrightarrow>
      get_percpu_var1 env st' v cpu = Inr (x cpu) \<and> rd (x cpu) = Inr (val cpu)"
    using assms(3) by metis
  have "mapR (\<lambda>cpu. bindR (get_percpu_var1 env st' v cpu) (\<lambda>x. Inr (cpu, x))) [0..nr_cpus st - 1] =
      Inr (map (\<lambda>cpu. (cpu, x cpu)) [0..nr_cpus st - 1])"
    using x by (intro mapR_Inr) auto
  moreover have "mapR (\<lambda>(cpu, x). rd x) (map (\<lambda>cpu. (cpu, x cpu)) [0..nr_cpus st - 1]) =
      Inr (map (\<lambda>(cpu, _). val cpu) (map (\<lambda>cpu. (cpu, x cpu)) [0..nr_cpus st - 1]))"
    using x by (intro mapR_Inr) auto
  moreover have "sum_list (map val [0..nr_cpus st - 1]) = (\<Sum>cpu \<in> {0..<nr_cpus st}. val cpu)"
    by (simp add: sum_list_distinct_conv_sum_set atLeastLessThan_def atLeastAtMost_def)
       (metis (no_types, lifting) atLeastAtMostPlus1_int_conv add.commute diff_add_cancel
         atLeastAtMost_def atLeastLessThan_def atLeastLessThanPlusOne_atLeastAtMost_int)
  ultimately show ?thesis
    using assms(1, 2)
    by (simp add: percpu_counter_sum_def get_percpu_vars_def Let_def comp_def)
qed

theorem percpu_counter_sum_total_witness:
  "percpu_counter_sum ex_penv (percpu_init\<lparr>nr_cpus := 3, static_ranges := [(4096, 4096)]\<rparr>) True 10
     \<lparr>gv_type = ex_int, gv_address = Some 4100, gv_int = 0\<rparr>
     (\<lambda>x. case x of PObject a _ \<Rightarrow> Inr (a div 65536) | PVoid a \<Rightarrow> Inr 0) =
   (Inr 16, percpu_init\<lparr>nr_cpus := 3, static_ranges := [(4096, 4096)]\<rparr>)"
proof -
  define st where "st = percpu_init\<lparr>nr_cpus := 3, static_ranges := [(4096, 4096)]\<rparr>"
  define c where "c = \<lparr>gv_type = ex_int, gv_address = Some 4100, gv_int = 0\<rparr>"
  define rd where "rd = (\<lambda>x. case x of PObject a _ \<Rightarrow> Inr (a div 65536) | PVoid a \<Rightarrow> (Inr 0 :: int res))"
  have "0 < nr_cpus st" by (simp add: st_def)
  moreover have "resolve_percpu_var ex_penv st (PValue c) = (Inr (gv_address_of c 4100), st)"
    by (rule resolve_static_object) (simp_all add: st_def c_def ex_int_def is_static_percpu_var_def in_sized_def)
  moreover have "\<forall>cpu \<in> {0..<nr_cpus st}. \<exists>x. get_percpu_var1 ex_penv st (gv_address_of c 4100) cpu = Inr x \<and>
      rd x = Inr (cpu + 1)"
  proof
    fix cpu assume "cpu \<in> {0..<nr_cpus st}"
    then have "cpu \<in> {0, 1, 2}" by (auto simp: st_def)
    then have "case get_percpu_var1 ex_penv st (gv_address_of c 4100) cpu of
        Inr x \<Rightarrow> rd x = Inr (cpu + 1) | Inl _ \<Rightarrow> False"
      unfolding st_def c_def rd_def by (auto; code_simp)
    then show "\<exists>x. get_percpu_var1 ex_penv st (gv_address_of c 4100) cpu = Inr x \<and> rd x = Inr (cpu + 1)"
      by (auto split: sum.splits)
  qed
  ultimately have "percpu_counter_sum ex_penv st True 10 c rd =
      (Inr (10 + (\<Sum>cpu \<in> {0..<nr_cpus st}. cpu + 1)), st)"
    by (rule percpu_counter_sum_total)
  moreover have "{0..<nr_cpus st} = {0, 1, 2}" by (auto simp: st_def)
  ultimately show ?thesis by (simp add: st_def c_def rd_def)
qed

end
