(* ===== verification/Page_Node.thy ===== *)
theory Page_Node
  imports Percpu
begin

text \<open>
  Pages, NUMA nodes, zones and VM statistics: \<^verbatim>\<open>crash/types/page.py\<close>, \<^verbatim>\<open>node.py\<close>, \<^verbatim>\<open>zone.py\<close> and
  \<^verbatim>\<open>vmstat.py\<close>.

  The class variables of \<open>Page\<close> are the record \<open>page_cfg\<close>; the type callbacks that set them are functions
  from configuration to configuration.  Memory gives the members of the \<open>struct page\<close> at an address.
\<close>

section \<open>Configuration of the class Page\<close>

datatype tail_kind = TailHeadBit | TailFlag | TailFlagCombo
datatype head_kind = HeadLowBit | HeadFirstPage

record page_cfg =
  slab_cache_name :: "string option"
  slab_page_name :: "string option"
  compound_head_name :: "string option"
  vmemmap_base :: int
  vmemmap :: "int option"
  directmap_base :: int
  pageflags :: "(string \<times> int) list"
  PG_tail :: int
  PG_slab :: int
  PG_lru :: int
  setup_page_type_done :: bool
  setup_pageflags_done :: bool
  setup_pageflags_finish_done :: bool
  ZONES_WIDTH :: int
  NODES_WIDTH :: int
  BITS_PER_LONG :: int
  PAGE_SIZE :: int
  PAGE_SHIFT :: int
  sparsemem :: bool
  SECTION_SIZE_BITS :: int
  SECTIONS_PER_ROOT :: int
  is_tail_kind :: "tail_kind option"
  compound_head_kind :: "head_kind option"

definition page_init :: page_cfg where
  "page_init = \<lparr>slab_cache_name = None, slab_page_name = None, compound_head_name = None,
     vmemmap_base = 0xffffea0000000000, vmemmap = None, directmap_base = 0xffff880000000000,
     pageflags = [], PG_tail = -1, PG_slab = -1, PG_lru = -1,
     setup_page_type_done = False, setup_pageflags_done = False, setup_pageflags_finish_done = False,
     ZONES_WIDTH = -1, NODES_WIDTH = -1, BITS_PER_LONG = -1, PAGE_SIZE = 4096, PAGE_SHIFT = 12,
     sparsemem = False, SECTION_SIZE_BITS = -1, SECTIONS_PER_ROOT = -1,
     is_tail_kind = None, compound_head_kind = None\<rparr>"

text \<open>\<open>1 << n\<close> and \<open>a >> n\<close> of Python, which raise \<^verbatim>\<open>ValueError\<close> for a negative count.\<close>

definition py_shl :: "int \<Rightarrow> int \<Rightarrow> int res" where
  "py_shl a n = (if n < 0 then Inl ValueError else Inr (push_bit (nat n) a))"

definition py_shr :: "int \<Rightarrow> int \<Rightarrow> int res" where
  "py_shr a n = (if n < 0 then Inl ValueError else Inr (drop_bit (nat n) a))"

definition page_flag :: "(string \<times> int) list \<Rightarrow> string \<Rightarrow> int res" where
  "page_flag flags name = bindR (of_option KeyError (map_of flags name)) (py_shl 1)"

text \<open>What \<open>setup_pageflags_finish\<close> assigns to \<open>PG_tail\<close>, \<open>_is_tail\<close> and \<open>_compound_head\<close>.\<close>

definition tail_setup ::
  "(string \<times> int) list \<Rightarrow> string option \<Rightarrow> int \<Rightarrow> (int \<times> tail_kind \<times> head_kind) res" where
  "tail_setup flags head_name pg_tail =
     bindR (if map_of flags ''PG_tail'' \<noteq> None
            then bindR (page_flag flags ''PG_tail'') (\<lambda>f. Inr (f, TailFlag))
            else Inr (pg_tail, TailHeadBit)) (\<lambda>(t, k).
     if head_name = Some ''first_page'' then
       (if t = -1 then bindR (page_flag flags ''PG_compound'') (\<lambda>a. bindR (page_flag flags ''PG_reclaim'') (\<lambda>b.
          Inr (a OR b, TailFlagCombo, HeadFirstPage)))
        else Inr (t, k, HeadFirstPage))
     else Inr (t, k, HeadLowBit))"

definition set_tail :: "int \<times> tail_kind \<times> head_kind \<Rightarrow> page_cfg \<Rightarrow> page_cfg" where
  "set_tail r cfg = (case r of (t, k, h) \<Rightarrow> cfg\<lparr>setup_pageflags_finish_done := True, PG_tail := t,
     is_tail_kind := Some k, compound_head_kind := Some h\<rparr>)"

definition setup_pageflags_finish :: "page_cfg \<Rightarrow> page_cfg res" where
  "setup_pageflags_finish cfg =
     bindR (tail_setup (pageflags cfg) (compound_head_name cfg) (PG_tail cfg)) (\<lambda>r. Inr (set_tail r cfg))"

definition ppc64_setup :: "bool \<Rightarrow> page_cfg \<Rightarrow> page_cfg" where
  "ppc64_setup ppc64 cfg =
     (if ppc64 then cfg\<lparr>directmap_base := 0xc000000000000000, PAGE_SHIFT := 16, sparsemem := True,
                        SECTION_SIZE_BITS := 24\<rparr> else cfg)"

definition set_page_type :: "int \<Rightarrow> string \<Rightarrow> string \<Rightarrow> string \<Rightarrow> page_cfg \<Rightarrow> page_cfg" where
  "set_page_type sz sc sp ch cfg = cfg\<lparr>slab_cache_name := Some sc, slab_page_name := Some sp,
     compound_head_name := Some ch,
     vmemmap := (if vmemmap cfg = None then Some (vmemmap_base cfg) else vmemmap cfg),
     setup_page_type_done := True, PAGE_SIZE := sz\<rparr>"

definition setup_page_type :: "bool \<Rightarrow> gtype \<Rightarrow> page_cfg \<Rightarrow> page_cfg res" where
  "setup_page_type ppc64 gdbtype cfg =
     bindR (py_shl 1 (PAGE_SHIFT (ppc64_setup ppc64 cfg))) (\<lambda>sz.
     bindR (find_member_variant gdbtype [''slab_cache'', ''lru'']) (\<lambda>sc.
     bindR (find_member_variant gdbtype [''slab_page'', ''lru'']) (\<lambda>sp.
     bindR (find_member_variant gdbtype [''compound_head'', ''first_page'']) (\<lambda>ch.
     let cfg' = set_page_type sz sc sp ch (ppc64_setup ppc64 cfg)
     in if setup_pageflags_done cfg' \<and> \<not> setup_pageflags_finish_done cfg'
        then setup_pageflags_finish cfg' else Inr cfg'))))"

text \<open>\<open>flds\<close> are the enumerators with their values.\<close>

fun add_pageflags :: "(string \<times> int) list \<Rightarrow> (string \<times> int) list \<Rightarrow> (string \<times> int) list" where
  "add_pageflags flags [] = flags"
| "add_pageflags flags ((name, v) # fs) = add_pageflags (AList.update name v flags) fs"

definition set_pageflags :: "(string \<times> int) list \<Rightarrow> page_cfg \<Rightarrow> page_cfg" where
  "set_pageflags flds cfg =
     cfg\<lparr>pageflags := add_pageflags (pageflags cfg) flds, setup_pageflags_done := True\<rparr>"

definition setup_pageflags :: "(string \<times> int) list \<Rightarrow> page_cfg \<Rightarrow> page_cfg res" where
  "setup_pageflags flds cfg =
     (let cfg1 = set_pageflags flds cfg
      in bindR (if setup_page_type_done cfg1 \<and> \<not> setup_pageflags_finish_done cfg1
                then setup_pageflags_finish cfg1 else Inr cfg1) (\<lambda>cfg2.
         bindR (page_flag (pageflags cfg2) ''PG_slab'') (\<lambda>s.
         bindR (page_flag (pageflags cfg2) ''PG_lru'') (\<lambda>l.
         Inr (cfg2\<lparr>PG_slab := s, PG_lru := l\<rparr>)))))"

definition setup_mem_section :: "nat \<Rightarrow> page_cfg \<Rightarrow> page_cfg res" where
  "setup_mem_section sizeof cfg =
     (if sizeof = 0 then Inl ZeroDivisionError
      else Inr (cfg\<lparr>SECTIONS_PER_ROOT := PAGE_SIZE cfg div int sizeof\<rparr>))"

definition setup_vmemmap_base :: "int \<Rightarrow> page_cfg \<Rightarrow> page_cfg" where
  "setup_vmemmap_base v cfg = cfg\<lparr>vmemmap_base := v, vmemmap := Some v\<rparr>"

definition setup_directmap_base :: "int \<Rightarrow> page_cfg \<Rightarrow> page_cfg" where
  "setup_directmap_base v cfg = cfg\<lparr>directmap_base := v\<rparr>"

text \<open>\<open>int(ceil(log(n, 2)))\<close>, exact for the few enumerators of \<open>enum zone_type\<close>.\<close>

fun ceil_log2 :: "nat \<Rightarrow> nat" where
  "ceil_log2 n = (if n \<le> 1 then 0 else Suc (ceil_log2 ((n + 1) div 2)))"

declare ceil_log2.simps [simp del]

definition setup_zone_type :: "int \<Rightarrow> page_cfg \<Rightarrow> page_cfg res" where
  "setup_zone_type max_nr_zones cfg =
     (if max_nr_zones \<le> 0 then Inl ValueError
      else Inr (cfg\<lparr>ZONES_WIDTH := int (ceil_log2 (nat max_nr_zones))\<rparr>))"

text \<open>\<open>config['NODES_SHIFT']\<close> is a parameter: a string, \<open>None\<close> for an option that is not set, or an
  exception.\<close>

definition setup_nodes_width :: "string option res \<Rightarrow> nat \<Rightarrow> page_cfg \<Rightarrow> page_cfg res" where
  "setup_nodes_width config_value ulong_size cfg =
     bindR (case bindR config_value (\<lambda>v. case v of None \<Rightarrow> Inl TypeError | Some s \<Rightarrow> py_int s 10) of
              Inr n \<Rightarrow> Inr n
            | Inl e \<Rightarrow> if catches KeyError e \<or> catches DelayedAttributeError e then Inr 8 else Inl e) (\<lambda>w.
     Inr (cfg\<lparr>NODES_WIDTH := w, BITS_PER_LONG := int ulong_size * 8\<rparr>))"

section \<open>Pages\<close>

record page_fields =
  pf_flags :: int
  pf_compound_head :: int
  pf_first_page :: int
  pf_mapping :: int
  pf_lru_next :: int
  pf_lru_prev :: int
  pf_slab_cache :: int
  pf_slab_page :: int

type_synonym page_mem = "addr \<Rightarrow> page_fields option"

record page =
  pg_address :: addr
  pg_pfn :: int
  pg_flags :: int

text \<open>\<open>sizeof(struct page)\<close>, the array \<open>mem_section\<close> (the member \<open>section_mem_map\<close> of an element) and \<open>max_pfn\<close>.\<close>

record page_env =
  page_sizeof :: int
  section_mem_map :: "int \<Rightarrow> int \<Rightarrow> int res"
  max_pfn :: int

definition pfn_to_page_addr :: "page_cfg \<Rightarrow> page_env \<Rightarrow> int \<Rightarrow> addr res" where
  "pfn_to_page_addr cfg env pfn =
     (if sparsemem cfg then
        bindR (py_shr pfn (SECTION_SIZE_BITS cfg - PAGE_SHIFT cfg)) (\<lambda>section_nr.
        if SECTIONS_PER_ROOT cfg = 0 then Inl ZeroDivisionError
        else bindR (section_mem_map env (section_nr div SECTIONS_PER_ROOT cfg)
                      (section_nr AND (SECTIONS_PER_ROOT cfg - 1))) (\<lambda>m.
          Inr (ptr_add (m AND NOT 3) (pfn * page_sizeof env))))
      else bindR (of_option AttributeError (vmemmap cfg)) (\<lambda>v. Inr (ptr_add v (pfn * page_sizeof env))))"

definition Page_new :: "page_mem \<Rightarrow> addr \<Rightarrow> int \<Rightarrow> page res" where
  "Page_new mem a pfn = bindR (of_option GdbMemoryError (mem a)) (\<lambda>f.
     Inr \<lparr>pg_address = a, pg_pfn = pfn, pg_flags = pf_flags f\<rparr>)"

definition from_obj :: "page_cfg \<Rightarrow> page_env \<Rightarrow> page_mem \<Rightarrow> addr \<Rightarrow> page res" where
  "from_obj cfg env mem a = Page_new mem a ((a - vmemmap_base cfg) div page_sizeof env)"

definition from_page_addr :: "page_cfg \<Rightarrow> page_env \<Rightarrow> page_mem \<Rightarrow> addr \<Rightarrow> page res" where
  "from_page_addr cfg env mem a = from_obj cfg env mem a"

definition is_tail :: "page_cfg \<Rightarrow> page_mem \<Rightarrow> page \<Rightarrow> bool res" where
  "is_tail cfg mem p = (case is_tail_kind cfg of
       None \<Rightarrow> Inl AttributeError
     | Some TailFlagCombo \<Rightarrow> Inr (pg_flags p AND PG_tail cfg = PG_tail cfg)
     | Some TailFlag \<Rightarrow> Inr (pg_flags p AND PG_tail cfg \<noteq> 0)
     | Some TailHeadBit \<Rightarrow> bindR (of_option GdbMemoryError (mem (pg_address p))) (\<lambda>f.
         Inr (pf_compound_head f AND 1 \<noteq> 0)))"

definition is_slab :: "page_cfg \<Rightarrow> page \<Rightarrow> bool" where
  "is_slab cfg p \<longleftrightarrow> pg_flags p AND PG_slab cfg \<noteq> 0"

definition is_lru :: "page_cfg \<Rightarrow> page \<Rightarrow> bool" where
  "is_lru cfg p \<longleftrightarrow> pg_flags p AND PG_lru cfg \<noteq> 0"

definition is_anon :: "page_mem \<Rightarrow> page \<Rightarrow> bool res" where
  "is_anon mem p = bindR (of_option GdbMemoryError (mem (pg_address p))) (\<lambda>f. Inr (pf_mapping f AND 1 \<noteq> 0))"

definition get_slab_cache :: "page_cfg \<Rightarrow> page_mem \<Rightarrow> page \<Rightarrow> addr res" where
  "get_slab_cache cfg mem p = bindR (of_option GdbMemoryError (mem (pg_address p))) (\<lambda>f.
     Inr (if slab_cache_name cfg = Some ''lru'' then pf_lru_next f else pf_slab_cache f))"

definition get_slab_page :: "page_cfg \<Rightarrow> page_mem \<Rightarrow> page \<Rightarrow> addr res" where
  "get_slab_page cfg mem p = bindR (of_option GdbMemoryError (mem (pg_address p))) (\<lambda>f.
     Inr (if slab_page_name cfg = Some ''lru'' then pf_lru_prev f else pf_slab_page f))"

definition get_nid :: "page_cfg \<Rightarrow> page \<Rightarrow> int res" where
  "get_nid cfg p = py_shr (pg_flags p) (BITS_PER_LONG cfg - NODES_WIDTH cfg)"

definition get_zid :: "page_cfg \<Rightarrow> page \<Rightarrow> int res" where
  "get_zid cfg p =
     bindR (py_shr (pg_flags p) (BITS_PER_LONG cfg - NODES_WIDTH cfg - ZONES_WIDTH cfg)) (\<lambda>z.
     bindR (py_shl 1 (ZONES_WIDTH cfg)) (\<lambda>m. Inr (z AND (m - 1))))"

definition compound_head :: "page_cfg \<Rightarrow> page_env \<Rightarrow> page_mem \<Rightarrow> page \<Rightarrow> page res" where
  "compound_head cfg env mem p =
     bindR (is_tail cfg mem p) (\<lambda>t.
     if \<not> t then Inr p
     else bindR (of_option GdbMemoryError (mem (pg_address p))) (\<lambda>f.
       bindR (case compound_head_kind cfg of
                None \<Rightarrow> Inl AttributeError
              | Some HeadFirstPage \<Rightarrow> Inr (pf_first_page f)
              | Some HeadLowBit \<Rightarrow> Inr (pf_compound_head f - 1)) (from_page_addr cfg env mem)))"

definition page_addr :: "page_cfg \<Rightarrow> page_env \<Rightarrow> addr \<Rightarrow> addr" where
  "page_addr cfg env struct_page_addr =
     directmap_base cfg + ((struct_page_addr - vmemmap_base cfg) div page_sizeof env) * PAGE_SIZE cfg"

definition pfn_to_page :: "page_cfg \<Rightarrow> page_env \<Rightarrow> page_mem \<Rightarrow> int \<Rightarrow> page res" where
  "pfn_to_page cfg env mem pfn = bindR (pfn_to_page_addr cfg env pfn) (\<lambda>a. Page_new mem a pfn)"

definition page_from_addr :: "page_cfg \<Rightarrow> page_env \<Rightarrow> page_mem \<Rightarrow> addr \<Rightarrow> page res" where
  "page_from_addr cfg env mem a =
     (if PAGE_SIZE cfg = 0 then Inl ZeroDivisionError
      else pfn_to_page cfg env mem ((a - directmap_base cfg) div PAGE_SIZE cfg))"

definition safe_page_from_page_addr :: "page_cfg \<Rightarrow> page_env \<Rightarrow> page_mem \<Rightarrow> addr \<Rightarrow> page option res" where
  "safe_page_from_page_addr cfg env mem a =
     (if a < vmemmap_base cfg then Inr None
      else if max_pfn env < (a - vmemmap_base cfg) div page_sizeof env then Inr None
      else bindR (from_page_addr cfg env mem a) (\<lambda>p. Inr (Some p)))"

definition page_from_gdb_obj :: "page_cfg \<Rightarrow> page_env \<Rightarrow> page_mem \<Rightarrow> addr \<Rightarrow> page res" where
  "page_from_gdb_obj cfg env mem a = Page_new mem a ((a - vmemmap_base cfg) div page_sizeof env)"

text \<open>\<open>try: yield x except gdb.error: pass\<close>\<close>

definition yield_or_skip :: "'a res \<Rightarrow> 'a gen" where
  "yield_or_skip r = (case r of
       Inr x \<Rightarrow> gen_of_list [x]
     | Inl e \<Rightarrow> if catches GdbError e then gen_done else gen_raise e)"

definition for_each_struct_page_pfn :: "page_cfg \<Rightarrow> page_env \<Rightarrow> (addr \<times> int) gen" where
  "for_each_struct_page_pfn cfg env = gen_for [0..max_pfn env - 1] (\<lambda>pfn.
     yield_or_skip (bindR (pfn_to_page_addr cfg env pfn) (\<lambda>a. Inr (a, pfn))))"

definition for_each_page :: "page_cfg \<Rightarrow> page_env \<Rightarrow> page_mem \<Rightarrow> page gen" where
  "for_each_page cfg env mem = gen_for [0..max_pfn env - 1] (\<lambda>pfn.
     yield_or_skip (pfn_to_page cfg env mem pfn))"

definition for_each_page_flag :: "page_cfg \<Rightarrow> page_env \<Rightarrow> page_mem \<Rightarrow> int \<Rightarrow> page gen" where
  "for_each_page_flag cfg env mem flag = gen_bind (for_each_struct_page_pfn cfg env) (\<lambda>(a, pfn).
     case mem a of
       None \<Rightarrow> gen_done
     | Some f \<Rightarrow> if pf_flags f AND flag = 0 then gen_done else yield_or_skip (Page_new mem a pfn))"

section \<open>VM statistics\<close>

record vmstat_state =
  nr_stat_items :: int
  nr_event_items :: int
  vm_stat_names :: "string list"
  vm_event_names :: "string list"

text \<open>\<open>xs[i] = v\<close> of a Python list: negative indices count from the end.\<close>

definition py_list_set :: "'a list \<Rightarrow> int \<Rightarrow> 'a \<Rightarrow> 'a list res" where
  "py_list_set xs i v =
     (let j = (if i < 0 then i + int (length xs) else i)
      in if 0 \<le> j \<and> j < int (length xs) then Inr (xs[nat j := v]) else Inl IndexError)"

fun fill_names :: "int \<Rightarrow> string list \<Rightarrow> (string \<times> int) list \<Rightarrow> string list res" where
  "fill_names n names [] = Inr names"
| "fill_names n names ((name, v) # fs) =
     (if v < n then bindR (py_list_set names v name) (\<lambda>names'. fill_names n names' fs)
      else fill_names n names fs)"

text \<open>\<open>enum\<close> fls the enumerators in order; a missing \<open>items_name\<close> is a \<^verbatim>\<open>KeyError\<close> of gdb's type.\<close>

definition populate_names :: "(string \<times> int) list \<Rightarrow> string \<Rightarrow> (int \<times> string list) res" where
  "populate_names enum items_name =
     bindR (of_option KeyError (map_of enum items_name)) (\<lambda>n.
     bindR (fill_names n (replicate (nat n) ''__UNKNOWN__'') enum) (\<lambda>names. Inr (n, names)))"

datatype enum_kind = ZoneStatItem | VmEventItem | OtherEnum

definition check_enum_type :: "enum_kind \<Rightarrow> (string \<times> int) list \<Rightarrow> vmstat_state \<Rightarrow> vmstat_state res" where
  "check_enum_type k enum st = (case k of
       ZoneStatItem \<Rightarrow> bindR (populate_names enum ''NR_VM_ZONE_STAT_ITEMS'') (\<lambda>(n, names).
         Inr (st\<lparr>nr_stat_items := n, vm_stat_names := names\<rparr>))
     | VmEventItem \<Rightarrow> bindR (populate_names enum ''NR_VM_EVENT_ITEMS'') (\<lambda>(n, names).
         Inr (st\<lparr>nr_event_items := n, vm_event_names := names\<rparr>))
     | OtherEnum \<Rightarrow> Inl TypeError)"

text \<open>\<open>for item in range(0, nr): acc[item] += rd(item)\<close>\<close>

fun add_items :: "(int \<Rightarrow> int res) \<Rightarrow> int list \<Rightarrow> int list \<Rightarrow> int list res" where
  "add_items rd [] acc = Inr acc"
| "add_items rd (i # is) acc =
     bindR (rd i) (\<lambda>v. bindR (py_list_set acc i (acc ! nat i + v)) (\<lambda>acc'. add_items rd is acc'))"

fun sum_over_cpus :: "(int \<Rightarrow> int \<Rightarrow> int res) \<Rightarrow> int \<Rightarrow> int list \<Rightarrow> int list \<Rightarrow> int list res" where
  "sum_over_cpus rd n [] acc = Inr acc"
| "sum_over_cpus rd n (cpu # cpus) acc =
     bindR (add_items (rd cpu) [0..n - 1] acc) (\<lambda>acc'. sum_over_cpus rd n cpus acc')"

text \<open>\<open>event\<close> reads an element of the array of the object that \<open>get_percpu_var\<close> finds.\<close>

definition percpu_item ::
  "percpu_env \<Rightarrow> percpu_state \<Rightarrow> percpu_arg \<Rightarrow> (percpu_val \<Rightarrow> int \<Rightarrow> int res) \<Rightarrow> int \<Rightarrow> int \<Rightarrow> int res" where
  "percpu_item penv pst var at cpu item = bindR (fst (get_percpu_var penv pst var cpu)) (\<lambda>x. at x item)"

definition get_events ::
  "percpu_env \<Rightarrow> percpu_state \<Rightarrow> cpu_state \<Rightarrow> vmstat_state \<Rightarrow> percpu_arg \<Rightarrow>
     (percpu_val \<Rightarrow> int \<Rightarrow> int res) \<Rightarrow> int list res" where
  "get_events penv pst cpus st vm_event_states event =
     sum_over_cpus (percpu_item penv pst vm_event_states event) (nr_event_items st) (cpus_online cpus)
       (replicate (nat (nr_event_items st)) 0)"

section \<open>Zones\<close>

record zone =
  zn_address :: addr
  zn_zid :: int
  zn_nid :: int

text \<open>What is read of a zone: \<open>node\<close>, \<open>present_pages\<close>, \<open>vm_stat\<close>, \<open>pageset\<close>.\<close>

record zone_env =
  zone_sizeof :: int
  zone_node :: "addr \<Rightarrow> int option"
  zone_present_pages :: "addr \<Rightarrow> int option"
  zone_vm_stat :: "addr \<Rightarrow> int \<Rightarrow> int option"
  zone_pageset :: "addr \<Rightarrow> gvalue"
  pageset_vm_stat_diff :: "percpu_val \<Rightarrow> int \<Rightarrow> int res"

definition Zone_new :: "zone_env \<Rightarrow> addr \<Rightarrow> int \<Rightarrow> zone res" where
  "Zone_new env a zid = bindR (of_option GdbMemoryError (zone_node env a)) (\<lambda>nid.
     Inr \<lparr>zn_address = a, zn_zid = zid, zn_nid = nid\<rparr>)"

definition is_populated :: "zone_env \<Rightarrow> zone \<Rightarrow> bool res" where
  "is_populated env z = bindR (of_option GdbMemoryError (zone_present_pages env (zn_address z))) (\<lambda>n.
     Inr (n \<noteq> 0))"

definition get_vmstat :: "zone_env \<Rightarrow> vmstat_state \<Rightarrow> zone \<Rightarrow> int list res" where
  "get_vmstat env st z =
     mapR (\<lambda>i. of_option GdbMemoryError (zone_vm_stat env (zn_address z) i)) [0..nr_stat_items st - 1]"

definition add_vmstat_diffs ::
  "percpu_env \<Rightarrow> percpu_state \<Rightarrow> cpu_state \<Rightarrow> zone_env \<Rightarrow> vmstat_state \<Rightarrow> zone \<Rightarrow> int list \<Rightarrow> int list res"
  where
  "add_vmstat_diffs penv pst cpus env st z diffs =
     sum_over_cpus (percpu_item penv pst (PValue (zone_pageset env (zn_address z))) (pageset_vm_stat_diff env))
       (nr_stat_items st) (cpus_online cpus) diffs"

definition get_vmstat_diffs ::
  "percpu_env \<Rightarrow> percpu_state \<Rightarrow> cpu_state \<Rightarrow> zone_env \<Rightarrow> vmstat_state \<Rightarrow> zone \<Rightarrow> int list res" where
  "get_vmstat_diffs penv pst cpus env st z =
     add_vmstat_diffs penv pst cpus env st z (replicate (nat (nr_stat_items st)) 0)"

text \<open>
  \<open>_check_free_area\<close> prints; the model returns what it prints.  \<open>fls\<close> are the iterations of the free
  fls, each the pages yielded and the exception that ended it.  Only \<^verbatim>\<open>BufferError\<close> is caught.
\<close>

datatype free_report =
    Misplaced addr int int
  | TraverseError
  | CountMismatch int int

fun check_free_list ::
  "page_cfg \<Rightarrow> page_env \<Rightarrow> page_mem \<Rightarrow> zone \<Rightarrow> addr list \<Rightarrow> int \<Rightarrow> free_report list \<times> int \<times> exc option" where
  "check_free_list cfg env mem z [] nr_free = ([], nr_free, None)"
| "check_free_list cfg env mem z (a # as) nr_free =
     (case from_obj cfg env mem a of
        Inl e \<Rightarrow> ([], nr_free, Some e)
      | Inr p \<Rightarrow> (case bindR (get_nid cfg p) (\<lambda>nid. bindR (get_zid cfg p) (\<lambda>zid. Inr (nid, zid))) of
          Inl e \<Rightarrow> ([], nr_free + 1, Some e)
        | Inr (nid, zid) \<Rightarrow>
            let (rs, n, e) = check_free_list cfg env mem z as (nr_free + 1)
            in ((if nid \<noteq> zn_nid z \<or> zid \<noteq> zn_zid z then [Misplaced a nid zid] else []) @ rs, n, e)))"

fun check_free_lists ::
  "page_cfg \<Rightarrow> page_env \<Rightarrow> page_mem \<Rightarrow> zone \<Rightarrow> addr gen list \<Rightarrow> int \<Rightarrow> free_report list \<times> int \<times> exc option" where
  "check_free_lists cfg env mem z [] nr_free = ([], nr_free, None)"
| "check_free_lists cfg env mem z (l # ls) nr_free =
     (let (rs, n, e) = check_free_list cfg env mem z (fst l) nr_free;
          e' = (case e of Some x \<Rightarrow> Some x | None \<Rightarrow> snd l)
      in case e' of
           None \<Rightarrow> (let (rs', n', e'') = check_free_lists cfg env mem z ls n in (rs @ rs', n', e''))
         | Some x \<Rightarrow>
             if catches BufferError x
             then (let (rs', n', e'') = check_free_lists cfg env mem z ls n
                   in (rs @ TraverseError # rs', n', e''))
             else (rs, n, Some x))"

definition check_free_area ::
  "page_cfg \<Rightarrow> page_env \<Rightarrow> page_mem \<Rightarrow> zone \<Rightarrow> addr gen list \<Rightarrow> int \<Rightarrow> free_report list \<times> exc option" where
  "check_free_area cfg env mem z fls nr_expected =
     (let (rs, n, e) = check_free_lists cfg env mem z fls 0
      in case e of
           Some x \<Rightarrow> (rs, Some x)
         | None \<Rightarrow> (rs @ (if n \<noteq> nr_expected then [CountMismatch nr_expected n] else []), None))"

text \<open>\<open>check_free_pages\<close>: the buddy fls, then the per-CPU fls of the online CPUs, each with the number
  of pages expected.\<close>

definition check_free_pages ::
  "page_cfg \<Rightarrow> page_env \<Rightarrow> page_mem \<Rightarrow> zone \<Rightarrow> (addr gen list \<times> int) list \<Rightarrow> (int \<Rightarrow> (addr gen list \<times> int) res) \<Rightarrow>
     cpu_state \<Rightarrow> free_report gen" where
  "check_free_pages cfg env mem z free_area pcp cpus =
     gen_seq (gen_for free_area (\<lambda>(fls, n). check_free_area cfg env mem z fls n))
       (gen_for (cpus_online cpus) (\<lambda>cpu. gen_try (pcp cpu) (\<lambda>(fls, n).
          check_free_area cfg env mem z fls n)))"

section \<open>Nodes\<close>

record node_states =
  nids_online :: "int list"
  nids_possible :: "int list"

record node_env =
  node_data :: "int \<Rightarrow> addr res"
  node_zones :: "addr \<Rightarrow> addr"     \<comment> \<open>address of the first element of \<open>node_zones\<close>\<close>
  node_zone_range :: "int \<times> int"   \<comment> \<open>\<open>node_zones.type.range()\<close>\<close>
  numa_cpu_lookup_table :: "int \<Rightarrow> int res"

definition numa_node_id ::
  "bool \<Rightarrow> node_env \<Rightarrow> percpu_env \<Rightarrow> percpu_state \<Rightarrow> percpu_arg \<Rightarrow> (percpu_val \<Rightarrow> int res) \<Rightarrow> int \<Rightarrow> int res"
  where
  "numa_node_id ppc64 env penv pst numa_node rd cpu =
     (if ppc64 then numa_cpu_lookup_table env cpu
      else bindR (fst (get_percpu_var penv pst numa_node cpu)) rd)"

definition Node_from_nid :: "node_env \<Rightarrow> int \<Rightarrow> addr res" where
  "Node_from_nid env nid = node_data env nid"

definition node_for_each_zone :: "node_env \<Rightarrow> zone_env \<Rightarrow> addr \<Rightarrow> zone gen" where
  "node_for_each_zone env zenv node =
     (let (first, lst) = node_zone_range env
      in gen_for [first..lst] (\<lambda>zid.
           gen_of_res (Zone_new zenv (node_zones env node + (zid - first) * zone_sizeof zenv) zid)))"

definition setup_node_states :: "bitmap \<Rightarrow> bitmap \<Rightarrow> node_states \<Rightarrow> node_states res" where
  "setup_node_states possible online st =
     bindR (gen_to_list (for_each_set_bit possible None)) (\<lambda>p.
     bindR (gen_to_list (for_each_set_bit online None)) (\<lambda>on.
     Inr (st\<lparr>nids_possible := p, nids_online := on\<rparr>)))"

definition for_each_nid :: "node_states \<Rightarrow> int gen" where
  "for_each_nid st =
     (if nids_possible st = [] then gen_raise DelayedAttributeError else gen_of_list (nids_possible st))"

definition for_each_online_nid :: "node_states \<Rightarrow> int gen" where
  "for_each_online_nid st =
     (if nids_online st = [] then gen_raise DelayedAttributeError else gen_of_list (nids_online st))"

definition for_each_node :: "node_env \<Rightarrow> node_states \<Rightarrow> addr gen" where
  "for_each_node env st = gen_bind (for_each_nid st) (\<lambda>nid. gen_of_res (Node_from_nid env nid))"

definition for_each_online_node :: "node_env \<Rightarrow> node_states \<Rightarrow> addr gen" where
  "for_each_online_node env st = gen_bind (for_each_online_nid st) (\<lambda>nid. gen_of_res (Node_from_nid env nid))"

definition for_each_zone :: "node_env \<Rightarrow> zone_env \<Rightarrow> node_states \<Rightarrow> zone gen" where
  "for_each_zone env zenv st = gen_bind (for_each_node env st) (node_for_each_zone env zenv)"

definition for_each_populated_zone :: "node_env \<Rightarrow> zone_env \<Rightarrow> node_states \<Rightarrow> zone gen" where
  "for_each_populated_zone env zenv st = gen_bind (for_each_zone env zenv st) (\<lambda>z.
     gen_try (is_populated zenv z) (\<lambda>b. if b then gen_of_list [z] else gen_done))"

section \<open>Lemmas\<close>

subsection \<open>Order of the type callbacks\<close>

lemma cfg_sel [simp]:
  "pageflags (set_tail r c) = pageflags c"
  "pageflags (set_page_type sz sc sp ch c) = pageflags c"
  "setup_pageflags_done (set_page_type sz sc sp ch c) = setup_pageflags_done c"
  "setup_pageflags_finish_done (set_page_type sz sc sp ch c) = setup_pageflags_finish_done c"
  "setup_page_type_done (set_page_type sz sc sp ch c)"
  "compound_head_name (set_page_type sz sc sp ch c) = Some ch"
  "PG_tail (set_page_type sz sc sp ch c) = PG_tail c"
  "pageflags (ppc64_setup b c) = pageflags c"
  "PG_tail (ppc64_setup b c) = PG_tail c"
  "PAGE_SHIFT (ppc64_setup b c) = (if b then 16 else PAGE_SHIFT c)"
  "setup_pageflags_done (ppc64_setup b c) = setup_pageflags_done c"
  "setup_pageflags_finish_done (ppc64_setup b c) = setup_pageflags_finish_done c"
  "setup_page_type_done (ppc64_setup b c) = setup_page_type_done c"
  "pageflags (set_pageflags fs c) = add_pageflags (pageflags c) fs"
  "setup_pageflags_done (set_pageflags fs c)"
  "setup_pageflags_finish_done (set_pageflags fs c) = setup_pageflags_finish_done c"
  "setup_page_type_done (set_pageflags fs c) = setup_page_type_done c"
  "compound_head_name (set_pageflags fs c) = compound_head_name c"
  "PG_tail (set_pageflags fs c) = PG_tail c"
  "PAGE_SHIFT (set_pageflags fs c) = PAGE_SHIFT c"
  by (auto simp: set_tail_def set_page_type_def ppc64_setup_def set_pageflags_def split: prod.splits)

lemma cfg_commute:
  "set_pageflags fs (set_page_type sz sc sp ch c) = set_page_type sz sc sp ch (set_pageflags fs c)"
  "set_pageflags fs (ppc64_setup b c) = ppc64_setup b (set_pageflags fs c)"
  "set_page_type sz sc sp ch (c\<lparr>PG_slab := s, PG_lru := l\<rparr>) = (set_page_type sz sc sp ch c)\<lparr>PG_slab := s, PG_lru := l\<rparr>"
  "ppc64_setup b (c\<lparr>PG_slab := s, PG_lru := l\<rparr>) = (ppc64_setup b c)\<lparr>PG_slab := s, PG_lru := l\<rparr>"
  "set_tail r (c\<lparr>PG_slab := s, PG_lru := l\<rparr>) = (set_tail r c)\<lparr>PG_slab := s, PG_lru := l\<rparr>"
  by (simp_all add: set_tail_def set_page_type_def ppc64_setup_def set_pageflags_def split: prod.splits)

lemma cfg_PG:
  "pageflags (c\<lparr>PG_slab := s, PG_lru := l\<rparr>) = pageflags c"
  "compound_head_name (c\<lparr>PG_slab := s, PG_lru := l\<rparr>) = compound_head_name c"
  "PG_tail (c\<lparr>PG_slab := s, PG_lru := l\<rparr>) = PG_tail c"
  "PAGE_SHIFT (c\<lparr>PG_slab := s, PG_lru := l\<rparr>) = PAGE_SHIFT c"
  "setup_pageflags_done (c\<lparr>PG_slab := s, PG_lru := l\<rparr>) = setup_pageflags_done c"
  "setup_pageflags_finish_done (c\<lparr>PG_slab := s, PG_lru := l\<rparr>) = setup_pageflags_finish_done c"
  by simp_all

text \<open>Both callbacks one after the other, with their results.\<close>

definition setup_result :: "bool \<Rightarrow> gtype \<Rightarrow> (string \<times> int) list \<Rightarrow> page_cfg \<Rightarrow> page_cfg \<Rightarrow> bool" where
  "setup_result ppc64 t fs c c' \<longleftrightarrow> (\<exists>sz sc sp ch r s l.
     py_shl 1 (if ppc64 then 16 else PAGE_SHIFT c) = Inr sz \<and>
     find_member_variant t [''slab_cache'', ''lru''] = Inr sc \<and>
     find_member_variant t [''slab_page'', ''lru''] = Inr sp \<and>
     find_member_variant t [''compound_head'', ''first_page''] = Inr ch \<and>
     tail_setup (add_pageflags (pageflags c) fs) (Some ch) (PG_tail c) = Inr r \<and>
     page_flag (add_pageflags (pageflags c) fs) ''PG_slab'' = Inr s \<and>
     page_flag (add_pageflags (pageflags c) fs) ''PG_lru'' = Inr l \<and>
     c' = (set_tail r (set_page_type sz sc sp ch (ppc64_setup ppc64 (set_pageflags fs c))))
       \<lparr>PG_slab := s, PG_lru := l\<rparr>)"

lemma setup_page_type_first:
  assumes "\<not> setup_pageflags_done c" and "\<not> setup_pageflags_finish_done c"
  shows "bindR (setup_page_type ppc64 t c) (setup_pageflags fs) = Inr c' \<longleftrightarrow> setup_result ppc64 t fs c c'"
proof -
  have first: "setup_page_type ppc64 t c = Inr x \<longleftrightarrow> (\<exists>sz sc sp ch.
     py_shl 1 (if ppc64 then 16 else PAGE_SHIFT c) = Inr sz \<and>
     find_member_variant t [''slab_cache'', ''lru''] = Inr sc \<and>
     find_member_variant t [''slab_page'', ''lru''] = Inr sp \<and>
     find_member_variant t [''compound_head'', ''first_page''] = Inr ch \<and>
     x = set_page_type sz sc sp ch (ppc64_setup ppc64 c))" for x
    using assms(1) unfolding setup_page_type_def bindR_eq_Inr Let_def cfg_sel by fastforce
  have second: "setup_pageflags fs (set_page_type sz sc sp ch (ppc64_setup ppc64 c)) = Inr c' \<longleftrightarrow>
     (\<exists>r s l. tail_setup (add_pageflags (pageflags c) fs) (Some ch) (PG_tail c) = Inr r \<and>
     page_flag (add_pageflags (pageflags c) fs) ''PG_slab'' = Inr s \<and>
     page_flag (add_pageflags (pageflags c) fs) ''PG_lru'' = Inr l \<and>
     c' = (set_tail r (set_page_type sz sc sp ch (ppc64_setup ppc64 (set_pageflags fs c))))
       \<lparr>PG_slab := s, PG_lru := l\<rparr>)" for sz sc sp ch
    using assms(2)
    unfolding setup_pageflags_def setup_pageflags_finish_def Let_def cfg_sel cfg_commute
    by (cases "tail_setup (add_pageflags (pageflags c) fs) (Some ch) (PG_tail c)")
       (auto simp: bindR_eq_Inr)
  show ?thesis
    unfolding bindR_eq_Inr setup_result_def first using second by (auto simp del: split_paired_Ex)
qed

lemma setup_pageflags_first:
  assumes "\<not> setup_page_type_done c" and "\<not> setup_pageflags_finish_done c"
  shows "bindR (setup_pageflags fs c) (setup_page_type ppc64 t) = Inr c' \<longleftrightarrow> setup_result ppc64 t fs c c'"
proof -
  have first: "setup_pageflags fs c = Inr x \<longleftrightarrow> (\<exists>s l.
     page_flag (add_pageflags (pageflags c) fs) ''PG_slab'' = Inr s \<and>
     page_flag (add_pageflags (pageflags c) fs) ''PG_lru'' = Inr l \<and>
     x = (set_pageflags fs c)\<lparr>PG_slab := s, PG_lru := l\<rparr>)" for x
    using assms(1) unfolding setup_pageflags_def bindR_eq_Inr Let_def cfg_sel by fastforce
  have second: "setup_page_type ppc64 t ((set_pageflags fs c)\<lparr>PG_slab := s, PG_lru := l\<rparr>) = Inr c' \<longleftrightarrow>
     (\<exists>sz sc sp ch r.
     py_shl 1 (if ppc64 then 16 else PAGE_SHIFT c) = Inr sz \<and>
     find_member_variant t [''slab_cache'', ''lru''] = Inr sc \<and>
     find_member_variant t [''slab_page'', ''lru''] = Inr sp \<and>
     find_member_variant t [''compound_head'', ''first_page''] = Inr ch \<and>
     tail_setup (add_pageflags (pageflags c) fs) (Some ch) (PG_tail c) = Inr r \<and>
     c' = (set_tail r (set_page_type sz sc sp ch (ppc64_setup ppc64 (set_pageflags fs c))))
       \<lparr>PG_slab := s, PG_lru := l\<rparr>)" for s l
    using assms(2)
    unfolding setup_page_type_def setup_pageflags_finish_def bindR_eq_Inr Let_def cfg_commute cfg_PG cfg_sel
    by (auto simp: bindR_eq_Inr)
  show ?thesis
    unfolding bindR_eq_Inr setup_result_def first using second by (auto simp del: split_paired_Ex)
qed

lemma setup_orders:
  assumes "\<not> setup_page_type_done c" and "\<not> setup_pageflags_done c" and "\<not> setup_pageflags_finish_done c"
  shows "bindR (setup_page_type ppc64 t c) (setup_pageflags fs) = Inr c' \<longleftrightarrow>
    bindR (setup_pageflags fs c) (setup_page_type ppc64 t) = Inr c'"
  using setup_page_type_first [OF assms(2, 3)] setup_pageflags_first [OF assms(1, 3)] by simp

subsection \<open>Decoding the flags word\<close>

lemma ceil_log2_bound: "n \<le> 2 ^ ceil_log2 n"
proof (induction n rule: ceil_log2.induct)
  case (1 n)
  show ?case
  proof (cases "n \<le> 1")
    case True
    then show ?thesis by (simp add: ceil_log2.simps)
  next
    case False
    then have "(n + 1) div 2 \<le> 2 ^ ceil_log2 ((n + 1) div 2)" using 1 by blast
    then have "n \<le> 2 * 2 ^ ceil_log2 ((n + 1) div 2)" by linarith
    then show ?thesis using False by (subst ceil_log2.simps) simp
  qed
qed

lemma get_nid_zid:
  assumes "pg_flags p = nid * 2 ^ (z + k) + zid * 2 ^ k + low"
    and "0 \<le> zid" and "zid < 2 ^ z" and "0 \<le> low" and "low < 2 ^ k"
    and "ZONES_WIDTH cfg = int z" and "BITS_PER_LONG cfg - NODES_WIDTH cfg = int (z + k)"
  shows "get_nid cfg p = Inr nid" "get_zid cfg p = Inr zid"
proof -
  have low: "(zid * 2 ^ k + low) div 2 ^ k = zid" using assms(4, 5) by simp
  have pack: "pg_flags p = (nid * 2 ^ z + zid) * 2 ^ k + low"
    using assms(1) by (simp add: power_add algebra_simps)
  then have shr: "pg_flags p div 2 ^ k = nid * 2 ^ z + zid" using assms(4, 5) by simp
  have "pg_flags p div 2 ^ (z + k) = (nid * 2 ^ z + zid) div 2 ^ z"
    unfolding shr [symmetric] by (simp add: power_add zdiv_zmult2_eq mult.commute)
  also have "\<dots> = nid" using assms(2, 3) by simp
  finally show "get_nid cfg p = Inr nid"
    using assms(7) by (simp add: get_nid_def py_shr_def drop_bit_eq_div nat_int_add)
  have "BITS_PER_LONG cfg - NODES_WIDTH cfg - ZONES_WIDTH cfg = int k" using assms(6, 7) by simp
  moreover have "(nid * 2 ^ z + zid) mod 2 ^ z = zid" using assms(2, 3) by simp
  ultimately show "get_zid cfg p = Inr zid"
    using assms(6) shr
    by (simp add: get_zid_def py_shr_def py_shl_def drop_bit_eq_div push_bit_eq_mult drop_bit_and_mask_int)
qed

subsection \<open>Addresses of pages\<close>

lemma pfn_to_page_addr_vmemmap:
  assumes "\<not> sparsemem cfg" and "vmemmap cfg = Some (vmemmap_base cfg)" and "0 \<le> pfn"
    and "0 < page_sizeof env" and "0 \<le> vmemmap_base cfg" and "vmemmap_base cfg + pfn * page_sizeof env < 2 ^ 64"
  shows "pfn_to_page_addr cfg env pfn = Inr (vmemmap_base cfg + pfn * page_sizeof env)"
  using assms by (simp add: pfn_to_page_addr_def ptr_add_def)

lemma page_addr_of_pfn:
  "0 < page_sizeof env \<Longrightarrow>
   page_addr cfg env (vmemmap_base cfg + pfn * page_sizeof env) = directmap_base cfg + pfn * PAGE_SIZE cfg"
  by (simp add: page_addr_def)

lemma page_from_addr_within:
  assumes "0 < PAGE_SIZE cfg" and "0 \<le> k" and "k < PAGE_SIZE cfg"
  shows "page_from_addr cfg env mem (directmap_base cfg + pfn * PAGE_SIZE cfg + k) = pfn_to_page cfg env mem pfn"
proof -
  have "(directmap_base cfg + pfn * PAGE_SIZE cfg + k - directmap_base cfg) div PAGE_SIZE cfg = pfn"
    using assms by (simp add: add.commute)
  then show ?thesis using assms(1) by (simp add: page_from_addr_def)
qed

subsection \<open>Filtering pages by a flag\<close>

lemma catches_gdb [simp]: "catches GdbError GdbMemoryError"
  by code_simp

lemma gen_bind_for:
  fixes f :: "'a \<Rightarrow> 'b gen" and g :: "'b \<Rightarrow> 'c gen"
  shows "gen_bind (gen_for xs f) g = gen_for xs (\<lambda>x. gen_bind (f x) g)"
proof (induction xs)
  case (Cons x xs)
  have seq: "gen_bind (gen_seq a b) g = gen_seq (gen_bind a g) (gen_bind b g)" for a b :: "'b gen"
    by (auto simp: gen_bind_def gen_seq_def gen_for_append gen_yields_def split: option.splits)
  show ?case using Cons by (simp add: seq)
qed (simp add: gen_bind_def gen_simps, simp add: gen_done_def)

lemma gen_bind_yield_or_skip:
  "gen_bind (yield_or_skip r) g = (case r of Inr x \<Rightarrow> g x
     | Inl e \<Rightarrow> if catches GdbError e then gen_done else gen_raise e)"
proof (cases r)
  case (Inl e)
  then show ?thesis
    by (auto simp: yield_or_skip_def gen_bind_def gen_seq_def gen_yields_def gen_done_def gen_raise_def)
next
  case (Inr x)
  then show ?thesis
    by (simp add: yield_or_skip_def gen_bind_of_list) (cases "g x"; auto simp: gen_seq_def gen_yields_def
        gen_done_def split: option.splits)
qed

definition page_filter :: "int \<Rightarrow> page \<Rightarrow> page gen" where
  "page_filter flag p = (if pg_flags p AND flag = 0 then gen_done else gen_of_list [p])"

lemma for_each_page_flag_filter:
  "for_each_page_flag cfg env mem flag = gen_bind (for_each_page cfg env mem) (page_filter flag)"
proof -
  have "gen_bind (yield_or_skip (bindR (pfn_to_page_addr cfg env pfn) (\<lambda>a. Inr (a, pfn)))) (\<lambda>(a, pfn).
      case mem a of None \<Rightarrow> gen_done
      | Some f \<Rightarrow> if pf_flags f AND flag = 0 then gen_done else yield_or_skip (Page_new mem a pfn)) =
    gen_bind (yield_or_skip (pfn_to_page cfg env mem pfn)) (page_filter flag)" for pfn
  proof -
    have new: "yield_or_skip (Inr x) = gen_of_list [x]" for x :: page by (simp add: yield_or_skip_def)
    show ?thesis
      unfolding gen_bind_yield_or_skip
      by (cases "pfn_to_page_addr cfg env pfn")
         (auto simp: pfn_to_page_def Page_new_def page_filter_def new split: option.splits)
  qed
  then show ?thesis
    by (simp add: for_each_page_flag_def for_each_struct_page_pfn_def for_each_page_def gen_bind_for)
qed

subsection \<open>Sums over CPUs\<close>

lemma py_list_set_nat:
  "i < length xs \<Longrightarrow> py_list_set xs (int i) v = Inr (xs[i := v])"
  by (simp add: py_list_set_def Let_def)

lemma upto_map_int: "[int a..int b - 1] = map int [a..<b]"
proof (induction "b - a" arbitrary: a)
  case (Suc d)
  then have "[int a..int b - 1] = int a # [int (Suc a)..int b - 1]" by (simp add: upto_rec1 add.commute)
  also have "[int (Suc a)..int b - 1] = map int [Suc a..<b]" using Suc by (intro Suc(1)) simp
  finally show ?case using Suc(2) by (simp add: upt_conv_Cons)
qed simp

lemma add_items_prefix:
  assumes "k \<le> n" and "length acc = n" and "\<And>i. i < n \<Longrightarrow> rd (int i) = Inr (v i)"
  shows "add_items rd (map int [k..<n]) acc =
    Inr (map (\<lambda>i. if i < k then acc ! i else acc ! i + v i) [0..<n])"
  using assms(1, 2)
proof (induction "n - k" arbitrary: k acc)
  case 0
  then have "k = n" by simp
  then show ?case using 0 by (auto intro: nth_equalityI)
next
  case (Suc d)
  then have k: "k < n" "[k..<n] = k # [Suc k..<n]" by (auto simp: upt_conv_Cons)
  let ?acc = "acc[k := acc ! k + v k]"
  have "add_items rd (map int [k..<n]) acc = add_items rd (map int [Suc k..<n]) ?acc"
    using k Suc assms(3) by (simp add: py_list_set_nat)
  also have "\<dots> = Inr (map (\<lambda>i. if i < Suc k then ?acc ! i else ?acc ! i + v i) [0..<n])"
    using Suc k by (intro Suc.hyps(1)) auto
  also have "map (\<lambda>i. if i < Suc k then ?acc ! i else ?acc ! i + v i) [0..<n] =
      map (\<lambda>i. if i < k then acc ! i else acc ! i + v i) [0..<n]"
    using Suc.prems k by (auto simp: nth_list_update less_Suc_eq)
  finally show ?case .
qed

lemma sum_over_cpus_total:
  assumes "length acc = n" and "\<And>cpu i. cpu \<in> set cpus \<Longrightarrow> i < n \<Longrightarrow> rd cpu (int i) = Inr (v cpu i)"
  shows "sum_over_cpus rd (int n) cpus acc =
    Inr (map (\<lambda>i. acc ! i + (\<Sum>cpu \<leftarrow> cpus. v cpu i)) [0..<n])"
  using assms
proof (induction cpus arbitrary: acc)
  case Nil
  then show ?case by (auto intro: nth_equalityI)
next
  case (Cons cpu cpus)
  have "add_items (rd cpu) [0..int n - 1] acc = Inr (map (\<lambda>i. acc ! i + v cpu i) [0..<n])"
    using add_items_prefix [of 0 n acc "rd cpu" "v cpu"] Cons.prems upto_map_int [of 0 n] by simp
  then show ?case using Cons by (simp add: add.assoc)
qed

subsection \<open>Checking free areas\<close>

definition on_zone :: "page_cfg \<Rightarrow> page_env \<Rightarrow> page_mem \<Rightarrow> zone \<Rightarrow> addr \<Rightarrow> bool" where
  "on_zone cfg env mem z a \<longleftrightarrow> (\<exists>p. from_obj cfg env mem a = Inr p \<and>
     get_nid cfg p = Inr (zn_nid z) \<and> get_zid cfg p = Inr (zn_zid z))"

definition page_decodes :: "page_cfg \<Rightarrow> page_env \<Rightarrow> page_mem \<Rightarrow> addr \<Rightarrow> bool" where
  "page_decodes cfg env mem a \<longleftrightarrow> (\<exists>p nid zid. from_obj cfg env mem a = Inr p \<and>
     get_nid cfg p = Inr nid \<and> get_zid cfg p = Inr zid)"

lemma check_free_list_ok:
  assumes "\<forall>a \<in> set as. page_decodes cfg env mem a"
  shows "\<exists>rs. check_free_list cfg env mem z as n = (rs, n + int (length as), None) \<and>
    (rs = [] \<longleftrightarrow> (\<forall>a \<in> set as. on_zone cfg env mem z a))"
  using assms
proof (induction as arbitrary: n)
  case (Cons a as)
  obtain rs where rs: "check_free_list cfg env mem z as (n + 1) = (rs, n + 1 + int (length as), None)"
    "rs = [] \<longleftrightarrow> (\<forall>a \<in> set as. on_zone cfg env mem z a)"
    using Cons by fastforce
  obtain p nid zid where p: "from_obj cfg env mem a = Inr p" "get_nid cfg p = Inr nid" "get_zid cfg p = Inr zid"
    using Cons.prems by (auto simp: page_decodes_def)
  then have "on_zone cfg env mem z a \<longleftrightarrow> nid = zn_nid z \<and> zid = zn_zid z" by (auto simp: on_zone_def)
  then show ?case using rs p by auto
qed simp

lemma check_free_lists_ok:
  assumes "\<forall>l \<in> set fls. snd l = None \<and> (\<forall>a \<in> set (fst l). page_decodes cfg env mem a)"
  shows "\<exists>rs. check_free_lists cfg env mem z fls n = (rs, n + int (length (concat (map fst fls))), None) \<and>
    (rs = [] \<longleftrightarrow> (\<forall>l \<in> set fls. \<forall>a \<in> set (fst l). on_zone cfg env mem z a))"
  using assms
proof (induction fls arbitrary: n)
  case (Cons l fls)
  obtain rs where rs: "check_free_list cfg env mem z (fst l) n = (rs, n + int (length (fst l)), None)"
    "rs = [] \<longleftrightarrow> (\<forall>a \<in> set (fst l). on_zone cfg env mem z a)"
    using check_free_list_ok [of "fst l" cfg env mem z n] Cons.prems by auto
  obtain rs' where rs': "check_free_lists cfg env mem z fls (n + int (length (fst l))) =
      (rs', n + int (length (fst l)) + int (length (concat (map fst fls))), None)"
    "rs' = [] \<longleftrightarrow> (\<forall>l \<in> set fls. \<forall>a \<in> set (fst l). on_zone cfg env mem z a)"
    using Cons by fastforce
  show ?case using rs rs' Cons.prems by auto
qed simp

section \<open>Properties\<close>

text \<open>The callbacks for \<open>struct page\<close> and \<open>enum pageflags\<close> may come in either order: from the initial
  class variables both orders succeed together and leave the same configuration, in which the variant of
  \<open>_is_tail\<close> and \<open>_compound_head\<close> has been chosen with the names and flags of both types.\<close>

theorem page_setup_order:
  "bindR (setup_page_type ppc64 t page_init) (setup_pageflags fs) = Inr c \<longleftrightarrow>
   bindR (setup_pageflags fs page_init) (setup_page_type ppc64 t) = Inr c"
  by (rule setup_orders) (simp_all add: page_init_def)

text \<open>After \<open>setup_zone_type\<close> and \<open>setup_nodes_width\<close>, \<open>get_nid\<close> and \<open>get_zid\<close> return the node and the
  zone that the kernel packed into the top bits of the flags word above \<open>k\<close> other bits, for every zone
  below \<open>__MAX_NR_ZONES\<close>.\<close>

theorem page_flags_decode:
  assumes "setup_zone_type n cfg0 = Inr cfg1" and "setup_nodes_width (Inr (Some s)) 8 cfg1 = Inr cfg"
    and "py_int s 10 = Inr (64 - int (nat (ZONES_WIDTH cfg1)) - int k)"
    and "pg_flags p = nid * 2 ^ (nat (ZONES_WIDTH cfg1) + k) + zid * 2 ^ k + low"
    and "0 \<le> zid" and "zid < n" and "0 \<le> low" and "low < 2 ^ k"
  shows "get_nid cfg p = Inr nid \<and> get_zid cfg p = Inr zid"
proof -
  define z where "z = nat (ZONES_WIDTH cfg1)"
  have w: "ZONES_WIDTH cfg1 = int (ceil_log2 (nat n))" "0 < n"
    using assms(1) by (auto simp: setup_zone_type_def split: if_splits)
  have "int (nat n) \<le> int (2 ^ ceil_log2 (nat n))" unfolding of_nat_le_iff by (rule ceil_log2_bound)
  then have "n \<le> 2 ^ z" using w by (simp add: z_def)
  then have "zid < 2 ^ z" using assms(6) by simp
  moreover have "ZONES_WIDTH cfg = int z" "BITS_PER_LONG cfg - NODES_WIDTH cfg = int (z + k)"
    using assms(2, 3) w by (auto simp: setup_nodes_width_def z_def)
  ultimately show ?thesis using get_nid_zid [of p nid z k zid low cfg] assms(4, 5, 7, 8) by (simp add: z_def)
qed

theorem page_flags_decode_witness:
  "\<exists>cfg. get_nid cfg \<lparr>pg_address = 0, pg_pfn = 0, pg_flags = 3 * 2 ^ (2 + 52) + 2 * 2 ^ 52 + 77\<rparr> = Inr 3 \<and>
     get_zid cfg \<lparr>pg_address = 0, pg_pfn = 0, pg_flags = 3 * 2 ^ (2 + 52) + 2 * 2 ^ 52 + 77\<rparr> = Inr 2"
proof -
  define cfg1 where "cfg1 = page_init\<lparr>ZONES_WIDTH := 2\<rparr>"
  define cfg where "cfg = cfg1\<lparr>NODES_WIDTH := 10, BITS_PER_LONG := 64\<rparr>"
  have "int (ceil_log2 (nat 4)) = 2" by code_simp
  then have "setup_zone_type 4 page_init = Inr cfg1" by (simp add: setup_zone_type_def cfg1_def)
  moreover have num: "py_int ''10'' 10 = Inr 10" by code_simp
  moreover have "setup_nodes_width (Inr (Some ''10'')) 8 cfg1 = Inr cfg"
    using num by (simp add: setup_nodes_width_def cfg_def)
  ultimately show ?thesis
    using page_flags_decode [of 4 page_init cfg1 "''10''" cfg 52
        "\<lparr>pg_address = 0, pg_pfn = 0, pg_flags = 3 * 2 ^ (2 + 52) + 2 * 2 ^ 52 + 77\<rparr>" 3 2 77]
    by (auto simp: cfg1_def)
qed

text \<open>C26: On a kernel with a virtual memory map, the address of the data of a page and the \<open>struct page\<close>
  convert into each other: the page of a frame number lies at \<open>directmap_base + pfn * PAGE_SIZE\<close>, every
  address in it leads back to the same \<open>Page\<close>, and so does the address of its \<open>struct page\<close>.\<close>

theorem page_addr_roundtrip:
  assumes "\<not> sparsemem cfg" and "vmemmap cfg = Some (vmemmap_base cfg)" and "0 \<le> pfn"
    and "0 < page_sizeof env" and "0 \<le> vmemmap_base cfg" and "vmemmap_base cfg + pfn * page_sizeof env < 2 ^ 64"
    and "0 \<le> k" and "k < PAGE_SIZE cfg" and "pfn_to_page_addr cfg env pfn = Inr a"
  shows "page_from_addr cfg env mem (page_addr cfg env a + k) = pfn_to_page cfg env mem pfn \<and>
    from_page_addr cfg env mem a = pfn_to_page cfg env mem pfn"
proof -
  have a: "a = vmemmap_base cfg + pfn * page_sizeof env"
    using assms(9) pfn_to_page_addr_vmemmap [OF assms(1-6)] by simp
  then have "page_addr cfg env a = directmap_base cfg + pfn * PAGE_SIZE cfg"
    using page_addr_of_pfn [OF assms(4)] by simp
  moreover have "from_page_addr cfg env mem a = pfn_to_page cfg env mem pfn"
    using assms(4, 9) a by (simp add: from_page_addr_def from_obj_def pfn_to_page_def)
  ultimately show ?thesis using page_from_addr_within [of cfg k env mem pfn] assms(7, 8) by simp
qed

theorem page_addr_roundtrip_witness:
  "page_from_addr (page_init\<lparr>vmemmap := Some 0xffffea0000000000\<rparr>)
     \<lparr>page_sizeof = 64, section_mem_map = \<lambda>_ _. Inl GdbMemoryError, max_pfn = 1000\<rparr>
     (\<lambda>_. None) (0xffff880000000000 + 7 * 4096 + 100) = Inl GdbMemoryError"
proof -
  define cfg where "cfg = page_init\<lparr>vmemmap := Some 0xffffea0000000000\<rparr>"
  define env where "env = \<lparr>page_sizeof = 64, section_mem_map = \<lambda>_ _. Inl GdbMemoryError, max_pfn = 1000\<rparr>"
  have "pfn_to_page_addr cfg env 7 = Inr (0xffffea0000000000 + 7 * 64)"
    by (simp add: pfn_to_page_addr_def cfg_def env_def page_init_def ptr_add_def)
  moreover have "page_addr cfg env (0xffffea0000000000 + 7 * 64) = 0xffff880000000000 + 7 * 4096"
    by (simp add: page_addr_def cfg_def env_def page_init_def)
  moreover have "pfn_to_page cfg env (\<lambda>_. None) 7 = Inl GdbMemoryError"
    using calculation(1) by (simp add: pfn_to_page_def Page_new_def)
  moreover have "\<not> sparsemem cfg" "vmemmap cfg = Some (vmemmap_base cfg)" "0 < page_sizeof env"
    "vmemmap_base cfg = 0xffffea0000000000" "page_sizeof env = 64" "PAGE_SIZE cfg = 4096"
    by (simp_all add: cfg_def env_def page_init_def)
  ultimately show ?thesis
    using page_addr_roundtrip [of cfg 7 env 100 "0xffffea0000000000 + 7 * 64" "\<lambda>_. None"]
    unfolding cfg_def [symmetric] env_def [symmetric] by simp
qed

text \<open>\<open>for_each_page_flag\<close>, which tests the flag on the \<^verbatim>\<open>gdb.Value\<close> before it builds a \<open>Page\<close>, yields the
  pages of \<open>for_each_page\<close> that have the flag, in the same order, and skips the same unreadable pages.\<close>

theorem for_each_page_flag_equiv:
  "for_each_page_flag cfg env mem flag =
   gen_bind (for_each_page cfg env mem) (\<lambda>p. if pg_flags p AND flag = 0 then gen_done else gen_of_list [p])"
  unfolding for_each_page_flag_filter by (simp add: page_filter_def [abs_def])

text \<open>Checking a free area whose lists can be walked and whose pages can be read reports nothing exactly
  when every page on the lists carries the node and zone of the area and their number is the expected one.\<close>

theorem check_free_area_reports:
  assumes "\<forall>l \<in> set fls. snd l = None \<and> (\<forall>a \<in> set (fst l). page_decodes cfg env mem a)"
  shows "check_free_area cfg env mem z fls nr = ([], None) \<longleftrightarrow>
    (\<forall>l \<in> set fls. \<forall>a \<in> set (fst l). on_zone cfg env mem z a) \<and>
    nr = int (length (concat (map fst fls)))"
proof -
  obtain rs where "check_free_lists cfg env mem z fls 0 = (rs, int (length (concat (map fst fls))), None)"
    "rs = [] \<longleftrightarrow> (\<forall>l \<in> set fls. \<forall>a \<in> set (fst l). on_zone cfg env mem z a)"
    using check_free_lists_ok [OF assms, of z 0] by auto
  then show ?thesis by (auto simp: check_free_area_def)
qed

definition ex_page_mem :: page_mem where
  "ex_page_mem a = Some \<lparr>pf_flags = 2 ^ 54 * 3 + 2 ^ 52, pf_compound_head = 0, pf_first_page = 0, pf_mapping = 0,
     pf_lru_next = 0, pf_lru_prev = 0, pf_slab_cache = 0, pf_slab_page = 0\<rparr>"

theorem check_free_area_reports_witness:
  "\<not> check_free_area (page_init\<lparr>BITS_PER_LONG := 64, NODES_WIDTH := 10, ZONES_WIDTH := 2\<rparr>)
     \<lparr>page_sizeof = 64, section_mem_map = \<lambda>_ _. Inl GdbMemoryError, max_pfn = 1000\<rparr> ex_page_mem
     \<lparr>zn_address = 0, zn_zid = 1, zn_nid = 3\<rparr> [([64, 128], None)] 3 = ([], None)"
proof -
  define cfg where "cfg = page_init\<lparr>BITS_PER_LONG := 64, NODES_WIDTH := 10, ZONES_WIDTH := 2\<rparr>"
  define env where "env = \<lparr>page_sizeof = 64, section_mem_map = \<lambda>_ _. Inl GdbMemoryError, max_pfn = 1000\<rparr>"
  have "page_decodes cfg env ex_page_mem a" for a
    by (simp add: page_decodes_def from_obj_def Page_new_def ex_page_mem_def get_nid_def get_zid_def
        py_shr_def py_shl_def cfg_def)
  then show ?thesis
    using check_free_area_reports [of "[([64, 128], None)]" cfg env ex_page_mem
        "\<lparr>zn_address = 0, zn_zid = 1, zn_nid = 3\<rparr>" 3]
    by (simp add: cfg_def [symmetric] env_def [symmetric])
qed

text \<open>\<open>get_events\<close> returns for every event the sum of its counters over the online CPUs.\<close>

theorem get_events_total:
  assumes "nr_event_items st = int n"
    and "\<forall>cpu \<in> set (cpus_online cpus). \<forall>i < n.
      percpu_item penv pst var event cpu (int i) = Inr (v cpu i)"
  shows "get_events penv pst cpus st var event =
    Inr (map (\<lambda>i. \<Sum>cpu \<leftarrow> cpus_online cpus. v cpu i) [0..<n])"
  using sum_over_cpus_total [of "replicate n 0" n "cpus_online cpus"
      "percpu_item penv pst var event" v] assms
  by (simp add: get_events_def cong: map_cong)

theorem get_events_total_witness:
  "get_events ex_penv (percpu_init\<lparr>static_ranges := [(4096, 4096)]\<rparr>) \<lparr>cpus_online = [0, 2], cpus_possible = []\<rparr>
     \<lparr>nr_stat_items = 0, nr_event_items = 2, vm_stat_names = [], vm_event_names = []\<rparr>
     (PValue \<lparr>gv_type = ex_int, gv_address = Some 4100, gv_int = 0\<rparr>)
     (\<lambda>x i. case x of PObject a _ \<Rightarrow> Inr (a div 65536 + i) | PVoid a \<Rightarrow> Inr 0) = Inr [4, 6]"
proof -
  define pst where "pst = percpu_init\<lparr>static_ranges := [(4096, 4096)]\<rparr>"
  define ev where "ev = (\<lambda>x i. case x of PObject a _ \<Rightarrow> Inr (a div 65536 + i) | PVoid a \<Rightarrow> (Inr 0 :: int res))"
  have "\<forall>cpu \<in> set [0, 2]. \<forall>i \<in> set [0, 1]. percpu_item ex_penv pst
      (PValue \<lparr>gv_type = ex_int, gv_address = Some 4100, gv_int = 0\<rparr>) ev cpu (int i) = Inr (cpu + 1 + int i)"
    unfolding pst_def ev_def by code_simp
  then have "\<forall>cpu \<in> set [0, 2]. \<forall>i < 2. percpu_item ex_penv pst
      (PValue \<lparr>gv_type = ex_int, gv_address = Some 4100, gv_int = 0\<rparr>) ev cpu (int i) = Inr (cpu + 1 + int i)"
    by (auto dest!: less_2_cases)
  then show ?thesis
    using get_events_total [of "\<lparr>nr_stat_items = 0, nr_event_items = 2, vm_stat_names = [], vm_event_names = []\<rparr>" 2
        "\<lparr>cpus_online = [0, 2], cpus_possible = []\<rparr>" ex_penv pst
        "PValue \<lparr>gv_type = ex_int, gv_address = Some 4100, gv_int = 0\<rparr>" ev "\<lambda>cpu i. cpu + 1 + int i"]
    by (simp add: pst_def ev_def numeral_2_eq_2)
qed

end
