(* ===== verification/Callbacks.thy ===== *)
theory Callbacks
  imports Struct_Layout "HOL-Library.AList"
begin

text \<open>
  The event infrastructure: \<^verbatim>\<open>crash/infra/callback.py\<close> (callbacks that wait for object files and for the
  target), \<^verbatim>\<open>crash/infra/lookup.py\<close> (named callbacks, delayed values, names of types) and
  \<^verbatim>\<open>crash/util/symbols.py\<close> (collections of delayed values).

  A callback object is an identifier; the class variables and the attributes of all objects are one
  record.  What \<open>check_ready\<close> and \<open>callback\<close> of an object do is a parameter of every operation, a function
  \<open>w\<close> from identifiers to outcomes, since it depends on what gdb has loaded at that moment.  Callback
  functions do not register or complete other callbacks.  The log of the calls of \<open>callback\<close>, with whether
  each returned \<open>True\<close> or \<open>None\<close>, is kept for the statements.
\<close>

section \<open>Callbacks\<close>

type_synonym cbid = nat

datatype cb_return = Done | NotDone | CbExc exc
datatype outcome = NotReady | CheckExc exc | Called cb_return

record cb_obj =
  completed :: bool
  connected :: bool
  waiting :: bool

record cb_sys =
  objs :: "cbid \<Rightarrow> cb_obj option"
  waitlist :: "cbid list"
  pending_list :: "cbid list"
  paused :: bool
  handlers :: nat
  calls :: "(cbid \<times> bool) list"

definition cb_init :: cb_sys where
  "cb_init = \<lparr>objs = (\<lambda>_. None), waitlist = [], pending_list = [], paused = False, handlers = 0, calls = []\<rparr>"

definition obj :: "cb_sys \<Rightarrow> cbid \<Rightarrow> cb_obj" where
  "obj s c = (case objs s c of Some ob \<Rightarrow> ob | None \<Rightarrow> \<lparr>completed = False, connected = False, waiting = False\<rparr>)"

definition set_obj :: "cbid \<Rightarrow> cb_obj \<Rightarrow> cb_sys \<Rightarrow> cb_sys" where
  "set_obj c ob s = s\<lparr>objs := (objs s)(c \<mapsto> ob)\<rparr>"

text \<open>
  \<open>__init__\<close>: the assignment to \<open>self._connected_to_objfile_callback\<close> creates an attribute of the object, so the
  class variable the test reads stays \<open>False\<close> and every object connects a handler of its own.
\<close>

definition cb_new :: "cbid \<Rightarrow> bool \<Rightarrow> bool \<Rightarrow> cb_sys \<Rightarrow> cb_sys" where
  "cb_new c wait_for_target target s =
     (set_obj c \<lparr>completed = False, connected = False, waiting = wait_for_target \<and> \<not> target\<rparr> s)
       \<lparr>handlers := handlers s + 1\<rparr>"

definition update_pending :: "cb_sys \<Rightarrow> cb_sys" where
  "update_pending s = s\<lparr>pending_list := filter (\<lambda>c. connected (obj s c)) (pending_list s)\<rparr>"

definition complete :: "bool \<Rightarrow> cbid \<Rightarrow> cb_sys \<Rightarrow> cb_sys \<times> exc option" where
  "complete update_now c s =
     (if completed (obj s c) then (s, Some CallbackCompleted)
      else let s1 = set_obj c ((obj s c)\<lparr>completed := True, connected := False\<rparr>) s
           in (if connected (obj s c) \<and> update_now then update_pending s1 else s1, None))"

definition log_call :: "cbid \<Rightarrow> bool \<Rightarrow> cb_sys \<Rightarrow> cb_sys" where
  "log_call c b s = s\<lparr>calls := calls s @ [(c, b)]\<rparr>"

definition gdb_caught :: "exc \<Rightarrow> exc option" where
  "gdb_caught e = (if catches GdbError e then None else Some e)"

definition evaluate :: "(cbid \<Rightarrow> outcome) \<Rightarrow> bool \<Rightarrow> cbid \<Rightarrow> cb_sys \<Rightarrow> cb_sys \<times> exc option" where
  "evaluate w update_now c s =
     (if waiting (obj s c) then (s, None)
      else (case w c of
          NotReady \<Rightarrow> (s, None)
        | CheckExc e \<Rightarrow> (s, gdb_caught e)
        | Called (CbExc e) \<Rightarrow> (log_call c False s, gdb_caught e)
        | Called NotDone \<Rightarrow> (log_call c False s, None)
        | Called Done \<Rightarrow> complete update_now c (log_call c True s)))"

definition complete_wait_for_target :: "(cbid \<Rightarrow> outcome) \<Rightarrow> cbid \<Rightarrow> cb_sys \<Rightarrow> cb_sys \<times> exc option" where
  "complete_wait_for_target w c s = evaluate w False c (set_obj c ((obj s c)\<lparr>waiting := False\<rparr>) s)"

text \<open>A \<open>for\<close> loop over callbacks; the first exception leaves it.\<close>

fun for_callbacks :: "(cbid \<Rightarrow> cb_sys \<Rightarrow> cb_sys \<times> exc option) \<Rightarrow> cbid list \<Rightarrow> cb_sys \<Rightarrow> cb_sys \<times> exc option" where
  "for_callbacks f [] s = (s, None)"
| "for_callbacks f (c # cs) s =
     (case f c s of (s', None) \<Rightarrow> for_callbacks f cs s' | (s', Some e) \<Rightarrow> (s', Some e))"

definition target_ready :: "(cbid \<Rightarrow> outcome) \<Rightarrow> cb_sys \<Rightarrow> cb_sys \<times> exc option" where
  "target_ready w s =
     (case for_callbacks (complete_wait_for_target w) (waitlist s) s of
        (s', Some e) \<Rightarrow> (s', Some e)
      | (s', None) \<Rightarrow> (update_pending (s'\<lparr>waitlist := []\<rparr>), None))"

definition evaluate_all :: "(cbid \<Rightarrow> outcome) \<Rightarrow> cb_sys \<Rightarrow> cb_sys \<times> exc option" where
  "evaluate_all w s =
     (if paused s then (s, None)
      else (case for_callbacks (evaluate w False) (pending_list s) s of
          (s', Some e) \<Rightarrow> (s', Some e)
        | (s', None) \<Rightarrow> (update_pending s', None)))"

definition pause :: "cb_sys \<Rightarrow> cb_sys" where
  "pause s = s\<lparr>paused := True\<rparr>"

definition unpause :: "(cbid \<Rightarrow> outcome) \<Rightarrow> cb_sys \<Rightarrow> cb_sys \<times> exc option" where
  "unpause w s = evaluate_all w (s\<lparr>paused := False\<rparr>)"

text \<open>A \<open>new_objfile\<close> event runs the handler of every object.  gdb prints an exception that leaves a handler
  and goes on with the next one; the printed exceptions are the second result of \<open>run_handlers\<close>.\<close>

fun run_handlers :: "(cbid \<Rightarrow> outcome) \<Rightarrow> nat \<Rightarrow> cb_sys \<Rightarrow> cb_sys \<times> exc list" where
  "run_handlers w 0 s = (s, [])"
| "run_handlers w (Suc n) s =
     (let (s1, e) = evaluate_all w s; (s2, es) = run_handlers w n s1
      in (s2, (case e of None \<Rightarrow> es | Some x \<Rightarrow> x # es)))"

definition new_objfile :: "(cbid \<Rightarrow> outcome) \<Rightarrow> cb_sys \<Rightarrow> cb_sys \<times> exc option" where
  "new_objfile w s = (fst (run_handlers w (handlers s) s), None)"

definition connect_callback :: "(cbid \<Rightarrow> outcome) \<Rightarrow> bool \<Rightarrow> cbid \<Rightarrow> cb_sys \<Rightarrow> cb_sys \<times> exc option" where
  "connect_callback w objfiles c s =
     (if completed (obj s c) then (s, Some CallbackCompleted)
      else if connected (obj s c) then (s, None)
      else case (if waiting (obj s c) then (s\<lparr>waitlist := waitlist s @ [c]\<rparr>, None)
                 else if objfiles then evaluate w True c s else (s, None)) of
          (s', Some e) \<Rightarrow> (s', Some e)
        | (s', None) \<Rightarrow>
            if completed (obj s' c) then (s', None)
            else ((set_obj c ((obj s' c)\<lparr>connected := True\<rparr>) s')
                    \<lparr>pending_list := pending_list s' @ [c]\<rparr>, None))"

section \<open>The transition system\<close>

text \<open>A configuration is the list of the exceptions that operations have raised so far and the state.
  Every operation is a transition, whether it returns or raises; \<open>raised\<close> is the exception, if any, as a list.\<close>

definition raised :: "exc option \<Rightarrow> exc list" where
  "raised e = (case e of None \<Rightarrow> [] | Some x \<Rightarrow> [x])"

type_synonym cb_config = "exc list \<times> cb_sys"

inductive cb_step :: "cb_config \<Rightarrow> cb_config \<Rightarrow> bool" where
  New: "objs s c = None \<Longrightarrow> cb_step (es, s) (es, cb_new c wt tgt s)"
| Connect: "objs s c \<noteq> None \<Longrightarrow> connect_callback w objf c s = (s', e) \<Longrightarrow> cb_step (es, s) (es @ raised e, s')"
| TargetReady: "target_ready w s = (s', e) \<Longrightarrow> cb_step (es, s) (es @ raised e, s')"
| EvaluateAll: "evaluate_all w s = (s', e) \<Longrightarrow> cb_step (es, s) (es @ raised e, s')"
| Pause: "cb_step (es, s) (es, pause s)"
| Unpause: "unpause w s = (s', e) \<Longrightarrow> cb_step (es, s) (es @ raised e, s')"
| Complete: "objs s c \<noteq> None \<Longrightarrow> complete True c s = (s', e) \<Longrightarrow> cb_step (es, s) (es @ raised e, s')"
| NewObjfile: "run_handlers w (handlers s) s = (s', es') \<Longrightarrow> cb_step (es, s) (es @ es', s')"

definition cb_reached :: "exc list \<Rightarrow> cb_sys \<Rightarrow> bool" where
  "cb_reached es s \<longleftrightarrow> cb_step\<^sup>*\<^sup>* ([], cb_init) (es, s)"

text \<open>The states that are reached without an exception.\<close>

definition cb_reachable :: "cb_sys \<Rightarrow> bool" where
  "cb_reachable s \<longleftrightarrow> cb_reached [] s"

definition done_calls :: "cb_sys \<Rightarrow> cbid \<Rightarrow> nat" where
  "done_calls s c = length (filter (\<lambda>x. x = (c, True)) (calls s))"

text \<open>The part of the invariant that every single evaluation keeps, also in the middle of a loop.\<close>

definition cb_core :: "cb_sys \<Rightarrow> bool" where
  "cb_core s \<longleftrightarrow>
     distinct (pending_list s) \<and> distinct (waitlist s) \<and>
     (\<forall>c. objs s c = None \<longrightarrow> c \<notin> set (pending_list s) \<and> c \<notin> set (waitlist s) \<and> done_calls s c = 0) \<and>
     (\<forall>c. connected (obj s c) \<longrightarrow> c \<in> set (pending_list s) \<and> \<not> completed (obj s c)) \<and>
     (\<forall>c. done_calls s c \<le> 1) \<and> (\<forall>c. \<not> completed (obj s c) \<longrightarrow> done_calls s c = 0)"

text \<open>Between operations: the pending list holds the connected callbacks, and the wait list those of them
  that wait for the target.\<close>

definition cb_inv :: "cb_sys \<Rightarrow> bool" where
  "cb_inv s \<longleftrightarrow> cb_core s \<and>
     (\<forall>c \<in> set (pending_list s). connected (obj s c)) \<and>
     (\<forall>c. connected (obj s c) \<and> waiting (obj s c) \<longrightarrow> c \<in> set (waitlist s)) \<and>
     (\<forall>c. waiting (obj s c) \<longrightarrow> done_calls s c = 0)"

section \<open>The invariant is kept\<close>

text \<open>What every single evaluation keeps, also in the middle of a loop.\<close>

definition cb_mid :: "cb_sys \<Rightarrow> bool" where
  "cb_mid s \<longleftrightarrow> cb_core s \<and>
     (\<forall>c. connected (obj s c) \<and> waiting (obj s c) \<longrightarrow> c \<in> set (waitlist s)) \<and>
     (\<forall>c \<in> set (waitlist s). connected (obj s c) \<or> completed (obj s c)) \<and>
     (\<forall>c. waiting (obj s c) \<longrightarrow> done_calls s c = 0)"

lemma obj_set_obj: "obj (set_obj c ob s) d = (if d = c then ob else obj s d)"
  by (simp add: obj_def set_obj_def)

lemma sys_sel [simp]:
  "objs (set_obj c ob s) = (objs s)(c \<mapsto> ob)" "waitlist (set_obj c ob s) = waitlist s"
  "pending_list (set_obj c ob s) = pending_list s" "paused (set_obj c ob s) = paused s"
  "handlers (set_obj c ob s) = handlers s" "calls (set_obj c ob s) = calls s"
  "objs (log_call c b s) = objs s" "waitlist (log_call c b s) = waitlist s"
  "pending_list (log_call c b s) = pending_list s" "paused (log_call c b s) = paused s"
  "handlers (log_call c b s) = handlers s" "calls (log_call c b s) = calls s @ [(c, b)]"
  "obj (log_call c b s) d = obj s d"
  "objs (update_pending s) = objs s" "waitlist (update_pending s) = waitlist s"
  "obj (update_pending s) d = obj s d" "paused (update_pending s) = paused s"
  "pending_list (update_pending s) = filter (\<lambda>c. connected (obj s c)) (pending_list s)"
  "calls (update_pending s) = calls s" "handlers (update_pending s) = handlers s"
  "obj (s\<lparr>waitlist := wl\<rparr>) d = obj s d" "obj (s\<lparr>paused := b\<rparr>) d = obj s d"
  "obj (s\<lparr>pending_list := pl\<rparr>) d = obj s d" "obj (s\<lparr>handlers := n\<rparr>) d = obj s d"
  by (simp_all add: set_obj_def log_call_def update_pending_def obj_def)

lemma done_calls_simps [simp]:
  "done_calls (set_obj c ob s) d = done_calls s d"
  "done_calls (update_pending s) d = done_calls s d"
  "done_calls (log_call c b s) d = done_calls s d + (if d = c \<and> b then 1 else 0)"
  "done_calls (s\<lparr>waitlist := wl\<rparr>) d = done_calls s d" "done_calls (s\<lparr>paused := p\<rparr>) d = done_calls s d"
  "done_calls (s\<lparr>pending_list := pl\<rparr>) d = done_calls s d" "done_calls (s\<lparr>handlers := n\<rparr>) d = done_calls s d"
  by (auto simp: done_calls_def)

lemma obj_None: "objs s c = None \<Longrightarrow> \<not> connected (obj s c) \<and> \<not> completed (obj s c) \<and> \<not> waiting (obj s c)"
  by (simp add: obj_def)

lemma evaluate_cases:
  assumes "evaluate w u c s = (s', None)"
  obtains "s' = s" | "s' = log_call c False s"
  | "\<not> waiting (obj s c)" "\<not> completed (obj s c)" "complete u c (log_call c True s) = (s', None)"
  using assms by (auto simp: evaluate_def complete_def Let_def split: if_splits outcome.splits cb_return.splits)

lemma cb_mid_log: "cb_mid s \<Longrightarrow> objs s c \<noteq> None \<Longrightarrow> cb_mid (log_call c False s)"
  by (auto simp: cb_mid_def cb_core_def)

lemma cb_mid_update: "cb_mid s \<Longrightarrow> cb_mid (update_pending s)"
  by (auto simp: cb_mid_def cb_core_def)

lemma cb_mid_complete:
  assumes "cb_mid s" and "objs s c \<noteq> None" and "complete u c s = (s', None)"
  shows "cb_mid s'"
proof -
  let ?s = "set_obj c ((obj s c)\<lparr>completed := True, connected := False\<rparr>) s"
  have "cb_mid ?s"
    using assms(1, 2, 3) by (auto simp: cb_mid_def cb_core_def obj_set_obj complete_def split: if_splits)
  then show ?thesis using assms(3) cb_mid_update by (auto simp: complete_def Let_def split: if_splits)
qed

lemma cb_mid_complete_log:
  assumes "cb_mid s" and "objs s c \<noteq> None" and "\<not> waiting (obj s c)" and "\<not> completed (obj s c)"
    and "complete u c (log_call c True s) = (s', None)"
  shows "cb_mid s'"
proof -
  let ?s = "set_obj c ((obj s c)\<lparr>completed := True, connected := False\<rparr>) (log_call c True s)"
  have "done_calls s c = 0" using assms(1, 4) by (auto simp: cb_mid_def cb_core_def)
  then have "cb_mid ?s"
    using assms(1-4) by (auto simp: cb_mid_def cb_core_def obj_set_obj)
  then show ?thesis using assms(5) cb_mid_update by (auto simp: complete_def Let_def split: if_splits)
qed

lemma complete_dom: "complete u c s = (s', None) \<Longrightarrow> objs s c \<noteq> None \<Longrightarrow> dom (objs s') = dom (objs s)"
  by (auto simp: complete_def Let_def split: if_splits)

lemma cb_mid_evaluate:
  assumes "cb_mid s" and "objs s c \<noteq> None" and "evaluate w u c s = (s', None)"
  shows "cb_mid s' \<and> dom (objs s') = dom (objs s)"
  using assms(3)
proof (cases rule: evaluate_cases)
  case 3
  then show ?thesis
    using cb_mid_complete_log [OF assms(1, 2) 3] complete_dom [OF 3(3)] assms(2) by simp
qed (use assms cb_mid_log in auto)

lemma cb_mid_not_waiting: "cb_mid s \<Longrightarrow> objs s c \<noteq> None \<Longrightarrow> cb_mid (set_obj c ((obj s c)\<lparr>waiting := False\<rparr>) s)"
  by (auto simp: cb_mid_def cb_core_def obj_set_obj)

lemma cb_mid_complete_wait:
  assumes "cb_mid s" and "objs s c \<noteq> None" and "complete_wait_for_target w c s = (s', None)"
  shows "cb_mid s' \<and> dom (objs s') = dom (objs s)"
proof -
  have "dom (objs (set_obj c ((obj s c)\<lparr>waiting := False\<rparr>) s)) = dom (objs s)"
    using assms(2) by (auto simp: domIff)
  then show ?thesis
    using cb_mid_evaluate [OF cb_mid_not_waiting [OF assms(1, 2)], of c w False s'] assms(3)
    by (auto simp: complete_wait_for_target_def)
qed

lemma for_callbacks_mid:
  assumes "\<And>c s s'. cb_mid s \<Longrightarrow> objs s c \<noteq> None \<Longrightarrow> f c s = (s', None) \<Longrightarrow> cb_mid s' \<and> dom (objs s') = dom (objs s)"
    and "cb_mid s" and "set cs \<subseteq> dom (objs s)" and "for_callbacks f cs s = (s', None)"
  shows "cb_mid s' \<and> dom (objs s') = dom (objs s)"
  using assms(2-)
proof (induction cs arbitrary: s)
  case (Cons c cs)
  then obtain s1 where s1: "f c s = (s1, None)" "for_callbacks f cs s1 = (s', None)"
    by (auto split: prod.splits option.splits)
  have "objs s c \<noteq> None" using Cons.prems(2) by auto
  then have "cb_mid s1" "dom (objs s1) = dom (objs s)"
    using assms(1) [OF Cons.prems(1) _ s1(1)] by blast+
  then show ?case using Cons.IH [of s1] s1(2) Cons.prems(2) by simp
qed simp

text \<open>After \<open>target_ready\<close> no callback of the wait list waits any more.\<close>

lemma evaluate_waiting: "evaluate w u c s = (s', None) \<Longrightarrow> waiting (obj s' d) = waiting (obj s d) \<and> waitlist s' = waitlist s"
  by (erule evaluate_cases) (auto simp: complete_def Let_def obj_set_obj split: if_splits)

lemma for_complete_wait_waiting:
  "for_callbacks (complete_wait_for_target w) cs s = (s', None) \<Longrightarrow>
   waitlist s' = waitlist s \<and> (waiting (obj s' d) \<longleftrightarrow> waiting (obj s d) \<and> d \<notin> set cs)"
proof (induction cs arbitrary: s)
  case (Cons c cs)
  then obtain s1 where s1: "complete_wait_for_target w c s = (s1, None)"
    "for_callbacks (complete_wait_for_target w) cs s1 = (s', None)"
    by (auto split: prod.splits option.splits)
  have "waitlist s1 = waitlist s \<and> (waiting (obj s1 d) \<longleftrightarrow> waiting (obj s d) \<and> d \<noteq> c)"
    using s1(1) evaluate_waiting [of w False c _ s1 d]
    by (auto simp: complete_wait_for_target_def obj_set_obj)
  then show ?case using Cons.IH [OF s1(2)] by auto
qed simp

definition cb_good :: "cb_sys \<Rightarrow> bool" where
  "cb_good s \<longleftrightarrow> cb_mid s \<and> (\<forall>c \<in> set (pending_list s). connected (obj s c))"

lemma cb_good_inv: "cb_good s \<Longrightarrow> cb_inv s"
  by (auto simp: cb_good_def cb_mid_def cb_inv_def)

lemma cb_mid_dom: "cb_mid s \<Longrightarrow> set (pending_list s) \<subseteq> dom (objs s) \<and> set (waitlist s) \<subseteq> dom (objs s)"
  by (auto simp: cb_mid_def cb_core_def)

lemma cb_good_update: "cb_mid s \<Longrightarrow> cb_good (update_pending s)"
  using cb_mid_update by (auto simp: cb_good_def)

lemma cb_good_evaluate_all:
  assumes "cb_good s" and "evaluate_all w s = (s', None)"
  shows "cb_good s'"
proof (cases "paused s")
  case False
  then obtain s1 where s1: "for_callbacks (evaluate w False) (pending_list s) s = (s1, None)"
    "s' = update_pending s1"
    using assms(2) by (auto simp: evaluate_all_def split: prod.splits option.splits)
  have "cb_mid s" using assms(1) by (simp add: cb_good_def)
  then have "cb_mid s1"
    using for_callbacks_mid [of "evaluate w False", OF _ _ _ s1(1)] cb_mid_dom cb_mid_evaluate by metis
  then show ?thesis using s1(2) cb_good_update by simp
qed (use assms in \<open>simp add: evaluate_all_def\<close>)

lemma cb_good_target_ready:
  assumes "cb_good s" and "target_ready w s = (s', None)"
  shows "cb_good s'"
proof -
  obtain s1 where s1: "for_callbacks (complete_wait_for_target w) (waitlist s) s = (s1, None)"
    "s' = update_pending (s1\<lparr>waitlist := []\<rparr>)"
    using assms(2) by (auto simp: target_ready_def split: prod.splits option.splits)
  have mid: "cb_mid s" using assms(1) by (simp add: cb_good_def)
  then have "cb_mid s1"
    using for_callbacks_mid [of "complete_wait_for_target w", OF _ _ _ s1(1)] cb_mid_dom cb_mid_complete_wait
    by metis
  moreover have "\<not> (connected (obj s1 d) \<and> waiting (obj s1 d))" for d
    using for_complete_wait_waiting [OF s1(1), of d] \<open>cb_mid s1\<close> by (auto simp: cb_mid_def)
  ultimately have "cb_mid (s1\<lparr>waitlist := []\<rparr>)" by (auto simp: cb_mid_def cb_core_def)
  then show ?thesis using s1(2) cb_good_update by simp
qed

lemma cb_good_new:
  assumes "cb_good s" and "objs s c = None"
  shows "cb_good (cb_new c wt tgt s)"
  using assms by (auto simp: cb_good_def cb_mid_def cb_core_def cb_new_def obj_set_obj)

lemma evaluate_unconnected:
  assumes "evaluate w u c s = (s', None)" and "\<not> connected (obj s c)"
  shows "pending_list s' = pending_list s \<and> (\<forall>d. connected (obj s' d) = connected (obj s d))"
  using assms(1)
proof (cases rule: evaluate_cases)
  case 3
  then show ?thesis using assms(2) by (auto simp: complete_def Let_def obj_set_obj split: if_splits)
qed simp_all

text \<open>Connecting: before the last assignment the state is as after an evaluation, or the callback is on the
  wait list.\<close>

lemma cb_good_connect:
  assumes "cb_good s" and "objs s c \<noteq> None" and "connect_callback w objf c s = (s', None)"
  shows "cb_good s'"
proof -
  have mid: "cb_mid s" and pend: "\<forall>d \<in> set (pending_list s). connected (obj s d)"
    using assms(1) by (auto simp: cb_good_def)
  show ?thesis
  proof (cases "completed (obj s c) \<or> connected (obj s c)")
    case True
    then show ?thesis using assms by (auto simp: connect_callback_def split: if_splits)
  next
    case new: False
    then have notin: "c \<notin> set (pending_list s)" "c \<notin> set (waitlist s)"
      using pend mid by (auto simp: cb_mid_def)
    let ?con = "\<lambda>t. (set_obj c ((obj t c)\<lparr>connected := True\<rparr>) t)\<lparr>pending_list := pending_list t @ [c]\<rparr>"
    show ?thesis
    proof (cases "waiting (obj s c)")
      case True
      then have "s' = ?con (s\<lparr>waitlist := waitlist s @ [c]\<rparr>)"
        using assms(3) new by (simp add: connect_callback_def)
      then show ?thesis
        using mid pend new notin assms(2) True
        by (auto simp: cb_good_def cb_mid_def cb_core_def obj_set_obj)
    next
      case False
      obtain t e where te: "(if objf then evaluate w True c s else (s, None)) = (t, e)" by fastforce
      then have e: "e = None" and s': "s' = (if completed (obj t c) then t else ?con t)"
        using assms(3) new False by (auto simp: connect_callback_def split: if_splits option.splits)
      have t: "t = s \<or> evaluate w True c s = (t, None)"
        "s' = (if completed (obj t c) then t else ?con t)"
        using te e s' by (auto split: if_splits)
      then have t_mid: "cb_mid t" "objs t c \<noteq> None" "pending_list t = pending_list s"
        "\<forall>d. connected (obj t d) = connected (obj s d)" "\<forall>d. waiting (obj t d) = waiting (obj s d)"
        using mid assms(2) cb_mid_evaluate [OF mid assms(2), of w True t] evaluate_unconnected [of w True c s t]
          evaluate_waiting [of w True c s t] new domIff [of c "objs t"] domIff [of c "objs s"] by auto
      then show ?thesis
        using t(2) pend new notin False
        by (auto simp: cb_good_def cb_mid_def cb_core_def obj_set_obj)
    qed
  qed
qed

lemma cb_good_complete:
  assumes "cb_good s" and "objs s c \<noteq> None" and "complete True c s = (s', None)"
  shows "cb_good s'"
proof -
  have "cb_mid s'" using assms(1) cb_mid_complete [OF _ assms(2, 3)] by (simp add: cb_good_def)
  moreover have "\<forall>d \<in> set (pending_list s'). connected (obj s' d)"
    using assms by (auto simp: complete_def Let_def cb_good_def obj_set_obj split: if_splits)
  ultimately show ?thesis by (simp add: cb_good_def)
qed

lemma cb_good_paused: "cb_good s \<Longrightarrow> cb_good (s\<lparr>paused := b\<rparr>)"
  by (simp add: cb_good_def cb_mid_def cb_core_def)

lemma cb_good_run_handlers:
  "run_handlers w n s = (s', []) \<Longrightarrow> cb_good s \<Longrightarrow> cb_good s'"
  by (induction n arbitrary: s) (auto split: prod.splits option.splits dest: cb_good_evaluate_all)

section \<open>The invariant that exceptions leave\<close>

text \<open>After an exception the pending list may hold completed callbacks, and one of them may succeed again,
  which raises \<^verbatim>\<open>CallbackCompleted\<close>: \<open>k\<close> bounds how often that has happened.\<close>

definition cb_any :: "nat \<Rightarrow> cb_sys \<Rightarrow> bool" where
  "cb_any k s \<longleftrightarrow>
     distinct (pending_list s) \<and> distinct (waitlist s) \<and>
     (\<forall>c. objs s c = None \<longrightarrow> c \<notin> set (pending_list s) \<and> c \<notin> set (waitlist s) \<and> c \<notin> fst ` set (calls s)) \<and>
     (\<forall>c. connected (obj s c) \<longrightarrow> c \<in> set (pending_list s) \<and> \<not> completed (obj s c)) \<and>
     (\<forall>c \<in> set (pending_list s). connected (obj s c) \<or> completed (obj s c)) \<and>
     (\<forall>c \<in> set (waitlist s). connected (obj s c) \<or> completed (obj s c)) \<and>
     (\<forall>c. connected (obj s c) \<and> waiting (obj s c) \<longrightarrow> c \<in> set (waitlist s)) \<and>
     (\<forall>c. waiting (obj s c) \<longrightarrow> c \<notin> fst ` set (calls s)) \<and>
     (\<forall>c. \<not> completed (obj s c) \<longrightarrow> done_calls s c = 0) \<and> (\<forall>c. done_calls s c \<le> 1 + k)"

definition again :: "exc option \<Rightarrow> nat" where
  "again e = (if e = Some CallbackCompleted then 1 else 0)"

lemma again_raised: "count_list (es @ raised e) CallbackCompleted = count_list es CallbackCompleted + again e"
  by (auto simp: again_def raised_def split: option.splits)

lemma cb_any_mono: "cb_any k s \<Longrightarrow> k \<le> k' \<Longrightarrow> cb_any k' s"
  by (auto simp: cb_any_def intro: order_trans)

lemma cb_any_log: "cb_any k s \<Longrightarrow> objs s c \<noteq> None \<Longrightarrow> \<not> waiting (obj s c) \<Longrightarrow> cb_any k (log_call c False s)"
  by (auto simp: cb_any_def)

lemma cb_any_log_again:
  assumes "cb_any k s" and "objs s c \<noteq> None" and "\<not> waiting (obj s c)" and "completed (obj s c)"
  shows "cb_any (k + 1) (log_call c True s)"
  using assms by (auto simp: cb_any_def intro: le_SucI)

lemma cb_any_update: "cb_any k s \<Longrightarrow> cb_any k (update_pending s)"
  by (auto simp: cb_any_def)

lemma cb_any_complete:
  assumes "cb_any k s" and "objs s c \<noteq> None" and "complete u c s = (s', e)"
  shows "cb_any k s'"
proof (cases "completed (obj s c)")
  case False
  let ?s = "set_obj c ((obj s c)\<lparr>completed := True, connected := False\<rparr>) s"
  have "cb_any k ?s" using assms(1, 2) by (auto simp: cb_any_def obj_set_obj)
  then show ?thesis using assms(3) False cb_any_update by (auto simp: complete_def Let_def split: if_splits)
qed (use assms in \<open>simp add: complete_def\<close>)

lemma cb_any_complete_log:
  assumes "cb_any k s" and "objs s c \<noteq> None" and "\<not> waiting (obj s c)"
    and "complete u c (log_call c True s) = (s', e)"
  shows "cb_any (k + again e) s'"
proof (cases "completed (obj s c)")
  case True
  then show ?thesis using assms(4) cb_any_log_again [OF assms(1-3)] by (simp add: complete_def again_def)
next
  case False
  let ?s = "set_obj c ((obj s c)\<lparr>completed := True, connected := False\<rparr>) (log_call c True s)"
  have "done_calls s c = 0" using assms(1) False by (auto simp: cb_any_def)
  then have "cb_any k ?s" using assms(1-3) by (auto simp: cb_any_def obj_set_obj)
  then show ?thesis
    using assms(4) False cb_any_update by (auto simp: complete_def Let_def again_def split: if_splits)
qed

lemma complete_dom_any: "complete u c s = (s', e) \<Longrightarrow> objs s c \<noteq> None \<Longrightarrow> dom (objs s') = dom (objs s)"
  by (auto simp: complete_def Let_def split: if_splits)

lemma cb_any_evaluate:
  assumes "cb_any k s" and "objs s c \<noteq> None" and "evaluate w u c s = (s', e)"
  shows "cb_any (k + again e) s' \<and> dom (objs s') = dom (objs s)"
proof (cases "waiting (obj s c) \<or> w c \<noteq> Called Done")
  case True
  then have "s' = s \<or> s' = log_call c False s \<and> \<not> waiting (obj s c)"
    using assms(3) by (auto simp: evaluate_def split: if_splits outcome.splits cb_return.splits)
  then show ?thesis using cb_any_log [OF assms(1, 2)] assms(1) cb_any_mono [of k _ "k + again e"] by auto
next
  case False
  then have fin: "complete u c (log_call c True s) = (s', e)" "\<not> waiting (obj s c)"
    using assms(3) by (auto simp: evaluate_def)
  show ?thesis
    using cb_any_complete_log [OF assms(1, 2) fin(2, 1)] complete_dom_any [OF fin(1)] assms(2) by simp
qed

lemma cb_any_not_waiting: "cb_any k s \<Longrightarrow> objs s c \<noteq> None \<Longrightarrow> cb_any k (set_obj c ((obj s c)\<lparr>waiting := False\<rparr>) s)"
  by (auto simp: cb_any_def obj_set_obj)

lemma cb_any_complete_wait:
  assumes "cb_any k s" and "objs s c \<noteq> None" and "complete_wait_for_target w c s = (s', e)"
  shows "cb_any (k + again e) s' \<and> dom (objs s') = dom (objs s)"
proof -
  have "dom (objs (set_obj c ((obj s c)\<lparr>waiting := False\<rparr>) s)) = dom (objs s)"
    using assms(2) by (auto simp: domIff)
  then show ?thesis
    using cb_any_evaluate [OF cb_any_not_waiting [OF assms(1, 2)], of c w False s'] assms(3)
    by (auto simp: complete_wait_for_target_def)
qed

lemma for_callbacks_any:
  assumes "\<And>k c s s' e. cb_any k s \<Longrightarrow> objs s c \<noteq> None \<Longrightarrow> f c s = (s', e) \<Longrightarrow>
      cb_any (k + again e) s' \<and> dom (objs s') = dom (objs s)"
    and "cb_any k s" and "set cs \<subseteq> dom (objs s)" and "for_callbacks f cs s = (s', e)"
  shows "cb_any (k + again e) s' \<and> dom (objs s') = dom (objs s)"
  using assms(2-)
proof (induction cs arbitrary: s)
  case (Cons c cs)
  obtain s1 e1 where s1: "f c s = (s1, e1)" by fastforce
  have "objs s c \<noteq> None" using Cons.prems(2) by auto
  then have ok: "cb_any (k + again e1) s1" "dom (objs s1) = dom (objs s)"
    using assms(1) [OF Cons.prems(1) _ s1] by blast+
  show ?case
  proof (cases e1)
    case None
    then show ?thesis using Cons.IH [of s1] ok s1 Cons.prems(2, 3) by (simp add: again_def)
  qed (use ok s1 Cons.prems(3) in auto)
qed (simp add: again_def)

lemma cb_any_dom: "cb_any k s \<Longrightarrow> set (pending_list s) \<subseteq> dom (objs s) \<and> set (waitlist s) \<subseteq> dom (objs s)"
  by (auto simp: cb_any_def)

lemma cb_any_evaluate_all:
  assumes "cb_any k s" and "evaluate_all w s = (s', e)"
  shows "cb_any (k + again e) s'"
proof (cases "paused s")
  case False
  obtain s1 e1 where s1: "for_callbacks (evaluate w False) (pending_list s) s = (s1, e1)" by fastforce
  have "cb_any (k + again e1) s1"
    using for_callbacks_any [of "evaluate w False", OF _ assms(1) _ s1] cb_any_dom [OF assms(1)] cb_any_evaluate
    by blast
  then show ?thesis
    using assms(2) s1 False cb_any_update by (auto simp: evaluate_all_def split: option.splits)
qed (use assms in \<open>simp add: evaluate_all_def again_def\<close>)

lemma cb_any_target_ready:
  assumes "cb_any k s" and "target_ready w s = (s', e)"
  shows "cb_any (k + again e) s'"
proof -
  obtain s1 e1 where s1: "for_callbacks (complete_wait_for_target w) (waitlist s) s = (s1, e1)" by fastforce
  have any: "cb_any (k + again e1) s1"
    using for_callbacks_any [of "complete_wait_for_target w", OF _ assms(1) _ s1] cb_any_dom [OF assms(1)]
      cb_any_complete_wait by blast
  show ?thesis
  proof (cases e1)
    case None
    then have "\<not> (connected (obj s1 d) \<and> waiting (obj s1 d))" for d
      using for_complete_wait_waiting [of w "waitlist s" s s1 d] s1 any by (auto simp: cb_any_def)
    then have "cb_any (k + again e1) (s1\<lparr>waitlist := []\<rparr>)" using any by (auto simp: cb_any_def)
    then show ?thesis using assms(2) s1 None by (auto simp: target_ready_def dest: cb_any_update)
  qed (use any s1 assms(2) in \<open>auto simp: target_ready_def\<close>)
qed

lemma cb_any_run_handlers:
  "run_handlers w n s = (s', es) \<Longrightarrow> cb_any k s \<Longrightarrow> cb_any (k + count_list es CallbackCompleted) s'"
proof (induction n arbitrary: s k es)
  case (Suc n)
  obtain s1 e where s1: "evaluate_all w s = (s1, e)" by fastforce
  obtain es1 where es1: "run_handlers w n s1 = (s', es1)" "es = raised e @ es1"
    using Suc.prems(1) s1 by (auto simp: raised_def split: prod.splits option.splits)
  have "count_list es CallbackCompleted = again e + count_list es1 CallbackCompleted"
    using es1(2) by (auto simp: again_def raised_def split: option.splits)
  then show ?case
    using Suc.IH [OF es1(1) cb_any_evaluate_all [OF Suc.prems(2) s1]] by (simp add: add.assoc)
qed simp

lemma cb_any_new: "cb_any k s \<Longrightarrow> objs s c = None \<Longrightarrow> cb_any k (cb_new c wt tgt s)"
  using obj_None [of s c] by (auto simp: cb_any_def cb_new_def obj_set_obj)

lemma cb_any_paused: "cb_any k s \<Longrightarrow> cb_any k (s\<lparr>paused := b\<rparr>)"
  by (simp add: cb_any_def)

lemma cb_any_connected:
  assumes "cb_any k t" and "objs t c \<noteq> None" and "\<not> completed (obj t c)" and "\<not> connected (obj t c)"
    and "\<not> waiting (obj t c) \<and> wl = waitlist t \<or> wl = waitlist t @ [c]"
  shows "cb_any k ((set_obj c ((obj t c)\<lparr>connected := True\<rparr>) (t\<lparr>waitlist := wl\<rparr>))\<lparr>pending_list := pending_list t @ [c]\<rparr>)"
  using assms by (auto simp: cb_any_def obj_set_obj)

lemma cb_any_connect:
  assumes "cb_any k s" and "objs s c \<noteq> None" and "connect_callback w objf c s = (s', e)"
  shows "cb_any (k + again e) s'"
proof (cases "completed (obj s c) \<or> connected (obj s c)")
  case True
  then have "s' = s" using assms(3) by (auto simp: connect_callback_def split: if_splits)
  then show ?thesis using assms(1) cb_any_mono by simp
next
  case new: False
  show ?thesis
  proof (cases "waiting (obj s c)")
    case True
    then show ?thesis
      using assms(3) new cb_any_connected [OF assms(1, 2), of "waitlist s @ [c]"]
      by (auto simp: connect_callback_def again_def set_obj_def obj_def)
  next
    case False
    obtain t e1 where te: "(if objf then evaluate w True c s else (s, None)) = (t, e1)" by fastforce
    then have any: "cb_any (k + again e1) t" "dom (objs t) = dom (objs s)"
      using cb_any_evaluate [OF assms(1, 2), of w True t e1] assms(1) by (auto simp: again_def split: if_splits)
    have t: "(if objf then evaluate w True c s else (s, None)) = (t, None)" if "e1 = None" using te that by simp
    have same: "connected (obj t c) = connected (obj s c)" "waiting (obj t c) = waiting (obj s c)" if "e1 = None"
      using t [OF that] evaluate_unconnected [of w True c s t] evaluate_waiting [of w True c s t c] new
      by (auto split: if_splits)
    show ?thesis
      using assms(3) new False te any same assms(2) cb_any_connected [of k t c "waitlist t"] domIff [of c "objs t"]
      by (cases e1) (auto simp: connect_callback_def again_def split: if_splits)
  qed
qed

text \<open>Both invariants, for configurations.\<close>

definition cb_config_inv :: "cb_config \<Rightarrow> bool" where
  "cb_config_inv = (\<lambda>(es, s). cb_any (count_list es CallbackCompleted) s \<and> (es = [] \<longrightarrow> cb_good s))"

lemma raised_Nil [simp]: "raised e = [] \<longleftrightarrow> e = None"
  by (simp add: raised_def split: option.splits)

lemma cb_step_any:
  "cb_step (es, s) (es', s') \<Longrightarrow> cb_any (count_list es CallbackCompleted) s \<Longrightarrow>
   cb_any (count_list es' CallbackCompleted) s'"
proof (induction "(es, s)" "(es', s')" rule: cb_step.induct)
  case (Connect c w objf e)
  then show ?case using cb_any_connect by (metis again_raised)
next
  case (Unpause w e)
  then show ?case
    using cb_any_evaluate_all [OF cb_any_paused] by (metis again_raised unpause_def)
next
  case (Complete c e)
  then show ?case using cb_any_complete cb_any_mono by (metis again_raised le_add1)
next
  case (NewObjfile w es2)
  then show ?case using cb_any_run_handlers [of w "handlers s" s s' es2] by auto
qed (auto simp: again_raised pause_def simp del: count_list_append
      intro: cb_any_new cb_any_target_ready cb_any_evaluate_all cb_any_paused)

lemma cb_step_good:
  "cb_step (es, s) (es', s') \<Longrightarrow> es' = [] \<Longrightarrow> cb_good s \<Longrightarrow> es = [] \<and> cb_good s'"
  by (induction "(es, s)" "(es', s')" rule: cb_step.induct)
     (auto simp: pause_def unpause_def intro: cb_good_new cb_good_connect cb_good_target_ready
       cb_good_evaluate_all cb_good_paused cb_good_complete cb_good_run_handlers)

lemma cb_step_clean: "cb_step (es, s) (es', s') \<Longrightarrow> es' = [] \<Longrightarrow> es = []"
  by (induction "(es, s)" "(es', s')" rule: cb_step.induct) auto

interpretation cb: invariant_machine "([], cb_init)" cb_step cb_config_inv
proof
  show "cb_config_inv ([], cb_init)"
    by (simp add: cb_config_inv_def cb_any_def cb_good_def cb_mid_def cb_core_def cb_init_def obj_def done_calls_def)
next
  fix x y
  assume step: "cb_step x y" and inv: "cb_config_inv x"
  obtain es s es' s' where xy: "x = (es, s)" "y = (es', s')" by (cases x; cases y) blast
  have "cb_good s'" if "es' = []"
    using cb_step_clean [of es s es' s'] cb_step_good [of es s es' s'] step inv that
    by (simp add: cb_config_inv_def xy)
  then show "cb_config_inv y"
    using cb_step_any [of es s es' s'] step inv by (simp add: cb_config_inv_def xy)
qed

lemma cb_reached_any: "cb_reached es s \<Longrightarrow> cb_any (count_list es CallbackCompleted) s"
  using cb.inv_reachable [of "(es, s)"] by (simp add: cb_reached_def cb_config_inv_def)

lemma cb_reachable_good: "cb_reachable s \<Longrightarrow> cb_good s"
  using cb.inv_reachable [of "([], s)"] by (simp add: cb_reachable_def cb_reached_def cb_config_inv_def)

lemma cb_reached_step: "cb_reached es s \<Longrightarrow> cb_step (es, s) (es', s') \<Longrightarrow> cb_reached es' s'"
  unfolding cb_reached_def by (rule rtranclp.rtrancl_into_rtrancl)

section \<open>What one pass does\<close>

lemma run_handlers_paused: "paused s \<Longrightarrow> run_handlers w n s = (s, [])"
  by (induction n) (simp_all add: evaluate_all_def)

lemma new_objfile_paused: "paused s \<Longrightarrow> new_objfile w s = (s, None)"
  by (simp add: new_objfile_def run_handlers_paused)

text \<open>The outcomes that do not raise out of \<open>evaluate\<close>.\<close>

fun quiet :: "outcome \<Rightarrow> bool" where
  "quiet (CheckExc e) \<longleftrightarrow> catches GdbError e"
| "quiet (Called (CbExc e)) \<longleftrightarrow> catches GdbError e"
| "quiet _ \<longleftrightarrow> True"

definition call_log :: "(cbid \<Rightarrow> outcome) \<Rightarrow> cb_sys \<Rightarrow> cbid \<Rightarrow> (cbid \<times> bool) list" where
  "call_log w s c = (if waiting (obj s c) then [] else case w c of
       Called r \<Rightarrow> [(c, r = Done)] | _ \<Rightarrow> [])"

definition finishes :: "(cbid \<Rightarrow> outcome) \<Rightarrow> cb_sys \<Rightarrow> cbid \<Rightarrow> bool" where
  "finishes w s c \<longleftrightarrow> \<not> waiting (obj s c) \<and> w c = Called Done"

lemma evaluate_quiet:
  assumes "quiet (w c)" and "\<not> completed (obj s c)"
  shows "\<exists>s'. evaluate w False c s = (s', None) \<and> calls s' = calls s @ call_log w s c \<and>
    pending_list s' = pending_list s \<and> waitlist s' = waitlist s \<and> paused s' = paused s \<and> handlers s' = handlers s \<and>
    (\<forall>d. obj s' d = (if d = c \<and> finishes w s c then (obj s c)\<lparr>completed := True, connected := False\<rparr>
                     else obj s d))"
  using assms
  by (cases "w c" rule: quiet.cases)
     (auto simp: evaluate_def gdb_caught_def call_log_def finishes_def complete_def Let_def obj_set_obj)

lemma for_evaluate_quiet:
  assumes "distinct cs" and "\<forall>c \<in> set cs. quiet (w c) \<and> \<not> completed (obj s c)"
  shows "\<exists>s'. for_callbacks (evaluate w False) cs s = (s', None) \<and>
    calls s' = calls s @ concat (map (call_log w s) cs) \<and>
    pending_list s' = pending_list s \<and> waitlist s' = waitlist s \<and> paused s' = paused s \<and> handlers s' = handlers s \<and>
    (\<forall>d. obj s' d = (if d \<in> set cs \<and> finishes w s d then (obj s d)\<lparr>completed := True, connected := False\<rparr>
                     else obj s d))"
  using assms
proof (induction cs arbitrary: s)
  case (Cons c cs)
  obtain s1 where s1: "evaluate w False c s = (s1, None)" "calls s1 = calls s @ call_log w s c"
    "pending_list s1 = pending_list s" "waitlist s1 = waitlist s" "paused s1 = paused s" "handlers s1 = handlers s"
    "\<forall>d. obj s1 d = (if d = c \<and> finishes w s c then (obj s c)\<lparr>completed := True, connected := False\<rparr> else obj s d)"
    using evaluate_quiet [of w c s] Cons.prems by auto
  have same: "obj s1 d = obj s d" if "d \<in> set cs" for d using s1(7) Cons.prems(1) that by auto
  then have ok: "\<forall>c \<in> set cs. quiet (w c) \<and> \<not> completed (obj s1 c)" using Cons.prems(2) by auto
  have logs: "map (call_log w s1) cs = map (call_log w s) cs" and fin: "\<And>d. d \<in> set cs \<Longrightarrow> finishes w s1 d = finishes w s d"
    using same by (auto simp: call_log_def finishes_def)
  obtain s2 where s2: "for_callbacks (evaluate w False) cs s1 = (s2, None)"
    "calls s2 = calls s1 @ concat (map (call_log w s1) cs)"
    "pending_list s2 = pending_list s1" "waitlist s2 = waitlist s1" "paused s2 = paused s1" "handlers s2 = handlers s1"
    "\<forall>d. obj s2 d = (if d \<in> set cs \<and> finishes w s1 d then (obj s1 d)\<lparr>completed := True, connected := False\<rparr>
        else obj s1 d)"
    using Cons.IH [OF _ ok] Cons.prems(1) by auto
  have "for_callbacks (evaluate w False) (c # cs) s = (s2, None)" using s1(1) s2(1) by simp
  moreover have "\<forall>d. obj s2 d = (if d \<in> set (c # cs) \<and> finishes w s d
      then (obj s d)\<lparr>completed := True, connected := False\<rparr> else obj s d)"
    using s1(7) s2(7) fin same Cons.prems(1) by auto
  ultimately show ?case using s1 s2 logs by auto
qed simp

lemma evaluate_all_quiet:
  assumes "cb_good s" and "\<not> paused s" and "\<forall>c \<in> set (pending_list s). quiet (w c)"
  shows "\<exists>s'. evaluate_all w s = (s', None) \<and>
    pending_list s' = filter (\<lambda>c. \<not> finishes w s c) (pending_list s) \<and>
    calls s' = calls s @ concat (map (call_log w s) (pending_list s)) \<and>
    (\<forall>d. completed (obj s' d) \<longleftrightarrow> completed (obj s d) \<or> d \<in> set (pending_list s) \<and> finishes w s d) \<and>
    (\<forall>d. waiting (obj s' d) = waiting (obj s d)) \<and> paused s' = paused s \<and> handlers s' = handlers s"
proof -
  have live: "\<forall>c \<in> set (pending_list s). connected (obj s c) \<and> \<not> completed (obj s c)" "distinct (pending_list s)"
    using assms(1) by (auto simp: cb_good_def cb_mid_def cb_core_def)
  then obtain s1 where s1: "for_callbacks (evaluate w False) (pending_list s) s = (s1, None)"
    "calls s1 = calls s @ concat (map (call_log w s) (pending_list s))" "pending_list s1 = pending_list s"
    "paused s1 = paused s" "handlers s1 = handlers s"
    "\<forall>d. obj s1 d = (if d \<in> set (pending_list s) \<and> finishes w s d
        then (obj s d)\<lparr>completed := True, connected := False\<rparr> else obj s d)"
    using for_evaluate_quiet [of "pending_list s" w s] assms(3) by auto
  have "filter (\<lambda>c. connected (obj s1 c)) (pending_list s) = filter (\<lambda>c. \<not> finishes w s c) (pending_list s)"
    using live(1) s1(6) by (intro filter_cong) auto
  then show ?thesis using s1 assms(2) by (auto simp: evaluate_all_def)
qed

section \<open>Names and delayed values\<close>

text \<open>\<open>TypeCallback.resolve_type\<close>: the base name, the attribute name and whether it is a pointer.\<close>

definition struct_prefix :: string where
  "struct_prefix = ''struct ''"

definition resolve_type_name :: "string \<Rightarrow> (string \<times> string \<times> bool) res" where
  "resolve_type_name name0 =
     (let name = py_strip name0 in
      if name = [] then Inl IndexError
      else let ptr = (last name = CHR ''*'');
               base = (if ptr then py_strip (butlast name) else name);
               attr = (if take 7 base = struct_prefix then py_strip (drop 7 base) else base) @
                      (if ptr then ''_p_type'' else ''_type'')
           in Inr (base, map (\<lambda>c. if c = CHR '' '' then CHR ''_'' else c) attr, ptr))"

text \<open>
  A collection: \<open>co_attrs\<close> maps names to the delayed values, which are identified by numbers, \<open>co_vals\<close>
  holds their contents, and \<open>co_cached\<close> the attributes that \<open>get\<close> sets on the collection itself, which
  shadow \<open>__getattr__\<close>.
\<close>

record 'v collection =
  co_attrs :: "(string \<times> nat) list"
  co_vals :: "nat \<Rightarrow> 'v option"
  co_cached :: "string \<Rightarrow> 'v option"

text \<open>\<open>DelayedCollection.__init__\<close> over pairs of name and attribute name.\<close>

fun coll_add :: "(string \<times> string) list \<Rightarrow> nat \<Rightarrow> (string \<times> nat) list \<Rightarrow> (string \<times> nat) list" where
  "coll_add [] k m = m"
| "coll_add ((name, attrname) # ns) k m = coll_add ns (Suc k) (AList.update name k (AList.update attrname k m))"

definition coll_new :: "(string \<times> string) list \<Rightarrow> 'v collection" where
  "coll_new names = \<lparr>co_attrs = coll_add names 0 [], co_vals = (\<lambda>_. None), co_cached = (\<lambda>_. None)\<rparr>"

definition types_new :: "string list \<Rightarrow> 'v collection res" where
  "types_new names = bindR (mapR (\<lambda>n. bindR (resolve_type_name n) (\<lambda>(b, a, p). Inr (b, a))) names) (\<lambda>ns.
     Inr (coll_new ns))"

definition coll_get :: "string \<Rightarrow> 'v collection \<Rightarrow> 'v res \<times> 'v collection" where
  "coll_get name c = (case map_of (co_attrs c) name of
       None \<Rightarrow> (Inl NameError, c)
     | Some k \<Rightarrow> (case co_vals c k of
           None \<Rightarrow> (Inl DelayedAttributeError, c)
         | Some v \<Rightarrow> (Inr v, c\<lparr>co_cached := (co_cached c)(name \<mapsto> v)\<rparr>)))"

definition coll_override :: "string \<Rightarrow> 'v \<Rightarrow> 'v collection \<Rightarrow> 'v collection res" where
  "coll_override name v c = bindR (of_option RuntimeError (map_of (co_attrs c) name)) (\<lambda>k.
     Inr (c\<lparr>co_vals := (co_vals c)(k \<mapsto> v)\<rparr>))"

definition types_override :: "string \<Rightarrow> 'v \<Rightarrow> 'v collection \<Rightarrow> 'v collection res" where
  "types_override name v c = bindR (resolve_type_name name) (\<lambda>(b, a, p).
     bindR (coll_override b v c) (coll_override a v))"

definition coll_getitem :: "string \<Rightarrow> 'v collection \<Rightarrow> 'v res \<times> 'v collection" where
  "coll_getitem name c = (let (r, c') = coll_get name c in
     (case r of Inl e \<Rightarrow> if catches NameError e then Inl KeyError else Inl e | Inr v \<Rightarrow> Inr v, c'))"

text \<open>\<open>__getattr__\<close> is only called for names that are not attributes of the object.\<close>

definition coll_getattr :: "string \<Rightarrow> 'v collection \<Rightarrow> 'v res \<times> 'v collection" where
  "coll_getattr name c = (case co_cached c name of
       Some v \<Rightarrow> (Inr v, c)
     | None \<Rightarrow> (let (r, c') = coll_get name c in
         (case r of Inl e \<Rightarrow> if catches NameError e then Inl AttributeError else Inl e | Inr v \<Rightarrow> Inr v, c')))"

text \<open>\<open>DelayedValue.callback\<close> keeps the first value; \<open>DelayedType.callback\<close> and \<open>DelayedSymval.callback\<close>
  always store theirs.\<close>

definition delayed_callback :: "nat \<Rightarrow> 'v \<Rightarrow> 'v collection \<Rightarrow> 'v collection" where
  "delayed_callback k v c = (if co_vals c k = None then c\<lparr>co_vals := (co_vals c)(k \<mapsto> v)\<rparr> else c)"

definition delayed_type_callback :: "bool \<Rightarrow> nat \<Rightarrow> gtype \<Rightarrow> gtype collection \<Rightarrow> gtype collection" where
  "delayed_type_callback ptr k t c =
     c\<lparr>co_vals := (co_vals c)(k \<mapsto> (if ptr then gt_pointer t else t))\<rparr>"

lemma py_strip_id: "s = [] \<or> \<not> is_space (hd s) \<and> \<not> is_space (last s) \<Longrightarrow> py_strip s = s"
  by (cases s) (auto simp: py_strip_def dropWhile_eq_self_iff hd_rev split: if_splits)

lemma py_strip_snoc_space: "py_strip (s @ [CHR '' '']) = py_strip s"
proof (cases "\<forall>x \<in> set s. is_space x")
  case True
  then have "dropWhile is_space s = []" by simp
  moreover have "is_space CHR '' ''" by code_simp
  ultimately show ?thesis by (simp add: py_strip_def dropWhile_append del: dropWhile_eq_Nil_conv)
next
  case False
  moreover have "is_space CHR '' ''" by code_simp
  ultimately show ?thesis by (auto simp: py_strip_def dropWhile_append)
qed

lemma resolve_struct:
  assumes "n \<noteq> []" and "\<forall>c \<in> set n. \<not> is_space c" and "last n \<noteq> CHR ''*''"
  shows "resolve_type_name (struct_prefix @ n) = Inr (struct_prefix @ n, n @ ''_type'', False)"
    "resolve_type_name (struct_prefix @ n @ '' *'') = Inr (struct_prefix @ n, n @ ''_p_type'', True)"
proof -
  have nsp: "\<not> is_space CHR ''s''" "\<not> is_space CHR ''*''" by code_simp+
  have last_n: "\<not> is_space (last n)" using assms(1, 2) by simp
  have base: "py_strip (struct_prefix @ n) = struct_prefix @ n"
    using nsp last_n assms(1) by (intro py_strip_id) (simp add: struct_prefix_def)
  have n: "py_strip n = n" using assms(1, 2) by (intro py_strip_id) auto
  have us: "map (\<lambda>c. if c = CHR '' '' then CHR ''_'' else c) n = n"
    using assms(2) by (intro map_idI) (auto simp: is_space_def)
  show "resolve_type_name (struct_prefix @ n) = Inr (struct_prefix @ n, n @ ''_type'', False)"
    using base n us assms(1, 3) by (simp add: resolve_type_name_def Let_def struct_prefix_def)
  have full: "py_strip (struct_prefix @ n @ '' *'') = struct_prefix @ n @ '' *''"
    using nsp by (intro py_strip_id) (simp add: struct_prefix_def)
  have "butlast (struct_prefix @ n @ '' *'') = (struct_prefix @ n) @ '' ''"
    by (simp add: butlast_append struct_prefix_def)
  then have "py_strip (butlast (struct_prefix @ n @ '' *'')) = struct_prefix @ n"
    using base py_strip_snoc_space [of "struct_prefix @ n"] by simp
  then show "resolve_type_name (struct_prefix @ n @ '' *'') = Inr (struct_prefix @ n, n @ ''_p_type'', True)"
    using full n us by (simp add: resolve_type_name_def Let_def struct_prefix_def)
qed

section \<open>Properties\<close>

text \<open>C5: In every state that the operations reach, whatever exceptions \<open>es\<close> they have raised on the way: the
  pending list has no duplicates, holds every connected callback, and otherwise only completed ones; no
  connected callback is completed; a callback that waits for the target has not been called at all,
  successfully or not, and if it is connected it is on the wait list; a callback that has succeeded is
  completed, and succeeds again at most as often as \<^verbatim>\<open>CallbackCompleted\<close> was raised.  If nothing was
  raised, the pending list holds exactly the connected callbacks, and each succeeds at most once.\<close>

theorem callbacks_invariant:
  assumes "cb_reached es s"
  shows "distinct (pending_list s) \<and>
    (\<forall>c. connected (obj s c) \<longrightarrow> c \<in> set (pending_list s) \<and> \<not> completed (obj s c)) \<and>
    (\<forall>c \<in> set (pending_list s). connected (obj s c) \<or> completed (obj s c)) \<and>
    (\<forall>c b. waiting (obj s c) \<longrightarrow> (c, b) \<notin> set (calls s)) \<and>
    (\<forall>c. connected (obj s c) \<and> waiting (obj s c) \<longrightarrow> c \<in> set (waitlist s)) \<and>
    (\<forall>c. 0 < done_calls s c \<longrightarrow> completed (obj s c)) \<and>
    (\<forall>c. done_calls s c \<le> 1 + count_list es CallbackCompleted) \<and>
    (es = [] \<longrightarrow> (\<forall>c. c \<in> set (pending_list s) \<longleftrightarrow> connected (obj s c)))"
proof (intro conjI)
  note any = cb_reached_any [OF assms]
  show "distinct (pending_list s)"
    "\<forall>c. connected (obj s c) \<longrightarrow> c \<in> set (pending_list s) \<and> \<not> completed (obj s c)"
    "\<forall>c \<in> set (pending_list s). connected (obj s c) \<or> completed (obj s c)"
    "\<forall>c. connected (obj s c) \<and> waiting (obj s c) \<longrightarrow> c \<in> set (waitlist s)"
    "\<forall>c. done_calls s c \<le> 1 + count_list es CallbackCompleted"
    using any unfolding cb_any_def by - (elim conjE, assumption)+
  have "\<forall>c. waiting (obj s c) \<longrightarrow> c \<notin> fst ` set (calls s)" "\<forall>c. \<not> completed (obj s c) \<longrightarrow> done_calls s c = 0"
    using any unfolding cb_any_def by - (elim conjE, assumption)+
  then show "\<forall>c b. waiting (obj s c) \<longrightarrow> (c, b) \<notin> set (calls s)" "\<forall>c. 0 < done_calls s c \<longrightarrow> completed (obj s c)"
    by force+
  have "cb_good s" if "es = []" using cb_reachable_good [of s] assms that by (simp add: cb_reachable_def)
  then show "es = [] \<longrightarrow> (\<forall>c. c \<in> set (pending_list s) \<longleftrightarrow> connected (obj s c))"
    by (auto simp: cb_good_def cb_mid_def cb_core_def)
qed

definition ex_two :: "cb_sys" where
  "ex_two = fst (connect_callback (\<lambda>_. NotReady) True 1 (cb_new 1 False True
     (fst (connect_callback (\<lambda>_. NotReady) True 0 (cb_new 0 False True cb_init)))))"

lemma ex_two_facts:
  "pending_list ex_two = [0, 1]" "\<not> paused ex_two" "handlers ex_two = 2" "calls ex_two = []"
  "\<not> waiting (obj ex_two 0)" "\<not> waiting (obj ex_two 1)"
  by code_simp+

lemma ex_two_reachable: "cb_reachable ex_two"
proof -
  let ?s0 = "cb_new 0 False True cb_init"
  let ?s1 = "fst (connect_callback (\<lambda>_. NotReady) True 0 ?s0)"
  let ?s2 = "cb_new 1 False True ?s1"
  have con: "cb_reached [] (fst (connect_callback w True c s))"
    if "cb_reached [] s" "objs s c \<noteq> None" "snd (connect_callback w True c s) = None" for w c s
    using cb_reached_step [OF that(1) cb_step.Connect [of s c w True "fst (connect_callback w True c s)" None]] that
    by (simp add: prod_eq_iff raised_def)
  have "cb_reached [] ?s0"
    by (rule cb_reached_step [OF _ cb_step.New]) (simp_all add: cb_reached_def cb_init_def)
  moreover have "snd (connect_callback (\<lambda>_. NotReady) True 0 ?s0) = None" "objs ?s0 0 \<noteq> None" by code_simp+
  ultimately have "cb_reached [] ?s1" by (intro con)
  moreover have "objs ?s1 1 = None" by code_simp
  ultimately have "cb_reached [] ?s2" by (rule cb_reached_step [OF _ cb_step.New])
  moreover have "snd (connect_callback (\<lambda>_. NotReady) True 1 ?s2) = None" "objs ?s2 1 \<noteq> None" by code_simp+
  ultimately show ?thesis unfolding ex_two_def cb_reachable_def by (intro con)
qed

text \<open>Two passes in which the first callback succeeds and the second one raises \<^verbatim>\<open>KeyError\<close>.\<close>

definition ex_raise :: "cbid \<Rightarrow> outcome" where
  "ex_raise c = (if c = 0 then Called Done else Called (CbExc KeyError))"

definition ex_pass1 :: "cb_sys" where
  "ex_pass1 = fst (evaluate_all ex_raise ex_two)"

definition ex_pass2 :: "cb_sys" where
  "ex_pass2 = fst (evaluate_all ex_raise ex_pass1)"

lemma ex_passes:
  "evaluate_all ex_raise ex_two = (ex_pass1, Some KeyError)"
  "evaluate_all ex_raise ex_pass1 = (ex_pass2, Some CallbackCompleted)"
  "done_calls ex_pass2 0 = 2"
proof -
  have "snd (evaluate_all ex_raise ex_two) = Some KeyError" by code_simp
  then show "evaluate_all ex_raise ex_two = (ex_pass1, Some KeyError)" by (simp add: ex_pass1_def prod_eq_iff)
  have "snd (evaluate_all ex_raise ex_pass1) = Some CallbackCompleted" by code_simp
  then show "evaluate_all ex_raise ex_pass1 = (ex_pass2, Some CallbackCompleted)" by (simp add: ex_pass2_def prod_eq_iff)
  show "done_calls ex_pass2 0 = 2" by code_simp
qed

theorem callbacks_invariant_witness:
  "pending_list ex_pass2 = [0, 1] \<and> completed (obj ex_pass2 0) \<and> done_calls ex_pass2 0 = 2 \<and>
   done_calls ex_pass2 0 \<le> 1 + count_list [KeyError, CallbackCompleted] CallbackCompleted"
proof -
  have "cb_reached [] ex_two" using ex_two_reachable by (simp add: cb_reachable_def)
  from cb_reached_step [OF this cb_step.EvaluateAll [OF ex_passes(1)]]
  have "cb_reached [KeyError] ex_pass1" by (simp add: raised_def)
  from cb_reached_step [OF this cb_step.EvaluateAll [OF ex_passes(2)]]
  have reached: "cb_reached [KeyError, CallbackCompleted] ex_pass2" by (simp add: raised_def)
  have "pending_list ex_pass2 = [0, 1]" by code_simp
  then show ?thesis using callbacks_invariant [OF reached] ex_passes(3) by simp
qed

text \<open>One pass of \<open>evaluate_all\<close> in which no callback raises anything but \<^verbatim>\<open>gdb.error\<close> returns, calls every
  pending callback that is ready and does not wait for the target exactly once, in order, and removes and
  completes exactly those that return \<open>True\<close> or \<open>None\<close>.\<close>

theorem evaluate_all_pass:
  assumes "cb_reachable s" and "\<not> paused s" and "\<forall>c \<in> set (pending_list s). quiet (w c)"
  shows "\<exists>s'. evaluate_all w s = (s', None) \<and>
    pending_list s' = filter (\<lambda>c. \<not> finishes w s c) (pending_list s) \<and>
    calls s' = calls s @ concat (map (call_log w s) (pending_list s)) \<and>
    (\<forall>d. completed (obj s' d) \<longleftrightarrow> completed (obj s d) \<or> d \<in> set (pending_list s) \<and> finishes w s d)"
  using evaluate_all_quiet [OF cb_reachable_good [OF assms(1)] assms(2, 3)] by blast

theorem evaluate_all_pass_witness:
  "\<exists>s'. evaluate_all (\<lambda>c. if c = 0 then Called Done else Called NotDone) ex_two = (s', None) \<and>
     pending_list s' = [1] \<and> calls s' = [(0, True), (1, False)]"
proof -
  let ?w = "\<lambda>c. if c = (0::nat) then Called Done else Called NotDone"
  have "finishes ?w ex_two 0" "\<not> finishes ?w ex_two 1" "call_log ?w ex_two 0 = [(0, True)]"
    "call_log ?w ex_two 1 = [(1, False)]"
    using ex_two_facts by (simp_all add: finishes_def call_log_def)
  then show ?thesis
    using evaluate_all_pass [OF ex_two_reachable, of ?w] ex_two_facts by auto
qed

text \<open>An exception other than \<^verbatim>\<open>gdb.error\<close> from one callback leaves the loop before the pending list is
  updated, so that a callback that completed earlier in the pass is called a second time in the next pass,
  which then fails with \<^verbatim>\<open>CallbackCompleted\<close>.\<close>

theorem exception_repeats_callback:
  "\<exists>w s1 s2. evaluate_all w ex_two = (s1, Some KeyError) \<and> evaluate_all w s1 = (s2, Some CallbackCompleted) \<and>
     done_calls s2 0 = 2"
  using ex_passes by blast

text \<open>An object file event calls a callback that is ready and not done once for every callback object ever
  created, since each object connects a handler.\<close>

theorem new_objfile_repeats:
  assumes "cb_reachable s" and "\<not> paused s" and "pending_list s = [c]" and "\<not> waiting (obj s c)"
    and "w c = Called NotDone"
  shows "\<exists>s'. new_objfile w s = (s', None) \<and> calls s' = calls s @ replicate (handlers s) (c, False)"
proof -
  have "calls (fst (run_handlers w n s)) = calls s @ replicate n (c, False)"
    if "cb_good s" "\<not> paused s" "pending_list s = [c]" "\<not> waiting (obj s c)" for s n
    using that
  proof (induction n arbitrary: s)
    case (Suc n)
    have log: "call_log w s c = [(c, False)]" "\<not> finishes w s c"
      using Suc.prems assms(5) by (simp_all add: call_log_def finishes_def)
    obtain s1 where s1: "evaluate_all w s = (s1, None)" "pending_list s1 = [c]"
      "calls s1 = calls s @ [(c, False)]" "\<forall>d. waiting (obj s1 d) = waiting (obj s d)" "paused s1 = paused s"
      using evaluate_all_quiet [OF Suc.prems(1, 2), of w] Suc.prems(3) assms(5) log by auto
    have "cb_good s1" using cb_good_evaluate_all [OF Suc.prems(1) s1(1)] .
    then have "calls (fst (run_handlers w n s1)) = calls s1 @ replicate n (c, False)"
      using Suc.IH [of s1] s1 Suc.prems by auto
    then show ?case using s1 by (simp add: split_beta)
  qed simp
  from this [of s "handlers s"] show ?thesis
    using cb_reachable_good [OF assms(1)] assms(2-4) by (simp add: new_objfile_def)
qed

definition ex_one :: "cb_sys" where
  "ex_one = fst (evaluate_all (\<lambda>c. if c = 0 then Called Done else NotReady) ex_two)"

lemma ex_one_facts:
  "pending_list ex_one = [1]" "\<not> paused ex_one" "handlers ex_one = 2" "calls ex_one = [(0, True)]"
  "\<not> waiting (obj ex_one 1)" "snd (evaluate_all (\<lambda>c. if c = 0 then Called Done else NotReady) ex_two) = None"
  by code_simp+

theorem new_objfile_repeats_witness:
  "\<exists>s'. new_objfile (\<lambda>_. Called NotDone) ex_one = (s', None) \<and>
     calls s' = [(0, True), (1, False), (1, False)]"
proof -
  have "evaluate_all (\<lambda>c. if c = 0 then Called Done else NotReady) ex_two = (ex_one, None)"
    using ex_one_facts(6) by (simp add: ex_one_def prod_eq_iff)
  from cb_reached_step [OF _ cb_step.EvaluateAll [OF this], of "[]"]
  have "cb_reachable ex_one" using ex_two_reachable by (simp add: cb_reachable_def raised_def)
  then show ?thesis
    using new_objfile_repeats [of ex_one 1 "\<lambda>_. Called NotDone"] ex_one_facts by (simp add: numeral_2_eq_2)
qed

text \<open>A structure type and the pointer to it get the attribute names \<open>n_type\<close> and \<open>n_p_type\<close> and the same
  base name, for every tag without white space.\<close>

theorem resolve_struct_names:
  assumes "n \<noteq> []" and "\<forall>c \<in> set n. \<not> is_space c" and "last n \<noteq> CHR ''*''"
  shows "resolve_type_name (struct_prefix @ n) = Inr (struct_prefix @ n, n @ ''_type'', False) \<and>
    resolve_type_name (struct_prefix @ n @ '' *'') = Inr (struct_prefix @ n, n @ ''_p_type'', True)"
  using resolve_struct [OF assms] by blast

theorem resolve_struct_names_witness:
  "resolve_type_name ''struct page *'' = Inr (''struct page'', ''page_p_type'', True)"
proof -
  have "\<forall>c \<in> set ''page''. \<not> is_space c" by code_simp
  then show ?thesis using resolve_struct_names [of "''page''"] by (simp add: struct_prefix_def)
qed

text \<open>An attribute that was read once keeps its value after \<open>override\<close>, while the subscript of the same
  name gives the new value.\<close>

theorem override_not_seen:
  assumes "map_of (co_attrs c) name = Some k" and "co_vals c k = Some v"
  shows "\<exists>c'. coll_override name v' (snd (coll_getattr name c)) = Inr c' \<and>
     (co_cached c name = None \<longrightarrow> fst (coll_getattr name c') = Inr v) \<and> fst (coll_getitem name c') = Inr v'"
  using assms
  by (cases "co_cached c name") (auto simp: coll_getattr_def coll_get_def coll_override_def coll_getitem_def)

theorem override_not_seen_witness:
  "\<exists>c'. coll_override ''a'' 2 (snd (coll_getattr ''a'' (delayed_callback 0 1 (coll_new [(''a'', ''a'')])))) = Inr c' \<and>
     fst (coll_getattr ''a'' c') = Inr (1::int) \<and> fst (coll_getitem ''a'' c') = Inr 2"
  using override_not_seen [of "delayed_callback 0 1 (coll_new [(''a'', ''a'')])" "''a''" 0 1 2]
  by (simp add: coll_new_def delayed_callback_def)

text \<open>A collection of \<open>struct foo\<close> and \<open>struct foo *\<close> answers the key \<open>struct foo\<close> with the value of the
  pointer type.\<close>

theorem types_key_collision:
  "\<exists>c :: gtype collection. types_new [''struct foo'', ''struct foo *''] = Inr c \<and>
     map_of (co_attrs c) ''struct foo'' = map_of (co_attrs c) ''foo_p_type'' \<and>
     map_of (co_attrs c) ''foo_type'' \<noteq> map_of (co_attrs c) ''struct foo''"
proof -
  have "resolve_type_name ''struct foo'' = Inr (''struct foo'', ''foo_type'', False)"
    "resolve_type_name ''struct foo *'' = Inr (''struct foo'', ''foo_p_type'', True)" by code_simp+
  then show ?thesis by (simp add: types_new_def coll_new_def)
qed

end
