(* ===== verification/Slab.thy ===== *)
theory Slab
  imports Page_Node
begin

text \<open>
  The slab allocators: \<^verbatim>\<open>crash/types/slab.py\<close>.  SLAB keeps the indices of free objects in an array or in
  a chain of \<open>bufctl\<close> entries, SLUB a linked list through the free objects.

  Methods that print return what they print, as values of \<open>slab_msg\<close>; methods that change attributes
  return the object.  The elements of the free lists and the pages of objects are read through parameters.
\<close>

section \<open>Flags\<close>

definition SlabFlags :: "(string \<times> int) list" where
  "SlabFlags =
     [(''CONSISTENCY_CHECKS'', 0x00000100), (''RED_ZONE'', 0x00000400), (''POISON'', 0x00000800),
      (''HWCACHE_ALIGN'', 0x00002000), (''CACHE_DMA'', 0x00004000), (''STORE_USER'', 0x00010000),
      (''RECLAIM_ACCOUNT'', 0x00020000), (''PANIC'', 0x00040000), (''TYPESAFE_BY_RCU'', 0x00080000),
      (''MEM_SPREAD'', 0x00100000), (''TRACE'', 0x00200000), (''DEBUG_OBJECTS'', 0x00400000),
      (''NOLEAKTRACE'', 0x00800000), (''NOTRACK'', 0x01000000), (''FAILSLAB'', 0x02000000),
      (''ACCOUNT'', 0x04000000)]"

text \<open>\<open>print_flags\<close> after the number: the names of the flags set, in parentheses.\<close>

fun print_flags_loop :: "bool \<Rightarrow> int \<Rightarrow> (string \<times> int) list \<Rightarrow> string" where
  "print_flags_loop first val [] = (if first then [] else '')'')"
| "print_flags_loop first val ((name, flag) # fs) =
     (if val AND flag \<noteq> 0 then (if first then '' ('' else ''|'') @ name @ print_flags_loop False val fs
      else print_flags_loop first val fs)"

definition print_flags :: "nat \<Rightarrow> (string \<times> int) list \<Rightarrow> string" where
  "print_flags val names = ''0x'' @ py_hex val @ print_flags_loop True (int val) names"

definition has_flag :: "int \<Rightarrow> string \<Rightarrow> bool res" where
  "has_flag flags name = bindR (of_option KeyError (map_of SlabFlags name)) (\<lambda>f. Inr (flags AND f \<noteq> 0))"

section \<open>Messages\<close>

datatype slab_msg =
    IndexOverflow int
  | DuplicateFree addr
  | BufctlCycle
  | InuseFreeSum int int
  | WrongList string
  | SlabOnNid int
  | FreeAndCached addr
  | NoPage addr
  | ObjOnNid addr int
  | NotPageSlab addr
  | WrongCache addr addr
  | WrongSlabPage addr addr
  | OffSlabNotSlab
  | OffSlabWrongCache string
  | OffSlabNotAllocated
  | OffSlabWrongOffset int
  | TooManyFree
  | FreeInCpuList addr string
  | FreeCount int int
  | Frozen int

section \<open>SLAB\<close>

subsection \<open>Slabs\<close>

record slab_cache =
  sc_address :: addr
  sc_name :: string
  sc_buffer_size :: int
  sc_objs_per_slab :: int
  sc_off_slab :: bool

record slab =
  sl_address :: addr
  sl_cache :: slab_cache
  sl_page_slab :: bool
  sl_nr_objects :: int
  sl_nr_inuse :: int
  sl_s_mem :: int
  sl_free :: "int set"
  sl_free_populated :: bool
  sl_error :: bool
  sl_misplaced :: "string option"
  sl_msgs :: "slab_msg list"

definition BUFCTL_END :: int where
  "BUFCTL_END = NOT 0 AND 0xffffffff"

text \<open>\<open>SlabSLAB.__init__\<close> for a readable slab: \<open>active\<close> is the member \<open>active\<close> or \<open>inuse\<close>.\<close>

definition slab_new :: "addr \<Rightarrow> slab_cache \<Rightarrow> bool \<Rightarrow> int \<Rightarrow> int \<Rightarrow> slab" where
  "slab_new a cache page_slab active s_mem =
     \<lparr>sl_address = a, sl_cache = cache, sl_page_slab = page_slab, sl_nr_objects = sc_objs_per_slab cache,
      sl_nr_inuse = active, sl_s_mem = s_mem, sl_free = {}, sl_free_populated = False, sl_error = False,
      sl_misplaced = None, sl_msgs = []\<rparr>"

definition pr_err :: "slab_msg \<Rightarrow> slab \<Rightarrow> slab" where
  "pr_err m sl = sl\<lparr>sl_error := True, sl_msgs := sl_msgs sl @ [m]\<rparr>"

definition obj_addr_of :: "slab \<Rightarrow> int \<Rightarrow> int" where
  "obj_addr_of sl idx = sl_s_mem sl + idx * sc_buffer_size (sl_cache sl)"

definition add_free_obj_by_idx :: "int \<Rightarrow> slab \<Rightarrow> bool \<times> slab" where
  "add_free_obj_by_idx idx sl =
     (if sl_nr_objects sl \<le> idx then (False, pr_err (IndexOverflow idx) sl)
      else if obj_addr_of sl idx \<in> sl_free sl then (False, pr_err (DuplicateFree (obj_addr_of sl idx)) sl)
      else (True, sl\<lparr>sl_free := insert (obj_addr_of sl idx) (sl_free sl)\<rparr>))"

text \<open>The array of indices, from \<open>nr_inuse\<close> on; the entries are unsigned.\<close>

fun populate_array :: "(int \<Rightarrow> nat res) \<Rightarrow> int list \<Rightarrow> slab \<Rightarrow> slab \<times> exc option" where
  "populate_array freelist [] sl = (sl, None)"
| "populate_array freelist (i # is) sl =
     (case freelist i of
        Inl e \<Rightarrow> (sl, Some e)
      | Inr idx \<Rightarrow> populate_array freelist is (snd (add_free_obj_by_idx (int idx) sl)))"

text \<open>The chain of indices, which are unsigned: every round but the last adds one of the objects of the slab
  to the free ones, so that the loop ends.\<close>

definition grid :: "slab \<Rightarrow> int set" where
  "grid sl = obj_addr_of sl ` {0..<sl_nr_objects sl}"

lemma add_free_ok:
  "fst (add_free_obj_by_idx i sl) \<Longrightarrow> i < sl_nr_objects sl \<and> obj_addr_of sl i \<notin> sl_free sl \<and>
     snd (add_free_obj_by_idx i sl) = sl\<lparr>sl_free := insert (obj_addr_of sl i) (sl_free sl)\<rparr>"
  by (auto simp: add_free_obj_by_idx_def split: if_splits)

lemma obj_addr_of_free [simp]: "obj_addr_of (sl\<lparr>sl_free := F\<rparr>) i = obj_addr_of sl i"
  by (simp add: obj_addr_of_def)

lemma grid_free [simp]: "grid (sl\<lparr>sl_free := F\<rparr>) = grid sl"
  by (simp add: grid_def image_def)

lemma add_free_smaller:
  assumes "fst (add_free_obj_by_idx (int f) sl)"
  shows "card (grid (snd (add_free_obj_by_idx (int f) sl)) - sl_free (snd (add_free_obj_by_idx (int f) sl)))
    < card (grid sl - sl_free sl)"
proof -
  let ?sl = "snd (add_free_obj_by_idx (int f) sl)"
  have new: "int f < sl_nr_objects sl" "obj_addr_of sl (int f) \<notin> sl_free sl"
    "?sl = sl\<lparr>sl_free := insert (obj_addr_of sl (int f)) (sl_free sl)\<rparr>"
    using assms add_free_ok by blast+
  have "obj_addr_of sl (int f) \<in> grid sl" using new(1) by (simp add: grid_def)
  then have "grid ?sl - sl_free ?sl \<subset> grid sl - sl_free sl" using new by auto
  moreover have "finite (grid sl - sl_free sl)" by (simp add: grid_def)
  ultimately show ?thesis by (rule psubset_card_mono [rotated])
qed

function populate_bufctl :: "(nat \<Rightarrow> nat res) \<Rightarrow> nat \<Rightarrow> slab \<Rightarrow> slab \<times> exc option" where
  "populate_bufctl bufctl f sl =
     (if int f = BUFCTL_END then (sl, None)
      else if \<not> fst (add_free_obj_by_idx (int f) sl)
      then (pr_err BufctlCycle (snd (add_free_obj_by_idx (int f) sl)), None)
      else (case bufctl f of
          Inl e \<Rightarrow> (snd (add_free_obj_by_idx (int f) sl), Some e)
        | Inr f' \<Rightarrow> populate_bufctl bufctl f' (snd (add_free_obj_by_idx (int f) sl))))"
  by pat_completeness auto
termination
  by (relation "measure (\<lambda>(bufctl, f, sl). card (grid sl - sl_free sl))") (auto dest: add_free_smaller)

declare populate_bufctl.simps [simp del]

text \<open>What the free list of a slab is read from: the array, or the first index and the entries.\<close>

record slab_freelist =
  fl_array :: "int \<Rightarrow> nat res"
  fl_first :: nat
  fl_bufctl :: "nat \<Rightarrow> nat res"

definition do_populate_free :: "slab_freelist \<Rightarrow> slab \<Rightarrow> slab \<times> exc option" where
  "do_populate_free fl sl =
     (if sl_page_slab sl then populate_array (fl_array fl) [sl_nr_inuse sl..sl_nr_objects sl - 1] sl
      else populate_bufctl (fl_bufctl fl) (fl_first fl) sl)"

definition populate_free :: "slab_freelist \<Rightarrow> slab \<Rightarrow> slab \<times> exc option" where
  "populate_free fl sl =
     (if sl_free_populated sl then (sl, None)
      else (case do_populate_free fl sl of
          (sl', None) \<Rightarrow> (sl'\<lparr>sl_free_populated := True\<rparr>, None)
        | (sl', Some e) \<Rightarrow> (sl', Some e)))"

definition find_obj :: "slab \<Rightarrow> int \<Rightarrow> int option res" where
  "find_obj sl a =
     (if a < sl_s_mem sl then Inr None
      else if sc_buffer_size (sl_cache sl) = 0 then Inl ZeroDivisionError
      else let idx = (a - sl_s_mem sl) div sc_buffer_size (sl_cache sl)
           in Inr (if sl_nr_objects sl \<le> idx then None else Some (obj_addr_of sl idx)))"

text \<open>\<open>contains_obj\<close> without the description; \<open>not obj_addr\<close> also holds for the address 0.\<close>

definition contains_obj :: "slab \<Rightarrow> int \<Rightarrow> (bool \<times> int) res" where
  "contains_obj sl a = bindR (find_obj sl a) (\<lambda>r. Inr (case r of
       None \<Rightarrow> (False, 0) | Some ob \<Rightarrow> if ob = 0 then (False, 0) else (True, ob)))"

definition get_objects :: "slab \<Rightarrow> int list" where
  "get_objects sl = map (obj_addr_of sl) [0..sl_nr_objects sl - 1]"

subsection \<open>Array caches\<close>

datatype ac_type = AC_PERCPU | AC_SHARED | AC_ALIEN

record ac_entry =
  ac_kind :: ac_type
  ac_nid_src :: int
  ac_nid_tgt :: int

type_synonym array_caches = "(addr \<times> ac_entry) list"

datatype ac_msg = AlsoCached addr ac_entry ac_entry | CachedOnWrongNid addr ac_entry int int

text \<open>
  \<open>__fill_array_cache\<close>: the pointers \<open>entry[0 .. avail - 1]\<close>; \<open>nid_of\<close> is \<open>page_from_addr(ptr).get_nid()\<close>
  and \<open>node_id\<close> is \<open>numa_node_id\<close>.
\<close>

fun fill_entries ::
  "(addr \<Rightarrow> int res) \<Rightarrow> ac_entry \<Rightarrow> int \<Rightarrow> addr list \<Rightarrow> array_caches \<Rightarrow> array_caches \<times> ac_msg list \<times> exc option" where
  "fill_entries nid_of d nid_tgt [] acs = (acs, [], None)"
| "fill_entries nid_of d nid_tgt (ptr # ptrs) acs =
     (let (acs1, m1) = (case map_of acs ptr of
            Some d' \<Rightarrow> (acs, [AlsoCached ptr d d']) | None \<Rightarrow> (acs @ [(ptr, d)], []))
      in case nid_of ptr of
           Inl e \<Rightarrow> (acs1, m1, Some e)
         | Inr nid \<Rightarrow>
             let (acs2, m2, e) = fill_entries nid_of d nid_tgt ptrs acs1
             in (acs2, m1 @ (if nid \<noteq> nid_tgt then [CachedOnWrongNid ptr d nid nid_tgt] else []) @ m2, e))"

definition fill_array_cache ::
  "(addr \<Rightarrow> int res) \<Rightarrow> (int \<Rightarrow> int res) \<Rightarrow> addr list \<Rightarrow> ac_type \<Rightarrow> int \<Rightarrow> int \<Rightarrow> array_caches \<Rightarrow>
     array_caches \<times> ac_msg list \<times> exc option" where
  "fill_array_cache nid_of node_id entries k nid_src nid_tgt acs =
     (if entries = [] then (acs, [], None)
      else (case (if k = AC_PERCPU then node_id nid_tgt else Inr nid_tgt) of
          Inl e \<Rightarrow> (acs, [], Some e)
        | Inr tgt \<Rightarrow> fill_entries nid_of \<lparr>ac_kind = k, ac_nid_src = nid_src, ac_nid_tgt = nid_tgt\<rparr> tgt entries acs))"

text \<open>
  The caches in the order of \<open>__fill_all_array_caches\<close>: those of the online CPUs, then for each node the
  shared cache, if there is one, and the alien caches of the other nodes.
\<close>

record node_caches =
  nc_nid :: int
  nc_shared :: "addr list option"
  nc_alien :: "(int \<times> addr list) list option"

definition cache_fills :: "(int \<times> addr list) list \<Rightarrow> node_caches list \<Rightarrow> (addr list \<times> ac_type \<times> int \<times> int) list" where
  "cache_fills percpu nodes =
     map (\<lambda>(cpu, es). (es, AC_PERCPU, -1, cpu)) percpu @
     concat (map (\<lambda>nc.
       (case nc_shared nc of None \<Rightarrow> [] | Some es \<Rightarrow> [(es, AC_SHARED, nc_nid nc, nc_nid nc)]) @
       (case nc_alien nc of None \<Rightarrow> []
        | Some as \<Rightarrow> map (\<lambda>(nid, es). (es, AC_ALIEN, nc_nid nc, nid)) (filter (\<lambda>(nid, _). nid \<noteq> nc_nid nc) as)))
       nodes)"

fun fill_all ::
  "(addr \<Rightarrow> int res) \<Rightarrow> (int \<Rightarrow> int res) \<Rightarrow> (addr list \<times> ac_type \<times> int \<times> int) list \<Rightarrow> array_caches \<Rightarrow>
     array_caches \<times> ac_msg list \<times> exc option" where
  "fill_all nid_of node_id [] acs = (acs, [], None)"
| "fill_all nid_of node_id ((es, k, src, tgt) # fs) acs =
     (case fill_array_cache nid_of node_id es k src tgt acs of
        (acs', m, Some e) \<Rightarrow> (acs', m, Some e)
      | (acs', m, None) \<Rightarrow> let (acs2, m2, e) = fill_all nid_of node_id fs acs' in (acs2, m @ m2, e))"

definition fill_all_array_caches ::
  "(addr \<Rightarrow> int res) \<Rightarrow> (int \<Rightarrow> int res) \<Rightarrow> (int \<times> addr list) list \<Rightarrow> node_caches list \<Rightarrow>
     array_caches \<times> ac_msg list \<times> exc option" where
  "fill_all_array_caches nid_of node_id percpu nodes = fill_all nid_of node_id (cache_fills percpu nodes) []"

subsection \<open>Allocated objects\<close>

text \<open>\<open>obj_in_use\<close> on a slab whose free list has been read, with the array caches of its cache.\<close>

definition obj_in_use :: "array_caches \<Rightarrow> slab \<Rightarrow> int \<Rightarrow> bool \<times> ac_entry option" where
  "obj_in_use acs sl a =
     (if a \<in> sl_free sl then (False, None)
      else (case map_of acs a of Some d \<Rightarrow> (False, Some d) | None \<Rightarrow> (True, None)))"

definition get_allocated_objects :: "array_caches \<Rightarrow> slab \<Rightarrow> int list" where
  "get_allocated_objects acs sl = filter (\<lambda>ob. fst (obj_in_use acs sl ob)) (get_objects sl)"

subsection \<open>Checking a slab\<close>

datatype slab_list = SlabPartial | SlabFull | SlabFree

text \<open>The page of an object, after \<open>compound_head()\<close>.\<close>

record obj_page =
  op_address :: addr
  op_nid :: int
  op_is_slab :: bool
  op_slab_cache :: addr
  op_slab_page :: addr

definition free_error :: "string \<Rightarrow> slab \<Rightarrow> slab" where
  "free_error list_name sl = sl\<lparr>sl_error := True, sl_misplaced := Some list_name\<rparr>"

text \<open>
  The check of a \<open>struct slab\<close> that is kept off the slab, in the slab \<open>found\<close> if there is one.  \<open>off\<close> is the
  attribute \<open>off_slab_cache\<close> of the cache, which all slabs of the cache share: it is returned too.
\<close>

definition check_off_slab :: "slab option \<Rightarrow> string option \<Rightarrow> slab \<Rightarrow> slab \<times> string option \<times> exc option" where
  "check_off_slab found off sl = (case found of
       None \<Rightarrow> (pr_err OffSlabNotSlab sl, off, None)
     | Some s \<Rightarrow>
         let name = sc_name (sl_cache s);
             (sl1, off1) = (case off of
                None \<Rightarrow> if name \<noteq> ''size-64'' \<and> name \<noteq> ''size-128'' then (pr_err (OffSlabWrongCache name) sl, None)
                        else (sl, Some name)
              | Some n \<Rightarrow> (if name \<noteq> n then pr_err (OffSlabWrongCache name) sl else sl, Some n))
         in (case contains_obj s (sl_address sl) of
               Inl e \<Rightarrow> (sl1, off1, Some e)
             | Inr (contains, ob) \<Rightarrow>
                 (if \<not> contains then pr_err OffSlabNotAllocated sl1
                  else if ob \<noteq> sl_address sl then pr_err (OffSlabWrongOffset (sl_address sl - ob)) sl1
                  else sl1, off1, None)))"

definition check_counts :: "slab_list \<Rightarrow> slab \<Rightarrow> slab" where
  "check_counts k sl =
     (let num_free = int (card (sl_free sl));
          max_free = sl_nr_objects sl;
          sl1 = (if sl_nr_inuse sl + num_free \<noteq> max_free then pr_err (InuseFreeSum (sl_nr_inuse sl) num_free) sl else sl)
      in case k of
           SlabFree \<Rightarrow> if num_free \<noteq> max_free then free_error ''slab_free'' sl1 else sl1
         | SlabPartial \<Rightarrow> if num_free = 0 \<or> num_free = max_free then free_error ''slab_partial'' sl1 else sl1
         | SlabFull \<Rightarrow> if num_free > 0 then free_error ''slab_full'' sl1 else sl1)"

fun check_objects ::
  "(addr \<Rightarrow> obj_page res) \<Rightarrow> array_caches \<Rightarrow> int \<Rightarrow> int list \<Rightarrow> addr \<Rightarrow> slab \<Rightarrow> slab \<times> exc option" where
  "check_objects page_of acs nid [] last_page sl = (sl, None)"
| "check_objects page_of acs nid (ob # obs) last_page sl =
     (let sl1 = (if ob \<in> sl_free sl \<and> map_of acs ob \<noteq> None then pr_err (FreeAndCached ob) sl else sl)
      in case page_of ob of
           Inl e \<Rightarrow>
             if catches GdbNotAvailableError e
             then check_objects page_of acs nid obs last_page (pr_err (NoPage ob) sl1)
             else (sl1, Some e)
         | Inr p \<Rightarrow>
             if op_address p = last_page then check_objects page_of acs nid obs last_page sl1
             else
               let sl2 = (if op_nid p \<noteq> nid then pr_err (ObjOnNid ob (op_nid p)) sl1 else sl1);
                   sl3 = (if \<not> op_is_slab p then pr_err (NotPageSlab ob) sl2 else sl2);
                   sl4 = (if op_slab_cache p \<noteq> sc_address (sl_cache sl)
                          then pr_err (WrongCache ob (op_slab_cache p)) sl3 else sl3);
                   sl5 = (if \<not> sl_page_slab sl \<and> op_slab_page p \<noteq> sl_address sl
                          then pr_err (WrongSlabPage ob (op_slab_page p)) sl4 else sl4)
               in check_objects page_of acs nid obs (op_address p) sl5)"

text \<open>
  What \<open>check\<close> reads: the free lists and the node of the page of every slab, the pages of objects, the array
  caches (\<open>get_array_caches\<close>) and \<open>slab_from_obj_addr\<close>.
\<close>

record slab_env =
  sv_freelist :: "addr \<Rightarrow> slab_freelist"
  sv_nid :: "addr \<Rightarrow> int"
  sv_page_of :: "addr \<Rightarrow> obj_page res"
  sv_acs :: "array_caches res"
  sv_slab_at :: "addr \<Rightarrow> slab option res"

text \<open>\<open>check\<close>: the slab, the attribute \<open>off_slab_cache\<close> of its cache, and the number of free objects.\<close>

definition check_slab ::
  "slab_env \<Rightarrow> slab_list \<Rightarrow> int \<Rightarrow> string option \<Rightarrow> slab \<Rightarrow> slab \<times> string option \<times> int res" where
  "check_slab env k nid off sl = (case populate_free (sv_freelist env (sl_address sl)) sl of
       (sl0, Some e) \<Rightarrow> (sl0, off, Inl e)
     | (sl0, None) \<Rightarrow>
         (case (if sc_off_slab (sl_cache sl) \<and> \<not> sl_page_slab sl
                then (case sv_slab_at env (sl_address sl) of
                    Inl e \<Rightarrow> (sl0, off, Some e)
                  | Inr found \<Rightarrow> check_off_slab found off sl0)
                else (sl0, off, None)) of
            (sl1, off1, Some e) \<Rightarrow> (sl1, off1, Inl e)
          | (sl1, off1, None) \<Rightarrow>
              let sl2 = check_counts k sl1;
                  slab_nid = sv_nid env (sl_address sl);
                  sl3 = (if sl_page_slab sl \<and> nid \<noteq> slab_nid then pr_err (SlabOnNid slab_nid) sl2 else sl2)
              in (case sv_acs env of
                    Inl e \<Rightarrow> (sl3, off1, Inl e)
                  | Inr acs \<Rightarrow>
                      let (sl4, e) = check_objects (sv_page_of env) acs nid (get_objects sl) 0 sl3
                      in (sl4, off1, case e of None \<Rightarrow> Inr (int (card (sl_free sl0))) | Some x \<Rightarrow> Inl x))))"

section \<open>SLUB\<close>

record slub_cache =
  uc_address :: addr
  uc_name :: string
  uc_size :: int
  uc_object_size :: int
  uc_flags :: int
  uc_fp_offset :: int
  uc_red_left_pad :: int
  uc_inuse :: int
  uc_cpu_slabs :: "(addr \<times> string) list"
  uc_node_slabs :: "(addr \<times> string) list"
  uc_cpu_slabs_objects :: int
  uc_cpu_slabs_free :: int
  uc_cpu_freelists :: "(addr \<times> string) list"
  uc_processed :: bool

record slub =
  ul_address :: addr
  ul_nr_objects :: int
  ul_nr_inuse :: int
  ul_base_address :: addr
  ul_frozen :: int
  ul_free :: "int set"
  ul_free_populated :: bool
  ul_error :: bool
  ul_msgs :: "slab_msg list"

definition ul_nr_free :: "slub \<Rightarrow> int" where
  "ul_nr_free u = ul_nr_objects u - ul_nr_inuse u"

definition SLAB_RED_ZONE :: int where
  "SLAB_RED_ZONE = 0x00000400"

definition red_left_pad :: "slub_cache \<Rightarrow> int" where
  "red_left_pad c = (if uc_flags c AND SLAB_RED_ZONE \<noteq> 0 then uc_red_left_pad c else 0)"

definition slub_pr_err :: "slab_msg \<Rightarrow> slub \<Rightarrow> slub" where
  "slub_pr_err m u = u\<lparr>ul_error := True, ul_msgs := ul_msgs u @ [m]\<rparr>"

text \<open>
  The loop over the free list.  The next pointer is read when the loop test needs it, after the object
  has been checked against the per-CPU free lists.
\<close>

function slub_free_loop ::
  "(addr \<Rightarrow> addr res) \<Rightarrow> slub_cache \<Rightarrow> addr \<Rightarrow> int \<Rightarrow> slub \<Rightarrow> slub \<times> exc option" where
  "slub_free_loop rd c freelist nr_free u =
     (if freelist = 0 then (u, None)
      else if nr_free + 1 > ul_nr_objects u then (slub_pr_err TooManyFree u, None)
      else let u1 = u\<lparr>ul_free := insert freelist (ul_free u)\<rparr>;
               u2 = (case map_of (uc_cpu_freelists c) freelist of
                       Some d \<Rightarrow> slub_pr_err (FreeInCpuList freelist d) u1 | None \<Rightarrow> u1)
           in case rd (ptr_add freelist (uc_fp_offset c)) of
                Inl e \<Rightarrow> (u2, Some e)
              | Inr next \<Rightarrow> slub_free_loop rd c next (nr_free + 1) u2)"
  by pat_completeness auto
termination
  by (relation "measure (\<lambda>(rd, c, f, n, u). nat (ul_nr_objects u + 1 - n))")
     (auto simp: slub_pr_err_def Let_def split: option.splits)

declare slub_free_loop.simps [simp del]

definition slub_populate_free :: "(addr \<Rightarrow> addr res) \<Rightarrow> slub_cache \<Rightarrow> addr res \<Rightarrow> slub \<Rightarrow> slub \<times> exc option" where
  "slub_populate_free rd c freelist u =
     (if ul_free_populated u then (u, None)
      else (case freelist of
          Inl e \<Rightarrow> (u\<lparr>ul_free := {}\<rparr>, Some e)
        | Inr f \<Rightarrow> (case slub_free_loop rd c f 0 (u\<lparr>ul_free := {}\<rparr>) of
              (u1, Some e) \<Rightarrow> (u1, Some e)
            | (u1, None) \<Rightarrow>
                ((if int (card (ul_free u1)) \<noteq> ul_nr_free u1
                  then slub_pr_err (FreeCount (ul_nr_free u1) (int (card (ul_free u1)))) u1 else u1)
                 \<lparr>ul_free_populated := True\<rparr>, None))))"

definition slub_find_obj :: "slub_cache \<Rightarrow> slub \<Rightarrow> int \<Rightarrow> int option res" where
  "slub_find_obj c u a =
     (if a < ul_base_address u then Inr None
      else if uc_size c = 0 then Inl ZeroDivisionError
      else let idx = (a - ul_base_address u) div uc_size c
           in Inr (if ul_nr_objects u \<le> idx then None
                   else Some (ul_base_address u + red_left_pad c + idx * uc_size c)))"

datatype contains_desc = OutsideRange | LeftRedZone | BehindObject

definition slub_contains_obj :: "slub_cache \<Rightarrow> slub \<Rightarrow> int \<Rightarrow> (bool \<times> int \<times> contains_desc option) res" where
  "slub_contains_obj c u a = bindR (slub_find_obj c u a) (\<lambda>r. Inr (case r of
       None \<Rightarrow> (False, 0, Some OutsideRange)
     | Some ob \<Rightarrow>
         if ob = 0 then (False, 0, Some OutsideRange)
         else if a < ob then (False, ob, Some LeftRedZone)
         else if a > ob + uc_inuse c then (False, ob, Some BehindObject)
         else (True, ob, None)))"

definition slub_get_objects :: "slub_cache \<Rightarrow> slub \<Rightarrow> int list" where
  "slub_get_objects c u =
     map (\<lambda>idx. ul_base_address u + red_left_pad c + idx * uc_size c) [0..ul_nr_objects u - 1]"

definition slub_obj_in_use :: "slub_cache \<Rightarrow> slub \<Rightarrow> int \<Rightarrow> bool \<times> string option" where
  "slub_obj_in_use c u a =
     (if a \<in> ul_free u then (False, None)
      else (case map_of (uc_cpu_freelists c) a of Some d \<Rightarrow> (False, Some d) | None \<Rightarrow> (True, None)))"

definition slub_get_allocated_objects :: "slub_cache \<Rightarrow> slub \<Rightarrow> int list" where
  "slub_get_allocated_objects c u = filter (\<lambda>ob. fst (slub_obj_in_use c u ob)) (slub_get_objects c u)"

definition slab_role :: "slub_cache \<Rightarrow> slub \<Rightarrow> string" where
  "slab_role c u = (case map_of (uc_cpu_slabs c) (ul_address u) of
       Some d \<Rightarrow> d
     | None \<Rightarrow> (case map_of (uc_node_slabs c) (ul_address u) of
           Some d \<Rightarrow> d
         | None \<Rightarrow> if ul_nr_free u = 0 then ''untracked full'' else ''unknown''))"

definition warn_frozen :: "int \<Rightarrow> slub \<Rightarrow> slub" where
  "warn_frozen expected u = (if expected \<noteq> ul_frozen u then slub_pr_err (Frozen expected) u else u)"

text \<open>\<open>_populate_cpu_freelist\<close>: the number of objects on the list of a CPU; \<open>nr_objects\<close> is read only when the
  list is not empty.\<close>

datatype cpu_list_msg = CpuTooMany | CpuDuplicate addr string string

function cpu_freelist_loop ::
  "(addr \<Rightarrow> addr res) \<Rightarrow> string \<Rightarrow> int \<Rightarrow> addr \<Rightarrow> int \<Rightarrow> slub_cache \<Rightarrow> cpu_list_msg list \<Rightarrow>
     slub_cache \<times> cpu_list_msg list \<times> int res" where
  "cpu_freelist_loop rd cache_type nr_objects freelist nr_free c ms =
     (if freelist = 0 then (c, ms, Inr nr_free)
      else if nr_free + 1 > nr_objects then (c, ms @ [CpuTooMany], Inr (nr_free + 1))
      else let (c1, ms1) = (case map_of (uc_cpu_freelists c) freelist of
                 Some d \<Rightarrow> (c, ms @ [CpuDuplicate freelist cache_type d])
               | None \<Rightarrow> (c\<lparr>uc_cpu_freelists := uc_cpu_freelists c @ [(freelist, cache_type)]\<rparr>, ms))
           in case rd (ptr_add freelist (uc_fp_offset c)) of
                Inl e \<Rightarrow> (c1, ms1, Inl e)
              | Inr next \<Rightarrow> cpu_freelist_loop rd cache_type nr_objects next (nr_free + 1) c1 ms1)"
  by pat_completeness auto
termination
  by (relation "measure (\<lambda>(rd, t, n, f, k, c, ms). nat (n + 1 - k))") auto

declare cpu_freelist_loop.simps [simp del]

definition populate_cpu_freelist ::
  "(addr \<Rightarrow> addr res) \<Rightarrow> string \<Rightarrow> addr res \<Rightarrow> int res \<Rightarrow> slub_cache \<Rightarrow> slub_cache \<times> cpu_list_msg list \<times> int res" where
  "populate_cpu_freelist rd cache_type freelist page_objects c =
     (case freelist of
        Inl e \<Rightarrow> (c, [], Inl e)
      | Inr f \<Rightarrow> (case (if f \<noteq> 0 then page_objects else Inr 0) of
            Inl e \<Rightarrow> (c, [], Inl e)
          | Inr n \<Rightarrow> cpu_freelist_loop rd cache_type n f 0 c []))"

section \<open>The registry of caches\<close>

text \<open>\<open>__kmem_caches\<close> and \<open>__kmem_caches_by_addr\<close>, filled in list order from pairs of name and address.\<close>

record 'c kmem_registry =
  by_name :: "(string \<times> 'c) list"
  by_addr :: "(addr \<times> 'c) list"

fun setup_slab_caches :: "(string \<times> addr \<times> 'c) list \<Rightarrow> 'c kmem_registry \<Rightarrow> 'c kmem_registry" where
  "setup_slab_caches [] r = r"
| "setup_slab_caches ((name, a, c) # cs) r =
     setup_slab_caches cs \<lparr>by_name = AList.update name c (by_name r), by_addr = AList.update a c (by_addr r)\<rparr>"

definition kmem_cache_from_addr :: "'c kmem_registry \<Rightarrow> addr \<Rightarrow> 'c res" where
  "kmem_cache_from_addr r a = of_option KmemCacheNotFound (map_of (by_addr r) a)"

definition kmem_cache_from_name :: "'c kmem_registry \<Rightarrow> string \<Rightarrow> 'c res" where
  "kmem_cache_from_name r n = of_option KmemCacheNotFound (map_of (by_name r) n)"

definition kmem_cache_get_all :: "'c kmem_registry \<Rightarrow> 'c list" where
  "kmem_cache_get_all r = map snd (by_name r)"

section \<open>The grid of objects\<close>

lemma int_div_less_iff:
  assumes "0 < (s :: int)"
  shows "a div s < c \<longleftrightarrow> a < c * s"
proof
  have split: "a = a div s * s + a mod s" "0 \<le> a mod s" "a mod s < s" using assms by simp_all
  assume "a div s < c"
  then have "(a div s + 1) * s \<le> c * s" using assms by (intro mult_right_mono) auto
  then have "a div s * s + s \<le> c * s" by (simp add: distrib_right)
  then show "a < c * s" using split by linarith
next
  have split: "a = a div s * s + a mod s" "0 \<le> a mod s" using assms by simp_all
  assume less: "a < c * s"
  show "a div s < c"
  proof (rule ccontr)
    assume "\<not> a div s < c"
    then have "c * s \<le> a div s * s" using assms by (intro mult_right_mono) auto
    then show False using split less by linarith
  qed
qed

text \<open>
  What both allocators promise about the objects of a slab: they lie \<open>stride\<close> apart, \<open>pad\<close> bytes into
  their slots, and \<open>find\<close> maps every address in a slot to the object of the slot.
\<close>

locale slab_grid =
  fixes ok :: "'s \<Rightarrow> bool" and base pad stride count :: "'s \<Rightarrow> int"
    and find :: "'s \<Rightarrow> int \<Rightarrow> int option res" and objects :: "'s \<Rightarrow> int list"
  assumes stride_pos: "ok s \<Longrightarrow> 0 < stride s"
    and find_eq: "ok s \<Longrightarrow> find s a = Inr (if base s \<le> a \<and> (a - base s) div stride s < count s
        then Some (base s + pad s + (a - base s) div stride s * stride s) else None)"
    and objects_eq: "ok s \<Longrightarrow> objects s = map (\<lambda>i. base s + pad s + i * stride s) [0..count s - 1]"
begin

lemma find_slot:
  assumes "ok s" and "0 \<le> i" and "i < count s" and "0 \<le> k" and "k < stride s"
  shows "find s (base s + i * stride s + k) = Inr (Some (base s + pad s + i * stride s))"
proof -
  have "(base s + i * stride s + k - base s) div stride s = i"
    using assms(4, 5) stride_pos [OF assms(1)] by simp
  moreover have "0 \<le> i * stride s" using assms(2) stride_pos [OF assms(1)] by simp
  ultimately show ?thesis using assms by (simp add: find_eq)
qed

lemma find_sound:
  assumes "ok s" and "find s a = Inr (Some ob)"
  shows "ob \<in> set (objects s)" "ob - pad s \<le> a" "a < ob - pad s + stride s"
proof -
  define i where "i = (a - base s) div stride s"
  have i: "base s \<le> a" "i < count s" "ob = base s + pad s + i * stride s"
    using assms by (auto simp: find_eq i_def split: if_splits)
  have pos: "0 < stride s" using stride_pos [OF assms(1)] .
  have "0 \<le> i" using i(1) pos by (simp add: i_def pos_imp_zdiv_nonneg_iff)
  then have "i \<in> {0..count s - 1}" using i by simp
  then show "ob \<in> set (objects s)" using i(3) by (auto simp: objects_eq [OF assms(1)])
  have "a - base s = i * stride s + (a - base s) mod stride s" by (simp add: i_def)
  moreover have "0 \<le> (a - base s) mod stride s" "(a - base s) mod stride s < stride s" using pos by simp_all
  ultimately show "ob - pad s \<le> a" "a < ob - pad s + stride s" using i(3) by linarith+
qed

lemma find_outside:
  assumes "ok s" and "0 \<le> count s"
  shows "find s a = Inr None \<longleftrightarrow> a < base s \<or> base s + count s * stride s \<le> a"
proof -
  have pos: "0 < stride s" using stride_pos [OF assms(1)] .
  have "(a - base s) div stride s < count s \<longleftrightarrow> a - base s < count s * stride s"
    using pos by (rule int_div_less_iff)
  then show ?thesis using assms(1) by (auto simp: find_eq)
qed

lemma objects_distinct:
  assumes "ok s"
  shows "distinct (objects s)" "length (objects s) = nat (count s)"
proof -
  have "inj_on (\<lambda>i. base s + pad s + i * stride s) A" for A
    using stride_pos [OF assms] by (auto simp: inj_on_def)
  then show "distinct (objects s)" by (simp add: objects_eq [OF assms] distinct_map)
  show "length (objects s) = nat (count s)" by (simp add: objects_eq [OF assms])
qed

lemma objects_iff:
  assumes "ok s"
  shows "ob \<in> set (objects s) \<longleftrightarrow> (\<exists>i. 0 \<le> i \<and> i < count s \<and> ob = base s + pad s + i * stride s)"
  by (auto simp: objects_eq [OF assms])

end

interpretation slab: slab_grid "\<lambda>sl. 0 < sc_buffer_size (sl_cache sl)" sl_s_mem "\<lambda>_. 0"
  "\<lambda>sl. sc_buffer_size (sl_cache sl)" sl_nr_objects find_obj get_objects
  by unfold_locales (auto simp: find_obj_def get_objects_def obj_addr_of_def Let_def)

interpretation slub: slab_grid "\<lambda>(c, u). 0 < uc_size c" "\<lambda>(c, u). ul_base_address u"
  "\<lambda>(c, u). red_left_pad c" "\<lambda>(c, u). uc_size c" "\<lambda>(c, u). ul_nr_objects u"
  "\<lambda>(c, u). slub_find_obj c u" "\<lambda>(c, u). slub_get_objects c u"
  by unfold_locales (auto simp: slub_find_obj_def slub_get_objects_def Let_def)

section \<open>Reading the free lists\<close>

subsection \<open>The chain of bufctl entries\<close>

text \<open>A chain of indices that ends at \<open>BUFCTL_END\<close>.\<close>

fun bufctl_chain :: "(nat \<Rightarrow> nat res) \<Rightarrow> nat \<Rightarrow> nat list \<Rightarrow> bool" where
  "bufctl_chain bufctl f [] \<longleftrightarrow> int f = BUFCTL_END"
| "bufctl_chain bufctl f (i # is) \<longleftrightarrow> f = i \<and> int i \<noteq> BUFCTL_END \<and>
     (case bufctl i of Inl e \<Rightarrow> False | Inr n \<Rightarrow> bufctl_chain bufctl n is)"

text \<open>Indices of different objects of the slab, none of which is known to be free.\<close>

definition free_obj :: "slab \<Rightarrow> nat \<Rightarrow> int" where
  "free_obj sl i = obj_addr_of sl (int i)"

definition fits :: "slab \<Rightarrow> nat list \<Rightarrow> bool" where
  "fits sl is \<longleftrightarrow> distinct (map (free_obj sl) is) \<and> (\<forall>i \<in> set is. int i < sl_nr_objects sl) \<and>
     free_obj sl ` set is \<inter> sl_free sl = {}"

lemma free_obj_free [simp]: "free_obj (sl\<lparr>sl_free := F\<rparr>) = free_obj sl"
  by (simp add: free_obj_def fun_eq_iff)

lemma fits_Nil [simp]: "fits sl []"
  by (simp add: fits_def)

lemma add_free_ok_iff:
  "fst (add_free_obj_by_idx (int i) sl) \<longleftrightarrow> int i < sl_nr_objects sl \<and> free_obj sl i \<notin> sl_free sl"
  by (auto simp: add_free_obj_by_idx_def free_obj_def)

lemma fits_Cons:
  "fits sl (i # is) \<longleftrightarrow> fst (add_free_obj_by_idx (int i) sl) \<and> fits (snd (add_free_obj_by_idx (int i) sl)) is"
proof (cases "fst (add_free_obj_by_idx (int i) sl)")
  case True
  then have "snd (add_free_obj_by_idx (int i) sl) = sl\<lparr>sl_free := insert (free_obj sl i) (sl_free sl)\<rparr>"
    using add_free_ok [OF True] by (simp add: free_obj_def)
  then show ?thesis using True by (auto simp: fits_def add_free_ok_iff)
next
  case False
  then show ?thesis by (auto simp: fits_def add_free_ok_iff)
qed

lemma add_free_error:
  "sl_error (snd (add_free_obj_by_idx i sl)) \<longleftrightarrow> sl_error sl \<or> \<not> fst (add_free_obj_by_idx i sl)"
  by (auto simp: add_free_obj_by_idx_def pr_err_def)

lemma populate_bufctl_chain:
  assumes "bufctl_chain bufctl f is" and "fits sl is"
  shows "populate_bufctl bufctl f sl = (sl\<lparr>sl_free := sl_free sl \<union> free_obj sl ` set is\<rparr>, None)"
  using assms
proof (induction "is" arbitrary: f sl)
  case Nil
  then show ?case by (subst populate_bufctl.simps) simp
next
  case (Cons i "is")
  obtain n where n: "bufctl i = Inr n" "bufctl_chain bufctl n is" "f = i" "int i \<noteq> BUFCTL_END"
    using Cons.prems(1) by (auto split: sum.splits)
  have ok: "fst (add_free_obj_by_idx (int i) sl)" "fits (snd (add_free_obj_by_idx (int i) sl)) is"
    using Cons.prems(2) by (simp_all add: fits_Cons)
  then have "snd (add_free_obj_by_idx (int i) sl) = sl\<lparr>sl_free := insert (free_obj sl i) (sl_free sl)\<rparr>"
    using add_free_ok [OF ok(1)] by (simp add: free_obj_def)
  then show ?case using n ok Cons.IH [OF n(2) ok(2)] by (subst populate_bufctl.simps) simp
qed

lemma populate_bufctl_error:
  "populate_bufctl bufctl f sl = (sl', None) \<Longrightarrow>
   sl_error sl' \<longleftrightarrow> sl_error sl \<or> \<not> (\<exists>is. bufctl_chain bufctl f is \<and> fits sl is)"
proof (induction bufctl f sl rule: populate_bufctl.induct)
  case (1 bufctl f sl)
  have chain: "bufctl_chain bufctl f is \<longleftrightarrow>
      (if int f = BUFCTL_END then is = [] else \<exists>n js. is = f # js \<and> bufctl f = Inr n \<and> bufctl_chain bufctl n js)" for "is"
    by (cases "is") (auto split: sum.splits)
  show ?case
  proof (cases "int f = BUFCTL_END")
    case True
    then show ?thesis using 1(2) chain by (subst (asm) populate_bufctl.simps) auto
  next
    case False
    show ?thesis
    proof (cases "fst (add_free_obj_by_idx (int f) sl)")
      case bad: False
      then have "sl_error sl'" using False 1(2) by (subst (asm) populate_bufctl.simps) (auto simp: pr_err_def)
      moreover have "\<not> fits sl is" if "bufctl_chain bufctl f is" for "is"
        using that bad False unfolding chain by (auto simp: fits_Cons)
      ultimately show ?thesis by blast
    next
      case ok: True
      then obtain n where n: "bufctl f = Inr n"
        "populate_bufctl bufctl n (snd (add_free_obj_by_idx (int f) sl)) = (sl', None)"
        using False 1(2) by (subst (asm) populate_bufctl.simps) (auto split: sum.splits)
      have "(\<exists>is. bufctl_chain bufctl f is \<and> fits sl is) \<longleftrightarrow>
          (\<exists>js. bufctl_chain bufctl n js \<and> fits (snd (add_free_obj_by_idx (int f) sl)) js)"
        unfolding chain using False n(1) ok by (auto simp: fits_Cons)
      then show ?thesis using 1(1) [OF False _ n] ok by (simp add: add_free_error)
    qed
  qed
qed

subsection \<open>The array of indices\<close>

lemma populate_array_result:
  assumes "populate_array freelist is sl = (sl', None)"
  shows "\<exists>ix. mapR freelist is = Inr ix \<and> (sl_error sl' \<longleftrightarrow> sl_error sl \<or> \<not> fits sl ix) \<and>
    (fits sl ix \<longrightarrow> sl' = sl\<lparr>sl_free := sl_free sl \<union> free_obj sl ` set ix\<rparr>)"
  using assms
proof (induction "is" arbitrary: sl)
  case (Cons i "is")
  then obtain n where n: "freelist i = Inr n" "populate_array freelist is (snd (add_free_obj_by_idx (int n) sl)) = (sl', None)"
    by (auto split: sum.splits)
  let ?sl = "snd (add_free_obj_by_idx (int n) sl)"
  obtain ix where ix: "mapR freelist is = Inr ix" "sl_error sl' \<longleftrightarrow> sl_error ?sl \<or> \<not> fits ?sl ix"
    "fits ?sl ix \<longrightarrow> sl' = ?sl\<lparr>sl_free := sl_free ?sl \<union> free_obj ?sl ` set ix\<rparr>"
    using Cons.IH [OF n(2)] by auto
  have "?sl = sl\<lparr>sl_free := insert (free_obj sl n) (sl_free sl)\<rparr>" if "fst (add_free_obj_by_idx (int n) sl)"
    using add_free_ok [OF that] by (simp add: free_obj_def)
  then show ?case using ix n(1) by (auto simp: fits_Cons add_free_error)
qed simp

subsection \<open>The free list of a slab\<close>

text \<open>The indices that the free list of a slab holds.\<close>

definition free_indices :: "slab_freelist \<Rightarrow> slab \<Rightarrow> nat list \<Rightarrow> bool" where
  "free_indices fl sl is \<longleftrightarrow>
     (if sl_page_slab sl then mapR (fl_array fl) [sl_nr_inuse sl..sl_nr_objects sl - 1] = Inr is
      else bufctl_chain (fl_bufctl fl) (fl_first fl) is)"

lemma populate_free_error:
  assumes "\<not> sl_free_populated sl" and "populate_free fl sl = (sl', None)"
  shows "sl_error sl' \<longleftrightarrow> sl_error sl \<or> \<not> (\<exists>is. free_indices fl sl is \<and> fits sl is)"
proof -
  obtain sl1 where "do_populate_free fl sl = (sl1, None)" "sl' = sl1\<lparr>sl_free_populated := True\<rparr>"
    using assms by (auto simp: populate_free_def split: prod.splits option.splits)
  then show ?thesis
    using populate_array_result [of "fl_array fl" _ sl sl1] populate_bufctl_error [of "fl_bufctl fl" "fl_first fl" sl sl1]
    by (cases "sl_page_slab sl") (fastforce simp: do_populate_free_def free_indices_def)+
qed

lemma populate_free_result:
  assumes "\<not> sl_free_populated sl" and "free_indices fl sl is" and "fits sl is" and "snd (populate_free fl sl) = None"
  shows "populate_free fl sl = (sl\<lparr>sl_free := sl_free sl \<union> free_obj sl ` set is, sl_free_populated := True\<rparr>, None)"
proof (cases "sl_page_slab sl")
  case True
  obtain sl1 where "populate_array (fl_array fl) [sl_nr_inuse sl..sl_nr_objects sl - 1] sl = (sl1, None)"
    using assms(1, 4) True by (auto simp: populate_free_def do_populate_free_def split: prod.splits option.splits)
  with populate_array_result [OF this] show ?thesis
    using assms True by (auto simp: populate_free_def do_populate_free_def free_indices_def)
next
  case False
  then show ?thesis
    using assms populate_bufctl_chain [of "fl_bufctl fl" "fl_first fl" "is" sl]
    by (simp add: populate_free_def do_populate_free_def free_indices_def)
qed

text \<open>What reading the free list leaves as it is.\<close>

definition same_slab :: "slab \<Rightarrow> slab \<Rightarrow> bool" where
  "same_slab a b \<longleftrightarrow> sl_address a = sl_address b \<and> sl_cache a = sl_cache b \<and> sl_page_slab a = sl_page_slab b \<and>
     sl_misplaced a = sl_misplaced b \<and> sl_nr_objects a = sl_nr_objects b \<and> sl_s_mem a = sl_s_mem b"

lemma same_slab_refl [simp]: "same_slab a a"
  by (simp add: same_slab_def)

lemma same_slab_trans: "same_slab a b \<Longrightarrow> same_slab b c \<Longrightarrow> same_slab a c"
  by (simp add: same_slab_def)

lemma same_slab_objects: "same_slab a b \<Longrightarrow> get_objects a = get_objects b"
  by (simp add: same_slab_def get_objects_def obj_addr_of_def fun_eq_iff)

lemma same_slab_pr_err [simp]: "same_slab (pr_err m a) b = same_slab a b"
  by (simp add: same_slab_def pr_err_def)

lemma same_slab_add: "same_slab (snd (add_free_obj_by_idx i s)) s"
  by (simp add: add_free_obj_by_idx_def) (simp add: same_slab_def)

lemma same_slab_array: "same_slab (fst (populate_array rd is s)) s"
proof (induction "is" arbitrary: s)
  case (Cons i "is")
  then show ?case using same_slab_add same_slab_trans by (cases "rd i") (simp, simp, blast)
qed simp

lemma same_slab_bufctl: "same_slab (fst (populate_bufctl rd f s)) s"
proof (induction rd f s rule: populate_bufctl.induct)
  case (1 bufctl f s)
  note eq = populate_bufctl.simps [of bufctl f s]
  show ?case
  proof (cases "int f = BUFCTL_END \<or> \<not> fst (add_free_obj_by_idx (int f) s)")
    case True
    then show ?thesis using same_slab_add [of "int f" s] by (auto simp: eq)
  next
    case False
    then show ?thesis using 1 same_slab_add [of "int f" s] same_slab_trans by (cases "bufctl f") (auto simp: eq)
  qed
qed

lemma populate_free_fields:
  assumes "populate_free fl sl = (sl', e)"
  shows "sl_address sl' = sl_address sl" "sl_cache sl' = sl_cache sl" "sl_page_slab sl' = sl_page_slab sl"
    "sl_misplaced sl' = sl_misplaced sl" "get_objects sl' = get_objects sl"
proof -
  have "same_slab (fst (do_populate_free fl sl)) sl"
    by (simp add: do_populate_free_def same_slab_array same_slab_bufctl)
  then have "same_slab sl' sl"
    using assms by (auto simp: populate_free_def same_slab_def split: if_splits prod.splits option.splits)
  then show "sl_address sl' = sl_address sl" "sl_cache sl' = sl_cache sl" "sl_page_slab sl' = sl_page_slab sl"
    "sl_misplaced sl' = sl_misplaced sl" "get_objects sl' = get_objects sl"
    by (simp_all add: same_slab_def get_objects_def obj_addr_of_def)
qed

subsection \<open>The list through the objects\<close>

text \<open>A free list of SLUB: each object holds the next one, the last one 0.\<close>

fun slub_chain :: "(addr \<Rightarrow> addr res) \<Rightarrow> int \<Rightarrow> addr \<Rightarrow> addr list \<Rightarrow> bool" where
  "slub_chain rd fp f [] \<longleftrightarrow> f = 0"
| "slub_chain rd fp f (x # xs) \<longleftrightarrow> f = x \<and> x \<noteq> 0 \<and>
     (case rd (ptr_add x fp) of Inl e \<Rightarrow> False | Inr n \<Rightarrow> slub_chain rd fp n xs)"

lemma slub_free_loop_chain:
  assumes "slub_chain rd (uc_fp_offset c) f xs" and "n + int (length xs) \<le> ul_nr_objects u"
    and "\<forall>x \<in> set xs. map_of (uc_cpu_freelists c) x = None"
  shows "slub_free_loop rd c f n u = (u\<lparr>ul_free := ul_free u \<union> set xs\<rparr>, None)"
  using assms
proof (induction xs arbitrary: f n u)
  case Nil
  then show ?case by (subst slub_free_loop.simps) simp
next
  case (Cons x xs)
  obtain m where m: "rd (ptr_add x (uc_fp_offset c)) = Inr m" "slub_chain rd (uc_fp_offset c) m xs" "f = x" "x \<noteq> 0"
    using Cons.prems(1) by (auto split: sum.splits)
  have "slub_free_loop rd c m (n + 1) (u\<lparr>ul_free := insert x (ul_free u)\<rparr>) =
      (u\<lparr>ul_free := insert x (ul_free u) \<union> set xs\<rparr>, None)"
    using Cons.IH [of m "n + 1" "u\<lparr>ul_free := insert x (ul_free u)\<rparr>"] m Cons.prems by simp
  then show ?case using m Cons.prems by (subst slub_free_loop.simps) simp
qed

text \<open>A cyclic list: the loop stops after \<open>nr_objects\<close> objects with a message.\<close>

lemma slub_free_loop_cycle:
  assumes "\<And>a. rd a \<noteq> Inr 0" and "\<And>a. \<exists>v. rd a = Inr v" and "f \<noteq> 0" and "n \<le> ul_nr_objects u"
  shows "\<exists>u'. slub_free_loop rd c f n u = (u', None) \<and> TooManyFree \<in> set (ul_msgs u')"
  using assms(3, 4)
proof (induction "nat (ul_nr_objects u - n)" arbitrary: f n u)
  case 0
  then have "ul_nr_objects u < n + 1" by simp
  then show ?case using 0 by (subst slub_free_loop.simps) (simp add: slub_pr_err_def)
next
  case (Suc k)
  define u2 where "u2 = (case map_of (uc_cpu_freelists c) f of
      Some d \<Rightarrow> slub_pr_err (FreeInCpuList f d) (u\<lparr>ul_free := insert f (ul_free u)\<rparr>)
    | None \<Rightarrow> u\<lparr>ul_free := insert f (ul_free u)\<rparr>)"
  have nr: "ul_nr_objects u2 = ul_nr_objects u" by (simp add: u2_def slub_pr_err_def split: option.splits)
  obtain v where v: "rd (ptr_add f (uc_fp_offset c)) = Inr v" "v \<noteq> 0" using assms(1, 2) by metis
  have "\<not> n + 1 > ul_nr_objects u" using Suc by simp
  then have "slub_free_loop rd c f n u = slub_free_loop rd c v (n + 1) u2"
    using Suc.prems v by (subst slub_free_loop.simps) (simp add: u2_def Let_def)
  moreover have "\<exists>u'. slub_free_loop rd c v (n + 1) u2 = (u', None) \<and> TooManyFree \<in> set (ul_msgs u')"
    using Suc nr v by (intro Suc.hyps(1)) auto
  ultimately show ?case by simp
qed

section \<open>Array caches\<close>

definition fill_targets_ok ::
  "(addr \<Rightarrow> int res) \<Rightarrow> (int \<Rightarrow> int res) \<Rightarrow> (addr list \<times> ac_type \<times> int \<times> int) list \<Rightarrow> bool" where
  "fill_targets_ok nid_of node_id fs \<longleftrightarrow> (\<forall>(es, k, src, tgt) \<in> set fs. \<exists>n.
     (if k = AC_PERCPU then node_id tgt else Inr tgt) = Inr n \<and> (\<forall>p \<in> set es. nid_of p = Inr n))"

definition fill_keys :: "(addr list \<times> ac_type \<times> int \<times> int) list \<Rightarrow> addr list" where
  "fill_keys fs = concat (map fst fs)"

lemma fill_entries_ok:
  assumes "\<forall>p \<in> set ptrs. nid_of p = Inr tgt" and "distinct ptrs" and "set ptrs \<inter> fst ` set acs = {}"
  shows "fill_entries nid_of d tgt ptrs acs = (acs @ map (\<lambda>p. (p, d)) ptrs, [], None)"
  using assms
proof (induction ptrs arbitrary: acs)
  case (Cons p ptrs)
  have "map_of acs p = None" using Cons.prems(3) by (auto simp: map_of_eq_None_iff)
  then show ?case using Cons.prems Cons.IH [of "acs @ [(p, d)]"] by auto
qed simp

lemma fill_array_cache_ok:
  assumes "(if k = AC_PERCPU then node_id tgt else Inr tgt) = Inr n" and "\<forall>p \<in> set es. nid_of p = Inr n"
    and "distinct es" and "set es \<inter> fst ` set acs = {}"
  shows "fill_array_cache nid_of node_id es k src tgt acs =
    (acs @ map (\<lambda>p. (p, \<lparr>ac_kind = k, ac_nid_src = src, ac_nid_tgt = tgt\<rparr>)) es, [], None)"
  using assms fill_entries_ok [OF assms(2-4)] by (auto simp: fill_array_cache_def)

lemma fill_all_ok:
  assumes "fill_targets_ok nid_of node_id fs" and "distinct (map fst acs @ fill_keys fs)"
  shows "\<exists>acs'. fill_all nid_of node_id fs acs = (acs', [], None) \<and> map fst acs' = map fst acs @ fill_keys fs"
  using assms
proof (induction fs arbitrary: acs)
  case (Cons f fs)
  obtain es k src tgt where f: "f = (es, k, src, tgt)" by (cases f) auto
  obtain n where n: "(if k = AC_PERCPU then node_id tgt else Inr tgt) = Inr n" "\<forall>p \<in> set es. nid_of p = Inr n"
    using Cons.prems(1) f by (auto simp: fill_targets_ok_def)
  let ?acs = "acs @ map (\<lambda>p. (p, \<lparr>ac_kind = k, ac_nid_src = src, ac_nid_tgt = tgt\<rparr>)) es"
  have "distinct es" "set es \<inter> fst ` set acs = {}"
    using Cons.prems(2) f by (auto simp: fill_keys_def)
  then have step: "fill_array_cache nid_of node_id es k src tgt acs = (?acs, [], None)"
    using fill_array_cache_ok [of k node_id tgt n es nid_of acs src] n by blast
  have keys: "map fst ?acs = map fst acs @ es" by (simp add: comp_def)
  obtain acs' where "fill_all nid_of node_id fs ?acs = (acs', [], None)" "map fst acs' = map fst ?acs @ fill_keys fs"
    using Cons.IH [of ?acs] Cons.prems f unfolding keys by (auto simp: fill_targets_ok_def fill_keys_def)
  then show ?case using step f by (auto simp: fill_keys_def comp_def)
qed (simp add: fill_keys_def)

section \<open>Allocated objects\<close>

lemma allocated_set:
  "set (get_allocated_objects acs sl) = set (get_objects sl) - sl_free sl - fst ` set acs"
  by (auto simp: get_allocated_objects_def obj_in_use_def map_of_eq_None_iff split: option.splits if_splits)

lemma allocated_count:
  assumes "0 < sc_buffer_size (sl_cache sl)" and "0 \<le> sl_nr_objects sl"
    and "sl_free sl \<subseteq> set (get_objects sl)" and "finite C" and "C \<subseteq> set (get_objects sl)" and "C \<inter> sl_free sl = {}"
    and "fst ` set acs \<inter> set (get_objects sl) = C"
  shows "int (length (get_allocated_objects acs sl)) = sl_nr_objects sl - int (card (sl_free sl)) - int (card C)"
proof -
  have d: "distinct (get_objects sl)" "length (get_objects sl) = nat (sl_nr_objects sl)"
    using slab.objects_distinct [of sl] assms(1) by auto
  have "set (get_allocated_objects acs sl) = set (get_objects sl) - (sl_free sl \<union> C)"
    using assms(7) by (auto simp: allocated_set)
  moreover have fin: "finite (sl_free sl)" using assms(3) finite_subset by blast
  moreover have "card (set (get_objects sl) - (sl_free sl \<union> C)) =
      card (set (get_objects sl)) - card (sl_free sl \<union> C)"
    using assms(3-5) fin by (intro card_Diff_subset) auto
  moreover have "card (sl_free sl \<union> C) = card (sl_free sl) + card C"
    using fin assms(4, 6) by (intro card_Un_disjoint) auto
  moreover have "length (get_allocated_objects acs sl) = card (set (get_allocated_objects acs sl))"
    using distinct_card [of "get_allocated_objects acs sl"] d(1) by (simp add: get_allocated_objects_def)
  moreover have "card (sl_free sl \<union> C) \<le> card (set (get_objects sl))"
    using assms(3, 5) by (intro card_mono) auto
  ultimately show ?thesis using d assms(2) distinct_card [OF d(1)] by simp
qed

section \<open>Checking a consistent slab\<close>

definition list_matches :: "slab_list \<Rightarrow> slab \<Rightarrow> bool" where
  "list_matches k sl = (case k of
       SlabFree \<Rightarrow> int (card (sl_free sl)) = sl_nr_objects sl
     | SlabPartial \<Rightarrow> int (card (sl_free sl)) \<noteq> 0 \<and> int (card (sl_free sl)) \<noteq> sl_nr_objects sl
     | SlabFull \<Rightarrow> card (sl_free sl) = 0)"

lemma check_counts_clean:
  assumes "sl_nr_inuse sl + int (card (sl_free sl)) = sl_nr_objects sl" and "list_matches k sl"
  shows "check_counts k sl = sl"
  using assms by (auto simp: check_counts_def list_matches_def Let_def split: slab_list.splits)

lemma check_counts_error:
  assumes "sl_nr_inuse sl + int (card (sl_free sl)) \<noteq> sl_nr_objects sl \<or> \<not> list_matches k sl"
  shows "sl_error (check_counts k sl)"
  using assms
  by (auto simp: check_counts_def list_matches_def Let_def pr_err_def free_error_def split: slab_list.splits)

definition page_matches :: "slab \<Rightarrow> int \<Rightarrow> obj_page \<Rightarrow> bool" where
  "page_matches sl nid p \<longleftrightarrow> op_nid p = nid \<and> op_is_slab p \<and> op_slab_cache p = sc_address (sl_cache sl) \<and>
     (sl_page_slab sl \<or> op_slab_page p = sl_address sl)"

lemma check_objects_clean:
  assumes "\<forall>ob \<in> set obs. \<exists>p. page_of ob = Inr p \<and> page_matches sl nid p"
    and "\<forall>ob \<in> set obs. \<not> (ob \<in> sl_free sl \<and> map_of acs ob \<noteq> None)"
  shows "check_objects page_of acs nid obs lastp sl = (sl, None)"
  using assms
proof (induction obs arbitrary: lastp)
  case (Cons ob obs)
  then obtain p where "page_of ob = Inr p" "page_matches sl nid p" by auto
  then show ?case using Cons by (auto simp: page_matches_def)
qed simp

text \<open>Errors are never taken back.\<close>

lemma pr_err_error [simp]: "sl_error (pr_err m sl)"
  by (simp add: pr_err_def)

lemma check_objects_error: "sl_error sl \<Longrightarrow> sl_error (fst (check_objects page_of acs nid obs lastp sl))"
proof (induction obs arbitrary: lastp sl)
  case (Cons ob obs)
  show ?case
  proof (cases "page_of ob")
    case (Inl e)
    then show ?thesis using Cons by (simp add: Let_def)
  next
    case (Inr p)
    show ?thesis unfolding check_objects.simps Let_def Inr sum.case
      using Cons.prems by (simp add: Cons.IH)
  qed
qed simp

text \<open>
  The checks of the objects miss nothing: a page is checked once for a run of objects on it.
\<close>

lemma pr_err_fields [simp]:
  "sl_free (pr_err m sl) = sl_free sl" "sl_cache (pr_err m sl) = sl_cache sl"
  "sl_page_slab (pr_err m sl) = sl_page_slab sl" "sl_address (pr_err m sl) = sl_address sl"
  "sl_s_mem (pr_err m sl) = sl_s_mem sl" "sl_nr_objects (pr_err m sl) = sl_nr_objects sl"
  by (simp_all add: pr_err_def)

lemma page_matches_pr_err [simp]: "page_matches (pr_err m sl) nid p \<longleftrightarrow> page_matches sl nid p"
  by (simp add: page_matches_def)

definition object_bad :: "(addr \<Rightarrow> obj_page res) \<Rightarrow> array_caches \<Rightarrow> int \<Rightarrow> slab \<Rightarrow> int \<Rightarrow> bool" where
  "object_bad page_of acs nid sl ob \<longleftrightarrow> ob \<in> sl_free sl \<and> map_of acs ob \<noteq> None \<or>
     (case page_of ob of Inl e \<Rightarrow> True | Inr p \<Rightarrow> \<not> page_matches sl nid p)"

lemma object_bad_pr_err [simp]: "object_bad page_of acs nid (pr_err m sl) ob \<longleftrightarrow> object_bad page_of acs nid sl ob"
  by (simp add: object_bad_def split: sum.splits)

definition check_page :: "int \<Rightarrow> int \<Rightarrow> obj_page \<Rightarrow> slab \<Rightarrow> slab" where
  "check_page nid ob p sl =
     (let sl2 = (if op_nid p \<noteq> nid then pr_err (ObjOnNid ob (op_nid p)) sl else sl);
          sl3 = (if \<not> op_is_slab p then pr_err (NotPageSlab ob) sl2 else sl2);
          sl4 = (if op_slab_cache p \<noteq> sc_address (sl_cache sl)
                 then pr_err (WrongCache ob (op_slab_cache p)) sl3 else sl3)
      in if \<not> sl_page_slab sl \<and> op_slab_page p \<noteq> sl_address sl
         then pr_err (WrongSlabPage ob (op_slab_page p)) sl4 else sl4)"

lemma check_page_cases:
  obtains "check_page nid ob p sl = sl" "page_matches sl nid p"
  | "sl_error (check_page nid ob p sl)" "\<not> page_matches sl nid p"
  by (cases "page_matches sl nid p") (auto simp: check_page_def page_matches_def Let_def)

lemma check_page_error: "sl_error sl \<Longrightarrow> sl_error (check_page nid ob p sl)"
  by (auto simp: check_page_def Let_def)

lemma check_objects_page:
  assumes "page_of ob = Inr p" and "op_address p \<noteq> lastp"
  shows "check_objects page_of acs nid (ob # obs) lastp sl =
    check_objects page_of acs nid obs (op_address p) (check_page nid ob p
      (if ob \<in> sl_free sl \<and> map_of acs ob \<noteq> None then pr_err (FreeAndCached ob) sl else sl))"
  using assms by (simp add: check_page_def Let_def)

text \<open>A page that can be read is not at address 0, the value from which \<open>last_page_addr\<close> starts.\<close>

fun page_seen :: "obj_page res \<Rightarrow> bool" where
  "page_seen (Inl e) \<longleftrightarrow> catches GdbNotAvailableError e"
| "page_seen (Inr p) \<longleftrightarrow> op_address p \<noteq> 0"

lemma check_objects_returns:
  "\<forall>ob \<in> set obs. page_seen (page_of ob) \<Longrightarrow> snd (check_objects page_of acs nid obs lastp sl) = None"
proof (induction obs arbitrary: lastp sl)
  case (Cons ob obs)
  then show ?case by (cases "page_of ob") (simp_all add: Let_def)
qed simp

lemma check_objects_exact:
  assumes "\<forall>ob \<in> set obs. page_seen (page_of ob)"
    and "\<And>a b p q. page_of a = Inr p \<Longrightarrow> page_of b = Inr q \<Longrightarrow> op_address p = op_address q \<Longrightarrow> p = q"
    and "sl_error sl \<or> lastp = 0 \<or> (\<exists>a p. page_of a = Inr p \<and> op_address p = lastp \<and> page_matches sl nid p)"
  shows "sl_error (fst (check_objects page_of acs nid obs lastp sl)) \<longleftrightarrow>
    sl_error sl \<or> (\<exists>ob \<in> set obs. object_bad page_of acs nid sl ob)"
  using assms(1, 3)
proof (induction obs arbitrary: lastp sl)
  case (Cons ob obs)
  define sl1 where "sl1 = (if ob \<in> sl_free sl \<and> map_of acs ob \<noteq> None then pr_err (FreeAndCached ob) sl else sl)"
  have bad1: "object_bad page_of acs nid sl1 x \<longleftrightarrow> object_bad page_of acs nid sl x" for x by (simp add: sl1_def)
  have error1: "sl_error sl1 \<longleftrightarrow> sl_error sl \<or> (ob \<in> sl_free sl \<and> map_of acs ob \<noteq> None)"
    by (auto simp: sl1_def)
  show ?case
  proof (cases "page_of ob")
    case (Inl e)
    then have "check_objects page_of acs nid (ob # obs) lastp sl =
        check_objects page_of acs nid obs lastp (pr_err (NoPage ob) sl1)"
      using Cons.prems(1) by (simp add: sl1_def)
    moreover have "object_bad page_of acs nid sl ob" using Inl by (simp add: object_bad_def)
    ultimately show ?thesis using check_objects_error [OF pr_err_error] by auto
  next
    case p: (Inr p)
    have p0: "op_address p \<noteq> 0" using Cons.prems(1) p by simp
    have match1: "page_matches sl1 nid p \<longleftrightarrow> page_matches sl nid p" by (simp add: sl1_def)
    have bad: "object_bad page_of acs nid sl ob \<longleftrightarrow> ob \<in> sl_free sl \<and> map_of acs ob \<noteq> None \<or> \<not> page_matches sl nid p"
      using p by (simp add: object_bad_def)
    show ?thesis
    proof (cases "op_address p = lastp")
      case True
      then have matches: "sl_error sl \<or> page_matches sl nid p" using Cons.prems(2) p p0 assms(2) by blast
      have "check_objects page_of acs nid (ob # obs) lastp sl = check_objects page_of acs nid obs lastp sl1"
        using True p by (simp add: sl1_def)
      moreover have "sl_error sl1 \<or> lastp = 0 \<or> (\<exists>a p. page_of a = Inr p \<and> op_address p = lastp \<and> page_matches sl1 nid p)"
        using Cons.prems(2) by (auto simp: sl1_def)
      ultimately show ?thesis using Cons.IH [of sl1 lastp] Cons.prems(1) matches bad error1 bad1 by auto
    next
      case False
      have eq: "check_objects page_of acs nid (ob # obs) lastp sl =
          check_objects page_of acs nid obs (op_address p) (check_page nid ob p sl1)"
        using check_objects_page [of page_of ob p lastp acs nid obs sl] p False by (simp add: sl1_def)
      show ?thesis
      proof (cases rule: check_page_cases [of nid ob p sl1])
        case 1
        then show ?thesis using eq Cons.IH [of sl1 "op_address p"] Cons.prems(1) p match1 bad error1 bad1 by auto
      next
        case 2
        then show ?thesis using eq match1 bad check_objects_error [OF 2(1)] by auto
      qed
    qed
  qed
qed simp

definition slab_consistent ::
  "(addr \<Rightarrow> obj_page res) \<Rightarrow> array_caches \<Rightarrow> int \<Rightarrow> slab_list \<Rightarrow> int \<Rightarrow> slab \<Rightarrow> bool" where
  "slab_consistent page_of acs slab_nid k nid sl \<longleftrightarrow>
     sl_nr_inuse sl + int (card (sl_free sl)) = sl_nr_objects sl \<and> list_matches k sl \<and>
     (sl_page_slab sl \<longrightarrow> slab_nid = nid) \<and> \<not> (\<exists>ob \<in> set (get_objects sl). object_bad page_of acs nid sl ob)"

lemma check_counts_fields [simp]:
  "sl_free (check_counts k sl) = sl_free sl" "sl_cache (check_counts k sl) = sl_cache sl"
  "sl_page_slab (check_counts k sl) = sl_page_slab sl" "sl_address (check_counts k sl) = sl_address sl"
  by (simp_all add: check_counts_def free_error_def Let_def split: slab_list.splits)

lemma check_counts_keeps_error: "sl_error sl \<Longrightarrow> sl_error (check_counts k sl)"
  by (auto simp: check_counts_def free_error_def pr_err_def Let_def split: slab_list.splits)

text \<open>The checks behind the one for slabs that are kept off.\<close>

definition check_rest :: "slab_env \<Rightarrow> array_caches \<Rightarrow> slab_list \<Rightarrow> int \<Rightarrow> slab \<Rightarrow> slab \<times> exc option" where
  "check_rest env acs k nid sl = check_objects (sv_page_of env) acs nid (get_objects sl) 0
     (if sl_page_slab sl \<and> nid \<noteq> sv_nid env (sl_address sl)
      then pr_err (SlabOnNid (sv_nid env (sl_address sl))) (check_counts k sl) else check_counts k sl)"

lemma check_rest_exact:
  assumes "\<forall>ob \<in> set (get_objects sl). page_seen (sv_page_of env ob)"
    and "\<And>a b p q. sv_page_of env a = Inr p \<Longrightarrow> sv_page_of env b = Inr q \<Longrightarrow> op_address p = op_address q \<Longrightarrow> p = q"
  shows "\<exists>sl'. check_rest env acs k nid sl = (sl', None) \<and>
    (sl_error sl' \<longleftrightarrow> sl_error sl \<or> \<not> slab_consistent (sv_page_of env) acs (sv_nid env (sl_address sl)) k nid sl)"
proof -
  let ?nid = "sv_nid env (sl_address sl)"
  define sl3 where "sl3 = (if sl_page_slab sl \<and> nid \<noteq> ?nid then pr_err (SlabOnNid ?nid) (check_counts k sl) else check_counts k sl)"
  have err2: "sl_error (check_counts k sl) \<longleftrightarrow>
      sl_error sl \<or> sl_nr_inuse sl + int (card (sl_free sl)) \<noteq> sl_nr_objects sl \<or> \<not> list_matches k sl"
    using check_counts_clean [of sl k] check_counts_error [of sl k] check_counts_keeps_error [of sl k] by metis
  have "object_bad (sv_page_of env) acs nid sl3 ob \<longleftrightarrow> object_bad (sv_page_of env) acs nid sl ob" for ob
    by (simp add: sl3_def object_bad_def page_matches_def split: sum.splits)
  then have "sl_error (fst (check_rest env acs k nid sl)) \<longleftrightarrow>
      sl_error sl3 \<or> (\<exists>ob \<in> set (get_objects sl). object_bad (sv_page_of env) acs nid sl ob)"
    using check_objects_exact [of "get_objects sl" "sv_page_of env" sl3 0 nid acs] assms
    by (simp add: check_rest_def flip: sl3_def)
  moreover have "snd (check_rest env acs k nid sl) = None"
    using check_objects_returns [OF assms(1)] by (simp add: check_rest_def)
  moreover have "sl_error sl3 \<longleftrightarrow> sl_error (check_counts k sl) \<or> sl_page_slab sl \<and> ?nid \<noteq> nid" by (auto simp: sl3_def)
  ultimately show ?thesis using err2 unfolding slab_consistent_def by (metis prod.collapse)
qed

lemma slab_consistent_populated [simp]:
  "slab_consistent page_of acs n k nid (sl\<lparr>sl_free := F, sl_free_populated := b\<rparr>) =
   slab_consistent page_of acs n k nid (sl\<lparr>sl_free := F\<rparr>)"
proof -
  have "page_matches (sl\<lparr>sl_free := F, sl_free_populated := b\<rparr>) nid p = page_matches (sl\<lparr>sl_free := F\<rparr>) nid p" for p
    by (simp add: page_matches_def)
  then have "object_bad page_of acs nid (sl\<lparr>sl_free := F, sl_free_populated := b\<rparr>) ob =
      object_bad page_of acs nid (sl\<lparr>sl_free := F\<rparr>) ob" for ob
    by (cases "page_of ob") (simp_all add: object_bad_def)
  moreover have "list_matches k (sl\<lparr>sl_free := F, sl_free_populated := b\<rparr>) = list_matches k (sl\<lparr>sl_free := F\<rparr>)"
    by (cases k) (simp_all add: list_matches_def)
  moreover have "get_objects (sl\<lparr>sl_free := F, sl_free_populated := b\<rparr>) = get_objects (sl\<lparr>sl_free := F\<rparr>)"
    by (simp add: get_objects_def obj_addr_of_def)
  ultimately show ?thesis by (simp add: slab_consistent_def)
qed

text \<open>A \<open>struct slab\<close> that is kept off its slab is an object of a slab of the right cache.\<close>

definition off_slab_ok :: "slab_env \<Rightarrow> string option \<Rightarrow> slab \<Rightarrow> bool" where
  "off_slab_ok env off sl \<longleftrightarrow> (sc_off_slab (sl_cache sl) \<and> \<not> sl_page_slab sl \<longrightarrow>
     (\<exists>s. sv_slab_at env (sl_address sl) = Inr (Some s) \<and>
        (case off of None \<Rightarrow> sc_name (sl_cache s) \<in> {''size-64'', ''size-128''} | Some n \<Rightarrow> sc_name (sl_cache s) = n) \<and>
        contains_obj s (sl_address sl) = Inr (True, sl_address sl)))"

definition off_stage :: "slab_env \<Rightarrow> string option \<Rightarrow> slab \<Rightarrow> slab \<times> string option \<times> exc option" where
  "off_stage env off sl = (if sc_off_slab (sl_cache sl) \<and> \<not> sl_page_slab sl
     then (case sv_slab_at env (sl_address sl) of Inl e \<Rightarrow> (sl, off, Some e) | Inr found \<Rightarrow> check_off_slab found off sl)
     else (sl, off, None))"

definition off_readable :: "slab_env \<Rightarrow> slab \<Rightarrow> bool" where
  "off_readable env sl \<longleftrightarrow> (sc_off_slab (sl_cache sl) \<and> \<not> sl_page_slab sl \<longrightarrow>
     (case sv_slab_at env (sl_address sl) of
        Inl e \<Rightarrow> False | Inr None \<Rightarrow> True | Inr (Some s) \<Rightarrow> \<not> isl (contains_obj s (sl_address sl))))"

lemma off_stage_exact:
  assumes "off_readable env sl"
  shows "\<exists>sl1 off1. off_stage env off sl = (sl1, off1, None) \<and>
    (sl_error sl1 \<longleftrightarrow> sl_error sl \<or> \<not> off_slab_ok env off sl) \<and> (off_slab_ok env off sl \<longrightarrow> sl1 = sl)"
proof (cases "sc_off_slab (sl_cache sl) \<and> \<not> sl_page_slab sl")
  case False
  then show ?thesis by (auto simp: off_stage_def off_slab_ok_def)
next
  case True
  then obtain r where r: "sv_slab_at env (sl_address sl) = Inr r" using assms by (auto simp: off_readable_def split: sum.splits)
  show ?thesis
  proof (cases r)
    case None
    then show ?thesis using True r by (simp add: off_stage_def off_slab_ok_def check_off_slab_def)
  next
    case (Some s)
    obtain b ob where "contains_obj s (sl_address sl) = Inr (b, ob)"
      using assms True r Some by (cases "contains_obj s (sl_address sl)") (auto simp: off_readable_def)
    then show ?thesis using True r Some
      by (auto simp: off_stage_def off_slab_ok_def check_off_slab_def Let_def split: option.splits)
  qed
qed

lemma check_off_slab_same: "same_slab (fst (check_off_slab found off sl)) sl"
proof (cases found)
  case (Some s)
  obtain sl1 off1 where sl1: "(case off of
        None \<Rightarrow> if sc_name (sl_cache s) \<noteq> ''size-64'' \<and> sc_name (sl_cache s) \<noteq> ''size-128''
                then (pr_err (OffSlabWrongCache (sc_name (sl_cache s))) sl, None) else (sl, Some (sc_name (sl_cache s)))
      | Some n \<Rightarrow> (if sc_name (sl_cache s) \<noteq> n then pr_err (OffSlabWrongCache (sc_name (sl_cache s))) sl else sl, Some n)) =
      (sl1, off1)" (is "?x = _") by fastforce
  have "same_slab (fst ?x) sl" by (cases off) simp_all
  then have "same_slab sl1 sl" unfolding sl1 by simp
  then show ?thesis unfolding check_off_slab_def Some option.case Let_def sl1
    by (cases "contains_obj s (sl_address sl)") auto
qed (simp add: check_off_slab_def)

lemma off_stage_same: "off_stage env off sl = (sl1, off1, e) \<Longrightarrow> same_slab sl1 sl"
proof -
  have "same_slab (fst (off_stage env off sl)) sl"
    by (auto simp: off_stage_def check_off_slab_same split: sum.splits)
  then show "off_stage env off sl = (sl1, off1, e) \<Longrightarrow> same_slab sl1 sl" by simp
qed

lemma check_slab_stages:
  assumes "populate_free (sv_freelist env (sl_address sl)) sl = (sl0, None)" and "off_stage env off sl0 = (sl1, off1, None)"
    and "sv_acs env = Inr acs" and "check_rest env acs k nid sl1 = (sl', None)"
  shows "check_slab env k nid off sl = (sl', off1, Inr (int (card (sl_free sl0))))"
proof -
  have same1: "sl_address sl1 = sl_address sl0 \<and> sl_page_slab sl1 = sl_page_slab sl0 \<and> get_objects sl1 = get_objects sl0"
    using off_stage_same [OF assms(2)] same_slab_objects [OF off_stage_same [OF assms(2)]]
    unfolding same_slab_def by simp
  have "off_stage env off sl0 = (if sc_off_slab (sl_cache sl) \<and> \<not> sl_page_slab sl
      then (case sv_slab_at env (sl_address sl) of Inl e \<Rightarrow> (sl0, off, Some e) | Inr found \<Rightarrow> check_off_slab found off sl0)
      else (sl0, off, None))"
    using populate_free_fields [OF assms(1)] by (simp add: off_stage_def)
  then have off: "(if sc_off_slab (sl_cache sl) \<and> \<not> sl_page_slab sl
      then (case sv_slab_at env (sl_address sl) of Inl e \<Rightarrow> (sl0, off, Some e) | Inr found \<Rightarrow> check_off_slab found off sl0)
      else (sl0, off, None)) = (sl1, off1, None)"
    using assms(2) by simp
  have rest: "check_rest env acs k nid sl1 = check_objects (sv_page_of env) acs nid (get_objects sl) 0
     (if sl_page_slab sl \<and> nid \<noteq> sv_nid env (sl_address sl)
      then pr_err (SlabOnNid (sv_nid env (sl_address sl))) (check_counts k sl1) else check_counts k sl1)"
    using same1 populate_free_fields [OF assms(1)] by (simp only: check_rest_def)
  show ?thesis unfolding check_slab_def assms(1) prod.case option.case off
    unfolding Let_def assms(3) sum.case assms(4) [unfolded rest] prod.case by simp
qed

text \<open>
  A slab is sound when the indices of its free list are those of different objects of the slab, the numbers,
  the list, the node, the array caches and the pages agree, and a slab structure kept off it is in order.
\<close>

definition slab_sound :: "slab_env \<Rightarrow> array_caches \<Rightarrow> slab_list \<Rightarrow> int \<Rightarrow> string option \<Rightarrow> slab \<Rightarrow> bool" where
  "slab_sound env acs k nid off sl \<longleftrightarrow> off_slab_ok env off sl \<and>
     (\<exists>is. free_indices (sv_freelist env (sl_address sl)) sl is \<and> fits sl is \<and>
       slab_consistent (sv_page_of env) acs (sv_nid env (sl_address sl)) k nid (sl\<lparr>sl_free := free_obj sl ` set is\<rparr>))"

section \<open>Properties\<close>

definition ex_slab_cache :: slab_cache where
  "ex_slab_cache = \<lparr>sc_address = 64, sc_name = ''dentry'', sc_buffer_size = 32, sc_objs_per_slab = 4,
     sc_off_slab = False\<rparr>"

definition ex_slab :: slab where
  "ex_slab = slab_new 1024 ex_slab_cache False 2 4096"

definition ex_bufctl :: "nat \<Rightarrow> nat res" where
  "ex_bufctl i = (if i = 3 then Inr 1 else Inr (nat BUFCTL_END))"

text \<open>
  SLAB \<open>find_obj\<close> returns an object exactly for the addresses inside it, and only objects that
  \<open>get_objects\<close> enumerates.
\<close>

theorem slab_find_obj_exact:
  assumes "0 < sc_buffer_size (sl_cache sl)"
  shows "find_obj sl a = Inr (Some ob) \<longleftrightarrow>
    ob \<in> set (get_objects sl) \<and> ob \<le> a \<and> a < ob + sc_buffer_size (sl_cache sl)"
proof
  assume "find_obj sl a = Inr (Some ob)"
  then show "ob \<in> set (get_objects sl) \<and> ob \<le> a \<and> a < ob + sc_buffer_size (sl_cache sl)"
    using slab.find_sound [OF assms] by simp
next
  assume h: "ob \<in> set (get_objects sl) \<and> ob \<le> a \<and> a < ob + sc_buffer_size (sl_cache sl)"
  then obtain i where i: "0 \<le> i" "i < sl_nr_objects sl" "ob = sl_s_mem sl + i * sc_buffer_size (sl_cache sl)"
    using slab.objects_iff [OF assms] by auto
  then show "find_obj sl a = Inr (Some ob)"
    using slab.find_slot [OF assms i(1, 2), of "a - ob"] h by simp
qed

theorem slab_find_obj_exact_witness: "find_obj ex_slab 4200 = Inr (Some 4192)"
proof -
  have "4192 \<in> set (get_objects ex_slab) \<and> (4192 :: int) \<le> 4200 \<and> 4200 < 4192 + sc_buffer_size (sl_cache ex_slab)"
    by (simp add: ex_slab_def slab_new_def ex_slab_cache_def get_objects_def obj_addr_of_def)
  then show ?thesis using slab_find_obj_exact [of ex_slab 4200 4192]
    by (simp add: ex_slab_def slab_new_def ex_slab_cache_def)
qed

definition ex_slub_cache :: slub_cache where
  "ex_slub_cache = \<lparr>uc_address = 64, uc_name = ''kmalloc-32'', uc_size = 64, uc_object_size = 32, uc_flags = 0x400,
     uc_fp_offset = 8, uc_red_left_pad = 16, uc_inuse = 40, uc_cpu_slabs = [], uc_node_slabs = [],
     uc_cpu_slabs_objects = 0, uc_cpu_slabs_free = 0, uc_cpu_freelists = [], uc_processed = False\<rparr>"

definition ex_slub :: slub where
  "ex_slub = \<lparr>ul_address = 128, ul_nr_objects = 4, ul_nr_inuse = 2, ul_base_address = 4096, ul_frozen = 0,
     ul_free = {}, ul_free_populated = False, ul_error = False, ul_msgs = []\<rparr>"

text \<open>
  SLUB \<open>contains_obj\<close> accepts an address exactly when it lies in the slot of an object, not before the
  object, and at most \<open>inuse\<close> bytes after its start: the first byte behind the object included.
\<close>

theorem slub_contains_obj_exact:
  assumes "0 < uc_size c"
  shows "slub_contains_obj c u a = Inr (True, ob, None) \<longleftrightarrow>
    ob \<in> set (slub_get_objects c u) \<and> ob \<noteq> 0 \<and> ob - red_left_pad c \<le> a \<and> a < ob - red_left_pad c + uc_size c \<and>
    ob \<le> a \<and> a \<le> ob + uc_inuse c"
proof -
  have ok: "(\<lambda>(c, u). 0 < uc_size c) (c, u)" using assms by simp
  have "slub_find_obj c u a = Inr (Some ob) \<longleftrightarrow>
      ob \<in> set (slub_get_objects c u) \<and> ob - red_left_pad c \<le> a \<and> a < ob - red_left_pad c + uc_size c"
    (is "?L \<longleftrightarrow> ?R")
  proof
    assume ?L
    then show ?R using slub.find_sound [OF ok, of a ob] by simp
  next
    assume ?R
    then obtain i where i: "0 \<le> i" "i < ul_nr_objects u" "ob = ul_base_address u + red_left_pad c + i * uc_size c"
      using slub.objects_iff [OF ok, of ob] by auto
    then show ?L using slub.find_slot [OF ok, of i "a - ob + red_left_pad c"] \<open>?R\<close> by simp
  qed
  then show ?thesis
    by (cases "slub_find_obj c u a") (auto simp: slub_contains_obj_def split: option.splits)
qed

theorem slub_contains_obj_exact_witness: "slub_contains_obj ex_slub_cache ex_slub 4216 = Inr (True, 4176, None)"
proof -
  have "4176 \<in> set (slub_get_objects ex_slub_cache ex_slub)" by code_simp
  then show ?thesis using slub_contains_obj_exact [of ex_slub_cache ex_slub 4216 4176]
    by (simp add: ex_slub_cache_def red_left_pad_def SLAB_RED_ZONE_def)
qed

text \<open>
  \<open>populate_free\<close> of a SLAB slab with a well-formed chain of indices collects exactly the objects of the
  chain, without an error.
\<close>

theorem populate_free_chain:
  assumes "\<not> sl_free_populated sl" and "\<not> sl_page_slab sl" and "sl_free sl = {}" and "sc_buffer_size (sl_cache sl) \<noteq> 0"
    and "bufctl_chain (fl_bufctl fl) (fl_first fl) is" and "distinct is" and "\<forall>i \<in> set is. int i < sl_nr_objects sl"
  shows "populate_free fl sl = (sl\<lparr>sl_free := free_obj sl ` set is, sl_free_populated := True\<rparr>, None)"
proof -
  have "fits sl is"
    using assms(3, 4, 6, 7) by (auto simp: fits_def distinct_map inj_on_def free_obj_def obj_addr_of_def)
  then show ?thesis using populate_bufctl_chain [OF assms(5)] assms(1-3)
    by (simp add: populate_free_def do_populate_free_def)
qed

theorem populate_free_chain_witness:
  "populate_free \<lparr>fl_array = (\<lambda>i. Inr (nat i)), fl_first = 3, fl_bufctl = ex_bufctl\<rparr> ex_slab =
     (ex_slab\<lparr>sl_free := {4192, 4128}, sl_free_populated := True\<rparr>, None)"
  using populate_free_chain [of ex_slab "\<lparr>fl_array = (\<lambda>i. Inr (nat i)), fl_first = 3, fl_bufctl = ex_bufctl\<rparr>" "[3, 1]"]
  by (simp add: ex_slab_def slab_new_def ex_slab_cache_def ex_bufctl_def BUFCTL_END_def free_obj_def obj_addr_of_def)

text \<open>
  C27: \<open>populate_free\<close> of a SLUB slab whose free list has as many distinct objects as the slab counts as free,
  none on a per-CPU list, collects exactly these objects, without an error.
\<close>

theorem slub_populate_free_chain:
  assumes "\<not> ul_free_populated u" and "slub_chain rd (uc_fp_offset c) f xs" and "distinct xs"
    and "int (length xs) = ul_nr_free u" and "0 \<le> ul_nr_inuse u"
    and "\<forall>x \<in> set xs. map_of (uc_cpu_freelists c) x = None"
  shows "slub_populate_free rd c (Inr f) u = (u\<lparr>ul_free := set xs, ul_free_populated := True\<rparr>, None)"
proof -
  have "slub_free_loop rd c f 0 (u\<lparr>ul_free := {}\<rparr>) = (u\<lparr>ul_free := set xs\<rparr>, None)"
    using slub_free_loop_chain [of rd c f xs 0 "u\<lparr>ul_free := {}\<rparr>"] assms by (simp add: ul_nr_free_def)
  moreover have "int (card (set xs)) = ul_nr_free u" using assms(3, 4) by (simp add: distinct_card)
  ultimately show ?thesis using assms(1) by (simp add: slub_populate_free_def ul_nr_free_def)
qed

definition ex_slub_rd :: "addr \<Rightarrow> addr res" where
  "ex_slub_rd a = (if a = 4120 then Inr 4304 else if a = 4312 then Inr 0 else Inl GdbMemoryError)"

theorem slub_populate_free_chain_witness:
  "slub_populate_free ex_slub_rd ex_slub_cache (Inr 4112) ex_slub =
     (ex_slub\<lparr>ul_free := {4112, 4304}, ul_free_populated := True\<rparr>, None)"
  using slub_populate_free_chain [of ex_slub ex_slub_rd ex_slub_cache 4112 "[4112, 4304]"]
  by (simp add: ex_slub_def ex_slub_cache_def ex_slub_rd_def ul_nr_free_def ptr_add_def)

text \<open>
  A free list of SLUB that never ends is read up to \<open>nr_objects\<close> objects; then the slab is in error and
  the traversal is given up with a message.
\<close>

theorem slub_populate_free_cycle:
  assumes "\<not> ul_free_populated u" and "\<And>a. \<exists>v. v \<noteq> 0 \<and> rd a = Inr v" and "f \<noteq> 0" and "0 \<le> ul_nr_objects u"
  shows "\<exists>u'. slub_populate_free rd c (Inr f) u = (u', None) \<and> TooManyFree \<in> set (ul_msgs u')"
proof -
  have "rd a \<noteq> Inr 0" "\<exists>v. rd a = Inr v" for a using assms(2) [of a] by auto
  then obtain u' where "slub_free_loop rd c f 0 (u\<lparr>ul_free := {}\<rparr>) = (u', None)" "TooManyFree \<in> set (ul_msgs u')"
    using slub_free_loop_cycle [of rd f 0 "u\<lparr>ul_free := {}\<rparr>" c] assms(3, 4) by auto
  then show ?thesis using assms(1) by (simp add: slub_populate_free_def slub_pr_err_def)
qed

theorem slub_populate_free_cycle_witness:
  "\<exists>u'. slub_populate_free (\<lambda>a. Inr 4112) ex_slub_cache (Inr 4112) ex_slub = (u', None) \<and> TooManyFree \<in> set (ul_msgs u')"
  by (rule slub_populate_free_cycle) (auto simp: ex_slub_def)

text \<open>
  The array caches of CPUs and nodes that hold distinct objects of the right nodes are filled without a
  message, and hold every cached pointer in the order of the code.
\<close>

theorem fill_all_array_caches_ok:
  assumes "fill_targets_ok nid_of node_id (cache_fills percpu nodes)"
    and "distinct (fill_keys (cache_fills percpu nodes))"
  shows "\<exists>acs. fill_all_array_caches nid_of node_id percpu nodes = (acs, [], None) \<and>
    map fst acs = fill_keys (cache_fills percpu nodes)"
  using fill_all_ok [of nid_of node_id "cache_fills percpu nodes" "[]"] assms
  by (simp add: fill_all_array_caches_def)

theorem fill_all_array_caches_ok_witness:
  "\<exists>acs. fill_all_array_caches (\<lambda>p. Inr (p div 1024)) (\<lambda>cpu. Inr (cpu div 2)) [(0, [16, 32]), (2, [1040])]
       [\<lparr>nc_nid = 0, nc_shared = Some [64], nc_alien = Some [(0, [80]), (1, [1056])]\<rparr>] = (acs, [], None) \<and>
     map fst acs = [16, 32, 1040, 64, 1056]"
proof -
  let ?fs = "cache_fills [(0, [16, 32]), (2, [1040])]
    [\<lparr>nc_nid = 0, nc_shared = Some [64], nc_alien = Some [(0, [80]), (1, [1056])]\<rparr>]"
  have fs: "?fs = [([16, 32], AC_PERCPU, -1, 0), ([1040], AC_PERCPU, -1, 2), ([64], AC_SHARED, 0, 0), ([1056], AC_ALIEN, 0, 1)]"
    by (simp add: cache_fills_def)
  show ?thesis
    using fill_all_array_caches_ok [of "\<lambda>p. Inr (p div 1024)" "\<lambda>cpu. Inr (cpu div 2)" "[(0, [16, 32]), (2, [1040])]"
      "[\<lparr>nc_nid = 0, nc_shared = Some [64], nc_alien = Some [(0, [80]), (1, [1056])]\<rparr>]"]
    unfolding fs by (simp add: fill_targets_ok_def fill_keys_def)
qed

text \<open>
  The allocated objects of a SLAB slab are its objects that are neither free nor in an array cache, and
  there are \<open>nr_objects\<close> less the free and the cached ones of them.
\<close>

theorem slab_allocated_objects:
  assumes "0 < sc_buffer_size (sl_cache sl)" and "0 \<le> sl_nr_objects sl" and "sl_free sl \<subseteq> set (get_objects sl)"
    and "fst ` set acs \<inter> sl_free sl = {}"
  shows "set (get_allocated_objects acs sl) = set (get_objects sl) - sl_free sl - fst ` set acs \<and>
    int (length (get_allocated_objects acs sl)) =
      sl_nr_objects sl - int (card (sl_free sl)) - int (card (fst ` set acs \<inter> set (get_objects sl)))"
  using allocated_set [of acs sl] allocated_count [OF assms(1-3), of "fst ` set acs \<inter> set (get_objects sl)" acs] assms(4)
  by auto

theorem slab_allocated_objects_witness:
  "int (length (get_allocated_objects [(4160, \<lparr>ac_kind = AC_PERCPU, ac_nid_src = -1, ac_nid_tgt = 0\<rparr>)]
     (ex_slab\<lparr>sl_free := {4128}\<rparr>))) = 2"
proof -
  have objs: "set (get_objects (ex_slab\<lparr>sl_free := {4128}\<rparr>)) = {4096, 4128, 4160, 4192}"
    by (simp add: ex_slab_def slab_new_def ex_slab_cache_def get_objects_def obj_addr_of_def)
       (simp add: upto_rec1 flip: set_upto)
  show ?thesis
    using slab_allocated_objects [of "ex_slab\<lparr>sl_free := {4128}\<rparr>" "[(4160, \<lparr>ac_kind = AC_PERCPU, ac_nid_src = -1, ac_nid_tgt = 0\<rparr>)]"]
    unfolding objs by (simp add: ex_slab_def slab_new_def ex_slab_cache_def)
qed

text \<open>
  C12: \<open>check\<close> of a slab object as its constructor made it, whose free list, array caches and (if the slab structure
  is kept off the slab) holding slab can be read, and whose pages can be read or are not available, returns
  the number of the free objects it has read, and marks the slab in error exactly when it is not sound: an
  index of the free list is out of range or occurs twice, the numbers do not add up, it is on the wrong
  list or node, an object is both free and cached, a page is missing or does not belong to the slab, or a
  slab structure kept off the slab is not an object of a slab of the right cache.
\<close>

theorem check_slab_exact:
  assumes "\<not> sl_error sl" and "\<not> sl_free_populated sl" and "sl_free sl = {}"
    and "populate_free (sv_freelist env (sl_address sl)) sl = (sl0, None)"
    and "off_readable env sl" and "sv_acs env = Inr acs"
    and "\<forall>ob \<in> set (get_objects sl). page_seen (sv_page_of env ob)"
    and "\<And>a b p q. sv_page_of env a = Inr p \<Longrightarrow> sv_page_of env b = Inr q \<Longrightarrow> op_address p = op_address q \<Longrightarrow> p = q"
  shows "\<exists>sl' off'. check_slab env k nid off sl = (sl', off', Inr (int (card (sl_free sl0)))) \<and>
    (sl_error sl' \<longleftrightarrow> \<not> slab_sound env acs k nid off sl)"
proof -
  note same = populate_free_fields [OF assms(4)]
  have ok0: "off_slab_ok env off sl0 \<longleftrightarrow> off_slab_ok env off sl" using same by (simp add: off_slab_ok_def)
  have "off_readable env sl0" using assms(5) same(1-3) by (simp add: off_readable_def cong: sum.case_cong option.case_cong)
  then obtain sl1 off1 where sl1: "off_stage env off sl0 = (sl1, off1, None)"
    "sl_error sl1 \<longleftrightarrow> sl_error sl0 \<or> \<not> off_slab_ok env off sl" "off_slab_ok env off sl \<longrightarrow> sl1 = sl0"
    using off_stage_exact [of env sl0 off] ok0 by auto
  have "get_objects sl1 = get_objects sl"
    using same_slab_objects [OF off_stage_same [OF sl1(1)]] same(5) by simp
  then obtain sl' where sl': "check_rest env acs k nid sl1 = (sl', None)"
    "sl_error sl' \<longleftrightarrow> sl_error sl1 \<or> \<not> slab_consistent (sv_page_of env) acs (sv_nid env (sl_address sl1)) k nid sl1"
    using check_rest_exact [of sl1 env acs k nid] assms(7, 8) by auto
  have bad: "sl_error sl0 \<longleftrightarrow> \<not> (\<exists>is. free_indices (sv_freelist env (sl_address sl)) sl is \<and> fits sl is)"
    using populate_free_error [OF assms(2, 4)] assms(1) by simp
  have good: "sl0 = sl\<lparr>sl_free := free_obj sl ` set is, sl_free_populated := True\<rparr>"
    if "free_indices (sv_freelist env (sl_address sl)) sl is" "fits sl is" for "is"
    using populate_free_result [OF assms(2) that] assms(3, 4) by simp
  have "sl_error sl' \<longleftrightarrow> \<not> slab_sound env acs k nid off sl"
  proof (cases "off_slab_ok env off sl \<and> \<not> sl_error sl0")
    case True
    then obtain "is" where ix: "free_indices (sv_freelist env (sl_address sl)) sl is" "fits sl is" using bad by blast
    have eq: "slab_consistent (sv_page_of env) acs (sv_nid env (sl_address sl)) k nid sl0 =
        slab_consistent (sv_page_of env) acs (sv_nid env (sl_address sl)) k nid (sl\<lparr>sl_free := free_obj sl ` set js\<rparr>)"
      if "free_indices (sv_freelist env (sl_address sl)) sl js" "fits sl js" for js
      using good [OF that] by simp
    show ?thesis using True sl1 sl'(2) same(1) ix eq unfolding slab_sound_def by auto
  next
    case False
    then show ?thesis using sl1(2) sl'(2) bad unfolding slab_sound_def by blast
  qed
  then show ?thesis using check_slab_stages [OF assms(4) sl1(1) assms(6) sl'(1)] by blast
qed

definition ex_obj_page :: "addr \<Rightarrow> obj_page res" where
  "ex_obj_page ob = Inr \<lparr>op_address = 8192, op_nid = 0, op_is_slab = True, op_slab_cache = 64, op_slab_page = 1024\<rparr>"

text \<open>A cache whose slab structures are kept off, in objects of the cache \<^verbatim>\<open>size-64\<close>.\<close>

definition ex_slab_env :: slab_env where
  "ex_slab_env = \<lparr>sv_freelist = (\<lambda>_. \<lparr>fl_array = (\<lambda>i. Inr (nat i)), fl_first = 3, fl_bufctl = ex_bufctl\<rparr>),
     sv_nid = (\<lambda>_. 0), sv_page_of = ex_obj_page, sv_acs = Inr [],
     sv_slab_at = (\<lambda>_. Inr (Some (slab_new 2048 (ex_slab_cache\<lparr>sc_name := ''size-64'', sc_buffer_size := 64\<rparr>) False 4 1024)))\<rparr>"

definition ex_off_slab :: slab where
  "ex_off_slab = slab_new 1024 (ex_slab_cache\<lparr>sc_off_slab := True\<rparr>) False 2 4096"

theorem check_slab_exact_witness:
  "\<exists>sl' off'. check_slab ex_slab_env SlabPartial 0 None ex_off_slab = (sl', off', Inr 2) \<and>
     (sl_error sl' \<longleftrightarrow> \<not> slab_sound ex_slab_env [] SlabPartial 0 None ex_off_slab)"
proof -
  let ?sl0 = "ex_off_slab\<lparr>sl_free := {4192, 4128}, sl_free_populated := True\<rparr>"
  have pop: "populate_free (sv_freelist ex_slab_env (sl_address ex_off_slab)) ex_off_slab = (?sl0, None)"
    using populate_free_chain [of ex_off_slab "sv_freelist ex_slab_env (sl_address ex_off_slab)" "[3, 1]"]
    by (simp add: ex_slab_env_def ex_off_slab_def slab_new_def ex_slab_cache_def ex_bufctl_def BUFCTL_END_def free_obj_def
        obj_addr_of_def)
  have "off_readable ex_slab_env ex_off_slab" by code_simp
  moreover have "\<forall>ob \<in> set (get_objects ex_off_slab). page_seen (sv_page_of ex_slab_env ob)"
    "sv_page_of ex_slab_env a = Inr p \<Longrightarrow> sv_page_of ex_slab_env b = Inr q \<Longrightarrow> op_address p = op_address q \<Longrightarrow> p = q" for a b p q
    by (simp_all add: ex_slab_env_def ex_obj_page_def)
  moreover have "\<not> sl_error ex_off_slab" "\<not> sl_free_populated ex_off_slab" "sl_free ex_off_slab = {}" "sv_acs ex_slab_env = Inr []"
    by (simp_all add: ex_off_slab_def slab_new_def ex_slab_env_def)
  ultimately show ?thesis using check_slab_exact [OF _ _ _ pop, of "[]" SlabPartial 0 None] by simp
qed

end
