(* ===== verification/Kmem_Cache.thy ===== *)
theory Kmem_Cache
  imports Slab
begin

text \<open>
  Whole caches: the checks of the slab lists of a SLAB cache and the accounting of a SLUB cache, the
  methods \<open>check_all\<close> of \<^verbatim>\<open>KmemCacheSLAB\<close> and \<open>process_all\<close> of \<^verbatim>\<open>KmemCacheSLUB\<close> in
  \<^verbatim>\<open>crash/types/slab.py\<close>.

  Output is a list of \<open>out\<close> values.  A slab that a list iterator finds is the slab object together with
  the result of its \<open>check\<close>.
\<close>

section \<open>Checking the lists of a SLAB cache\<close>

subsection \<open>One slab\<close>

type_synonym misplaced_msg = "addr \<times> string"

datatype out =
    OkBetween int addr addr
  | MisplacedFirst misplaced_msg
  | MisplacedLast int "misplaced_msg option"
  | CheckFailed addr
  | WrongHead addr slab_list
  | InitFailed addr
  | Unrecoverable slab_list
  | CheckingList slab_list addr
  | Retrying
  | FreeMismatch int int int

record check_errors =
  first_ok :: "addr option"
  last_ok :: "addr option"
  num_ok :: int
  last_misplaced :: "misplaced_msg option"
  num_misplaced :: int

definition no_errors :: check_errors where
  "no_errors = \<lparr>first_ok = None, last_ok = None, num_ok = 0, last_misplaced = None, num_misplaced = 0\<rparr>"

text \<open>The message kept for a misplaced slab.\<close>

definition misplaced_error :: "slab \<Rightarrow> misplaced_msg option" where
  "misplaced_error sl = map_option (Pair (sl_address sl)) (sl_misplaced sl)"

text \<open>
  \<open>print\<close> of \<open>errors['last_misplaced']\<close> and of the addresses; \<open>None\<close> formatted with \<open>:x\<close> is a
  \<^verbatim>\<open>TypeError\<close>.
\<close>

definition print_ok :: "check_errors \<Rightarrow> out list res" where
  "print_ok er = (case (first_ok er, last_ok er) of
       (Some f, Some l) \<Rightarrow> Inr [OkBetween (num_ok er) f l] | _ \<Rightarrow> Inl TypeError)"

definition print_misplaced :: "check_errors \<Rightarrow> out list" where
  "print_misplaced er = [MisplacedLast (num_misplaced er) (last_misplaced er)]"

definition account_slab :: "slab \<Rightarrow> check_errors \<Rightarrow> (out list \<times> check_errors) res" where
  "account_slab sl er =
     (let flush = misplaced_error sl = None \<and> num_misplaced er > 0;
          o1 = (if flush then print_misplaced er else []);
          er1 = (if flush then er\<lparr>num_misplaced := 0, last_misplaced := None\<rparr> else er)
      in if \<not> sl_error sl then
           Inr (o1, er1\<lparr>num_ok := num_ok er1 + 1, last_ok := Some (sl_address sl),
              first_ok := (if first_ok er1 = None \<or> first_ok er1 = Some 0 then Some (sl_address sl) else first_ok er1)\<rparr>)
         else
           bindR (if num_ok er1 > 0 then print_ok er1 else Inr []) (\<lambda>o2.
             let er2 = (if num_ok er1 > 0 then er1\<lparr>num_ok := 0, first_ok := None, last_ok := None\<rparr> else er1)
             in Inr (case misplaced_error sl of
                    None \<Rightarrow> (o1 @ o2, er2)
                  | Some m \<Rightarrow> (o1 @ o2 @ (if num_misplaced er2 = 0 then [MisplacedFirst m] else []),
                      er2\<lparr>num_misplaced := num_misplaced er2 + 1, last_misplaced := Some m\<rparr>))))"

text \<open>
  \<open>__check_slab\<close>: a slab in error is not checked.  \<open>chk\<close> is \<open>slab.check\<close> for the list and node; \<open>off\<close> is the
  attribute \<open>off_slab_cache\<close> of the cache, which every check may set for the following ones.
\<close>

type_synonym slab_check = "string option \<Rightarrow> slab \<Rightarrow> slab \<times> string option \<times> int res"

definition check_one ::
  "slab_check \<Rightarrow> string option \<Rightarrow> slab \<Rightarrow> check_errors \<Rightarrow> string option \<times> (int \<times> out list \<times> check_errors) res" where
  "check_one chk off sl er =
     (if sl_error sl then (off, bindR (account_slab sl er) (\<lambda>(os, er'). Inr (0, os, er')))
      else (case chk off sl of
          (sl', off', Inl e) \<Rightarrow> (off', Inl e)
        | (sl', off', Inr free) \<Rightarrow> (off', bindR (account_slab sl' er) (\<lambda>(os, er'). Inr (free, os, er')))))"

subsection \<open>One list\<close>

text \<open>
  \<open>get_slabs_of_type\<close>: a list head is skipped when it belongs to one of the other lists or when the slab
  cannot be read.  \<open>from_head\<close> is \<open>SlabSLAB.from_list_head\<close>.
\<close>

datatype slab_item = Found slab | Skipped out

definition slab_item_of :: "(addr \<times> slab_list) list \<Rightarrow> (addr \<Rightarrow> slab res) \<Rightarrow> addr \<Rightarrow> slab_item gen" where
  "slab_item_of wrong from_head a = (case map_of wrong a of
       Some k \<Rightarrow> gen_of_list [Skipped (WrongHead a k)]
     | None \<Rightarrow> (case from_head a of
           Inr sl \<Rightarrow> gen_of_list [Found sl]
         | Inl e \<Rightarrow> if catches GdbNotAvailableError e then gen_of_list [Skipped (InitFailed a)] else gen_raise e))"

definition get_slabs_of_type ::
  "list_mem \<Rightarrow> (slab_list \<Rightarrow> addr) \<Rightarrow> (addr \<Rightarrow> slab res) \<Rightarrow> slab_list \<Rightarrow> bool \<Rightarrow> bool \<Rightarrow> slab_item gen option" where
  "get_slabs_of_type mem heads from_head k rev_order exact =
     map_option (\<lambda>g. gen_bind g (slab_item_of
         (map (\<lambda>t. (heads t, t)) (filter (\<lambda>t. t \<noteq> k) [SlabFree, SlabFull, SlabPartial])) from_head))
       (list_for_each mem (ListObj (heads k)) \<lparr>include_head = False, reverse = rev_order, exact_cycles = exact\<rparr>)"

text \<open>The loop over the slabs: the numbers of slabs and of free objects, the output, and an exception that is not caught inside.\<close>

fun check_items ::
  "slab_check \<Rightarrow> slab_item list \<Rightarrow> string option \<Rightarrow> int \<Rightarrow> int \<Rightarrow> check_errors \<Rightarrow>
     int \<times> int \<times> check_errors \<times> string option \<times> out list \<times> exc option" where
  "check_items chk [] off slabs free er = (slabs, free, er, off, [], None)"
| "check_items chk (Skipped m # its) off slabs free er =
     (let (n, f, er', off', os, e) = check_items chk its off slabs free er in (n, f, er', off', m # os, e))"
| "check_items chk (Found sl # its) off slabs free er = (case check_one chk off sl er of
       (off1, Inl e) \<Rightarrow>
         if catches GdbNotAvailableError e
         then let (n, f, er', off', os, x) = check_items chk its off1 (slabs + 1) free er
              in (n, f, er', off', CheckFailed (sl_address sl) # os, x)
         else (slabs, free, er, off1, [], Some e)
     | (off1, Inr (k, o1, er1)) \<Rightarrow>
         let (n, f, er', off', os, x) = check_items chk its off1 (slabs + 1) (free + k) er1
         in (n, f, er', off', o1 @ os, x))"

text \<open>
  \<open>___check_slabs\<close>.  The two summaries at the end are printed after an error that is caught too.
\<close>

definition final_report :: "check_errors \<Rightarrow> out list" where
  "final_report er =
     (case (first_ok er, last_ok er) of
        (Some f, Some l) \<Rightarrow> if num_ok er \<noteq> 0 then [OkBetween (num_ok er) f l] else [] | _ \<Rightarrow> []) @
     (if num_misplaced er \<noteq> 0 then print_misplaced er else [])"

definition check_slabs_once ::
  "slab_check \<Rightarrow> slab_list \<Rightarrow> slab_item gen \<Rightarrow> string option \<Rightarrow> (bool \<times> int \<times> int) res \<times> string option \<times> out list" where
  "check_slabs_once chk k items off =
     (let (n, f, er, off', os, x) = check_items chk (fst items) off 0 0 no_errors;
          failure = (case x of Some e \<Rightarrow> Some e | None \<Rightarrow> snd items)
      in case failure of
           None \<Rightarrow> (Inr (True, n, f), off', os @ final_report er)
         | Some e \<Rightarrow>
             if catches GdbNotAvailableError e \<or> catches ListError e
             then (Inr (False, n, f), off', os @ [Unrecoverable k] @ final_report er)
             else (Inl e, off', os))"

text \<open>\<open>__check_slabs\<close>: an unrecoverable error makes the list be walked from its other end, too.\<close>

definition check_slabs ::
  "slab_check \<Rightarrow> slab_list \<Rightarrow> addr \<Rightarrow> slab_item gen \<Rightarrow> slab_item gen \<Rightarrow> string option \<Rightarrow>
     int res \<times> string option \<times> out list" where
  "check_slabs chk k head fwd bwd off = (case check_slabs_once chk k fwd off of
       (Inl e, off1, os) \<Rightarrow> (Inl e, off1, CheckingList k head # os)
     | (Inr (True, n, f), off1, os) \<Rightarrow> (Inr f, off1, CheckingList k head # os)
     | (Inr (False, n, f), off1, os) \<Rightarrow> (case check_slabs_once chk k bwd off1 of
           (Inl e, off2, os2) \<Rightarrow> (Inl e, off2, CheckingList k head # os @ [Retrying] @ os2)
         | (Inr (_, n2, f2), off2, os2) \<Rightarrow> (Inr (f + f2), off2, CheckingList k head # os @ [Retrying] @ os2)))"

subsection \<open>Array caches\<close>

text \<open>
  \<open>check_array_caches\<close>: the slab of a cached pointer, if there is one, is given by the address and name of its
  cache and by \<open>contains_obj\<close>.  The messages format the entry, a dictionary, with \<open>:x\<close>: a \<^verbatim>\<open>TypeError\<close>.
\<close>

definition check_cached :: "addr \<Rightarrow> (addr \<Rightarrow> (addr \<times> string \<times> bool \<times> addr \<times> bool) option res) \<Rightarrow> addr \<Rightarrow> unit res" where
  "check_cached cache_address slab_of ptr = bindR (slab_of ptr) (\<lambda>r. case r of
       None \<Rightarrow> Inl TypeError
     | Some (ca, name, contains, ob, described) \<Rightarrow>
         if ca \<noteq> cache_address then Inl TypeError
         else if \<not> contains \<and> \<not> described then Inl TypeError
         else if ob \<noteq> ptr then Inl TypeError
         else Inr ())"

fun check_array_caches ::
  "addr \<Rightarrow> (addr \<Rightarrow> (addr \<times> string \<times> bool \<times> addr \<times> bool) option res) \<Rightarrow> array_caches \<Rightarrow> unit res" where
  "check_array_caches ca slab_of [] = Inr ()"
| "check_array_caches ca slab_of ((ptr, d) # acs) =
     bindR (check_cached ca slab_of ptr) (\<lambda>_. check_array_caches ca slab_of acs)"

subsection \<open>All lists of a node\<close>

record node_check =
  nck_nid :: int
  nck_free_objects :: int
  nck_heads :: "slab_list \<Rightarrow> addr"
  nck_lists :: "slab_list \<Rightarrow> slab_item gen \<times> slab_item gen"

type_synonym list_check = "slab_list \<Rightarrow> int \<Rightarrow> slab_check"

text \<open>
  One node of \<open>check_all\<close>.  The sum is taken over the three lists in this order; \<open>acs_ok\<close> is the result of
  \<open>check_array_caches\<close>.
\<close>

definition check_list :: "list_check \<Rightarrow> node_check \<Rightarrow> slab_list \<Rightarrow> string option \<Rightarrow> int res \<times> string option \<times> out list" where
  "check_list chk nd k = check_slabs (chk k (nck_nid nd)) k (nck_heads nd k) (fst (nck_lists nd k)) (snd (nck_lists nd k))"

fun check_lists ::
  "list_check \<Rightarrow> node_check \<Rightarrow> slab_list list \<Rightarrow> int \<Rightarrow> string option \<Rightarrow> int res \<times> string option \<times> out list" where
  "check_lists chk nd [] free off = (Inr free, off, [])"
| "check_lists chk nd (k # ks) free off = (case check_list chk nd k off of
       (Inl e, off1, os) \<Rightarrow> (Inl e, off1, os)
     | (Inr f, off1, os) \<Rightarrow> let (r, off2, os2) = check_lists chk nd ks (free + f) off1 in (r, off2, os @ os2))"

definition check_node ::
  "list_check \<Rightarrow> unit res \<Rightarrow> node_check \<Rightarrow> string option \<Rightarrow> string option \<times> out list \<times> exc option" where
  "check_node chk acs_ok nd off = (case check_lists chk nd [SlabPartial, SlabFull, SlabFree] 0 off of
       (Inl e, off1, os) \<Rightarrow> (off1, os, Some e)
     | (Inr f, off1, os) \<Rightarrow>
         (off1, os @ (if nck_free_objects nd \<noteq> f then [FreeMismatch (nck_nid nd) (nck_free_objects nd) f] else []),
          case acs_ok of Inl e \<Rightarrow> Some e | Inr _ \<Rightarrow> None))"

fun check_all ::
  "list_check \<Rightarrow> unit res \<Rightarrow> node_check list \<Rightarrow> string option \<Rightarrow> string option \<times> out list \<times> exc option" where
  "check_all chk acs_ok [] off = (off, [], None)"
| "check_all chk acs_ok (nd # nds) off = (case check_node chk acs_ok nd off of
       (off1, os, Some e) \<Rightarrow> (off1, os, Some e)
     | (off1, os, None) \<Rightarrow> let (off2, os2, e) = check_all chk acs_ok nds off1 in (off2, os @ os2, e))"

section \<open>Processing a SLUB cache\<close>

text \<open>
  The print levels 0 (\<open>slub_process_once\<close>) and 1 (\<open>check_all\<close>); the listings of the higher levels, which call
  back into the cache while it is processed, are not modelled.
\<close>

datatype slub_out =
    BothSlabs addr string string
  | CpuListMsg cpu_list_msg
  | SlabMsgs addr "slab_msg list"
  | PagesField int addr int int
  | LastPages int int
  | NodePartial int int int
  | FullNotTracked int int
  | FullMismatch int int
  | Summary int int int int int int int

text \<open>A \<open>struct kmem_cache_cpu\<close>: the page and the partial list are addresses of \<open>struct page\<close>, or 0.\<close>

record cpu_slab =
  cs_freelist :: "addr res"
  cs_page_objects :: "int res"
  cs_page :: "addr res"
  cs_partial :: "addr res"

record slub_env =
  se_rd :: "addr \<Rightarrow> addr res"
  se_cpu_slab :: "int \<Rightarrow> cpu_slab res"
  se_from_page :: "addr \<Rightarrow> slub res"
  se_freelist :: "addr \<Rightarrow> addr res"
  se_pages :: "addr \<Rightarrow> int res"
  se_next :: "addr \<Rightarrow> addr res"

text \<open>\<open>cpu_freelists_sizes\<close> has an element for each online CPU and is indexed with CPU numbers.\<close>

record slub_state =
  ss_cache :: slub_cache
  ss_sizes :: "int list"

type_synonym slub_result = "slub_state \<times> slub_out list \<times> exc option"

definition new_msgs :: "slub \<Rightarrow> slub \<Rightarrow> slub_out list" where
  "new_msgs u u' = (let ms = drop (length (ul_msgs u)) (ul_msgs u') in if ms = [] then [] else [SlabMsgs (ul_address u) ms])"

definition add_percpu_slub :: "slub_env \<Rightarrow> slub \<Rightarrow> addr \<Rightarrow> string \<Rightarrow> slub_state \<Rightarrow> slub \<times> slub_result" where
  "add_percpu_slub env u a t s =
     (case map_of (uc_cpu_slabs (ss_cache s)) a of
        Some t' \<Rightarrow> (u, s, [BothSlabs a t t'], None)
      | None \<Rightarrow>
          let c = (ss_cache s)\<lparr>uc_cpu_slabs := uc_cpu_slabs (ss_cache s) @ [(a, t)],
                     uc_cpu_slabs_objects := uc_cpu_slabs_objects (ss_cache s) + ul_nr_objects u,
                     uc_cpu_slabs_free := uc_cpu_slabs_free (ss_cache s) + ul_nr_free u\<rparr>;
              (u', e) = slub_populate_free (se_rd env) c (se_freelist env (ul_address u)) u
          in (u', s\<lparr>ss_cache := c\<rparr>, new_msgs u u', e))"

definition cpu_label :: "string \<Rightarrow> int \<Rightarrow> string" where
  "cpu_label kind cpu = ''CPU '' @ py_digits (nat cpu) @ '' '' @ kind"

definition node_label :: "string \<Rightarrow> int \<Rightarrow> string" where
  "node_label kind nid = ''Node '' @ py_digits (nat nid) @ '' '' @ kind"

text \<open>A slab of a CPU is added when the tables are being filled.\<close>

definition load_cpu_slab :: "slub_env \<Rightarrow> bool \<Rightarrow> addr \<Rightarrow> string \<Rightarrow> slub_state \<Rightarrow> slub res \<times> slub_state \<times> slub_out list" where
  "load_cpu_slab env fill a t s = (case se_from_page env a of
       Inl e \<Rightarrow> (Inl e, s, [])
     | Inr u \<Rightarrow> (case (if fill then add_percpu_slub env u a t s else (u, s, [], None)) of
           (u1, s1, os, Some e) \<Rightarrow> (Inl e, s1, os)
         | (u1, s1, os, None) \<Rightarrow> (Inr u1, s1, os)))"

definition frozen_msgs :: "int \<Rightarrow> slub \<Rightarrow> slub_out list" where
  "frozen_msgs expected u = new_msgs u (warn_frozen expected u)"

definition process_cpu_slab :: "slub_env \<Rightarrow> bool \<Rightarrow> addr \<Rightarrow> string \<Rightarrow> slub_state \<Rightarrow> slub_result" where
  "process_cpu_slab env fill a t s = (case load_cpu_slab env fill a t s of
       (Inl e, s1, os) \<Rightarrow> (s1, os, Some e)
     | (Inr u, s1, os) \<Rightarrow> (s1, os @ frozen_msgs 1 u, None))"

text \<open>The walk of a partial list; without an end it is \<open>None\<close>.\<close>

definition pages_msgs :: "int \<Rightarrow> addr \<Rightarrow> int \<Rightarrow> int \<Rightarrow> slub_out list" where
  "pages_msgs cpu p n expected = (if n \<noteq> expected then [PagesField cpu p n expected] else [])"

partial_function (option) process_partial ::
  "slub_env \<Rightarrow> bool \<Rightarrow> int \<Rightarrow> string \<Rightarrow> addr \<Rightarrow> int \<Rightarrow> int \<Rightarrow> slub_state \<Rightarrow> slub_result option" where
  "process_partial env fill cpu t p pages_expected pages s =
     (if p = 0 then Some (s, if pages \<noteq> 1 then [LastPages cpu pages] else [], None)
      else (case load_cpu_slab env fill p t s of
          (Inl e, s1, os) \<Rightarrow> Some (s1, os, Some e)
        | (Inr u, s1, os) \<Rightarrow> (case se_pages env p of
              Inl e \<Rightarrow> Some (s1, os, Some e)
            | Inr n \<Rightarrow>
                (case se_next env p of
                   Inl e \<Rightarrow> Some (s1, os @ frozen_msgs 1 u @ pages_msgs cpu p n pages_expected, Some e)
                 | Inr p' \<Rightarrow> Option.bind (process_partial env fill cpu t p' (n - 1) n s1) (\<lambda>(s2, os2, e).
                     Some (s2, os @ frozen_msgs 1 u @ pages_msgs cpu p n pages_expected @ os2, e))))))"

declare process_partial.simps [code]

text \<open>The free list of a CPU.\<close>

definition process_freelist :: "slub_env \<Rightarrow> bool \<Rightarrow> int \<Rightarrow> string \<Rightarrow> cpu_slab \<Rightarrow> slub_state \<Rightarrow> slub_result" where
  "process_freelist env fill cpu t cs s =
     (if fill then
        (let (c, ms, r) = populate_cpu_freelist (se_rd env) t (cs_freelist cs) (cs_page_objects cs) (ss_cache s)
         in case r of
              Inl e \<Rightarrow> (s\<lparr>ss_cache := c\<rparr>, map CpuListMsg ms, Some e)
            | Inr n \<Rightarrow> (case py_list_set (ss_sizes s) cpu n of
                  Inl e \<Rightarrow> (s\<lparr>ss_cache := c\<rparr>, map CpuListMsg ms, Some e)
                | Inr ns \<Rightarrow> (s\<lparr>ss_cache := c, ss_sizes := ns\<rparr>, map CpuListMsg ms, None)))
      else if cpu < int (length (ss_sizes s)) then (s, [], None) else (s, [], Some IndexError))"

fun then_run :: "slub_result \<Rightarrow> (slub_state \<Rightarrow> slub_result option) \<Rightarrow> slub_result option" where
  "then_run (s, os, Some e) f = Some (s, os, Some e)"
| "then_run (s, os, None) f = map_option (\<lambda>(s', os', e). (s', os @ os', e)) (f s)"

definition process_cpu :: "slub_env \<Rightarrow> bool \<Rightarrow> int \<Rightarrow> slub_state \<Rightarrow> slub_result option" where
  "process_cpu env fill cpu s = (case se_cpu_slab env cpu of
       Inl e \<Rightarrow> Some (s, [], Some e)
     | Inr cs \<Rightarrow>
         then_run (process_freelist env fill cpu (cpu_label ''freelist'' cpu) cs s) (\<lambda>s1.
         then_run (case cs_page cs of
              Inl e \<Rightarrow> (s1, [], Some e)
            | Inr a \<Rightarrow> if a = 0 then (s1, [], None) else process_cpu_slab env fill a (cpu_label ''slab'' cpu) s1) (\<lambda>s2.
         case cs_partial cs of
           Inl e \<Rightarrow> Some (s2, [], Some e)
         | Inr p \<Rightarrow>
             if p = 0 then Some (s2, [], None)
             else (case se_pages env p of
                 Inl e \<Rightarrow> Some (s2, [], Some e)
               | Inr n \<Rightarrow> process_partial env fill cpu (cpu_label ''partial'' cpu) p n (-1) s2))))"

fun process_cpus ::
  "slub_env \<Rightarrow> bool \<Rightarrow> int list \<Rightarrow> slub_state \<Rightarrow> slub_result option" where
  "process_cpus env fill [] s = Some (s, [], None)"
| "process_cpus env fill (cpu # cpus) s =
     Option.bind (process_cpu env fill cpu s) (\<lambda>r. then_run r (process_cpus env fill cpus))"

definition process_percpu ::
  "slub_env \<Rightarrow> nat \<Rightarrow> int list \<Rightarrow> slub_state \<Rightarrow> slub_result option" where
  "process_percpu env print_level cpus s =
     (let fill = (uc_cpu_slabs (ss_cache s) = [])
      in if \<not> fill \<and> print_level = 0 then Some (s, [], None) else process_cpus env fill cpus s)"

text \<open>A \<open>struct kmem_cache_node\<close> with the slabs that \<open>list_for_each\<close> finds on its two lists.\<close>

record slub_node =
  sn_nid :: int
  sn_nr_slabs :: int
  sn_total_objects :: int
  sn_nr_partial :: int
  sn_partial :: "slub gen"
  sn_full :: "slub gen"

record slub_totals =
  st_slabs :: int
  st_partial :: int
  st_objs :: int
  st_free :: int
  st_full_list :: int

text \<open>The slabs of a list: \<open>warn_frozen\<close>, and an entry in \<open>node_slabs\<close> the first time.\<close>

fun process_node_slabs :: "string \<Rightarrow> slub list \<Rightarrow> slub_state \<Rightarrow> slub_state \<times> slub_out list" where
  "process_node_slabs t [] s = (s, [])"
| "process_node_slabs t (u # us) s =
     (let s1 = (if uc_processed (ss_cache s) then s
                else s\<lparr>ss_cache := (ss_cache s)\<lparr>uc_node_slabs := AList.update (ul_address u) t (uc_node_slabs (ss_cache s))\<rparr>\<rparr>);
          (s2, os) = process_node_slabs t us s1
      in (s2, frozen_msgs 0 u @ os))"

definition tracks_full_slabs :: "slub_cache \<Rightarrow> bool" where
  "tracks_full_slabs c \<longleftrightarrow> uc_flags c AND 0x00010000 \<noteq> 0"

definition process_node ::
  "slub_node \<Rightarrow> slub_state \<Rightarrow> slub_totals \<Rightarrow> slub_result \<times> slub_totals" where
  "process_node nd s t =
     (let (s1, os1) = process_node_slabs (node_label ''partial'' (sn_nid nd)) (fst (sn_partial nd)) s;
          t1 = t\<lparr>st_slabs := st_slabs t + sn_nr_slabs nd, st_objs := st_objs t + sn_total_objects nd,
                 st_partial := st_partial t + sn_nr_partial nd,
                 st_free := st_free t + sum_list (map ul_nr_free (fst (sn_partial nd)))\<rparr>;
          found = int (length (fst (sn_partial nd)))
      in case snd (sn_partial nd) of
           Some e \<Rightarrow> ((s1, os1, Some e), t1)
         | None \<Rightarrow>
             let os2 = (if sn_nr_partial nd \<noteq> found then [NodePartial (sn_nid nd) found (sn_nr_partial nd)] else []);
                 (s2, os3) = process_node_slabs (node_label ''full'' (sn_nid nd)) (fst (sn_full nd)) s1;
                 full = int (length (fst (sn_full nd)))
             in case snd (sn_full nd) of
                  Some e \<Rightarrow> ((s2, os1 @ os2 @ os3, Some e), t1)
                | None \<Rightarrow>
                    ((s2, os1 @ os2 @ os3 @
                       (if full > 0 \<and> \<not> tracks_full_slabs (ss_cache s2) then [FullNotTracked (sn_nid nd) full] else []), None),
                     t1\<lparr>st_full_list := st_full_list t1 + full\<rparr>))"

fun process_nodes ::
  "slub_node list \<Rightarrow> slub_state \<Rightarrow> slub_totals \<Rightarrow> slub_result \<times> slub_totals" where
  "process_nodes [] s t = ((s, [], None), t)"
| "process_nodes (nd # nds) s t = (case process_node nd s t of
       ((s1, os, Some e), t1) \<Rightarrow> ((s1, os, Some e), t1)
     | ((s1, os, None), t1) \<Rightarrow>
         let ((s2, os2, e), t2) = process_nodes nds s1 t1 in ((s2, os @ os2, e), t2))"

definition process_finish :: "nat \<Rightarrow> slub_state \<Rightarrow> slub_totals \<Rightarrow> slub_result" where
  "process_finish print_level s t =
     (let c = ss_cache s; nr_percpu = int (length (uc_cpu_slabs c)); nr_full = st_slabs t - st_partial t - nr_percpu
      in (s\<lparr>ss_cache := c\<lparr>uc_processed := True\<rparr>\<rparr>,
          (if tracks_full_slabs c \<and> st_full_list t \<noteq> nr_full then [FullMismatch nr_full (st_full_list t)] else []) @
          (if print_level = 1
           then [Summary (st_slabs t) (st_partial t) nr_percpu nr_full (st_objs t) (st_objs t - st_free t) (st_free t)] else []),
          None))"

definition process_all ::
  "slub_env \<Rightarrow> nat \<Rightarrow> int list \<Rightarrow> slub_node list \<Rightarrow> slub_state \<Rightarrow> slub_result option" where
  "process_all env print_level cpus nodes s =
     (if print_level = 0 \<and> uc_processed (ss_cache s) then Some (s, [], None)
      else Option.bind (process_percpu env print_level cpus s) (\<lambda>r. then_run r (\<lambda>s1.
        let c = ss_cache s1;
            (r2, t) = process_nodes nodes s1 \<lparr>st_slabs = 0, st_partial = 0, st_objs = 0,
              st_free = uc_cpu_slabs_free c + int (length (uc_cpu_freelists c)), st_full_list = 0\<rparr>
        in then_run r2 (\<lambda>s2. Some (process_finish print_level s2 t)))))"

definition slub_process_once ::
  "slub_env \<Rightarrow> int list \<Rightarrow> slub_node list \<Rightarrow> slub_state \<Rightarrow> slub_result option" where
  "slub_process_once env cpus nodes s =
     (if uc_processed (ss_cache s) then Some (s, [], None) else process_all env 0 cpus nodes s)"

section \<open>The search for full slabs\<close>

text \<open>
  \<open>__slub_find_full_slabs\<close>: \<open>full_slabs\<close> of the cache at an address is the pages found for it, with their
  nodes.  A page is a tail, has counts of used and of all objects, a cache, and a node.
\<close>

record slub_page =
  sp_address :: addr
  sp_tail :: "bool res"
  sp_inuse :: int
  sp_objects :: int
  sp_cache :: addr
  sp_nid :: "int res"

fun find_full_slabs ::
  "(addr \<Rightarrow> bool) \<Rightarrow> int \<Rightarrow> slub_page list \<Rightarrow> (addr \<times> int \<times> addr) list \<Rightarrow> (addr \<times> int \<times> addr) list \<times> exc option" where
  "find_full_slabs is_cache nr_nids [] acc = (acc, None)"
| "find_full_slabs is_cache nr_nids (p # ps) acc = (case sp_tail p of
       Inl e \<Rightarrow> (acc, Some e)
     | Inr tail \<Rightarrow>
         if tail \<or> sp_inuse p < sp_objects p then find_full_slabs is_cache nr_nids ps acc
         else if \<not> is_cache (sp_cache p) then (acc, Some KmemCacheNotFound)
         else (case sp_nid p of
             Inl e \<Rightarrow> (acc, Some e)
           | Inr nid \<Rightarrow>
               if nid < nr_nids then find_full_slabs is_cache nr_nids ps (List.insert (sp_cache p, nid, sp_address p) acc)
               else (acc, Some IndexError)))"

section \<open>Accounting of checked slabs\<close>

fun ok_sum :: "out list \<Rightarrow> int" where
  "ok_sum [] = 0"
| "ok_sum (m # ms) = (case m of OkBetween n _ _ \<Rightarrow> n | _ \<Rightarrow> 0) + ok_sum ms"

fun misplaced_sum :: "out list \<Rightarrow> int" where
  "misplaced_sum [] = 0"
| "misplaced_sum (m # ms) = (case m of MisplacedLast n _ \<Rightarrow> n | _ \<Rightarrow> 0) + misplaced_sum ms"

fun failed_sum :: "out list \<Rightarrow> int" where
  "failed_sum [] = 0"
| "failed_sum (m # ms) = (case m of CheckFailed _ \<Rightarrow> 1 | _ \<Rightarrow> 0) + failed_sum ms"

lemma sums_append [simp]:
  "ok_sum (xs @ ys) = ok_sum xs + ok_sum ys" "misplaced_sum (xs @ ys) = misplaced_sum xs + misplaced_sum ys"
  "failed_sum (xs @ ys) = failed_sum xs + failed_sum ys"
  by (induction xs) auto

definition errors_inv :: "check_errors \<Rightarrow> bool" where
  "errors_inv er \<longleftrightarrow> 0 \<le> num_ok er \<and> 0 \<le> num_misplaced er \<and>
     (num_ok er > 0 \<longrightarrow> first_ok er \<noteq> None \<and> last_ok er \<noteq> None)"

lemma no_errors_inv [simp]: "errors_inv no_errors" "num_ok no_errors = 0" "num_misplaced no_errors = 0"
  by (simp_all add: errors_inv_def no_errors_def)

lemma account_slab_ok:
  assumes "errors_inv er" and "misplaced_error sl \<noteq> None \<Longrightarrow> sl_error sl"
  shows "\<exists>os er'. account_slab sl er = Inr (os, er') \<and> errors_inv er' \<and>
    ok_sum os + num_ok er' = num_ok er + of_bool (\<not> sl_error sl) \<and>
    misplaced_sum os + num_misplaced er' = num_misplaced er + of_bool (misplaced_error sl \<noteq> None) \<and> failed_sum os = 0"
proof (cases "sl_error sl")
  case False
  then have "misplaced_error sl = None" using assms(2) by blast
  then show ?thesis using False assms(1) by (auto simp: account_slab_def errors_inv_def print_misplaced_def Let_def)
next
  case True
  show ?thesis
  proof (cases "num_ok er > 0")
    case pos: True
    then obtain f l where "first_ok er = Some f" "last_ok er = Some l" using assms(1) by (auto simp: errors_inv_def)
    then show ?thesis using True pos assms(1)
      by (cases "misplaced_error sl"; cases "num_misplaced er > 0")
         (auto simp: account_slab_def errors_inv_def print_misplaced_def print_ok_def Let_def)
  next
    case zero: False
    then show ?thesis using True assms(1)
      by (cases "misplaced_error sl"; cases "num_misplaced er > 0")
         (auto simp: account_slab_def errors_inv_def print_misplaced_def Let_def)
  qed
qed

text \<open>The slabs after their checks with the results of these; each check starts with the attribute that the
  previous one has left.\<close>

fun checked :: "slab_check \<Rightarrow> string option \<Rightarrow> slab list \<Rightarrow> (slab \<times> int res) list \<times> string option" where
  "checked chk off [] = ([], off)"
| "checked chk off (sl # sls) =
     (let (sl', off', r) = chk off sl; (vs, off'') = checked chk off' sls in ((sl', r) # vs, off''))"

definition sound_slabs :: "(slab \<times> int res) list \<Rightarrow> int" where
  "sound_slabs vs = int (length (filter (\<lambda>(sl, r). \<not> isl r \<and> \<not> sl_error sl) vs))"

definition misplaced_slabs :: "(slab \<times> int res) list \<Rightarrow> int" where
  "misplaced_slabs vs = int (length (filter (\<lambda>(sl, r). \<not> isl r \<and> sl_misplaced sl \<noteq> None) vs))"

definition failed_slabs :: "(slab \<times> int res) list \<Rightarrow> int" where
  "failed_slabs vs = int (length (filter (\<lambda>(sl, r). isl r) vs))"

definition free_objects :: "(slab \<times> int res) list \<Rightarrow> int" where
  "free_objects vs = sum_list (map (\<lambda>(sl, r). case r of Inr n \<Rightarrow> n | Inl _ \<Rightarrow> 0) vs)"

lemmas slab_sums = sound_slabs_def misplaced_slabs_def failed_slabs_def free_objects_def

lemma slab_sums_append:
  "sound_slabs (vs @ ws) = sound_slabs vs + sound_slabs ws" "misplaced_slabs (vs @ ws) = misplaced_slabs vs + misplaced_slabs ws"
  "failed_slabs (vs @ ws) = failed_slabs vs + failed_slabs ws" "free_objects (vs @ ws) = free_objects vs + free_objects ws"
  by (simp_all add: slab_sums)

lemma slab_sums_Cons:
  "sound_slabs (v # vs) = of_bool (\<not> isl (snd v) \<and> \<not> sl_error (fst v)) + sound_slabs vs"
  "misplaced_slabs (v # vs) = of_bool (\<not> isl (snd v) \<and> sl_misplaced (fst v) \<noteq> None) + misplaced_slabs vs"
  "failed_slabs (v # vs) = of_bool (isl (snd v)) + failed_slabs vs"
  "free_objects (v # vs) = (case snd v of Inr n \<Rightarrow> n | Inl _ \<Rightarrow> 0) + free_objects vs"
  by (cases v; simp add: slab_sums)+

lemma slab_sums_Nil [simp]: "sound_slabs [] = 0" "misplaced_slabs [] = 0" "failed_slabs [] = 0" "free_objects [] = 0"
  by (simp_all add: slab_sums)

fun found_slabs :: "slab_item list \<Rightarrow> slab list" where
  "found_slabs [] = []"
| "found_slabs (Found sl # its) = sl # found_slabs its"
| "found_slabs (Skipped m # its) = found_slabs its"

text \<open>A check that returns or meets memory that is not available, and never marks a slab as misplaced without
  marking it in error.\<close>

definition checkable :: "slab_check \<Rightarrow> slab \<Rightarrow> bool" where
  "checkable chk sl \<longleftrightarrow> \<not> sl_error sl \<and> (\<forall>off. (case snd (snd (chk off sl)) of Inl e \<Rightarrow> catches GdbNotAvailableError e | Inr n \<Rightarrow> True) \<and>
     (sl_misplaced (fst (chk off sl)) \<noteq> None \<longrightarrow> sl_error (fst (chk off sl))))"

lemma check_items_ok:
  assumes "\<forall>sl \<in> set (found_slabs its). checkable chk sl" and "errors_inv er"
    and "\<forall>m. Skipped m \<in> set its \<longrightarrow> ok_sum [m] = 0 \<and> misplaced_sum [m] = 0 \<and> failed_sum [m] = 0"
    and "checked chk off (found_slabs its) = (vs, off')"
  shows "\<exists>er' os. check_items chk its off n f er = (n + int (length vs), f + free_objects vs, er', off', os, None) \<and>
    errors_inv er' \<and> ok_sum os + num_ok er' = num_ok er + sound_slabs vs \<and>
    misplaced_sum os + num_misplaced er' = num_misplaced er + misplaced_slabs vs \<and> failed_sum os = failed_slabs vs"
  using assms
proof (induction its arbitrary: off n f er vs)
  case Nil
  then show ?case by simp
next
  case (Cons it its)
  show ?case
  proof (cases it)
    case (Skipped m)
    obtain er' os where IH: "check_items chk its off n f er = (n + int (length vs), f + free_objects vs, er', off', os, None)"
      "errors_inv er'" "ok_sum os + num_ok er' = num_ok er + sound_slabs vs"
      "misplaced_sum os + num_misplaced er' = num_misplaced er + misplaced_slabs vs" "failed_sum os = failed_slabs vs"
      using Cons.IH [of er off vs n f] Cons.prems Skipped by auto
    have "ok_sum (m # os) = ok_sum os" "misplaced_sum (m # os) = misplaced_sum os" "failed_sum (m # os) = failed_sum os"
      using Cons.prems(3) Skipped by auto
    then show ?thesis unfolding Skipped using IH by simp
  next
    case (Found sl)
    obtain sl' off1 r where r: "chk off sl = (sl', off1, r)" using prod_cases3 by blast
    obtain ws where ws: "checked chk off1 (found_slabs its) = (ws, off')" "vs = (sl', r) # ws"
      using Cons.prems(4) Found r by (auto simp: Let_def split: prod.splits)
    have sl: "\<not> sl_error sl" "checkable chk sl" using Cons.prems(1) Found by (auto simp: checkable_def)
    have rest: "\<forall>sl \<in> set (found_slabs its). checkable chk sl"
      "\<forall>m. Skipped m \<in> set its \<longrightarrow> ok_sum [m] = 0 \<and> misplaced_sum [m] = 0 \<and> failed_sum [m] = 0"
      using Cons.prems(1, 3) Found by auto
    show ?thesis
    proof (cases r)
      case (Inl e)
      have e: "catches GdbNotAvailableError e" using sl(2) r Inl by (force simp: checkable_def dest: spec [of _ off])
      obtain er' os where IH: "check_items chk its off1 (n + 1) f er =
          (n + 1 + int (length ws), f + free_objects ws, er', off', os, None)" "errors_inv er'"
        "ok_sum os + num_ok er' = num_ok er + sound_slabs ws"
        "misplaced_sum os + num_misplaced er' = num_misplaced er + misplaced_slabs ws" "failed_sum os = failed_slabs ws"
        using Cons.IH [OF rest(1) Cons.prems(2) rest(2) ws(1), of "n + 1" f] by blast
      then show ?thesis using Found r Inl e sl(1) ws(2) by (simp add: check_one_def slab_sums_Cons)
    next
      case (Inr k)
      have "sl_misplaced sl' \<noteq> None \<longrightarrow> sl_error sl'" using sl(2) r by (force simp: checkable_def dest: spec [of _ off])
      then obtain o1 er1 where acc: "account_slab sl' er = Inr (o1, er1)" "errors_inv er1"
        "ok_sum o1 + num_ok er1 = num_ok er + of_bool (\<not> sl_error sl')"
        "misplaced_sum o1 + num_misplaced er1 = num_misplaced er + of_bool (sl_misplaced sl' \<noteq> None)" "failed_sum o1 = 0"
        using account_slab_ok [OF Cons.prems(2), of sl'] by (auto simp: misplaced_error_def)
      obtain er' os where IH: "check_items chk its off1 (n + 1) (f + k) er1 =
          (n + 1 + int (length ws), f + k + free_objects ws, er', off', os, None)" "errors_inv er'"
        "ok_sum os + num_ok er' = num_ok er1 + sound_slabs ws"
        "misplaced_sum os + num_misplaced er' = num_misplaced er1 + misplaced_slabs ws" "failed_sum os = failed_slabs ws"
        using Cons.IH [OF rest(1) acc(2) rest(2) ws(1), of "n + 1" "f + k"] by blast
      have "check_items chk (it # its) off n f er =
          (n + int (length vs), f + free_objects vs, er', off', o1 @ os, None)"
        using Found r Inr sl(1) ws(2) acc(1) IH(1) by (simp add: check_one_def slab_sums_Cons algebra_simps)
      then show ?thesis using acc(3-5) IH(2-5) ws(2) Inr by (simp add: slab_sums_Cons)
    qed
  qed
qed

lemma final_report_sums:
  assumes "errors_inv er"
  shows "ok_sum (final_report er) = num_ok er" "misplaced_sum (final_report er) = num_misplaced er"
    "failed_sum (final_report er) = 0"
  using assms by (auto simp: final_report_def errors_inv_def print_misplaced_def split: option.splits)

text \<open>One walk that ends or is cut off by a corrupt list.\<close>

lemma check_slabs_once_ok:
  assumes "\<forall>sl \<in> set (found_slabs (fst items)). checkable chk sl"
    and "\<forall>m. Skipped m \<in> set (fst items) \<longrightarrow> ok_sum [m] = 0 \<and> misplaced_sum [m] = 0 \<and> failed_sum [m] = 0"
    and "checked chk off (found_slabs (fst items)) = (vs, off')"
    and "\<forall>e. snd items = Some e \<longrightarrow> catches GdbNotAvailableError e \<or> catches ListError e"
  shows "\<exists>os. check_slabs_once chk k items off = (Inr (snd items = None, int (length vs), free_objects vs), off', os) \<and>
    ok_sum os = sound_slabs vs \<and> misplaced_sum os = misplaced_slabs vs \<and> failed_sum os = failed_slabs vs"
proof -
  obtain er os where run: "check_items chk (fst items) off 0 0 no_errors = (int (length vs), free_objects vs, er, off', os, None)"
    "errors_inv er" "ok_sum os + num_ok er = sound_slabs vs" "misplaced_sum os + num_misplaced er = misplaced_slabs vs"
    "failed_sum os = failed_slabs vs"
    using check_items_ok [OF assms(1) _ assms(2, 3), of no_errors 0 0] by auto
  then show ?thesis using final_report_sums [OF run(2)] assms(4)
    by (cases "snd items") (auto simp: check_slabs_once_def)
qed

lemma gen_for_set: "x \<in> set (fst (gen_for ys f)) \<Longrightarrow> \<exists>y \<in> set ys. x \<in> set (fst (f y))"
  by (induction ys) (auto simp: gen_seq_def split: option.splits)

lemma gen_bind_set: "x \<in> set (fst (gen_bind g f)) \<Longrightarrow> \<exists>y \<in> set (fst g). x \<in> set (fst (f y))"
  using gen_for_set [of x "fst g" f] by (auto simp: gen_bind_def gen_seq_def split: option.splits)

text \<open>Only the messages of the iterator are skipped over.\<close>

lemma get_slabs_skipped:
  assumes "get_slabs_of_type mem heads from_head k rv ex = Some items" and "Skipped m \<in> set (fst items)"
  shows "ok_sum [m] = 0 \<and> misplaced_sum [m] = 0 \<and> failed_sum [m] = 0"
proof -
  obtain wrong a where "Skipped m \<in> set (fst (slab_item_of wrong from_head a))"
    using assms by (auto simp: get_slabs_of_type_def dest!: gen_bind_set)
  then show ?thesis by (auto simp: slab_item_of_def split: option.splits sum.splits if_splits)
qed

text \<open>Only slabs that the constructor returned are found.\<close>

lemma found_slabs_iff: "sl \<in> set (found_slabs its) \<longleftrightarrow> Found sl \<in> set its"
  by (induction its rule: found_slabs.induct) auto

lemma get_slabs_found:
  assumes "get_slabs_of_type mem heads from_head k rv ex = Some items" and "sl \<in> set (found_slabs (fst items))"
  shows "\<exists>a. from_head a = Inr sl"
proof -
  obtain wrong a where "Found sl \<in> set (fst (slab_item_of wrong from_head a))"
    using assms by (auto simp: get_slabs_of_type_def found_slabs_iff dest!: gen_bind_set)
  then show ?thesis by (auto simp: slab_item_of_def split: option.splits sum.splits if_splits)
qed

text \<open>A slab marked as misplaced is in error.\<close>

lemma check_counts_misplaced: "sl_misplaced (check_counts k sl) \<noteq> None \<Longrightarrow> sl_misplaced sl = None \<Longrightarrow> sl_error (check_counts k sl)"
  by (auto simp: check_counts_def free_error_def pr_err_def Let_def split: slab_list.splits if_splits)

lemma pr_err_misplaced [simp]: "sl_misplaced (pr_err m sl) = sl_misplaced sl"
  by (simp add: pr_err_def)

lemma check_page_misplaced [simp]: "sl_misplaced (check_page nid ob p sl) = sl_misplaced sl"
  by (simp add: check_page_def Let_def)

lemma check_objects_misplaced:
  "sl_misplaced (fst (check_objects page_of acs nid obs lastp sl)) = sl_misplaced sl"
proof (induction obs arbitrary: lastp sl)
  case (Cons ob obs)
  show ?case
  proof (cases "page_of ob")
    case (Inl e)
    then show ?thesis using Cons by (simp add: Let_def)
  next
    case (Inr p)
    show ?thesis
    proof (cases "op_address p = lastp")
      case True
      then show ?thesis using Inr Cons by (simp add: Let_def)
    next
      case False
      then show ?thesis using check_objects_page [of page_of ob p lastp acs nid obs sl] Inr Cons by simp
    qed
  qed
qed simp

lemma check_slab_misplaced:
  assumes "sl_misplaced sl = None" and "check_slab env k nid off sl = (sl', off', r)" and "sl_misplaced sl' \<noteq> None"
  shows "sl_error sl'"
proof -
  obtain sl0 e0 where sl0: "populate_free (sv_freelist env (sl_address sl)) sl = (sl0, e0)" by fastforce
  note same0 = populate_free_fields [OF sl0]
  obtain sl1 off1 e1 where sl1: "off_stage env off sl0 = (sl1, off1, e1)" using prod_cases3 by blast
  have same1: "same_slab sl1 sl0" using off_stage_same [OF sl1] .
  have none: "sl_misplaced sl0 = None" "sl_misplaced sl1 = None" using assms(1) same0(4) same1 by (simp_all add: same_slab_def)
  have counts: "sl_error (check_counts k sl1)" if "sl_misplaced (check_counts k sl1) \<noteq> None"
    using that none(2) check_counts_misplaced by blast
  have cases: "sl' = sl0 \<or> sl' = sl1 \<or>
      sl' = (if sl_page_slab sl \<and> nid \<noteq> sv_nid env (sl_address sl)
        then pr_err (SlabOnNid (sv_nid env (sl_address sl))) (check_counts k sl1) else check_counts k sl1) \<or>
      (\<exists>acs. sl' = fst (check_objects (sv_page_of env) acs nid (get_objects sl) 0
        (if sl_page_slab sl \<and> nid \<noteq> sv_nid env (sl_address sl)
         then pr_err (SlabOnNid (sv_nid env (sl_address sl))) (check_counts k sl1) else check_counts k sl1)))"
  proof (cases e0)
    case None
    have stage: "off_stage env off sl0 = (if sc_off_slab (sl_cache sl) \<and> \<not> sl_page_slab sl
      then (case sv_slab_at env (sl_address sl) of Inl e \<Rightarrow> (sl0, off, Some e) | Inr found \<Rightarrow> check_off_slab found off sl0)
      else (sl0, off, None))" using same0 by (simp add: off_stage_def)
    note eq = assms(2) [unfolded check_slab_def sl0 None prod.case option.case sl1 [unfolded stage] Let_def]
    show ?thesis
    proof (cases "e1 = None \<and> \<not> isl (sv_acs env)")
      case True
      then obtain acs where acs: "sv_acs env = Inr acs" by (cases "sv_acs env") auto
      obtain x1 x2 where x: "check_objects (sv_page_of env) acs nid (get_objects sl) 0
        (if sl_page_slab sl \<and> nid \<noteq> sv_nid env (sl_address sl)
         then pr_err (SlabOnNid (sv_nid env (sl_address sl))) (check_counts k sl1) else check_counts k sl1) = (x1, x2)"
        by fastforce
      have "sl' = x1" using eq unfolding acs sum.case x using True by simp
      then show ?thesis using x by (metis fst_conv)
    qed (use eq in \<open>cases e1; cases "sv_acs env"; simp\<close>)
  qed (use assms(2) sl0 in \<open>simp add: check_slab_def\<close>)
  then show ?thesis using assms(3) none counts check_objects_error check_objects_misplaced
    by (auto split: if_splits)
qed

section \<open>Processing twice\<close>

lemma load_no_fill: "load_cpu_slab env False a t s = (r, s', os) \<Longrightarrow> s' = s"
  by (auto simp: load_cpu_slab_def split: sum.splits)

lemma process_cpu_slab_no_fill: "process_cpu_slab env False a t s = (s', os, e) \<Longrightarrow> s' = s"
  by (auto simp: process_cpu_slab_def split: sum.splits prod.splits dest: load_no_fill)

lemma process_partial_no_fill:
  assumes "process_partial env False cpu t p n k s = Some (s', os, e)"
  shows "s' = s"
proof -
  have "\<not> fill \<longrightarrow> fst r = s" if "process_partial env fill cpu t p n k s = Some r" for env fill cpu t p n k s r
    using that
  proof (rule process_partial.raw_induct [rotated])
    fix pp env fill cpu t p n k s r
    assume IH: "\<And>env fill cpu t p n k s r. pp env fill cpu t p n k s = Some r \<Longrightarrow> \<not> fill \<longrightarrow> fst r = s"
      and eq: "(if p = 0 then Some (s, if k \<noteq> 1 then [LastPages cpu k] else [], None)
        else (case load_cpu_slab env fill p t s of
            (Inl e, s1, os) \<Rightarrow> Some (s1, os, Some e)
          | (Inr u, s1, os) \<Rightarrow> (case se_pages env p of
                Inl e \<Rightarrow> Some (s1, os, Some e)
              | Inr n' \<Rightarrow>
                  (case se_next env p of
                     Inl e \<Rightarrow> Some (s1, os @ frozen_msgs 1 u @ pages_msgs cpu p n' n, Some e)
                   | Inr p' \<Rightarrow> Option.bind (pp env fill cpu t p' (n' - 1) n' s1) (\<lambda>(s2, os2, e).
                       Some (s2, os @ frozen_msgs 1 u @ pages_msgs cpu p n' n @ os2, e)))))) = Some r"
    show "\<not> fill \<longrightarrow> fst r = s"
    proof
      assume "\<not> fill"
      then show "fst r = s" using eq
        by (auto simp: bind_eq_Some_conv split: if_splits sum.splits prod.splits dest!: load_no_fill IH)
    qed
  qed
  then show ?thesis using assms by fastforce
qed

lemma then_run_Some:
  assumes "then_run r f = Some (s', os, e)"
  obtains "fst r = s'" "snd (snd r) \<noteq> None" | os' where "snd (snd r) = None" "f (fst r) = Some (s', os', e)"
proof -
  obtain s0 os0 e0 where "r = (s0, os0, e0)" by (cases r) auto
  then show ?thesis using assms that by (cases e0) auto
qed

lemma process_freelist_no_fill: "fst (process_freelist env False cpu t cs s) = s"
  by (simp add: process_freelist_def)

lemma process_cpu_no_fill:
  assumes "process_cpu env False cpu s = Some (s', os, e)"
  shows "s' = s"
proof (cases "se_cpu_slab env cpu")
  case (Inl x)
  then show ?thesis using assms by (simp add: process_cpu_def)
next
  case (Inr cs)
  let ?page = "\<lambda>s1. case cs_page cs of Inl e \<Rightarrow> (s1, [], Some e)
    | Inr a \<Rightarrow> if a = 0 then (s1, [], None) else process_cpu_slab env False a (cpu_label ''slab'' cpu) s1"
  let ?partial = "\<lambda>s2. case cs_partial cs of Inl e \<Rightarrow> Some (s2, [], Some e)
    | Inr p \<Rightarrow> if p = 0 then Some (s2, [], None) else (case se_pages env p of Inl e \<Rightarrow> Some (s2, [], Some e)
        | Inr n \<Rightarrow> process_partial env False cpu (cpu_label ''partial'' cpu) p n (-1) s2)"
  have page: "fst (?page s) = s"
    using process_cpu_slab_no_fill by (auto split: sum.splits) (metis prod.collapse)
  have partial: "s'' = s" if "?partial s = Some (s'', os'', e'')" for s'' os'' e''
    using that by (auto split: sum.splits if_splits dest: process_partial_no_fill)
  have "then_run (process_freelist env False cpu (cpu_label ''freelist'' cpu) cs s)
      (\<lambda>s1. then_run (?page s1) ?partial) = Some (s', os, e)"
    using assms Inr by (simp add: process_cpu_def)
  then show ?thesis
  proof (cases rule: then_run_Some)
    case 1
    then show ?thesis using process_freelist_no_fill by metis
  next
    case (2 os')
    then have "then_run (?page s) ?partial = Some (s', os', e)" using process_freelist_no_fill by metis
    then show ?thesis
    proof (cases rule: then_run_Some)
      case 1
      then show ?thesis using page by simp
    next
      case (2 os'')
      then show ?thesis using page partial by metis
    qed
  qed
qed

lemma process_cpus_no_fill: "process_cpus env False cpus s = Some (s', os, e) \<Longrightarrow> s' = s"
proof (induction cpus arbitrary: s s' os e)
  case (Cons cpu cpus)
  then obtain s1 os1 e1 where one: "process_cpu env False cpu s = Some (s1, os1, e1)"
    and run: "then_run (s1, os1, e1) (process_cpus env False cpus) = Some (s', os, e)"
    by (auto simp: bind_eq_Some_conv)
  have "s1 = s" using one process_cpu_no_fill by blast
  then show ?case using run Cons.IH by (cases e1) auto
qed simp

lemma process_percpu_filled:
  assumes "uc_cpu_slabs (ss_cache s) \<noteq> []" and "process_percpu env lvl cpus s = Some (s', os, e)"
  shows "s' = s"
  using assms process_cpus_no_fill by (auto simp: process_percpu_def Let_def split: if_splits)

lemma process_node_slabs_done: "uc_processed (ss_cache s) \<Longrightarrow> fst (process_node_slabs t us s) = s"
  by (induction us arbitrary: s) (auto simp: Let_def split_beta)

lemma process_node_done:
  assumes "uc_processed (ss_cache s)"
  shows "fst (fst (process_node nd s t)) = s"
proof -
  obtain s1 os1 where p: "process_node_slabs (node_label ''partial'' (sn_nid nd)) (fst (sn_partial nd)) s = (s1, os1)" by fastforce
  obtain s2 os2 where f: "process_node_slabs (node_label ''full'' (sn_nid nd)) (fst (sn_full nd)) s = (s2, os2)" by fastforce
  have "s1 = s" "s2 = s" using p f process_node_slabs_done [OF assms] by (metis fst_conv)+
  then show ?thesis using p f by (simp add: process_node_def Let_def split: option.splits)
qed

lemma process_nodes_done: "uc_processed (ss_cache s) \<Longrightarrow> fst (fst (process_nodes nds s t)) = s"
proof (induction nds arbitrary: t)
  case (Cons nd nds)
  obtain os e t1 where one: "process_node nd s t = ((s, os, e), t1)"
    using process_node_done [OF Cons.prems, of nd t] by (metis prod.collapse)
  obtain r t2 where rest: "process_nodes nds s t1 = (r, t2)" "fst r = s" using Cons.IH [OF Cons.prems, of t1] by (metis prod.collapse)
  then show ?case using one by (cases e) (auto split: prod.splits)
qed simp

section \<open>A partial list\<close>

lemma slub_free_loop_cong:
  "uc_cpu_freelists c = uc_cpu_freelists c' \<Longrightarrow> uc_fp_offset c = uc_fp_offset c' \<Longrightarrow>
     slub_free_loop rd c f n u = slub_free_loop rd c' f n u"
proof (induction rd c f n u rule: slub_free_loop.induct)
  case (1 rd c f n u)
  then show ?case
    by (subst (1 2) slub_free_loop.simps) (auto simp: Let_def split: sum.splits option.splits)
qed

lemma slub_populate_free_cong:
  "uc_cpu_freelists c = uc_cpu_freelists c' \<Longrightarrow> uc_fp_offset c = uc_fp_offset c' \<Longrightarrow>
     slub_populate_free rd c f u = slub_populate_free rd c' f u"
  by (cases f) (simp_all add: slub_populate_free_def slub_free_loop_cong [of c c'])

text \<open>
  The pages of a partial list with their slabs: linked, frozen, numbered down to 1, with free lists that can
  be read without a message.
\<close>

fun partial_list :: "slub_env \<Rightarrow> slub_cache \<Rightarrow> addr \<Rightarrow> (addr \<times> slub) list \<Rightarrow> bool" where
  "partial_list env c p [] \<longleftrightarrow> p = 0"
| "partial_list env c p ((a, u) # us) \<longleftrightarrow> p = a \<and> a \<noteq> 0 \<and> se_from_page env a = Inr u \<and> ul_frozen u = 1 \<and>
     se_pages env a = Inr (int (length us) + 1) \<and>
     (\<exists>u'. slub_populate_free (se_rd env) c (se_freelist env (ul_address u)) u = (u', None) \<and> ul_msgs u' = ul_msgs u \<and>
       ul_frozen u' = 1) \<and>
     (case se_next env a of Inl e \<Rightarrow> False | Inr n \<Rightarrow> partial_list env c n us)"

definition add_slabs :: "string \<Rightarrow> (addr \<times> slub) list \<Rightarrow> slub_cache \<Rightarrow> slub_cache" where
  "add_slabs t us c = c\<lparr>uc_cpu_slabs := uc_cpu_slabs c @ map (\<lambda>(a, _). (a, t)) us,
     uc_cpu_slabs_objects := uc_cpu_slabs_objects c + sum_list (map (ul_nr_objects \<circ> snd) us),
     uc_cpu_slabs_free := uc_cpu_slabs_free c + sum_list (map (ul_nr_free \<circ> snd) us)\<rparr>"

lemma add_slabs_simps [simp]:
  "uc_cpu_freelists (add_slabs t us c) = uc_cpu_freelists c" "uc_fp_offset (add_slabs t us c) = uc_fp_offset c"
  "uc_cpu_slabs (add_slabs t us c) = uc_cpu_slabs c @ map (\<lambda>(a, _). (a, t)) us"
  by (simp_all add: add_slabs_def)

lemma partial_list_cong:
  "uc_cpu_freelists c = uc_cpu_freelists c' \<Longrightarrow> uc_fp_offset c = uc_fp_offset c' \<Longrightarrow>
     partial_list env c p us = partial_list env c' p us"
proof (induction us arbitrary: p)
  case (Cons x us)
  obtain a u where x: "x = (a, u)" by (cases x)
  have "partial_list env c n us = partial_list env c' n us" for n using Cons by blast
  moreover have "slub_populate_free rd c f u = slub_populate_free rd c' f u" for rd f
    using Cons.prems by (rule slub_populate_free_cong)
  ultimately show ?case by (simp add: x split: sum.splits)
qed simp

lemma load_fill_quiet:
  assumes "se_from_page env a = Inr u" and "map_of (uc_cpu_slabs (ss_cache s)) a = None"
    and "slub_populate_free (se_rd env) (ss_cache s) (se_freelist env (ul_address u)) u = (u', None)"
    and "ul_msgs u' = ul_msgs u"
  shows "load_cpu_slab env True a t s = (Inr u', s\<lparr>ss_cache := add_slabs t [(a, u)] (ss_cache s)\<rparr>, [])"
proof -
  have "slub_populate_free (se_rd env) (add_slabs t [(a, u)] (ss_cache s)) (se_freelist env (ul_address u)) u = (u', None)"
    using assms(3) slub_populate_free_cong [of "add_slabs t [(a, u)] (ss_cache s)" "ss_cache s"] by simp
  then show ?thesis using assms(1, 2, 4)
    by (simp add: load_cpu_slab_def add_percpu_slub_def add_slabs_def new_msgs_def Let_def)
qed

lemma process_partial_list:
  assumes "partial_list env (ss_cache s) p us" and "distinct (map fst (uc_cpu_slabs (ss_cache s)) @ map fst us)"
    and "n = int (length us)" and "us = [] \<Longrightarrow> k = 1"
  shows "process_partial env True cpu t p n k s =
    Some (s\<lparr>ss_cache := add_slabs t us (ss_cache s)\<rparr>, [], None)"
  using assms
proof (induction us arbitrary: p n k s)
  case Nil
  then show ?case by (subst process_partial.simps) (simp add: add_slabs_def)
next
  case (Cons x us)
  obtain a u where x: "x = (a, u)" by (cases x)
  have pl: "p = a" "a \<noteq> 0" "se_from_page env a = Inr u" "se_pages env a = Inr (int (length us) + 1)"
    using Cons.prems(1) by (simp_all add: x)
  obtain u' where u': "slub_populate_free (se_rd env) (ss_cache s) (se_freelist env (ul_address u)) u = (u', None)"
    "ul_msgs u' = ul_msgs u" "ul_frozen u' = 1"
    using Cons.prems(1) by (auto simp: x)
  obtain nx where nx: "se_next env a = Inr nx" "partial_list env (ss_cache s) nx us"
    using Cons.prems(1) by (auto simp: x split: sum.splits)
  define s1 where "s1 = s\<lparr>ss_cache := add_slabs t [(a, u)] (ss_cache s)\<rparr>"
  have "map_of (uc_cpu_slabs (ss_cache s)) a = None"
    using Cons.prems(2) by (auto simp: x map_of_eq_None_iff)
  then have load: "load_cpu_slab env True a t s = (Inr u', s1, [])"
    using load_fill_quiet [OF pl(3) _ u'(1, 2)] by (simp add: s1_def)
  have "partial_list env (ss_cache s1) nx us"
    using nx(2) partial_list_cong [of "ss_cache s1" "ss_cache s"] by (simp add: s1_def)
  moreover have "distinct (map fst (uc_cpu_slabs (ss_cache s1)) @ map fst us)"
    using Cons.prems(2) by (simp add: s1_def x)
  ultimately have "process_partial env True cpu t nx (int (length us)) (int (length us) + 1) s1 =
      Some (s1\<lparr>ss_cache := add_slabs t us (ss_cache s1)\<rparr>, [], None)"
    by (intro Cons.IH) simp_all
  moreover have "s1\<lparr>ss_cache := add_slabs t us (ss_cache s1)\<rparr> = s\<lparr>ss_cache := add_slabs t (x # us) (ss_cache s)\<rparr>"
    by (simp add: s1_def x add_slabs_def)
  moreover have "frozen_msgs 1 u' = []" using u'(3) by (simp add: frozen_msgs_def warn_frozen_def new_msgs_def)
  ultimately show ?case using pl nx(1) load Cons.prems(3)
    by (subst process_partial.simps) (simp add: pages_msgs_def)
qed

text \<open>A list that leads back to itself is walked for ever.\<close>

lemma process_partial_loops:
  assumes "p \<noteq> 0" and "se_from_page env p = Inr u" and "se_pages env p = Inr n" and "se_next env p = Inr p"
  shows "process_partial env False cpu t p m k s = None"
proof -
  have "env' = env \<and> \<not> fill' \<and> p' = p \<longrightarrow> False" if "process_partial env' fill' cpu' t' p' m' k' s' = Some r"
    for env' fill' cpu' t' p' m' k' s' r
    using that
  proof (rule process_partial.raw_induct [rotated])
    fix pp env' fill' cpu' t' p' m' k' s' r
    assume IH: "\<And>env' fill' cpu' t' p' m' k' s' r.
        pp env' fill' cpu' t' p' m' k' s' = Some r \<Longrightarrow> env' = env \<and> \<not> fill' \<and> p' = p \<longrightarrow> False"
      and eq: "(if p' = 0 then Some (s', if k' \<noteq> 1 then [LastPages cpu' k'] else [], None)
        else (case load_cpu_slab env' fill' p' t' s' of
            (Inl e, s1, os) \<Rightarrow> Some (s1, os, Some e)
          | (Inr u, s1, os) \<Rightarrow> (case se_pages env' p' of
                Inl e \<Rightarrow> Some (s1, os, Some e)
              | Inr n' \<Rightarrow>
                  (case se_next env' p' of
                     Inl e \<Rightarrow> Some (s1, os @ frozen_msgs 1 u @ pages_msgs cpu' p' n' m', Some e)
                   | Inr p'' \<Rightarrow> Option.bind (pp env' fill' cpu' t' p'' (n' - 1) n' s1) (\<lambda>(s2, os2, e).
                       Some (s2, os @ frozen_msgs 1 u @ pages_msgs cpu' p' n' m' @ os2, e)))))) = Some r"
    show "env' = env \<and> \<not> fill' \<and> p' = p \<longrightarrow> False"
    proof
      assume h: "env' = env \<and> \<not> fill' \<and> p' = p"
      have "load_cpu_slab env False p t' s' = (Inr u, s', [])" using assms(2) by (simp add: load_cpu_slab_def)
      then have "\<exists>r'. pp env fill' cpu' t' p (n - 1) n s' = Some r'"
        using eq h assms by (auto simp: bind_eq_Some_conv)
      then show False using IH h by blast
    qed
  qed
  then show ?thesis by (metis not_Some_eq)
qed

section \<open>Properties\<close>

text \<open>What \<open>SlabSLAB.__init__\<close> leaves.\<close>

definition fresh_slab :: "slab \<Rightarrow> bool" where
  "fresh_slab sl \<longleftrightarrow> \<not> sl_error sl \<and> sl_misplaced sl = None \<and> sl_free sl = {} \<and> \<not> sl_free_populated sl"

lemma fresh_slab_new [simp]: "fresh_slab (slab_new a c p act m)"
  by (simp add: fresh_slab_def slab_new_def)

lemma fresh_checkable:
  assumes "fresh_slab sl"
    and "\<forall>off. (case snd (snd (check_slab env k nid off sl)) of Inl e \<Rightarrow> catches GdbNotAvailableError e | Inr n \<Rightarrow> True)"
  shows "checkable (check_slab env k nid) sl"
proof -
  have "sl_error (fst (check_slab env k nid off sl))" if "sl_misplaced (fst (check_slab env k nid off sl)) \<noteq> None" for off
    using check_slab_misplaced [of sl env k nid off] that assms(1)
    by (cases "check_slab env k nid off sl") (auto simp: fresh_slab_def)
  then show ?thesis using assms by (auto simp: checkable_def fresh_slab_def)
qed

text \<open>
  C13: Checking a slab list (\<open>__check_slabs\<close>) accounts for every slab found on it.  The slabs are new objects, their
  checks return or meet memory that is not available, and the walks end or are cut off by a corrupt list or
  such memory.  If the forward walk ends, the result is the sum of the free objects that the checks of its
  slabs have read, and otherwise the list is walked from its other end too and the counts of both walks are
  added.  The printed counts add up to the number of the slabs that were found sound and to the number of
  misplaced slabs, and a message names every check that failed.
\<close>

theorem check_slabs_accounts:
  assumes "get_slabs_of_type mem heads from_head k False True = Some fwd"
    and "get_slabs_of_type mem heads from_head k True True = Some bwd"
    and "\<And>a sl. from_head a = Inr sl \<Longrightarrow> fresh_slab sl \<and> (\<forall>off. case snd (snd (check_slab env k nid off sl)) of
           Inl e \<Rightarrow> catches GdbNotAvailableError e | Inr n \<Rightarrow> True)"
    and "\<And>e. snd fwd = Some e \<or> snd bwd = Some e \<Longrightarrow> catches GdbNotAvailableError e \<or> catches ListError e"
    and "checked (check_slab env k nid) off (found_slabs (fst fwd)) = (vs, off1)"
    and "checked (check_slab env k nid) off1 (found_slabs (fst bwd)) = (ws, off2)"
    and "us = (if snd fwd = None then vs else vs @ ws)"
  shows "\<exists>os. check_slabs (check_slab env k nid) k (heads k) fwd bwd off =
      (Inr (free_objects us), if snd fwd = None then off1 else off2, os) \<and>
    ok_sum os = sound_slabs us \<and> misplaced_sum os = misplaced_slabs us \<and> failed_sum os = failed_slabs us"
proof -
  let ?chk = "check_slab env k nid"
  have ok: "\<forall>sl \<in> set (found_slabs (fst items)). checkable ?chk sl"
    if "get_slabs_of_type mem heads from_head k rv True = Some items" for rv items
    using get_slabs_found [OF that] assms(3) fresh_checkable by blast
  obtain os1 where one: "check_slabs_once ?chk k fwd off = (Inr (snd fwd = None, int (length vs), free_objects vs), off1, os1)"
    "ok_sum os1 = sound_slabs vs" "misplaced_sum os1 = misplaced_slabs vs" "failed_sum os1 = failed_slabs vs"
    using check_slabs_once_ok [OF ok [OF assms(1)] _ assms(5)] get_slabs_skipped [OF assms(1)] assms(4) by blast
  obtain os2 where two: "check_slabs_once ?chk k bwd off1 = (Inr (snd bwd = None, int (length ws), free_objects ws), off2, os2)"
    "ok_sum os2 = sound_slabs ws" "misplaced_sum os2 = misplaced_slabs ws" "failed_sum os2 = failed_slabs ws"
    using check_slabs_once_ok [OF ok [OF assms(2)] _ assms(6)] get_slabs_skipped [OF assms(2)] assms(4) by blast
  show ?thesis
  proof (cases "snd fwd = None")
    case True
    then show ?thesis using one assms(7) by (simp add: check_slabs_def)
  next
    case False
    then obtain e where "snd fwd = Some e" by blast
    then show ?thesis using one two assms(7) by (simp add: check_slabs_def slab_sums_append)
  qed
qed

definition ex_heads :: "slab_list \<Rightarrow> addr" where
  "ex_heads k = (case k of SlabPartial \<Rightarrow> 100 | SlabFull \<Rightarrow> 108 | SlabFree \<Rightarrow> 116)"

definition ex_list_slab :: "addr \<Rightarrow> slab res" where
  "ex_list_slab a = Inr (slab_new a ex_slab_cache True 2 4096)"

text \<open>A partial list of three slabs whose last one points to itself.  The array of indices of the slab at 1056
  is corrupt.\<close>

definition ex_bad_list :: list_mem where
  "ex_bad_list = mem_of [(100, 1024, 1088), (1024, 1056, 100), (1056, 1088, 1024), (1088, 1088, 1056)]"

definition ex_list_env :: slab_env where
  "ex_list_env = \<lparr>sv_freelist = (\<lambda>a. \<lparr>fl_array = (\<lambda>i. Inr (if a = 1056 then 9 else nat i)), fl_first = 0, fl_bufctl = Inr\<rparr>),
     sv_nid = (\<lambda>_. 0), sv_page_of = ex_obj_page, sv_acs = Inr [], sv_slab_at = (\<lambda>_. Inr None)\<rparr>"

definition ex_list_fwd :: "slab_item gen" where
  "ex_list_fwd = the (get_slabs_of_type ex_bad_list ex_heads ex_list_slab SlabPartial False True)"

definition ex_list_bwd :: "slab_item gen" where
  "ex_list_bwd = the (get_slabs_of_type ex_bad_list ex_heads ex_list_slab SlabPartial True True)"

lemma populate_array_total: "\<forall>i \<in> set is. \<not> isl (rd i) \<Longrightarrow> snd (populate_array rd is sl) = None"
proof (induction "is" arbitrary: sl)
  case (Cons i "is")
  then show ?case by (cases "rd i") simp_all
qed simp

lemma ex_list_checks:
  "\<exists>n. snd (snd (check_slab ex_list_env SlabPartial 0 off (slab_new a ex_slab_cache True 2 4096))) = Inr n"
proof -
  let ?sl = "slab_new a ex_slab_cache True 2 4096"
  have "snd (do_populate_free (sv_freelist ex_list_env (sl_address ?sl)) ?sl) = None"
    by (simp add: do_populate_free_def populate_array_total slab_new_def ex_list_env_def)
  then have "snd (populate_free (sv_freelist ex_list_env (sl_address ?sl)) ?sl) = None"
    by (auto simp: populate_free_def split: prod.splits option.splits)
  then obtain sl0 where sl0: "populate_free (sv_freelist ex_list_env (sl_address ?sl)) ?sl = (sl0, None)"
    by (metis prod.collapse)
  have "sl_page_slab sl0" using populate_free_fields(3) [OF sl0] by (simp add: slab_new_def)
  then have off: "off_stage ex_list_env off sl0 = (sl0, off, None)" by (simp add: off_stage_def)
  have "\<forall>ob \<in> set (get_objects sl0). page_seen (sv_page_of ex_list_env ob)"
    "sv_page_of ex_list_env b = Inr p \<Longrightarrow> sv_page_of ex_list_env c = Inr q \<Longrightarrow> op_address p = op_address q \<Longrightarrow> p = q" for b c p q
    by (simp_all add: ex_list_env_def ex_obj_page_def)
  then obtain sl' where "check_rest ex_list_env [] SlabPartial 0 sl0 = (sl', None)"
    using check_rest_exact [of sl0 ex_list_env "[]" SlabPartial 0] by blast
  moreover have "sv_acs ex_list_env = Inr []" by (simp add: ex_list_env_def)
  ultimately show ?thesis using check_slab_stages [OF sl0 off] by simp
qed

theorem check_slabs_accounts_witness:
  "\<exists>os. check_slabs (check_slab ex_list_env SlabPartial 0) SlabPartial 100 ex_list_fwd ex_list_bwd None = (Inr 8, None, os) \<and>
     ok_sum os = 4 \<and> misplaced_sum os = 2 \<and> failed_sum os = 0"
proof -
  let ?chk = "check_slab ex_list_env SlabPartial 0"
  let ?vs = "fst (checked ?chk None (found_slabs (fst ex_list_fwd)))"
  let ?ws = "fst (checked ?chk None (found_slabs (fst ex_list_bwd)))"
  have walks: "get_slabs_of_type ex_bad_list ex_heads ex_list_slab SlabPartial False True = Some ex_list_fwd"
    "get_slabs_of_type ex_bad_list ex_heads ex_list_slab SlabPartial True True = Some ex_list_bwd"
    unfolding ex_list_fwd_def ex_list_bwd_def option.collapse by code_simp+
  have ends: "snd ex_list_fwd = Some ListCycleError" "snd ex_list_bwd = Some CorruptListError" by code_simp+
  have runs: "checked ?chk None (found_slabs (fst ex_list_fwd)) = (?vs, None)"
    "checked ?chk None (found_slabs (fst ex_list_bwd)) = (?ws, None)"
    unfolding prod_eq_iff fst_conv snd_conv by (rule conjI [OF refl], code_simp)+
  have sums: "free_objects (?vs @ ?ws) = 8" "sound_slabs (?vs @ ?ws) = 4" "misplaced_slabs (?vs @ ?ws) = 2"
    "failed_slabs (?vs @ ?ws) = 0" by code_simp+
  have fresh: "fresh_slab sl \<and> (\<forall>off. case snd (snd (?chk off sl)) of Inl e \<Rightarrow> catches GdbNotAvailableError e | Inr n \<Rightarrow> True)"
    if "ex_list_slab a = Inr sl" for a sl
    using that ex_list_checks [of _ a] by (auto simp: ex_list_slab_def) (metis sum.simps(6))
  have cut: "catches GdbNotAvailableError e \<or> catches ListError e" if "snd ex_list_fwd = Some e \<or> snd ex_list_bwd = Some e" for e
  proof -
    have "catches ListError ListCycleError" "catches ListError CorruptListError" by code_simp+
    then show ?thesis using that unfolding ends by auto
  qed
  have "\<exists>os. check_slabs ?chk SlabPartial (ex_heads SlabPartial) ex_list_fwd ex_list_bwd None =
      (Inr (free_objects (?vs @ ?ws)), if snd ex_list_fwd = None then None else None, os) \<and>
    ok_sum os = sound_slabs (?vs @ ?ws) \<and> misplaced_sum os = misplaced_slabs (?vs @ ?ws) \<and>
    failed_sum os = failed_slabs (?vs @ ?ws)"
    by (rule check_slabs_accounts [OF walks _ _ runs]) (erule fresh cut | simp add: ends)+
  then show ?thesis unfolding sums by (simp add: ex_heads_def)
qed

text \<open>
  A partial list of a CPU whose slabs are frozen, numbered down to 1, new and consistent with their free
  lists is recorded completely and without a message: every page is entered for the CPU, and the counts grow
  by the objects and the free objects of its slabs.
\<close>

theorem process_partial_records:
  assumes "partial_list env (ss_cache s) p us" and "us \<noteq> []"
    and "distinct (map fst (uc_cpu_slabs (ss_cache s)) @ map fst us)"
  shows "process_partial env True cpu t p (int (length us)) (-1) s =
    Some (s\<lparr>ss_cache := add_slabs t us (ss_cache s)\<rparr>, [], None)"
  using process_partial_list [OF assms(1, 3), of "int (length us)" "-1"] assms(2) by simp

definition ex_slub_env :: slub_env where
  "ex_slub_env = \<lparr>se_rd = ex_slub_rd,
     se_cpu_slab = \<lambda>cpu. Inr \<lparr>cs_freelist = Inr 0, cs_page_objects = Inr 4, cs_page = Inr 0, cs_partial = Inr 128\<rparr>,
     se_from_page = \<lambda>a. Inr (ex_slub\<lparr>ul_address := a, ul_frozen := 1\<rparr>), se_freelist = \<lambda>a. Inr 4112,
     se_pages = \<lambda>a. Inr (if a = 128 then 2 else 1), se_next = \<lambda>a. Inr (if a = 128 then 192 else 0)\<rparr>"

definition ex_slub_state :: slub_state where
  "ex_slub_state = \<lparr>ss_cache = ex_slub_cache, ss_sizes = [0]\<rparr>"

lemma ex_slub_populates:
  "slub_populate_free ex_slub_rd ex_slub_cache (Inr 4112) (ex_slub\<lparr>ul_address := a, ul_frozen := 1\<rparr>) =
     (ex_slub\<lparr>ul_address := a, ul_frozen := 1, ul_free := {4112, 4304}, ul_free_populated := True\<rparr>, None)"
proof -
  have "slub_free_loop ex_slub_rd ex_slub_cache 4112 0 (ex_slub\<lparr>ul_address := a, ul_frozen := 1, ul_free := {}\<rparr>) =
      (ex_slub\<lparr>ul_address := a, ul_frozen := 1, ul_free := {4112, 4304}\<rparr>, None)"
    using slub_free_loop_chain [of ex_slub_rd ex_slub_cache 4112 "[4112, 4304]" 0
        "ex_slub\<lparr>ul_address := a, ul_frozen := 1, ul_free := {}\<rparr>"]
    by (simp add: ex_slub_def ex_slub_cache_def ex_slub_rd_def ptr_add_def)
  then show ?thesis by (simp add: slub_populate_free_def ul_nr_free_def ex_slub_def)
qed

theorem process_partial_records_witness:
  "process_partial ex_slub_env True 0 ''CPU 0 partial'' 128 2 (-1) ex_slub_state =
     Some (\<lparr>ss_cache = ex_slub_cache\<lparr>uc_cpu_slabs := [(128, ''CPU 0 partial''), (192, ''CPU 0 partial'')],
        uc_cpu_slabs_objects := 8, uc_cpu_slabs_free := 4\<rparr>, ss_sizes = [0]\<rparr>, [], None)"
  using process_partial_records [of ex_slub_env ex_slub_state 128
      "[(128, ex_slub\<lparr>ul_address := 128, ul_frozen := 1\<rparr>), (192, ex_slub\<lparr>ul_address := 192, ul_frozen := 1\<rparr>)]" 0
      "''CPU 0 partial''"]
  by (simp add: ex_slub_state_def ex_slub_env_def ex_slub_populates add_slabs_def)
     (simp add: ex_slub_def ex_slub_cache_def ul_nr_free_def)

text \<open>
  Once its tables are filled, processing a SLUB cache again, at any level, changes nothing of it: no slab is
  entered twice and no count grows.
\<close>

theorem process_all_again:
  assumes "uc_processed (ss_cache s)" and "uc_cpu_slabs (ss_cache s) \<noteq> []"
    and "process_all env lvl cpus nodes s = Some (s', os, e)"
  shows "s' = s"
proof (cases "lvl = 0")
  case True
  then show ?thesis using assms by (simp add: process_all_def)
next
  case False
  define t0 where "t0 = \<lparr>st_slabs = 0, st_partial = 0, st_objs = 0,
    st_free = uc_cpu_slabs_free (ss_cache s) + int (length (uc_cpu_freelists (ss_cache s))), st_full_list = 0\<rparr>"
  have run: "Option.bind (process_percpu env lvl cpus s) (\<lambda>r. then_run r (\<lambda>s1.
        let c = ss_cache s1;
            (r2, t) = process_nodes nodes s1 \<lparr>st_slabs = 0, st_partial = 0, st_objs = 0,
              st_free = uc_cpu_slabs_free c + int (length (uc_cpu_freelists c)), st_full_list = 0\<rparr>
        in then_run r2 (\<lambda>s2. Some (process_finish lvl s2 t)))) = Some (s', os, e)"
    using False assms(3) by (simp add: process_all_def)
  then obtain s1 os1 e1 where "process_percpu env lvl cpus s = Some (s1, os1, e1)"
    by (cases "process_percpu env lvl cpus s") auto
  then have p: "process_percpu env lvl cpus s = Some (s, os1, e1)" using process_percpu_filled [OF assms(2)] by blast
  obtain r t where n: "process_nodes nodes s t0 = (r, t)" "fst r = s"
    using process_nodes_done [OF assms(1), of nodes t0] by (metis prod.collapse)
  have same: "s\<lparr>ss_cache := ss_cache s\<lparr>uc_processed := True\<rparr>\<rparr> = s" using assms(1) by simp
  show ?thesis
  proof (cases e1)
    case (Some x)
    then show ?thesis using run p by simp
  next
    case None
    then have "map_option (\<lambda>(s', os', e). (s', os1 @ os', e)) (then_run r (\<lambda>s2. Some (process_finish lvl s2 t))) = Some (s', os, e)"
      using run p n(1) by (simp add: t0_def Let_def)
    then obtain os' where "then_run r (\<lambda>s2. Some (process_finish lvl s2 t)) = Some (s', os', e)" by auto
    then show ?thesis using n(2) same by (cases rule: then_run_Some) (auto simp: process_finish_def Let_def)
  qed
qed

theorem process_all_again_witness:
  "\<exists>os e. process_all ex_slub_env 1 [0] []
     \<lparr>ss_cache = ex_slub_cache\<lparr>uc_cpu_slabs := [(128, ''CPU 0 slab'')], uc_processed := True\<rparr>, ss_sizes = [0]\<rparr> =
   Some (\<lparr>ss_cache = ex_slub_cache\<lparr>uc_cpu_slabs := [(128, ''CPU 0 slab'')], uc_processed := True\<rparr>, ss_sizes = [0]\<rparr>, os, e)"
proof -
  let ?s = "\<lparr>ss_cache = ex_slub_cache\<lparr>uc_cpu_slabs := [(128, ''CPU 0 slab'')], uc_processed := True\<rparr>, ss_sizes = [0]\<rparr>"
  have "case process_all ex_slub_env 1 [0] [] ?s of None \<Rightarrow> False | Some r \<Rightarrow> True" by code_simp
  then obtain s' os e where r: "process_all ex_slub_env 1 [0] [] ?s = Some (s', os, e)"
    by (metis (no_types, lifting) option.case_eq_if option.collapse prod_cases3)
  moreover have "s' = ?s" by (rule process_all_again [OF _ _ r]) simp_all
  ultimately show ?thesis by blast
qed

text \<open>
  The walk of a partial list is not protected against cycles: on a slab that is its own successor it does
  not return.
\<close>

theorem process_partial_cycle:
  assumes "p \<noteq> 0" and "se_from_page env p = Inr u" and "se_pages env p = Inr n" and "se_next env p = Inr p"
  shows "process_partial env False cpu t p n (-1) s = None"
  by (rule process_partial_loops [OF assms])

theorem process_partial_cycle_witness:
  "process_partial (ex_slub_env\<lparr>se_next := \<lambda>a. Inr a\<rparr>) False 0 ''CPU 0 partial'' 128 2 (-1) ex_slub_state = None"
  by (rule process_partial_cycle [where u = "ex_slub\<lparr>ul_address := 128, ul_frozen := 1\<rparr>"])
     (simp_all add: ex_slub_env_def)

end
