(* ===== verification/Printk.thy ===== *)
theory Printk
  imports Struct_Layout
begin

text \<open>
  The kernel log in its three formats: \<^verbatim>\<open>crash/subsystem/printk/lockless_ringbuffer.py\<close>,
  \<^verbatim>\<open>structured_ringbuffer.py\<close> and \<^verbatim>\<open>plain_ringbuffer.py\<close>, and the command \<open>log\<close> of
  \<^verbatim>\<open>crash/commands/dmesg.py\<close> that tries them in turn.

  A function that prints is a generator of the strings it prints, one for each \<open>print\<close>.  The memory of the
  rings is a parameter: descriptors and infos by their index, text by its offset in the data area.
\<close>

section \<open>Formatting\<close>

record log_args =
  arg_t :: bool
  arg_d :: bool
  arg_m :: bool

definition lpad :: "char \<Rightarrow> nat \<Rightarrow> string \<Rightarrow> string" where
  "lpad c n s = replicate (n - length s) c @ s"

text \<open>\<open>'[{:5d}.{:06d}] '\<close> of a time in nanoseconds, and \<open>'<{:d}>'\<close> of a level.\<close>

definition format_timestamp :: "nat \<Rightarrow> string" where
  "format_timestamp ns = ''['' @ lpad CHR '' '' 5 (py_digits (ns div 1000000000)) @ ''.'' @
     lpad CHR ''0'' 6 (py_digits (ns mod 1000000000 div 1000)) @ ''] ''"

definition format_level :: "nat \<Rightarrow> string" where
  "format_level l = ''<'' @ py_digits l @ ''>''"

definition log_prefix :: "log_args \<Rightarrow> nat \<Rightarrow> nat \<Rightarrow> string" where
  "log_prefix args level ns =
     (if arg_m args then format_level level else []) @ (if arg_t args then [] else format_timestamp ns)"

section \<open>The lockless ring buffer\<close>

record prb_desc =
  state_var :: int
  blk_begin :: int
  blk_next :: int

record printk_info =
  pi_seq :: int
  pi_ts_nsec :: nat
  pi_text_len :: int
  pi_level :: nat
  pi_subsystem :: string
  pi_device :: string

text \<open>
  A \<open>prb\<close>: \<open>prb_text off len\<close> is the string of \<open>len\<close> bytes in the data block at the offset \<open>off\<close> of the
  data area.
\<close>

record prb =
  count_bits :: nat
  prb_descs :: "int \<Rightarrow> prb_desc res"
  prb_infos :: "int \<Rightarrow> printk_info res"
  tail_id :: int
  size_bits :: nat
  prb_text :: "int \<Rightarrow> int \<Rightarrow> string res"

text \<open>\<open>read_null_end_string\<close>: up to the first NUL.\<close>

definition read_null_end_string :: "string \<Rightarrow> string" where
  "read_null_end_string s = takeWhile (\<lambda>c. c \<noteq> CHR 0x00) s"

text \<open>The state variable is read as a signed \<open>long\<close>.\<close>

definition sv_shift :: nat where
  "sv_shift = 8 * 8 - 2"

definition sv_mask :: int where
  "sv_mask = push_bit sv_shift 3"

definition desc_state :: "prb_desc \<Rightarrow> int" where
  "desc_state d = drop_bit sv_shift (state_var d AND sv_mask)"

definition is_finalized :: "prb_desc \<Rightarrow> bool" where
  "is_finalized d \<longleftrightarrow> desc_state d = 2"

definition is_reusable :: "prb_desc \<Rightarrow> bool" where
  "is_reusable d \<longleftrightarrow> desc_state d = 3"

definition lpos_mask :: "prb \<Rightarrow> int" where
  "lpos_mask r = push_bit (size_bits r) 1 - 1"

definition get_text :: "prb \<Rightarrow> prb_desc \<Rightarrow> int \<Rightarrow> string res" where
  "get_text r d len = prb_text r (blk_begin d AND lpos_mask r) len"

definition get_idx :: "prb \<Rightarrow> int \<Rightarrow> int" where
  "get_idx r i = i AND (push_bit (count_bits r) 1 - 1)"

definition get_desc :: "prb \<Rightarrow> int \<Rightarrow> prb_desc res" where
  "get_desc r i = prb_descs r (get_idx r i)"

definition get_info :: "prb \<Rightarrow> int \<Rightarrow> printk_info res" where
  "get_info r i = prb_infos r (get_idx r i)"

definition is_valid_desc :: "prb_desc \<Rightarrow> printk_info \<Rightarrow> int \<Rightarrow> bool" where
  "is_valid_desc d i seq \<longleftrightarrow> (is_finalized d \<or> is_reusable d) \<and> pi_seq i = seq"

text \<open>\<open>first_seq\<close>: the loop over \<open>range(0, 1)\<close>.\<close>

fun first_seq_loop :: "prb \<Rightarrow> int list \<Rightarrow> int res" where
  "first_seq_loop r [] = Inl LogConsistencyException"
| "first_seq_loop r (i # is) =
     bindR (get_desc r (tail_id r + i)) (\<lambda>d.
       if is_finalized d \<or> is_reusable d then bindR (get_info r (tail_id r + i)) (\<lambda>info. Inr (pi_seq info))
       else first_seq_loop r is)"

definition first_seq :: "prb \<Rightarrow> int res" where
  "first_seq r = first_seq_loop r [0..0]"

definition show_msg :: "prb \<Rightarrow> log_args \<Rightarrow> prb_desc \<Rightarrow> printk_info \<Rightarrow> string list res" where
  "show_msg r args d info = bindR (get_text r d (pi_text_len info)) (\<lambda>text.
     Inr ([log_prefix args (pi_level info) (pi_ts_nsec info) @ text] @
       (if arg_d args then
          (if pi_subsystem info \<noteq> [] then [''  SUBSYSTEM='' @ pi_subsystem info] else []) @
          (if pi_device info \<noteq> [] then [''  DEVICE='' @ pi_device info] else [])
        else [])))"

text \<open>One iteration of the loop of \<open>show_log\<close>.\<close>

definition show_step :: "prb \<Rightarrow> log_args \<Rightarrow> int \<Rightarrow> (int, string) step" where
  "show_step r args seq = (case get_desc r seq of
       Inl e \<Rightarrow> Stop [] (Some e)
     | Inr d \<Rightarrow> (case get_info r seq of
           Inl e \<Rightarrow> Stop [] (Some e)
         | Inr info \<Rightarrow>
             if \<not> is_valid_desc d info seq then Stop [] None
             else if is_reusable d then Next [] (seq + 1)
             else (case show_msg r args d info of
                 Inl e \<Rightarrow> Stop [] (Some e)
               | Inr ls \<Rightarrow> Next ls (seq + 1))))"

definition show_log :: "prb \<Rightarrow> log_args \<Rightarrow> string gen option" where
  "show_log r args = (case first_seq r of
       Inl e \<Rightarrow> Some (gen_raise e)
     | Inr seq \<Rightarrow> gen_while (show_step r args) seq)"

text \<open>\<open>prb\<close> is the value of the symbol, if the kernel has it.\<close>

definition lockless_rb_show :: "prb res \<Rightarrow> log_args \<Rightarrow> string gen option" where
  "lockless_rb_show p args = (case p of
       Inl e \<Rightarrow> Some (gen_raise (if catches DelayedAttributeError e then LogTypeException else e))
     | Inr r \<Rightarrow> show_log r args)"

section \<open>The structured ring buffer\<close>

text \<open>
  A \<open>struct printk_log\<close>: the strings are the ones that decoding the bytes behind the header gives.
\<close>

record log_rec =
  lr_text :: "string res"
  lr_text_len :: nat
  lr_dict :: "string res"
  lr_dict_len :: nat
  lr_len :: int
  lr_ts_nsec :: nat
  lr_level :: nat

record log_msg =
  lm_text :: string
  lm_timestamp :: nat
  lm_level :: nat
  lm_next :: int
  lm_dict :: string

text \<open>A text that cannot be decoded is reported, and leaves \<open>text\<close> unbound.\<close>

definition log_from_idx :: "(int \<Rightarrow> log_rec res) \<Rightarrow> int \<Rightarrow> log_msg res" where
  "log_from_idx mem idx = bindR (mem idx) (\<lambda>rec. case lr_text rec of
       Inl e \<Rightarrow>
         if catches UnicodeDecodeError e then bindR (lr_dict rec) (\<lambda>_. Inl UnboundLocalError) else Inl e
     | Inr text \<Rightarrow> bindR (lr_dict rec) (\<lambda>dict.
         Inr \<lparr>lm_text = take (lr_text_len rec) text, lm_timestamp = lr_ts_nsec rec, lm_level = lr_level rec,
           lm_next = (if lr_len rec = 0 then 0 else idx + lr_len rec), lm_dict = take (lr_dict_len rec) dict\<rparr>))"

record log_syms =
  log_buf :: "int \<Rightarrow> log_rec res"
  log_first_idx :: "int res"
  clear_seq :: int
  log_first_seq :: int
  log_next_seq :: int

definition log_step :: "log_syms \<Rightarrow> int \<times> int \<Rightarrow> (int \<times> int, log_msg) step" where
  "log_step env = (\<lambda>(seq, idx).
     if seq < log_next_seq env then
       (case log_from_idx (log_buf env) idx of
          Inl e \<Rightarrow> Stop [] (Some e)
        | Inr m \<Rightarrow> Next [m] (seq + 1, lm_next m))
     else Stop [] None)"

text \<open>\<open>clear_seq\<close> is raised to \<open>log_first_seq\<close>; the index stays the one of the first record.\<close>

definition get_log_msgs :: "log_syms \<Rightarrow> log_msg gen option" where
  "get_log_msgs env = (case log_first_idx env of
       Inl e \<Rightarrow> Some (gen_raise (if catches DelayedAttributeError e then LogTypeException else e))
     | Inr idx \<Rightarrow> gen_while (log_step env) (max (clear_seq env) (log_first_seq env), idx))"

definition show_structured :: "log_args \<Rightarrow> log_msg \<Rightarrow> string list" where
  "show_structured args m =
     map ((@) (log_prefix args (lm_level m) (lm_timestamp m))) (py_split (CHR 0x0A) (lm_text m)) @
     (if arg_d args \<and> lm_dict m \<noteq> [] then map ((@) ''  '') (py_split (CHR 0x00) (lm_dict m)) else [])"

definition structured_rb_show :: "log_syms \<Rightarrow> log_args \<Rightarrow> string gen option" where
  "structured_rb_show env args =
     map_option (\<lambda>g. gen_bind g (\<lambda>m. gen_of_list (show_structured args m))) (get_log_msgs env)"

section \<open>The plain buffer\<close>

definition is_digit :: "char \<Rightarrow> bool" where
  "is_digit c \<longleftrightarrow> c \<in> set ''0123456789''"

text \<open>\<open>re.sub(r'^<[0-9]+>', '', line)\<close> and \<open>re.sub(r'^\[[0-9\. ]+\] ', '', line)\<close>.\<close>

definition sub_level :: "string \<Rightarrow> string" where
  "sub_level s = (case s of
       c # r \<Rightarrow>
         if c = CHR ''<'' \<and> takeWhile is_digit r \<noteq> [] \<and> take 1 (dropWhile is_digit r) = ''>''
         then drop 1 (dropWhile is_digit r) else s
     | [] \<Rightarrow> s)"

definition is_ts_char :: "char \<Rightarrow> bool" where
  "is_ts_char c \<longleftrightarrow> is_digit c \<or> c = CHR ''.'' \<or> c = CHR '' ''"

definition sub_timestamp :: "string \<Rightarrow> string" where
  "sub_timestamp s = (case s of
       c # r \<Rightarrow>
         if c = CHR ''['' \<and> takeWhile is_ts_char r \<noteq> [] \<and> take 2 (dropWhile is_ts_char r) = ''] ''
         then drop 2 (dropWhile is_ts_char r) else s
     | [] \<Rightarrow> s)"

definition plain_rb_filter :: "string \<Rightarrow> log_args \<Rightarrow> string" where
  "plain_rb_filter log args =
     (let ls = py_split (CHR 0x0A) log
      in py_join [CHR 0x0A] (if arg_m args then ls
           else map (\<lambda>l. let l' = sub_level l in if arg_t args then sub_timestamp l' else l') ls))"

text \<open>\<open>log_buf_len\<close> and \<open>log_buf\<close>, a pointer with the string it points to.\<close>

definition plain_rb_show :: "int res \<Rightarrow> (int \<times> string res) res \<Rightarrow> log_args \<Rightarrow> string gen" where
  "plain_rb_show len buf args = gen_try len (\<lambda>n.
     if n = 0 then gen_done
     else gen_try buf (\<lambda>(p, s).
       if p = 0 then gen_done
       else if arg_d args then gen_raise LogInvalidOption
       else gen_try s (\<lambda>log. gen_of_list [plain_rb_filter log args])))"

section \<open>The command\<close>

text \<open>
  Each format in turn, until one does not raise \<^verbatim>\<open>LogTypeException\<close>.  The arguments printed last, when none
  is found, are left out.
\<close>

definition or_else :: "string gen \<Rightarrow> string gen option \<Rightarrow> string gen option" where
  "or_else g h = (case snd g of
       Some e \<Rightarrow> if catches LogTypeException e then map_option (gen_yields (fst g)) h else Some g
     | None \<Rightarrow> Some g)"

definition log_execute ::
  "prb res \<Rightarrow> log_syms \<Rightarrow> int res \<Rightarrow> (int \<times> string res) res \<Rightarrow> log_args \<Rightarrow> string gen option" where
  "log_execute p env len buf args =
     Option.bind (lockless_rb_show p args) (\<lambda>g1. or_else g1
       (Option.bind (structured_rb_show env args) (\<lambda>g2. or_else g2
         (case plain_rb_show len buf args of
            (ys, Some e) \<Rightarrow>
              if catches LogTypeException e then Some (ys @ [''Can't find valid log''], None)
              else if catches LogInvalidOption e then Some (ys, Some CommandError)
              else Some (ys, Some e)
          | (ys, None) \<Rightarrow> Some (ys, None)))))"

section \<open>The lockless ring\<close>

lemma get_idx_mod: "get_idx r i = i mod 2 ^ count_bits r"
  by (simp add: get_idx_def push_bit_eq_mult and_exp_eq_0_iff_not_bit take_bit_eq_mod
      flip: mask_eq_exp_minus_1 take_bit_eq_mask)

text \<open>The state in the top two bits of a word, although it is read as a signed number.\<close>

lemma bit_sv_mask: "bit sv_mask n \<longleftrightarrow> 62 \<le> n \<and> n < 64"
proof -
  have eq: "sv_mask = push_bit 62 (mask 2)" by (simp add: sv_mask_def sv_shift_def mask_eq_exp_minus_1)
  show ?thesis unfolding eq bit_push_bit_iff bit_mask_iff by auto
qed

lemma desc_state_sint:
  assumes "state_var d = sint (w :: 64 word)"
  shows "desc_state d = uint (drop_bit 62 w)"
proof (rule bit_eqI)
  fix n
  show "bit (desc_state d) n \<longleftrightarrow> bit (uint (drop_bit 62 w)) n"
    by (auto simp: desc_state_def sv_shift_def bit_drop_bit_eq bit_and_iff bit_sv_mask assms bit_sint_iff
        bit_uint_iff min_def dest: bit_imp_le_length)
qed

text \<open>A slot holds one sequence number: the run of valid entries is at most as long as the ring.\<close>

definition valid_at :: "prb \<Rightarrow> int \<Rightarrow> bool" where
  "valid_at r seq = (case (get_desc r seq, get_info r seq) of (Inr d, Inr info) \<Rightarrow> is_valid_desc d info seq | _ \<Rightarrow> False)"

lemma valid_run_bound:
  assumes "\<forall>j. s \<le> j \<and> j < t \<longrightarrow> valid_at r j"
  shows "t \<le> s + 2 ^ count_bits r"
proof (rule ccontr)
  assume "\<not> t \<le> s + 2 ^ count_bits r"
  moreover have "(0 :: int) < 2 ^ count_bits r" by simp
  ultimately have "s < t" "s + 2 ^ count_bits r < t" by linarith+
  then have "valid_at r s" "valid_at r (s + 2 ^ count_bits r)" using assms by simp_all
  moreover have "get_info r (s + 2 ^ count_bits r) = get_info r s" by (simp add: get_info_def get_idx_mod)
  ultimately show False by (auto simp: valid_at_def is_valid_desc_def split: sum.splits)
qed

lemma show_step_Next: "show_step r args seq = Next ys seq' \<Longrightarrow> seq' = seq + 1 \<and> valid_at r seq"
  by (auto simp: show_step_def valid_at_def split: sum.splits if_splits)

lemma show_loop_terminates: "\<exists>g. gen_while (show_step r args) s = Some g"
proof (rule gen_while_terminates [where m = "\<lambda>t. nat (s + 2 ^ count_bits r - t)"
      and I = "\<lambda>t. s \<le> t \<and> (\<forall>j. s \<le> j \<and> j < t \<longrightarrow> valid_at r j)"])
  fix t ys t'
  assume I: "s \<le> t \<and> (\<forall>j. s \<le> j \<and> j < t \<longrightarrow> valid_at r j)" and "show_step r args t = Next ys t'"
  then have t': "t' = t + 1" "valid_at r t" using show_step_Next by blast+
  have I': "\<forall>j. s \<le> j \<and> j < t' \<longrightarrow> valid_at r j"
  proof (intro allI impI)
    fix j
    assume "s \<le> j \<and> j < t'"
    then show "valid_at r j" using I t' by (cases "j = t") auto
  qed
  then have "t' \<le> s + 2 ^ count_bits r" by (rule valid_run_bound)
  then show "(s \<le> t' \<and> (\<forall>j. s \<le> j \<and> j < t' \<longrightarrow> valid_at r j)) \<and>
      nat (s + 2 ^ count_bits r - t') < nat (s + 2 ^ count_bits r - t)"
    using I I' t'(1) by auto
qed auto

text \<open>A ring that holds the records of an abstract log from a sequence number on.\<close>

type_synonym log_record = "prb_desc \<times> printk_info \<times> string"

fun holds :: "prb \<Rightarrow> int \<Rightarrow> log_record list \<Rightarrow> bool" where
  "holds r seq [] \<longleftrightarrow> (\<exists>d info. get_desc r seq = Inr d \<and> get_info r seq = Inr info \<and> \<not> is_valid_desc d info seq)"
| "holds r seq ((d, info, text) # recs) \<longleftrightarrow>
     get_desc r seq = Inr d \<and> get_info r seq = Inr info \<and> is_valid_desc d info seq \<and>
     (is_finalized d \<longrightarrow> get_text r d (pi_text_len info) = Inr text) \<and> holds r (seq + 1) recs"

definition record_lines :: "log_args \<Rightarrow> printk_info \<Rightarrow> string \<Rightarrow> string list" where
  "record_lines args info text = [log_prefix args (pi_level info) (pi_ts_nsec info) @ text] @
     (if arg_d args then
        (if pi_subsystem info \<noteq> [] then [''  SUBSYSTEM='' @ pi_subsystem info] else []) @
        (if pi_device info \<noteq> [] then [''  DEVICE='' @ pi_device info] else [])
      else [])"

definition abstract_log :: "log_args \<Rightarrow> log_record list \<Rightarrow> string list" where
  "abstract_log args recs = concat (map (\<lambda>(d, info, text). record_lines args info text)
     (filter (\<lambda>(d, _). is_finalized d) recs))"

lemma show_loop_holds: "holds r seq recs \<Longrightarrow> gen_while (show_step r args) seq = Some (gen_of_list (abstract_log args recs))"
proof (induction recs arbitrary: seq)
  case Nil
  then have "show_step r args seq = Stop [] None" by (auto simp: show_step_def)
  then show ?case by (simp add: gen_while_Stop abstract_log_def gen_of_list_def)
next
  case (Cons rec recs)
  obtain d info msg where rec: "rec = (d, info, msg)" by (cases rec)
  have h: "get_desc r seq = Inr d" "get_info r seq = Inr info" "is_valid_desc d info seq"
    "is_finalized d \<Longrightarrow> get_text r d (pi_text_len info) = Inr msg"
    using Cons.prems rec by simp_all
  have "show_step r args seq = Next (if is_finalized d then record_lines args info msg else []) (seq + 1)"
    using h by (auto simp: show_step_def show_msg_def record_lines_def is_valid_desc_def is_finalized_def is_reusable_def)
  then show ?case using Cons rec by (simp add: gen_while_Next abstract_log_def gen_simps)
qed

lemma holds_length:
  assumes "holds r seq recs"
  shows "length recs \<le> 2 ^ count_bits r"
proof -
  have "valid_at r (seq + int i)" if "i < length recs" for i
    using assms that
  proof (induction recs arbitrary: seq i)
    case (Cons rec recs)
    then show ?case
    proof (cases i)
      case 0
      then show ?thesis using Cons by (cases rec) (auto simp: valid_at_def)
    next
      case (Suc k)
      then show ?thesis using Cons.IH [of "seq + 1" k] Cons.prems by (cases rec) (auto simp: algebra_simps)
    qed
  qed simp
  then have "\<forall>j. seq \<le> j \<and> j < seq + int (length recs) \<longrightarrow> valid_at r j"
    by (metis add.commute add_diff_cancel_left' diff_add_cancel diff_ge_0_iff_ge int_nat_eq less_diff_eq
        nat_less_iff zle_iff_zadd of_nat_less_iff)
  then have "seq + int (length recs) \<le> seq + 2 ^ count_bits r" by (rule valid_run_bound)
  then show ?thesis by (metis add_le_cancel_left of_nat_le_iff of_nat_numeral of_nat_power)
qed

section \<open>The structured log\<close>

fun log_chain :: "(int \<Rightarrow> log_rec res) \<Rightarrow> int \<Rightarrow> log_msg list \<Rightarrow> bool" where
  "log_chain mem idx [] \<longleftrightarrow> True"
| "log_chain mem idx (m # ms) \<longleftrightarrow> log_from_idx mem idx = Inr m \<and> log_chain mem (lm_next m) ms"

lemma log_loop_chain:
  assumes "log_chain (log_buf env) idx ms" and "log_next_seq env \<le> seq + int (length ms)"
  shows "gen_while (log_step env) (seq, idx) = Some (gen_of_list (take (nat (log_next_seq env - seq)) ms))"
  using assms
proof (induction ms arbitrary: seq idx)
  case Nil
  then show ?case by (intro gen_while_Stop [THEN trans]) (auto simp: log_step_def gen_of_list_def)
next
  case (Cons m ms)
  show ?case
  proof (cases "seq < log_next_seq env")
    case True
    then have "log_step env (seq, idx) = Next [m] (seq + 1, lm_next m)" using Cons.prems by (simp add: log_step_def)
    moreover have "nat (log_next_seq env - seq) = Suc (nat (log_next_seq env - (seq + 1)))" using True by simp
    ultimately show ?thesis using Cons.IH [of "lm_next m" "seq + 1"] Cons.prems by (simp add: gen_while_Next gen_simps)
  next
    case False
    then show ?thesis by (intro gen_while_Stop [THEN trans]) (auto simp: log_step_def gen_of_list_def)
  qed
qed

lemma get_log_msgs_terminates: "\<exists>g. get_log_msgs env = Some g"
proof -
  have "\<exists>g. gen_while (log_step env) s = Some g" for s
    by (rule gen_while_terminates [where m = "\<lambda>(seq, _). nat (log_next_seq env - seq)" and I = "\<lambda>_. True"])
       (auto simp: log_step_def split: sum.splits if_splits)
  then show ?thesis by (simp add: get_log_msgs_def split: sum.splits)
qed

section \<open>Stripping prefixes\<close>

lemma is_digit_char_of: "k < 10 \<Longrightarrow> is_digit (char_of (48 + k :: nat))"
proof -
  assume "k < 10"
  then have "k \<in> set [0, 1, 2, 3, 4, 5, 6, 7, 8, 9]" by auto
  moreover have "\<forall>k \<in> set [0, 1, 2, 3, 4, 5, 6, 7, 8, 9 :: nat]. is_digit (char_of (48 + k))" by code_simp
  ultimately show ?thesis by blast
qed

lemma py_digits_is_digit: "c \<in> set (py_digits n) \<Longrightarrow> is_digit c"
proof (induction n rule: py_digits.induct)
  case (1 n)
  then show ?case
    by (cases "n < 10") (auto simp: py_digits.simps [of n] is_digit_char_of)
qed

lemma py_digits_nonempty [simp]: "py_digits n \<noteq> []"
  by (subst py_digits.simps) simp

lemma sub_level_format [simp]: "sub_level (format_level l @ line) = line"
proof -
  have d: "\<forall>c \<in> set (py_digits l). is_digit c" using py_digits_is_digit by blast
  have "\<not> is_digit CHR ''>''" by code_simp
  then have "takeWhile is_digit (py_digits l @ CHR ''>'' # line) = py_digits l"
    "dropWhile is_digit (py_digits l @ CHR ''>'' # line) = CHR ''>'' # line"
    using d by (simp_all add: takeWhile_append2 dropWhile_append2)
  then show ?thesis by (simp add: sub_level_def format_level_def)
qed

lemma sub_timestamp_format [simp]: "sub_timestamp (format_timestamp ns @ line) = line"
proof -
  let ?t = "lpad CHR '' '' 5 (py_digits (ns div 1000000000)) @ ''.'' @ lpad CHR ''0'' 6 (py_digits (ns mod 1000000000 div 1000))"
  have "is_ts_char CHR '' ''" "is_ts_char CHR ''0''" "is_ts_char CHR ''.''" by code_simp+
  then have d: "\<forall>c \<in> set ?t. is_ts_char c"
    using py_digits_is_digit by (auto simp: lpad_def is_ts_char_def)
  have "\<not> is_ts_char CHR '']''" by code_simp
  then have "takeWhile is_ts_char (?t @ CHR '']'' # CHR '' '' # line) = ?t"
    "dropWhile is_ts_char (?t @ CHR '']'' # CHR '' '' # line) = CHR '']'' # CHR '' '' # line"
    using d by (simp_all add: takeWhile_append2 dropWhile_append2)
  moreover have "format_timestamp ns @ line = CHR ''['' # ?t @ CHR '']'' # CHR '' '' # line"
    by (simp add: format_timestamp_def)
  ultimately show ?thesis by (simp add: sub_timestamp_def)
qed

lemma prefix_no_newline: "CHR 0x0A \<notin> set (log_prefix args l ns)"
proof -
  have "\<not> is_digit CHR 0x0A" by code_simp
  then have "CHR 0x0A \<notin> set (py_digits n)" for n using py_digits_is_digit by blast
  then show ?thesis by (auto simp: log_prefix_def format_level_def format_timestamp_def lpad_def)
qed

section \<open>Properties\<close>

lemma ex_prefix: "log_prefix \<lparr>arg_t = False, arg_d = d, arg_m = True\<rparr> 6 0 = ''<6>[    0.000000] ''"
proof -
  have "py_digits 0 = ''0''" "py_digits 6 = ''6''" "lpad CHR '' '' 5 ''0'' = ''    0''" "lpad CHR ''0'' 6 ''0'' = ''000000''"
    by code_simp+
  then show ?thesis by (simp add: log_prefix_def format_level_def format_timestamp_def)
qed

definition ex_prb :: prb where
  "ex_prb = \<lparr>count_bits = 2,
     prb_descs = (\<lambda>i. Inr \<lparr>state_var = (if i = 3 then -1 else if i = 2 then 0 else - (2 ^ 63)), blk_begin = 24 + 8 * i, blk_next = 32 + 8 * i\<rparr>),
     prb_infos = (\<lambda>i. Inr \<lparr>pi_seq = (if i = 3 then 7 else 8 + i), pi_ts_nsec = 0, pi_text_len = 3, pi_level = 6,
       pi_subsystem = ''pci'', pi_device = []\<rparr>),
     tail_id = -5, size_bits = 5, prb_text = (\<lambda>off len. Inr (if off = 0 then ''two'' else ''one''))\<rparr>"

text \<open>
  Reading the log from a lockless ring always ends, whatever the ring holds: each descriptor is visited at
  most once.
\<close>

theorem show_log_terminates: "\<exists>g. show_log r args = Some g"
  using show_loop_terminates by (simp add: show_log_def split: sum.splits)

text \<open>
  C4: The ring refines the abstract log: a ring whose tail is the first of a run of records, with sequence
  numbers counted up from the tail's, shows the finalized records of the run in order and skips the reusable
  ones, and the run is no longer than the ring.
\<close>

theorem show_log_refines:
  assumes "first_seq r = Inr seq" and "holds r seq recs"
  shows "show_log r args = Some (gen_of_list (abstract_log args recs)) \<and> length recs \<le> 2 ^ count_bits r"
  using show_loop_holds [OF assms(2)] holds_length [OF assms(2)] assms(1) by (simp add: show_log_def)

theorem show_log_refines_witness:
  "show_log ex_prb \<lparr>arg_t = False, arg_d = True, arg_m = True\<rparr> =
     Some (gen_of_list [''<6>[    0.000000] one'', ''  SUBSYSTEM=pci'', ''<6>[    0.000000] two'', ''  SUBSYSTEM=pci''])"
proof -
  define dsc :: "int \<Rightarrow> int \<Rightarrow> prb_desc" where
    "dsc i v = \<lparr>state_var = v, blk_begin = 24 + 8 * i, blk_next = 32 + 8 * i\<rparr>" for i v
  define inf :: "int \<Rightarrow> printk_info" where
    "inf n = \<lparr>pi_seq = n, pi_ts_nsec = 0, pi_text_len = 3, pi_level = 6, pi_subsystem = ''pci'', pi_device = []\<rparr>" for n
  define recs where "recs = [(dsc 3 (-1), inf 7, []), (dsc 0 (- (2 ^ 63)), inf 8, ''one''), (dsc 1 (- (2 ^ 63)), inf 9, ''two'')]"
  have "first_seq ex_prb = Inr 7" by code_simp
  moreover have "get_desc ex_prb 7 = Inr (dsc 3 (-1))" "get_desc ex_prb 8 = Inr (dsc 0 (- (2 ^ 63)))"
    "get_desc ex_prb 9 = Inr (dsc 1 (- (2 ^ 63)))" "get_desc ex_prb 10 = Inr (dsc 2 0)"
    "get_info ex_prb 7 = Inr (inf 7)" "get_info ex_prb 8 = Inr (inf 8)" "get_info ex_prb 9 = Inr (inf 9)"
    "get_info ex_prb 10 = Inr (inf 10)"
    by (simp_all add: get_desc_def get_info_def get_idx_mod ex_prb_def dsc_def inf_def)
  moreover have states: "\<not> is_finalized (dsc 3 (-1))" "is_reusable (dsc 3 (-1))" "is_finalized (dsc 0 (- (2 ^ 63)))"
    "is_finalized (dsc 1 (- (2 ^ 63)))" "\<not> is_finalized (dsc 2 0)" "\<not> is_reusable (dsc 2 0)"
    unfolding dsc_def by code_simp+
  moreover have "get_text ex_prb (dsc 0 (- (2 ^ 63))) 3 = Inr ''one''" "get_text ex_prb (dsc 1 (- (2 ^ 63))) 3 = Inr ''two''"
    unfolding dsc_def by code_simp+
  ultimately have "show_log ex_prb \<lparr>arg_t = False, arg_d = True, arg_m = True\<rparr> =
      Some (gen_of_list (abstract_log \<lparr>arg_t = False, arg_d = True, arg_m = True\<rparr> recs))"
    using show_log_refines [of ex_prb 7 recs] by (simp add: recs_def is_valid_desc_def inf_def)
  also have "abstract_log \<lparr>arg_t = False, arg_d = True, arg_m = True\<rparr> recs =
      [''<6>[    0.000000] one'', ''  SUBSYSTEM=pci'', ''<6>[    0.000000] two'', ''  SUBSYSTEM=pci'']"
    using states by (simp add: recs_def abstract_log_def record_lines_def inf_def ex_prefix)
  finally show ?thesis .
qed

text \<open>
  \<open>desc_state\<close> is the top two bits of the state variable, although the word is read as a signed number and
  Python's integers have no width.
\<close>

theorem desc_state_top_bits: "desc_state \<lparr>state_var = sint (w :: 64 word), blk_begin = b, blk_next = n\<rparr> = uint (drop_bit 62 w)"
  by (rule desc_state_sint) simp

text \<open>
  The structured log is read up to \<open>log_next_seq\<close>: from a chain of records that starts at
  \<open>log_first_idx\<close>, as many are shown as there are sequence numbers from \<open>clear_seq\<close> or \<open>log_first_seq\<close>,
  whichever is higher, on.  These are all of the records when the log was not cleared, and otherwise the
  oldest ones, not the ones written after the log was cleared.
\<close>

theorem structured_log_prefix:
  assumes "log_first_idx env = Inr idx" and "log_chain (log_buf env) idx ms"
    and "log_next_seq env - log_first_seq env = int (length ms)"
  shows "get_log_msgs env = Some (gen_of_list
    (if clear_seq env \<le> log_first_seq env then ms else take (nat (log_next_seq env - clear_seq env)) ms))"
proof -
  have "get_log_msgs env = Some (gen_of_list
      (take (nat (log_next_seq env - max (clear_seq env) (log_first_seq env))) ms))"
    using log_loop_chain [OF assms(2), of "max (clear_seq env) (log_first_seq env)"] assms(1, 3)
    by (simp add: get_log_msgs_def)
  then show ?thesis using assms(3) by (auto simp: max_def)
qed

definition ex_rec :: "string \<Rightarrow> int \<Rightarrow> log_rec" where
  "ex_rec t n = \<lparr>lr_text = Inr t, lr_text_len = length t, lr_dict = Inr [], lr_dict_len = 0, lr_len = n,
     lr_ts_nsec = 0, lr_level = 6\<rparr>"

definition ex_log :: log_syms where
  "ex_log = \<lparr>log_buf = (\<lambda>i. if i = 16 then Inr (ex_rec ''old'' 32) else Inr (ex_rec ''new'' 32)),
     log_first_idx = Inr 16, clear_seq = 6, log_first_seq = 5, log_next_seq = 7\<rparr>"

theorem structured_log_prefix_witness:
  "get_log_msgs ex_log = Some (gen_of_list [\<lparr>lm_text = ''old'', lm_timestamp = 0, lm_level = 6, lm_next = 48, lm_dict = []\<rparr>])"
  using structured_log_prefix [of ex_log 16 "[\<lparr>lm_text = ''old'', lm_timestamp = 0, lm_level = 6, lm_next = 48, lm_dict = []\<rparr>,
      \<lparr>lm_text = ''new'', lm_timestamp = 0, lm_level = 6, lm_next = 80, lm_dict = []\<rparr>]"]
  by (simp add: ex_log_def log_from_idx_def ex_rec_def)

text \<open>
  \<open>plain_rb_filter\<close> with \<open>-t\<close> undoes the prefixes of the other formats: from the lines that they print with
  level and time stamp it recovers the text, for all levels, times and lines without a line feed.
\<close>

theorem plain_filter_inverts_prefixes:
  assumes "ls \<noteq> []" and "\<forall>(lvl, ns, line) \<in> set ls. CHR 0x0A \<notin> set line"
  shows "plain_rb_filter (py_join [CHR 0x0A]
      (map (\<lambda>(lvl, ns, line). log_prefix \<lparr>arg_t = False, arg_d = False, arg_m = True\<rparr> lvl ns @ line) ls))
      \<lparr>arg_t = True, arg_d = False, arg_m = False\<rparr> =
    py_join [CHR 0x0A] (map (\<lambda>(lvl, ns, line). line) ls)"
proof -
  let ?pre = "\<lambda>(lvl, ns, line). log_prefix \<lparr>arg_t = False, arg_d = False, arg_m = True\<rparr> lvl ns @ line"
  have "py_split (CHR 0x0A) (py_join [CHR 0x0A] (map ?pre ls)) = map ?pre ls"
    using assms prefix_no_newline by (intro py_split_join) fastforce+
  moreover have "sub_timestamp (sub_level (?pre x)) = (\<lambda>(lvl, ns, line). line) x" for x
    by (cases x) (simp add: log_prefix_def)
  ultimately show ?thesis by (simp add: plain_rb_filter_def Let_def comp_def)
qed

theorem plain_filter_inverts_prefixes_witness:
  "plain_rb_filter ''<6>[    0.000000] one'' \<lparr>arg_t = True, arg_d = False, arg_m = False\<rparr> = ''one''"
proof -
  show ?thesis using plain_filter_inverts_prefixes [of "[(6, 0, ''one'')]"] by (simp add: ex_prefix)
qed

end
