(* ===== verification/Task.thy ===== *)
theory Task
  imports Linked_List "HOL-Library.AList"
begin

text \<open>
  Tasks: \<^verbatim>\<open>crash/types/task.py\<close> and \<^verbatim>\<open>crash/cache/tasks.py\<close>.  The task state flags, which the kernel does not
  export, are deduced from the strings of \<open>task_state_array\<close>; \<^verbatim>\<open>LinuxTask\<close> picks its accessors from the members
  that the kernel's types have; the iterators walk the task list and the thread groups.

  A \<open>struct task_struct\<close> is the record of the members that the code reads.
\<close>

section \<open>Task state flags\<close>

text \<open>\<open>key in state\<close> on strings.\<close>

fun py_in :: "string \<Rightarrow> string \<Rightarrow> bool" where
  "py_in k [] \<longleftrightarrow> k = []"
| "py_in k (c # cs) \<longleftrightarrow> take (length k) (c # cs) = k \<or> py_in k cs"

text \<open>The class attributes of \<^verbatim>\<open>TaskStateFlags\<close>; an attribute that is not in the list is uninitialized.\<close>

type_synonym task_flags = "(string \<times> int) list"

definition TASK_FLAG_UNINITIALIZED :: int where
  "TASK_FLAG_UNINITIALIZED = -1"

definition flags_init :: task_flags where
  "flags_init = [(''TASK_RUNNING'', 0)]"

definition flag :: "task_flags \<Rightarrow> string \<Rightarrow> int" where
  "flag fl name = (case map_of fl name of Some v \<Rightarrow> v | None \<Rightarrow> TASK_FLAG_UNINITIALIZED)"

definition has_task_flag :: "task_flags \<Rightarrow> string \<Rightarrow> bool" where
  "has_task_flag fl name \<longleftrightarrow> flag fl name \<noteq> TASK_FLAG_UNINITIALIZED"

definition set_flag :: "string \<Rightarrow> int \<Rightarrow> task_flags \<Rightarrow> task_flags" where
  "set_flag name v fl = AList.update name v fl"

definition state_strings :: "(string \<times> string) list" where
  "state_strings =
     [(''(running)'', ''TASK_RUNNING''), (''(sleeping)'', ''TASK_INTERRUPTIBLE''),
      (''(disk sleep)'', ''TASK_UNINTERRUPTIBLE''), (''(stopped)'', ''TASK_STOPPED''), (''(zombie)'', ''EXIT_ZOMBIE''),
      (''x (dead)'', ''TASK_DEAD''), (''X (dead)'', ''EXIT_DEAD''), (''(swapping)'', ''TASK_SWAPPING''),
      (''(tracing stop)'', ''TASK_TRACING_STOPPED''), (''(wakekill)'', ''TASK_WAKEKILL''), (''(waking)'', ''TASK_WAKING''),
      (''(parked)'', ''TASK_PARKED''), (''(idle)'', ''__TASK_IDLE'')]"

fun set_state :: "string \<Rightarrow> int \<Rightarrow> (string \<times> string) list \<Rightarrow> task_flags \<Rightarrow> task_flags" where
  "set_state state b [] fl = fl"
| "set_state state b ((key, name) # ks) fl =
     set_state state b ks (if py_in key state then set_flag name b fl else fl)"

fun scan_states :: "int \<Rightarrow> string list \<Rightarrow> task_flags \<Rightarrow> task_flags" where
  "scan_states b [] fl = fl"
| "scan_states b (s # ss) fl =
     scan_states (if b = 0 then 1 else push_bit 1 b) ss (set_state s b state_strings fl)"

text \<open>The assumptions about flags that the array does not have, and the assertions on them.\<close>

definition assert_flags :: "(string \<times> int) list \<Rightarrow> task_flags \<Rightarrow> exc option" where
  "assert_flags vs fl = (if \<forall>(name, v) \<in> set vs. flag fl name = v then None else Some AssertionError)"

definition parked_layout :: "task_flags \<Rightarrow> task_flags" where
  "parked_layout fl =
     (let n = push_bit 1 (flag fl ''TASK_PARKED'')
      in set_flag ''TASK_NEW'' (push_bit 4 n) (set_flag ''TASK_NOLOAD'' (push_bit 3 n)
           (set_flag ''TASK_WAKING'' (push_bit 2 n) (set_flag ''TASK_WAKEKILL'' (push_bit 1 n)
             (set_flag ''TASK_DEAD'' n fl)))))"

definition dead_layout :: "task_flags \<Rightarrow> task_flags" where
  "dead_layout fl =
     (let n = (if flag fl ''EXIT_ZOMBIE'' > flag fl ''EXIT_DEAD'' then push_bit 1 (flag fl ''EXIT_ZOMBIE'')
               else push_bit 1 (flag fl ''EXIT_DEAD''))
      in set_flag ''TASK_NEW'' (push_bit 5 n) (set_flag ''TASK_NOLOAD'' (push_bit 4 n)
           (set_flag ''TASK_PARKED'' (push_bit 3 n) (set_flag ''TASK_WAKING'' (push_bit 2 n)
             (set_flag ''TASK_WAKEKILL'' (push_bit 1 n) (set_flag ''TASK_DEAD'' n fl))))))"

definition guess_flags :: "task_flags \<Rightarrow> task_flags \<times> exc option" where
  "guess_flags fl =
     (if has_task_flag fl ''TASK_PARKED'' \<and> \<not> has_task_flag fl ''TASK_DEAD'' then
        (parked_layout fl, assert_flags [(''TASK_PARKED'', 0x40), (''TASK_DEAD'', 0x80), (''TASK_WAKEKILL'', 0x100),
           (''TASK_WAKING'', 0x200)] (parked_layout fl))
      else if has_task_flag fl ''EXIT_DEAD'' then
        (dead_layout fl, assert_flags [(''TASK_DEAD'', 0x40), (''TASK_WAKEKILL'', 0x80), (''TASK_WAKING'', 0x100),
           (''TASK_PARKED'', 0x200)] (dead_layout fl))
      else
        (fl, assert_flags [(''TASK_DEAD'', 64), (''TASK_WAKEKILL'', 128), (''TASK_WAKING'', 256), (''TASK_PARKED'', 512)] fl))"

definition idle_flags :: "task_flags \<Rightarrow> task_flags \<times> exc option" where
  "idle_flags fl =
     (if has_task_flag fl ''TASK_NOLOAD'' then
        (if flag fl ''TASK_NOLOAD'' \<noteq> 1024 then (fl, Some AssertionError)
         else let fl' = set_flag ''TASK_IDLE'' (flag fl ''TASK_NOLOAD'' OR flag fl ''TASK_UNINTERRUPTIBLE'') fl
              in (fl', assert_flags [(''TASK_IDLE'', 1026)] fl'))
      else (fl, None))"

definition required_flags :: "string list" where
  "required_flags = [''TASK_RUNNING'', ''TASK_INTERRUPTIBLE'', ''TASK_UNINTERRUPTIBLE'', ''EXIT_ZOMBIE'', ''TASK_STOPPED'']"

definition check_state_bits :: "task_flags \<Rightarrow> exc option" where
  "check_state_bits fl = (if filter (\<lambda>n. \<not> has_task_flag fl n) required_flags = [] then None else Some RuntimeError)"

definition task_state_flags_callback :: "string list \<Rightarrow> task_flags \<Rightarrow> task_flags \<times> exc option" where
  "task_state_flags_callback states fl0 = (case guess_flags (scan_states 0 states fl0) of
       (fl1, Some e) \<Rightarrow> (fl1, Some e)
     | (fl1, None) \<Rightarrow> (case idle_flags fl1 of
           (fl2, Some e) \<Rightarrow> (fl2, Some e)
         | (fl2, None) \<Rightarrow>
             if has_task_flag fl2 ''TASK_NEW'' \<and> flag fl2 ''TASK_NEW'' \<noteq> 2048 then (fl2, Some AssertionError)
             else (fl2, check_state_bits fl2)))"

section \<open>LinuxTask\<close>

subsection \<open>The choice of accessors\<close>

datatype rss_method = Rss_field | Rss__field | Rss_stat | Rss_anon_file
datatype last_run_method = Last_arrival | Last_run | Timestamp

record task_class =
  tc_valid :: bool
  tc_has_exit_state :: bool
  tc_state_field :: string
  tc_anon_file_rss_fields :: "string list"
  tc_get_rss :: "rss_method option"
  tc_get_last_run :: "last_run_method option"

definition task_class_init :: task_class where
  "task_class_init = \<lparr>tc_valid = False, tc_has_exit_state = False, tc_state_field = [],
     tc_anon_file_rss_fields = [], tc_get_rss = None, tc_get_last_run = None\<rparr>"

text \<open>The types \<open>struct task_struct\<close> and \<open>struct mm_struct\<close>, and \<open>keys()\<close> of a type.\<close>

definition type_keys :: "gtype \<Rightarrow> string list" where
  "type_keys t = concat (map (\<lambda>f. case gf_name f of Some n \<Rightarrow> [n] | None \<Rightarrow> []) (gt_fields t))"

definition field_type :: "gtype \<Rightarrow> string \<Rightarrow> gtype option" where
  "field_type t n = map_option gf_type (find (\<lambda>f. gf_name f = Some n) (gt_fields t))"

definition has_member :: "gtype \<Rightarrow> string \<Rightarrow> bool res" where
  "has_member t n = struct_has_member (\<lambda>_. None) (SpecType t) n"

text \<open>The first of the members that exists decides; an exception leaves what was set before it.\<close>

definition pick_get_rss :: "gtype \<Rightarrow> task_class \<Rightarrow> task_class \<times> exc option" where
  "pick_get_rss mm c =
     (case mapR (has_member mm) [''rss'', ''_rss'', ''rss_stat'', ''_file_rss'', ''_anon_rss''] of
        Inl e \<Rightarrow> (c, Some e)
      | Inr bs \<Rightarrow>
          if bs ! 0 then (c\<lparr>tc_get_rss := Some Rss_field\<rparr>, None)
          else if bs ! 1 then (c\<lparr>tc_get_rss := Some Rss__field\<rparr>, None)
          else if bs ! 2 then (c\<lparr>tc_get_rss := Some Rss_stat\<rparr>, None)
          else
            let fs = tc_anon_file_rss_fields c @ (if bs ! 3 then [''_file_rss''] else []) @ (if bs ! 4 then [''_anon_rss''] else [])
            in (c\<lparr>tc_anon_file_rss_fields := fs, tc_get_rss := Some Rss_anon_file\<rparr>, if fs = [] then Some RuntimeError else None))"

definition pick_last_run :: "gtype \<Rightarrow> task_class \<Rightarrow> task_class \<times> exc option" where
  "pick_last_run t c =
     (if ''sched_info'' \<in> set (type_keys t) \<and>
         (case field_type t ''sched_info'' of Some s \<Rightarrow> ''last_arrival'' \<in> set (type_keys s) | None \<Rightarrow> False)
      then (c\<lparr>tc_get_last_run := Some Last_arrival\<rparr>, None)
      else if ''last_run'' \<in> set (type_keys t) then (c\<lparr>tc_get_last_run := Some Last_run\<rparr>, None)
      else if ''timestamp'' \<in> set (type_keys t) then (c\<lparr>tc_get_last_run := Some Timestamp\<rparr>, None)
      else (c, Some RuntimeError))"

text \<open>The argument of the constructor: a value with its type, or something else.\<close>

datatype task_arg = TaskValue gtype | NoValue

text \<open>\<open>_init_task_types\<close>, which the next constructor tries again when it raises.\<close>

definition state_field_of :: "string list \<Rightarrow> string option" where
  "state_field_of fs = find (\<lambda>n. n \<in> set fs) [''state'', ''__state'']"

definition init_task_types :: "gtype \<Rightarrow> gtype \<Rightarrow> task_arg \<Rightarrow> task_class \<Rightarrow> task_class \<times> exc option" where
  "init_task_types task_t mm_t arg c =
     (if tc_valid c then (c, None)
      else (case arg of
          NoValue \<Rightarrow> (c, Some AttributeError)
        | TaskValue t \<Rightarrow>
            if t \<noteq> task_t then (c, Some UnexpectedGDBTypeError)
            else
              let fs = type_keys task_t; c1 = c\<lparr>tc_has_exit_state := (''exit_state'' \<in> set fs)\<rparr>
              in case state_field_of fs of
                   None \<Rightarrow> (c1, Some MissingFieldError)
                 | Some n \<Rightarrow> (case pick_get_rss mm_t (c1\<lparr>tc_state_field := n\<rparr>) of
                       (c2, Some e) \<Rightarrow> (c2, Some e)
                     | (c2, None) \<Rightarrow> (case pick_last_run task_t c2 of
                           (c3, Some e) \<Rightarrow> (c3, Some e)
                         | (c3, None) \<Rightarrow> (c3\<lparr>tc_valid := True\<rparr>, None)))))"

text \<open>The constructor, up to the attributes of the new object.\<close>

definition LinuxTask_new :: "gtype \<Rightarrow> gtype \<Rightarrow> task_arg \<Rightarrow> task_class \<Rightarrow> task_class \<times> exc option" where
  "LinuxTask_new task_t mm_t arg c = (case init_task_types task_t mm_t arg c of
       (c', Some e) \<Rightarrow> (c', Some e)
     | (c', None) \<Rightarrow> (case arg of
           NoValue \<Rightarrow> (c', Some ArgumentTypeError)
         | TaskValue t \<Rightarrow>
             (c', if t = task_t \<or> t = gt_pointer task_t then None else Some UnexpectedGDBTypeError)))"

subsection \<open>A task\<close>

record mm_struct =
  mm_total_vm :: int
  mm_pgd :: int
  mm_rss_stat :: "int list"
  mm_fields :: "(string \<times> int) list"

record task_struct =
  ts_address :: addr
  ts_pid :: int
  ts_parent_pid :: int
  ts_comm :: string
  ts_state :: int
  ts_exit_state :: int
  ts_flags :: int
  ts_exit_signal :: int
  ts_mm :: addr
  ts_cpu :: "int option"
  ts_last_run :: int
  ts_timestamp :: int
  ts_last_arrival :: int

record linux_task =
  lt_task :: task_struct
  lt_active :: bool
  lt_cpu :: int
  lt_regs :: "(string \<times> int) list"
  lt_thread_info_cpu :: "int option"
  lt_thread_sp :: "int option"
  lt_thread :: "addr option"
  lt_mem_valid :: bool
  lt_rss :: int
  lt_total_vm :: int
  lt_pgd_addr :: int

definition task_new :: "task_struct \<Rightarrow> linux_task" where
  "task_new ts = \<lparr>lt_task = ts, lt_active = False, lt_cpu = -1, lt_regs = [], lt_thread_info_cpu = None,
     lt_thread_sp = None, lt_thread = None, lt_mem_valid = False, lt_rss = 0, lt_total_vm = 0, lt_pgd_addr = 0\<rparr>"

definition set_active :: "int \<Rightarrow> (string \<times> int) list \<Rightarrow> linux_task \<Rightarrow> linux_task res" where
  "set_active cpu regs t = (if cpu \<ge> 0 then Inr (t\<lparr>lt_active := True, lt_cpu := cpu, lt_regs := regs\<rparr>)
     else Inl InvalidArgumentError)"

definition set_thread_info :: "int \<Rightarrow> linux_task \<Rightarrow> linux_task" where
  "set_thread_info cpu t = t\<lparr>lt_thread_info_cpu := Some cpu\<rparr>"

text \<open>
  Of the architecture's \<open>thread_struct\<close> the stack pointer is used.  \<open>attach_thread\<close> keeps the thread of gdb, which the address
  in its \<open>ptid\<close> names, and refuses anything else.
\<close>

definition set_thread_struct :: "int \<Rightarrow> linux_task \<Rightarrow> linux_task" where
  "set_thread_struct sp t = t\<lparr>lt_thread_sp := Some sp\<rparr>"

definition get_thread_struct :: "linux_task \<Rightarrow> int res" where
  "get_thread_struct t = of_option AttributeError (lt_thread_sp t)"

definition get_thread_info :: "linux_task \<Rightarrow> int res" where
  "get_thread_info t = of_option AttributeError (lt_thread_info_cpu t)"

datatype thread_arg = InferiorThread addr | OtherObject

fun attach_thread :: "thread_arg \<Rightarrow> linux_task \<Rightarrow> linux_task res" where
  "attach_thread (InferiorThread a) t = Inr (t\<lparr>lt_thread := Some a\<rparr>)"
| "attach_thread OtherObject t = Inl TypeError"

text \<open>\<open>get_last_cpu\<close>: \<open>thread_info\<close> is an attribute only after \<open>set_thread_info\<close>.\<close>

definition get_last_cpu :: "linux_task \<Rightarrow> int res" where
  "get_last_cpu t = (case ts_cpu (lt_task t) of
       Some cpu \<Rightarrow> Inr cpu
     | None \<Rightarrow> of_option AttributeError (lt_thread_info_cpu t))"

definition task_state :: "task_class \<Rightarrow> linux_task \<Rightarrow> int" where
  "task_state c t = (if tc_has_exit_state c then ts_state (lt_task t) OR ts_exit_state (lt_task t) else ts_state (lt_task t))"

definition maybe_dead :: "task_flags \<Rightarrow> task_class \<Rightarrow> linux_task \<Rightarrow> bool" where
  "maybe_dead fl c t =
     (let known = flag fl ''TASK_INTERRUPTIBLE'' OR flag fl ''TASK_UNINTERRUPTIBLE'' OR flag fl ''EXIT_ZOMBIE'' OR
                  flag fl ''TASK_STOPPED'' OR (if has_task_flag fl ''TASK_SWAPPING'' then flag fl ''TASK_SWAPPING'' else 0)
      in task_state c t AND known = 0)"

definition PF_EXITING :: int where
  "PF_EXITING = 4"

definition is_exiting :: "linux_task \<Rightarrow> bool" where
  "is_exiting t \<longleftrightarrow> ts_flags (lt_task t) AND PF_EXITING \<noteq> 0"

definition is_zombie :: "task_flags \<Rightarrow> task_class \<Rightarrow> linux_task \<Rightarrow> bool" where
  "is_zombie fl c t \<longleftrightarrow> task_state c t AND flag fl ''EXIT_ZOMBIE'' \<noteq> 0"

definition is_thread_group_leader :: "linux_task \<Rightarrow> bool" where
  "is_thread_group_leader t \<longleftrightarrow> ts_exit_signal (lt_task t) \<ge> 0"

text \<open>
  \<open>get_rss\<close> of the \<open>struct mm_struct\<close> at \<open>mm\<close>.  \<^verbatim>\<open>gdb.Value\<close> has no method \<open>value\<close>, which the accessors of
  \<open>rss\<close> and \<open>_rss\<close> call.
\<close>

definition get_rss :: "(addr \<Rightarrow> mm_struct res) \<Rightarrow> task_class \<Rightarrow> addr \<Rightarrow> int res" where
  "get_rss mms c mm = bindR (mms mm) (\<lambda>m. case tc_get_rss c of
       None \<Rightarrow> Inl AttributeError
     | Some Rss_field \<Rightarrow> Inl AttributeError
     | Some Rss__field \<Rightarrow> Inl AttributeError
     | Some Rss_stat \<Rightarrow> Inr (sum_list (mm_rss_stat m))
     | Some Rss_anon_file \<Rightarrow>
         bindR (mapR (\<lambda>n. of_option GdbError (map_of (mm_fields m) n)) (tc_anon_file_rss_fields c)) (\<lambda>vs. Inr (sum_list vs)))"

definition update_mem_usage ::
  "task_flags \<Rightarrow> (addr \<Rightarrow> mm_struct res) \<Rightarrow> task_class \<Rightarrow> linux_task \<Rightarrow> linux_task \<times> exc option" where
  "update_mem_usage fl mms c t =
     (if lt_mem_valid t then (t, None)
      else if is_zombie fl c t \<or> is_exiting t then (t, None)
      else let mm = ts_mm (lt_task t) in
        if mm = 0 then (t\<lparr>lt_mem_valid := True\<rparr>, None)
        else (case get_rss mms c mm of
            Inl e \<Rightarrow> (t, Some e)
          | Inr rss \<Rightarrow> (case mms mm of
                Inl e \<Rightarrow> (t\<lparr>lt_rss := rss\<rparr>, Some e)
              | Inr m \<Rightarrow> (t\<lparr>lt_rss := rss, lt_total_vm := mm_total_vm m, lt_pgd_addr := mm_pgd m, lt_mem_valid := True\<rparr>, None))))"

definition is_kernel_task :: "task_flags \<Rightarrow> task_class \<Rightarrow> addr option \<Rightarrow> linux_task \<Rightarrow> bool" where
  "is_kernel_task fl c init_mm t =
     (if ts_pid (lt_task t) = 0 then True
      else if is_zombie fl c t \<or> is_exiting t then False
      else if ts_mm (lt_task t) = 0 then True
      else init_mm = Some (ts_mm (lt_task t)))"

definition task_name :: "task_flags \<Rightarrow> task_class \<Rightarrow> addr option \<Rightarrow> bool \<Rightarrow> linux_task \<Rightarrow> string" where
  "task_name fl c init_mm brackets t =
     (if brackets \<and> is_kernel_task fl c init_mm t then ''['' @ ts_comm (lt_task t) @ '']'' else ts_comm (lt_task t))"

definition last_run :: "task_class \<Rightarrow> linux_task \<Rightarrow> int res" where
  "last_run c t = (case tc_get_last_run c of
       None \<Rightarrow> Inl AttributeError
     | Some Last_arrival \<Rightarrow> Inr (ts_last_arrival (lt_task t))
     | Some Last_run \<Rightarrow> Inr (ts_last_run (lt_task t))
     | Some Timestamp \<Rightarrow> Inr (ts_timestamp (lt_task t)))"

section \<open>Iterators\<close>

definition for_each_thread_group_leader :: "list_mem \<Rightarrow> gtype \<Rightarrow> addr \<Rightarrow> addr gen option" where
  "for_each_thread_group_leader mem task_t init_task = (case offsetof_err task_t ''tasks'' of
       Inl e \<Rightarrow> Some (gen_raise GdbError)
     | Inr off \<Rightarrow> list_for_each_entry mem (ListObj (ptr_add init_task (int off))) task_t ''tasks''
         (default_opts\<lparr>include_head := True\<rparr>))"

definition for_each_thread_in_group :: "list_mem \<Rightarrow> gtype \<Rightarrow> addr \<Rightarrow> addr gen option" where
  "for_each_thread_in_group mem task_t task = (case offsetof_err task_t ''thread_group'' of
       Inl e \<Rightarrow> Some (gen_raise GdbError)
     | Inr off \<Rightarrow> list_for_each_entry mem (ListObj (ptr_add task (int off))) task_t ''thread_group'' default_opts)"

text \<open>A leader and its threads; \<open>None\<close> when one of the walks does not end.\<close>

fun leaders_and_threads :: "list_mem \<Rightarrow> gtype \<Rightarrow> addr list \<Rightarrow> addr gen option" where
  "leaders_and_threads mem task_t [] = Some gen_done"
| "leaders_and_threads mem task_t (l # ls) = Option.bind (for_each_thread_in_group mem task_t l) (\<lambda>g.
     case snd g of
       Some e \<Rightarrow> Some (gen_yields [l] g)
     | None \<Rightarrow> map_option (gen_yields (l # fst g)) (leaders_and_threads mem task_t ls))"

definition for_each_all_tasks :: "list_mem \<Rightarrow> gtype \<Rightarrow> addr \<Rightarrow> addr gen option" where
  "for_each_all_tasks mem task_t init_task = Option.bind (for_each_thread_group_leader mem task_t init_task) (\<lambda>g.
     map_option (\<lambda>h. gen_seq h ([], snd g)) (leaders_and_threads mem task_t (fst g)))"

section \<open>The cache of tasks\<close>

type_synonym task_cache = "(int \<times> linux_task) list"

definition cache_task :: "linux_task \<Rightarrow> task_cache \<Rightarrow> task_cache" where
  "cache_task t tasks = AList.update (ts_pid (lt_task t)) t tasks"

definition get_task :: "int \<Rightarrow> task_cache \<Rightarrow> linux_task res" where
  "get_task pid tasks = of_option KeyError (map_of tasks pid)"

definition drop_task :: "int \<Rightarrow> task_cache \<Rightarrow> task_cache res" where
  "drop_task pid tasks = (if map_of tasks pid = None then Inl KeyError else Inr (AList.delete pid tasks))"

section \<open>Flags\<close>

lemma flag_set_flag [simp]: "flag (set_flag n v fl) m = (if m = n then v else flag fl m)"
  by (simp add: flag_def set_flag_def update_conv')

lemma assert_flags_None: "assert_flags vs fl = None \<longleftrightarrow> (\<forall>(n, v) \<in> set vs. flag fl n = v)"
  by (simp add: assert_flags_def)

lemma idle_flags_other: "m \<noteq> ''TASK_IDLE'' \<Longrightarrow> flag (fst (idle_flags fl)) m = flag fl m"
  by (simp add: idle_flags_def Let_def)

lemma guess_flags_layout:
  assumes "guess_flags fl = (fl', None)"
  shows "map (flag fl') [''TASK_DEAD'', ''TASK_WAKEKILL'', ''TASK_WAKING'', ''TASK_PARKED''] \<in>
    {[0x40, 0x80, 0x100, 0x200], [0x80, 0x100, 0x200, 0x40]}"
  using assms by (auto simp: guess_flags_def assert_flags_None split: if_splits)

lemma callback_success:
  assumes "task_state_flags_callback states fl0 = (fl, None)"
  obtains fl1 where "guess_flags (scan_states 0 states fl0) = (fl1, None)" "idle_flags fl1 = (fl, None)"
    "check_state_bits fl = None" "has_task_flag fl ''TASK_NEW'' \<Longrightarrow> flag fl ''TASK_NEW'' = 2048"
  using assms that by (auto simp: task_state_flags_callback_def split: prod.splits option.splits if_splits)

text \<open>A flag read from the array is the bit of the last entry that names it.\<close>

definition state_bit :: "nat \<Rightarrow> int" where
  "state_bit i = (if i = 0 then 0 else 2 ^ (i - 1))"

lemma set_state_flag:
  assumes "distinct (map snd ks)"
  shows "flag (set_state s b ks fl) m = (if \<exists>k. (k, m) \<in> set ks \<and> py_in k s then b else flag fl m)"
  using assms
proof (induction ks arbitrary: fl)
  case (Cons kn ks)
  obtain k n where kn: "kn = (k, n)" by (cases kn)
  have "m \<noteq> n" if "(k', m) \<in> set ks" for k' using Cons.prems that by (force simp: kn)
  then show ?case using Cons kn by auto
qed simp

lemma state_strings_distinct: "distinct (map snd state_strings)" "distinct (map fst state_strings)"
  by code_simp+

definition names_flag :: "string \<Rightarrow> string \<Rightarrow> bool" where
  "names_flag s name \<longleftrightarrow> (\<exists>(k, n) \<in> set state_strings. n = name \<and> py_in k s)"

lemma scan_states_flag:
  "flag (scan_states (state_bit i) ss fl) m =
     (case filter (\<lambda>j. names_flag (ss ! j) m) [0..<length ss] of
        [] \<Rightarrow> flag fl m | js \<Rightarrow> state_bit (i + last js))"
proof (induction ss arbitrary: i fl)
  case (Cons s ss)
  have next_bit: "(if state_bit i = 0 then 1 else push_bit 1 (state_bit i)) = state_bit (Suc i)"
    by (cases i) (auto simp: state_bit_def push_bit_eq_mult)
  have head: "flag (set_state s b state_strings fl) m = (if names_flag s m then b else flag fl m)" for b
    by (subst set_state_flag [OF state_strings_distinct(1)]) (auto simp: names_flag_def)
  have split: "filter (\<lambda>j. names_flag ((s # ss) ! j) m) [0..<length (s # ss)] =
      (if names_flag s m then [0] else []) @ map Suc (filter (\<lambda>j. names_flag (ss ! j) m) [0..<length ss])"
  proof -
    have "[0..<length (s # ss)] = 0 # map Suc [0..<length ss]" by (simp add: upt_conv_Cons map_Suc_upt del: upt_Suc)
    then show ?thesis by (simp only: filter.simps filter_map comp_def nth_Cons_0 nth_Cons_Suc) simp
  qed
  show ?case
    unfolding scan_states.simps next_bit Cons.IH split head
    by (cases "filter (\<lambda>j. names_flag (ss ! j) m) [0..<length ss]") (auto simp: last_map)
qed simp

section \<open>Iterators\<close>

lemma leaders_ok:
  assumes "is_list mem (ptr_add init (int off)) (map (\<lambda>b. ptr_add b (int off)) bs)"
    and "offsetof_err task_t ''tasks'' = Inr off" and "\<forall>b \<in> set (init # bs). 0 \<le> b \<and> b < 2 ^ 64"
  shows "for_each_thread_group_leader mem task_t init = Some (gen_of_list (init # bs))"
proof -
  have "list_for_each mem (ListObj (ptr_add init (int off))) (default_opts\<lparr>include_head := True\<rparr>) =
      Some (gen_of_list (map (\<lambda>b. ptr_add b (int off)) (init # bs)))"
    using list_for_each_ok [OF assms(1)] by (simp add: default_opts_def)
  then show ?thesis using assms(2) entries_of_nodes [OF assms(2, 3)]
    by (simp add: for_each_thread_group_leader_def list_for_each_entry_def gen_bind_of_list)
qed

lemma threads_ok:
  assumes "is_list mem (ptr_add l (int off)) (map (\<lambda>b. ptr_add b (int off)) bs)"
    and "offsetof_err task_t ''thread_group'' = Inr off" and "\<forall>b \<in> set bs. 0 \<le> b \<and> b < 2 ^ 64"
  shows "for_each_thread_in_group mem task_t l = Some (gen_of_list bs)"
  using list_for_each_entry_ok(1) [OF assms] assms(2) by (simp add: for_each_thread_in_group_def)

lemma leaders_and_threads_ok:
  assumes "\<forall>l \<in> set ls. for_each_thread_in_group mem task_t l = Some (gen_of_list (threads l))"
  shows "leaders_and_threads mem task_t ls = Some (gen_of_list (concat (map (\<lambda>l. l # threads l) ls)))"
  using assms by (induction ls) (auto simp: gen_simps gen_of_list_def gen_done_def gen_yields_def)

lemma callback_flag:
  assumes "m \<noteq> ''TASK_IDLE''"
  shows "flag (fst (task_state_flags_callback states fl0)) m = flag (fst (guess_flags (scan_states 0 states fl0))) m"
proof -
  obtain g e where g: "guess_flags (scan_states 0 states fl0) = (g, e)" by fastforce
  obtain h x where h: "idle_flags g = (h, x)" by fastforce
  have "flag h m = flag g m" using idle_flags_other [OF assms, of g] h by simp
  then show ?thesis using g h by (simp add: task_state_flags_callback_def split: option.splits)
qed

section \<open>Properties\<close>

text \<open>
  \<open>for_each_all_tasks\<close> yields every leader on the task list, \<open>init_task\<close> first, each followed by the other
  threads of its group, when the task list and the thread groups are well-formed lists.
\<close>

theorem for_each_all_tasks_correct:
  assumes "offsetof_err task_t ''tasks'' = Inr o1" and "offsetof_err task_t ''thread_group'' = Inr o2"
    and "is_list mem (ptr_add init (int o1)) (map (\<lambda>b. ptr_add b (int o1)) ls)"
    and "\<forall>l \<in> set (init # ls). is_list mem (ptr_add l (int o2)) (map (\<lambda>b. ptr_add b (int o2)) (threads l))"
    and "\<forall>l \<in> set (init # ls). \<forall>b \<in> set (l # threads l). 0 \<le> b \<and> b < 2 ^ 64"
  shows "for_each_all_tasks mem task_t init = Some (gen_of_list (concat (map (\<lambda>l. l # threads l) (init # ls))))"
proof -
  have "for_each_thread_group_leader mem task_t init = Some (gen_of_list (init # ls))"
    using assms(5) by (intro leaders_ok [OF assms(3, 1)]) auto
  moreover have "leaders_and_threads mem task_t (init # ls) =
      Some (gen_of_list (concat (map (\<lambda>l. l # threads l) (init # ls))))"
    using assms(4, 5) by (intro leaders_and_threads_ok ballI threads_ok [OF _ assms(2)]) auto
  ultimately show ?thesis by (simp add: for_each_all_tasks_def gen_simps gen_done_def [symmetric])
qed

definition ex_list_head :: gtype where
  "ex_list_head = GType CODE_STRUCT 16 ''list_head'' None []"

definition ex_task_struct :: gtype where
  "ex_task_struct = GType CODE_STRUCT 64 ''task_struct'' None
     [GField (Some ''state'') 0 (GType CODE_INT 8 ''long'' None []), GField (Some ''tasks'') 64 ex_list_head,
      GField (Some ''thread_group'') 192 ex_list_head, GField (Some ''last_run'') 320 (GType CODE_INT 8 ''long'' None [])]"

theorem for_each_all_tasks_correct_witness:
  "for_each_all_tasks (mem_of [(1008, 2008, 2008), (2008, 1008, 1008), (1024, 1024, 1024), (2024, 3024, 3024), (3024, 2024, 2024)])
     ex_task_struct 1000 = Some (gen_of_list [1000, 2000, 3000])"
proof -
  define mem where "mem = mem_of [(1008, 2008, 2008), (2008, 1008, 1008), (1024, 1024, 1024), (2024, 3024, 3024), (3024, 2024, 2024)]"
  have off: "offsetof_err ex_task_struct ''tasks'' = Inr 8" "offsetof_err ex_task_struct ''thread_group'' = Inr 24"
    by code_simp+
  have "is_list mem (ptr_add 1000 (int 8)) (map (\<lambda>b. ptr_add b (int 8)) [2000])"
    "is_list mem (ptr_add 1000 (int 24)) (map (\<lambda>b. ptr_add b (int 24)) [])"
    "is_list mem (ptr_add 2000 (int 24)) (map (\<lambda>b. ptr_add b (int 24)) [3000])"
    by (simp_all add: mem_def is_list_def mem_of_def ptr_add_def)
  then show ?thesis
    using for_each_all_tasks_correct [OF off, of mem 1000 "[2000]" "\<lambda>l. if l = 2000 then [3000] else []"]
    by (simp add: mem_def)
qed

text \<open>
  Whatever \<open>task_state_array\<close> holds, when the callback succeeds the flags that the array may lack have the
  values of one of the two layouts of the kernel, the required flags are known, and \<open>TASK_NEW\<close> is the kernel's
  where it is set.
\<close>

theorem task_flags_layout:
  assumes "task_state_flags_callback states fl0 = (fl, None)"
  shows "map (flag fl) [''TASK_DEAD'', ''TASK_WAKEKILL'', ''TASK_WAKING'', ''TASK_PARKED''] \<in>
      {[0x40, 0x80, 0x100, 0x200], [0x80, 0x100, 0x200, 0x40]} \<and>
    (\<forall>n \<in> set required_flags. has_task_flag fl n) \<and> flag fl ''TASK_NEW'' \<in> {2048, TASK_FLAG_UNINITIALIZED}"
proof -
  obtain fl1 where g: "guess_flags (scan_states 0 states fl0) = (fl1, None)" and i: "idle_flags fl1 = (fl, None)"
    and c: "check_state_bits fl = None" and n: "has_task_flag fl ''TASK_NEW'' \<Longrightarrow> flag fl ''TASK_NEW'' = 2048"
    using callback_success [OF assms] by metis
  have "flag fl m = flag fl1 m" if "m \<noteq> ''TASK_IDLE''" for m using idle_flags_other [OF that, of fl1] i by simp
  then have "map (flag fl) [''TASK_DEAD'', ''TASK_WAKEKILL'', ''TASK_WAKING'', ''TASK_PARKED''] =
      map (flag fl1) [''TASK_DEAD'', ''TASK_WAKEKILL'', ''TASK_WAKING'', ''TASK_PARKED'']" by simp
  moreover have "\<forall>n \<in> set required_flags. has_task_flag fl n"
    using c by (auto simp: check_state_bits_def filter_empty_conv split: if_splits)
  ultimately show ?thesis using guess_flags_layout [OF g] n by (auto simp: has_task_flag_def)
qed

definition states_3_12 :: "string list" where
  "states_3_12 = [''R (running)'', ''S (sleeping)'', ''D (disk sleep)'', ''T (stopped)'', ''t (tracing stop)'', ''Z (zombie)'',
     ''X (dead)'', ''x (dead)'', ''K (wakekill)'', ''W (waking)'', ''P (parked)'']"

definition states_3_14 :: "string list" where
  "states_3_14 = [''R (running)'', ''S (sleeping)'', ''D (disk sleep)'', ''T (stopped)'', ''t (tracing stop)'', ''X (dead)'',
     ''Z (zombie)'']"

definition states_4_14 :: "string list" where
  "states_4_14 = states_3_14 @ [''P (parked)'', ''I (idle)'']"

theorem task_flags_layout_witness:
  "list_all (has_task_flag (fst (task_state_flags_callback states_4_14 flags_init))) required_flags \<and>
   map (flag (fst (task_state_flags_callback states_4_14 flags_init))) [''TASK_DEAD'', ''TASK_PARKED''] = [0x80, 0x40]"
proof -
  have eq: "task_state_flags_callback states_4_14 flags_init = (fst (task_state_flags_callback states_4_14 flags_init), None)"
    by code_simp
  have "flag (fst (task_state_flags_callback states_4_14 flags_init)) ''TASK_PARKED'' = 0x40" by code_simp
  then show ?thesis using task_flags_layout [OF eq] by (auto simp: list_all_iff)
qed

text \<open>
  A flag whose name the array has, and which no later rule sets, gets the bit of the last entry of the array
  that contains its key: 0 for the first entry, and bit \<open>i - 1\<close> for entry \<open>i\<close>.
\<close>

theorem task_flag_of_array:
  assumes "i < length states" and "names_flag (states ! i) name"
    and "\<forall>j. i < j \<and> j < length states \<longrightarrow> \<not> names_flag (states ! j) name"
    and "name \<in> {''TASK_INTERRUPTIBLE'', ''TASK_UNINTERRUPTIBLE'', ''TASK_STOPPED'', ''EXIT_ZOMBIE'', ''EXIT_DEAD''}"
  shows "flag (fst (task_state_flags_callback states fl0)) name = state_bit i"
proof -
  let ?js = "filter (\<lambda>j. names_flag (states ! j) name) [0..<length states]"
  have "[0..<length states] = [0..<Suc i] @ [Suc i..<length states]"
  proof -
    obtain k where "length states = Suc i + k" using assms(1) less_iff_Suc_add by auto
    then show ?thesis using upt_add_eq_append [of 0 "Suc i" k] by (simp del: upt_Suc)
  qed
  moreover have "filter (\<lambda>j. names_flag (states ! j) name) [Suc i..<length states] = []"
    using assms(3) by (auto simp: filter_empty_conv)
  ultimately have "?js = filter (\<lambda>j. names_flag (states ! j) name) [0..<i] @ [i]" using assms(2) by simp
  then obtain j js where js: "?js = j # js" "last (j # js) = i"
    by (cases "filter (\<lambda>j. names_flag (states ! j) name) [0..<i]") auto
  have "state_bit 0 = 0" by (simp add: state_bit_def)
  then have "flag (scan_states 0 states fl0) name = state_bit i"
    using scan_states_flag [of 0 states fl0 name] js by simp
  moreover have "flag (fst (guess_flags fl)) name = flag fl name" for fl
    using assms(4) by (auto simp: guess_flags_def parked_layout_def dead_layout_def Let_def)
  moreover have "name \<noteq> ''TASK_IDLE''" using assms(4) by auto
  ultimately show ?thesis using callback_flag [of name states fl0] by simp
qed

theorem task_flag_of_array_witness:
  "flag (fst (task_state_flags_callback states_3_14 flags_init)) ''EXIT_ZOMBIE'' = 32"
proof -
  have "names_flag (states_3_14 ! 6) ''EXIT_ZOMBIE''" "length states_3_14 = 7" by code_simp+
  then have "flag (fst (task_state_flags_callback states_3_14 flags_init)) ''EXIT_ZOMBIE'' = state_bit 6"
    by (intro task_flag_of_array) auto
  then show ?thesis by (simp add: state_bit_def)
qed

text \<open>
  \<open>update_mem_usage\<close> reads the statistics of a task once: when it returns, calling it again changes nothing,
  and a live task with an address space has the values of its \<open>mm_struct\<close>.
\<close>

theorem update_mem_usage_once:
  assumes "update_mem_usage fl mms c t = (t', None)"
  shows "update_mem_usage fl mms c t' = (t', None) \<and>
    (\<not> lt_mem_valid t \<and> lt_mem_valid t' \<and> ts_mm (lt_task t) \<noteq> 0 \<longrightarrow>
      (\<exists>m. mms (ts_mm (lt_task t)) = Inr m \<and> get_rss mms c (ts_mm (lt_task t)) = Inr (lt_rss t') \<and>
        lt_total_vm t' = mm_total_vm m \<and> lt_pgd_addr t' = mm_pgd m))"
  using assms by (auto simp: update_mem_usage_def Let_def split: if_splits sum.splits)

definition ex_task :: task_struct where
  "ex_task = \<lparr>ts_address = 1000, ts_pid = 42, ts_parent_pid = 1, ts_comm = ''bash'', ts_state = 0, ts_exit_state = 0,
     ts_flags = 0, ts_exit_signal = 17, ts_mm = 64, ts_cpu = None, ts_last_run = 5, ts_timestamp = 6, ts_last_arrival = 7\<rparr>"

theorem update_mem_usage_once_witness:
  "lt_rss (fst (update_mem_usage flags_init (\<lambda>_. Inr \<lparr>mm_total_vm = 9, mm_pgd = 8, mm_rss_stat = [1, 2], mm_fields = []\<rparr>)
     (task_class_init\<lparr>tc_get_rss := Some Rss_stat\<rparr>) (task_new ex_task))) = 3"
proof -
  define mms :: "addr \<Rightarrow> mm_struct res" where
    "mms = (\<lambda>_. Inr \<lparr>mm_total_vm = 9, mm_pgd = 8, mm_rss_stat = [1, 2], mm_fields = []\<rparr>)"
  define c where "c = task_class_init\<lparr>tc_get_rss := Some Rss_stat\<rparr>"
  define t' where "t' = fst (update_mem_usage flags_init mms c (task_new ex_task))"
  have "update_mem_usage flags_init mms c (task_new ex_task) = (t', None)" "lt_mem_valid t'"
    unfolding t'_def mms_def c_def by code_simp+
  then have "get_rss mms c 64 = Inr (lt_rss t')"
    using update_mem_usage_once [of flags_init mms c "task_new ex_task" t'] by (auto simp: task_new_def ex_task_def)
  then show ?thesis by (simp add: get_rss_def mms_def c_def t'_def)
qed

text \<open>
  Whether a pointer to \<open>struct task_struct\<close> may be wrapped depends on what was wrapped before: the constructor
  accepts it only after one task has been wrapped by value.
\<close>

theorem task_pointer_order:
  "LinuxTask_new task_t mm_t (TaskValue (gt_pointer task_t)) c =
     (c, if tc_valid c then None else Some UnexpectedGDBTypeError)"
proof -
  have "size task_t < size (gt_pointer task_t)" by (simp add: gt_pointer_def)
  then have "gt_pointer task_t \<noteq> task_t" by auto
  then show ?thesis by (simp add: LinuxTask_new_def init_task_types_def)
qed

text \<open>
  \<open>maybe_dead\<close> holds of a running task, whose state is 0, whatever the flags are.
\<close>

theorem maybe_dead_running:
  assumes "ts_state (lt_task t) = 0" and "ts_exit_state (lt_task t) = 0"
  shows "maybe_dead fl c t"
  using assms by (simp add: maybe_dead_def task_state_def)

theorem maybe_dead_running_witness: "maybe_dead flags_init task_class_init (task_new ex_task)"
  by (rule maybe_dead_running) (simp_all add: task_new_def ex_task_def)

text \<open>
  The cache of tasks is a finite map by process id: a cached task is found until it is dropped or another task
  with its id is cached, and other tasks are not affected.
\<close>

theorem task_cache_map:
  assumes "drop_task pid tasks = Inr tasks'"
  shows "get_task p (cache_task t tasks) = (if p = ts_pid (lt_task t) then Inr t else get_task p tasks) \<and>
    get_task p tasks' = (if p = pid then Inl KeyError else get_task p tasks)"
  using assms by (auto simp: get_task_def cache_task_def drop_task_def update_conv' delete_conv' split: if_splits)

theorem task_cache_map_witness:
  "get_task 42 (the (case drop_task 42 [(42, task_new ex_task)] of Inr c \<Rightarrow> Some c | Inl _ \<Rightarrow> None)) = Inl KeyError"
  using task_cache_map [of 42 "[(42, task_new ex_task)]" "[]" 42] by (simp add: drop_task_def)

end
