(* ===== verification/Filesystem.thy ===== *)
theory Filesystem
  imports Linked_List Rbtree
begin

text \<open>
  File systems, mounts, kernfs and control groups: \<^verbatim>\<open>crash/subsystem/filesystem/__init__.py\<close>, \<^verbatim>\<open>mount.py\<close>,
  \<^verbatim>\<open>kernfs.py\<close>, \<^verbatim>\<open>btrfs.py\<close>, \<^verbatim>\<open>crash/subsystem/cgroup/__init__.py\<close> and the command
  \<^verbatim>\<open>crash/commands/mount.py\<close>.

  The structures that the code reads are records, found by their addresses.
\<close>

section \<open>Superblocks\<close>

definition SB_FLAGS :: "(int \<times> string) list" where
  "SB_FLAGS =
     [(1, ''MS_RDONLY''), (2, ''MS_NOSUID''), (4, ''MS_NODEV''), (8, ''MS_NOEXEC''), (16, ''MS_SYNCHRONOUS''),
      (32, ''MS_REMOUNT''), (64, ''MS_MANDLOCK''), (128, ''MS_DIRSYNC''), (1024, ''MS_NOATIME''), (2048, ''MS_NODIRATIME''),
      (4096, ''MS_BIND''), (8192, ''MS_MOVE''), (16384, ''MS_REC''), (32768, ''MS_SILENT''), (push_bit 16 1, ''MS_POSIXACL''),
      (push_bit 17 1, ''MS_UNBINDABLE''), (push_bit 18 1, ''MS_PRIVATE''), (push_bit 19 1, ''MS_SLAVE''),
      (push_bit 20 1, ''MS_SHARED''), (push_bit 21 1, ''MS_RELATIME''), (push_bit 22 1, ''MS_KERNMOUNT''),
      (push_bit 23 1, ''MS_I_VERSION''), (push_bit 24 1, ''MS_STRICTATIME''), (push_bit 25 1, ''MS_LAZYTIME''),
      (push_bit 28 1, ''MS_NOSEC''), (push_bit 29 1, ''MS_BORN''), (push_bit 30 1, ''MS_ACTIVE''), (push_bit 31 1, ''MS_NOUSER'')]"

text \<open>\<open>s_fs_info\<close> of a btrfs superblock is the address of its \<open>btrfs_fs_info\<close>.\<close>

record super_block =
  s_type_name :: string
  s_flags :: int
  s_dev :: "int res"
  s_fs_info :: addr

definition super_fstype :: "super_block \<Rightarrow> string" where
  "super_fstype sb = s_type_name sb"

definition super_flags :: "nat \<Rightarrow> super_block \<Rightarrow> string" where
  "super_flags sizeof sb = decode_flags (s_flags sb) sizeof (map_of SB_FLAGS) ''|''"

definition for_each_super_block :: "list_mem \<Rightarrow> addr \<Rightarrow> gtype \<Rightarrow> addr gen option" where
  "for_each_super_block mem super_blocks super_block_type =
     list_for_each_entry mem (ListObj super_blocks) super_block_type ''s_list'' default_opts"

definition get_super_block :: "(addr \<Rightarrow> super_block) \<Rightarrow> gtype \<Rightarrow> address_specifier \<Rightarrow> bool \<Rightarrow> addr res" where
  "get_super_block supers super_block_type desc force =
     bindR (get_typed_pointer desc super_block_type) (\<lambda>(a, _).
       if force then Inr a else bindR (s_dev (supers a)) (\<lambda>_. Inr a))"

definition is_fstype_super :: "super_block \<Rightarrow> string \<Rightarrow> bool" where
  "is_fstype_super sb name \<longleftrightarrow> super_fstype sb = name"

text \<open>An inode is the address of its superblock here.\<close>

definition is_fstype_inode :: "(addr \<Rightarrow> super_block) \<Rightarrow> addr \<Rightarrow> string \<Rightarrow> bool" where
  "is_fstype_inode supers i_sb name \<longleftrightarrow> is_fstype_super (supers i_sb) name"

section \<open>Btrfs\<close>

definition is_btrfs_super :: "super_block \<Rightarrow> bool" where
  "is_btrfs_super sb \<longleftrightarrow> is_fstype_super sb ''btrfs''"

definition btrfs_inode :: "(addr \<Rightarrow> super_block) \<Rightarrow> gtype \<Rightarrow> addr \<Rightarrow> addr \<Rightarrow> bool \<Rightarrow> addr res" where
  "btrfs_inode supers btrfs_inode_type vfs_inode i_sb force =
     (if \<not> force \<and> \<not> is_btrfs_super (supers i_sb) then Inl InvalidArgumentError
      else container_of vfs_inode btrfs_inode_type ''vfs_inode'')"

definition btrfs_fs_info :: "super_block \<Rightarrow> bool \<Rightarrow> addr res" where
  "btrfs_fs_info sb force = (if \<not> force \<and> \<not> is_btrfs_super sb then Inl InvalidArgumentError else Inr (s_fs_info sb))"

text \<open>
  The places where the identifiers may be: members of \<open>btrfs_fs_info\<close> or of \<open>fs_devices\<close>, given by what
  \<open>decode_uuid\<close> returns there, or \<open>None\<close> where the type has no such member.
\<close>

record btrfs_ids =
  info_fsid :: "int res option"
  devices_fsid :: "int res"
  info_metadata_uuid :: "int res option"
  devices_metadata_uuid :: "int res option"

definition btrfs_fsid :: "(addr \<Rightarrow> btrfs_ids) \<Rightarrow> super_block \<Rightarrow> bool \<Rightarrow> int res" where
  "btrfs_fsid infos sb force = bindR (btrfs_fs_info sb force) (\<lambda>a.
     case info_fsid (infos a) of Some u \<Rightarrow> u | None \<Rightarrow> devices_fsid (infos a))"

definition btrfs_metadata_uuid :: "(addr \<Rightarrow> btrfs_ids) \<Rightarrow> super_block \<Rightarrow> bool \<Rightarrow> int res" where
  "btrfs_metadata_uuid infos sb force = bindR (btrfs_fs_info sb force) (\<lambda>a.
     case info_metadata_uuid (infos a) of
       Some u \<Rightarrow> u
     | None \<Rightarrow> (case devices_metadata_uuid (infos a) of Some u \<Rightarrow> u | None \<Rightarrow> btrfs_fsid infos sb force))"

section \<open>Mounts\<close>

definition MNT_FLAGS :: "(int \<times> string) list" where
  "MNT_FLAGS = [(0x01, ''MNT_NOSUID''), (0x02, ''MNT_NODEV''), (0x04, ''MNT_NOEXEC''), (0x08, ''MNT_NOATIME''),
     (0x10, ''MNT_NODIRATIME''), (0x20, ''MNT_RELATIME''), (0x40, ''MNT_READONLY'')]"

definition MNT_FLAGS_HIDDEN :: "(int \<times> string) list" where
  "MNT_FLAGS_HIDDEN = [(0x100, ''[MNT_SHRINKABLE]''), (0x200, ''[MNT_WRITE_HOLD]''), (0x1000, ''[MNT_SHARED]''),
     (0x2000, ''[MNT_UNBINDABLE]'')] @ MNT_FLAGS"

record dentry =
  d_parent :: addr
  d_name :: string

text \<open>
  A \<open>struct mount\<close> with the \<open>struct vfsmount\<close> inside it; on kernels without \<open>struct mount\<close> the two are the
  same.
\<close>

record mount =
  mnt_parent :: addr
  mnt_mountpoint :: addr
  mnt_root :: addr
  mnt_sb :: addr
  mnt_devname :: string
  mnt_flags :: int

text \<open>\<open>mnt_off\<close> is the offset of \<open>mnt\<close> in \<open>struct mount\<close>.\<close>

record fs_mem =
  fm_dentry :: "addr \<Rightarrow> dentry res"
  fm_mount :: "addr \<Rightarrow> mount res"
  fm_super :: "addr \<Rightarrow> super_block"
  mnt_off :: int

text \<open>\<open>root\<close>, a \<open>struct path\<close>: a \<open>struct vfsmount *\<close> and a dentry.\<close>

record fs_path =
  path_mnt :: addr
  path_dentry :: addr

datatype mnt_arg = MountArg addr | VfsArg addr

definition real_mount :: "fs_mem \<Rightarrow> mnt_arg \<Rightarrow> addr" where
  "real_mount fm arg = (case arg of MountArg a \<Rightarrow> a | VfsArg a \<Rightarrow> ptr_add a (- mnt_off fm))"

text \<open>The loop of \<open>d_path\<close>; a walk that does not end is \<open>None\<close>.\<close>

partial_function (option) d_path_loop ::
  "fs_mem \<Rightarrow> fs_path \<Rightarrow> addr \<Rightarrow> addr \<Rightarrow> string \<Rightarrow> string res option" where
  "d_path_loop fm root dentry mount name =
     (if dentry = path_dentry root \<and> ptr_add mount (mnt_off fm) = path_mnt root then Some (Inr name)
      else (case fm_mount fm mount of
          Inl e \<Rightarrow> Some (Inl e)
        | Inr m \<Rightarrow>
            if dentry = mnt_root m then
              (if mount \<noteq> mnt_parent m then d_path_loop fm root (mnt_mountpoint m) (mnt_parent m) name
               else Some (Inr name))
            else (case fm_dentry fm dentry of
                Inl e \<Rightarrow> Some (Inl e)
              | Inr d \<Rightarrow>
                  if dentry = d_parent d then
                    (if mount \<noteq> mnt_parent m then d_path_loop fm root (mnt_mountpoint m) (mnt_parent m) name
                     else Some (Inr name))
                  else d_path_loop fm root (d_parent d) mount (''/'' @ d_name d @ name))))"

declare d_path_loop.simps [code]

definition d_path :: "fs_mem \<Rightarrow> fs_path \<Rightarrow> mnt_arg \<Rightarrow> addr \<Rightarrow> string res option" where
  "d_path fm root mnt dentry =
     map_option (\<lambda>r. bindR r (\<lambda>name. Inr (if name = [] then ''/'' else name)))
       (d_path_loop fm root dentry (real_mount fm mnt) [])"

definition for_each_mount :: "list_mem \<Rightarrow> addr \<Rightarrow> gtype \<Rightarrow> addr gen option" where
  "for_each_mount mem mnt_ns_list mount_type =
     list_for_each_entry mem (ListObj mnt_ns_list) mount_type ''mnt_list'' default_opts"

definition mount_flags :: "nat \<Rightarrow> mount \<Rightarrow> bool \<Rightarrow> string" where
  "mount_flags sizeof m show_hidden =
     decode_flags (mnt_flags m) sizeof (map_of (if show_hidden then MNT_FLAGS_HIDDEN else MNT_FLAGS)) '',''"

definition mount_fstype :: "fs_mem \<Rightarrow> mount \<Rightarrow> string" where
  "mount_fstype fm m = super_fstype (fm_super fm (mnt_sb m))"

text \<open>The command without \<open>-v\<close>: the line for a mount, with flags of 4 bytes.\<close>

definition show_one_mount :: "fs_mem \<Rightarrow> fs_path \<Rightarrow> bool \<Rightarrow> addr \<Rightarrow> string res option" where
  "show_one_mount fm root arg_f a = (case fm_mount fm a of
       Inl e \<Rightarrow> Some (Inl e)
     | Inr m \<Rightarrow> map_option (\<lambda>r. bindR r (\<lambda>path.
         Inr (mnt_devname m @ '' on '' @ path @ '' type '' @ mount_fstype fm m @
           (if arg_f then '' ('' @ mount_flags 4 m False @ '')'' else []))))
         (d_path fm root (MountArg a) (mnt_root m)))"

section \<open>Kernfs\<close>

record kernfs_node =
  kn_parent :: addr
  kn_name :: string
  kn_flags :: int
  kn_children :: addr

definition KERNFS_DIR :: int where
  "KERNFS_DIR = 1"

definition find_kn :: "gtype \<Rightarrow> address_specifier \<Rightarrow> addr res" where
  "find_kn kernfs_node_type a = bindR (get_typed_pointer a kernfs_node_type) (\<lambda>(p, _). Inr p)"

definition for_each_child ::
  "rb_mem \<Rightarrow> (addr \<Rightarrow> addr option) \<Rightarrow> gtype \<Rightarrow> kernfs_node \<Rightarrow> addr gen res option" where
  "for_each_child mem rb_node_of kernfs_node_type kn =
     (if kn_flags kn AND KERNFS_DIR = 0 then Some (Inl InvalidArgumentError)
      else map_option Inr (rbtree_postorder_for_each_entry mem rb_node_of (RbObj (kn_children kn)) kernfs_node_type ''rb''))"

partial_function (option) path_loop :: "(addr \<Rightarrow> kernfs_node res) \<Rightarrow> kernfs_node \<Rightarrow> string list \<Rightarrow> string list res option" where
  "path_loop mem kn path =
     (if kn_parent kn = 0 then Some (Inr path)
      else (case mem (kn_parent kn) of
          Inl e \<Rightarrow> Some (Inl e)
        | Inr p \<Rightarrow> path_loop mem p (path @ [kn_name kn])))"

declare path_loop.simps [code]

definition path_from_node :: "(addr \<Rightarrow> kernfs_node res) \<Rightarrow> kernfs_node \<Rightarrow> string res option" where
  "path_from_node mem kn =
     map_option (\<lambda>r. bindR r (\<lambda>path. Inr (''/'' @ py_join ''/'' (rev path)))) (path_loop mem kn [])"

section \<open>Control groups\<close>

record subsys =
  subsys_names :: "(int \<times> string) list"
  available_mask :: int

definition subsys_init :: subsys where
  "subsys_init = \<lparr>subsys_names = [], available_mask = 0\<rparr>"

definition cgrp_suffix :: string where
  "cgrp_suffix = ''_cgrp_id''"

definition ends_with :: "string \<Rightarrow> string \<Rightarrow> bool" where
  "ends_with s suf \<longleftrightarrow> length suf \<le> length s \<and> drop (length s - length suf) s = suf"

text \<open>The fields of the enumeration: names and values, in order.\<close>

fun init_subsys_ids :: "(string \<times> nat) list \<Rightarrow> subsys \<Rightarrow> subsys \<times> exc option" where
  "init_subsys_ids [] s = (s, None)"
| "init_subsys_ids ((k, v) # kvs) s =
     (if k = ''CGROUP_SUBSYS_COUNT'' then init_subsys_ids kvs s
      else if map_of (subsys_names s) (int v) \<noteq> None then (s, Some InvalidArgumentError)
      else if \<not> ends_with k cgrp_suffix then (s, Some InvalidArgumentError)
      else init_subsys_ids kvs
        \<lparr>subsys_names = subsys_names s @ [(int v, take (length k - length cgrp_suffix) k)],
         available_mask = available_mask s OR push_bit v 1\<rparr>)"

definition subsys_mask_to_names :: "subsys \<Rightarrow> int \<Rightarrow> string list res" where
  "subsys_mask_to_names s m =
     (if m AND NOT (available_mask s) \<noteq> 0 then Inl InvalidArgumentError
      else Inr (map snd (filter (\<lambda>(ssid, _). m AND push_bit (nat ssid) 1 \<noteq> 0) (subsys_names s))))"

definition for_each_hierarchy :: "list_mem \<Rightarrow> addr \<Rightarrow> gtype \<Rightarrow> addr gen option" where
  "for_each_hierarchy mem cgroup_roots cgroup_root_type =
     list_for_each_entry mem (ListObj cgroup_roots) cgroup_root_type ''root_list'' default_opts"

text \<open>A link between a set of groups and a group: the group, its root, and the set.\<close>

record cset_link =
  link_cgrp :: addr
  link_root :: addr
  link_cset :: addr

fun first_link :: "(addr \<Rightarrow> cset_link res) \<Rightarrow> addr \<Rightarrow> addr list \<Rightarrow> addr option res" where
  "first_link links root [] = Inr None"
| "first_link links root (l # ls) = bindR (links l) (\<lambda>k.
     if link_root k = root then Inr (Some (link_cgrp k)) else first_link links root ls)"

text \<open>\<open>cgrp_links\<close> is the list head in the task's set; the walk stops at the first link of the root.\<close>

definition cgroup_from_root :: "list_mem \<Rightarrow> (addr \<Rightarrow> cset_link res) \<Rightarrow> gtype \<Rightarrow> addr \<Rightarrow> addr \<Rightarrow> addr res option" where
  "cgroup_from_root mem links link_type cgrp_links root =
     map_option (\<lambda>g. bindR (first_link links root (fst g)) (\<lambda>r. case r of
         Some c \<Rightarrow> Inr c
       | None \<Rightarrow> (case snd g of Some e \<Rightarrow> Inl e | None \<Rightarrow> Inl CorruptedError)))
       (list_for_each_entry mem (ListObj cgrp_links) link_type ''cgrp_link'' default_opts)"

text \<open>\<open>cset_tasks\<close> is the list head \<open>tasks\<close> of a set.\<close>

fun tasks_of_links ::
  "list_mem \<Rightarrow> (addr \<Rightarrow> cset_link res) \<Rightarrow> (addr \<Rightarrow> addr) \<Rightarrow> gtype \<Rightarrow> addr list \<Rightarrow> addr gen option" where
  "tasks_of_links mem links cset_tasks task_type [] = Some gen_done"
| "tasks_of_links mem links cset_tasks task_type (l # ls) = (case links l of
       Inl e \<Rightarrow> Some (gen_raise e)
     | Inr k \<Rightarrow> Option.bind (list_for_each_entry mem (ListObj (cset_tasks (link_cset k))) task_type ''cg_list'' default_opts) (\<lambda>g.
         case snd g of
           Some e \<Rightarrow> Some g
         | None \<Rightarrow> map_option (gen_yields (fst g)) (tasks_of_links mem links cset_tasks task_type ls)))"

definition for_each_cgroup_task ::
  "list_mem \<Rightarrow> (addr \<Rightarrow> cset_link res) \<Rightarrow> (addr \<Rightarrow> addr) \<Rightarrow> gtype \<Rightarrow> gtype \<Rightarrow> addr \<Rightarrow> addr gen option" where
  "for_each_cgroup_task mem links cset_tasks link_type task_type cset_links =
     Option.bind (list_for_each_entry mem (ListObj cset_links) link_type ''cset_link'' default_opts) (\<lambda>g.
       map_option (\<lambda>h. gen_seq h ([], snd g)) (tasks_of_links mem links cset_tasks task_type (fst g)))"

section \<open>Paths\<close>

text \<open>
  Looking up a path from the root: the names of the components lead from the root to a dentry in a mount, through
  children of directories and from mount points to the roots of what is mounted there.
\<close>

definition at_root :: "fs_mem \<Rightarrow> fs_path \<Rightarrow> addr \<Rightarrow> addr \<Rightarrow> bool" where
  "at_root fm root m d \<longleftrightarrow> d = path_dentry root \<and> ptr_add m (mnt_off fm) = path_mnt root"

inductive reaches :: "fs_mem \<Rightarrow> fs_path \<Rightarrow> addr \<Rightarrow> addr \<Rightarrow> string list \<Rightarrow> bool" for fm root where
  start: "at_root fm root m d \<Longrightarrow> reaches fm root m d []"
| child: "reaches fm root m d names \<Longrightarrow> fm_mount fm m = Inr mnt \<Longrightarrow> fm_dentry fm c = Inr dnt \<Longrightarrow> d_parent dnt = d \<Longrightarrow>
    c \<noteq> d \<Longrightarrow> c \<noteq> mnt_root mnt \<Longrightarrow> \<not> at_root fm root m c \<Longrightarrow> reaches fm root m c (names @ [d_name dnt])"
| cross: "reaches fm root m d names \<Longrightarrow> fm_mount fm m' = Inr mnt \<Longrightarrow> mnt_parent mnt = m \<Longrightarrow> mnt_mountpoint mnt = d \<Longrightarrow>
    m' \<noteq> m \<Longrightarrow> \<not> at_root fm root m' (mnt_root mnt) \<Longrightarrow> reaches fm root m' (mnt_root mnt) names"

definition path_string :: "string list \<Rightarrow> string" where
  "path_string names = concat (map ((@) ''/'') names)"

lemma path_string_append: "path_string (xs @ ys) = path_string xs @ path_string ys"
  by (simp add: path_string_def)

lemma d_path_loop_reaches:
  "reaches fm root m d names \<Longrightarrow> d_path_loop fm root d m acc = Some (Inr (path_string names @ acc))"
proof (induction arbitrary: acc rule: reaches.induct)
  case (start m d)
  then show ?case by (subst d_path_loop.simps) (simp add: at_root_def path_string_def)
next
  case (child m d names mnt c dnt)
  then show ?case
    by (subst d_path_loop.simps) (auto simp: at_root_def path_string_append path_string_def)
next
  case (cross m d names m' mnt)
  then show ?case by (subst d_path_loop.simps) (auto simp: at_root_def)
qed

text \<open>The nodes from a node to the root of kernfs.\<close>

fun kernfs_chain :: "(addr \<Rightarrow> kernfs_node res) \<Rightarrow> kernfs_node \<Rightarrow> string list \<Rightarrow> bool" where
  "kernfs_chain mem kn [] \<longleftrightarrow> kn_parent kn = 0"
| "kernfs_chain mem kn (n # ns) \<longleftrightarrow> kn_parent kn \<noteq> 0 \<and> kn_name kn = n \<and>
     (case mem (kn_parent kn) of Inl e \<Rightarrow> False | Inr p \<Rightarrow> kernfs_chain mem p ns)"

lemma path_loop_chain: "kernfs_chain mem kn ns \<Longrightarrow> path_loop mem kn acc = Some (Inr (acc @ ns))"
proof (induction ns arbitrary: kn acc)
  case Nil
  then show ?case by (subst path_loop.simps) simp
next
  case (Cons n ns)
  then obtain p where "mem (kn_parent kn) = Inr p" "kernfs_chain mem p ns" by (auto split: sum.splits)
  then show ?case using Cons by (subst path_loop.simps) simp
qed

section \<open>Control groups\<close>

definition ctrl_names :: "(string \<times> nat) list \<Rightarrow> (int \<times> string) list" where
  "ctrl_names kvs = map (\<lambda>(k, v). (int v, take (length k - length cgrp_suffix) k)) kvs"

definition mask_of :: "nat list \<Rightarrow> int" where
  "mask_of vs = foldr (\<lambda>v m. push_bit v 1 OR m) vs 0"

lemma bit_mask_of: "bit (mask_of vs) n \<longleftrightarrow> n \<in> set vs"
  by (induction vs) (auto simp: mask_of_def bit_or_iff bit_exp_iff)

lemma init_subsys_ok:
  assumes "\<forall>(k, v) \<in> set kvs. k \<noteq> ''CGROUP_SUBSYS_COUNT'' \<and> ends_with k cgrp_suffix"
    and "distinct (map (int \<circ> snd) kvs)" and "fst ` set (subsys_names s) \<inter> (int \<circ> snd) ` set kvs = {}"
  shows "init_subsys_ids (kvs @ [(''CGROUP_SUBSYS_COUNT'', n)]) s =
    (\<lparr>subsys_names = subsys_names s @ ctrl_names kvs, available_mask = available_mask s OR mask_of (map snd kvs)\<rparr>, None)"
  using assms
proof (induction kvs arbitrary: s)
  case Nil
  then show ?case by (cases s) (simp add: ctrl_names_def mask_of_def)
next
  case (Cons kv kvs)
  obtain k v where kv: "kv = (k, v)" by (cases kv)
  let ?s = "\<lparr>subsys_names = subsys_names s @ [(int v, take (length k - length cgrp_suffix) k)],
    available_mask = available_mask s OR push_bit v 1\<rparr>"
  have "map_of (subsys_names s) (int v) = None" using Cons.prems(3) by (auto simp: kv map_of_eq_None_iff)
  then have "init_subsys_ids ((kv # kvs) @ [(''CGROUP_SUBSYS_COUNT'', n)]) s = init_subsys_ids (kvs @ [(''CGROUP_SUBSYS_COUNT'', n)]) ?s"
    using Cons.prems(1) by (auto simp: kv)
  also have "\<dots> = (\<lparr>subsys_names = subsys_names ?s @ ctrl_names kvs, available_mask = available_mask ?s OR mask_of (map snd kvs)\<rparr>, None)"
    using Cons.prems by (intro Cons.IH) (auto simp: kv)
  finally show ?case by (simp add: kv ctrl_names_def mask_of_def or.assoc)
qed

lemma first_link_find:
  assumes "\<forall>l \<in> set ls. links l = Inr (lk l)"
  shows "first_link links root ls = Inr (map_option (link_cgrp \<circ> lk) (find (\<lambda>l. link_root (lk l) = root) ls))"
  using assms by (induction ls) auto

lemma tasks_of_links_ok:
  assumes "\<forall>l \<in> set ls. links l = Inr (lk l) \<and>
    list_for_each_entry mem (ListObj (cset_tasks (link_cset (lk l)))) t ''cg_list'' default_opts = Some (gen_of_list (ts l))"
  shows "tasks_of_links mem links cset_tasks t ls = Some (gen_of_list (concat (map ts ls)))"
  using assms by (induction ls) (auto simp: gen_simps)

section \<open>Properties\<close>

definition ex_fs :: fs_mem where
  "ex_fs = \<lparr>fm_dentry = (\<lambda>a. of_option GdbMemoryError (map_of
       [(10, \<lparr>d_parent = 10, d_name = ''/''\<rparr>), (11, \<lparr>d_parent = 10, d_name = ''usr''\<rparr>), (20, \<lparr>d_parent = 20, d_name = ''/''\<rparr>),
        (21, \<lparr>d_parent = 20, d_name = ''bin''\<rparr>)] a)),
     fm_mount = (\<lambda>a. of_option GdbMemoryError (map_of
       [(100, \<lparr>mnt_parent = 100, mnt_mountpoint = 10, mnt_root = 10, mnt_sb = 1, mnt_devname = ''/dev/sda1'', mnt_flags = 0\<rparr>),
        (200, \<lparr>mnt_parent = 100, mnt_mountpoint = 11, mnt_root = 20, mnt_sb = 2, mnt_devname = ''/dev/sdb1'', mnt_flags = 33\<rparr>)] a)),
     fm_super = (\<lambda>a. \<lparr>s_type_name = ''xfs'', s_flags = 0, s_dev = Inr 1, s_fs_info = 0\<rparr>), mnt_off = 32\<rparr>"

text \<open>
  C11: \<open>d_path\<close> inverts the lookup of a path: from the mount and the dentry that a list of names leads to, across any
  number of mount points, it returns the names joined with slashes, for a \<open>struct mount\<close> and for the \<open>struct
  vfsmount\<close> inside it, and it returns.
\<close>

theorem d_path_of_lookup:
  assumes "reaches fm root m d names" and "0 \<le> m" and "m < 2 ^ 64"
  shows "d_path fm root (MountArg m) d = Some (Inr (if names = [] then ''/'' else path_string names)) \<and>
    d_path fm root (VfsArg (ptr_add m (mnt_off fm))) d = d_path fm root (MountArg m) d"
proof -
  have "path_string names = [] \<longleftrightarrow> names = []" by (cases names) (simp_all add: path_string_def)
  moreover have "ptr_add (ptr_add m (mnt_off fm)) (- mnt_off fm) = m"
    using assms(2, 3) by (simp add: ptr_add_def mod_simps)
  ultimately show ?thesis using d_path_loop_reaches [OF assms(1), of "[]"] by (simp add: d_path_def real_mount_def)
qed

theorem d_path_of_lookup_witness:
  "d_path ex_fs \<lparr>path_mnt = 132, path_dentry = 10\<rparr> (MountArg 200) 21 = Some (Inr ''/usr/bin'')"
proof -
  let ?r = "\<lparr>path_mnt = 132, path_dentry = 10\<rparr>"
  have "reaches ex_fs ?r 100 10 []" by (rule start) (simp add: at_root_def ex_fs_def ptr_add_def)
  then have "reaches ex_fs ?r 100 11 ([] @ [d_name \<lparr>d_parent = 10, d_name = ''usr''\<rparr>])"
    by (rule child) (simp add: ex_fs_def at_root_def)+
  then have "reaches ex_fs ?r 200 (mnt_root \<lparr>mnt_parent = 100, mnt_mountpoint = 11, mnt_root = 20, mnt_sb = 2, mnt_devname = ''/dev/sdb1'', mnt_flags = 33\<rparr>)
      [''usr'']"
    by (intro cross [of _ _ 100 11]) (simp_all add: ex_fs_def at_root_def ptr_add_def)
  then have "reaches ex_fs ?r 200 21 ([''usr''] @ [d_name \<lparr>d_parent = 20, d_name = ''bin''\<rparr>])"
    by (intro child [of _ _ 200 20]) (simp add: ex_fs_def at_root_def)+
  then show ?thesis using d_path_of_lookup [of ex_fs ?r 200 21 "[''usr'', ''bin'']"] by (simp add: path_string_def)
qed

text \<open>
  \<open>path_from_node\<close> returns the path of a kernfs node: the names from the root down, joined with slashes, and
  splitting it gives them back when no name has a slash.
\<close>

theorem path_from_node_roundtrip:
  assumes "kernfs_chain mem kn ns" and "ns \<noteq> []" and "\<forall>n \<in> set ns. CHR ''/'' \<notin> set n"
  shows "\<exists>p. path_from_node mem kn = Some (Inr (CHR ''/'' # p)) \<and> py_split (CHR ''/'') p = rev ns"
  using path_loop_chain [OF assms(1), of "[]"] py_split_join [of "rev ns" "CHR ''/''"] assms(2, 3)
  by (simp add: path_from_node_def)

theorem path_from_node_roundtrip_witness:
  "\<exists>p. path_from_node (\<lambda>a. Inr \<lparr>kn_parent = (if a = 1 then 0 else 1), kn_name = ''sys'', kn_flags = 1, kn_children = 0\<rparr>)
     \<lparr>kn_parent = 2, kn_name = ''fs'', kn_flags = 1, kn_children = 0\<rparr> = Some (Inr (CHR ''/'' # p)) \<and>
   py_split (CHR ''/'') p = [''sys'', ''fs'']"
  using path_from_node_roundtrip [of "\<lambda>a. Inr \<lparr>kn_parent = (if a = 1 then 0 else 1), kn_name = ''sys'', kn_flags = 1, kn_children = 0\<rparr>"
      "\<lparr>kn_parent = 2, kn_name = ''fs'', kn_flags = 1, kn_children = 0\<rparr>" "[''fs'', ''sys'']"]
  by simp

text \<open>
  After reading the enumeration of controllers, a mask of known controllers gives their names in the order of the
  enumeration, and a mask with any other bit is refused.
\<close>

theorem subsys_mask_names:
  assumes "\<forall>(k, v) \<in> set kvs. k \<noteq> ''CGROUP_SUBSYS_COUNT'' \<and> ends_with k cgrp_suffix"
    and "distinct (map (int \<circ> snd) kvs)"
  shows "\<exists>s. init_subsys_ids (kvs @ [(''CGROUP_SUBSYS_COUNT'', n)]) subsys_init = (s, None) \<and>
    subsys_mask_to_names s m =
      (if \<exists>i. bit m i \<and> i \<notin> snd ` set kvs then Inl InvalidArgumentError
       else Inr (map snd (ctrl_names (filter (\<lambda>(k, v). bit m v) kvs))))"
proof -
  let ?s = "\<lparr>subsys_names = ctrl_names kvs, available_mask = mask_of (map snd kvs)\<rparr>"
  have "init_subsys_ids (kvs @ [(''CGROUP_SUBSYS_COUNT'', n)]) subsys_init = (?s, None)"
    using init_subsys_ok [OF assms, of subsys_init n] by (simp add: subsys_init_def)
  moreover have "m AND NOT (mask_of (map snd kvs)) \<noteq> 0 \<longleftrightarrow> (\<exists>i. bit m i \<and> i \<notin> snd ` set kvs)"
    by (auto simp: bit_eq_iff bit_and_iff bit_not_iff bit_mask_of)
  moreover have "m AND push_bit v 1 \<noteq> 0 \<longleftrightarrow> bit m v" for v :: nat
    by (simp add: and_exp_eq_0_iff_not_bit)
  moreover have "(\<lambda>(k, v). bit m v) = (\<lambda>x :: string \<times> nat. bit m (snd x))" by auto
  ultimately show ?thesis
    by (auto simp: subsys_mask_to_names_def ctrl_names_def filter_map comp_def split_beta)
qed

theorem subsys_mask_names_witness:
  "\<exists>s. init_subsys_ids [(''cpu_cgrp_id'', 0), (''memory_cgrp_id'', 3), (''CGROUP_SUBSYS_COUNT'', 4)] subsys_init = (s, None) \<and>
     subsys_mask_to_names s 8 = Inr [''memory'']"
proof -
  let ?kvs = "[(''cpu_cgrp_id'', 0), (''memory_cgrp_id'', 3)]"
  have names: "ctrl_names [(''memory_cgrp_id'', 3)] = [(3, ''memory'')]" "ends_with ''cpu_cgrp_id'' cgrp_suffix"
    "ends_with ''memory_cgrp_id'' cgrp_suffix"
    by code_simp+
  have eight: "bit (8 :: int) i \<longleftrightarrow> i = 3" for i
  proof -
    have "(8 :: int) = push_bit 3 1" by (simp add: push_bit_eq_mult)
    then show ?thesis by (simp only: bit_push_bit_iff bit_1_iff) auto
  qed
  show ?thesis using subsys_mask_names [of ?kvs 4 8] names by (simp add: eight)
qed

text \<open>
  The group of a task in a hierarchy is the one of the first link to the root of the hierarchy, and a task
  without such a link is reported as corrupted.
\<close>

theorem cgroup_from_root_first:
  assumes "is_list mem h (map (\<lambda>b. ptr_add b (int off)) ls)" and "offsetof_err t ''cgrp_link'' = Inr off"
    and "\<forall>l \<in> set ls. 0 \<le> l \<and> l < 2 ^ 64 \<and> links l = Inr (lk l)"
  shows "cgroup_from_root mem links t h root = Some
    (of_option CorruptedError (map_option (link_cgrp \<circ> lk) (find (\<lambda>l. link_root (lk l) = root) ls)))"
proof -
  have "list_for_each_entry mem (ListObj h) t ''cgrp_link'' default_opts = Some (gen_of_list ls)"
    using assms by (intro list_for_each_entry_ok(1)) auto
  moreover have "first_link links root ls = Inr (map_option (link_cgrp \<circ> lk) (find (\<lambda>l. link_root (lk l) = root) ls))"
    using assms(3) by (intro first_link_find) auto
  ultimately show ?thesis by (simp add: cgroup_from_root_def split: option.splits)
qed

definition ex_link_type :: gtype where
  "ex_link_type = GType CODE_STRUCT 40 ''cgrp_cset_link'' None
     [GField (Some ''cgrp_link'') 64 (GType CODE_STRUCT 16 ''list_head'' None [])]"

theorem cgroup_from_root_first_witness:
  "cgroup_from_root (mem_of [(100, 208, 208), (208, 100, 100)]) (\<lambda>_. Inr \<lparr>link_cgrp = 7, link_root = 5, link_cset = 3\<rparr>)
     ex_link_type 100 5 = Some (Inr 7)"
proof -
  have "offsetof_err ex_link_type ''cgrp_link'' = Inr 8" by code_simp
  then show ?thesis
    using cgroup_from_root_first [of "mem_of [(100, 208, 208), (208, 100, 100)]" 100 8 "[200]" ex_link_type
        "\<lambda>_. Inr \<lparr>link_cgrp = 7, link_root = 5, link_cset = 3\<rparr>" "\<lambda>_. \<lparr>link_cgrp = 7, link_root = 5, link_cset = 3\<rparr>" 5]
    by (simp add: is_list_def mem_of_def ptr_add_def)
qed

end
