(* ===== verification/Syscache.thy ===== *)
theory Syscache
  imports Struct_Layout "HOL-Library.AList"
begin

text \<open>
  The caches of \<^verbatim>\<open>crash/cache/syscache.py\<close>: the names of the system, the kernel's configuration, uptime and the
  load average.

  \<^verbatim>\<open>zlib\<close> and the reading of target memory are parameters.
\<close>

section \<open>The names of the system\<close>

text \<open>The fields of \<open>init_uts_ns.name\<close>, which the first access reads into the cache.\<close>

definition utsname_cache :: "(string \<times> string) list \<Rightarrow> (string \<times> string) list \<Rightarrow> (string \<times> string) list" where
  "utsname_cache fs cache = (if cache = [] then foldl (\<lambda>d (n, v). AList.update n v d) [] fs else cache)"

definition utsname_field :: "(string \<times> string) list \<Rightarrow> string \<Rightarrow> (string \<times> string) list \<Rightarrow> string res \<times> (string \<times> string) list" where
  "utsname_field fs name cache =
     (let cache' = utsname_cache fs cache in (of_option DelayedAttributeError (map_of cache' name), cache'))"

section \<open>The configuration\<close>

record image_location =
  data_start :: int
  data_size :: int
  magic_start :: int
  magic_end :: int

definition locate_config_buffer_section :: "int res \<Rightarrow> int res \<Rightarrow> image_location res" where
  "locate_config_buffer_section kernel_config_data kernel_config_data_end =
     bindR kernel_config_data (\<lambda>s. bindR kernel_config_data_end (\<lambda>e.
       Inr \<lparr>data_start = s, data_size = e - s, magic_start = s - 8, magic_end = e\<rparr>))"

definition locate_config_buffer_typed :: "(int \<times> int) res \<Rightarrow> image_location res" where
  "locate_config_buffer_typed kernel_config_data = bindR kernel_config_data (\<lambda>(start, sizeof).
     let e = start + sizeof
     in Inr \<lparr>data_start = start + 8, data_size = e - start - 2 * 8 - 1, magic_start = start, magic_end = e - 8 - 1\<rparr>)"

text \<open>\<open>rd a n\<close> is \<open>_read_buf_bytes\<close>; bytes are characters.\<close>

definition verify_image :: "(int \<Rightarrow> int \<Rightarrow> string res) \<Rightarrow> image_location \<Rightarrow> unit res" where
  "verify_image rd loc = bindR (rd (magic_start loc) 8) (\<lambda>b.
     if b \<noteq> ''IKCFG_ST'' then Inl IOError
     else bindR (rd (magic_end loc) 8) (\<lambda>b'. if b' \<noteq> ''IKCFG_ED'' then Inl IOError else Inr ()))"

record config_env =
  ce_section :: "int res \<times> int res"
  ce_typed :: "(int \<times> int) res"
  ce_read :: "int \<Rightarrow> int \<Rightarrow> string res"
  ce_decompress :: "string \<Rightarrow> string res"

definition decompress_config_buffer :: "config_env \<Rightarrow> string res" where
  "decompress_config_buffer env =
     bindR (case locate_config_buffer_section (fst (ce_section env)) (snd (ce_section env)) of
              Inr loc \<Rightarrow> Inr loc
            | Inl e \<Rightarrow> if catches DelayedAttributeError e then locate_config_buffer_typed (ce_typed env) else Inl e) (\<lambda>loc.
     bindR (verify_image (ce_read env) loc) (\<lambda>_.
     bindR (ce_read env (data_start loc) (data_size loc)) (ce_decompress env)))"

text \<open>\<open>str.splitlines\<close>.\<close>

definition is_break :: "char \<Rightarrow> bool" where
  "is_break c \<longleftrightarrow> c \<in> {CHR 0x0a, CHR 0x0b, CHR 0x0c, CHR 0x0d, CHR 0x1c, CHR 0x1d, CHR 0x1e, CHR 0x85}"

fun py_splitlines :: "string \<Rightarrow> string \<Rightarrow> string list" where
  "py_splitlines acc [] = (if acc = [] then [] else [rev acc])"
| "py_splitlines acc (c # cs) =
     (if is_break c then
        rev acc # (case cs of
            d # ds \<Rightarrow> if c = CHR 0x0d \<and> d = CHR 0x0a then py_splitlines [] ds else py_splitlines [] cs
          | [] \<Rightarrow> [])
      else py_splitlines (c # acc) cs)"

text \<open>\<open>re.sub("#.*$", "", line).strip()\<close> and \<open>re.match("CONFIG_([^=]*)=(.*)", line)\<close> on a single line.\<close>

definition strip_comment :: "string \<Rightarrow> string" where
  "strip_comment line = py_strip (takeWhile (\<lambda>c. c \<noteq> CHR ''#'') line)"

definition match_config :: "string \<Rightarrow> (string \<times> string) option" where
  "match_config line =
     (if take 7 line \<noteq> ''CONFIG_'' then None
      else let r = drop 7 line in
        case dropWhile (\<lambda>c. c \<noteq> CHR ''='') r of
          [] \<Rightarrow> None
        | _ # v \<Rightarrow> Some (takeWhile (\<lambda>c. c \<noteq> CHR ''='') r, v))"

fun parse_lines :: "string list \<Rightarrow> (string \<times> string) list \<Rightarrow> (string \<times> string) list" where
  "parse_lines [] d = d"
| "parse_lines (l # ls) d = parse_lines ls (case match_config (strip_comment l) of
       Some (k, v) \<Rightarrow> AList.update k v d | None \<Rightarrow> d)"

record config_cache =
  cc_buffer :: string
  cc_ikconfig :: "(string \<times> string) list"

definition config_init :: config_cache where
  "config_init = \<lparr>cc_buffer = [], cc_ikconfig = []\<rparr>"

definition config_buffer :: "config_env \<Rightarrow> config_cache \<Rightarrow> string res \<times> config_cache" where
  "config_buffer env c =
     (if cc_buffer c = [] then
        (case decompress_config_buffer env of
           Inl e \<Rightarrow> (Inl e, c)
         | Inr b \<Rightarrow> (Inr b, c\<lparr>cc_buffer := b\<rparr>))
      else (Inr (cc_buffer c), c))"

definition ikconfig_cache :: "config_env \<Rightarrow> config_cache \<Rightarrow> (string \<times> string) list res \<times> config_cache" where
  "ikconfig_cache env c =
     (if cc_ikconfig c = [] then
        (case config_buffer env c of
           (Inl e, c') \<Rightarrow> (Inl e, c')
         | (Inr b, c') \<Rightarrow> let d = parse_lines (py_splitlines [] b) [] in (Inr d, c'\<lparr>cc_ikconfig := d\<rparr>))
      else (Inr (cc_ikconfig c), c))"

text \<open>\<open>config[name]\<close>, with \<open>None\<close> for a missing key.\<close>

definition config_get :: "config_env \<Rightarrow> string \<Rightarrow> config_cache \<Rightarrow> string option res \<times> config_cache" where
  "config_get env name c =
     (case ikconfig_cache env c of
        (Inl e, c') \<Rightarrow> (if catches KeyError e then Inr None else Inl e, c')
      | (Inr d, c') \<Rightarrow> (Inr (map_of d name), c'))"

section \<open>Uptime\<close>

text \<open>
  Class attributes (\<open>kc_adjust\<close>, \<open>kc_reset_class\<close>, \<open>kc_jiffies\<close>) and attributes of the one instance; the
  instance attribute \<open>_reset_uptime\<close> hides the one of the class once it is set.
\<close>

record kernel_cache =
  kc_adjust :: bool
  kc_reset_class :: bool
  kc_jiffies :: "int option"
  kc_reset_inst :: "bool option"
  kc_hz :: int
  kc_uptime :: int

definition kernel_init :: kernel_cache where
  "kernel_init = \<lparr>kc_adjust = False, kc_reset_class = True, kc_jiffies = None, kc_reset_inst = None, kc_hz = -1, kc_uptime = 0\<rparr>"

definition set_jiffies :: "int \<Rightarrow> kernel_cache \<Rightarrow> kernel_cache" where
  "set_jiffies v k = k\<lparr>kc_jiffies := Some v, kc_reset_class := True\<rparr>"

text \<open>The symbols \<open>jiffies_64\<close> and \<open>jiffies\<close>, if they exist, with what reading them gives.\<close>

definition setup_jiffies :: "int res option \<Rightarrow> int res option \<Rightarrow> kernel_cache \<Rightarrow> bool res \<times> kernel_cache" where
  "setup_jiffies jiffies_64 jiffies k = (case jiffies_64 of
       Some r \<Rightarrow> (case r of
           Inl e \<Rightarrow> (if catches GdbMemoryError e then Inr False else Inl e, k)
         | Inr v \<Rightarrow> (Inr True, set_jiffies v (k\<lparr>kc_adjust := True\<rparr>)))
     | None \<Rightarrow> (case jiffies of
           None \<Rightarrow> (Inr False, k)
         | Some (Inl e) \<Rightarrow> (Inl e, k)
         | Some (Inr v) \<Rightarrow> (Inr True, set_jiffies v (k\<lparr>kc_adjust := False\<rparr>))))"

text \<open>\<open>hz\<close>: \<open>config_hz\<close> is \<open>config['HZ']\<close>.\<close>

definition hz :: "string option res \<Rightarrow> kernel_cache \<Rightarrow> int res \<times> kernel_cache" where
  "hz config_hz k =
     (if kc_hz k = -1 then
        (case config_hz of
           Inl e \<Rightarrow> (Inl e, k)
         | Inr None \<Rightarrow> (Inl TypeError, k)
         | Inr (Some s) \<Rightarrow> (case py_int s 10 of Inl e \<Rightarrow> (Inl e, k) | Inr v \<Rightarrow> (Inr v, k\<lparr>kc_hz := v\<rparr>)))
      else (Inr (kc_hz k), k))"

definition adjusted_jiffies :: "kernel_cache \<Rightarrow> int \<Rightarrow> int res" where
  "adjusted_jiffies k h = bindR (of_option DelayedAttributeError (kc_jiffies k)) (\<lambda>j.
     Inr (if kc_adjust k then j - (0x100000000 - 300 * h) else j))"

definition reset_uptime :: "kernel_cache \<Rightarrow> bool" where
  "reset_uptime k = (case kc_reset_inst k of Some b \<Rightarrow> b | None \<Rightarrow> kc_reset_class k)"

text \<open>\<open>timedelta(seconds=s)\<close>, which has at most 999999999 days.\<close>

definition timedelta_seconds :: "int \<Rightarrow> int res" where
  "timedelta_seconds s = (if 999999999 < \<bar>s div 86400\<bar> then Inl OverflowError else Inr s)"

text \<open>
  \<open>uptime\<close>, in seconds.  \<open>_uptime == 0\<close> compares a \<open>timedelta\<close> with a number and is never true.  Without the
  adjustment \<open>jiffies\<close> is read before \<open>hz\<close>.
\<close>

definition uptime :: "string option res \<Rightarrow> kernel_cache \<Rightarrow> int res \<times> kernel_cache" where
  "uptime config_hz k =
     (if reset_uptime k then
        (case kc_jiffies k of
           None \<Rightarrow> (Inl DelayedAttributeError, k)
         | Some _ \<Rightarrow> (case hz config_hz k of
               (Inl e, k1) \<Rightarrow> (Inl e, k1)
             | (Inr h, k1) \<Rightarrow>
                 if h = 0 then (Inl ZeroDivisionError, k1)
                 else (case adjusted_jiffies k1 h of
                     Inl e \<Rightarrow> (Inl e, k1)
                   | Inr j \<Rightarrow> (case timedelta_seconds (j div h) of
                         Inl e \<Rightarrow> (Inl e, k1)
                       | Inr t \<Rightarrow> (Inr t, k1\<lparr>kc_uptime := t, kc_reset_inst := Some False\<rparr>)))))
      else (Inr (kc_uptime k), k))"

definition jiffies_to_msec :: "string option res \<Rightarrow> int \<Rightarrow> kernel_cache \<Rightarrow> int res \<times> kernel_cache" where
  "jiffies_to_msec config_hz jiffies k = (case hz config_hz k of
       (Inl e, k1) \<Rightarrow> (Inl e, k1)
     | (Inr h, k1) \<Rightarrow> (if h = 0 then Inl ZeroDivisionError else Inr (1000 div h * jiffies), k1))"

section \<open>The names, read once\<close>

definition utsname_good :: "(string \<times> string) list \<Rightarrow> (string \<times> string) list \<Rightarrow> bool" where
  "utsname_good fs cache \<longleftrightarrow> cache \<in> {[], foldl (\<lambda>d (n, v). AList.update n v d) [] fs}"

lemma utsname_map: "map_of (foldl (\<lambda>d (n, v). AList.update n v d) d fs) = map_of d ++ map_of (rev fs)"
  by (induction fs arbitrary: d) (auto simp: update_conv' map_add_assoc)

interpretation uts: transparent_cache "utsname_field fs" "utsname_good fs"
  "\<lambda>name. of_option DelayedAttributeError (map_of (rev fs) name)" for fs
  by unfold_locales
     (auto simp: utsname_field_def utsname_cache_def utsname_good_def Let_def utsname_map)

lemma utsname_reads:
  "distinct (map fst fs) \<Longrightarrow> fst (utsname_field fs n (fold (\<lambda>n c. snd (utsname_field fs n c)) ns [])) =
     of_option DelayedAttributeError (map_of fs n)"
  using uts.answer_after [of fs "[]" n ns] by (simp add: utsname_good_def map_of_rev_distinct)

section \<open>Reading the configuration\<close>

text \<open>
  The text of a configuration: a line for every option, set to a value or commented out.  What the kernel writes
  satisfies \<open>config_ok\<close> except for string values with a \<open>#\<close>, which the parser cuts off.
\<close>

fun config_line :: "string \<times> string option \<Rightarrow> string" where
  "config_line (k, Some v) = ''CONFIG_'' @ k @ ''='' @ v"
| "config_line (k, None) = ''# CONFIG_'' @ k @ '' is not set''"

definition config_text :: "(string \<times> string option) list \<Rightarrow> string" where
  "config_text es = concat (map (\<lambda>e. config_line e @ [CHR 0x0a]) es)"

fun config_ok :: "string \<times> string option \<Rightarrow> bool" where
  "config_ok (k, None) \<longleftrightarrow> \<not> list_ex is_break k"
| "config_ok (k, Some v) \<longleftrightarrow> \<not> list_ex is_break (k @ v) \<and> CHR ''='' \<notin> set k \<and> CHR ''#'' \<notin> set (k @ v) \<and>
     (v = [] \<or> \<not> is_space (last v))"

fun config_entry :: "string \<times> string option \<Rightarrow> (string \<times> string) list" where
  "config_entry (k, None) = []"
| "config_entry (k, Some v) = [(k, v)]"

lemma splitlines_line:
  "\<not> list_ex is_break l \<Longrightarrow> py_splitlines acc (l @ CHR 0x0a # cs) = (rev acc @ l) # py_splitlines [] cs"
proof (induction l arbitrary: acc)
  case Nil
  then show ?case by (simp add: is_break_def split: list.splits)
next
  case (Cons c l)
  then show ?case by simp
qed

lemma config_line_no_break: "config_ok e \<Longrightarrow> \<not> list_ex is_break (config_line e)"
  by (cases e rule: config_line.cases) (auto simp: is_break_def)

lemma splitlines_config: "\<forall>e \<in> set es. config_ok e \<Longrightarrow> py_splitlines [] (config_text es) = map config_line es"
proof (induction es)
  case Nil
  then show ?case by (simp add: config_text_def)
next
  case (Cons e es)
  then show ?case
    using splitlines_line [OF config_line_no_break, of e "[]" "config_text es"] by (simp add: config_text_def)
qed

lemma strip_config_line:
  assumes "v = [] \<or> \<not> is_space (last v)"
  shows "py_strip (''CONFIG_'' @ k @ ''='' @ v) = ''CONFIG_'' @ k @ ''='' @ v"
proof -
  have sp: "\<not> is_space CHR ''C''" "\<not> is_space CHR ''=''" by (simp_all add: is_space_def)
  obtain c s where "rev (''CONFIG_'' @ k @ ''='' @ v) = c # s" "\<not> is_space c"
    using assms sp(2) by (cases v rule: rev_cases) auto
  then have "dropWhile is_space (rev (''CONFIG_'' @ k @ ''='' @ v)) = rev (''CONFIG_'' @ k @ ''='' @ v)" by simp
  then show ?thesis using sp(1) by (simp add: py_strip_def)
qed

lemma match_config_line: "CHR ''='' \<notin> set k \<Longrightarrow> match_config (''CONFIG_'' @ k @ ''='' @ v) = Some (k, v)"
proof -
  assume "CHR ''='' \<notin> set k"
  then have "takeWhile (\<lambda>c. c \<noteq> CHR ''='') (k @ ''='' @ v) = k" "dropWhile (\<lambda>c. c \<noteq> CHR ''='') (k @ ''='' @ v) = ''='' @ v"
    by (subst takeWhile_append2, auto) (subst dropWhile_append2, auto)
  then show ?thesis by (simp add: match_config_def)
qed

lemma parse_config_line:
  assumes "config_ok e"
  shows "parse_lines (config_line e # ls) d = parse_lines ls (foldr (\<lambda>(k, v). AList.update k v) (config_entry e) d)"
proof (cases e rule: config_line.cases)
  case (1 k v)
  have "takeWhile (\<lambda>c. c \<noteq> CHR ''#'') (config_line e) = config_line e"
    by (rule takeWhile_eq_all_conv [THEN iffD2]) (use assms 1 in auto)
  then have "strip_comment (config_line e) = config_line e"
    using assms 1 strip_config_line [of v k] by (simp only: strip_comment_def config_line.simps config_ok.simps simp_thms)
  then show ?thesis using assms 1 match_config_line [of k v] by simp
next
  case (2 k)
  then show ?thesis by (simp add: strip_comment_def py_strip_def match_config_def)
qed

lemma alist_update_new: "k \<notin> fst ` set d \<Longrightarrow> AList.update k v d = d @ [(k, v)]"
  by (induction d) auto

lemma parse_config_lines:
  assumes "\<forall>e \<in> set es. config_ok e" and "distinct (map fst (d @ concat (map config_entry es)))"
  shows "parse_lines (map config_line es) d = d @ concat (map config_entry es)"
  using assms
proof (induction es arbitrary: d)
  case (Cons e es)
  have "foldr (\<lambda>(k, v). AList.update k v) (config_entry e) d = d @ config_entry e"
    using Cons.prems(2) by (cases e rule: config_entry.cases) (auto intro: alist_update_new)
  then show ?case using Cons.IH [of "d @ config_entry e"] Cons.prems parse_config_line [of e] by simp
qed simp

text \<open>The caches hold nothing or what the text gives.\<close>

definition config_good :: "config_env \<Rightarrow> (string \<times> string) list \<Rightarrow> config_cache \<Rightarrow> bool" where
  "config_good env d c \<longleftrightarrow> (\<exists>b. decompress_config_buffer env = Inr b \<and> parse_lines (py_splitlines [] b) [] = d \<and>
     cc_buffer c \<in> {[], b}) \<and> cc_ikconfig c \<in> {[], d}"

lemma config_get_good:
  assumes "config_good env d c"
  shows "fst (config_get env n c) = Inr (map_of d n)" and "config_good env d (snd (config_get env n c))"
  using assms by (auto simp: config_good_def config_get_def ikconfig_cache_def config_buffer_def Let_def)

interpretation cfg: transparent_cache "config_get env" "config_good env d" "\<lambda>n. Inr (map_of d n)" for env d
  by unfold_locales (simp_all add: config_get_good)

lemma config_entry_keys: "set (map fst (concat (map config_entry es))) \<subseteq> set (map fst es)"
proof (induction es)
  case (Cons e es)
  then show ?case by (cases e rule: config_entry.cases) auto
qed simp

lemma config_entry_lookup:
  "distinct (map fst es) \<Longrightarrow> map_of (concat (map config_entry es)) n = (case map_of es n of Some v \<Rightarrow> v | None \<Rightarrow> None)"
proof (induction es)
  case (Cons e es)
  then show ?case using config_entry_keys [of es]
    by (cases e rule: config_entry.cases) (auto simp: map_of_eq_None_iff image_iff split: option.splits)
qed simp

lemma config_good_init:
  assumes "decompress_config_buffer env = Inr (config_text es)" and "\<forall>e \<in> set es. config_ok e"
    and "distinct (map fst es)"
  shows "config_good env (concat (map config_entry es)) config_init"
proof -
  have "distinct (map fst (concat (map config_entry es)))" using assms(3)
  proof (induction es)
    case (Cons e es)
    then show ?case using config_entry_keys [of es] by (cases e rule: config_entry.cases) auto
  qed simp
  then show ?thesis
    using parse_config_lines [OF assms(2), of "[]"] splitlines_config [OF assms(2)] assms(1)
    by (simp add: config_good_def config_init_def)
qed


definition ex_config :: "(string \<times> string option) list" where
  "ex_config = [(''HZ'', Some ''250''), (''DEBUG_INFO'', None), (''LOCALVERSION'', Some ''\"\"'')]"

definition ex_config_env :: config_env where
  "ex_config_env = \<lparr>ce_section = (Inr 4096, Inr 5000), ce_typed = Inl DelayedAttributeError,
     ce_read = \<lambda>a n. Inr (if a = 4088 then ''IKCFG_ST'' else if a = 5000 then ''IKCFG_ED'' else ''z''),
     ce_decompress = \<lambda>b. Inr (config_text ex_config)\<rparr>"


section \<open>Uptime\<close>

lemma uptime_fresh:
  assumes "kc_reset_inst k = None" and "kc_reset_class k" and "kc_hz k = -1" and "kc_jiffies k = Some j" and "py_int s 10 = Inr h" and "0 < h"
  shows "uptime (Inr (Some s)) k =
    (case timedelta_seconds ((if kc_adjust k then j - (0x100000000 - 300 * h) else j) div h) of
       Inl e \<Rightarrow> (Inl e, k\<lparr>kc_hz := h\<rparr>)
     | Inr t \<Rightarrow> (Inr t, k\<lparr>kc_hz := h, kc_uptime := t, kc_reset_inst := Some False\<rparr>))"
  using assms by (simp add: uptime_def reset_uptime_def hz_def adjusted_jiffies_def split: sum.splits)

text \<open>
  The uptime of a kernel whose \<open>jiffies_64\<close> started five minutes before its low word wraps is the number of whole
  seconds in the ticks since then, and a kernel with \<open>jiffies\<close> only has the seconds in \<open>jiffies\<close>.  A later change of
  the value does not reach the cache: the attribute of the instance hides the one that \<open>set_jiffies\<close> resets.
\<close>

theorem uptime_of_ticks:
  assumes "py_int s 10 = Inr h" and "0 < h" and "0 \<le> ticks" and "ticks div h < 86400 * 1000000000"
    and "j64 = Some (Inr (0x100000000 - 300 * h + ticks)) \<or> j64 = None \<and> j = Some (Inr ticks)"
  shows "\<exists>k. uptime (Inr (Some s)) (snd (setup_jiffies j64 j kernel_init)) = (Inr (ticks div h), k) \<and>
    fst (uptime c (set_jiffies v k)) = Inr (ticks div h)"
proof -
  have "0 \<le> ticks div h" using assms(2, 3) by (simp add: pos_imp_zdiv_nonneg_iff)
  then have "timedelta_seconds (ticks div h) = Inr (ticks div h)"
    using assms(4) by (simp add: timedelta_seconds_def)
  then show ?thesis
    using assms(5) uptime_fresh [OF _ _ _ _ assms(1, 2), of "snd (setup_jiffies j64 j kernel_init)"]
    by (auto simp: setup_jiffies_def set_jiffies_def kernel_init_def uptime_def reset_uptime_def)
qed

theorem uptime_of_ticks_witness:
  "\<exists>k. uptime (Inr (Some ''250'')) (snd (setup_jiffies (Some (Inr 4294967296)) None kernel_init)) = (Inr 300, k) \<and>
    fst (uptime (Inr None) (set_jiffies 0 k)) = Inr 300"
proof -
  have "py_int ''250'' 10 = Inr 250" by code_simp
  then show ?thesis
    using uptime_of_ticks [of "''250''" 250 75000 "Some (Inr 4294967296)" None "Inr None" 0] by simp
qed

text \<open>
  \<open>jiffies_to_msec\<close> is exact when the tick rate divides 1000, and is otherwise too low by the fraction of a
  millisecond that each tick loses.
\<close>

lemma jiffies_to_msec_exact:
  assumes "kc_hz k = h" and "0 < h"
  shows "fst (jiffies_to_msec c j k) = Inr ((1000 * j - (1000 mod h) * j) div h)"
proof -
  have "1000 * j - 1000 mod h * j = h * (1000 div h * j)" for j :: int
    by (metis (no_types, lifting) left_diff_distrib minus_mod_eq_mult_div mult.assoc)
  then show ?thesis using assms by (simp add: jiffies_to_msec_def hz_def)
qed

section \<open>The load average\<close>

text \<open>
  The kernel keeps the averages as multiples of 1/2048.  The quotient is exact as a floating point number for values below
  \<open>2 ^ 53\<close>, \<open>round\<close> with two digits rounds it correctly, ties to even, and \<open>str\<close> prints the shortest decimal, so the text is
  that of the rounded number of hundredths.
\<close>

definition round_half_even :: "nat \<Rightarrow> nat \<Rightarrow> nat" where
  "round_half_even n d = (let q = n div d; r = n mod d
     in if 2 * r < d then q else if 2 * r > d then q + 1 else q + q mod 2)"

definition calculate_loadavg :: "nat \<Rightarrow> nat" where
  "calculate_loadavg metric = round_half_even (metric * 100) 2048"

definition hundredths_str :: "nat \<Rightarrow> string" where
  "hundredths_str h = py_digits (h div 100) @ ''.'' @
     (if h mod 10 = 0 then py_digits (h mod 100 div 10) else py_digits (h mod 100 div 10) @ py_digits (h mod 10))"

definition format_loadavg :: "nat list \<Rightarrow> string" where
  "format_loadavg metrics = py_join '' '' (map hundredths_str metrics)"

text \<open>\<open>loadavg\<close>: the text is kept once it is known; before the symbol is known it is not.\<close>

definition loadavg :: "nat list res \<Rightarrow> string \<Rightarrow> string res \<times> string" where
  "loadavg avenrun cached =
     (if cached \<noteq> [] then (Inr cached, cached)
      else (case avenrun of
          Inr ms \<Rightarrow> (let s = format_loadavg (map calculate_loadavg ms) in (Inr s, s))
        | Inl e \<Rightarrow> if catches DelayedAttributeError e then (Inr ''Unknown'', cached) else (Inl e, cached)))"

lemma round_half_even_near:
  assumes "0 < d"
  shows "2 * \<bar>int (round_half_even n d) * int d - int n\<bar> \<le> int d"
proof -
  define q r where "q = n div d" and "r = n mod d"
  have n: "int n = int q * int d + int r" unfolding q_def r_def by (metis div_mult_mod_eq of_nat_add of_nat_mult)
  have r: "r < d" using assms by (simp add: r_def)
  have "round_half_even n d = (if 2 * r < d then q else if 2 * r > d then q + 1 else q + q mod 2)"
    by (simp add: round_half_even_def q_def r_def Let_def)
  moreover have "q mod 2 = 0 \<or> q mod 2 = 1" by auto
  ultimately have "round_half_even n d = q \<and> 2 * r \<le> d \<or> round_half_even n d = q + 1 \<and> d \<le> 2 * r" by auto
  then show ?thesis using n r by (auto simp: algebra_simps)
qed

text \<open>The number shown is the nearest hundredth of the average.\<close>

lemma loadavg_near: "2 * \<bar>int (calculate_loadavg m) * 2048 - int m * 100\<bar> \<le> 2048"
  using round_half_even_near [of 2048 "m * 100"] by (simp add: calculate_loadavg_def)

lemma loadavg_examples:
  "calculate_loadavg 256 = 12" "calculate_loadavg 2048 = 100" "calculate_loadavg 1229 = 60"
  "format_loadavg [12, 100, 60, 0] = ''0.12 1.0 0.6 0.0''"
  by (simp add: calculate_loadavg_def round_half_even_def Let_def)+ code_simp

end
