(* ===== verification/Storage.thy ===== *)
theory Storage
  imports Bitmap Linked_List Syscache
begin

text \<open>
  Block devices and request queues: \<^verbatim>\<open>crash/subsystem/storage/__init__.py\<close>, \<^verbatim>\<open>block.py\<close>, \<^verbatim>\<open>blocksq.py\<close> and
  \<^verbatim>\<open>blockmq.py\<close>.

  Structures in the memory of the target are addresses, and reading a member is a function of the environment.  The
  variables that callbacks export into the module's namespace are a state that is passed on.
\<close>

section \<open>Devices\<close>

text \<open>
  A \<^verbatim>\<open>gdb.Value\<close> that may stand for a block device: a \<open>struct gendisk\<close> or \<open>struct hd_struct\<close>, or a pointer to one.
\<close>

datatype blk_value = Gendisk addr | GendiskPtr addr | HdStruct addr | HdStructPtr addr | OtherValue

record blk_env =
  gendisk_type :: "gtype res"
  hd_struct_type :: "gtype res"
  block_device_type :: "gtype res"
  bdev_inode_type :: "gtype res"
  disk_type_address :: addr
  part_type_address :: addr
  blockdev_superblock :: addr
  bd_disk :: "addr \<Rightarrow> addr res"
  part0 :: "addr \<Rightarrow> (gtype \<times> addr) res"  \<comment> \<open>its type, and where the structure is\<close>
  dev_parent :: "addr \<Rightarrow> addr res"
  disk_name :: "addr \<Rightarrow> string res"
  partno :: "addr \<Rightarrow> int res"
  bdev_inode_bdev :: "addr \<Rightarrow> addr res"
  i_sb :: "addr \<Rightarrow> addr res"
  s_bdev :: "addr \<Rightarrow> addr res"

text \<open>\<open>value[name]\<close> of a structure at an address: the address of the member, or \<^verbatim>\<open>gdb.error\<close>.\<close>

definition member_at :: "gtype \<Rightarrow> addr \<Rightarrow> string \<Rightarrow> addr res" where
  "member_at t a m = (case offsetof_err t m of Inl e \<Rightarrow> Inl GdbError | Inr off \<Rightarrow> Inr (ptr_add a (int off)))"

definition dev_to_bdev :: "blk_env \<Rightarrow> addr \<Rightarrow> addr res" where
  "dev_to_bdev env dev = bindR (block_device_type env) (\<lambda>t. container_of dev t ''bd_device'')"

definition dev_to_gendisk :: "blk_env \<Rightarrow> addr \<Rightarrow> blk_value res" where
  "dev_to_gendisk env dev =
     (case bindR (gendisk_type env) (\<lambda>t. container_of dev t ''part0.__dev'') of
        Inr a \<Rightarrow> Inr (Gendisk a)
      | Inl e \<Rightarrow> if catches InvalidComponentError e
                 then bindR (dev_to_bdev env dev) (\<lambda>b. bindR (bd_disk env b) (\<lambda>d. Inr (GendiskPtr d)))
                 else Inl e)"

definition dev_to_part :: "blk_env \<Rightarrow> addr \<Rightarrow> blk_value res" where
  "dev_to_part env dev = bindR (hd_struct_type env) (\<lambda>t. bindR (container_of dev t ''__dev'') (\<lambda>a. Inr (HdStruct a)))"

definition gendisk_to_dev :: "blk_env \<Rightarrow> addr \<Rightarrow> addr res" where
  "gendisk_to_dev env gendisk = bindR (part0 env gendisk) (\<lambda>(t, a).
     bindR (struct_has_member (\<lambda>_. None) (SpecValue t) ''bd_device'') (\<lambda>b.
       if b then member_at t a ''bd_device'' else member_at t a ''__dev''))"

definition part_to_dev :: "blk_env \<Rightarrow> addr \<Rightarrow> addr res" where
  "part_to_dev env part = bindR (hd_struct_type env) (\<lambda>t. member_at t part ''__dev'')"

text \<open>
  The argument \<open>subtype\<close>: \<open>None\<close> (or a value that is false), a \<open>struct device_type\<close> (its address), a pointer to one,
  or anything else.
\<close>

datatype subtype_arg = NoSubtype | DeviceType addr | DeviceTypePtr addr | OtherSubtype

definition subtype_address :: "subtype_arg \<Rightarrow> addr option res" where
  "subtype_address st = (case st of
       NoSubtype \<Rightarrow> Inr None
     | DeviceType a \<Rightarrow> Inr (Some a)
     | DeviceTypePtr p \<Rightarrow> Inr (if p = 0 then None else Some p)
     | OtherSubtype \<Rightarrow> Inl InvalidArgumentError)"

definition block_device_of :: "blk_env \<Rightarrow> classdev_env \<Rightarrow> addr \<Rightarrow> blk_value gen" where
  "block_device_of env cenv dev = gen_try (of_option GdbMemoryError (cd_type cenv dev)) (\<lambda>t.
     if t = disk_type_address env then gen_of_res (dev_to_gendisk env dev)
     else if t = part_type_address env then gen_of_res (dev_to_part env dev)
     else gen_raise RuntimeError)"

definition for_each_block_device ::
  "blk_env \<Rightarrow> list_mem \<Rightarrow> klist_env \<Rightarrow> classdev_env \<Rightarrow> bool \<Rightarrow> klist_arg \<Rightarrow> subtype_arg \<Rightarrow> blk_value gen option" where
  "for_each_block_device env mem kenv cenv priv block_class st = (case subtype_address st of
       Inl e \<Rightarrow> Some (gen_raise e)
     | Inr subtype \<Rightarrow> map_option (\<lambda>g. gen_bind g (block_device_of env cenv))
         (for_each_class_device mem kenv cenv priv block_class subtype))"

definition for_each_disk ::
  "blk_env \<Rightarrow> list_mem \<Rightarrow> klist_env \<Rightarrow> classdev_env \<Rightarrow> bool \<Rightarrow> klist_arg \<Rightarrow> blk_value gen option" where
  "for_each_disk env mem kenv cenv priv block_class =
     for_each_block_device env mem kenv cenv priv block_class (DeviceType (disk_type_address env))"

text \<open>\<open>"{:d}".format(n)\<close>\<close>

definition py_dec :: "int \<Rightarrow> string" where
  "py_dec n = (if n < 0 then CHR ''-'' # py_digits (nat (- n)) else py_digits (nat n))"

text \<open>A partition's parent is always a disk, which is where the recursion ends.\<close>

fun blk_depth :: "blk_value \<Rightarrow> nat" where
  "blk_depth (HdStruct a) = 1"
| "blk_depth (HdStructPtr a) = 1"
| "blk_depth _ = 0"

lemma dev_to_gendisk_depth: "dev_to_gendisk env dev = Inr v \<Longrightarrow> blk_depth v = 0"
  by (auto simp: dev_to_gendisk_def bindR_eq_Inr split: sum.splits if_splits)

function gendisk_name :: "blk_env \<Rightarrow> blk_value \<Rightarrow> string res" where
  "gendisk_name env (Gendisk a) = disk_name env a"
| "gendisk_name env (GendiskPtr a) = disk_name env a"
| "gendisk_name env (HdStruct a) =
     bindR (part_to_dev env a) (\<lambda>dev. bindR (dev_parent env dev) (\<lambda>p. bindR (dev_to_gendisk env p) (\<lambda>parent.
     bindR (gendisk_name env parent) (\<lambda>name. bindR (partno env a) (\<lambda>n. Inr (name @ py_dec n))))))"
| "gendisk_name env (HdStructPtr a) =
     bindR (part_to_dev env a) (\<lambda>dev. bindR (dev_parent env dev) (\<lambda>p. bindR (dev_to_gendisk env p) (\<lambda>parent.
     bindR (gendisk_name env parent) (\<lambda>name. bindR (partno env a) (\<lambda>n. Inr (name @ py_dec n))))))"
| "gendisk_name env OtherValue = Inl InvalidArgumentError"
  by pat_completeness auto
termination
  by (relation "measure (\<lambda>(env, v). blk_depth v)") (auto simp: dev_to_gendisk_depth)

definition block_device_name :: "blk_env \<Rightarrow> addr \<Rightarrow> string res" where
  "block_device_name env bdev = bindR (bd_disk env bdev) (\<lambda>d. gendisk_name env (GendiskPtr d))"

definition is_bdev_inode :: "blk_env \<Rightarrow> addr \<Rightarrow> bool res" where
  "is_bdev_inode env inode = bindR (i_sb env inode) (\<lambda>sb. Inr (sb = blockdev_superblock env))"

definition inode_to_block_device :: "blk_env \<Rightarrow> addr \<Rightarrow> addr res" where
  "inode_to_block_device env inode = bindR (i_sb env inode) (\<lambda>sb.
     if sb \<noteq> blockdev_superblock env then Inl InvalidArgumentError
     else bindR (bdev_inode_type env) (\<lambda>t. bindR (container_of inode t ''vfs_inode'') (bdev_inode_bdev env)))"

text \<open>The address of the \<open>struct block_device\<close>; \<open>dereference()\<close> of a null pointer is lazy.\<close>

definition inode_on_bdev :: "blk_env \<Rightarrow> addr \<Rightarrow> addr res" where
  "inode_on_bdev env inode = bindR (is_bdev_inode env inode) (\<lambda>b.
     if b then inode_to_block_device env inode else bindR (i_sb env inode) (s_bdev env))"

section \<open>Requests\<close>

text \<open>The members of a \<open>struct request\<close> that are read; which of them exist depends on the kernel.\<close>

record request =
  rq_q :: addr
  start_time :: int
  cmd_flags :: int
  rq_state :: int
  atomic_flags :: int

datatype in_flight_impl = RqState | AtomicFlags | CmdFlags

text \<open>
  The module's namespace: the exported \<open>REQ_\<close> flags and the implementation chosen for \<open>_rq_in_flight\<close>.  A name that
  no callback has set yet raises \<^verbatim>\<open>NameError\<close>.
\<close>

record blk_globals =
  req_flags :: "string \<Rightarrow> int option"
  rq_in_flight_impl :: "in_flight_impl option"

definition blk_globals_init :: blk_globals where
  "blk_globals_init = \<lparr>req_flags = (\<lambda>_. None), rq_in_flight_impl = None\<rparr>"

definition global :: "blk_globals \<Rightarrow> string \<Rightarrow> int res" where
  "global g name = of_option NameError (req_flags g name)"

text \<open>The enumerators of \<open>enum req_flag_bits\<close>, with their values.\<close>

definition export_req_flags :: "(string \<times> nat) list \<Rightarrow> blk_globals \<Rightarrow> blk_globals" where
  "export_req_flags items g =
     (let f = foldl (\<lambda>f (name, v). f(drop 2 name \<mapsto> push_bit v 1)) (req_flags g) items;
          f' = foldl (\<lambda>f name. if f name = None then f(name \<mapsto> 0) else f) f [''REQ_PREFLUSH'', ''REQ_FLUSH'']
      in g\<lparr>req_flags := f'\<rparr>)"

definition check_struct_request :: "gtype \<Rightarrow> blk_globals \<Rightarrow> blk_globals res" where
  "check_struct_request request_s g =
     bindR (struct_has_member (\<lambda>_. None) (SpecType request_s) ''rq_state'') (\<lambda>b1.
     bindR (if b1 then Inr False else struct_has_member (\<lambda>_. None) (SpecType request_s) ''atomic_flags'') (\<lambda>b2.
       Inr (g\<lparr>rq_in_flight_impl := Some (if b1 then RqState else if b2 then AtomicFlags else CmdFlags)\<rparr>)))"

text \<open>
  \<open>_check_types\<close>: the message for a mismatch reads \<open>symvals.device_type_type\<close>, which does not exist.
\<close>

definition check_types :: "gtype res \<Rightarrow> gtype res \<Rightarrow> gtype res \<Rightarrow> unit res" where
  "check_types part_type disk_type device_type =
     (let r = bindR part_type (\<lambda>p. bindR device_type (\<lambda>t. if p \<noteq> t then Inl NameError else
          bindR disk_type (\<lambda>d. if d \<noteq> t then Inl NameError else Inr ())))
      in case r of Inl e \<Rightarrow> if catches DelayedAttributeError e then Inr () else Inl e | Inr _ \<Rightarrow> Inr ())"

text \<open>
  The age of a request.  \<open>start_time\<close> is an \<open>unsigned long\<close>, so the difference and the product are values of gdb that
  wrap.
\<close>

definition request_age_ms :: "string option res \<Rightarrow> kernel_cache \<Rightarrow> request \<Rightarrow> int res \<times> kernel_cache" where
  "request_age_ms config_hz k rq = (case kc_jiffies k of
       None \<Rightarrow> (Inl DelayedAttributeError, k)
     | Some j \<Rightarrow> (case jiffies_to_msec config_hz ((j - start_time rq) mod 2 ^ 64) k of
           (Inl e, k') \<Rightarrow> (Inl e, k')
         | (Inr ms, k') \<Rightarrow> (Inr (ms mod 2 ^ 64), k')))"

definition rq_data_dir :: "request \<Rightarrow> int" where
  "rq_data_dir rq = (if cmd_flags rq AND 1 \<noteq> 0 then 1 else 0)"

definition rq_is_sync :: "blk_globals \<Rightarrow> request \<Rightarrow> bool res" where
  "rq_is_sync g rq =
     (if cmd_flags rq AND 1 = 0 then Inr True
      else bindR (global g ''REQ_SYNC'') (\<lambda>s. bindR (global g ''REQ_FUA'') (\<lambda>f. bindR (global g ''REQ_PREFLUSH'') (\<lambda>p.
        Inr (cmd_flags rq AND (s OR f OR p) \<noteq> 0)))))"

text \<open>
  \<open>_rq_in_flight_rq_state\<close> compares the state with a \<^verbatim>\<open>gdb.Field\<close>, not with its \<open>enumval\<close>: \<open>ne_idle\<close> is what gdb
  answers to that.  \<open>atom_started\<close> is the value of \<open>REQ_ATOM_STARTED\<close>.
\<close>

definition rq_in_flight :: "(int \<Rightarrow> bool res) \<Rightarrow> nat res \<Rightarrow> blk_globals \<Rightarrow> request \<Rightarrow> bool res" where
  "rq_in_flight ne_idle atom_started g rq = (case rq_in_flight_impl g of
       None \<Rightarrow> Inl NameError
     | Some RqState \<Rightarrow> ne_idle (rq_state rq)
     | Some AtomicFlags \<Rightarrow> bindR atom_started (\<lambda>n. Inr (atomic_flags rq AND push_bit n 1 \<noteq> 0))
     | Some CmdFlags \<Rightarrow> bindR (global g ''REQ_STARTED'') (\<lambda>s. Inr (cmd_flags rq AND s \<noteq> 0)))"

section \<open>Request queues\<close>

record blk_tags =
  nr_reserved_tags :: int
  breserved_tags :: sbitmap
  bitmap_tags :: sbitmap
  rqs :: "int \<Rightarrow> addr res"

record blk_hctx =
  nr_ctx :: int
  hctx_tags :: "blk_tags option"  \<comment> \<open>\<open>None\<close>: the null pointer\<close>

record request_queue =
  q_address :: addr
  q_type :: gtype
  mq_ops :: int
  nr_hw_queues :: int
  queue_hw_ctx :: "int \<Rightarrow> blk_hctx res"
  queue_head :: addr
  q_in_flight :: "int \<times> int"
  rq_count :: "int \<times> int"
  root_rl_count :: "int \<times> int"

record rq_env =
  re_request :: "addr \<Rightarrow> request res"
  re_globals :: blk_globals
  re_ne_idle :: "int \<Rightarrow> bool res"
  re_atom_started :: "nat res"
  re_request_type :: "gtype res"
  re_mem :: list_mem

definition queue_is_mq :: "request_queue \<Rightarrow> bool res" where
  "queue_is_mq q = bindR (struct_has_member (\<lambda>_. None) (SpecValue (q_type q)) ''mq_ops'') (\<lambda>b.
     Inr (b \<and> mq_ops q \<noteq> 0))"

text \<open>\<open>_check_queue_type\<close> of \<^verbatim>\<open>blockmq.py\<close> and of \<^verbatim>\<open>blocksq.py\<close>.\<close>

definition mq_check_queue_type :: "request_queue \<Rightarrow> unit res" where
  "mq_check_queue_type q = bindR (queue_is_mq q) (\<lambda>b. if b then Inr () else Inl InvalidArgumentError)"

definition sq_check_queue_type :: "request_queue \<Rightarrow> unit res" where
  "sq_check_queue_type q = bindR (queue_is_mq q) (\<lambda>b. if b then Inl InvalidArgumentError else Inr ())"

definition mq_queue_for_each_hw_ctx :: "request_queue \<Rightarrow> blk_hctx gen" where
  "mq_queue_for_each_hw_ctx q = gen_try (mq_check_queue_type q) (\<lambda>_.
     gen_for [0..nr_hw_queues q - 1] (\<lambda>i. gen_of_res (queue_hw_ctx q i)))"

definition tag_request :: "rq_env \<Rightarrow> request_queue \<Rightarrow> blk_tags \<Rightarrow> int \<Rightarrow> addr gen" where
  "tag_request env q tags tag = gen_try (rqs tags tag) (\<lambda>a.
     if a = 0 then gen_done
     else gen_try (re_request env a) (\<lambda>rq. if rq_q rq = q_address q then gen_of_list [a] else gen_done))"

definition hctx_requests :: "rq_env \<Rightarrow> request_queue \<Rightarrow> bool \<Rightarrow> blk_hctx \<Rightarrow> addr gen" where
  "hctx_requests env q reserved hctx = (case hctx_tags hctx of
       None \<Rightarrow> gen_done
     | Some tags \<Rightarrow>
         if nr_ctx hctx = 0 then gen_done
         else gen_seq
           (if reserved \<and> nr_reserved_tags tags > 0
            then gen_bind (sbitmap_for_each_set (breserved_tags tags)) (tag_request env q tags) else gen_done)
           (gen_bind (sbitmap_for_each_set (bitmap_tags tags))
              (\<lambda>tag. tag_request env q tags (tag + nr_reserved_tags tags))))"

definition mq_for_each_request_in_queue :: "rq_env \<Rightarrow> request_queue \<Rightarrow> bool \<Rightarrow> addr gen" where
  "mq_for_each_request_in_queue env q reserved =
     (if q_address q = 0 then gen_raise NoQueueError
      else gen_try (mq_check_queue_type q) (\<lambda>_.
        gen_bind (mq_queue_for_each_hw_ctx q) (hctx_requests env q reserved)))"

text \<open>\<open>for x in g: acc = f(x, acc)\<close> with a generator and a body that may raise.\<close>

fun foldR :: "('a \<Rightarrow> 's \<Rightarrow> 's res) \<Rightarrow> 'a list \<Rightarrow> 's \<Rightarrow> 's res" where
  "foldR f [] s = Inr s"
| "foldR f (x # xs) s = bindR (f x s) (foldR f xs)"

definition gen_fold :: "('a \<Rightarrow> 's \<Rightarrow> 's res) \<Rightarrow> 'a gen \<Rightarrow> 's \<Rightarrow> 's res" where
  "gen_fold f g s = bindR (foldR f (fst g) s) (\<lambda>s'. case snd g of None \<Rightarrow> Inr s' | Some e \<Rightarrow> Inl e)"

text \<open>\<open>counts[sync] += 1\<close>\<close>

definition count_sync :: "bool \<Rightarrow> int \<times> int \<Rightarrow> int \<times> int" where
  "count_sync sync c = (if sync then (fst c, snd c + 1) else (fst c + 1, snd c))"

definition env_sync :: "rq_env \<Rightarrow> addr \<Rightarrow> bool res" where
  "env_sync env a = bindR (re_request env a) (rq_is_sync (re_globals env))"

definition env_in_flight :: "rq_env \<Rightarrow> addr \<Rightarrow> bool res" where
  "env_in_flight env a = bindR (re_request env a) (rq_in_flight (re_ne_idle env) (re_atom_started env) (re_globals env))"

definition mq_requests_in_flight :: "rq_env \<Rightarrow> request_queue \<Rightarrow> (int \<times> int) res" where
  "mq_requests_in_flight env q = bindR (mq_check_queue_type q) (\<lambda>_.
     gen_fold (\<lambda>a c. bindR (env_in_flight env a) (\<lambda>b.
         if b then bindR (env_sync env a) (\<lambda>s. Inr (count_sync s c)) else Inr c))
       (mq_for_each_request_in_queue env q True) (0, 0))"

definition mq_requests_queued :: "rq_env \<Rightarrow> request_queue \<Rightarrow> (int \<times> int) res" where
  "mq_requests_queued env q = bindR (mq_check_queue_type q) (\<lambda>_.
     gen_fold (\<lambda>a c. bindR (env_sync env a) (\<lambda>s. Inr (count_sync s c)))
       (mq_for_each_request_in_queue env q True) (0, 0))"

definition mq_queue_request_stats :: "rq_env \<Rightarrow> request_queue \<Rightarrow> ((int \<times> int) \<times> (int \<times> int)) res" where
  "mq_queue_request_stats env q = bindR (mq_check_queue_type q) (\<lambda>_.
     gen_fold (\<lambda>a (c, d). bindR (env_sync env a) (\<lambda>s.
         let c' = count_sync s c
         in bindR (env_in_flight env a) (\<lambda>b.
              if b then bindR (env_sync env a) (\<lambda>s'. Inr (c', count_sync s' d)) else Inr (c', d))))
       (mq_for_each_request_in_queue env q True) ((0, 0), (0, 0)))"

definition sq_for_each_request_in_queue :: "rq_env \<Rightarrow> request_queue \<Rightarrow> addr gen option" where
  "sq_for_each_request_in_queue env q =
     (if q_address q = 0 then Some (gen_raise NoQueueError)
      else (case bindR (sq_check_queue_type q) (\<lambda>_. re_request_type env) of
          Inl e \<Rightarrow> Some (gen_raise e)
        | Inr t \<Rightarrow> list_for_each_entry (re_mem env) (ListObj (queue_head q)) t ''queuelist'' default_opts))"

definition sq_requests_in_flight :: "request_queue \<Rightarrow> (int \<times> int) res" where
  "sq_requests_in_flight q = bindR (sq_check_queue_type q) (\<lambda>_. Inr (q_in_flight q))"

definition sq_requests_queued :: "request_queue \<Rightarrow> (int \<times> int) res" where
  "sq_requests_queued q = bindR (sq_check_queue_type q) (\<lambda>_.
     bindR (struct_has_member (\<lambda>_. None) (SpecValue (q_type q)) ''rq'') (\<lambda>b.
       Inr (if b then rq_count q else root_rl_count q)))"

section \<open>Both kinds of queues\<close>

definition requests_in_flight :: "rq_env \<Rightarrow> request_queue \<Rightarrow> (int \<times> int) res" where
  "requests_in_flight env q = bindR (queue_is_mq q) (\<lambda>b.
     if b then mq_requests_in_flight env q else sq_requests_in_flight q)"

definition requests_queued :: "rq_env \<Rightarrow> request_queue \<Rightarrow> (int \<times> int) res" where
  "requests_queued env q = bindR (queue_is_mq q) (\<lambda>b.
     if b then mq_requests_queued env q else sq_requests_queued q)"

definition for_each_request_in_queue :: "rq_env \<Rightarrow> request_queue \<Rightarrow> addr gen option" where
  "for_each_request_in_queue env q = (case queue_is_mq q of
       Inl e \<Rightarrow> Some (gen_raise e)
     | Inr b \<Rightarrow> if b then Some (mq_for_each_request_in_queue env q True) else sq_for_each_request_in_queue env q)"

definition queue_request_stats :: "rq_env \<Rightarrow> request_queue \<Rightarrow> ((int \<times> int) \<times> (int \<times> int)) res" where
  "queue_request_stats env q = bindR (queue_is_mq q) (\<lambda>b.
     if b then mq_queue_request_stats env q
     else bindR (sq_requests_queued q) (\<lambda>c. bindR (sq_requests_in_flight q) (\<lambda>d. Inr (c, d))))"

section \<open>Disks and their devices\<close>

text \<open>
  The two layouts of the kernel: \<open>struct gendisk\<close> embeds the \<open>struct hd_struct\<close> of the whole disk, which embeds the
  device; or it points to a \<open>struct block_device\<close>, which embeds the device and points back.
\<close>

definition embedded_part0 :: "blk_env \<Rightarrow> addr \<Rightarrow> bool" where
  "embedded_part0 env g \<longleftrightarrow> (\<exists>t t1 o1 o2 t2. gendisk_type env = Inr t \<and> is_struct_or_union t \<and>
     offsetof_type t ''part0'' True = Inr (Some (o1, t1)) \<and> is_struct_or_union t1 \<and>
     offsetof_type t1 ''__dev'' True = Inr (Some (o2, t2)) \<and> offsetof t1 ''bd_device'' True = Inl InvalidComponentError \<and>
     part0 env g = Inr (t1, ptr_add g (int o1)))"

definition pointed_part0 :: "blk_env \<Rightarrow> addr \<Rightarrow> bool" where
  "pointed_part0 env g \<longleftrightarrow> (\<exists>t t1 off b. gendisk_type env = Inr t \<and> offsetof_err t ''part0.__dev'' = Inl InvalidComponentError \<and>
     block_device_type env = Inr t1 \<and> gt_code t1 = CODE_STRUCT \<and> offsetof_err t1 ''bd_device'' = Inr off \<and>
     part0 env g = Inr (gt_pointer t1, b) \<and> 0 \<le> b \<and> b < 2 ^ 64 \<and> bd_disk env b = Inr g)"

lemma ptr_add_ptr_add: "ptr_add (ptr_add a m) n = ptr_add a (m + n)"
  by (simp add: ptr_add_def mod_add_left_eq add.assoc)

lemma catches_refl [simp]: "catches e e"
  by (simp add: catches_def numeral_eq_Suc)

lemma offsetof_err_of_type: "offsetof_type t m True = Inr (Some (off, t')) \<Longrightarrow> offsetof_err t m = Inr off"
  by (simp add: offsetof_err_def offsetof_def)

lemma embedded_roundtrip:
  assumes "embedded_part0 env g" and "0 \<le> g" and "g < 2 ^ 64"
  shows "\<exists>dev. gendisk_to_dev env g = Inr dev \<and> dev_to_gendisk env dev = Inr (Gendisk g)"
proof -
  obtain t t1 o1 o2 t2 where t: "gendisk_type env = Inr t" "is_struct_or_union t"
      "offsetof_type t ''part0'' True = Inr (Some (o1, t1))" "is_struct_or_union t1"
      "offsetof_type t1 ''__dev'' True = Inr (Some (o2, t2))" "offsetof t1 ''bd_device'' True = Inl InvalidComponentError"
      "part0 env g = Inr (t1, ptr_add g (int o1))"
    using assms(1) by (auto simp: embedded_part0_def)
  let ?dev = "ptr_add g (int (o1 + o2))"
  have "gendisk_to_dev env g = Inr ?dev"
    using t(5-7) offsetof_err_of_type [OF t(5)]
    by (simp add: gendisk_to_dev_def struct_has_member_def resolve_type_def member_at_def ptr_add_ptr_add)
  moreover have "offsetof_err t ''part0.__dev'' = Inr (o1 + o2)"
    using offsetof_dotted [OF t(3, 5, 2, 4)] by (intro offsetof_err_of_type) simp
  then have "dev_to_gendisk env ?dev = Inr (Gendisk g)"
    using t(1) container_of_ptr_add [OF _ assms(2, 3), of t "''part0.__dev''" "o1 + o2"] by (simp add: dev_to_gendisk_def)
  ultimately show ?thesis by blast
qed

lemma offsetof_pointer:
  assumes "gt_code t = CODE_STRUCT"
  shows "offsetof_type (gt_pointer t) m e = offsetof_type t m e"
  using assms by (simp add: offsetof_type_def gt_pointer_def)

lemma pointed_roundtrip:
  assumes "pointed_part0 env g"
  shows "\<exists>dev. gendisk_to_dev env g = Inr dev \<and> dev_to_gendisk env dev = Inr (GendiskPtr g)"
proof -
  obtain t t1 off b where t: "gendisk_type env = Inr t" "offsetof_err t ''part0.__dev'' = Inl InvalidComponentError"
      "block_device_type env = Inr t1" "gt_code t1 = CODE_STRUCT" "offsetof_err t1 ''bd_device'' = Inr off"
      "part0 env g = Inr (gt_pointer t1, b)" "0 \<le> b" "b < 2 ^ 64" "bd_disk env b = Inr g"
    using assms by (auto simp: pointed_part0_def)
  obtain x where "offsetof t1 ''bd_device'' True = Inr x"
    using t(5) by (auto simp: offsetof_err_def bindR_eq_Inr)
  then have "gendisk_to_dev env g = Inr (ptr_add b (int off))"
    using t(4-6) by (simp add: gendisk_to_dev_def struct_has_member_def resolve_type_def member_at_def
        offsetof_err_def offsetof_def offsetof_pointer)
  moreover have "dev_to_gendisk env (ptr_add b (int off)) = Inr (GendiskPtr g)"
    using t container_of_ptr_add [OF t(5, 7, 8)]
    by (simp add: dev_to_gendisk_def dev_to_bdev_def container_of_def [of _ t])
  ultimately show ?thesis by blast
qed

text \<open>
  A disk and its device convert into each other in both layouts, and the device leads to the name of the disk: the
  fallback for the newer layout is taken exactly when the older path does not exist.
\<close>

theorem gendisk_device_roundtrip:
  assumes "embedded_part0 env g \<or> pointed_part0 env g" and "0 \<le> g" and "g < 2 ^ 64"
  shows "\<exists>dev v. gendisk_to_dev env g = Inr dev \<and> dev_to_gendisk env dev = Inr v \<and>
    v \<in> {Gendisk g, GendiskPtr g} \<and> gendisk_name env v = disk_name env g"
  using assms embedded_roundtrip [of env g] pointed_roundtrip [of env g] by fastforce

definition ex_gendisk_type :: gtype where
  "ex_gendisk_type = GType CODE_STRUCT 64 ''gendisk'' None [GField (Some ''part0'') 64
     (GType CODE_PTR 8 [] (Some (GType CODE_STRUCT 32 ''block_device'' None [])) [])]"

definition ex_bdev_type :: gtype where
  "ex_bdev_type = GType CODE_STRUCT 32 ''block_device'' None [GField (Some ''bd_disk'') 0 ex_int,
     GField (Some ''bd_device'') 128 ex_int]"

definition ex_blk_env :: blk_env where
  "ex_blk_env = \<lparr>gendisk_type = Inr ex_gendisk_type, hd_struct_type = Inl DelayedAttributeError,
     block_device_type = Inr ex_bdev_type, bdev_inode_type = Inl DelayedAttributeError, disk_type_address = 7, part_type_address = 8,
     blockdev_superblock = 9, bd_disk = \<lambda>b. Inr 4096, part0 = \<lambda>g. Inr (gt_pointer ex_bdev_type, 8192),
     dev_parent = \<lambda>d. Inl GdbMemoryError, disk_name = \<lambda>d. Inr ''sda'', partno = \<lambda>p. Inr 0,
     bdev_inode_bdev = \<lambda>i. Inl GdbMemoryError, i_sb = \<lambda>i. Inr 0, s_bdev = \<lambda>s. Inr 0\<rparr>"

theorem gendisk_device_roundtrip_witness:
  "\<exists>dev v. gendisk_to_dev ex_blk_env 4096 = Inr dev \<and> dev_to_gendisk ex_blk_env dev = Inr v \<and>
    v \<in> {Gendisk 4096, GendiskPtr 4096} \<and> gendisk_name ex_blk_env v = disk_name ex_blk_env 4096"
proof -
  have "offsetof_err ex_gendisk_type ''part0.__dev'' = Inl InvalidComponentError" "gt_code ex_bdev_type = CODE_STRUCT"
      "offsetof_err ex_bdev_type ''bd_device'' = Inr 16"
    by code_simp+
  then have "pointed_part0 ex_blk_env 4096" by (simp add: pointed_part0_def ex_blk_env_def)
  then show ?thesis by (intro gendisk_device_roundtrip) simp_all
qed

section \<open>The requests of a multiqueue queue\<close>

text \<open>The tags a bitmap marks as used.\<close>

definition sb_tags :: "sbitmap \<Rightarrow> int list" where
  "sb_tags sb = map int (filter (sb_bit sb) [0..<nat (sb_depth sb)])"

text \<open>The requests of a hardware context, as a list: those of the used tags that belong to the queue.\<close>

definition queue_requests :: "rq_env \<Rightarrow> request_queue \<Rightarrow> blk_tags \<Rightarrow> int list \<Rightarrow> addr list" where
  "queue_requests env q tags ts =
     filter (\<lambda>a. a \<noteq> 0 \<and> (case re_request env a of Inr rq \<Rightarrow> rq_q rq = q_address q | Inl e \<Rightarrow> False))
       (map (\<lambda>t. case rqs tags t of Inr a \<Rightarrow> a | Inl e \<Rightarrow> 0) ts)"

definition tags_in_use :: "bool \<Rightarrow> blk_tags \<Rightarrow> int list" where
  "tags_in_use reserved tags = (if reserved \<and> 0 < nr_reserved_tags tags then sb_tags (breserved_tags tags) else []) @
     map (\<lambda>t. t + nr_reserved_tags tags) (sb_tags (bitmap_tags tags))"

definition hctx_list :: "rq_env \<Rightarrow> request_queue \<Rightarrow> bool \<Rightarrow> blk_hctx \<Rightarrow> addr list" where
  "hctx_list env q reserved h = (case hctx_tags h of
       None \<Rightarrow> []
     | Some tags \<Rightarrow> if nr_ctx h = 0 then [] else queue_requests env q tags (tags_in_use reserved tags))"

text \<open>A context whose bitmaps have the kernel's layout and whose requests can be read.\<close>

definition hctx_ok :: "rq_env \<Rightarrow> blk_hctx \<Rightarrow> bool" where
  "hctx_ok env h \<longleftrightarrow> (case hctx_tags h of
       None \<Rightarrow> True
     | Some tags \<Rightarrow> sb_layout (breserved_tags tags) \<and> sb_layout (bitmap_tags tags) \<and>
         list_all (\<lambda>t. case rqs tags t of Inl e \<Rightarrow> False | Inr a \<Rightarrow> a = 0 \<or> (case re_request env a of Inl e \<Rightarrow> False | Inr rq \<Rightarrow> True))
           (tags_in_use True tags))"

lemma tag_requests_list:
  assumes "\<forall>t \<in> set ts. case rqs tags t of Inl e \<Rightarrow> False | Inr a \<Rightarrow> a = 0 \<or> (case re_request env a of Inl e \<Rightarrow> False | Inr rq \<Rightarrow> True)"
  shows "gen_for ts (tag_request env q tags) = gen_of_list (queue_requests env q tags ts)"
  using assms
proof (induction ts)
  case (Cons t ts)
  then show ?case
    by (auto simp: tag_request_def queue_requests_def gen_simps split: sum.splits)
qed (simp add: queue_requests_def gen_simps)

lemma gen_for_map: "gen_for (map f xs) h = gen_for xs (\<lambda>x. h (f x))"
  by (induction xs) simp_all

lemma queue_requests_append:
  "queue_requests env q tags [] = []"
  "queue_requests env q tags (ts @ us) = queue_requests env q tags ts @ queue_requests env q tags us"
  by (simp_all add: queue_requests_def)

lemma hctx_requests_list:
  assumes "hctx_ok env h"
  shows "hctx_requests env q reserved h = gen_of_list (hctx_list env q reserved h)"
proof (cases "hctx_tags h")
  case (Some tags)
  let ?rs = "sb_tags (breserved_tags tags)" and ?ts = "sb_tags (bitmap_tags tags)"
  let ?ok = "\<lambda>t. case rqs tags t of Inl e \<Rightarrow> False | Inr a \<Rightarrow> a = 0 \<or> (case re_request env a of Inl e \<Rightarrow> False | Inr rq \<Rightarrow> True)"
  have lay: "sb_layout (breserved_tags tags)" "sb_layout (bitmap_tags tags)"
    and ok: "list_all ?ok (tags_in_use True tags)"
    using assms Some by (simp_all add: hctx_ok_def)
  have norm: "gen_bind (sbitmap_for_each_set (bitmap_tags tags)) (\<lambda>tag. tag_request env q tags (tag + nr_reserved_tags tags)) =
      gen_of_list (queue_requests env q tags (map (\<lambda>t. t + nr_reserved_tags tags) ?ts))"
    using sbitmap_layout_tags [OF lay(2)] ok tag_requests_list [of "map (\<lambda>t. t + nr_reserved_tags tags) ?ts" env tags q]
    by (simp add: gen_bind_of_list sb_tags_def [symmetric] gen_for_map tags_in_use_def list_all_iff)
  have res: "gen_bind (sbitmap_for_each_set (breserved_tags tags)) (tag_request env q tags) =
      gen_of_list (queue_requests env q tags ?rs)" if "0 < nr_reserved_tags tags"
    using sbitmap_layout_tags [OF lay(1)] ok that tag_requests_list [of ?rs env tags q]
    by (simp add: gen_bind_of_list sb_tags_def [symmetric] tags_in_use_def list_all_iff)
  show ?thesis
    using Some norm res
    by (auto simp: hctx_requests_def hctx_list_def tags_in_use_def queue_requests_append gen_simps)
qed (simp add: hctx_requests_def hctx_list_def gen_simps)

text \<open>
  C29: Iterating a multiqueue queue yields the requests of all used tags, reserved ones first where asked for, that belong to
  the queue, context by context in the order of the tags, and ends without an exception.
\<close>

theorem mq_requests_of_tags:
  assumes "q_address q \<noteq> 0" and "queue_is_mq q = Inr True"
    and "\<forall>i \<in> {0..<nr_hw_queues q}. queue_hw_ctx q i = Inr (hctx i) \<and> hctx_ok env (hctx i)"
  shows "mq_for_each_request_in_queue env q reserved =
    gen_of_list (concat (map (\<lambda>i. hctx_list env q reserved (hctx i)) [0..nr_hw_queues q - 1]))"
proof -
  have "gen_for [0..nr_hw_queues q - 1] (\<lambda>i. gen_of_res (queue_hw_ctx q i)) =
      gen_of_list (concat (map (\<lambda>i. [hctx i]) [0..nr_hw_queues q - 1]))"
    using assms(3) by (intro gen_for_of_list) auto
  then have "mq_queue_for_each_hw_ctx q = gen_of_list (map hctx [0..nr_hw_queues q - 1])"
    using assms(2) by (simp add: mq_queue_for_each_hw_ctx_def mq_check_queue_type_def)
  moreover have "gen_for [0..nr_hw_queues q - 1] (\<lambda>i. hctx_requests env q reserved (hctx i)) =
      gen_of_list (concat (map (\<lambda>i. hctx_list env q reserved (hctx i)) [0..nr_hw_queues q - 1]))"
    using assms(3) hctx_requests_list by (intro gen_for_of_list) auto
  ultimately show ?thesis
    using assms(1, 2)
    by (simp add: mq_for_each_request_in_queue_def mq_check_queue_type_def gen_bind_of_list gen_for_map)
qed

definition ex_request :: request where
  "ex_request = \<lparr>rq_q = 64, start_time = 0, cmd_flags = 1, rq_state = 0, atomic_flags = 0\<rparr>"

definition ex_rq_env :: rq_env where
  "ex_rq_env = \<lparr>re_request = \<lambda>a. Inr (if a = 1003 then ex_request\<lparr>rq_q := 65\<rparr> else ex_request), re_globals = blk_globals_init,
     re_ne_idle = \<lambda>s. Inr (s \<noteq> 0), re_atom_started = Inr 0, re_request_type = Inl DelayedAttributeError, re_mem = \<lambda>a l. None\<rparr>"

definition ex_hctx :: blk_hctx where
  "ex_hctx = \<lparr>nr_ctx = 1, hctx_tags = Some \<lparr>nr_reserved_tags = 0, breserved_tags = example_sbitmap,
     bitmap_tags = example_sbitmap, rqs = \<lambda>t. Inr (1000 + t)\<rparr>\<rparr>"

definition ex_queue :: request_queue where
  "ex_queue = \<lparr>q_address = 64, q_type = GType CODE_STRUCT 8 ''request_queue'' None [GField (Some ''mq_ops'') 0 ex_int],
     mq_ops = 1, nr_hw_queues = 1, queue_hw_ctx = \<lambda>i. Inr ex_hctx, queue_head = 0, q_in_flight = (0, 0), rq_count = (0, 0),
     root_rl_count = (0, 0)\<rparr>"

theorem mq_requests_of_tags_witness:
  "mq_for_each_request_in_queue ex_rq_env ex_queue True = gen_of_list [1000, 1005]"
proof -
  have "queue_is_mq ex_queue = Inr True" "q_address ex_queue \<noteq> 0" "hctx_ok ex_rq_env ex_hctx"
      "concat (map (\<lambda>i. hctx_list ex_rq_env ex_queue True ex_hctx) [0..nr_hw_queues ex_queue - 1]) = [1000, 1005]"
    by code_simp+
  then show ?thesis
    using mq_requests_of_tags [of ex_queue "\<lambda>i. ex_hctx" ex_rq_env True] by (simp add: ex_queue_def)
qed

section \<open>Statistics\<close>

lemma foldR_stats:
  assumes "foldR (\<lambda>a (c, d). bindR (sy a) (\<lambda>s.
      let c' = count_sync s c
      in bindR (fl a) (\<lambda>b. if b then bindR (sy a) (\<lambda>s'. Inr (c', count_sync s' d)) else Inr (c', d)))) xs (c, d) = Inr (c1, d1)"
  shows "foldR (\<lambda>a c. bindR (sy a) (\<lambda>s. Inr (count_sync s c))) xs c = Inr c1 \<and>
    foldR (\<lambda>a c. bindR (fl a) (\<lambda>b. if b then bindR (sy a) (\<lambda>s. Inr (count_sync s c)) else Inr c)) xs d = Inr d1 \<and>
    fst d1 - fst d \<le> fst c1 - fst c \<and> snd d1 - snd d \<le> snd c1 - snd c"
  using assms
proof (induction xs arbitrary: c d)
  case (Cons a xs)
  obtain s b where sb: "sy a = Inr s" "fl a = Inr b"
    using Cons.prems by (auto simp: bindR_eq_Inr Let_def)
  let ?d = "if b then count_sync s d else d"
  have "foldR (\<lambda>a (c, d). bindR (sy a) (\<lambda>s.
      let c' = count_sync s c
      in bindR (fl a) (\<lambda>b. if b then bindR (sy a) (\<lambda>s'. Inr (c', count_sync s' d)) else Inr (c', d)))) xs
      (count_sync s c, ?d) = Inr (c1, d1)"
    using Cons.prems sb by (cases b) (simp_all add: Let_def)
  from Cons.IH [OF this] show ?case using sb by (cases b; cases s) (simp_all add: count_sync_def)
qed simp

text \<open>
  \<open>mq_queue_request_stats\<close> is the pair of \<open>mq_requests_queued\<close> and \<open>mq_requests_in_flight\<close>, computed in one pass,
  and of either direction no more requests are in flight than are queued.
\<close>

theorem mq_stats_consistent:
  assumes "mq_queue_request_stats env q = Inr (c, d)"
  shows "mq_requests_queued env q = Inr c \<and> mq_requests_in_flight env q = Inr d \<and>
    fst d \<le> fst c \<and> snd d \<le> snd c"
proof -
  let ?g = "mq_for_each_request_in_queue env q True"
  have chk: "mq_check_queue_type q = Inr ()" and e: "snd ?g = None"
    and f: "foldR (\<lambda>a (c, d). bindR (env_sync env a) (\<lambda>s.
        let c' = count_sync s c
        in bindR (env_in_flight env a) (\<lambda>b. if b then bindR (env_sync env a) (\<lambda>s'. Inr (c', count_sync s' d)) else Inr (c', d))))
      (fst ?g) ((0, 0), (0, 0)) = Inr (c, d)"
    using assms by (auto simp: mq_queue_request_stats_def gen_fold_def bindR_eq_Inr split: option.splits)
  show ?thesis
    using foldR_stats [OF f] chk e by (simp add: mq_requests_queued_def mq_requests_in_flight_def gen_fold_def)
qed

definition ex_stats_env :: rq_env where
  "ex_stats_env = ex_rq_env\<lparr>re_globals := \<lparr>req_flags = [''REQ_SYNC'' \<mapsto> 8, ''REQ_FUA'' \<mapsto> 16, ''REQ_PREFLUSH'' \<mapsto> 0],
     rq_in_flight_impl = Some RqState\<rparr>, re_request := \<lambda>a. Inr (ex_request\<lparr>rq_state := a - 1000, cmd_flags := 2 * a - 1999\<rparr>)\<rparr>"

theorem mq_stats_consistent_witness:
  "mq_requests_queued ex_stats_env ex_queue = Inr (2, 1) \<and> mq_requests_in_flight ex_stats_env ex_queue = Inr (1, 1) \<and>
    fst (1::int, 1::int) \<le> fst (2::int, 1::int) \<and> snd (1::int, 1::int) \<le> snd (2::int, 1::int)"
proof -
  have "mq_queue_request_stats ex_stats_env ex_queue = Inr ((2, 1), (1, 1))" by code_simp
  then show ?thesis by (rule mq_stats_consistent)
qed

section \<open>Synchronous requests\<close>

lemma export_flags_map:
  "foldl (\<lambda>f (name, v). f(drop 2 name \<mapsto> push_bit v 1)) f items =
     f ++ map_of (rev (map (\<lambda>(name, v). (drop 2 name, push_bit v (1::int))) items))"
  by (induction items arbitrary: f) (auto simp: map_add_assoc)

lemma export_flag:
  assumes "distinct (map (\<lambda>i. drop 2 (fst i)) items)"
  shows "(''__'' @ n, v) \<in> set items \<Longrightarrow> req_flags (export_req_flags items blk_globals_init) n = Some (push_bit v 1)"
    and "\<forall>(name, v) \<in> set items. take 2 name = ''__'' \<Longrightarrow> \<forall>v. (''__'' @ n, v) \<notin> set items \<Longrightarrow>
      req_flags (export_req_flags items blk_globals_init) n = (if n \<in> {''REQ_PREFLUSH'', ''REQ_FLUSH''} then Some 0 else None)"
proof -
  let ?l = "rev (map (\<lambda>(name, v). (drop 2 name, push_bit v (1::int))) items)"
  have d: "distinct (map fst ?l)" using assms by (simp add: rev_map [symmetric] comp_def case_prod_beta)
  have r: "req_flags (export_req_flags items blk_globals_init) n =
      (case map_of ?l n of None \<Rightarrow> if n \<in> {''REQ_PREFLUSH'', ''REQ_FLUSH''} then Some 0 else None | Some x \<Rightarrow> Some x)"
    unfolding export_req_flags_def export_flags_map blk_globals_init_def Let_def
    by (simp only: foldl.simps blk_globals.simps empty_map_add) (simp split: option.splits)
  show "req_flags (export_req_flags items blk_globals_init) n = Some (push_bit v 1)" if "(''__'' @ n, v) \<in> set items"
  proof -
    have "(n, push_bit v 1) \<in> set ?l" using that by force
    then have "map_of ?l n = Some (push_bit v 1)" using d by (simp add: map_of_eq_Some_iff)
    then show ?thesis by (simp add: r)
  qed
  show "req_flags (export_req_flags items blk_globals_init) n = (if n \<in> {''REQ_PREFLUSH'', ''REQ_FLUSH''} then Some 0 else None)"
    if a: "\<forall>(name, v) \<in> set items. take 2 name = ''__''" and b: "\<forall>v. (''__'' @ n, v) \<notin> set items"
  proof -
    have "n \<notin> fst ` set ?l"
    proof
      assume "n \<in> fst ` set ?l"
      then obtain name v where m: "(name, v) \<in> set items" "drop 2 name = n" by auto
      then have "name = ''__'' @ n" using a append_take_drop_id [of 2 name] by fastforce
      then show False using m b by blast
    qed
    then have "map_of ?l n = None" by (rule map_of_eq_None_iff [THEN iffD2])
    then show ?thesis by (simp add: r)
  qed
qed

lemma and_or_exp: "(c::int) AND (x OR y) \<noteq> 0 \<longleftrightarrow> c AND x \<noteq> 0 \<or> c AND y \<noteq> 0"
  by (simp add: bit.conj_disj_distrib or_eq_0_iff)

lemma and_push_bit_1: "(c::int) AND push_bit v 1 \<noteq> 0 \<longleftrightarrow> bit c v"
  by (simp add: push_bit_eq_mult and_exp_eq_0_iff_not_bit)

text \<open>
  With the flags exported from the kernel's enumeration a request is synchronous exactly when it is a read or has one of
  the flags \<open>REQ_SYNC\<close>, \<open>REQ_FUA\<close> and, on kernels that have it, \<open>REQ_PREFLUSH\<close>.
\<close>

theorem rq_is_sync_flags:
  assumes "distinct (map (\<lambda>i. drop 2 (fst i)) items)" and "\<forall>(name, v) \<in> set items. take 2 name = ''__''"
    and "(''__REQ_SYNC'', s) \<in> set items" and "(''__REQ_FUA'', f) \<in> set items"
  shows "rq_is_sync (export_req_flags items blk_globals_init) rq =
    Inr (\<not> bit (cmd_flags rq) 0 \<or> bit (cmd_flags rq) s \<or> bit (cmd_flags rq) f \<or>
      (\<exists>p. (''__REQ_PREFLUSH'', p) \<in> set items \<and> bit (cmd_flags rq) p))"
proof -
  let ?g = "export_req_flags items blk_globals_init" and ?c = "cmd_flags rq"
  have sf: "global ?g ''REQ_SYNC'' = Inr (push_bit s 1)" "global ?g ''REQ_FUA'' = Inr (push_bit f 1)"
    using export_flag(1) [OF assms(1), of "''REQ_SYNC''" s] export_flag(1) [OF assms(1), of "''REQ_FUA''" f] assms(3, 4)
    by (simp_all add: global_def)
  have pf: "\<exists>x. global ?g ''REQ_PREFLUSH'' = Inr x \<and> (?c AND x \<noteq> 0 \<longleftrightarrow> (\<exists>p. (''__REQ_PREFLUSH'', p) \<in> set items \<and> bit ?c p))"
  proof (cases "\<exists>p. (''__REQ_PREFLUSH'', p) \<in> set items")
    case True
    then obtain p where p: "(''__REQ_PREFLUSH'', p) \<in> set items" by blast
    have u: "p' = p" if q: "(''__REQ_PREFLUSH'', p') \<in> set items" for p'
    proof -
      have "push_bit p' (1::int) = push_bit p 1"
        using export_flag(1) [OF assms(1), of "''REQ_PREFLUSH''" p] export_flag(1) [OF assms(1), of "''REQ_PREFLUSH''" p'] p q
        by simp
      then show ?thesis by (simp add: push_bit_eq_mult)
    qed
    have "global ?g ''REQ_PREFLUSH'' = Inr (push_bit p 1)"
      using export_flag(1) [OF assms(1), of "''REQ_PREFLUSH''" p] p by (simp add: global_def)
    moreover have "(\<exists>p. (''__REQ_PREFLUSH'', p) \<in> set items \<and> bit ?c p) \<longleftrightarrow> bit ?c p" using p u by blast
    ultimately show ?thesis by (simp only: and_push_bit_1 sum.inject ex_simps simp_thms)
  next
    case False
    then show ?thesis using export_flag(2) [OF assms(1, 2), of "''REQ_PREFLUSH''"] by (simp add: global_def)
  qed
  have "?c AND 1 = 0 \<longleftrightarrow> \<not> bit ?c 0" by (simp add: and_one_eq odd_iff_mod_2_eq_one bit_0 even_iff_mod_2_eq_zero)
  moreover obtain x where "global ?g ''REQ_PREFLUSH'' = Inr x"
      "?c AND x \<noteq> 0 \<longleftrightarrow> (\<exists>p. (''__REQ_PREFLUSH'', p) \<in> set items \<and> bit ?c p)"
    using pf by blast
  ultimately show ?thesis using sf by (simp only: rq_is_sync_def bindR.simps and_or_exp and_push_bit_1) simp
qed

theorem rq_is_sync_flags_witness:
  "rq_is_sync (export_req_flags [(''__REQ_SYNC'', 3), (''__REQ_FUA'', 4)] blk_globals_init) (ex_request\<lparr>cmd_flags := 9\<rparr>) =
    Inr (\<not> bit (9::int) 0 \<or> bit (9::int) 3 \<or> bit (9::int) 4 \<or>
      (\<exists>p. (''__REQ_PREFLUSH'', p) \<in> set [(''__REQ_SYNC'', 3), (''__REQ_FUA'', 4)] \<and> bit (9::int) p))"
  using rq_is_sync_flags [of "[(''__REQ_SYNC'', 3), (''__REQ_FUA'', 4)]" 3 4 "ex_request\<lparr>cmd_flags := 9\<rparr>"] by simp

end
