(* ===== verification/Decoders.thy ===== *)
theory Decoders
  imports Storage
begin

text \<open>
  The decoders that unwind the storage stack: \<^verbatim>\<open>crash/subsystem/storage/decoders.py\<close>, \<^verbatim>\<open>device_mapper.py\<close>,
  \<^verbatim>\<open>crash/subsystem/filesystem/decoders.py\<close>, \<^verbatim>\<open>ext3.py\<close> and the decoders of \<^verbatim>\<open>xfs.py\<close>.

  A decoder is its class and the object it decodes.  Attributes that \<open>interpret\<close> computes are computed where they are
  used: what it reads does not change, so that keeping the first result is not visible.
\<close>

section \<open>Classes and the registry\<close>

datatype decoder_class = BadBHDecoder | GenericBHDecoder | BadBioDecoder | GenericBioDecoder
  | DIOBioDecoder | DecodeMPage | DecodeBioBH | DecodeSyncWBBH | Ext3Decoder
  | ClonedBioReqDecoder | ClonedBioDecoder | XFSBufBioDecoder | XFSBufDecoder

text \<open>A pointer to a \<open>struct bio\<close>, a \<open>struct buffer_head\<close> or a \<open>struct xfs_buf\<close>.\<close>

datatype io_object = Bio addr | BH addr | XfsBuf addr

datatype decoder = Decoder (d_class: decoder_class) (d_object: io_object)

text \<open>
  The specification of a completion function: a name, a list of names, a symbol (with the address of its value, or the
  exception reading it raises), a value (with its address) or a number.
\<close>

datatype endio = EndStr string | EndList "string list" | EndSymbol "int res" | EndValue int | EndInt int

text \<open>
  \<open>_decoders\<close>, and the symbol callbacks that are still pending, in the order in which they were created.
\<close>

record registry =
  decoders :: "int \<Rightarrow> decoder_class option"
  pending :: "(string \<times> decoder_class) list"

definition registry_init :: registry where
  "registry_init = \<lparr>decoders = (\<lambda>_. None), pending = []\<rparr>"

definition register_decoder :: "endio \<Rightarrow> decoder_class \<Rightarrow> registry \<Rightarrow> registry res" where
  "register_decoder e cls r = (case e of
       EndStr s \<Rightarrow> Inr (r\<lparr>pending := pending r @ [(s, cls)]\<rparr>)
     | EndList ss \<Rightarrow> if ss = [] then Inl IndexError else Inr (r\<lparr>pending := pending r @ map (\<lambda>s. (s, cls)) ss\<rparr>)
     | EndSymbol v \<Rightarrow> bindR v (\<lambda>a. Inr (r\<lparr>decoders := (decoders r)(a \<mapsto> cls)\<rparr>))
     | EndValue a \<Rightarrow> Inr (r\<lparr>decoders := (decoders r)(a \<mapsto> cls)\<rparr>)
     | EndInt a \<Rightarrow> Inr (r\<lparr>decoders := (decoders r)(a \<mapsto> cls)\<rparr>))"

text \<open>\<open>__endio__\<close> of the classes that are registered when their modules are imported.\<close>

fun class_endio :: "decoder_class \<Rightarrow> endio option" where
  "class_endio DIOBioDecoder = Some (EndList [''dio_bio_end_io'', ''dio_bio_end_io''])"
| "class_endio DecodeMPage = Some (EndStr ''mpage_end_io'')"
| "class_endio DecodeBioBH = Some (EndStr ''end_bio_bh_io_sync'')"
| "class_endio DecodeSyncWBBH = Some (EndStr ''end_buffer_write_sync'')"
| "class_endio Ext3Decoder = Some (EndStr ''journal_end_buffer_io_sync'')"
| "class_endio ClonedBioReqDecoder = Some (EndStr ''end_clone_bio'')"
| "class_endio ClonedBioDecoder = Some (EndStr ''clone_endio'')"
| "class_endio XFSBufBioDecoder = Some (EndStr ''xfs_buf_bio_end_io'')"
| "class_endio _ = None"

definition register :: "decoder_class \<Rightarrow> registry \<Rightarrow> registry res" where
  "register cls r = bindR (of_option AttributeError (class_endio cls)) (\<lambda>e. register_decoder e cls r)"

text \<open>The pending callbacks of a symbol run, in order, once the symbol is found.\<close>

definition symbol_found :: "string \<Rightarrow> int \<Rightarrow> registry \<Rightarrow> registry" where
  "symbol_found s a r = foldl (\<lambda>r cls. case register_decoder (EndSymbol (Inr a)) cls r of Inr r' \<Rightarrow> r' | Inl e \<Rightarrow> r)
     (r\<lparr>pending := filter (\<lambda>(n, c). n \<noteq> s) (pending r)\<rparr>) (map snd (filter (\<lambda>(n, c). n = s) (pending r)))"

section \<open>Reading the target\<close>

record io_env =
  io_blk :: blk_env
  io_limit :: nat  \<comment> \<open>the recursion limit of Python\<close>
  bi_end_io :: "addr \<Rightarrow> int res"
  bi_end_io_str :: "addr \<Rightarrow> string res"
  bi_private :: "addr \<Rightarrow> addr res"
  bi_bdev :: "addr \<Rightarrow> addr res"
  bi_sector :: "addr \<Rightarrow> int res"
  b_end_io :: "addr \<Rightarrow> int res"
  b_bdev :: "addr \<Rightarrow> addr res"
  b_blocknr :: "addr \<Rightarrow> int res"
  b_size :: "addr \<Rightarrow> int res"
  dio_inode :: "addr \<Rightarrow> addr res"
  mpage_inode :: "addr \<Rightarrow> addr res"
  i_ino :: "addr \<Rightarrow> int res"
  sb_fstype :: "addr \<Rightarrow> string res"
  clone_info_orig :: "addr \<Rightarrow> addr res"
  xfsbuf_str :: "addr \<Rightarrow> string res"

text \<open>The members of a \<open>struct bio\<close>; on another structure the subscript raises \<^verbatim>\<open>gdb.error\<close>.\<close>

fun bio_field :: "(addr \<Rightarrow> 'a res) \<Rightarrow> io_object \<Rightarrow> 'a res" where
  "bio_field f (Bio a) = f a"
| "bio_field f _ = Inl GdbError"

fun bh_field :: "(addr \<Rightarrow> 'a res) \<Rightarrow> io_object \<Rightarrow> 'a res" where
  "bh_field f (BH a) = f a"
| "bh_field f _ = Inl GdbError"

section \<open>Cloned bios of the device mapper\<close>

text \<open>
  The classes only annotate \<open>_get_clone_bio_rq_info\<close> and \<open>_get_clone_bio_tio\<close>; they have no such attributes.  So the
  constructor's \<open>is None\<close> goes through \<open>__getattr__\<close>, which calls \<open>interpret\<close>, which reads the attribute again.  The
  first argument is the depth that is left for Python's stack.
\<close>

definition clone_getter :: "(addr \<Rightarrow> addr res) option" where
  "clone_getter = None"

fun clone_getattr :: "nat \<Rightarrow> (addr \<Rightarrow> addr res) option \<Rightarrow> io_object \<Rightarrow> (addr \<Rightarrow> addr res) res"
  and clone_interpret :: "nat \<Rightarrow> (addr \<Rightarrow> addr res) option \<Rightarrow> io_object \<Rightarrow> addr res" where
  "clone_getattr 0 attr io = Inl RecursionError"
| "clone_getattr (Suc n) attr io = (case attr of
       Some g \<Rightarrow> Inr g
     | None \<Rightarrow> bindR (clone_interpret n attr io) (\<lambda>_. Inl AttributeError))"
| "clone_interpret 0 attr io = Inl RecursionError"
| "clone_interpret (Suc n) attr io = bindR (clone_getattr n attr io) (\<lambda>g. bio_field g io)"

section \<open>Decoding\<close>

text \<open>\<open>cls(obj)\<close>: only the constructors of the cloned bios do more than store the object.\<close>

definition construct :: "io_env \<Rightarrow> decoder_class \<Rightarrow> io_object \<Rightarrow> decoder res" where
  "construct env cls ob =
     (if cls = ClonedBioReqDecoder \<or> cls = ClonedBioDecoder
      then bindR (clone_getattr (io_limit env) clone_getter ob) (\<lambda>_. Inr (Decoder cls ob))
      else Inr (Decoder cls ob))"

definition decode_object ::
  "io_env \<Rightarrow> registry \<Rightarrow> int res \<Rightarrow> decoder_class \<Rightarrow> decoder_class \<Rightarrow> io_object \<Rightarrow> decoder res" where
  "decode_object env r end_io generic bad ob =
     (case bindR end_io (\<lambda>f. bindR (of_option KeyError (decoders r f)) (\<lambda>cls. construct env cls ob)) of
        Inr d \<Rightarrow> Inr d
      | Inl e \<Rightarrow> if catches KeyError e then Inr (Decoder generic ob)
                 else if catches GdbNotAvailableError e then Inr (Decoder bad ob) else Inl e)"

definition decode_bio :: "io_env \<Rightarrow> registry \<Rightarrow> io_object \<Rightarrow> decoder res" where
  "decode_bio env r bio = decode_object env r (bio_field (bi_end_io env) bio) GenericBioDecoder BadBioDecoder bio"

definition decode_bh :: "io_env \<Rightarrow> registry \<Rightarrow> io_object \<Rightarrow> decoder res" where
  "decode_bh env r bh = decode_object env r (bh_field (b_end_io env) bh) GenericBHDecoder BadBHDecoder bh"

text \<open>\<open>next(decoder)\<close>\<close>

definition decoder_next :: "io_env \<Rightarrow> registry \<Rightarrow> decoder \<Rightarrow> decoder option res" where
  "decoder_next env r d = (case d_class d of
       DecodeBioBH \<Rightarrow> bindR (bio_field (bi_private env) (d_object d)) (\<lambda>bh. bindR (decode_bh env r (BH bh)) (\<lambda>x. Inr (Some x)))
     | XFSBufBioDecoder \<Rightarrow> bindR (bio_field (bi_private env) (d_object d)) (\<lambda>x.
         bindR (bio_field (bi_bdev env) (d_object d)) (\<lambda>b. bindR (block_device_name (io_blk env) b) (\<lambda>_.
           Inr (Some (Decoder XFSBufDecoder (XfsBuf x))))))
     | ClonedBioReqDecoder \<Rightarrow> bindR (clone_interpret (io_limit env) clone_getter (d_object d)) (\<lambda>info.
         bindR (clone_info_orig env info) (\<lambda>orig. bindR (decode_bio env r (Bio orig)) (\<lambda>x. Inr (Some x))))
     | ClonedBioDecoder \<Rightarrow> bindR (clone_interpret (io_limit env) clone_getter (d_object d)) (\<lambda>tio.
         bindR (clone_info_orig env tio) (\<lambda>nxt. bindR (decode_bio env r (Bio nxt)) (\<lambda>x. Inr (Some x))))
     | _ \<Rightarrow> Inr None)"

definition stack_step :: "io_env \<Rightarrow> registry \<Rightarrow> decoder \<Rightarrow> (decoder, decoder) step" where
  "stack_step env r d = (case decoder_next env r d of
       Inr None \<Rightarrow> Stop [d] None
     | Inr (Some d') \<Rightarrow> Next [d] d'
     | Inl e \<Rightarrow> Stop [d] (if catches StopIteration e then None else Some e))"

definition for_each_bio_in_stack :: "io_env \<Rightarrow> registry \<Rightarrow> io_object \<Rightarrow> decoder gen option" where
  "for_each_bio_in_stack env r bio = (case decode_bio env r bio of
       Inl e \<Rightarrow> Some (gen_raise e)
     | Inr d \<Rightarrow> gen_while (stack_step env r) d)"

section \<open>Descriptions\<close>

fun object_address :: "io_object \<Rightarrow> addr" where
  "object_address (Bio a) = a"
| "object_address (BH a) = a"
| "object_address (XfsBuf a) = a"

definition dev_name :: "io_env \<Rightarrow> addr res \<Rightarrow> string res" where
  "dev_name env bdev = bindR bdev (block_device_name (io_blk env))"

definition inode_fstype :: "io_env \<Rightarrow> addr \<Rightarrow> string res" where
  "inode_fstype env inode = bindR (i_sb (io_blk env) inode) (sb_fstype env)"

text \<open>
  \<open>str(decoder)\<close>.  \<open>DecodeSyncWBBH\<close> formats the name of the device with \<open>{:x}\<close>, and \<open>XFSBufBioDecoder\<close> a
  \<^verbatim>\<open>gdb.Value\<close>, which has no \<open>__format__\<close> of its own.
\<close>

definition decoder_str :: "io_env \<Rightarrow> decoder \<Rightarrow> string res" where
  "decoder_str env d =
     (let ob = d_object d; x = py_hex (nat (object_address ob)) in case d_class d of
       BadBHDecoder \<Rightarrow> Inr (x @ '' bh: invalid buffer_head'')
     | BadBioDecoder \<Rightarrow> Inr (x @ '' bio: invalid bio'')
     | GenericBHDecoder \<Rightarrow> bindR (dev_name env (bh_field (b_bdev env) ob)) (\<lambda>dev.
         bindR (bh_field (b_blocknr env) ob) (\<lambda>n. bindR (bh_field (b_size env) ob) (\<lambda>s.
           Inr (x @ '' buffer_head: for dev '' @ dev @ '', block '' @ py_dec n @ '', size '' @ py_dec s @ '' (undecoded)''))))
     | GenericBioDecoder \<Rightarrow> bindR (dev_name env (bio_field (bi_bdev env) ob)) (\<lambda>dev.
         bindR (bio_field (bi_end_io_str env) ob) (\<lambda>f. Inr (x @ '' bio: undecoded bio on '' @ dev @ '' ('' @ f @ '')'')))
     | DIOBioDecoder \<Rightarrow> bindR (bio_field (bi_private env) ob) (\<lambda>dio. bindR (dio_inode env dio) (\<lambda>i.
         bindR (inode_fstype env i) (\<lambda>fs. bindR (i_sb (io_blk env) i) (\<lambda>sb. bindR (dev_name env (s_bdev (io_blk env) sb)) (\<lambda>dev.
         bindR (i_ino env i) (\<lambda>ino. bindR (bio_field (bi_sector env) ob) (\<lambda>sec.
           Inr (x @ '' bio: Direct I/O for '' @ fs @ '' inode '' @ py_dec ino @ '', sector '' @ py_dec sec @ '' on '' @ dev))))))))
     | DecodeMPage \<Rightarrow> bindR (bio_field (mpage_inode env) ob) (\<lambda>i. bindR (inode_fstype env i) (\<lambda>fs. bindR (i_ino env i) (\<lambda>ino.
         bindR (dev_name env (bio_field (bi_bdev env) ob)) (\<lambda>dev.
           Inr (x @ '' bio: Multipage I/O: inode '' @ py_dec ino @ '', type '' @ fs @ '', dev '' @ dev)))))
     | DecodeBioBH \<Rightarrow> Inr (x @ '' bio: Bio representation of buffer head'')
     | DecodeSyncWBBH \<Rightarrow> bindR (dev_name env (bh_field (b_bdev env) ob)) (\<lambda>dev.
         bindR (bh_field (b_blocknr env) ob) (\<lambda>n. bindR (bh_field (b_size env) ob) (\<lambda>s. Inl ValueError)))
     | Ext3Decoder \<Rightarrow> bindR (dev_name env (bh_field (b_bdev env) ob)) (\<lambda>dev.
         bindR (bh_field (b_blocknr env) ob) (\<lambda>n. bindR (bh_field (b_size env) ob) (\<lambda>s.
           Inr (x @ '' buffer_head: journal on ext3 journal block (jbd) on '' @ dev))))
     | ClonedBioReqDecoder \<Rightarrow> bindR (dev_name env (bio_field (bi_bdev env) ob)) (\<lambda>dev.
         Inr (x @ '' bio: Request-based Device Mapper on '' @ dev))
     | ClonedBioDecoder \<Rightarrow> bindR (dev_name env (bio_field (bi_bdev env) ob)) (\<lambda>dev.
         bindR (bio_field (bi_sector env) ob) (\<lambda>sec.
         bindR (clone_interpret (io_limit env) clone_getter ob) (\<lambda>tio. bindR (clone_info_orig env tio) (\<lambda>nxt.
         bindR (dev_name env (bi_bdev env nxt)) (\<lambda>dev'. bindR (bi_sector env nxt) (\<lambda>sec'.
           Inr (x @ '' bio: device mapper clone: '' @ dev @ ''['' @ py_dec sec @ ''] -> '' @ dev' @ ''['' @ py_dec sec' @ '']'')))))))
     | XFSBufBioDecoder \<Rightarrow> bindR (bio_field (bi_private env) ob) (\<lambda>_.
         bindR (dev_name env (bio_field (bi_bdev env) ob)) (\<lambda>dev. Inl TypeError))
     | XFSBufDecoder \<Rightarrow> xfsbuf_str env (object_address ob))"

section \<open>The registry in use\<close>

lemma clone_recursion:
  "attr = None \<Longrightarrow> clone_getattr n attr ob = Inl RecursionError"
  "attr = None \<Longrightarrow> clone_interpret n attr ob = Inl RecursionError"
  by (induction n attr ob and n attr ob rule: clone_getattr_clone_interpret.induct) simp_all

definition is_clone :: "decoder_class \<Rightarrow> bool" where
  "is_clone cls \<longleftrightarrow> cls = ClonedBioReqDecoder \<or> cls = ClonedBioDecoder"

lemma construct_cases:
  "construct env cls ob = (if is_clone cls then Inl RecursionError else Inr (Decoder cls ob))"
  by (simp add: construct_def is_clone_def clone_getter_def clone_recursion)

fun endio_names :: "endio \<Rightarrow> string list" where
  "endio_names (EndStr s) = [s]"
| "endio_names (EndList ss) = ss"
| "endio_names _ = []"

lemma register_pending:
  assumes "class_endio cls = Some e"
  shows "register cls r = Inr (r\<lparr>pending := pending r @ map (\<lambda>s. (s, cls)) (endio_names e)\<rparr>)"
  using assms by (cases cls) (auto simp: register_def register_decoder_def)

lemma symbol_found_decoders:
  "decoders (symbol_found s a r) =
     (let ps = filter (\<lambda>(n, c). n = s) (pending r) in if ps = [] then decoders r else (decoders r)(a \<mapsto> snd (last ps)))"
proof -
  have fold: "decoders (foldl (\<lambda>r cls. case register_decoder (EndSymbol (Inr a)) cls r of Inr r' \<Rightarrow> r' | Inl e \<Rightarrow> r) r cs) =
      (if cs = [] then decoders r else (decoders r)(a \<mapsto> last cs))" for r cs
    by (induction cs arbitrary: r) (auto simp: register_decoder_def)
  show ?thesis by (simp add: symbol_found_def fold last_map Let_def)
qed


definition ex_io_env :: io_env where
  "ex_io_env = \<lparr>io_blk = ex_blk_env, io_limit = 1000, bi_end_io = \<lambda>a. Inr 77, bi_end_io_str = \<lambda>a. Inr ''f'', bi_private = \<lambda>a. Inr (a + 64),
     bi_bdev = \<lambda>a. Inr 8192, bi_sector = \<lambda>a. Inr 5, b_end_io = \<lambda>a. Inr 78, b_bdev = \<lambda>a. Inr 8192, b_blocknr = \<lambda>a. Inr 3,
     b_size = \<lambda>a. Inr 4096, dio_inode = \<lambda>a. Inr 0, mpage_inode = \<lambda>a. Inr 0, i_ino = \<lambda>a. Inr 0, sb_fstype = \<lambda>a. Inr ''ext3'',
     clone_info_orig = \<lambda>a. Inr 0, xfsbuf_str = \<lambda>a. Inr []\<rparr>"


section \<open>The stack\<close>

lemma decode_object_result:
  assumes "decode_object env r end_io generic bad ob = Inr d" and "\<not> is_clone generic" and "\<not> is_clone bad"
  shows "d_object d = ob \<and> \<not> is_clone (d_class d)"
  using assms by (auto simp: decode_object_def construct_cases bindR_eq_Inr split: sum.splits if_splits)

lemma decoder_next_bh:
  assumes "d_object d = BH a" and "\<not> is_clone (d_class d)"
  shows "\<exists>e. decoder_next env r d \<in> {Inr None, Inl e}"
  using assms by (cases "d_class d") (auto simp: decoder_next_def is_clone_def)

lemma decoder_next_result:
  assumes "decoder_next env r d = Inr (Some d')" and "\<not> is_clone (d_class d)"
  shows "(\<exists>a. d_object d' = BH a \<and> \<not> is_clone (d_class d')) \<or> d_class d' = XFSBufDecoder"
  using assms decode_object_result [of env r _ GenericBHDecoder BadBHDecoder]
  by (cases "d_class d") (fastforce simp: decoder_next_def decode_bh_def bindR_eq_Inr is_clone_def)+

lemma stack_step_end:
  "\<exists>e. decoder_next env r d \<in> {Inr None, Inl e} \<Longrightarrow> \<exists>e. stack_step env r d = Stop [d] e"
  by (auto simp: stack_step_def)


text \<open>
  The description of a buffer head that was submitted for synchronous write-back can never be printed, nor that of a bio
  of an XFS buffer: formatting raises even when everything can be read.
\<close>

lemma decoder_str_raises:
  "\<exists>e. decoder_str env (Decoder DecodeSyncWBBH ob) = Inl e"
  "\<exists>e. decoder_str env (Decoder XFSBufBioDecoder ob) = Inl e"
proof -
  show "\<exists>e. decoder_str env (Decoder DecodeSyncWBBH ob) = Inl e"
    by (cases "dev_name env (bh_field (b_bdev env) ob)"; cases "bh_field (b_blocknr env) ob"; cases "bh_field (b_size env) ob";
        simp add: decoder_str_def Let_def)
  show "\<exists>e. decoder_str env (Decoder XFSBufBioDecoder ob) = Inl e"
    by (cases "bio_field (bi_private env) ob"; cases "dev_name env (bio_field (bi_bdev env) ob)"; simp add: decoder_str_def Let_def)
qed

end
