(* ===== verification/Xfs.thy ===== *)
theory Xfs
  imports Decoders Filesystem
begin

text \<open>
  XFS: \<^verbatim>\<open>crash/subsystem/filesystem/xfs.py\<close> and the listing of the active item list in \<^verbatim>\<open>crash/commands/xfs.py\<close>.
\<close>

section \<open>Tables of flags\<close>

definition XFS_LOCK_FLAGS :: "(int \<times> string) list" where
  "XFS_LOCK_FLAGS = [(0x01, ''XFS_IOLOCK_EXCL''), (0x02, ''XFS_IOLOCK_SHARED''), (0x04, ''XFS_ILOCK_EXCL''),
     (0x08, ''XFS_ILOCK_SHARED''), (0x10, ''XFS_MMAPLOCK_EXCL''), (0x20, ''XFS_MMAPLOCK_SHARED'')]"

definition XFS_LI_EFI :: int where "XFS_LI_EFI = 0x1236"
definition XFS_LI_EFD :: int where "XFS_LI_EFD = 0x1237"
definition XFS_LI_IUNLINK :: int where "XFS_LI_IUNLINK = 0x1238"
definition XFS_LI_INODE :: int where "XFS_LI_INODE = 0x123b"
definition XFS_LI_BUF :: int where "XFS_LI_BUF = 0x123c"
definition XFS_LI_DQUOT :: int where "XFS_LI_DQUOT = 0x123d"
definition XFS_LI_QUOTAOFF :: int where "XFS_LI_QUOTAOFF = 0x123e"

lemmas xfs_li_defs = XFS_LI_EFI_def XFS_LI_EFD_def XFS_LI_IUNLINK_def XFS_LI_INODE_def XFS_LI_BUF_def XFS_LI_DQUOT_def
  XFS_LI_QUOTAOFF_def

definition XFS_LI_TYPES :: "(int \<times> string) list" where
  "XFS_LI_TYPES = [(XFS_LI_EFI, ''XFS_LI_EFI''), (XFS_LI_EFD, ''XFS_LI_EFD''), (XFS_LI_IUNLINK, ''XFS_LI_IUNLINK''),
     (XFS_LI_INODE, ''XFS_LI_INODE''), (XFS_LI_BUF, ''XFS_LI_BUF''), (XFS_LI_DQUOT, ''XFS_LI_DQUOT''),
     (XFS_LI_QUOTAOFF, ''XFS_LI_QUOTAOFF'')]"

definition XFS_BLI_FLAGS :: "(int \<times> string) list" where
  "XFS_BLI_FLAGS = [(0x01, ''HOLD''), (0x02, ''DIRTY''), (0x04, ''STALE''), (0x08, ''LOGGED''), (0x10, ''INODE_ALLOC''),
     (0x20, ''STALE_INODE''), (0x40, ''INODE_BUF'')]"

definition XFS_BUF_FLAGS :: "(int \<times> string) list" where
  "XFS_BUF_FLAGS = [(push_bit 0 1, ''READ''), (push_bit 1 1, ''WRITE''), (push_bit 2 1, ''MAPPED''), (push_bit 4 1, ''ASYNC''),
     (push_bit 5 1, ''DONE''), (push_bit 6 1, ''DELWRI''), (push_bit 7 1, ''STALE''), (push_bit 11 1, ''ORDERED''),
     (push_bit 12 1, ''READ_AHEAD''), (push_bit 14 1, ''LOCK''), (push_bit 15 1, ''TRYLOCK''), (push_bit 16 1, ''DONT_BLOCK''),
     (push_bit 18 1, ''PAGES''), (push_bit 19 1, ''RUN_QUEUES''), (push_bit 20 1, ''KMEM''), (push_bit 21 1, ''DELWRI_Q''),
     (push_bit 24 1, ''LRU_DISPOSE'')]"

definition XFS_ILI_FLAGS :: "(int \<times> string) list" where
  "XFS_ILI_FLAGS = [(0x001, ''CORE''), (0x002, ''DDATA''), (0x004, ''DEXT''), (0x008, ''DBROOT''), (0x010, ''DEV''), (0x020, ''UUID''),
     (0x040, ''ADATA''), (0x080, ''AEXT''), (0x100, ''ABROOT''), (0x200, ''DOWNER''), (0x400, ''AOWNER''), (0x4000, ''TIMESTAMP'')]"

definition XFS_DQ_FLAGS :: "(int \<times> string) list" where
  "XFS_DQ_FLAGS = [(0x0001, ''USER''), (0x0002, ''PROJ''), (0x0004, ''GROUP''), (0x0008, ''DIRTY''), (0x0010, ''FREEING'')]"

definition XFS_MOUNT_FLAGS :: "(int \<times> string) list" where
  "XFS_MOUNT_FLAGS = [(push_bit 0 1, ''WSYNC''), (push_bit 1 1, ''UNMOUNTING''), (push_bit 2 1, ''DMAPI''), (push_bit 3 1, ''WAS_CLEAN''),
     (push_bit 4 1, ''FS_SHUTDOWN''), (push_bit 5 1, ''DISCARD''), (push_bit 7 1, ''NOALIGN''), (push_bit 8 1, ''ATTR2''),
     (push_bit 9 1, ''GRPID''), (push_bit 10 1, ''NORECOVERY''), (push_bit 12 1, ''DFLT_IOSIZE''), (push_bit 14 1, ''SMALL_INUMS''),
     (push_bit 15 1, ''32BITINODES''), (push_bit 16 1, ''NOUUID''), (push_bit 17 1, ''BARRIER''), (push_bit 18 1, ''IKEEP''),
     (push_bit 19 1, ''SWALLOC''), (push_bit 20 1, ''RDONLY''), (push_bit 21 1, ''DIRSYNC''), (push_bit 22 1, ''COMPAT_IOSIZE''),
     (push_bit 24 1, ''FILESTREAMS''), (push_bit 25 1, ''NOATTR2'')]"

section \<open>File systems\<close>

text \<open>\<open>XFS._ail_head_name\<close>, \<open>None\<close> until the callback for \<open>struct xfs_ail\<close> has run.\<close>

definition detect_ail_version :: "gtype \<Rightarrow> string option res" where
  "detect_ail_version gdbtype = bindR (struct_has_member (\<lambda>_. None) (SpecType gdbtype) ''ail_head'') (\<lambda>b.
     Inr (Some (if b then ''ail_head'' else ''xa_ail'')))"

text \<open>\<open>ail[name]\<close>: the address of the member; a subscript \<open>None\<close> is no Python object gdb can convert.\<close>

definition get_ail_head :: "gtype \<Rightarrow> string option \<Rightarrow> addr \<Rightarrow> addr res" where
  "get_ail_head ail_type head_name ail = bindR (of_option TypeError head_name) (\<lambda>n. member_at ail_type ail n)"

definition is_xfs_super :: "super_block \<Rightarrow> bool" where
  "is_xfs_super sb = is_fstype_super sb ''xfs''"

definition is_xfs_inode :: "(addr \<Rightarrow> super_block) \<Rightarrow> addr \<Rightarrow> bool" where
  "is_xfs_inode supers sb = is_fstype_inode supers sb ''xfs''"

text \<open>\<open>types.xfs_inode\<close> is not a name of the collection, which has \<open>xfs_inode_type\<close>.\<close>

definition xfs_inode :: "(addr \<Rightarrow> super_block) \<Rightarrow> addr \<Rightarrow> addr \<Rightarrow> bool \<Rightarrow> addr res" where
  "xfs_inode supers vfs_inode sb force =
     (if \<not> force \<and> \<not> is_xfs_inode supers sb then Inl InvalidArgumentError else Inl NameError)"

definition xfs_mount :: "super_block \<Rightarrow> bool \<Rightarrow> addr res" where
  "xfs_mount sb force = (if \<not> force \<and> \<not> is_xfs_super sb then Inl InvalidArgumentError else Inr (s_fs_info sb))"

definition xfs_mount_flags :: "nat \<Rightarrow> int \<Rightarrow> string" where
  "xfs_mount_flags sizeof m_flags = decode_flags m_flags sizeof (map_of XFS_MOUNT_FLAGS) ''|''"

definition xfs_mount_version :: "int \<Rightarrow> int" where
  "xfs_mount_version sb_versionnum = sb_versionnum AND 0xf"

section \<open>Log items\<close>

record xfs_env =
  xe_mem :: list_mem
  xe_log_item_type :: "gtype res"
  xe_buf_log_item_type :: "gtype res"
  xe_inode_log_item_type :: "gtype res"
  xe_efi_log_item_type :: "gtype res"
  xe_efd_log_item_type :: "gtype res"
  xe_dq_logitem_type :: "gtype res"
  xe_qoff_logitem_type :: "gtype res"
  xe_ail_type :: gtype
  xe_ail_head_name :: "string option"
  xe_li_type :: "addr \<Rightarrow> int res"
  xe_li_lsn :: "addr \<Rightarrow> int res"

definition xfs_for_each_ail_entry :: "xfs_env \<Rightarrow> addr \<Rightarrow> addr gen option" where
  "xfs_for_each_ail_entry env ail = (case get_ail_head (xe_ail_type env) (xe_ail_head_name env) ail of
       Inl e \<Rightarrow> Some (gen_raise e)
     | Inr head \<Rightarrow> (case xe_log_item_type env of
           Inl e \<Rightarrow> Some (gen_raise e)
         | Inr t \<Rightarrow> list_for_each_entry (xe_mem env) (ListObj head) t ''li_ail'' default_opts))"

text \<open>\<open>m_ail\<close> of the mount is the address of its active item list.\<close>

definition xfs_for_each_ail_log_item :: "xfs_env \<Rightarrow> addr res \<Rightarrow> addr gen option" where
  "xfs_for_each_ail_log_item env m_ail = (case m_ail of
       Inl e \<Rightarrow> Some (gen_raise e) | Inr ail \<Rightarrow> xfs_for_each_ail_entry env ail)"

definition item_to :: "xfs_env \<Rightarrow> int \<Rightarrow> gtype res \<Rightarrow> string \<Rightarrow> addr \<Rightarrow> addr res" where
  "item_to env ty typ m item = bindR (xe_li_type env item) (\<lambda>t.
     if t \<noteq> ty then Inl InvalidArgumentError else bindR typ (\<lambda>gt. container_of item gt m))"

definition item_to_buf_log_item :: "xfs_env \<Rightarrow> addr \<Rightarrow> addr res" where
  "item_to_buf_log_item env = item_to env XFS_LI_BUF (xe_buf_log_item_type env) ''bli_item''"

definition item_to_inode_log_item :: "xfs_env \<Rightarrow> addr \<Rightarrow> addr res" where
  "item_to_inode_log_item env = item_to env XFS_LI_INODE (xe_inode_log_item_type env) ''ili_item''"

definition item_to_efi_log_item :: "xfs_env \<Rightarrow> addr \<Rightarrow> addr res" where
  "item_to_efi_log_item env = item_to env XFS_LI_EFI (xe_efi_log_item_type env) ''efi_item''"

definition item_to_efd_log_item :: "xfs_env \<Rightarrow> addr \<Rightarrow> addr res" where
  "item_to_efd_log_item env = item_to env XFS_LI_EFD (xe_efd_log_item_type env) ''efd_item''"

definition item_to_dquot_log_item :: "xfs_env \<Rightarrow> addr \<Rightarrow> addr res" where
  "item_to_dquot_log_item env = item_to env XFS_LI_DQUOT (xe_dq_logitem_type env) ''qli_item''"

definition item_to_quotaoff_log_item :: "xfs_env \<Rightarrow> addr \<Rightarrow> addr res" where
  "item_to_quotaoff_log_item env = item_to env XFS_LI_QUOTAOFF (xe_qoff_logitem_type env) ''qql_item''"

text \<open>The item of the specific type, by its address; for \<open>XFS_LI_IUNLINK\<close> the type number.\<close>

datatype typed_item = Typed addr | TypeNumber int

definition xfs_log_item_typed :: "xfs_env \<Rightarrow> addr \<Rightarrow> typed_item res" where
  "xfs_log_item_typed env item = bindR (xe_li_type env item) (\<lambda>t.
     let typed = (\<lambda>r. bindR r (\<lambda>a. Inr (Typed a))) in
     if t = XFS_LI_BUF then typed (item_to_buf_log_item env item)
     else if t = XFS_LI_INODE then typed (item_to_inode_log_item env item)
     else if t = XFS_LI_EFI then typed (item_to_efi_log_item env item)
     else if t = XFS_LI_EFD then typed (item_to_efd_log_item env item)
     else if t = XFS_LI_IUNLINK then Inr (TypeNumber t)
     else if t = XFS_LI_DQUOT then typed (item_to_dquot_log_item env item)
     else if t = XFS_LI_QUOTAOFF then typed (item_to_quotaoff_log_item env item)
     else Inl RuntimeError)"

text \<open>\<open>types.xfs_for_each_ail_log_item\<close> does not exist: the generator raises when it is started.\<close>

definition xfs_for_each_ail_log_item_typed :: "typed_item gen" where
  "xfs_for_each_ail_log_item_typed = gen_raise NameError"

text \<open>
  \<open>xfs_format_xfsbuf\<close>: the flags and the state are read; then \<open>int(buf)\<close> fails for a structure, and formatting a
  \<^verbatim>\<open>gdb.Value\<close> with \<open>:d\<close> raises.
\<close>

record xfs_buf =
  b_flags :: "int res"
  b_pin_count :: "int res"
  b_sema_count :: "int res"
  b_bn :: "int res"

definition xfs_format_xfsbuf :: "bool \<Rightarrow> xfs_buf \<Rightarrow> string res" where
  "xfs_format_xfsbuf is_pointer b =
     bindR (b_flags b) (\<lambda>_. bindR (b_pin_count b) (\<lambda>_. bindR (b_sema_count b) (\<lambda>_.
       if is_pointer then bindR (b_bn b) (\<lambda>_. Inl TypeError) else Inl GdbError)))"

section \<open>Listing the active item list\<close>

text \<open>What \<open>dump_ail\<close> reads of the items, by the addresses of the typed items.\<close>

record dump_env = xfs_env +
  de_bli :: "addr \<Rightarrow> (addr \<times> int \<times> nat) res"  \<comment> \<open>\<open>bli_buf\<close>, and \<open>bli_flags\<close> with its size\<close>
  de_buf :: "addr \<Rightarrow> xfs_buf"
  de_ili :: "addr \<Rightarrow> (int \<times> addr \<times> int) res"  \<comment> \<open>\<open>ili_lock_flags\<close>, address of \<open>i_vnode\<close>, \<open>i_ino\<close>\<close>
  de_efi :: "addr \<Rightarrow> (int \<times> int \<times> int) res"
  de_dquot :: "addr \<Rightarrow> (addr \<times> int \<times> nat) res"
  de_qoff :: "addr \<Rightarrow> (addr \<times> int \<times> int \<times> int) res"
  de_type_address :: "addr \<Rightarrow> addr"  \<comment> \<open>address of \<open>li_type\<close>\<close>

text \<open>
  The text printed for one item, and the exception that cut it short, if any.  The branch meant for \<open>XFS_LI_EFD\<close> tests
  for \<open>XFS_LI_EFI\<close> again, so that such items are printed by the last branch.
\<close>

fun typed_address :: "dump_env \<Rightarrow> addr \<Rightarrow> typed_item \<Rightarrow> addr" where
  "typed_address env item (Typed a) = a"
| "typed_address env item (TypeNumber n) = de_type_address env item"

definition dump_typed :: "dump_env \<Rightarrow> addr \<Rightarrow> int \<Rightarrow> typed_item \<Rightarrow> string gen" where
  "dump_typed env bitem t ty =
     (let a = typed_address env bitem ty; hex = (\<lambda>n. py_hex (nat n)) in
      if t = XFS_LI_BUF then
        gen_try (de_bli env a) (\<lambda>(buf, flags, sz). gen_yields
          ['' buf@'' @ hex buf @ '' bli_flags='' @ decode_flags flags sz (map_of XFS_BLI_FLAGS) ''|'']
          (gen_of_res (bindR (xfs_format_xfsbuf True (de_buf env buf)) (\<lambda>s. Inr (''     '' @ s)))))
      else if t = XFS_LI_INODE then
        gen_try (de_ili env a) (\<lambda>(fl, vn, ino). gen_of_list
          [''inode@'' @ hex vn @ '' i_ino='' @ py_dec ino @ '' ili_lock_flags='' @ hex fl @ '' ''])
      else if t = XFS_LI_EFI then
        gen_try (de_efi env a) (\<lambda>(sz, n, i). gen_of_list
          [''efi@'' @ hex a @ '' size='' @ py_dec sz @ '', nextents='' @ py_dec n @ '', id='' @ hex i])
      else if t = XFS_LI_DQUOT then
        gen_try (de_dquot env a) (\<lambda>(d, flags, sz). gen_of_list
          [''dquot@'' @ hex d @ '' flags='' @ decode_flags flags sz (map_of XFS_DQ_FLAGS) ''|''])
      else if t = XFS_LI_QUOTAOFF then
        gen_try (de_qoff env a) (\<lambda>(q, ty', sz, fl). gen_of_list
          [''qoff@'' @ hex q @ '' type='' @ py_dec ty' @ '' size='' @ py_dec sz @ '' flags='' @ py_dec fl])
      else gen_of_list [''item@'' @ hex a])"

definition dump_item :: "dump_env \<Rightarrow> int \<times> addr \<Rightarrow> string gen" where
  "dump_item env = (\<lambda>(itemno, bitem).
     let x = xfs_env.truncate env in
     gen_try (xe_li_type env bitem) (\<lambda>t. gen_try (xe_li_lsn env bitem) (\<lambda>lsn.
     gen_try (xfs_log_item_typed x bitem) (\<lambda>ty. gen_try (of_option KeyError (map_of XFS_LI_TYPES t)) (\<lambda>name.
       gen_yields [py_dec itemno @ '': item='' @ py_hex (nat bitem) @ '' lsn='' @ py_dec lsn @ '' '' @ drop 7 name @ '' '']
         (dump_typed env bitem t ty))))))"

text \<open>The loop of \<open>dump_ail\<close> over the items, which are numbered from 0.\<close>

definition dump_ail_items :: "dump_env \<Rightarrow> addr res \<Rightarrow> string gen option" where
  "dump_ail_items env m_ail = map_option
     (\<lambda>g. gen_bind (zip (map int [0..<length (fst g)]) (fst g), snd g) (dump_item env))
     (xfs_for_each_ail_log_item (xfs_env.truncate env) m_ail)"

section \<open>Items and their containers\<close>

text \<open>The types of items, with the structure that contains the item and the name of the member.\<close>

definition item_table :: "xfs_env \<Rightarrow> (int \<times> gtype res \<times> string) list" where
  "item_table env = [(XFS_LI_BUF, xe_buf_log_item_type env, ''bli_item''), (XFS_LI_INODE, xe_inode_log_item_type env, ''ili_item''),
     (XFS_LI_EFI, xe_efi_log_item_type env, ''efi_item''), (XFS_LI_EFD, xe_efd_log_item_type env, ''efd_item''),
     (XFS_LI_DQUOT, xe_dq_logitem_type env, ''qli_item''), (XFS_LI_QUOTAOFF, xe_qoff_logitem_type env, ''qql_item'')]"

lemmas item_to_defs = item_to_buf_log_item_def item_to_inode_log_item_def item_to_efi_log_item_def item_to_efd_log_item_def
  item_to_dquot_log_item_def item_to_quotaoff_log_item_def

lemma xfs_typed_unknown:
  assumes "xe_li_type env item = Inr t" and "t \<notin> insert XFS_LI_IUNLINK (fst ` set (item_table env))"
  shows "xfs_log_item_typed env item = Inl RuntimeError"
  using assms by (auto simp: xfs_log_item_typed_def item_table_def)

text \<open>
  \<open>xfs_log_item_typed\<close> inverts taking the address of the generic item in an item of any of the known types.
\<close>

theorem xfs_typed_roundtrip:
  assumes "(t, Inr gt, m) \<in> set (item_table env)" and "offsetof_err gt m = Inr off" and "0 \<le> a" and "a < 2 ^ 64"
    and "xe_li_type env (ptr_add a (int off)) = Inr t"
  shows "xfs_log_item_typed env (ptr_add a (int off)) = Inr (Typed a)"
proof -
  have c: "container_of (ptr_add a (int off)) gt m = Inr a" using assms(2-4) by (rule container_of_ptr_add)
  show ?thesis
    using assms(1, 5) c unfolding item_table_def
    by (auto simp: xfs_log_item_typed_def item_to_defs item_to_def xfs_li_defs dest!: sym [of "Inr gt"])
qed

definition ex_buf_item :: gtype where
  "ex_buf_item = GType CODE_STRUCT 64 ''xfs_buf_log_item'' None [GField (Some ''bli_buf'') 0 ex_int, GField (Some ''bli_item'') 128 ex_int]"

definition ex_xfs_env :: xfs_env where
  "ex_xfs_env = \<lparr>xe_mem = \<lambda>a l. None, xe_log_item_type = Inl DelayedAttributeError, xe_buf_log_item_type = Inr ex_buf_item,
     xe_inode_log_item_type = Inl DelayedAttributeError, xe_efi_log_item_type = Inl DelayedAttributeError,
     xe_efd_log_item_type = Inl DelayedAttributeError, xe_dq_logitem_type = Inl DelayedAttributeError,
     xe_qoff_logitem_type = Inl DelayedAttributeError, xe_ail_type = ex_int, xe_ail_head_name = None,
     xe_li_type = \<lambda>a. Inr XFS_LI_BUF, xe_li_lsn = \<lambda>a. Inr 0\<rparr>"

theorem xfs_typed_roundtrip_witness: "xfs_log_item_typed ex_xfs_env (ptr_add 4096 16) = Inr (Typed 4096)"
proof -
  have "offsetof_err ex_buf_item ''bli_item'' = Inr 16" by code_simp
  then show ?thesis
    using xfs_typed_roundtrip [of XFS_LI_BUF ex_buf_item "''bli_item''" ex_xfs_env 16 4096]
    by (simp add: item_table_def ex_xfs_env_def)
qed

section \<open>Flags\<close>

text \<open>
  Tables in which the keys are single bits, and the names differ from each other and from the names of unnamed flags and
  do not have a separator.
\<close>

definition flags_ok :: "(int \<times> string) list \<Rightarrow> bool" where
  "flags_ok T \<longleftrightarrow> distinct (map snd T) \<and> list_all (\<lambda>(k, n). take 5 n \<noteq> ''FLAG_'' \<and> CHR ''|'' \<notin> set n \<and> n \<noteq> []) T"

lemma py_digits_inj: "py_digits m = py_digits n \<Longrightarrow> m = n"
  by (metis py_int_decimal sum.inject(2) of_nat_eq_iff)

lemma flag_name_inj:
  assumes "flags_ok T" and "flag_name (map_of T) m = flag_name (map_of T) n"
  shows "m = n"
proof -
  have names: "map_of T k \<noteq> Some (''FLAG_'' @ s)" for k s
    using assms(1) by (auto simp: flags_ok_def list_all_iff dest!: map_of_SomeD)
  have same: "k = k'" if "map_of T k = Some s" "map_of T k' = Some s" for k k' s
  proof -
    have "inj_on snd (set T)" using assms(1) by (simp add: flags_ok_def distinct_map)
    from inj_onD [OF this, of "(k, s)" "(k', s)"] show ?thesis using that by (simp add: map_of_SomeD)
  qed
  show ?thesis
  proof (cases "map_of T (push_bit m 1)"; cases "map_of T (push_bit n 1)")
    fix s s' assume "map_of T (push_bit m 1) = Some s" "map_of T (push_bit n 1) = Some s'"
    then have "push_bit m (1::int) = push_bit n 1" using assms(2) same by (simp add: flag_name_def)
    then show ?thesis by (simp add: push_bit_eq_mult)
  qed (use assms(2) names py_digits_inj [of m n] in \<open>auto simp: flag_name_def\<close>)
qed

lemma flag_name_no_bar: "flags_ok T \<Longrightarrow> CHR ''|'' \<notin> set (flag_name (map_of T) n)"
  using digits_no_bar by (auto simp: flag_name_def flags_ok_def list_all_iff dest!: map_of_SomeD split: option.splits)

lemma flag_name_nonempty: "flags_ok T \<Longrightarrow> flag_name (map_of T) n \<noteq> []"
  by (auto simp: flag_name_def flags_ok_def list_all_iff dest!: map_of_SomeD split: option.splits)

lemma decode_flags_inj:
  assumes "flags_ok T"
  shows "decode_flags v sz (map_of T) ''|'' = decode_flags w sz (map_of T) ''|'' \<longleftrightarrow>
    take_bit (push_bit 3 sz) v = take_bit (push_bit 3 sz) w"
proof -
  let ?f = "flag_name (map_of T)" and ?bits = "\<lambda>v::int. filter (bit v) [0..<push_bit 3 sz]"
  have b: "(v AND push_bit n 1 \<noteq> 0) = bit v n" for v :: int and n
    by (metis bit_iff_and_push_bit_not_eq_0)
  have d: "decode_flags v sz (map_of T) ''|'' = py_join ''|'' (map ?f (?bits v))" for v
    by (simp only: decode_flags_def b)
  have tb: "take_bit (push_bit 3 sz) v = take_bit (push_bit 3 sz) w \<longleftrightarrow> ?bits v = ?bits w" for v w :: int
  proof
    assume "?bits v = ?bits w"
    then have "set (?bits v) = set (?bits w)" by simp
    then show "take_bit (push_bit 3 sz) v = take_bit (push_bit 3 sz) w"
      by (intro bit_eqI) (auto simp: bit_take_bit_iff set_eq_iff)
  next
    assume t: "take_bit (push_bit 3 sz) v = take_bit (push_bit 3 sz) w"
    have "bit v n = bit w n" if "n < push_bit 3 sz" for n
      using arg_cong [OF t, of "\<lambda>x. bit x n"] that by (simp add: bit_take_bit_iff)
    then show "?bits v = ?bits w" by (auto intro: filter_cong)
  qed
  have join: "xs = ys" if "py_join ''|'' (map ?f xs) = py_join ''|'' (map ?f ys)" for xs ys
  proof -
    have ne: "py_join ''|'' (map ?f zs) = [] \<longleftrightarrow> zs = []" for zs
    proof (cases zs)
      case (Cons z zs')
      then show ?thesis using flag_name_nonempty [OF assms, of z] by (cases zs') simp_all
    qed simp
    have "map ?f xs = map ?f ys"
    proof (cases "xs = [] \<or> ys = []")
      case True
      then show ?thesis using that ne by (metis py_join.simps(1) list.map_disc_iff)
    next
      case False
      have "py_split CHR ''|'' (py_join ''|'' (map ?f zs)) = map ?f zs" if "zs \<noteq> []" for zs
        using that flag_name_no_bar [OF assms] by (intro py_split_join) auto
      then show ?thesis using False that by metis
    qed
    then show ?thesis using flag_name_inj [OF assms] by (metis inj_map_eq_map injI)
  qed
  show ?thesis using join d tb by metis
qed

text \<open>
  The strings of flags that the XFS commands show are faithful: two values of a flags word give the same string exactly
  when they agree in all of its bits, named or not.
\<close>

theorem xfs_flags_faithful:
  assumes "T \<in> {XFS_LOCK_FLAGS, XFS_BLI_FLAGS, XFS_BUF_FLAGS, XFS_ILI_FLAGS, XFS_DQ_FLAGS, XFS_MOUNT_FLAGS}"
  shows "decode_flags v sz (map_of T) ''|'' = decode_flags w sz (map_of T) ''|'' \<longleftrightarrow>
    take_bit (8 * sz) v = take_bit (8 * sz) w"
proof -
  have "flags_ok XFS_LOCK_FLAGS" "flags_ok XFS_BLI_FLAGS" "flags_ok XFS_BUF_FLAGS" "flags_ok XFS_ILI_FLAGS" "flags_ok XFS_DQ_FLAGS"
      "flags_ok XFS_MOUNT_FLAGS"
    by code_simp+
  then have "flags_ok T" using assms by blast
  from decode_flags_inj [OF this, of v sz w] show ?thesis by (simp add: push_bit_eq_mult mult.commute)
qed

theorem xfs_flags_faithful_witness:
  "decode_flags 5 4 (map_of XFS_MOUNT_FLAGS) ''|'' = decode_flags 64 4 (map_of XFS_MOUNT_FLAGS) ''|'' \<longleftrightarrow>
    take_bit (8 * 4) (5::int) = take_bit (8 * 4) 64"
  by (rule xfs_flags_faithful) simp

text \<open>
  \<open>dump-ail\<close> fails at the first buffer item: whatever else the list holds, the listing ends with an exception.
\<close>

lemma xfs_format_raises: "\<exists>e. xfs_format_xfsbuf p b = Inl e"
  by (cases "b_flags b"; cases "b_pin_count b"; cases "b_sema_count b"; cases "b_bn b"; simp add: xfs_format_xfsbuf_def)

lemma dump_typed_buf: "snd (dump_typed env bitem XFS_LI_BUF ty) \<noteq> None"
proof -
  have raises: "snd (gen_of_res (bindR (xfs_format_xfsbuf True b) (\<lambda>s. Inr (f s :: string)))) \<noteq> None" for b f
    using xfs_format_raises [of True b] by auto
  show ?thesis
    by (cases "de_bli env (typed_address env bitem ty)")
       (simp_all only: dump_typed_def Let_def refl if_True gen_try_simps gen_sel raises case_prod_beta option.distinct simp_thms)
qed

lemma gen_for_raises: "x \<in> set xs \<Longrightarrow> snd (f x) \<noteq> None \<Longrightarrow> snd (gen_for xs f) \<noteq> None"
  by (induction xs) (auto simp: gen_seq_def gen_yields_def split: option.splits)

lemma dump_ail_buf_raises:
  assumes "xfs_for_each_ail_log_item (xfs_env.truncate env) m_ail = Some (items, e)" and "a \<in> set items"
    and "xe_li_type env a = Inr XFS_LI_BUF"
  shows "\<exists>g. dump_ail_items env m_ail = Some g \<and> snd g \<noteq> None"
proof -
  let ?zs = "zip (map int [0..<length items]) items"
  obtain j where "j < length items" "items ! j = a" using assms(2) by (auto simp: in_set_conv_nth)
  then have "(int j, a) \<in> set ?zs" by (auto simp: set_zip intro!: exI [of _ j])
  then obtain i where i: "(i, a) \<in> set ?zs" ..
  have "snd (dump_item env (i, a)) \<noteq> None"
    unfolding dump_item_def
    by (cases "xe_li_lsn env a"; cases "xfs_log_item_typed (xfs_env.truncate env) a"; cases "map_of XFS_LI_TYPES XFS_LI_BUF")
       (simp_all only: assms(3) Let_def prod.case gen_try_simps gen_sel dump_typed_buf of_option_simps option.distinct simp_thms)
  then have "snd (gen_for ?zs (dump_item env)) \<noteq> None" by (rule gen_for_raises [OF i])
  then have "snd (gen_bind (?zs, e) (dump_item env)) \<noteq> None" by (auto simp: gen_bind_def gen_seq_def split: option.splits)
  moreover have "dump_ail_items env m_ail = Some (gen_bind (?zs, e) (dump_item env))"
    unfolding dump_ail_items_def assms(1) by simp
  ultimately show ?thesis by blast
qed

end
