(* ===== verification/Target.thy ===== *)
theory Target
  imports Callbacks Percpu Task
begin

text \<open>
  The targets: \<^verbatim>\<open>crash/target/__init__.py\<close>, \<^verbatim>\<open>crash/target/x86_64.py\<close> and \<^verbatim>\<open>crash/target/ppc64.py\<close>.  A target is
  chosen from the registered classes, the tasks of the image become gdb threads, and the registers of a thread are
  those of the dump, for a task that was running, or those the context switch saved on the stack.

  What gdb and the dump hold is a parameter: the registers of a CPU, the memory of a stack, the text of an instruction.
\<close>

section \<open>Frames\<close>

text \<open>\<open>KernelAddressIterator\<close>: one call of \<open>next\<close> on the rest of the input, given as program counters.\<close>

definition kernel_next :: "int \<Rightarrow> int list \<Rightarrow> (int \<times> int list) option" where
  "kernel_next address frames = (case frames of
       [] \<Rightarrow> None
     | pc # rest \<Rightarrow> if pc < address then None else Some (pc, rest))"

text \<open>The loop that gdb runs over the iterator.\<close>

fun kernel_frames :: "int \<Rightarrow> int list \<Rightarrow> int list" where
  "kernel_frames address [] = []"
| "kernel_frames address (pc # rest) = (case kernel_next address (pc # rest) of
       None \<Rightarrow> []
     | Some (p, _) \<Rightarrow> p # kernel_frames address rest)"

definition KERNEL_ADDRESS :: int where
  "KERNEL_ADDRESS = 0xffff000000000000"

section \<open>Threads\<close>

text \<open>
  A gdb thread: the address of its task (\<open>ptid[2]\<close>), and the task that is kept in \<open>thread.info\<close>.
\<close>

record thread =
  th_address :: addr
  th_info :: "linux_task option"

type_synonym registers = "(string \<times> int) list"

text \<open>What the setup reads of the image, for the kind of target.\<close>

record tasks_env =
  te_task_at :: "addr \<Rightarrow> task_struct res"
  te_task_type :: gtype
  te_mm_type :: gtype
  te_rq_curr :: "percpu_val \<Rightarrow> int res"
  te_regs :: "int \<Rightarrow> registers res"
  te_crashing_cpu :: "int res"
  te_thread_info_cpu :: "task_struct \<Rightarrow> int"
  te_thread_sp :: "task_struct \<Rightarrow> int"

record target_state =
  tg_threads :: "thread list"
  tg_crashing :: "addr option"
  tg_tasks :: task_cache
  tg_class :: task_class

definition rqs_currs :: "tasks_env \<Rightarrow> (int \<times> percpu_val) list \<Rightarrow> (int \<times> int) list res" where
  "rqs_currs env rqs = bindR (mapR (\<lambda>(k, x). bindR (te_rq_curr env x) (\<lambda>c. Inr (c, k))) rqs)
     (\<lambda>cs. Inr (foldl (\<lambda>d kv. AList.update (fst kv) (snd kv) d) [] cs))"

text \<open>
  \<open>arch_setup_thread\<close> of both architectures: the \<open>thread_info\<close> and the \<open>thread_struct\<close> of the task, which gdb reads only
  when a member is used.
\<close>

definition arch_setup_thread :: "tasks_env \<Rightarrow> linux_task \<Rightarrow> linux_task" where
  "arch_setup_thread env t =
     set_thread_struct (te_thread_sp env (lt_task t)) (set_thread_info (te_thread_info_cpu env (lt_task t)) t)"

definition get_stack_pointer :: "thread \<Rightarrow> int res" where
  "get_stack_pointer th = bindR (of_option AttributeError (th_info th)) get_thread_struct"

text \<open>The task of a thread, active with the registers of its CPU when a run queue runs it.\<close>

definition make_task :: "tasks_env \<Rightarrow> (int \<times> int) list \<Rightarrow> addr \<Rightarrow> task_class \<Rightarrow> linux_task res \<times> task_class" where
  "make_task env currs a cls = (case LinuxTask_new (te_task_type env) (te_mm_type env) (TaskValue (te_task_type env)) cls of
       (cls', Some e) \<Rightarrow> (Inl e, cls')
     | (cls', None) \<Rightarrow> (bindR (te_task_at env a) (\<lambda>ts. case map_of currs a of
           None \<Rightarrow> Inr (task_new ts)
         | Some cpu \<Rightarrow> bindR (te_regs env cpu) (\<lambda>regs. set_active cpu regs (task_new ts))), cls'))"

definition crashing :: "int \<Rightarrow> linux_task \<Rightarrow> bool" where
  "crashing crashing_cpu t \<longleftrightarrow> lt_active t \<and> lt_cpu t = crashing_cpu"

text \<open>
  One iteration of the loop over the threads.  The task is the same object in \<open>thread.info\<close> and in the cache, so what is
  set after \<open>thread.info\<close> shows in both.
\<close>

definition setup_thread ::
  "tasks_env \<Rightarrow> (int \<times> int) list \<Rightarrow> int \<Rightarrow> thread \<Rightarrow> target_state \<Rightarrow> thread res \<times> target_state" where
  "setup_thread env currs crashing_cpu th st = (case make_task env currs (th_address th) (tg_class st) of
       (Inl e, cls) \<Rightarrow> (Inl e, st\<lparr>tg_class := cls\<rparr>)
     | (Inr t, cls) \<Rightarrow>
         (let st1 = st\<lparr>tg_class := cls,
                tg_crashing := if crashing crashing_cpu t then Some (th_address th) else tg_crashing st\<rparr>
          in case attach_thread (InferiorThread (th_address th)) (arch_setup_thread env t) of
               Inl e \<Rightarrow> (Inl e, st1)
             | Inr t' \<Rightarrow> (Inr (th\<lparr>th_info := Some t'\<rparr>), st1\<lparr>tg_tasks := cache_task t' (tg_tasks st)\<rparr>)))"

text \<open>An exception leaves the threads that were set up, and the others as they were.\<close>

fun setup_threads ::
  "tasks_env \<Rightarrow> (int \<times> int) list \<Rightarrow> int \<Rightarrow> thread list \<Rightarrow> target_state \<Rightarrow> (thread list \<times> exc option) \<times> target_state" where
  "setup_threads env currs crashing_cpu [] st = (([], None), st)"
| "setup_threads env currs crashing_cpu (th # ths) st = (case setup_thread env currs crashing_cpu th st of
       (Inl e, st1) \<Rightarrow> ((th # ths, Some e), st1)
     | (Inr th', st1) \<Rightarrow> (case setup_threads env currs crashing_cpu ths st1 of
          ((ths', e), st2) \<Rightarrow> ((th' # ths', e), st2)))"

definition crashing_cpu_of :: "tasks_env \<Rightarrow> int res" where
  "crashing_cpu_of env = (case te_crashing_cpu env of
       Inr c \<Rightarrow> Inr c
     | Inl e \<Rightarrow> if catches MissingSymbolError e then Inr (-1) else Inl e)"

definition setup_tasks ::
  "tasks_env \<Rightarrow> percpu_env \<Rightarrow> percpu_arg \<Rightarrow> percpu_state \<Rightarrow> target_state \<Rightarrow> unit res \<times> percpu_state \<times> target_state" where
  "setup_tasks env penv runqueues pst st = (case get_percpu_vars penv pst runqueues None of
       (rqs, pst') \<Rightarrow>
         (case bindR rqs (\<lambda>rqs. bindR (rqs_currs env rqs) (\<lambda>currs. bindR (crashing_cpu_of env) (\<lambda>c. Inr (currs, c)))) of
            Inl e \<Rightarrow> (Inl e, pst', st)
          | Inr (currs, c) \<Rightarrow> (case setup_threads env currs c (tg_threads st) st of
               ((ths, exn), st1) \<Rightarrow>
                 (case exn of None \<Rightarrow> Inr () | Some e \<Rightarrow> Inl e, pst', st1\<lparr>tg_threads := ths\<rparr>))))"

section \<open>Registers\<close>

text \<open>
  \<open>fetch_active\<close> of x86-64: a register is looked up again under the name that gdb has for it, and the exception of a
  name the dump does not have is dropped.
\<close>

definition pc_skipped :: "string \<Rightarrow> string option \<Rightarrow> string \<Rightarrow> bool" where
  "pc_skipped pc register reg \<longleftrightarrow> reg = pc \<and> register \<noteq> None \<and> register \<noteq> Some pc"

definition x86_regmap :: "string \<Rightarrow> string" where
  "x86_regmap reg = (if reg = ''rflags'' then ''eflags'' else reg)"

fun x86_fetch_loop :: "string option \<Rightarrow> registers \<Rightarrow> string list \<Rightarrow> registers \<Rightarrow> registers" where
  "x86_fetch_loop register regs [] out = out"
| "x86_fetch_loop register regs (reg # rs) out =
     x86_fetch_loop register regs rs
       (if pc_skipped ''rip'' register reg then out
        else case map_of regs (x86_regmap reg) of
            Some v \<Rightarrow> AList.update (x86_regmap reg) v out
          | None \<Rightarrow> out)"

definition x86_fetch_active :: "linux_task \<Rightarrow> string option \<Rightarrow> registers" where
  "x86_fetch_active t register = x86_fetch_loop register (lt_regs t) (map fst (lt_regs t)) []"

fun ppc64_fetch_loop :: "string option \<Rightarrow> registers \<Rightarrow> registers \<Rightarrow> registers" where
  "ppc64_fetch_loop register [] out = out"
| "ppc64_fetch_loop register ((reg, v) # rs) out =
     ppc64_fetch_loop register rs
       (if pc_skipped ''pc'' register reg then out else AList.update reg v out)"

definition ppc64_fetch_active :: "linux_task \<Rightarrow> string option \<Rightarrow> registers" where
  "ppc64_fetch_active t register = ppc64_fetch_loop register (lt_regs t) []"

definition ppc64_fetch_scheduled :: registers where
  "ppc64_fetch_scheduled = []"

subsection \<open>The saved frame\<close>

text \<open>
  \<open>re.compile(r"callq?.*<(\w+)>").search\<close>: from the first \<open>call\<close> that a name in angle brackets follows on its line, the
  last such name, since \<open>.*\<close> is greedy.
\<close>

definition is_word :: "char \<Rightarrow> bool" where
  "is_word c = (let n = of_char c :: nat
     in 97 \<le> n \<and> n \<le> 122 \<or> 65 \<le> n \<and> n \<le> 90 \<or> 48 \<le> n \<and> n \<le> 57 \<or> n = 95)"

definition bracket_name :: "string \<Rightarrow> string option" where
  "bracket_name s = (case s of
       [] \<Rightarrow> None
     | c # cs \<Rightarrow> if c = CHR ''<'' \<and> takeWhile is_word cs \<noteq> [] \<and> take 1 (dropWhile is_word cs) = ''>''
         then Some (takeWhile is_word cs) else None)"

fun last_name :: "string \<Rightarrow> string option" where
  "last_name [] = None"
| "last_name (c # cs) = (case last_name cs of Some n \<Rightarrow> Some n | None \<Rightarrow> bracket_name (c # cs))"

fun search_call :: "string \<Rightarrow> string option" where
  "search_call [] = None"
| "search_call (c # cs) =
     (case (if take 4 (c # cs) = ''call'' then last_name (takeWhile (\<lambda>x. x \<noteq> CHR 0x0A) (drop 4 (c # cs))) else None) of
        Some n \<Rightarrow> Some n
      | None \<Rightarrow> search_call cs)"

text \<open>
  The memory of the stack, read at once or when gdb uses the value, the members of a \<open>struct inactive_task_frame\<close>, and the
  disassembly of an address, \<open>None\<close> when gdb raises.
\<close>

record frame_env =
  fr_read :: "addr \<Rightarrow> int res"
  fr_insn :: "int \<Rightarrow> string option"
  fr_stack :: "task_struct \<Rightarrow> int"
  fr_sp :: "task_struct \<Rightarrow> int"
  fr_value :: "addr \<Rightarrow> int"
  fr_member :: "addr \<Rightarrow> string \<Rightarrow> int"
  fr_thread_return :: "int res"

definition is_switch :: "frame_env \<Rightarrow> int \<Rightarrow> bool" where
  "is_switch env val \<longleftrightarrow> val > KERNEL_ADDRESS \<and>
     (case fr_insn env val of None \<Rightarrow> False | Some insn \<Rightarrow> search_call insn = Some ''__switch_to_asm'')"

definition rip_step :: "frame_env \<Rightarrow> int \<Rightarrow> int \<Rightarrow> (int, int) step" where
  "rip_step env limit rsp =
     (if rsp < limit
      then (case fr_read env rsp of
          Inl e \<Rightarrow> Stop [] (Some e)
        | Inr v \<Rightarrow> if is_switch env (v - 5) then Stop [v - 5] None else Next [] (ptr_add rsp 8))
      else Stop [] (Some RuntimeError))"

definition find_scheduled_rip :: "frame_env \<Rightarrow> task_struct \<Rightarrow> int gen option" where
  "find_scheduled_rip env ts = gen_while (rip_step env (fr_stack env ts + 16 * 1024)) (fr_sp env ts)"

text \<open>
  The state of the object that fetches registers, and the attribute \<open>stack_pointer\<close> of the tasks that were fetched, by
  their addresses.  \<open>get_scheduled_rip\<close> keeps the address it found for the first task; a
  search that does not end is \<open>None\<close>.
\<close>

record fetch_state =
  fs_fetching :: bool
  fs_scheduled_rip :: int
  fs_stack_pointers :: "(addr \<times> int) list"

definition set_stack_pointer :: "task_struct \<Rightarrow> int \<Rightarrow> registers res \<times> fetch_state \<Rightarrow> registers res \<times> fetch_state" where
  "set_stack_pointer ts sp q = (case q of
       (Inr regs, st) \<Rightarrow> (Inr regs, st\<lparr>fs_stack_pointers := AList.update (ts_address ts) sp (fs_stack_pointers st)\<rparr>)
     | (Inl e, st) \<Rightarrow> (Inl e, st))"

definition get_scheduled_rip :: "frame_env \<Rightarrow> task_struct \<Rightarrow> fetch_state \<Rightarrow> (int res \<times> fetch_state) option" where
  "get_scheduled_rip env ts st =
     (if fs_scheduled_rip st = 0
      then map_option (\<lambda>g. case gen_to_list g of
          Inl e \<Rightarrow> (Inl e, st)
        | Inr vs \<Rightarrow> (Inr (hd vs), st\<lparr>fs_scheduled_rip := hd vs\<rparr>)) (find_scheduled_rip env ts)
      else Some (Inr (fs_scheduled_rip st), st))"

definition saved_registers :: "int \<Rightarrow> int \<Rightarrow> int \<Rightarrow> int list \<Rightarrow> registers" where
  "saved_registers rsp rip rbp vs = [(''rsp'', rsp), (''rip'', rip), (''rbp'', rbp)] @
     zip [''rbx'', ''r12'', ''r13'', ''r14'', ''r15''] vs @ [(''cs'', 2 * 8), (''ss'', 3 * 8)]"

definition inactive_fetch_scheduled ::
  "frame_env \<Rightarrow> task_struct \<Rightarrow> fetch_state \<Rightarrow> (registers res \<times> fetch_state) option" where
  "inactive_fetch_scheduled env ts st = map_option (\<lambda>(r, st'). set_stack_pointer ts (fr_sp env ts)
     (bindR r (\<lambda>rip. Inr (saved_registers (fr_sp env ts) rip (fr_member env (fr_sp env ts) ''bp'')
        (map (fr_member env (fr_sp env ts)) [''bx'', ''r12'', ''r13'', ''r14'', ''r15'']))), st')) (get_scheduled_rip env ts st)"

definition thread_return_fetch_scheduled ::
  "frame_env \<Rightarrow> task_struct \<Rightarrow> fetch_state \<Rightarrow> (registers res \<times> fetch_state) option" where
  "thread_return_fetch_scheduled env ts st = Some (set_stack_pointer ts (fr_sp env ts)
     (bindR (fr_read env (fr_sp env ts)) (\<lambda>rbp.
      bindR (fr_thread_return env) (\<lambda>rip.
      Inr (saved_registers (fr_sp env ts) rip rbp (map (\<lambda>k. fr_value env (ptr_add rbp (- 8 * k))) [1, 2, 3, 4, 5])))), st))"

subsection \<open>The entry point\<close>

text \<open>
  \<open>fetch_registers\<close> of a thread, with the fetching of the class.  A call within a call returns \<open>None\<close>; an
  \<^verbatim>\<open>AttributeError\<close> is taken for a thread that has no task yet.  Any other exception leaves \<open>fetching\<close> set.
\<close>

definition fetch_registers ::
  "(linux_task \<Rightarrow> string option \<Rightarrow> registers) \<Rightarrow>
   (task_struct \<Rightarrow> fetch_state \<Rightarrow> (registers res \<times> fetch_state) option) \<Rightarrow>
   thread \<Rightarrow> string option \<Rightarrow> fetch_state \<Rightarrow> (registers option res \<times> fetch_state) option" where
  "fetch_registers active scheduled th register st =
     (if fs_fetching st then Some (Inr None, st)
      else (case th_info th of
          None \<Rightarrow> Some (Inr None, st)
        | Some t \<Rightarrow>
            if lt_active t then Some (Inr (Some (active t register)), st)
            else map_option (\<lambda>(r, st'). case r of
                Inr regs \<Rightarrow> (Inr (Some regs), st'\<lparr>fs_fetching := False\<rparr>)
              | Inl e \<Rightarrow> if catches AttributeError e then (Inr None, st'\<lparr>fs_fetching := False\<rparr>) else (Inl e, st'))
              (scheduled (lt_task t) (st\<lparr>fs_fetching := True\<rparr>))))"

section \<open>The choice of a target\<close>

text \<open>
  The classes in the order in which they are registered; \<^verbatim>\<open>crash/session.py\<close> imports \<open>ppc64\<close> first.  A callback on the
  type \<open>struct inactive_task_frame\<close> or on the minimal symbol \<open>thread_return\<close> sets \<open>_enabled\<close> of a class of x86-64; nothing
  sets that of ppc64.
\<close>

datatype target_class = PPC64Target | X8664ThreadReturnTarget | X8664InactiveFrameTarget

definition targets :: "target_class list" where
  "targets = [PPC64Target, X8664ThreadReturnTarget, X8664InactiveFrameTarget]"

fun fetch_registers_usable :: "bool \<Rightarrow> bool \<Rightarrow> target_class \<Rightarrow> bool" where
  "fetch_registers_usable frame_type thread_return PPC64Target \<longleftrightarrow> False"
| "fetch_registers_usable frame_type thread_return X8664ThreadReturnTarget \<longleftrightarrow> thread_return"
| "fetch_registers_usable frame_type thread_return X8664InactiveFrameTarget \<longleftrightarrow> frame_type"

text \<open>The constructor: only the class for inactive frames checks that it is enabled.\<close>

definition target_new :: "bool \<Rightarrow> bool \<Rightarrow> target_class \<Rightarrow> unit res" where
  "target_new frame_type thread_return c =
     (if c = X8664InactiveFrameTarget \<and> \<not> frame_type then Inl IncorrectTargetError else Inr ())"

record target_env =
  tv_frame_type :: bool
  tv_thread_return :: bool
  tv_has_symbols :: bool
  tv_gdb_open :: "unit res"
  tv_tasks :: tasks_env
  tv_percpu :: percpu_env
  tv_runqueues :: percpu_arg

record open_state =
  op_cb :: cb_sys
  op_percpu :: percpu_state
  op_target :: target_state

definition target_open :: "target_env \<Rightarrow> (cbid \<Rightarrow> outcome) \<Rightarrow> target_class \<Rightarrow> open_state \<Rightarrow> unit res \<times> open_state" where
  "target_open env w c st =
     (if \<not> fetch_registers_usable (tv_frame_type env) (tv_thread_return env) c then (Inl IncorrectTargetError, st)
      else if \<not> tv_has_symbols env then (Inl ValueError, st)
      else case tv_gdb_open env of
          Inl e \<Rightarrow> (Inl e, st)
        | Inr _ \<Rightarrow> (case target_ready w (op_cb st) of
             (cb, Some e) \<Rightarrow> (Inl e, st\<lparr>op_cb := cb\<rparr>)
           | (cb, None) \<Rightarrow> (case setup_tasks (tv_tasks env) (tv_percpu env) (tv_runqueues env) (op_percpu st) (op_target st) of
                (r, pst, tst) \<Rightarrow> (r, st\<lparr>op_cb := cb, op_percpu := pst, op_target := tst\<rparr>))))"

fun setup_target ::
  "target_env \<Rightarrow> (cbid \<Rightarrow> outcome) \<Rightarrow> target_class list \<Rightarrow> open_state \<Rightarrow> target_class res \<times> open_state" where
  "setup_target env w [] st = (Inl IncorrectTargetError, st)"
| "setup_target env w (c # cs) st =
     (case (case target_new (tv_frame_type env) (tv_thread_return env) c of
              Inl e \<Rightarrow> (Inl e, st) | Inr _ \<Rightarrow> target_open env w c st) of
        (Inr _, st1) \<Rightarrow> (Inr c, st1)
      | (Inl e, st1) \<Rightarrow> if catches IncorrectTargetError e then setup_target env w cs st1 else (Inl e, st1))"

text \<open>\<open>check_target\<close>: the current target of gdb, if it is one of these.\<close>

datatype current_target = NoTarget | OtherTarget | CrashTarget

definition check_target :: "current_target \<Rightarrow> unit res" where
  "check_target t = (case t of CrashTarget \<Rightarrow> Inr () | _ \<Rightarrow> Inl ValueError)"

text \<open>\<open>LinuxTask.get_stack_pointer\<close>: through the target, for the thread of the task, whose \<open>info\<close> is the task.\<close>

definition task_stack_pointer :: "current_target \<Rightarrow> linux_task \<Rightarrow> int res" where
  "task_stack_pointer tgt t = bindR (check_target tgt) (\<lambda>_. bindR (of_option AttributeError (lt_thread t))
     (\<lambda>a. get_stack_pointer \<lparr>th_address = a, th_info = Some t\<rparr>))"

section \<open>What the setup of the tasks does\<close>

lemma kernel_frames_takeWhile: "kernel_frames address pcs = takeWhile (\<lambda>pc. address \<le> pc) pcs"
  by (induction pcs) (auto simp: kernel_next_def)

text \<open>The task that a thread should have, from the tasks, the runs of the CPUs and their registers.\<close>

definition expected_task ::
  "(addr \<Rightarrow> task_struct) \<Rightarrow> (int \<Rightarrow> registers) \<Rightarrow> tasks_env \<Rightarrow> int option \<Rightarrow> addr \<Rightarrow> linux_task" where
  "expected_task tk rg env cpu a = (set_thread_struct (te_thread_sp env (tk a)) (set_thread_info (te_thread_info_cpu env (tk a))
     (case cpu of None \<Rightarrow> task_new (tk a) | Some c \<Rightarrow> (task_new (tk a))\<lparr>lt_active := True, lt_cpu := c, lt_regs := rg c\<rparr>)))\<lparr>lt_thread := Some a\<rparr>"

lemma lt_task_expected [simp]: "lt_task (expected_task tk rg env cpu a) = tk a"
  by (simp add: expected_task_def set_thread_info_def set_thread_struct_def task_new_def split: option.splits)

lemma expected_stack_pointer:
  "task_stack_pointer CrashTarget (expected_task tk rg env cpu a) = Inr (te_thread_sp env (tk a))"
  by (simp add: task_stack_pointer_def check_target_def get_stack_pointer_def get_thread_struct_def expected_task_def
      set_thread_struct_def)

text \<open>
  The types of a kernel from which the class of tasks can choose its accessors: \<open>struct task_struct\<close> has a member for
  the state and one for the time of the last run, and \<open>struct mm_struct\<close> has one for the resident memory.
\<close>

definition task_types_ok :: "gtype \<Rightarrow> gtype \<Rightarrow> bool" where
  "task_types_ok t mm \<longleftrightarrow> state_field_of (type_keys t) \<noteq> None \<and>
     (case mapR (has_member mm) [''rss'', ''_rss'', ''rss_stat'', ''_file_rss'', ''_anon_rss''] of
        Inl e \<Rightarrow> False | Inr bs \<Rightarrow> True \<in> set bs) \<and>
     (''sched_info'' \<in> set (type_keys t) \<and>
        (case field_type t ''sched_info'' of Some s \<Rightarrow> ''last_arrival'' \<in> set (type_keys s) | None \<Rightarrow> False) \<or>
      ''last_run'' \<in> set (type_keys t) \<or> ''timestamp'' \<in> set (type_keys t))"

lemma pick_get_rss_ok:
  assumes "mapR (has_member mm) [''rss'', ''_rss'', ''rss_stat'', ''_file_rss'', ''_anon_rss''] = Inr bs" and "True \<in> set bs"
  shows "snd (pick_get_rss mm c) = None"
proof -
  have "length bs = 5" using mapR_length [OF assms(1)] by simp
  then obtain b0 b1 b2 b3 b4 where "bs = [b0, b1, b2, b3, b4]" by (auto simp: numeral_eq_Suc length_Suc_conv)
  then show ?thesis using assms by (auto simp: pick_get_rss_def Let_def numeral_eq_Suc)
qed

text \<open>The first task makes the class valid; the following ones leave it as it is.\<close>

definition ready_class :: "tasks_env \<Rightarrow> task_class \<Rightarrow> task_class" where
  "ready_class env c = fst (LinuxTask_new (te_task_type env) (te_mm_type env) (TaskValue (te_task_type env)) c)"

lemma LinuxTask_new_ready:
  assumes "task_types_ok (te_task_type env) (te_mm_type env)"
  shows "LinuxTask_new (te_task_type env) (te_mm_type env) (TaskValue (te_task_type env)) c = (ready_class env c, None)"
    "tc_valid (ready_class env c)"
proof -
  let ?t = "te_task_type env" and ?mm = "te_mm_type env"
  obtain bs where bs: "mapR (has_member ?mm) [''rss'', ''_rss'', ''rss_stat'', ''_file_rss'', ''_anon_rss''] = Inr bs" "True \<in> set bs"
    using assms by (auto simp: task_types_ok_def split: sum.splits)
  have rss: "snd (pick_get_rss ?mm x) = None" for x using pick_get_rss_ok [OF bs] .
  have run: "snd (pick_last_run ?t x) = None" for x
    using assms by (auto simp: task_types_ok_def pick_last_run_def)
  obtain n where "state_field_of (type_keys ?t) = Some n" using assms by (auto simp: task_types_ok_def)
  then have "snd (init_task_types ?t ?mm (TaskValue ?t) c) = None \<and> tc_valid (fst (init_task_types ?t ?mm (TaskValue ?t) c))"
    using rss run
    by (auto simp: init_task_types_def Let_def split: prod.splits option.splits) (metis option.distinct(1) snd_conv)+
  then have "snd (LinuxTask_new ?t ?mm (TaskValue ?t) c) = None \<and> tc_valid (fst (LinuxTask_new ?t ?mm (TaskValue ?t) c))"
    by (auto simp: LinuxTask_new_def split: prod.splits option.splits)
  then show "LinuxTask_new ?t ?mm (TaskValue ?t) c = (ready_class env c, None)" "tc_valid (ready_class env c)"
    by (simp_all add: ready_class_def prod_eq_iff)
qed

lemma ready_class_valid: "tc_valid c \<Longrightarrow> ready_class env c = c"
  by (simp add: ready_class_def LinuxTask_new_def init_task_types_def)

lemma setup_threads_ok:
  assumes "task_types_ok (te_task_type env) (te_mm_type env)"
    and "\<forall>th \<in> set ths. te_task_at env (th_address th) = Inr (tk (th_address th))"
    and "\<forall>a c. map_of currs a = Some c \<longrightarrow> 0 \<le> c \<and> te_regs env c = Inr (rg c)"
  shows "setup_threads env currs cc ths st =
    ((map (\<lambda>th. th\<lparr>th_info := Some (expected_task tk rg env (map_of currs (th_address th)) (th_address th))\<rparr>) ths, None),
     st\<lparr>tg_crashing := foldl (\<lambda>x th. if map_of currs (th_address th) = Some cc then Some (th_address th) else x) (tg_crashing st) ths,
        tg_tasks := foldl (\<lambda>d th. cache_task (expected_task tk rg env (map_of currs (th_address th)) (th_address th)) d) (tg_tasks st) ths,
        tg_class := if ths = [] then tg_class st else ready_class env (tg_class st)\<rparr>)"
  using assms(2)
proof (induction ths arbitrary: st)
  case (Cons th ths)
  let ?a = "th_address th"
  let ?t = "expected_task tk rg env (map_of currs ?a) ?a"
  note new = LinuxTask_new_ready [OF assms(1)]
  obtain t where t: "make_task env currs ?a (tg_class st) = (Inr t, ready_class env (tg_class st))"
    "(arch_setup_thread env t)\<lparr>lt_thread := Some ?a\<rparr> = ?t" "lt_task t = tk ?a"
    "crashing cc t \<longleftrightarrow> map_of currs ?a = Some cc"
    using Cons.prems assms(3)
    by (cases "map_of currs ?a")
       (auto simp: make_task_def new(1) set_active_def expected_task_def crashing_def task_new_def
         arch_setup_thread_def set_thread_info_def set_thread_struct_def)
  let ?st = "st\<lparr>tg_crashing := if map_of currs ?a = Some cc then Some ?a else tg_crashing st, tg_tasks := cache_task ?t (tg_tasks st),
    tg_class := ready_class env (tg_class st)\<rparr>"
  have one: "setup_thread env currs cc th st = (Inr (th\<lparr>th_info := Some ?t\<rparr>), ?st)"
    using t by (simp add: setup_thread_def)
  show ?case using Cons.IH [of ?st] Cons.prems one ready_class_valid [OF new(2)] by simp
qed simp

lemma rqs_currs_cpu:
  assumes "\<forall>(k, x) \<in> set rqs. 0 \<le> k \<and> te_rq_curr env x = Inr (cur k) \<and> te_regs env k = Inr (rg k)"
  defines "cpu_of \<equiv> \<lambda>a. find (\<lambda>k. cur k = a) (rev (map fst rqs))"
  shows "\<exists>currs. rqs_currs env rqs = Inr currs \<and> map_of currs = cpu_of \<and>
    (\<forall>a c. map_of currs a = Some c \<longrightarrow> 0 \<le> c \<and> te_regs env c = Inr (rg c))"
proof -
  have "mapR (\<lambda>(k, x). bindR (te_rq_curr env x) (\<lambda>c. Inr (c, k))) rqs = Inr (map (\<lambda>(k, x). (cur k, k)) rqs)"
    using assms(1) by (intro mapR_Inr) auto
  then obtain currs where currs: "rqs_currs env rqs = Inr currs" "map_of currs = map_of (rev (map (\<lambda>(k, x). (cur k, k)) rqs))"
    by (simp add: rqs_currs_def map_of_foldl_update)
  have "map_of (map (\<lambda>(k, x). (cur k, k)) xs) a = find (\<lambda>k. cur k = a) (map fst xs)" for xs :: "(int \<times> percpu_val) list" and a
    by (induction xs) auto
  from this [of "rev rqs"] have cpu: "map_of currs = cpu_of"
    unfolding cpu_of_def currs(2) by (simp add: fun_eq_iff rev_map)
  have "\<forall>a c. cpu_of a = Some c \<longrightarrow> 0 \<le> c \<and> te_regs env c = Inr (rg c)"
    using assms(1) by (fastforce simp: cpu_of_def dest!: find_in_set)
  then show ?thesis using currs(1) cpu by auto
qed

lemma setup_tasks_returns:
  assumes "get_percpu_vars penv pst runqueues None = (Inr rqs, pst')"
    and "\<forall>(k, x) \<in> set rqs. 0 \<le> k \<and> te_rq_curr env x = Inr (cur k) \<and> te_regs env k = Inr (rg k)"
    and "crashing_cpu_of env = Inr cc" and "task_types_ok (te_task_type env) (te_mm_type env)"
    and "\<forall>th \<in> set (tg_threads st). te_task_at env (th_address th) = Inr (tk (th_address th))"
  shows "\<exists>st'. setup_tasks env penv runqueues pst st = (Inr (), pst', st')"
proof -
  obtain currs where currs: "rqs_currs env rqs = Inr currs"
    "\<forall>a c. map_of currs a = Some c \<longrightarrow> 0 \<le> c \<and> te_regs env c = Inr (rg c)"
    using rqs_currs_cpu [OF assms(2)] by blast
  show ?thesis by (simp add: setup_tasks_def assms(1, 3) currs(1) setup_threads_ok [OF assms(4, 5) currs(2)])
qed

lemma map_of_foldl_cache:
  "map_of (foldl (\<lambda>d th. cache_task (f th) d) d ths) =
   map_of d ++ map_of (rev (map (\<lambda>th. (ts_pid (lt_task (f th)), f th)) ths))"
  by (induction ths arbitrary: d) (simp_all add: cache_task_def update_conv' map_add_def fun_eq_iff split: option.splits)

lemma foldl_last_crash:
  "foldl (\<lambda>x th. if P th then Some (f th) else x) x ths = (case find P (rev ths) of Some th \<Rightarrow> Some (f th) | None \<Rightarrow> x)"
  by (induction ths arbitrary: x) (auto simp: find_append split: option.splits)

section \<open>The search for the saved frame\<close>

fun scan_slots :: "frame_env \<Rightarrow> int list \<Rightarrow> int gen" where
  "scan_slots env [] = ([], Some RuntimeError)"
| "scan_slots env (a # as) = (case fr_read env a of
       Inl e \<Rightarrow> ([], Some e)
     | Inr v \<Rightarrow> if is_switch env (v - 5) then ([v - 5], None) else scan_slots env as)"

definition stack_slots :: "int \<Rightarrow> int \<Rightarrow> int list" where
  "stack_slots sp limit = map (\<lambda>i. sp + 8 * int i) [0..<nat ((limit - sp + 7) div 8)]"

lemma stack_slots_simps:
  "limit \<le> sp \<Longrightarrow> stack_slots sp limit = []"
  "sp < limit \<Longrightarrow> stack_slots sp limit = sp # stack_slots (sp + 8) limit"
proof -
  assume "limit \<le> sp"
  then show "stack_slots sp limit = []" by (simp add: stack_slots_def)
next
  assume lt: "sp < limit"
  then have "nat ((limit - sp + 7) div 8) = Suc (nat ((limit - (sp + 8) + 7) div 8))" by auto
  then show "stack_slots sp limit = sp # stack_slots (sp + 8) limit"
    by (simp add: stack_slots_def upt_conv_Cons map_Suc_upt [symmetric] comp_def del: upt_Suc)
qed

lemma rip_loop_scan:
  assumes "0 \<le> sp" and "limit \<le> 2 ^ 64 - 8"
  shows "gen_while (rip_step env limit) sp = Some (scan_slots env (stack_slots sp limit))"
  using assms(1)
proof (induction "nat (limit - sp)" arbitrary: sp rule: less_induct)
  case less
  show ?case
  proof (cases "sp < limit")
    case True
    have add: "ptr_add sp 8 = sp + 8" using True less.prems assms(2) by (simp add: ptr_add_def)
    have "gen_while (rip_step env limit) (sp + 8) = Some (scan_slots env (stack_slots (sp + 8) limit))"
      using less.hyps [of "sp + 8"] less.prems True by simp
    then show ?thesis using True add
      by (auto simp: stack_slots_simps rip_step_def gen_while.simps [of _ sp] gen_simps split: sum.splits)
  next
    case False
    then show ?thesis by (simp add: stack_slots_simps rip_step_def gen_while_Stop)
  qed
qed

section \<open>The registers of an active task\<close>

definition x86_delivers :: "string option \<Rightarrow> registers \<Rightarrow> string \<Rightarrow> string \<Rightarrow> bool" where
  "x86_delivers register regs n r \<longleftrightarrow> x86_regmap r = n \<and> \<not> pc_skipped ''rip'' register r \<and> map_of regs n \<noteq> None"

lemma x86_fetch_loop_lookup:
  "map_of (x86_fetch_loop register regs rs out) n =
   (if list_ex (x86_delivers register regs n) rs then map_of regs n else map_of out n)"
proof (induction rs arbitrary: out)
  case (Cons r rs)
  let ?skip = "pc_skipped ''rip'' register r"
  have "map_of (if ?skip then out else case map_of regs (x86_regmap r) of
          Some v \<Rightarrow> AList.update (x86_regmap r) v out | None \<Rightarrow> out) n =
      (if x86_delivers register regs n r then map_of regs n else map_of out n)"
    unfolding x86_delivers_def by (cases ?skip; cases "map_of regs (x86_regmap r)") (auto simp: update_conv')
  then show ?case by (simp only: x86_fetch_loop.simps Cons.IH list_ex_iff list.set) auto
qed simp

section \<open>Properties\<close>

text \<open>
  C15: The setup of the tasks: every thread gets the task at its address, active exactly if the task is the current one
  of some run queue, with that CPU and its registers (the highest such CPU, if there are several); the crashing thread
  is the last thread whose task is current on the crashing CPU; and the cache finds the task of every thread by its
  process ID, when these are different.  The class of tasks may be as it is at the start of a session: the first task
  lets it choose its accessors, for which the kernel's types must have the members it looks for, and it is valid
  afterwards.
\<close>

theorem setup_tasks_correct:
  assumes "get_percpu_vars penv pst runqueues None = (Inr rqs, pst')"
    and "\<forall>(k, x) \<in> set rqs. 0 \<le> k \<and> te_rq_curr env x = Inr (cur k) \<and> te_regs env k = Inr (rg k)"
    and "crashing_cpu_of env = Inr cc" and "task_types_ok (te_task_type env) (te_mm_type env)"
    and "\<forall>th \<in> set (tg_threads st). te_task_at env (th_address th) = Inr (tk (th_address th))"
  defines "cpu_of \<equiv> \<lambda>a. find (\<lambda>k. cur k = a) (rev (map fst rqs))"
  shows "\<exists>st'. setup_tasks env penv runqueues pst st = (Inr (), pst', st') \<and>
    map th_address (tg_threads st') = map th_address (tg_threads st) \<and>
    map th_info (tg_threads st') = map (\<lambda>th. Some (expected_task tk rg env (cpu_of (th_address th)) (th_address th))) (tg_threads st) \<and>
    tg_crashing st' = (case find (\<lambda>th. cpu_of (th_address th) = Some cc) (rev (tg_threads st)) of
        Some th \<Rightarrow> Some (th_address th) | None \<Rightarrow> tg_crashing st) \<and>
    (distinct (map (\<lambda>th. ts_pid (tk (th_address th))) (tg_threads st)) \<longrightarrow>
      (\<forall>th \<in> set (tg_threads st). get_task (ts_pid (tk (th_address th))) (tg_tasks st') =
         Inr (expected_task tk rg env (cpu_of (th_address th)) (th_address th)))) \<and>
    (tg_threads st \<noteq> [] \<longrightarrow> tc_valid (tg_class st'))"
proof -
  obtain currs where currs: "rqs_currs env rqs = Inr currs" "map_of currs = cpu_of"
    and ok: "\<forall>a c. map_of currs a = Some c \<longrightarrow> 0 \<le> c \<and> te_regs env c = Inr (rg c)"
    using rqs_currs_cpu [OF assms(2)] unfolding cpu_of_def by blast
  let ?f = "\<lambda>th. expected_task tk rg env (cpu_of (th_address th)) (th_address th)"
  note threads = setup_threads_ok [OF assms(4, 5) ok, of cc, unfolded currs(2)]
  define st' where "st' = snd (setup_threads env currs cc (tg_threads st) st)
    \<lparr>tg_threads := fst (fst (setup_threads env currs cc (tg_threads st) st))\<rparr>"
  have eq: "setup_tasks env penv runqueues pst st = (Inr (), pst', st')"
    by (simp add: setup_tasks_def assms(1, 3) currs(1) threads st'_def)
  have crash: "tg_crashing st' = (case find (\<lambda>th. cpu_of (th_address th) = Some cc) (rev (tg_threads st)) of
      Some th \<Rightarrow> Some (th_address th) | None \<Rightarrow> tg_crashing st)"
    by (simp add: st'_def threads foldl_last_crash)
  have tasks: "map_of (tg_tasks st') = map_of (tg_tasks st) ++ map_of (rev (map (\<lambda>th. (ts_pid (tk (th_address th)), ?f th)) (tg_threads st)))"
    by (simp add: st'_def threads map_of_foldl_cache)
  have cache: "get_task (ts_pid (tk (th_address th))) (tg_tasks st') = Inr (?f th)"
    if d: "distinct (map (\<lambda>th. ts_pid (tk (th_address th))) (tg_threads st))" and "th \<in> set (tg_threads st)" for th
  proof -
    have "distinct (map fst (map (\<lambda>th. (ts_pid (tk (th_address th)), ?f th)) (tg_threads st)))" using d by (simp add: comp_def)
    then have "map_of (map (\<lambda>th. (ts_pid (tk (th_address th)), ?f th)) (tg_threads st)) (ts_pid (tk (th_address th))) = Some (?f th)"
      using that(2) by (intro map_of_is_SomeI) auto
    then show ?thesis using d by (simp add: get_task_def tasks map_add_def map_of_rev_distinct comp_def)
  qed
  have "tg_threads st \<noteq> [] \<longrightarrow> tc_valid (tg_class st')"
    using LinuxTask_new_ready(2) [OF assms(4)] by (simp add: st'_def threads)
  then show ?thesis using eq crash cache by (intro exI [of _ st']) (simp add: st'_def threads comp_def)
qed

definition ex_thread_task :: "addr \<Rightarrow> task_struct" where
  "ex_thread_task a = \<lparr>ts_address = a, ts_pid = a div 16, ts_parent_pid = 0, ts_comm = ''sh'', ts_state = 0, ts_exit_state = 0,
     ts_flags = 0, ts_exit_signal = 0, ts_mm = 0, ts_cpu = None, ts_last_run = 0, ts_timestamp = 0, ts_last_arrival = 0\<rparr>"

lemma ex_thread_pid: "ts_pid (ex_thread_task a) = a div 16"
  by (simp add: ex_thread_task_def)

definition ex_tasks_env :: tasks_env where
  "ex_tasks_env = \<lparr>te_task_at = (\<lambda>a. Inr (ex_thread_task a)), 
     te_task_type = GType CODE_STRUCT 16 ''task_struct'' None [GField (Some ''__state'') 0 ex_int, GField (Some ''last_run'') 64 ex_int],
     te_mm_type = GType CODE_STRUCT 8 ''mm_struct'' None [GField (Some ''rss_stat'') 0 ex_int],
     te_rq_curr = (\<lambda>x. case x of PObject a _ \<Rightarrow> Inr (a div 65536 * 16) | PVoid a \<Rightarrow> Inl GdbMemoryError),
     te_regs = (\<lambda>cpu. Inr [(''rip'', cpu)]), te_crashing_cpu = Inr 1, te_thread_info_cpu = (\<lambda>_. 0), te_thread_sp = ts_address\<rparr>"

definition ex_target_state :: target_state where
  "ex_target_state = \<lparr>tg_threads = map (\<lambda>a. \<lparr>th_address = a, th_info = None\<rparr>) [16, 32, 48],
     tg_crashing = None, tg_tasks = [], tg_class = task_class_init\<rparr>"

theorem setup_tasks_correct_witness:
  "\<exists>pst' st'. setup_tasks ex_tasks_env ex_penv (PSymbol \<lparr>gv_type = ex_int, gv_address = Some 4100, gv_int = 0\<rparr>)
      (percpu_init\<lparr>nr_cpus := 2, static_ranges := [(4096, 4096)]\<rparr>) ex_target_state = (Inr (), pst', st') \<and>
    tg_crashing st' = Some 32 \<and> tc_valid (tg_class st') \<and>
    get_task 2 (tg_tasks st') = Inr (expected_task ex_thread_task (\<lambda>cpu. [(''rip'', cpu)]) ex_tasks_env (Some 1) 32) \<and>
    get_task 3 (tg_tasks st') = Inr (expected_task ex_thread_task (\<lambda>cpu. [(''rip'', cpu)]) ex_tasks_env None 48)"
proof -
  let ?pst = "percpu_init\<lparr>nr_cpus := 2, static_ranges := [(4096, 4096)]\<rparr>"
  let ?rq = "PSymbol \<lparr>gv_type = ex_int, gv_address = Some 4100, gv_int = 0\<rparr>"
  let ?rqs = "[(0, PObject 65540 (Some ex_int)), (1, PObject 131076 (Some ex_int))] :: (int \<times> percpu_val) list"
  have percpu: "get_percpu_vars ex_penv ?pst ?rq None = (Inr ?rqs, ?pst)" by code_simp
  have "\<forall>(k, x) \<in> set ?rqs. 0 \<le> k \<and> te_rq_curr ex_tasks_env x = Inr (16 * (k + 1)) \<and> te_regs ex_tasks_env k = Inr [(''rip'', k)]"
    "crashing_cpu_of ex_tasks_env = Inr 1"
    by (simp_all add: ex_tasks_env_def crashing_cpu_of_def)
  moreover have "task_types_ok (te_task_type ex_tasks_env) (te_mm_type ex_tasks_env)" by code_simp
  moreover have
    "\<forall>th \<in> set (tg_threads ex_target_state). te_task_at ex_tasks_env (th_address th) = Inr (ex_thread_task (th_address th))"
    by (simp add: ex_tasks_env_def)
  ultimately show ?thesis
    using setup_tasks_correct [OF percpu, of ex_tasks_env "\<lambda>k. 16 * (k + 1)" "\<lambda>k. [(''rip'', k)]" 1 ex_target_state ex_thread_task]
    by (auto simp: ex_target_state_def ex_thread_pid)
qed

text \<open>
  Choosing the target: the first registered class that is enabled opens, which is never the one of ppc64; an
  enabled class for \<open>thread_return\<close> wins over the one for inactive frames.  When no class is enabled, nothing has
  happened and the target is reported as incorrect.
\<close>

theorem setup_target_choice:
  "setup_target env w targets st =
     (if tv_thread_return env
      then (case target_open env w X8664ThreadReturnTarget st of
          (Inr _, st1) \<Rightarrow> (Inr X8664ThreadReturnTarget, st1)
        | (Inl e, st1) \<Rightarrow> if catches IncorrectTargetError e then setup_target env w [X8664InactiveFrameTarget] st1 else (Inl e, st1))
      else if tv_frame_type env
      then (case target_open env w X8664InactiveFrameTarget st of
          (Inr _, st1) \<Rightarrow> (Inr X8664InactiveFrameTarget, st1)
        | (Inl e, st1) \<Rightarrow> if catches IncorrectTargetError e then (Inl IncorrectTargetError, st1) else (Inl e, st1))
      else (Inl IncorrectTargetError, st))"
proof -
  have "catches IncorrectTargetError IncorrectTargetError" by code_simp
  moreover have "target_open env w c st = (Inl IncorrectTargetError, st)"
    if "\<not> fetch_registers_usable (tv_frame_type env) (tv_thread_return env) c" for c
    using that by (simp add: target_open_def)
  ultimately show ?thesis by (auto simp: targets_def target_new_def split: sum.splits prod.splits)
qed

text \<open>
  C32: The search for the return address of the context switch ends, and is the scan of the stack slots from the saved
  stack pointer up to 16 KiB above the base of the stack: the first slot that holds the address after a call of
  \<open>__switch_to_asm\<close>, or an error when there is none.
\<close>

theorem find_scheduled_rip_correct:
  assumes "0 \<le> fr_sp env ts" and "fr_stack env ts + 16384 \<le> 2 ^ 64 - 8"
  shows "find_scheduled_rip env ts = Some (scan_slots env (stack_slots (fr_sp env ts) (fr_stack env ts + 16384)))"
  using rip_loop_scan [OF assms] by (simp add: find_scheduled_rip_def)

definition ex_frame_env :: frame_env where
  "ex_frame_env = \<lparr>fr_read = (\<lambda>a. if a = 16376 then Inr (KERNEL_ADDRESS + 10) else Inr 0),
     fr_insn = (\<lambda>v. if v = KERNEL_ADDRESS + 5 then Some ''=> 0xffff: callq 0x10 <__switch_to_asm>'' else None),
     fr_stack = (\<lambda>_. 0), fr_sp = (\<lambda>_. 16360), fr_value = (\<lambda>_. 0), fr_member = (\<lambda>_ _. 0), fr_thread_return = Inr 0\<rparr>"

theorem find_scheduled_rip_correct_witness:
  "find_scheduled_rip ex_frame_env (ex_thread_task 16) = Some ([0xffff000000000005], None)"
proof -
  have slots: "stack_slots 16360 16384 = [16360, 16368, 16376]" by (simp add: stack_slots_simps)
  have "search_call ''=> 0xffff: callq 0x10 <__switch_to_asm>'' = Some ''__switch_to_asm''" by code_simp
  then have "is_switch ex_frame_env (KERNEL_ADDRESS + 5)" by (simp add: is_switch_def ex_frame_env_def)
  moreover have "\<not> is_switch ex_frame_env (- 5)" by (simp add: is_switch_def KERNEL_ADDRESS_def)
  moreover have "fr_read ex_frame_env 16360 = Inr 0" "fr_read ex_frame_env 16368 = Inr 0"
    "fr_read ex_frame_env 16376 = Inr (KERNEL_ADDRESS + 10)" by (simp_all add: ex_frame_env_def)
  ultimately have "scan_slots ex_frame_env [16360, 16368, 16376] = ([KERNEL_ADDRESS + 5], None)"
    by (simp add: add.commute)
  moreover have "find_scheduled_rip ex_frame_env (ex_thread_task 16) = Some (scan_slots ex_frame_env (stack_slots 16360 16384))"
    using find_scheduled_rip_correct [of ex_frame_env "ex_thread_task 16"] by (simp add: ex_frame_env_def)
  ultimately show ?thesis by (simp add: slots KERNEL_ADDRESS_def)
qed

text \<open>
  An exception other than \<^verbatim>\<open>AttributeError\<close> while the registers of one thread are fetched is final: from then on
  the target has no registers for any thread, active ones included.
\<close>

theorem fetch_registers_stuck:
  assumes "\<not> fs_fetching st" and "th_info th = Some t" and "\<not> lt_active t"
    and "find_scheduled_rip env (lt_task t) = Some ([], Some e)" and "fs_scheduled_rip st = 0" and "\<not> catches AttributeError e"
  shows "\<exists>st'. fetch_registers x86_fetch_active (inactive_fetch_scheduled env) th reg st = Some (Inl e, st') \<and>
    (\<forall>th' reg'. fetch_registers x86_fetch_active (inactive_fetch_scheduled env) th' reg' st' = Some (Inr None, st'))"
  using assms by (simp add: fetch_registers_def inactive_fetch_scheduled_def get_scheduled_rip_def set_stack_pointer_def)

definition ex_thread :: "bool \<Rightarrow> thread" where
  "ex_thread active = \<lparr>th_address = 16, th_info = Some ((task_new (ex_thread_task 16))\<lparr>lt_active := active\<rparr>)\<rparr>"

definition ex_fetch :: fetch_state where
  "ex_fetch = \<lparr>fs_fetching = False, fs_scheduled_rip = 0, fs_stack_pointers = []\<rparr>"

theorem fetch_registers_stuck_witness:
  "\<exists>st'. fetch_registers x86_fetch_active (inactive_fetch_scheduled (ex_frame_env\<lparr>fr_read := (\<lambda>_. Inr 0)\<rparr>)) (ex_thread False) None ex_fetch =
      Some (Inl RuntimeError, st') \<and>
    fetch_registers x86_fetch_active (inactive_fetch_scheduled (ex_frame_env\<lparr>fr_read := (\<lambda>_. Inr 0)\<rparr>)) (ex_thread True) None st' =
      Some (Inr None, st')"
proof -
  let ?env = "ex_frame_env\<lparr>fr_read := (\<lambda>_. Inr 0)\<rparr>" and ?t = "(task_new (ex_thread_task 16))\<lparr>lt_active := False\<rparr>"
  have "\<not> is_switch ?env (- 5)" by (simp add: is_switch_def KERNEL_ADDRESS_def)
  then have "scan_slots ?env [16360, 16368, 16376] = ([], Some RuntimeError)" by simp
  then have rip: "find_scheduled_rip ?env (lt_task ?t) = Some ([], Some RuntimeError)"
    using rip_loop_scan [of 16360 16384 ?env]
    by (simp add: find_scheduled_rip_def stack_slots_simps) (simp add: ex_frame_env_def)
  have "\<not> catches AttributeError RuntimeError" by code_simp
  then show ?thesis using fetch_registers_stuck [of ex_fetch "ex_thread False" ?t ?env RuntimeError None] rip
    by (auto simp: ex_fetch_def ex_thread_def)
qed

text \<open>
  The registers of an active x86-64 task are those of the dump under their own names, without the program counter
  when another register was asked for.  The flags are the exception: the dump has them as \<open>rflags\<close>, gdb as \<open>eflags\<close>,
  and they are delivered under neither name.
\<close>

theorem x86_fetch_active_registers:
  assumes "distinct (map fst (lt_regs t))" and "map_of (lt_regs t) ''eflags'' = None"
  shows "map_of (x86_fetch_active t register) n =
    (if n = ''rflags'' \<or> pc_skipped ''rip'' register n then None else map_of (lt_regs t) n)"
proof -
  have "list_ex (x86_delivers register (lt_regs t) n) (map fst (lt_regs t)) \<longleftrightarrow>
      n \<noteq> ''rflags'' \<and> \<not> pc_skipped ''rip'' register n \<and> map_of (lt_regs t) n \<noteq> None"
  proof (cases "n = ''eflags''")
    case False
    have "map_of (lt_regs t) n \<noteq> None \<longleftrightarrow> n \<in> set (map fst (lt_regs t))" by (metis domIff dom_map_of_conv_image_fst set_map)
    then show ?thesis using False by (auto simp: list_ex_iff x86_delivers_def x86_regmap_def split: if_splits)
  qed (simp add: assms(2) x86_delivers_def list_ex_iff)
  then show ?thesis by (auto simp: x86_fetch_active_def x86_fetch_loop_lookup)
qed

theorem x86_fetch_active_registers_witness:
  "map_of (x86_fetch_active ((task_new (ex_thread_task 16))\<lparr>lt_regs := [(''rip'', 7), (''rflags'', 2), (''rsp'', 9)]\<rparr>) (Some ''rsp'')) ''rsp'' = Some 9 \<and>
   map_of (x86_fetch_active ((task_new (ex_thread_task 16))\<lparr>lt_regs := [(''rip'', 7), (''rflags'', 2), (''rsp'', 9)]\<rparr>) None) ''eflags'' = None"
  using x86_fetch_active_registers [of "(task_new (ex_thread_task 16))\<lparr>lt_regs := [(''rip'', 7), (''rflags'', 2), (''rsp'', 9)]\<rparr>"]
  by (simp add: pc_skipped_def)

end
