(* ===== verification/Fnmatch.thy ===== *)
theory Fnmatch
  imports Prelude
begin

text \<open>
  The patterns of Python's \<^verbatim>\<open>fnmatch\<close>, which \<^verbatim>\<open>crash/commands/ps.py\<close>, \<^verbatim>\<open>crash/commands/lsmod.py\<close> and \<^verbatim>\<open>crash/kernel.py\<close> translate
  to regular expressions: \<open>*\<close>, \<open>?\<close> and sets of characters in brackets.  \<open>parse_pattern\<close> reads a pattern as
  \<^verbatim>\<open>fnmatch.translate\<close> does, \<open>match_pattern\<close> matches it; matching is shown to be the splitting of the name into one word for
  each element of the pattern.

  A range whose ends are out of order matches no character.
\<close>

section \<open>Patterns\<close>

datatype pattern_item = Lit char | AnyChar | Star | CharSet bool "(char \<times> char) list"

text \<open>The content of the brackets: ranges and single characters, where a hyphen at either end is a character.\<close>

fun set_items :: "string \<Rightarrow> (char \<times> char) list" where
  "set_items (c # h # d # r) = (if h = CHR ''-'' then (c, d) # set_items r else (c, c) # set_items (h # d # r))"
| "set_items [c, d] = [(c, c), (d, d)]"
| "set_items [c] = [(c, c)]"
| "set_items [] = []"

definition char_set :: "string \<Rightarrow> pattern_item" where
  "char_set s = (case s of
       c # r \<Rightarrow> if c = CHR ''!'' then CharSet False (set_items r) else CharSet True (set_items s)
     | [] \<Rightarrow> CharSet True [])"

text \<open>
  The set that starts after an opening bracket and what follows it; a closing bracket in the first position is an element.
  Without a closing bracket there is no set.
\<close>

definition set_end :: "string \<Rightarrow> (string \<times> string) option" where
  "set_end s =
     (let i = (if take 1 s = ''!'' then 1 else 0);
          k = (if take 1 (drop i s) = '']'' then i + 1 else i);
          j = k + length (takeWhile (\<lambda>c. c \<noteq> CHR '']'') (drop k s))
      in if j < length s then Some (take j s, drop (j + 1) s) else None)"

lemma set_end_shorter: "set_end s = Some (a, b) \<Longrightarrow> length b < length s"
  by (auto simp: set_end_def Let_def split: if_splits)

function parse_pattern :: "string \<Rightarrow> pattern_item list" where
  "parse_pattern [] = []"
| "parse_pattern (c # r) =
     (if c = CHR ''*'' then Star # parse_pattern r
      else if c = CHR ''?'' then AnyChar # parse_pattern r
      else if c = CHR ''['' then (case set_end r of
          None \<Rightarrow> Lit c # parse_pattern r
        | Some (s, r') \<Rightarrow> char_set s # parse_pattern r')
      else Lit c # parse_pattern r)"
  by pat_completeness auto
termination by (relation "measure length") (auto dest: set_end_shorter)

section \<open>Matching\<close>

definition in_range :: "char \<Rightarrow> char \<times> char \<Rightarrow> bool" where
  "in_range c r \<longleftrightarrow> (of_char (fst r) :: nat) \<le> of_char c \<and> (of_char c :: nat) \<le> of_char (snd r)"

fun match_char :: "pattern_item \<Rightarrow> char \<Rightarrow> bool" where
  "match_char (Lit d) c \<longleftrightarrow> c = d"
| "match_char (CharSet pos rs) c \<longleftrightarrow> list_ex (in_range c) rs = pos"
| "match_char AnyChar c \<longleftrightarrow> True"
| "match_char Star c \<longleftrightarrow> True"

fun match_pattern :: "pattern_item list \<Rightarrow> string \<Rightarrow> bool" where
  "match_pattern [] s \<longleftrightarrow> s = []"
| "match_pattern (p # ps) [] \<longleftrightarrow> p = Star \<and> match_pattern ps []"
| "match_pattern (p # ps) (c # s) \<longleftrightarrow>
     (if p = Star then match_pattern ps (c # s) \<or> match_pattern (p # ps) s else match_char p c \<and> match_pattern ps s)"

definition fnmatch :: "string \<Rightarrow> string \<Rightarrow> bool" where
  "fnmatch pat s \<longleftrightarrow> match_pattern (parse_pattern pat) s"

text \<open>The words that an element matches.\<close>

definition item_matches :: "pattern_item \<Rightarrow> string \<Rightarrow> bool" where
  "item_matches p w \<longleftrightarrow> p = Star \<or> (\<exists>c. w = [c] \<and> match_char p c)"

lemma match_pattern_star: "match_pattern (Star # ps) s \<longleftrightarrow> (\<exists>u v. s = u @ v \<and> match_pattern ps v)"
proof (induction s)
  case (Cons c s)
  have "(\<exists>u v. c # s = u @ v \<and> match_pattern ps v) \<longleftrightarrow>
      match_pattern ps (c # s) \<or> (\<exists>u v. s = u @ v \<and> match_pattern ps v)"
    by (metis append_Cons append_Nil append_eq_Cons_conv)
  then show ?case using Cons.IH by simp
qed simp

lemma match_pattern_item:
  "match_pattern (p # ps) s \<longleftrightarrow> (\<exists>w v. s = w @ v \<and> item_matches p w \<and> match_pattern ps v)"
proof (cases "p = Star")
  case True
  then show ?thesis by (simp add: match_pattern_star item_matches_def)
next
  case False
  then show ?thesis by (cases s) (auto simp: item_matches_def intro: exI [of _ "[_]"])
qed

theorem match_pattern_words:
  "match_pattern ps s \<longleftrightarrow> (\<exists>ws. s = concat ws \<and> list_all2 item_matches ps ws)"
proof (induction ps arbitrary: s)
  case (Cons p ps)
  show ?case unfolding match_pattern_item list_all2_Cons1 Cons.IH by (metis concat.simps(2))
qed simp

section \<open>Simple patterns\<close>

definition plain :: "string \<Rightarrow> bool" where
  "plain s \<longleftrightarrow> set s \<inter> {CHR ''*'', CHR ''?'', CHR ''[''} = {}"

lemma parse_plain: "plain s \<Longrightarrow> parse_pattern (s @ t) = map Lit s @ parse_pattern t"
  by (induction s) (auto simp: plain_def)

lemma match_lits: "match_pattern (map Lit s @ ps) t \<longleftrightarrow> (\<exists>v. t = s @ v \<and> match_pattern ps v)"
  by (induction s arbitrary: t) (auto simp: match_pattern_item [of "Lit _"] item_matches_def)

lemma fnmatch_plain: "plain s \<Longrightarrow> fnmatch s t \<longleftrightarrow> t = s"
  using parse_plain [of s "[]"] match_lits [of s "[]"] by (simp add: fnmatch_def)

lemma fnmatch_suffix: "plain s \<Longrightarrow> fnmatch (''*'' @ s) t \<longleftrightarrow> (\<exists>u. t = u @ s)"
  using parse_plain [of s "[]"] match_lits [of s "[]"] by (simp add: fnmatch_def match_pattern_star)

lemma fnmatch_prefix: "plain s \<Longrightarrow> fnmatch (s @ ''*'') t \<longleftrightarrow> (\<exists>u. t = s @ u)"
  using parse_plain [of s "''*''"] match_lits [of s "[Star]"] by (simp add: fnmatch_def match_pattern_star)

lemma fnmatch_examples:
  "fnmatch ''k*[0-9/]?'' ''kworker/3'' = True" "fnmatch ''k*[0-9/]?'' ''kswapd0'' = False"
  "fnmatch ''[!a-c]'' ''d'' = True" "fnmatch ''[]-]'' ''-'' = True" "fnmatch ''[z-a]'' ''z'' = False" "fnmatch ''[a'' ''[a'' = True"
  by code_simp+

end
