(* ===== verification/Ps.thy ===== *)
theory Ps
  imports Target Storage Fnmatch
begin

text \<open>
  The command \<open>ps\<close>: \<^verbatim>\<open>crash/commands/ps.py\<close>.
  What the tasks hold is a parameter, with the flags and the class of theory \<open>Task\<close>.
\<close>

section \<open>Formats\<close>

text \<open>Python's \<open>f"{s:>w}"\<close>, \<open>f"{s:w}"\<close> of a string and \<open>f"{s:^w}"\<close>.\<close>

definition rjust :: "nat \<Rightarrow> string \<Rightarrow> string" where
  "rjust w s = replicate (w - length s) CHR '' '' @ s"

definition ljust :: "nat \<Rightarrow> string \<Rightarrow> string" where
  "ljust w s = s @ replicate (w - length s) CHR '' ''"

definition center :: "nat \<Rightarrow> string \<Rightarrow> string" where
  "center w s = (let p = w - length s in replicate (p div 2) CHR '' '' @ s @ replicate (p - p div 2) CHR '' '')"

text \<open>\<open>f"{n:x}"\<close>\<close>

definition py_hexi :: "int \<Rightarrow> string" where
  "py_hexi n = (if n < 0 then CHR ''-'' # py_hex (nat (- n)) else py_hex (nat n))"

record ps_args =
  arg_s :: bool
  arg_n :: bool
  arg_k :: bool
  arg_u :: bool
  arg_G :: bool
  arg_l :: bool
  arg_unimplemented :: bool  \<comment> \<open>one of \<open>-p\<close>, \<open>-c\<close>, \<open>-t\<close>, \<open>-a\<close>, \<open>-g\<close>, \<open>-r\<close>\<close>
  arg_pattern :: "string option"

text \<open>A thread of gdb: its number and the task in \<open>info\<close>, if it has one.\<close>

type_synonym ps_thread = "int \<times> linux_task option"

record ps_env =
  pe_flags :: task_flags
  pe_class :: task_class
  pe_mms :: "addr \<Rightarrow> mm_struct res"
  pe_init_mm :: "addr option"
  pe_target :: current_target

definition generic_header :: "string \<Rightarrow> nat \<Rightarrow> string" where
  "generic_header name w = ''    PID    PPID  CPU '' @ center w name @ ''  ST  %MEM     VSZ    RSS  COMM''"

definition format_header :: "ps_args \<Rightarrow> string" where
  "format_header args =
     (if arg_l args then []
      else if arg_s args then generic_header ''KSTACK'' 16
      else if arg_n args then generic_header ''THREAD#'' 7
      else generic_header ''TASK'' 16)"

definition format_column4 :: "ps_env \<Rightarrow> ps_args \<Rightarrow> int \<Rightarrow> linux_task \<Rightarrow> string res" where
  "format_column4 env args num t =
     (if arg_s args then bindR (task_stack_pointer (pe_target env) t) (\<lambda>a. Inr (rjust 16 (py_hexi a)))
      else if arg_n args then Inr (rjust 7 (py_dec num))
      else Inr (rjust 16 (py_hexi (ts_address (lt_task t)))))"

definition ps_filter :: "ps_env \<Rightarrow> ps_args \<Rightarrow> linux_task \<Rightarrow> bool" where
  "ps_filter env args t =
     (if arg_k args then is_kernel_task (pe_flags env) (pe_class env) (pe_init_mm env) t
      else if arg_u args then \<not> is_kernel_task (pe_flags env) (pe_class env) (pe_init_mm env) t
      else if arg_G args then is_thread_group_leader t
      else True)"

definition ps_name :: "ps_env \<Rightarrow> linux_task \<Rightarrow> string" where
  "ps_name env t = task_name (pe_flags env) (pe_class env) (pe_init_mm env) False t"

definition should_print_task :: "ps_env \<Rightarrow> ps_args \<Rightarrow> linux_task \<Rightarrow> bool" where
  "should_print_task env args t \<longleftrightarrow> ps_filter env args t \<and>
     (case arg_pattern args of None \<Rightarrow> True | Some p \<Rightarrow> fnmatch p (ps_name env t))"

definition format_common_line :: "ps_env \<Rightarrow> ps_args \<Rightarrow> int \<Rightarrow> linux_task \<Rightarrow> string \<Rightarrow> string res" where
  "format_common_line env args num t state =
     bindR (get_last_cpu t) (\<lambda>cpu. bindR (format_column4 env args num t) (\<lambda>col4.
       Inr ((if lt_active t then ''>'' else '' '') @ '' '' @ rjust 5 (py_dec (ts_pid (lt_task t))) @ ''   '' @
            rjust 5 (py_dec (ts_parent_pid (lt_task t))) @ ''  '' @ rjust 3 (py_dec cpu) @ ''  '' @ col4 @ '' '' @ ljust 3 state @
            ''  0.0 '' @ rjust 7 (py_dec (lt_total_vm t * 4096 div 1024)) @ '' '' @ rjust 6 (py_dec (lt_rss t * 4096 div 1024)) @
            ''  '' @ ps_name env t)))"

definition format_last_run :: "ps_env \<Rightarrow> linux_task \<Rightarrow> string \<Rightarrow> string res" where
  "format_last_run env t state =
     bindR (get_last_cpu t) (\<lambda>last_cpu. bindR (last_run (pe_class env) t) (\<lambda>lr.
       Inr (''['' @ py_dec lr @ ''] ['' @ state @ '']  PID: '' @ rjust 5 (py_dec (ts_pid (lt_task t))) @ ''  TASK: '' @
            py_hexi (ts_address (lt_task t)) @ '' CPU: '' @ rjust 2 (py_dec (if lt_active t then lt_cpu t else last_cpu)) @
            ''  COMMAND: \"'' @ ps_name env t @ ''\"'')))"

definition format_one_task :: "ps_env \<Rightarrow> ps_args \<Rightarrow> int \<Rightarrow> linux_task \<Rightarrow> string \<Rightarrow> string res" where
  "format_one_task env args num t state =
     (if arg_l args then format_last_run env t state else format_common_line env args num t state)"

section \<open>States\<close>

definition setup_task_states :: "task_flags \<Rightarrow> (int \<times> string) list" where
  "setup_task_states fl =
     (let upd = (\<lambda>d (name, s). AList.update (flag fl name) s d);
          d1 = foldl upd [] [(''TASK_RUNNING'', ''RU''), (''TASK_INTERRUPTIBLE'', ''IN''), (''TASK_UNINTERRUPTIBLE'', ''UN''),
            (''EXIT_ZOMBIE'', ''ZO''), (''TASK_STOPPED'', ''ST'')]
      in foldl upd d1 (filter (\<lambda>(name, s). has_task_flag fl name)
           [(''TASK_SWAPPING'', ''SW''), (''TASK_DEAD'', ''DE''), (''TASK_TRACING_STOPPED'', ''TR''), (''TASK_IDLE'', ''ID'')]))"

text \<open>The string, and whether the message about an unknown state is printed.\<close>

definition task_state_string :: "ps_env \<Rightarrow> (int \<times> string) list \<Rightarrow> linux_task \<Rightarrow> (string \<times> bool) res" where
  "task_state_string env states t =
     (let state = task_state (pe_class env) t;
          buf = (case find (\<lambda>b. state AND b = b) (rev (sort (map fst states))) of
                   None \<Rightarrow> [] | Some b \<Rightarrow> the (map_of states b));
          dead = flag (pe_flags env) ''TASK_DEAD''
      in bindR (if state AND dead \<noteq> 0 \<and> maybe_dead (pe_flags env) (pe_class env) t
                then of_option KeyError (map_of states dead) else Inr buf) (\<lambda>s. Inr (s, s = [])))"

section \<open>The command\<close>

definition ps_key :: "ps_env \<Rightarrow> ps_args \<Rightarrow> ps_thread \<Rightarrow> int res" where
  "ps_key env args th = (case snd th of
       None \<Rightarrow> Inl AttributeError
     | Some t \<Rightarrow> if arg_l args then bindR (last_run (pe_class env) t) (\<lambda>n. Inr (- n)) else Inr (ts_pid (lt_task t)))"

definition sorted_threads :: "ps_env \<Rightarrow> ps_args \<Rightarrow> ps_thread list \<Rightarrow> ps_thread list res" where
  "sorted_threads env args ths = bindR (mapR (ps_key env args) ths) (\<lambda>ks. Inr (map snd (sort_key fst (zip ks ths))))"

text \<open>One task that is printed: the lines, the exception, and the task with its memory statistics.\<close>

definition ps_task :: "ps_env \<Rightarrow> ps_args \<Rightarrow> (int \<times> string) list \<Rightarrow> int \<Rightarrow> linux_task \<Rightarrow> string gen \<times> linux_task" where
  "ps_task env args states num t = (case update_mem_usage (pe_flags env) (pe_mms env) (pe_class env) t of
       (t', Some e) \<Rightarrow> (gen_raise e, t')
     | (t', None) \<Rightarrow> (gen_try (task_state_string env states t') (\<lambda>(s, unknown). gen_yields
           (if unknown then [''Unknown state '' @ py_dec (task_state (pe_class env) t') @ '' found''] else [])
           (gen_of_res (format_one_task env args num t' s))), t'))"

text \<open>The loop: lines, number of tasks printed, and the threads with their tasks as they are left.\<close>

fun ps_loop :: "ps_env \<Rightarrow> ps_args \<Rightarrow> (int \<times> string) list \<Rightarrow> string \<Rightarrow> ps_thread list \<Rightarrow> string gen \<times> nat \<times> ps_thread list" where
  "ps_loop env args states header [] = (gen_done, 0, [])"
| "ps_loop env args states header ((num, None) # ths) =
     (let (g, n, ths') = ps_loop env args states header ths in (g, n, (num, None) # ths'))"
| "ps_loop env args states header ((num, Some t) # ths) =
     (if \<not> should_print_task env args t then
        let (g, n, ths') = ps_loop env args states header ths in (g, n, (num, Some t) # ths')
      else
        let (g1, t') = ps_task env args states num t; g = gen_yields (if header = [] then [] else [header]) g1
        in case snd g1 of
             Some e \<Rightarrow> (g, 0, (num, Some t') # ths)
           | None \<Rightarrow> let (g2, n, ths') = ps_loop env args states [] ths in (gen_seq g g2, Suc n, (num, Some t') # ths'))"

definition ps_execute ::
  "ps_env \<Rightarrow> ps_args \<Rightarrow> ps_thread list \<Rightarrow> (int \<times> string) list \<Rightarrow> string gen \<times> ps_thread list \<times> (int \<times> string) list" where
  "ps_execute env args ths states0 =
     (if arg_unimplemented args then (gen_raise CommandError, ths, states0)
      else
        let states = (if states0 = [] then setup_task_states (pe_flags env) else states0)
        in case sorted_threads env args ths of
             Inl e \<Rightarrow> (gen_raise e, ths, states)
           | Inr order \<Rightarrow>
               let (g, n, ths') = ps_loop env args states (format_header args) order
               in (if snd g = None \<and> n = 0 then
                     (case arg_pattern args of
                        Some p \<Rightarrow> gen_seq g (gen_of_list [''No matches for '' @ p @ ''.''])
                      | None \<Rightarrow> gen_seq g (gen_raise CommandError))
                   else g, ths', states))"

section \<open>The state of a task\<close>

definition state_names :: "task_flags \<Rightarrow> (string \<times> string) list" where
  "state_names fl = [(''TASK_RUNNING'', ''RU''), (''TASK_INTERRUPTIBLE'', ''IN''), (''TASK_UNINTERRUPTIBLE'', ''UN''),
     (''EXIT_ZOMBIE'', ''ZO''), (''TASK_STOPPED'', ''ST'')] @ filter (\<lambda>(name, s). has_task_flag fl name)
     [(''TASK_SWAPPING'', ''SW''), (''TASK_DEAD'', ''DE''), (''TASK_TRACING_STOPPED'', ''TR''), (''TASK_IDLE'', ''ID'')]"

lemma foldl_update_map:
  "map_of (foldl (\<lambda>d (name, s). AList.update (flag fl name) s d) d xs) =
     map_of d ++ map_of (rev (map (\<lambda>(name, s). (flag fl name, s)) xs))"
  by (induction xs arbitrary: d) (auto simp: update_conv' map_add_assoc)

lemma setup_task_states_map:
  "map_of (setup_task_states fl) = map_of (rev (map (\<lambda>(name, s). (flag fl name, s)) (state_names fl)))"
  unfolding setup_task_states_def Let_def foldl_append [symmetric] state_names_def [symmetric]
  by (simp only: foldl_update_map map_of.simps empty_map_add)

lemma setup_task_states_keys: "fst ` set (setup_task_states fl) = flag fl ` fst ` set (state_names fl)"
  unfolding dom_map_of_conv_image_fst [symmetric] setup_task_states_map
  by (simp add: dom_map_of_conv_image_fst image_image case_prod_beta)

lemma setup_task_states_values:
  assumes "map_of (setup_task_states fl) b = Some s"
  shows "s \<in> {''RU'', ''IN'', ''UN'', ''ZO'', ''ST'', ''SW'', ''DE'', ''TR'', ''ID''}"
proof -
  have "s \<in> snd ` set (state_names fl)"
    using map_of_SomeD [OF assms [unfolded setup_task_states_map]] by (auto simp: rev_image_eqI)
  then show ?thesis by (auto simp: state_names_def split: if_splits)
qed

lemma find_descending:
  fixes ys :: "int list"
  shows "sorted_wrt (\<ge>) ys \<Longrightarrow> find P ys = Some b \<Longrightarrow> b \<in> set ys \<and> P b \<and> (\<forall>c \<in> set ys. P c \<longrightarrow> c \<le> b)"
  by (induction ys) (auto split: if_splits)

lemma find_max:
  fixes xs :: "int list"
  assumes "\<exists>c \<in> set xs. P c"
  shows "find P (rev (sort xs)) = Some (Max {c \<in> set xs. P c})"
proof -
  have s: "sorted_wrt (\<ge>) (rev (sort xs))" using sorted_sort [of xs] by (simp add: sorted_wrt_rev)
  obtain b where b: "find P (rev (sort xs)) = Some b"
    using assms by (cases "find P (rev (sort xs))") (auto simp: find_None_iff)
  have "Max {c \<in> set xs. P c} = b"
    using find_descending [OF s b] by (intro Max_eqI) auto
  then show ?thesis using b by simp
qed

text \<open>
  When the flags are known, \<open>ps\<close> shows for a task that is not taken for dead the name of the highest flag all of whose
  bits the task's state has.  Since \<open>TASK_RUNNING\<close> has no bits there always is one: the message about an unknown state
  is never printed, and a state without any known flag is shown as running.
\<close>

theorem task_state_highest:
  assumes "flag (pe_flags env) ''TASK_RUNNING'' = 0"
    and "\<not> (task_state (pe_class env) t AND flag (pe_flags env) ''TASK_DEAD'' \<noteq> 0 \<and> maybe_dead (pe_flags env) (pe_class env) t)"
  shows "\<exists>s. task_state_string env (setup_task_states (pe_flags env)) t = Inr (s, False) \<and>
    map_of (setup_task_states (pe_flags env))
      (Max {b \<in> flag (pe_flags env) ` fst ` set (state_names (pe_flags env)). task_state (pe_class env) t AND b = b}) = Some s"
proof -
  let ?d = "setup_task_states (pe_flags env)" and ?st = "task_state (pe_class env) t"
  let ?ks = "flag (pe_flags env) ` fst ` set (state_names (pe_flags env))"
  have keys: "set (map fst ?d) = ?ks" by (simp add: setup_task_states_keys)
  have "0 \<in> ?ks" using assms(1) by (force simp: state_names_def)
  then have ex: "\<exists>b \<in> set (map fst ?d). ?st AND b = b" unfolding keys by (intro bexI [of _ 0]) simp_all
  have f: "find (\<lambda>b. ?st AND b = b) (rev (sort (map fst ?d))) = Some (Max {b \<in> ?ks. ?st AND b = b})"
    using find_max [OF ex] unfolding keys .
  have "Max {b \<in> ?ks. ?st AND b = b} \<in> {b \<in> ?ks. ?st AND b = b}"
    using ex unfolding keys by (intro Max_in) auto
  then have "Max {b \<in> ?ks. ?st AND b = b} \<in> fst ` set ?d" by (simp add: setup_task_states_keys)
  then obtain s where s: "map_of ?d (Max {b \<in> ?ks. ?st AND b = b}) = Some s"
    by (metis domIff not_Some_eq dom_map_of_conv_image_fst)
  then have "s \<noteq> []" using setup_task_states_values by fastforce
  then show ?thesis using s f assms(2) by (auto simp: task_state_string_def Let_def)
qed

definition ex_ps_env :: ps_env where
  "ex_ps_env = \<lparr>pe_flags = fst (task_state_flags_callback states_3_14 flags_init), pe_class = task_class_init,
     pe_mms = \<lambda>a. Inl GdbMemoryError, pe_init_mm = None, pe_target = CrashTarget\<rparr>"

definition ex_ps_task :: "int \<Rightarrow> int \<Rightarrow> linux_task" where
  "ex_ps_task pid state = task_new \<lparr>ts_address = pid, ts_pid = pid, ts_parent_pid = 1, ts_comm = ''a'', ts_state = state,
     ts_exit_state = 0, ts_flags = 0, ts_exit_signal = 0, ts_mm = 0, ts_cpu = Some 0, ts_last_run = 0, ts_timestamp = 0,
     ts_last_arrival = 0\<rparr>"

theorem task_state_highest_witness:
  "\<exists>s. task_state_string ex_ps_env (setup_task_states (pe_flags ex_ps_env)) (ex_ps_task 5 2) = Inr (s, False) \<and>
    map_of (setup_task_states (pe_flags ex_ps_env))
      (Max {b \<in> flag (pe_flags ex_ps_env) ` fst ` set (state_names (pe_flags ex_ps_env)).
        task_state (pe_class ex_ps_env) (ex_ps_task 5 2) AND b = b}) = Some s"
proof -
  have "flag (pe_flags ex_ps_env) ''TASK_RUNNING'' = 0" by code_simp
  moreover have "\<not> (task_state (pe_class ex_ps_env) (ex_ps_task 5 2) AND flag (pe_flags ex_ps_env) ''TASK_DEAD'' \<noteq> 0 \<and>
      maybe_dead (pe_flags ex_ps_env) (pe_class ex_ps_env) (ex_ps_task 5 2))" by code_simp
  ultimately show ?thesis by (rule task_state_highest)
qed

section \<open>The listing\<close>

definition thread_printed :: "ps_env \<Rightarrow> ps_args \<Rightarrow> ps_thread \<Rightarrow> bool" where
  "thread_printed env args th = (case snd th of None \<Rightarrow> False | Some t \<Rightarrow> should_print_task env args t)"

definition thread_output :: "ps_env \<Rightarrow> ps_args \<Rightarrow> (int \<times> string) list \<Rightarrow> ps_thread \<Rightarrow> string gen" where
  "thread_output env args states th = (case snd th of
       None \<Rightarrow> gen_done | Some t \<Rightarrow> fst (ps_task env args states (fst th) t))"

lemma insort_key_map: "insort_key f (g x) (map g xs) = map g (insort_key (\<lambda>y. f (g y)) x xs)"
  by (induction xs) auto

lemma sort_key_map: "sort_key f (map g xs) = map g (sort_key (\<lambda>y. f (g y)) xs)"
  by (induction xs) (auto simp: insort_key_map)

lemma sorted_threads_key:
  assumes "\<forall>th \<in> set ths. ps_key env args th = Inr (k th)"
  shows "sorted_threads env args ths = Inr (sort_key k ths)"
proof -
  have "mapR (ps_key env args) ths = Inr (map k ths)" using assms by (intro mapR_Inr) auto
  moreover have "zip (map k ths) ths = map (\<lambda>th. (k th, th)) ths" by (induction ths) auto
  ultimately show ?thesis by (simp add: sorted_threads_def sort_key_map o_def)
qed

lemma ps_loop_lines:
  assumes "\<forall>th \<in> set ths. snd (thread_output env args states th) = None"
  shows "fst (ps_loop env args states header ths) =
      gen_of_list ((if filter (thread_printed env args) ths = [] \<or> header = [] then [] else [header]) @
        concat (map (\<lambda>th. fst (thread_output env args states th)) (filter (thread_printed env args) ths))) \<and>
    fst (snd (ps_loop env args states header ths)) = length (filter (thread_printed env args) ths)"
  using assms
proof (induction ths arbitrary: header)
  case (Cons th ths)
  have prems: "\<forall>th \<in> set ths. snd (thread_output env args states th) = None" using Cons.prems by simp
  obtain num info where th: "th = (num, info)" by (cases th)
  show ?case
  proof (cases "thread_printed env args th")
    case False
    then show ?thesis using Cons.IH [OF prems] th by (cases info) (auto simp: thread_printed_def case_prod_beta)
  next
    case True
    then obtain t where t: "info = Some t" "should_print_task env args t"
      using th by (cases info) (auto simp: thread_printed_def)
    obtain g1 t' where g1: "ps_task env args states num t = (g1, t')" by (cases "ps_task env args states num t")
    then have none: "snd g1 = None" and lines: "fst (thread_output env args states th) = fst g1"
      using Cons.prems th t by (simp_all add: thread_output_def)
    have l: "g1 = gen_of_list (fst g1)" using none by (simp add: gen_of_list_def prod_eq_iff)
    obtain g n ths' where r: "ps_loop env args states [] ths = (g, n, ths')" by (cases "ps_loop env args states [] ths")
    have "g = gen_of_list (concat (map (\<lambda>th. fst (thread_output env args states th)) (filter (thread_printed env args) ths)))"
      "n = length (filter (thread_printed env args) ths)"
      using Cons.IH [OF prems, of "[]"] r by simp_all
    moreover have "gen_seq (gen_yields hs g1) (gen_of_list xs) = gen_of_list (hs @ fst g1 @ xs)" for hs xs
      by (subst l) (simp add: gen_simps)
    ultimately show ?thesis using th t True g1 none r lines by simp
  qed
qed (simp add: gen_simps)

text \<open>
  C37: \<open>ps\<close> prints the header once and then the lines of exactly the tasks that pass the filter and match the pattern, ordered
  by process id, or by the time of the last run with \<open>-l\<close>, where tasks with the same key keep their order.
\<close>

theorem ps_lists_sorted:
  assumes "\<not> arg_unimplemented args" and "states = (if states0 = [] then setup_task_states (pe_flags env) else states0)"
    and "\<forall>th \<in> set ths. ps_key env args th = Inr (k th) \<and> snd (thread_output env args states th) = None"
    and "\<exists>th \<in> set ths. thread_printed env args th"
  shows "fst (ps_execute env args ths states0) =
    gen_of_list ((if format_header args = [] then [] else [format_header args]) @
      concat (map (\<lambda>th. fst (thread_output env args states th)) (sort_key k (filter (thread_printed env args) ths))))"
proof -
  let ?l = "ps_loop env args states (format_header args) (sort_key k ths)"
  have srt: "sorted_threads env args ths = Inr (sort_key k ths)" using assms(3) by (intro sorted_threads_key) blast
  have fs: "filter (thread_printed env args) (sort_key k ths) = sort_key k (filter (thread_printed env args) ths)"
    by (rule filter_sort)
  have ne: "filter (thread_printed env args) ths \<noteq> []" using assms(4) by (auto simp: filter_empty_conv)
  then have ne': "sort_key k (filter (thread_printed env args) ths) \<noteq> []" by (metis set_empty set_sort)
  have l: "fst ?l = gen_of_list ((if format_header args = [] then [] else [format_header args]) @
      concat (map (\<lambda>th. fst (thread_output env args states th)) (sort_key k (filter (thread_printed env args) ths))))"
    "fst (snd ?l) \<noteq> 0"
    using ps_loop_lines [of "sort_key k ths" env args states "format_header args"] assms(3) fs ne ne' by simp_all
  obtain g n ths' where r: "?l = (g, n, ths')" by (cases ?l)
  show ?thesis using assms(1, 2) srt l r by (simp add: ps_execute_def Let_def)
qed

definition ex_ps_args :: ps_args where
  "ex_ps_args = \<lparr>arg_s = False, arg_n = False, arg_k = False, arg_u = False, arg_G = False, arg_l = False,
     arg_unimplemented = False, arg_pattern = None\<rparr>"

theorem ps_lists_sorted_witness:
  "fst (ps_execute ex_ps_env ex_ps_args [(1, Some (ex_ps_task 7 0)), (2, Some (ex_ps_task 3 1))] []) =
    gen_of_list [''    PID    PPID  CPU       TASK        ST  %MEM     VSZ    RSS  COMM'',
      ''      3       1    0                 3 IN   0.0       0      0  a'',
      ''      7       1    0                 7 RU   0.0       0      0  a'']"
proof -
  let ?ths = "[(1::int, Some (ex_ps_task 7 0)), (2, Some (ex_ps_task 3 1))]" and ?k = "\<lambda>th. if fst th = (1::int) then 7 else 3 :: int"
  let ?st = "setup_task_states (pe_flags ex_ps_env)"
  have "\<forall>th \<in> set ?ths. ps_key ex_ps_env ex_ps_args th = Inr (?k th) \<and> snd (thread_output ex_ps_env ex_ps_args ?st th) = None"
    by code_simp
  moreover have "\<exists>th \<in> set ?ths. thread_printed ex_ps_env ex_ps_args th" by code_simp
  moreover have "\<not> arg_unimplemented ex_ps_args" by code_simp
  ultimately have "fst (ps_execute ex_ps_env ex_ps_args ?ths []) =
    gen_of_list ((if format_header ex_ps_args = [] then [] else [format_header ex_ps_args]) @
      concat (map (\<lambda>th. fst (thread_output ex_ps_env ex_ps_args ?st th)) (sort_key ?k (filter (thread_printed ex_ps_env ex_ps_args) ?ths))))"
    by (intro ps_lists_sorted) simp_all
  also have "\<dots> = gen_of_list [''    PID    PPID  CPU       TASK        ST  %MEM     VSZ    RSS  COMM'',
      ''      3       1    0                 3 IN   0.0       0      0  a'',
      ''      7       1    0                 7 RU   0.0       0      0  a'']" by code_simp
  finally show ?thesis .
qed

end
