(* ===== verification/Kernel.thy ===== *)
theory Kernel
  imports Callbacks Syscache Target Fnmatch
begin

text \<open>
  The search for kernel modules and debug information and the loading of modules: \<^verbatim>\<open>crash/kernel.py\<close>.

  The file system, the ELF and zstd libraries and what gdb does with a file are parameters; the caches of file names,
  the choice of files, the check of versions, and the order in which modules are loaded are modelled.  Messages are
  left out.
\<close>

section \<open>Paths and names\<close>

text \<open>\<open>os.path.join\<close> of two components, \<open>os.path.basename\<close> and \<open>str.rstrip\<close>.\<close>

definition path_join :: "string \<Rightarrow> string \<Rightarrow> string" where
  "path_join a b =
     (if b \<noteq> [] \<and> hd b = CHR ''/'' then b
      else if a = [] \<or> last a = CHR ''/'' then a @ b
      else a @ ''/'' @ b)"

definition basename :: "string \<Rightarrow> string" where
  "basename s = rev (takeWhile (\<lambda>c. c \<noteq> CHR ''/'') (rev s))"

definition py_rstrip :: "string \<Rightarrow> string" where
  "py_rstrip s = rev (dropWhile is_space (rev s))"

definition has_suffix :: "string \<Rightarrow> string \<Rightarrow> bool" where
  "has_suffix suf s \<longleftrightarrow> length suf \<le> length s \<and> drop (length s - length suf) s = suf"

definition normalize_modname :: "string \<Rightarrow> string" where
  "normalize_modname s = map (\<lambda>c. if c = CHR ''-'' then CHR ''_'' else c) s"

record file_system =
  fs_exists :: "string \<Rightarrow> bool"
  fs_walk :: "string \<Rightarrow> (string \<times> string list) list"  \<comment> \<open>\<open>root\<close> and \<open>files\<close> of \<open>os.walk\<close>\<close>
  fs_lines :: "string \<Rightarrow> string list res"

text \<open>\<open>None\<close>, a string, a list of strings (whose first element decides), or something else.\<close>

datatype path_spec = PathNone | PathStr string | PathList "string list" | PathOther

definition setup_roots :: "file_system \<Rightarrow> path_spec \<Rightarrow> string list res" where
  "setup_roots fs roots = (case roots of
       PathNone \<Rightarrow> Inr [''/'']
     | PathList rs \<Rightarrow> if rs = [] then Inl InvalidArgumentError
         else let x = filter (fs_exists fs) rs in Inr (if x = [] then [''/''] else x)
     | PathStr r \<Rightarrow> Inr (if fs_exists fs r then [r] else [''/''])
     | PathOther \<Rightarrow> Inl InvalidArgumentError)"

definition find_debuginfo_paths :: "file_system \<Rightarrow> string list \<Rightarrow> string list \<Rightarrow> string list" where
  "find_debuginfo_paths fs roots variants =
     filter (fs_exists fs) (concat (map (\<lambda>root. concat (map (\<lambda>dbg. map (\<lambda>v. path_join (path_join root dbg) v) variants)
       [[], ''usr/lib/debug''])) roots))"

definition setup_vmlinux_debuginfo ::
  "file_system \<Rightarrow> string list \<Rightarrow> string \<Rightarrow> string \<Rightarrow> path_spec \<Rightarrow> string list res" where
  "setup_vmlinux_debuginfo fs roots kern version spec = (case spec of
       PathNone \<Rightarrow> Inr (find_debuginfo_paths fs roots [kern @ ''.debug'', ''vmlinux-'' @ version @ ''.debug'',
         ''boot/'' @ basename kern @ ''.debug'', ''boot/vmlinux-'' @ version @ ''.debug''])
     | PathList ps \<Rightarrow> if ps = [] then Inl InvalidArgumentError else Inr ps
     | PathStr p \<Rightarrow> Inr [p]
     | PathOther \<Rightarrow> Inl InvalidArgumentError)"

definition under_roots :: "file_system \<Rightarrow> string list \<Rightarrow> string list \<Rightarrow> string list" where
  "under_roots fs roots ps = filter (fs_exists fs) (concat (map (\<lambda>root. map (\<lambda>p. root @ ''/'' @ p) ps) roots))"

text \<open>\<open>module_path[0]\<close> of an empty list raises \<^verbatim>\<open>IndexError\<close>.\<close>

definition setup_module_path :: "file_system \<Rightarrow> string list \<Rightarrow> string \<Rightarrow> path_spec \<Rightarrow> string list res" where
  "setup_module_path fs roots version spec = (case spec of
       PathNone \<Rightarrow> Inr (filter (fs_exists fs) [''modules''] @ under_roots fs roots [''lib/modules/'' @ version])
     | PathList ps \<Rightarrow> if ps = [] then Inl IndexError else Inr (under_roots fs roots ps)
     | PathStr p \<Rightarrow> Inr (filter (fs_exists fs) [p])
     | PathOther \<Rightarrow> Inl InvalidArgumentError)"

definition setup_module_debuginfo_path :: "file_system \<Rightarrow> string list \<Rightarrow> string \<Rightarrow> path_spec \<Rightarrow> string list res" where
  "setup_module_debuginfo_path fs roots version spec = (case spec of
       PathNone \<Rightarrow> Inr (find_debuginfo_paths fs roots [''modules.debug'', ''lib/modules/'' @ version])
     | PathList ps \<Rightarrow> if ps = [] then Inl IndexError else Inr (under_roots fs roots ps)
     | PathStr p \<Rightarrow> Inr (under_roots fs roots [p])
     | PathOther \<Rightarrow> Inl InvalidArgumentError)"

section \<open>Versions\<close>

text \<open>
  \<open>extract_version\<close> and \<open>extract_vermagic\<close>: the string at a symbol with debug information, or else at the minimal
  symbol.  \<open>split(' ')[2]\<close> raises \<^verbatim>\<open>IndexError\<close> when there are fewer words.
\<close>

definition extract_version :: "string res \<Rightarrow> string res \<Rightarrow> string res" where
  "extract_version uts_release linux_banner = (case uts_release of
       Inr s \<Rightarrow> Inr s
     | Inl e \<Rightarrow>
         if catches AttributeError e \<or> catches NameError e \<or> catches MissingSymbolError e
         then bindR linux_banner (\<lambda>b. let ws = py_split CHR '' '' b in if 2 < length ws then Inr (ws ! 2) else Inl IndexError)
         else Inl e)"

definition extract_vermagic :: "string res \<Rightarrow> string res \<Rightarrow> string res" where
  "extract_vermagic vermagic vermagic_min = (case vermagic of
       Inr s \<Rightarrow> Inr s
     | Inl e \<Rightarrow> if catches AttributeError e \<or> catches NameError e then vermagic_min else Inl e)"

text \<open>The section \<open>.modinfo\<close>: entries \<open>key=value\<close>, each ended by a null byte; \<open>index\<close> raises \<^verbatim>\<open>ValueError\<close>.\<close>

fun modinfo_entries :: "string list \<Rightarrow> (string \<times> string) list \<Rightarrow> (string \<times> string) list res" where
  "modinfo_entries [] d = Inr d"
| "modinfo_entries (l # ls) d =
     (if l = [] then modinfo_entries ls d
      else if CHR ''='' \<notin> set l then Inl ValueError
      else modinfo_entries ls (AList.update (takeWhile (\<lambda>c. c \<noteq> CHR ''='') l) (tl (dropWhile (\<lambda>c. c \<noteq> CHR ''='') l)) d))"

definition extract_modinfo :: "string \<Rightarrow> (string \<times> string) list res" where
  "extract_modinfo data = modinfo_entries (py_split (CHR 0x00) data) []"

text \<open>A module in memory: its name, \<open>srcversion\<close> if its type has it, base address, sections and per-CPU area.\<close>

record kmodule =
  km_name :: "string res"
  km_srcversion :: "string res option"
  km_core :: "int res"
  km_attrs :: "sect_attr list"
  km_percpu :: "int res"

definition module_srcversion :: "kmodule \<Rightarrow> string option res" where
  "module_srcversion m = (case km_srcversion m of None \<Rightarrow> Inr None | Some r \<Rightarrow> bindR r (\<lambda>v. Inr (Some v)))"

text \<open>The two subclasses of \<^verbatim>\<open>_ModinfoMismatchError\<close> differ only in their message.\<close>

definition check_module_version :: "string \<Rightarrow> string \<Rightarrow> kmodule \<Rightarrow> unit res" where
  "check_module_version vermagic data m = bindR (extract_modinfo data) (\<lambda>mi.
     if map_of mi ''vermagic'' \<noteq> Some vermagic then Inl ModinfoMismatchError
     else bindR (module_srcversion m) (\<lambda>v.
       if map_of mi ''srcversion'' \<noteq> v then Inl ModinfoMismatchError else Inr ()))"

section \<open>Caches of file names\<close>

type_synonym files = "(string \<times> string) list"

text \<open>\<open>findmap[path]\<close>: the patterns walked for, \<open>None\<close> once there was none, and the files found.\<close>

record find_entry =
  fe_filters :: "string list option"
  fe_files :: files

record find_state =
  modules_order :: "(string \<times> files) list"
  findmap :: "(string \<times> find_entry) list"

definition find_init :: find_state where
  "find_init = \<lparr>modules_order = [], findmap = []\<rparr>"

text \<open>A line of \<open>modules.order\<close>.  A base name never starts with \<open>kernel/\<close>.\<close>

definition order_line :: "file_system \<Rightarrow> string \<Rightarrow> string \<Rightarrow> files \<Rightarrow> files" where
  "order_line fs path line d =
     (let modpath = py_rstrip line;
          name0 = normalize_modname (basename modpath);
          name = (if take 7 name0 = ''kernel/'' then drop 7 name0 else name0);
          full = path_join path modpath;
          d1 = (if fs_exists fs full then AList.update name full d else d)
      in if fs_exists fs (full @ ''.zst'') then AList.update name (full @ ''.zst'') d1 else d1)"

text \<open>
  \<open>_cache_modules_order\<close>: the entry of the path is made before the file is read, and only an \<^verbatim>\<open>OSError\<close> is caught.
\<close>

definition cache_modules_order :: "file_system \<Rightarrow> string \<Rightarrow> find_state \<Rightarrow> unit res \<times> find_state" where
  "cache_modules_order fs path st =
     (let put = (\<lambda>d. st\<lparr>modules_order := AList.update path d (modules_order st)\<rparr>)
      in case fs_lines fs (path_join path ''modules.order'') of
           Inl e \<Rightarrow> (if catches IOError e then Inr () else Inl e, put [])
         | Inr ls \<Rightarrow> (Inr (), put (foldl (\<lambda>d l. order_line fs path l d) [] ls)))"

definition module_from_order :: "file_system \<Rightarrow> string \<Rightarrow> string \<Rightarrow> find_state \<Rightarrow> string res \<times> find_state" where
  "module_from_order fs path name st =
     (let (r, st') = (if map_of (modules_order st) path = None then cache_modules_order fs path st else (Inr (), st))
      in (bindR r (\<lambda>_. of_option NoMatchingFileError
            (Option.bind (map_of (modules_order st') path) (\<lambda>d. map_of d name))), st'))"

text \<open>The compiled pattern stands for itself; its text is what the filters remember.\<close>

definition walk_files :: "file_system \<Rightarrow> string \<Rightarrow> (string \<times> string) list" where
  "walk_files fs path = concat (map (\<lambda>(root, files). map (\<lambda>f. (normalize_modname f, path_join root f)) files) (fs_walk fs path))"

definition pattern_match :: "string option \<Rightarrow> string \<Rightarrow> bool" where
  "pattern_match regex name = (case regex of None \<Rightarrow> True | Some pat \<Rightarrow> fnmatch pat name)"

definition cache_file_tree :: "file_system \<Rightarrow> string \<Rightarrow> string option \<Rightarrow> find_state \<Rightarrow> find_state" where
  "cache_file_tree fs path regex st =
     (let fe = (case map_of (findmap st) path of Some fe \<Rightarrow> fe | None \<Rightarrow> \<lparr>fe_filters = Some [], fe_files = []\<rparr>);
          put = (\<lambda>fe. st\<lparr>findmap := AList.update path fe (findmap st)\<rparr>)
      in case fe_filters fe of
           None \<Rightarrow> put fe
         | Some ps \<Rightarrow>
             if regex \<noteq> None \<and> the regex \<in> set ps then put fe
             else put \<lparr>fe_filters = (case regex of None \<Rightarrow> None | Some p \<Rightarrow> Some (ps @ [p])),
               fe_files = foldl (\<lambda>d (n, f). if pattern_match regex n then AList.update n f d else d) (fe_files fe) (walk_files fs path)\<rparr>)"

definition tree_search :: "file_system \<Rightarrow> string \<Rightarrow> string \<Rightarrow> string option \<Rightarrow> find_state \<Rightarrow> string res \<times> find_state" where
  "tree_search fs path name regex st =
     (let st' = cache_file_tree fs path regex st
      in (of_option NoMatchingFileError
            (Option.bind (map_of (findmap st') path) (\<lambda>fe. map_of (fe_files fe) (normalize_modname name))), st'))"

definition find_module_file :: "file_system \<Rightarrow> string \<Rightarrow> string \<Rightarrow> find_state \<Rightarrow> string res \<times> find_state" where
  "find_module_file fs name path st = (case module_from_order fs path name st of
       (Inr p, st1) \<Rightarrow> (Inr p, st1)
     | (Inl e, st1) \<Rightarrow> if catches NoMatchingFileError e then tree_search fs path name (Some ''*.ko'') st1 else (Inl e, st1))"

definition find_module_debuginfo_file :: "file_system \<Rightarrow> string \<Rightarrow> string \<Rightarrow> find_state \<Rightarrow> string res \<times> find_state" where
  "find_module_debuginfo_file fs name path st = tree_search fs path name (Some ''*.ko.debug'') st"

definition build_id_path :: "string option \<Rightarrow> string option" where
  "build_id_path build_id = map_option (\<lambda>b. ''.build_id/'' @ take 2 b @ ''/'' @ drop 2 b @ ''.debug'') build_id"

section \<open>Object files\<close>

text \<open>
  What the loader asks of gdb and of the libraries: the bytes of a file, \<open>zstd.decompress\<close>, the data of the section
  \<open>.modinfo\<close> of an ELF file, the answer to a command, the object file of a path, and of an object file its name, its
  build id, whether it has symbols with the debug files added so far, and the answer to adding one.
\<close>

record gdb_env =
  ge_read :: "string \<Rightarrow> string res"
  ge_zstd :: "string \<Rightarrow> string res"
  ge_modinfo :: "string \<Rightarrow> string res"
  ge_execute :: "string \<Rightarrow> unit res"
  ge_lookup_objfile :: "string \<Rightarrow> string res"
  ge_filename :: "string \<Rightarrow> string option"
  ge_build_id :: "string \<Rightarrow> string option"
  ge_symbols :: "string \<Rightarrow> string list \<Rightarrow> bool"
  ge_add_debug :: "string \<Rightarrow> string \<Rightarrow> unit res"
  ge_tmpdir :: string

text \<open>
  The caches of the object, the callbacks, and what was done to gdb: the commands that succeeded and the debug files
  that were added, by object file.
\<close>

record load_state =
  ls_find :: find_state
  ls_cb :: cb_sys
  ls_commands :: "string list"
  ls_debug :: "(string \<times> string) list"

definition has_symbols :: "gdb_env \<Rightarrow> string \<Rightarrow> load_state \<Rightarrow> bool" where
  "has_symbols env ob st = ge_symbols env ob (map snd (filter (\<lambda>d. fst d = ob) (ls_debug st)))"

text \<open>A file that gdb reads is announced as a new object file; gdb prints what a handler of the event raises.\<close>

definition announce :: "(cbid \<Rightarrow> outcome) \<Rightarrow> load_state \<Rightarrow> load_state" where
  "announce w st = st\<lparr>ls_cb := fst (new_objfile w (ls_cb st))\<rparr>"

definition add_separate_debug_file ::
  "gdb_env \<Rightarrow> (cbid \<Rightarrow> outcome) \<Rightarrow> string \<Rightarrow> string \<Rightarrow> load_state \<Rightarrow> unit res \<times> load_state" where
  "add_separate_debug_file env w ob path st = (case ge_add_debug env ob path of
       Inl e \<Rightarrow> (Inl e, st)
     | Inr _ \<Rightarrow> (Inr (), announce w (st\<lparr>ls_debug := ls_debug st @ [(ob, path)]\<rparr>)))"

section \<open>Debug information\<close>

definition try_load_debuginfo ::
  "file_system \<Rightarrow> gdb_env \<Rightarrow> (cbid \<Rightarrow> outcome) \<Rightarrow> string \<Rightarrow> string \<Rightarrow> load_state \<Rightarrow> bool res \<times> load_state" where
  "try_load_debuginfo fs env w ob path st =
     (if \<not> fs_exists fs path then (Inr False, st)
      else case add_separate_debug_file env w ob path st of
          (Inl e, st1) \<Rightarrow> (if catches GdbError e then Inr False else Inl e, st1)
        | (Inr _, st1) \<Rightarrow> (Inr (has_symbols env ob st1), st1))"

text \<open>The name of the file with the debug information of a module: \<open>[:-3]\<close> and \<open>[:-4]\<close> cut from the end.\<close>

definition debuginfo_filename :: "string \<Rightarrow> string" where
  "debuginfo_filename modpath =
     basename (if py_in ''.gz'' modpath then take (length modpath - 3) modpath
       else if py_in ''.zst'' modpath then take (length modpath - 4) modpath else modpath) @ ''.debug''"

fun debuginfo_loop ::
  "file_system \<Rightarrow> gdb_env \<Rightarrow> (cbid \<Rightarrow> outcome) \<Rightarrow> string \<Rightarrow> string \<Rightarrow> string option \<Rightarrow> string list \<Rightarrow> load_state \<Rightarrow>
   unit res \<times> load_state" where
  "debuginfo_loop fs env w ob filename bid [] st = (Inr (), st)"
| "debuginfo_loop fs env w ob filename bid (p # ps) st =
     (case (case bid of None \<Rightarrow> (Inr False, st) | Some b \<Rightarrow> try_load_debuginfo fs env w ob (p @ ''/'' @ b) st) of
        (Inl e, st1) \<Rightarrow> (Inl e, st1)
      | (Inr True, st1) \<Rightarrow> (Inr (), st1)
      | (Inr False, st1) \<Rightarrow>
          (case find_module_debuginfo_file fs filename p (ls_find st1) of
             (Inl e, f) \<Rightarrow>
               if catches NoMatchingFileError e then debuginfo_loop fs env w ob filename bid ps (st1\<lparr>ls_find := f\<rparr>)
               else (Inl e, st1\<lparr>ls_find := f\<rparr>)
           | (Inr file, f) \<Rightarrow>
               (case try_load_debuginfo fs env w ob file (st1\<lparr>ls_find := f\<rparr>) of
                  (Inl e, st2) \<Rightarrow> (Inl e, st2)
                | (Inr True, st2) \<Rightarrow> (Inr (), st2)
                | (Inr False, st2) \<Rightarrow> debuginfo_loop fs env w ob filename bid ps st2)))"

definition load_module_debuginfo ::
  "file_system \<Rightarrow> gdb_env \<Rightarrow> (cbid \<Rightarrow> outcome) \<Rightarrow> string list \<Rightarrow> string \<Rightarrow> string option \<Rightarrow> load_state \<Rightarrow>
   unit res \<times> load_state" where
  "load_module_debuginfo fs env w module_debuginfo_path ob modpath st =
     (case (case modpath of None \<Rightarrow> ge_filename env ob | Some p \<Rightarrow> Some p) of
        None \<Rightarrow> (Inl RuntimeError, st)
      | Some p \<Rightarrow> debuginfo_loop fs env w ob (debuginfo_filename p) (build_id_path (ge_build_id env ob))
          module_debuginfo_path st)"

section \<open>The object\<close>

record crash_kernel =
  ck_version :: string
  ck_roots :: "string list"
  ck_vmlinux_debuginfo :: "string list"
  ck_module_path :: "string list"
  ck_module_debuginfo_path :: "string list"
  ck_vermagic :: string

fun vmlinux_debug_loop ::
  "gdb_env \<Rightarrow> (cbid \<Rightarrow> outcome) \<Rightarrow> string \<Rightarrow> string list \<Rightarrow> load_state \<Rightarrow> unit res \<times> load_state" where
  "vmlinux_debug_loop env w ob [] st = (Inr (), st)"
| "vmlinux_debug_loop env w ob (p # ps) st = (case add_separate_debug_file env w ob p st of
       (Inl e, st1) \<Rightarrow> if catches GdbError e then vmlinux_debug_loop env w ob ps st1 else (Inl e, st1)
     | (Inr _, st1) \<Rightarrow> if has_symbols env ob st1 then (Inr (), st1) else vmlinux_debug_loop env w ob ps st1)"

text \<open>
  What \<open>__init__\<close> reads of the image: the current target, the first object file, and the strings at the
  symbols that hold the version and the version magic.
\<close>

record image_env =
  im_target :: current_target
  im_objfile :: string
  im_uts_release :: "string res"
  im_linux_banner :: "string res"
  im_vermagic :: "string res"
  im_vermagic_min :: "string res"

definition setup_paths ::
  "file_system \<Rightarrow> string \<Rightarrow> string \<Rightarrow> path_spec \<Rightarrow> path_spec \<Rightarrow> path_spec \<Rightarrow> path_spec \<Rightarrow> crash_kernel res" where
  "setup_paths fs kern version roots vmlinux_debuginfo module_path module_debuginfo_path =
     bindR (setup_roots fs roots) (\<lambda>rs.
     bindR (setup_vmlinux_debuginfo fs rs kern version vmlinux_debuginfo) (\<lambda>vd.
     bindR (setup_module_path fs rs version module_path) (\<lambda>mp.
     bindR (setup_module_debuginfo_path fs rs version module_debuginfo_path) (\<lambda>md.
     Inr \<lparr>ck_version = version, ck_roots = rs, ck_vmlinux_debuginfo = vd, ck_module_path = mp,
       ck_module_debuginfo_path = md, ck_vermagic = []\<rparr>))))"

definition load_vmlinux_debuginfo ::
  "gdb_env \<Rightarrow> (cbid \<Rightarrow> outcome) \<Rightarrow> string \<Rightarrow> string list \<Rightarrow> load_state \<Rightarrow> unit res \<times> load_state" where
  "load_vmlinux_debuginfo env w ob paths st =
     (case (if has_symbols env ob st then (Inr (), st)
            else vmlinux_debug_loop env w ob ((case build_id_path (ge_build_id env ob) of None \<Rightarrow> [] | Some b \<Rightarrow> [b]) @ paths) st) of
        (Inl e, st1) \<Rightarrow> (Inl e, st1)
      | (Inr _, st1) \<Rightarrow> (if has_symbols env ob st1 then Inr () else Inl CrashKernelError, st1))"

definition crash_kernel_init ::
  "file_system \<Rightarrow> gdb_env \<Rightarrow> image_env \<Rightarrow> (cbid \<Rightarrow> outcome) \<Rightarrow> path_spec \<Rightarrow> path_spec \<Rightarrow> path_spec \<Rightarrow> path_spec \<Rightarrow>
   load_state \<Rightarrow> crash_kernel res \<times> load_state" where
  "crash_kernel_init fs env im w roots vmlinux_debuginfo module_path module_debuginfo_path st =
     (case bindR (check_target (im_target im)) (\<lambda>_. case ge_filename env (im_objfile im) of
          None \<Rightarrow> Inl RuntimeError | Some f \<Rightarrow> if f = [] then Inl RuntimeError else Inr f) of
        Inl e \<Rightarrow> (Inl e, st)
      | Inr filename \<Rightarrow>
          (let st0 = st\<lparr>ls_find := find_init\<rparr>
           in case bindR (extract_version (im_uts_release im) (im_linux_banner im)) (\<lambda>version.
                  setup_paths fs (basename filename) version roots vmlinux_debuginfo module_path module_debuginfo_path) of
                Inl e \<Rightarrow> (Inl e, st0)
              | Inr ck \<Rightarrow>
                  (case load_vmlinux_debuginfo env w (im_objfile im) (ck_vmlinux_debuginfo ck) st0 of
                     (Inl e, st1) \<Rightarrow> (Inl e, st1)
                   | (Inr _, st1) \<Rightarrow>
                       (bindR (extract_vermagic (im_vermagic im) (im_vermagic_min im)) (\<lambda>v. Inr (ck\<lparr>ck_vermagic := v\<rparr>)),
                        st1))))"

section \<open>Modules\<close>

definition py_address :: "int \<Rightarrow> string" where
  "py_address a = ''0x'' @ py_hex (nat a)"

definition get_module_sections :: "kmodule \<Rightarrow> string res" where
  "get_module_sections m = bindR (gen_to_list (for_each_module_section (km_attrs m))) (\<lambda>ss.
     Inr (py_join '' '' (map (\<lambda>(name, a). ''-s '' @ name @ '' '' @ py_address a) ss)))"

text \<open>The command of \<open>_try_load_module\<close> for the file \<open>modpath\<close> with the given contents.\<close>

definition module_command :: "gdb_env \<Rightarrow> string \<Rightarrow> kmodule \<Rightarrow> string \<Rightarrow> string \<Rightarrow> string res" where
  "module_command env vermagic m modpath contents =
     bindR (ge_modinfo env contents) (\<lambda>data.
     bindR (check_module_version vermagic data m) (\<lambda>_.
     bindR (km_core m) (\<lambda>a.
     bindR (get_module_sections m) (\<lambda>sections.
     bindR (km_percpu m) (\<lambda>percpu.
     Inr (''add-symbol-file '' @ modpath @ '' '' @ py_address a @ '' '' @ sections @
       (if percpu > 0 then '' -s .data..percpu '' @ py_address percpu else []) @ '' -o 0xff000000''))))))"

definition try_load_module_file ::
  "gdb_env \<Rightarrow> (cbid \<Rightarrow> outcome) \<Rightarrow> string \<Rightarrow> kmodule \<Rightarrow> string \<Rightarrow> string \<Rightarrow> load_state \<Rightarrow> string res \<times> load_state" where
  "try_load_module_file env w vermagic m modpath contents st = (case module_command env vermagic m modpath contents of
       Inl e \<Rightarrow> (Inl e, st)
     | Inr cmd \<Rightarrow> (case ge_execute env cmd of
          Inl e \<Rightarrow> (Inl (if catches GdbError e then CrashKernelError else e), st)
        | Inr _ \<Rightarrow> (ge_lookup_objfile env modpath, announce w (st\<lparr>ls_commands := ls_commands st @ [cmd]\<rparr>))))"

definition module_contents :: "gdb_env \<Rightarrow> string \<Rightarrow> string \<Rightarrow> (string \<times> string) res" where
  "module_contents env modname modpath =
     (if has_suffix ''.zst'' modpath
      then bindR (ge_read env modpath) (\<lambda>c. bindR (ge_zstd env c) (\<lambda>d.
        Inr (path_join (ge_tmpdir env) (modname @ ''.ko''), d)))
      else bindR (ge_read env modpath) (\<lambda>c. Inr (modpath, c)))"

definition try_load_module ::
  "gdb_env \<Rightarrow> (cbid \<Rightarrow> outcome) \<Rightarrow> string \<Rightarrow> string \<Rightarrow> kmodule \<Rightarrow> string \<Rightarrow> load_state \<Rightarrow> string res \<times> load_state" where
  "try_load_module env w vermagic modname m modpath st = (case module_contents env modname modpath of
       Inl e \<Rightarrow> (Inl e, st)
     | Inr (path, contents) \<Rightarrow> try_load_module_file env w vermagic m path contents st)"

definition skips_path :: "exc \<Rightarrow> bool" where
  "skips_path e \<longleftrightarrow> catches ModinfoMismatchError e \<or> catches IOError e"

text \<open>The loop over \<open>module_path\<close> for one module: the object file, or \<open>None\<close> when no path has one.\<close>

fun load_module_from ::
  "file_system \<Rightarrow> gdb_env \<Rightarrow> (cbid \<Rightarrow> outcome) \<Rightarrow> crash_kernel \<Rightarrow> string \<Rightarrow> kmodule \<Rightarrow> string list \<Rightarrow> load_state \<Rightarrow>
   string option res \<times> load_state" where
  "load_module_from fs env w ck modname m [] st = (Inr None, st)"
| "load_module_from fs env w ck modname m (p # ps) st =
     (case find_module_file fs (modname @ ''.ko'') p (ls_find st) of
        (Inl e, f) \<Rightarrow>
          if catches NoMatchingFileError e then load_module_from fs env w ck modname m ps (st\<lparr>ls_find := f\<rparr>)
          else (Inl e, st\<lparr>ls_find := f\<rparr>)
      | (Inr modpath, f) \<Rightarrow>
          (case try_load_module env w (ck_vermagic ck) modname m modpath (st\<lparr>ls_find := f\<rparr>) of
             (Inl e, st1) \<Rightarrow>
               if skips_path e then load_module_from fs env w ck modname m ps st1 else (Inl e, st1)
           | (Inr ob, st1) \<Rightarrow>
               if has_symbols env ob st1 then (Inr (Some ob), st1)
               else (case load_module_debuginfo fs env w (ck_module_debuginfo_path ck) ob (Some modpath) st1 of
                   (Inl e, st2) \<Rightarrow> (Inl e, st2)
                 | (Inr _, st2) \<Rightarrow> (Inr (Some ob), st2))))"

text \<open>The loop over the modules, with the numbers of modules loaded and failed.\<close>

fun load_each ::
  "file_system \<Rightarrow> gdb_env \<Rightarrow> (cbid \<Rightarrow> outcome) \<Rightarrow> crash_kernel \<Rightarrow> kmodule list \<Rightarrow> nat \<Rightarrow> nat \<Rightarrow> load_state \<Rightarrow>
   (nat \<times> nat) res \<times> load_state" where
  "load_each fs env w ck [] ok bad st = (Inr (ok, bad), st)"
| "load_each fs env w ck (m # ms) ok bad st = (case km_name m of
       Inl e \<Rightarrow> (Inl e, st)
     | Inr modname \<Rightarrow> (case load_module_from fs env w ck modname m (ck_module_path ck) st of
          (Inl e, st1) \<Rightarrow> (Inl e, st1)
        | (Inr (Some ob), st1) \<Rightarrow> load_each fs env w ck ms (ok + 1) bad st1
        | (Inr None, st1) \<Rightarrow> load_each fs env w ck ms ok (bad + 1) st1))"

text \<open>
  \<open>load_modules\<close>: the modules are counted before the callbacks are paused; the list does not change in between.  The
  callbacks are not unpaused when an exception leaves the loop.
\<close>

definition load_modules ::
  "file_system \<Rightarrow> gdb_env \<Rightarrow> (cbid \<Rightarrow> outcome) \<Rightarrow> crash_kernel \<Rightarrow> string res \<Rightarrow> kmodule gen \<Rightarrow> load_state \<Rightarrow>
   (nat \<times> nat) res \<times> load_state" where
  "load_modules fs env w ck release mods st = (case bindR (gen_to_list mods) (\<lambda>_. release) of
       Inl e \<Rightarrow> (Inl e, st)
     | Inr _ \<Rightarrow> (case load_each fs env w ck (fst mods) 0 0 (st\<lparr>ls_cb := pause (ls_cb st)\<rparr>) of
          (Inl e, st1) \<Rightarrow> (Inl e, st1)
        | (Inr n, st1) \<Rightarrow>
            (case unpause w (ls_cb st1) of
               (cb, exn) \<Rightarrow> (case exn of None \<Rightarrow> Inr n | Some e \<Rightarrow> Inl e,
                 st1\<lparr>ls_find := (ls_find st1)\<lparr>findmap := []\<rparr>, ls_cb := cb\<rparr>))))"

section \<open>What the searches find\<close>

lemma map_of_rev_filter: "map_of (rev (filter (\<lambda>kv. P (fst kv)) kvs)) k = (if P k then map_of (rev kvs) k else None)"
  by (induction kvs) (auto simp: map_add_def split: option.splits)

lemma foldl_filter: "foldl (\<lambda>d x. if P x then f d x else d) d xs = foldl f d (filter P xs)"
  by (induction xs arbitrary: d) auto

lemma foldl_filter_update:
  "foldl (\<lambda>d (n, f). if P n then AList.update n f d else d) d kvs =
   foldl (\<lambda>d kv. AList.update (fst kv) (snd kv) d) d (filter (\<lambda>kv. P (fst kv)) kvs)"
  by (simp add: foldl_filter [symmetric] case_prod_beta')

lemma has_suffix_append [simp]: "has_suffix s (t @ s)"
  by (simp add: has_suffix_def)

lemma has_suffix_iff: "has_suffix s t \<longleftrightarrow> (\<exists>u. t = u @ s)"
  by (metis append_take_drop_id has_suffix_append has_suffix_def)

lemma normalize_append [simp]: "normalize_modname (s @ t) = normalize_modname s @ normalize_modname t"
  by (simp add: normalize_modname_def)

lemma normalize_suffix [simp]: "normalize_modname ''.ko'' = ''.ko''" "normalize_modname ''.ko.debug'' = ''.ko.debug''"
  by (simp_all add: normalize_modname_def)

text \<open>
  The file of \<open>modules.order\<close> for a name: the last line with this base name whose file exists, compressed if there is
  a compressed one.  The file of a tree: the last one of the walk with this name, up to hyphens.
\<close>

definition order_entry :: "file_system \<Rightarrow> string \<Rightarrow> string \<Rightarrow> (string \<times> string) option" where
  "order_entry fs path line =
     (let full = path_join path (py_rstrip line); name = normalize_modname (basename (py_rstrip line))
      in if fs_exists fs (full @ ''.zst'') then Some (name, full @ ''.zst'')
         else if fs_exists fs full then Some (name, full) else None)"

definition order_file :: "file_system \<Rightarrow> string \<Rightarrow> string \<Rightarrow> string option" where
  "order_file fs path = (case fs_lines fs (path_join path ''modules.order'') of
       Inl e \<Rightarrow> (\<lambda>_. None)
     | Inr ls \<Rightarrow> map_of (rev (List.map_filter (order_entry fs path) ls)))"

definition tree_file :: "file_system \<Rightarrow> string \<Rightarrow> string \<Rightarrow> string option" where
  "tree_file fs path name = map_of (rev (walk_files fs path)) (normalize_modname name)"

datatype file_query = ModuleQuery string string | DebuginfoQuery string string

fun file_search :: "file_system \<Rightarrow> file_query \<Rightarrow> find_state \<Rightarrow> string res \<times> find_state" where
  "file_search fs (ModuleQuery n p) st = find_module_file fs (n @ ''.ko'') p st"
| "file_search fs (DebuginfoQuery n p) st = find_module_debuginfo_file fs (n @ ''.ko.debug'') p st"

fun file_answer :: "file_system \<Rightarrow> file_query \<Rightarrow> string res" where
  "file_answer fs (ModuleQuery n p) = of_option NoMatchingFileError
     (case order_file fs p (n @ ''.ko'') of Some f \<Rightarrow> Some f | None \<Rightarrow> tree_file fs p (n @ ''.ko''))"
| "file_answer fs (DebuginfoQuery n p) = of_option NoMatchingFileError (tree_file fs p (n @ ''.ko.debug''))"

text \<open>The caches hold what the file system has, as far as it was walked; only the files of orders are unreadable.\<close>

definition walked :: "find_entry \<Rightarrow> string \<Rightarrow> bool" where
  "walked fe n \<longleftrightarrow> (case fe_filters fe of None \<Rightarrow> True | Some ps \<Rightarrow> (\<exists>p \<in> set ps. fnmatch p n))"

definition find_ok :: "file_system \<Rightarrow> find_state \<Rightarrow> bool" where
  "find_ok fs st \<longleftrightarrow>
     (\<forall>p e. fs_lines fs p = Inl e \<longrightarrow> catches IOError e) \<and>
     (\<forall>p d. map_of (modules_order st) p = Some d \<longrightarrow> map_of d = order_file fs p) \<and>
     (\<forall>p fe n. map_of (findmap st) p = Some fe \<longrightarrow>
        map_of (fe_files fe) n = (if walked fe n then map_of (rev (walk_files fs p)) n else None))"

lemma basename_no_slash: "CHR ''/'' \<notin> set (basename s)"
  by (auto simp: basename_def dest: set_takeWhileD)

lemma normalize_no_slash: "CHR ''/'' \<notin> set s \<Longrightarrow> CHR ''/'' \<notin> set (normalize_modname s)"
  by (auto simp: normalize_modname_def split: if_splits)

lemma order_line_entry:
  "map_of (order_line fs path line d) =
   (case order_entry fs path line of None \<Rightarrow> map_of d | Some (k, v) \<Rightarrow> (map_of d)(k \<mapsto> v))"
proof -
  have "take 7 (normalize_modname (basename s)) \<noteq> ''kernel/''" for s
    using normalize_no_slash [OF basename_no_slash, of s]
    by (metis in_set_takeD list.set_intros(1) list.set_intros(2))
  then show ?thesis by (auto simp: order_line_def order_entry_def Let_def update_conv' fun_eq_iff)
qed

lemma order_lines:
  "map_of (foldl (\<lambda>d l. order_line fs path l d) d ls) =
   map_of d ++ map_of (rev (List.map_filter (order_entry fs path) ls))"
proof (induction ls arbitrary: d)
  case (Cons l ls)
  then show ?case
    by (auto simp: order_line_entry map_filter_simps map_add_def fun_eq_iff split: option.splits prod.splits)
qed (simp add: map_filter_simps)

lemma module_from_order_ok:
  assumes "find_ok fs st"
  shows "fst (module_from_order fs p n st) = of_option NoMatchingFileError (order_file fs p n)"
    and "find_ok fs (snd (module_from_order fs p n st))"
  using assms order_lines [of fs p "[]"]
  by (auto simp: module_from_order_def cache_modules_order_def find_ok_def order_file_def Let_def update_conv'
      split: sum.splits option.splits)

lemma cache_file_tree_ok:
  assumes "find_ok fs st"
  shows "find_ok fs (cache_file_tree fs p (Some pat) st)"
    and "\<exists>fe. map_of (findmap (cache_file_tree fs p (Some pat) st)) p = Some fe \<and> (fnmatch pat n \<longrightarrow> walked fe n)"
proof -
  define fe where "fe = (case map_of (findmap st) p of Some fe \<Rightarrow> fe | None \<Rightarrow> \<lparr>fe_filters = Some [], fe_files = []\<rparr>)"
  have files: "map_of (fe_files fe) n = (if walked fe n then map_of (rev (walk_files fs p)) n else None)" for n
    using assms by (auto simp: fe_def find_ok_def walked_def split: option.splits)
  obtain fe' where fe': "cache_file_tree fs p (Some pat) st = st\<lparr>findmap := AList.update p fe' (findmap st)\<rparr>"
    "fnmatch pat n \<longrightarrow> walked fe' n" "\<And>n. map_of (fe_files fe') n =
       (if walked fe' n then map_of (rev (walk_files fs p)) n else None)" for n
  proof (cases "fe_filters fe = None \<or> (\<exists>ps. fe_filters fe = Some ps \<and> pat \<in> set ps)")
    case True
    then have "cache_file_tree fs p (Some pat) st = st\<lparr>findmap := AList.update p fe (findmap st)\<rparr>"
      by (auto simp: cache_file_tree_def fe_def [symmetric] Let_def)
    moreover have "fnmatch pat n \<longrightarrow> walked fe n" for n using True by (auto simp: walked_def)
    ultimately show ?thesis using that files by blast
  next
    case False
    then obtain ps where ps: "fe_filters fe = Some ps" "pat \<notin> set ps" by (cases "fe_filters fe") auto
    define fe' where "fe' = \<lparr>fe_filters = Some (ps @ [pat]), fe_files = foldl (\<lambda>d (n, f).
      if fnmatch pat n then AList.update n f d else d) (fe_files fe) (walk_files fs p)\<rparr>"
    have "cache_file_tree fs p (Some pat) st = st\<lparr>findmap := AList.update p fe' (findmap st)\<rparr>"
      using ps by (simp add: cache_file_tree_def fe_def [symmetric] Let_def fe'_def pattern_match_def)
    moreover have "fnmatch pat n \<longrightarrow> walked fe' n" for n by (auto simp: walked_def fe'_def)
    moreover have "map_of (fe_files fe') n = (if walked fe' n then map_of (rev (walk_files fs p)) n else None)" for n
      using files [of n] ps
      by (auto simp: fe'_def walked_def foldl_filter_update map_of_foldl_update map_add_def map_of_rev_filter split: option.splits)
    ultimately show ?thesis using that by blast
  qed
  then show "find_ok fs (cache_file_tree fs p (Some pat) st)" using assms by (auto simp: find_ok_def update_conv')
  show "\<exists>fe. map_of (findmap (cache_file_tree fs p (Some pat) st)) p = Some fe \<and> (fnmatch pat n \<longrightarrow> walked fe n)"
    using fe' by (auto simp: update_conv')
qed

lemma tree_search_ok:
  assumes "find_ok fs st" and "fnmatch pat (normalize_modname n)"
  shows "fst (tree_search fs p n (Some pat) st) = of_option NoMatchingFileError (tree_file fs p n)"
    and "find_ok fs (snd (tree_search fs p n (Some pat) st))"
proof -
  obtain fe where "map_of (findmap (cache_file_tree fs p (Some pat) st)) p = Some fe" "walked fe (normalize_modname n)"
    using cache_file_tree_ok(2) [OF assms(1)] assms(2) by blast
  then show "fst (tree_search fs p n (Some pat) st) = of_option NoMatchingFileError (tree_file fs p n)"
    using cache_file_tree_ok(1) [OF assms(1), of p pat] by (auto simp: tree_search_def Let_def tree_file_def find_ok_def)
qed (simp add: tree_search_def Let_def cache_file_tree_ok(1) [OF assms(1)])

lemma fnmatch_module_names:
  "fnmatch ''*.ko'' (normalize_modname (n @ ''.ko''))" "fnmatch ''*.ko.debug'' (normalize_modname (n @ ''.ko.debug''))"
  using fnmatch_suffix [of "''.ko''" "normalize_modname (n @ ''.ko'')"]
    fnmatch_suffix [of "''.ko.debug''" "normalize_modname (n @ ''.ko.debug'')"] by (simp_all add: plain_def)

lemma file_search_ok:
  assumes "find_ok fs st"
  shows "fst (file_search fs q st) = file_answer fs q" and "find_ok fs (snd (file_search fs q st))"
proof -
  have nm: "catches NoMatchingFileError NoMatchingFileError" by code_simp
  have "fst (file_search fs q st) = file_answer fs q \<and> find_ok fs (snd (file_search fs q st))"
  proof (cases q)
    case (ModuleQuery n p)
    obtain r st1 where st1: "module_from_order fs p (n @ ''.ko'') st = (r, st1)" by fastforce
    show ?thesis using module_from_order_ok [OF assms, of p "n @ ''.ko''"] tree_search_ok [of fs st1 "''*.ko''" "n @ ''.ko''" p] nm
        fnmatch_module_names(1) [of n]
      by (auto simp: ModuleQuery find_module_file_def st1 split: option.splits sum.splits)
  next
    case (DebuginfoQuery n p)
    then show ?thesis using tree_search_ok [OF assms, of "''*.ko.debug''" "n @ ''.ko.debug''" p] fnmatch_module_names(2) [of n]
      by (simp add: find_module_debuginfo_file_def)
  qed
  then show "fst (file_search fs q st) = file_answer fs q" "find_ok fs (snd (file_search fs q st))" by auto
qed

interpretation files: transparent_cache "file_search fs" "find_ok fs" "file_answer fs" for fs
  by unfold_locales (simp_all add: file_search_ok)

lemma find_ok_init: "find_ok fs find_init \<longleftrightarrow> (\<forall>p e. fs_lines fs p = Inl e \<longrightarrow> catches IOError e)"
  by (simp add: find_ok_def find_init_def)

section \<open>Module information\<close>

definition modinfo_text :: "(string \<times> string) list \<Rightarrow> string" where
  "modinfo_text kvs = concat (map (\<lambda>(k, v). k @ ''='' @ v @ [CHR 0x00]) kvs)"

definition modinfo_ok :: "string \<times> string \<Rightarrow> bool" where
  "modinfo_ok kv \<longleftrightarrow> CHR ''='' \<notin> set (fst kv) \<and> CHR 0x00 \<notin> set (fst kv) \<and> CHR 0x00 \<notin> set (snd kv)"

lemma split_modinfo:
  "\<forall>kv \<in> set kvs. modinfo_ok kv \<Longrightarrow>
   py_split (CHR 0x00) (modinfo_text kvs) = map (\<lambda>(k, v). k @ ''='' @ v) kvs @ [[]]"
proof (induction kvs)
  case (Cons kv kvs)
  obtain k v where kv: "kv = (k, v)" by fastforce
  have "modinfo_text (kv # kvs) = (k @ ''='' @ v) @ CHR 0x00 # modinfo_text kvs" by (simp add: modinfo_text_def kv)
  moreover have "CHR 0x00 \<notin> set (k @ ''='' @ v)" using Cons.prems kv by (simp add: modinfo_ok_def)
  ultimately show ?case using Cons kv py_split_no_sep [of "CHR 0x00" "k @ ''='' @ v"] by (simp only: py_split_append) simp
qed (simp add: modinfo_text_def)

lemma modinfo_entries_pairs:
  "\<forall>kv \<in> set kvs. modinfo_ok kv \<Longrightarrow>
   modinfo_entries (map (\<lambda>(k, v). k @ ''='' @ v) kvs @ [[]]) d =
     Inr (foldl (\<lambda>d kv. AList.update (fst kv) (snd kv) d) d kvs)"
proof (induction kvs arbitrary: d)
  case (Cons kv kvs)
  obtain k v where kv: "kv = (k, v)" by fastforce
  have k: "CHR ''='' \<notin> set k" using Cons.prems kv by (simp add: modinfo_ok_def)
  then have "takeWhile (\<lambda>c. c \<noteq> CHR ''='') (k @ ''='' @ v) = k" "dropWhile (\<lambda>c. c \<noteq> CHR ''='') (k @ ''='' @ v) = ''='' @ v"
    by (auto simp: takeWhile_append dropWhile_append)
  then show ?case using Cons kv by simp
qed simp

lemma extract_modinfo_text:
  assumes "\<forall>kv \<in> set kvs. modinfo_ok kv"
  shows "\<exists>d. extract_modinfo (modinfo_text kvs) = Inr d \<and> map_of d = map_of (rev kvs)"
  unfolding extract_modinfo_def split_modinfo [OF assms] modinfo_entries_pairs [OF assms]
  by (simp add: map_of_foldl_update)

section \<open>Loading while the callbacks are paused\<close>

lemma announce_paused [simp]: "paused (ls_cb st) \<Longrightarrow> announce w st = st"
  by (simp add: announce_def new_objfile_paused)

lemma try_load_debuginfo_paused:
  "paused (ls_cb st) \<Longrightarrow> try_load_debuginfo fs env w ob p st = (r, st') \<Longrightarrow>
   ls_cb st' = ls_cb st \<and> ls_find st' = ls_find st \<and> ls_commands st' = ls_commands st"
  by (auto simp: try_load_debuginfo_def add_separate_debug_file_def split: if_splits sum.splits)

lemma debuginfo_loop_paused:
  "paused (ls_cb st) \<Longrightarrow> debuginfo_loop fs env w ob f bid ps st = (r, st') \<Longrightarrow>
   ls_cb st' = ls_cb st \<and> ls_commands st' = ls_commands st"
proof (induction ps arbitrary: st)
  case (Cons p ps)
  define t where "t = (case bid of None \<Rightarrow> (Inr False, st) | Some b \<Rightarrow> try_load_debuginfo fs env w ob (p @ ''/'' @ b) st)"
  obtain r1 st1 where t: "t = (r1, st1)" by fastforce
  then have st1: "ls_cb st1 = ls_cb st" "ls_commands st1 = ls_commands st"
    using try_load_debuginfo_paused [OF Cons.prems(1)] by (auto simp: t_def split: option.splits)
  obtain r2 f2 where f2: "find_module_debuginfo_file fs f p (ls_find st1) = (r2, f2)" by fastforce
  let ?st1 = "st1\<lparr>ls_find := f2\<rparr>"
  have p1: "paused (ls_cb ?st1)" using Cons.prems(1) st1 by simp
  note eq = Cons.prems(2) [simplified debuginfo_loop.simps t_def [symmetric] t f2 prod.case]
  show ?case
  proof (cases "r1 = Inr False \<and> (\<exists>fl. r2 = Inr fl)")
    case True
    then obtain fl r3 st3 where fl: "r2 = Inr fl" "try_load_debuginfo fs env w ob fl ?st1 = (r3, st3)" by fastforce
    then have st3: "ls_cb st3 = ls_cb st" "ls_commands st3 = ls_commands st"
      using try_load_debuginfo_paused [OF p1] st1 by fastforce+
    then show ?thesis using eq True fl Cons.IH [of st3] Cons.prems(1) by (auto split: sum.splits bool.splits)
  next
    case False
    then show ?thesis using eq Cons.IH [OF p1] st1 by (auto split: sum.splits bool.splits if_splits)
  qed
qed simp

lemma load_module_debuginfo_paused:
  "paused (ls_cb st) \<Longrightarrow> load_module_debuginfo fs env w mdp ob mp st = (r, st') \<Longrightarrow>
   ls_cb st' = ls_cb st \<and> ls_commands st' = ls_commands st"
  by (auto simp: load_module_debuginfo_def split: option.splits dest!: debuginfo_loop_paused [rotated])

lemma try_load_module_paused:
  "paused (ls_cb st) \<Longrightarrow> try_load_module env w vm n m mp st = (r, st') \<Longrightarrow> ls_cb st' = ls_cb st \<and> ls_find st' = ls_find st"
  by (auto simp: try_load_module_def try_load_module_file_def split: sum.splits prod.splits)

lemma load_module_from_paused:
  "paused (ls_cb st) \<Longrightarrow> load_module_from fs env w ck n m ps st = (r, st') \<Longrightarrow> ls_cb st' = ls_cb st"
proof (induction ps arbitrary: st)
  case (Cons p ps)
  obtain r1 f1 where f1: "find_module_file fs (n @ ''.ko'') p (ls_find st) = (r1, f1)" by fastforce
  let ?st1 = "st\<lparr>ls_find := f1\<rparr>"
  have p1: "paused (ls_cb ?st1)" using Cons.prems(1) by simp
  show ?case
  proof (cases r1)
    case (Inl e)
    then show ?thesis using Cons.prems(2) f1 Cons.IH [OF p1] by (auto split: if_splits)
  next
    case (Inr mp)
    obtain r2 st2 where st2: "try_load_module env w (ck_vermagic ck) n m mp ?st1 = (r2, st2)" by fastforce
    then have cb2: "ls_cb st2 = ls_cb st" using try_load_module_paused [OF p1] by auto
    then have p2: "paused (ls_cb st2)" using Cons.prems(1) by simp
    show ?thesis using Cons.prems(2) f1 Inr st2 Cons.IH [OF p2] cb2 load_module_debuginfo_paused [OF p2]
      by (auto split: sum.splits if_splits prod.splits)
  qed
qed simp

lemma load_each_paused:
  "paused (ls_cb st) \<Longrightarrow> load_each fs env w ck ms ok bad st = (r, st') \<Longrightarrow> ls_cb st' = ls_cb st"
proof (induction ms arbitrary: ok bad st)
  case (Cons m ms)
  show ?case
  proof (cases "km_name m")
    case (Inr n)
    obtain r1 st1 where st1: "load_module_from fs env w ck n m (ck_module_path ck) st = (r1, st1)" by fastforce
    then have cb1: "ls_cb st1 = ls_cb st" using load_module_from_paused [OF Cons.prems(1)] by blast
    then have p1: "paused (ls_cb st1)" using Cons.prems(1) by simp
    show ?thesis using Cons.prems(2) Inr st1 cb1 Cons.IH [OF p1] by (auto split: sum.splits option.splits)
  qed (use Cons.prems in simp)
qed simp

lemma load_each_count:
  "load_each fs env w ck ms ok bad st = (Inr (x, y), st') \<Longrightarrow> x + y = ok + bad + length ms"
  by (induction fs env w ck ms ok bad st rule: load_each.induct) (auto split: prod.splits sum.splits option.splits)

section \<open>Which files are loaded\<close>

text \<open>
  The file a module is loaded from: the first path whose file of that name can be read, has the version magic of the
  kernel and the source version of the module in memory.  The result is the path that gdb is given, and the command.
\<close>

definition module_plan :: "gdb_env \<Rightarrow> string \<Rightarrow> string \<Rightarrow> kmodule \<Rightarrow> string \<Rightarrow> (string \<times> string) res" where
  "module_plan env vermagic modname m modpath = bindR (module_contents env modname modpath) (\<lambda>(path, contents).
     bindR (module_command env vermagic m path contents) (\<lambda>cmd. Inr (path, cmd)))"

fun module_pick ::
  "file_system \<Rightarrow> gdb_env \<Rightarrow> string \<Rightarrow> string \<Rightarrow> kmodule \<Rightarrow> string list \<Rightarrow> (string \<times> string) option" where
  "module_pick fs env vermagic modname m [] = None"
| "module_pick fs env vermagic modname m (p # ps) =
     (case bindR (file_answer fs (ModuleQuery modname p)) (module_plan env vermagic modname m) of
        Inl e \<Rightarrow> module_pick fs env vermagic modname m ps
      | Inr plan \<Rightarrow> Some plan)"

definition picked :: "file_system \<Rightarrow> gdb_env \<Rightarrow> crash_kernel \<Rightarrow> kmodule \<Rightarrow> (string \<times> string) option" where
  "picked fs env ck m = (case km_name m of Inl e \<Rightarrow> None
     | Inr n \<Rightarrow> module_pick fs env (ck_vermagic ck) n m (ck_module_path ck))"

text \<open>
  A module loads cleanly when its name is readable and, for the file of every path, either the reading or the check
  fails with an exception that skips the path, or gdb accepts the command and knows the object file.
\<close>

definition plan_ok :: "gdb_env \<Rightarrow> (string \<times> string) res \<Rightarrow> bool" where
  "plan_ok env plan = (case plan of Inl e \<Rightarrow> skips_path e
     | Inr (path, cmd) \<Rightarrow> ge_execute env cmd = Inr () \<and> isl (ge_lookup_objfile env path) = False)"

definition loads_cleanly :: "file_system \<Rightarrow> gdb_env \<Rightarrow> crash_kernel \<Rightarrow> kmodule \<Rightarrow> bool" where
  "loads_cleanly fs env ck m = (case km_name m of Inl e \<Rightarrow> False
     | Inr n \<Rightarrow> list_all (\<lambda>p. plan_ok env (bindR (file_answer fs (ModuleQuery n p)) (module_plan env (ck_vermagic ck) n m)))
         (ck_module_path ck))"

definition debug_ok :: "gdb_env \<Rightarrow> bool" where
  "debug_ok env \<longleftrightarrow> (\<forall>ob p e. ge_add_debug env ob p = Inl e \<longrightarrow> catches GdbError e)"

lemma no_match_caught: "catches NoMatchingFileError NoMatchingFileError" "skips_path NoMatchingFileError"
  by code_simp+

lemma try_load_debuginfo_clean:
  "debug_ok env \<Longrightarrow> \<exists>b. fst (try_load_debuginfo fs env w ob p st) = Inr b"
  by (auto simp: try_load_debuginfo_def add_separate_debug_file_def debug_ok_def split: sum.splits)

lemma debuginfo_loop_clean:
  assumes "debug_ok env" and "paused (ls_cb st)" and "find_ok fs (ls_find st)"
  shows "fst (debuginfo_loop fs env w ob f bid ps st) = Inr ()" (is ?A)
    and "find_ok fs (ls_find (snd (debuginfo_loop fs env w ob f bid ps st)))" (is ?B)
proof -
  have "?A \<and> ?B" using assms(2, 3)
  proof (induction ps arbitrary: st)
    case (Cons p ps)
    define t where "t = (case bid of None \<Rightarrow> (Inr False, st) | Some b \<Rightarrow> try_load_debuginfo fs env w ob (p @ ''/'' @ b) st)"
    obtain b st1 where t: "t = (Inr b, st1)"
      using try_load_debuginfo_clean [OF assms(1)] by (metis (no_types) option.case_eq_if prod.collapse t_def)
    then have st1: "ls_cb st1 = ls_cb st" "ls_find st1 = ls_find st"
      using try_load_debuginfo_paused [OF Cons.prems(1)] by (auto simp: t_def split: option.splits)
    obtain r2 f2 where f2: "find_module_debuginfo_file fs f p (ls_find st) = (r2, f2)" by fastforce
    then have f2_ok: "find_ok fs f2" using cache_file_tree_ok(1) [OF Cons.prems(2)]
      by (auto simp: find_module_debuginfo_file_def tree_search_def Let_def)
    have r2: "r2 = Inl e \<Longrightarrow> e = NoMatchingFileError" for e using f2
      by (auto simp: find_module_debuginfo_file_def tree_search_def Let_def of_option_def split: option.splits)
    let ?st1 = "st1\<lparr>ls_find := f2\<rparr>"
    have p1: "paused (ls_cb ?st1)" using Cons.prems(1) st1 by simp
    show ?case
    proof (cases "b = False \<and> isl r2 = False")
      case True
      then obtain fl b3 st3 where fl: "r2 = Inr fl" "try_load_debuginfo fs env w ob fl ?st1 = (Inr b3, st3)"
        using try_load_debuginfo_clean [OF assms(1), of fs w ob "projr r2" ?st1] by (cases r2) (auto simp: prod_eq_iff)
      then have "paused (ls_cb st3)" "find_ok fs (ls_find st3)"
        using try_load_debuginfo_paused [OF p1] p1 f2_ok by fastforce+
      then show ?thesis using Cons.IH [of st3] True fl t f2 st1 by (cases b3) (simp_all add: t_def [symmetric])
    next
      case False
      then show ?thesis using Cons.IH [of ?st1] p1 f2_ok r2 Cons.prems(2) st1 f2 no_match_caught
        by (cases b; cases r2) (simp_all add: t_def [symmetric] t)
    qed
  qed simp
  then show ?A ?B by auto
qed

lemma load_module_debuginfo_clean:
  assumes "debug_ok env" and "paused (ls_cb st)" and "find_ok fs (ls_find st)"
    and "load_module_debuginfo fs env w mdp ob (Some mp) st = (r, st')"
  shows "r = Inr ()" and "find_ok fs (ls_find st')" and "ls_cb st' = ls_cb st" and "ls_commands st' = ls_commands st"
  using assms(4) debuginfo_loop_clean [OF assms(1-3)] load_module_debuginfo_paused [OF assms(2, 4)]
  by (auto simp: load_module_debuginfo_def prod_eq_iff)

text \<open>One module: what the loop over the paths does.\<close>

definition loaded_as :: "file_system \<Rightarrow> (string \<times> string) option \<Rightarrow> load_state \<Rightarrow> string option res \<times> load_state \<Rightarrow> bool" where
  "loaded_as fs pick st q \<longleftrightarrow> (\<exists>r. fst q = Inr r \<and> (r = None \<longleftrightarrow> pick = None)) \<and>
     ls_commands (snd q) = ls_commands st @ (case pick of None \<Rightarrow> [] | Some (path, cmd) \<Rightarrow> [cmd]) \<and>
     ls_cb (snd q) = ls_cb st \<and> find_ok fs (ls_find (snd q))"

lemma try_load_module_plan:
  assumes "paused (ls_cb st)" and "plan_ok env (module_plan env vm n m mp)"
  shows "try_load_module env w vm n m mp st = (case module_plan env vm n m mp of
      Inl e \<Rightarrow> (Inl e, st)
    | Inr (path, cmd) \<Rightarrow> (ge_lookup_objfile env path, st\<lparr>ls_commands := ls_commands st @ [cmd]\<rparr>))"
  using assms by (auto simp: module_plan_def plan_ok_def try_load_module_def try_load_module_file_def bindR_eq_Inr
      split: sum.splits prod.splits)

lemma load_module_from_clean:
  assumes "debug_ok env" and "paused (ls_cb st)" and "find_ok fs (ls_find st)"
    and "list_all (\<lambda>p. plan_ok env (bindR (file_answer fs (ModuleQuery n p)) (module_plan env (ck_vermagic ck) n m))) ps"
  shows "loaded_as fs (module_pick fs env (ck_vermagic ck) n m ps) st (load_module_from fs env w ck n m ps st)"
  using assms(2-)
proof (induction ps arbitrary: st)
  case (Cons p ps)
  obtain r1 f1 where f1: "find_module_file fs (n @ ''.ko'') p (ls_find st) = (r1, f1)" by fastforce
  then have r1: "file_answer fs (ModuleQuery n p) = r1" and f1_ok: "find_ok fs f1"
    using file_search_ok [OF Cons.prems(2), of "ModuleQuery n p"] by auto
  let ?st1 = "st\<lparr>ls_find := f1\<rparr>"
  have IH: "loaded_as fs (module_pick fs env (ck_vermagic ck) n m ps) st (load_module_from fs env w ck n m ps ?st1)"
    using Cons.IH [of ?st1] Cons.prems f1_ok by (simp add: loaded_as_def)
  show ?case
  proof (cases r1)
    case (Inl e)
    then have "e = NoMatchingFileError" using r1 by (auto simp: of_option_def split: option.splits)
    then show ?thesis using IH f1 r1 Inl no_match_caught by simp
  next
    case (Inr mp)
    then have ok: "plan_ok env (module_plan env (ck_vermagic ck) n m mp)" using Cons.prems(3) r1 by simp
    note load = try_load_module_plan [of ?st1, OF _ ok, of w]
    show ?thesis
    proof (cases "module_plan env (ck_vermagic ck) n m mp")
      case (Inl e)
      then show ?thesis using IH f1 r1 Inr load ok Cons.prems(1) by (simp add: plan_ok_def)
    next
      case plan: (Inr plan)
      obtain path cmd where pc: "plan = (path, cmd)" by fastforce
      then obtain ob where ob: "ge_lookup_objfile env path = Inr ob"
        using ok plan by (cases "ge_lookup_objfile env path") (auto simp: plan_ok_def)
      let ?st2 = "?st1\<lparr>ls_commands := ls_commands st @ [cmd]\<rparr>"
      obtain r3 st3 where st3: "load_module_debuginfo fs env w (ck_module_debuginfo_path ck) ob (Some mp) ?st2 = (r3, st3)"
        by fastforce
      note dbg = load_module_debuginfo_clean [OF assms(1) _ _ st3]
      show ?thesis using f1 r1 Inr load plan pc ob st3 dbg Cons.prems(1) f1_ok by (auto simp: loaded_as_def)
    qed
  qed
qed (simp add: loaded_as_def)

lemma load_each_clean:
  assumes "debug_ok env" and "paused (ls_cb st)" and "find_ok fs (ls_find st)" and "list_all (loads_cleanly fs env ck) ms"
  shows "\<exists>st'. load_each fs env w ck ms ok bad st =
      (Inr (ok + length (filter (\<lambda>m. picked fs env ck m \<noteq> None) ms), bad + length (filter (\<lambda>m. picked fs env ck m = None) ms)), st')
    \<and> ls_commands st' = ls_commands st @ map snd (List.map_filter (picked fs env ck) ms) \<and> find_ok fs (ls_find st')"
  using assms(2-)
proof (induction ms arbitrary: ok bad st)
  case (Cons m ms)
  then obtain n where n: "km_name m = Inr n" by (auto simp: loads_cleanly_def split: sum.splits)
  obtain q where q: "load_module_from fs env w ck n m (ck_module_path ck) st = q" by blast
  have "loaded_as fs (picked fs env ck m) st q"
    using load_module_from_clean [OF assms(1) Cons.prems(1, 2), of n ck m "ck_module_path ck" w] Cons.prems(3) n q
    by (simp add: picked_def loads_cleanly_def)
  then obtain r st1 where r: "q = (Inr r, st1)" "r = None \<longleftrightarrow> picked fs env ck m = None" and
    st1: "ls_commands st1 = ls_commands st @ (case picked fs env ck m of None \<Rightarrow> [] | Some (path, cmd) \<Rightarrow> [cmd])"
      "ls_cb st1 = ls_cb st" "find_ok fs (ls_find st1)"
    by (cases q) (auto simp: loaded_as_def)
  have ih: "\<exists>st'. load_each fs env w ck ms ok bad st1 =
      (Inr (ok + length (filter (\<lambda>m. picked fs env ck m \<noteq> None) ms), bad + length (filter (\<lambda>m. picked fs env ck m = None) ms)), st')
    \<and> ls_commands st' = ls_commands st1 @ map snd (List.map_filter (picked fs env ck) ms) \<and> find_ok fs (ls_find st')" for ok bad
    using Cons.IH [of st1] Cons.prems st1 by simp
  show ?case
  proof (cases r)
    case None
    then show ?thesis using ih [of ok "bad + 1"] n q r st1 by (auto simp: map_filter_simps)
  next
    case (Some ob)
    then show ?thesis using ih [of "ok + 1" bad] n q r st1 by (auto simp: map_filter_simps)
  qed
qed (simp add: map_filter_simps)

lemma load_modules_clean:
  assumes "debug_ok env" and "find_ok fs (ls_find st)" and "list_all (loads_cleanly fs env ck) ms"
    and "unpause w (ls_cb st) = (cb, None)"
  shows "\<exists>st'. load_modules fs env w ck (Inr release) (gen_of_list ms) st =
      (Inr (length (filter (\<lambda>m. picked fs env ck m \<noteq> None) ms), length (filter (\<lambda>m. picked fs env ck m = None) ms)), st') \<and>
    ls_commands st' = ls_commands st @ map snd (List.map_filter (picked fs env ck) ms) \<and> ls_cb st' = cb"
proof -
  let ?st0 = "st\<lparr>ls_cb := pause (ls_cb st)\<rparr>"
  have p0: "paused (ls_cb ?st0)" by (simp add: pause_def)
  obtain st1 where st1: "load_each fs env w ck ms 0 0 ?st0 =
      (Inr (length (filter (\<lambda>m. picked fs env ck m \<noteq> None) ms), length (filter (\<lambda>m. picked fs env ck m = None) ms)), st1)"
    "ls_commands st1 = ls_commands st @ map snd (List.map_filter (picked fs env ck) ms)"
    using load_each_clean [OF assms(1) p0 _ assms(3), of w 0 0] assms(2) by auto
  have "unpause w (ls_cb st1) = (cb, None)"
    using load_each_paused [OF p0 st1(1)] assms(4) by (simp add: pause_def unpause_def)
  then show ?thesis using st1 by (simp add: load_modules_def)
qed

lemma load_modules_raises:
  assumes "fst (load_each fs env w ck ms 0 0 (st\<lparr>ls_cb := pause (ls_cb st)\<rparr>)) = Inl e"
  shows "\<exists>st'. load_modules fs env w ck (Inr release) (gen_of_list ms) st = (Inl e, st') \<and>
    ls_cb st' = pause (ls_cb st) \<and> (\<forall>w'. new_objfile w' (ls_cb st') = (ls_cb st', None))"
proof -
  let ?st0 = "st\<lparr>ls_cb := pause (ls_cb st)\<rparr>"
  have p0: "paused (ls_cb ?st0)" by (simp add: pause_def)
  obtain st1 where st1: "load_each fs env w ck ms 0 0 ?st0 = (Inl e, st1)" using assms by (metis prod.collapse)
  then show ?thesis using load_each_paused [OF p0 st1]
    by (simp add: load_modules_def new_objfile_paused pause_def)
qed

text \<open>
  A module that gdb rejects: the first path with a suitable file gives a command that gdb fails to execute, while the files
  of the other paths are skipped or suitable.
\<close>

definition skippable :: "file_system \<Rightarrow> gdb_env \<Rightarrow> string \<Rightarrow> string \<Rightarrow> kmodule \<Rightarrow> string list \<Rightarrow> bool" where
  "skippable fs env vermagic n m = list_all (\<lambda>p. case bindR (file_answer fs (ModuleQuery n p)) (module_plan env vermagic n m) of
     Inl e \<Rightarrow> skips_path e | Inr plan \<Rightarrow> True)"

definition gdb_rejects :: "file_system \<Rightarrow> gdb_env \<Rightarrow> crash_kernel \<Rightarrow> kmodule \<Rightarrow> bool" where
  "gdb_rejects fs env ck m = (case km_name m of Inl e \<Rightarrow> False
     | Inr n \<Rightarrow> skippable fs env (ck_vermagic ck) n m (ck_module_path ck) \<and>
         (case picked fs env ck m of None \<Rightarrow> False
          | Some (path, cmd) \<Rightarrow> (case ge_execute env cmd of Inl e \<Rightarrow> catches GdbError e | Inr _ \<Rightarrow> False)))"

lemma load_module_from_rejected:
  assumes "skippable fs env (ck_vermagic ck) n m ps"
    and "module_pick fs env (ck_vermagic ck) n m ps = Some (path, cmd)"
    and "ge_execute env cmd = Inl e" and "catches GdbError e" and "find_ok fs (ls_find st)"
  shows "\<exists>st'. load_module_from fs env w ck n m ps st = (Inl CrashKernelError, st') \<and> ls_commands st' = ls_commands st"
  using assms(1, 2, 5)
proof (induction ps arbitrary: st)
  case (Cons p ps)
  have fatal: "\<not> skips_path CrashKernelError" by code_simp
  obtain r1 f1 where f1: "find_module_file fs (n @ ''.ko'') p (ls_find st) = (r1, f1)" by fastforce
  then have r1: "file_answer fs (ModuleQuery n p) = r1" and f1_ok: "find_ok fs f1"
    using file_search_ok [OF Cons.prems(3), of "ModuleQuery n p"] by auto
  let ?st1 = "st\<lparr>ls_find := f1\<rparr>"
  have IH: "\<exists>st'. load_module_from fs env w ck n m ps ?st1 = (Inl CrashKernelError, st') \<and> ls_commands st' = ls_commands st"
    if "module_pick fs env (ck_vermagic ck) n m ps = Some (path, cmd)"
    using Cons.IH [of ?st1] Cons.prems(1) that f1_ok by (simp add: skippable_def)
  show ?case
  proof (cases r1)
    case (Inl x)
    then have "x = NoMatchingFileError" using r1 by (auto simp: of_option_def split: option.splits)
    then show ?thesis using IH f1 r1 Inl no_match_caught Cons.prems(2) by simp
  next
    case (Inr mp)
    show ?thesis
    proof (cases "module_plan env (ck_vermagic ck) n m mp")
      case (Inl x)
      then have "skips_path x" using Cons.prems(1) r1 Inr by (simp add: skippable_def)
      moreover have "try_load_module env w (ck_vermagic ck) n m mp ?st1 = (Inl x, ?st1)"
        using Inl by (auto simp: module_plan_def try_load_module_def try_load_module_file_def bindR_eq_Inl bindR_eq_Inr
            split: sum.splits prod.splits)
      ultimately show ?thesis using IH f1 r1 Inr Inl Cons.prems(2) by simp
    next
      case plan: (Inr plan)
      then have "plan = (path, cmd)" using Cons.prems(2) r1 Inr by simp
      then have "try_load_module env w (ck_vermagic ck) n m mp ?st1 = (Inl CrashKernelError, ?st1)"
        using plan assms(3, 4) by (auto simp: module_plan_def try_load_module_def try_load_module_file_def bindR_eq_Inr
            split: sum.splits prod.splits)
      then show ?thesis using f1 Inr fatal by simp
    qed
  qed
qed simp

lemma load_each_append:
  "load_each fs env w ck ms ok bad st = (Inr (x, y), st') \<Longrightarrow>
   load_each fs env w ck (ms @ ms') ok bad st = load_each fs env w ck ms' x y st'"
  by (induction fs env w ck ms ok bad st rule: load_each.induct) (auto split: prod.splits sum.splits option.splits)

lemma load_each_rejected:
  assumes "debug_ok env" and "paused (ls_cb st)" and "find_ok fs (ls_find st)" and "list_all (loads_cleanly fs env ck) ms"
    and "gdb_rejects fs env ck m"
  shows "\<exists>st'. load_each fs env w ck (ms @ m # ms') 0 0 st = (Inl CrashKernelError, st') \<and>
    ls_commands st' = ls_commands st @ map snd (List.map_filter (picked fs env ck) ms)"
proof -
  obtain x y st1 where st1: "load_each fs env w ck ms 0 0 st = (Inr (x, y), st1)" "find_ok fs (ls_find st1)"
    "ls_commands st1 = ls_commands st @ map snd (List.map_filter (picked fs env ck) ms)"
    using load_each_clean [OF assms(1-4), of w 0 0] by auto
  obtain n where n: "km_name m = Inr n" "skippable fs env (ck_vermagic ck) n m (ck_module_path ck)"
    using assms(5) by (cases "km_name m") (auto simp: gdb_rejects_def)
  obtain path cmd where pick: "module_pick fs env (ck_vermagic ck) n m (ck_module_path ck) = Some (path, cmd)"
    using assms(5) n(1) by (auto simp: gdb_rejects_def picked_def split: option.splits)
  then obtain e where e: "ge_execute env cmd = Inl e" "catches GdbError e"
    using assms(5) n(1) by (cases "ge_execute env cmd") (auto simp: gdb_rejects_def picked_def)
  obtain st2 where "load_module_from fs env w ck n m (ck_module_path ck) st1 = (Inl CrashKernelError, st2)"
    "ls_commands st2 = ls_commands st1"
    using load_module_from_rejected [OF n(2) pick e st1(2), of w] by blast
  then show ?thesis using load_each_append [OF st1(1), of "m # ms'"] n(1) st1(3) by simp
qed

section \<open>Properties\<close>

definition ex_fs :: file_system where
  "ex_fs = \<lparr>fs_exists = (\<lambda>p. p \<in> {''/m'', ''/m/a-b.ko'', ''/m/c.ko''}),
     fs_walk = (\<lambda>p. if p = ''/m'' then [(''/m'', [''a-b.ko'', ''c.ko'', ''c.ko.debug''])] else []),
     fs_lines = (\<lambda>p. Inl IOError)\<rparr>"

definition ex_genv :: gdb_env where
  "ex_genv = \<lparr>ge_read = Inr, ge_zstd = Inr,
     ge_modinfo = (\<lambda>c. Inr (modinfo_text [(''vermagic'', if c = ''/m/c.ko'' then ''old'' else ''v'')])),
     ge_execute = (\<lambda>_. Inr ()), ge_lookup_objfile = Inr, ge_filename = Some, ge_build_id = (\<lambda>_. None),
     ge_symbols = (\<lambda>_ _. True), ge_add_debug = (\<lambda>_ _. Inr ()), ge_tmpdir = ''/t''\<rparr>"

definition ex_module :: "string \<Rightarrow> kmodule" where
  "ex_module n = \<lparr>km_name = Inr n, km_srcversion = None, km_core = Inr 16, km_attrs = [], km_percpu = Inr 0\<rparr>"

definition ex_ck :: crash_kernel where
  "ex_ck = \<lparr>ck_version = ''1'', ck_roots = [''/''], ck_vmlinux_debuginfo = [], ck_module_path = [''/m''],
     ck_module_debuginfo_path = [], ck_vermagic = ''v''\<rparr>"

definition ex_load :: load_state where
  "ex_load = \<lparr>ls_find = find_init, ls_cb = cb_init, ls_commands = [], ls_debug = []\<rparr>"

text \<open>
  C14: Whatever was searched before, the caches do not change what a search for the file of a module or of its debug
  information finds: the last line of \<open>modules.order\<close> with that base name whose file exists (its compressed version if
  there is one), or else the last file of the walk of the tree with that name up to hyphens.
\<close>

theorem file_search_transparent:
  assumes "\<forall>p e. fs_lines fs p = Inl e \<longrightarrow> catches IOError e"
  shows "fst (file_search fs q (fold (\<lambda>q st. snd (file_search fs q st)) qs find_init)) = file_answer fs q"
  using files.answer_after find_ok_init assms by blast

theorem file_search_transparent_witness:
  "fst (file_search ex_fs (ModuleQuery ''a_b'' ''/m'')
     (snd (file_search ex_fs (DebuginfoQuery ''c'' ''/m'') find_init))) = Inr ''/m/a-b.ko''"
proof -
  have "\<forall>p e. fs_lines ex_fs p = Inl e \<longrightarrow> catches IOError e" by (simp add: ex_fs_def catches_def numeral_eq_Suc)
  from file_search_transparent [OF this, of "ModuleQuery ''a_b'' ''/m''" "[DebuginfoQuery ''c'' ''/m'']"]
  have "fst (file_search ex_fs (ModuleQuery ''a_b'' ''/m'')
     (snd (file_search ex_fs (DebuginfoQuery ''c'' ''/m'') find_init))) = file_answer ex_fs (ModuleQuery ''a_b'' ''/m'')" by simp
  also have "\<dots> = Inr ''/m/a-b.ko''"
    by (simp add: ex_fs_def order_file_def tree_file_def walk_files_def normalize_modname_def path_join_def)
  finally show ?thesis .
qed

text \<open>
  C34: The check of a module file against the kernel and the module in memory, for a section \<open>.modinfo\<close> that lists keys
  and values: the last value of a key counts, the version magic has to be that of the kernel, and the source version
  that of the module, both missing included.
\<close>

theorem check_module_version_exact:
  assumes "\<forall>kv \<in> set kvs. modinfo_ok kv" and "module_srcversion m = Inr v"
  shows "check_module_version vermagic (modinfo_text kvs) m =
    (if map_of (rev kvs) ''vermagic'' = Some vermagic \<and> map_of (rev kvs) ''srcversion'' = v then Inr ()
     else Inl ModinfoMismatchError)"
  using extract_modinfo_text [OF assms(1)] assms(2) by (auto simp: check_module_version_def)

theorem check_module_version_exact_witness:
  "check_module_version ''5.3 SMP'' (modinfo_text [(''license'', ''GPL''), (''vermagic'', ''5.3 SMP'')]) (ex_module ''ext4'') = Inr ()"
  using check_module_version_exact [of "[(''license'', ''GPL''), (''vermagic'', ''5.3 SMP'')]" "ex_module ''ext4''" None "''5.3 SMP''"]
  by (simp add: modinfo_ok_def module_srcversion_def ex_module_def)

text \<open>
  C8: Loading the modules.  When every module loads cleanly, each is loaded from the first path that has a file for it
  with the right versions, by the command for that file, in the order of the kernel's list; the numbers of loaded and
  failed modules are those of the modules with and without such a file; and the callbacks see nothing of the loading
  but the one pass over them after all modules are loaded.
\<close>

theorem load_modules_correct:
  assumes "debug_ok env" and "find_ok fs (ls_find st)" and "list_all (loads_cleanly fs env ck) ms"
    and "unpause w (ls_cb st) = (cb, None)"
  shows "\<exists>st'. load_modules fs env w ck (Inr release) (gen_of_list ms) st =
      (Inr (length (filter (\<lambda>m. picked fs env ck m \<noteq> None) ms), length (filter (\<lambda>m. picked fs env ck m = None) ms)), st') \<and>
    ls_commands st' = ls_commands st @ map snd (List.map_filter (picked fs env ck) ms) \<and> ls_cb st' = cb"
  using assms by (rule load_modules_clean)

lemma ex_picked:
  "picked ex_fs ex_genv ex_ck (ex_module ''a_b'') = Some (''/m/a-b.ko'', ''add-symbol-file /m/a-b.ko 0x10  -o 0xff000000'')"
  "picked ex_fs ex_genv ex_ck (ex_module ''c'') = None" "picked ex_fs ex_genv ex_ck (ex_module ''d'') = None"
  by code_simp+

lemma ex_clean: "list_all (loads_cleanly ex_fs ex_genv ex_ck) [ex_module ''a_b'', ex_module ''c'', ex_module ''d'']"
  by code_simp

lemma ex_fs_lines: "\<forall>p e. fs_lines ex_fs p = Inl e \<longrightarrow> catches IOError e"
  by (simp add: ex_fs_def catches_def numeral_eq_Suc)

lemma ex_debug_ok: "debug_ok ex_genv"
  by (simp add: debug_ok_def ex_genv_def)

theorem load_modules_correct_witness:
  "\<exists>st'. load_modules ex_fs ex_genv (\<lambda>_. NotReady) ex_ck (Inr ''1'')
      (gen_of_list [ex_module ''a_b'', ex_module ''c'', ex_module ''d'']) ex_load = (Inr (1, 2), st') \<and>
    ls_commands st' = [''add-symbol-file /m/a-b.ko 0x10  -o 0xff000000''] \<and> ls_cb st' = cb_init"
proof -
  let ?ms = "[ex_module ''a_b'', ex_module ''c'', ex_module ''d'']"
  have "find_ok ex_fs (ls_find ex_load)" using ex_fs_lines by (simp add: ex_load_def find_ok_init)
  moreover have "unpause (\<lambda>_. NotReady) (ls_cb ex_load) = (cb_init, None)"
    by (simp add: ex_load_def unpause_def evaluate_all_def cb_init_def update_pending_def)
  ultimately show ?thesis
    using load_modules_correct [of ex_genv ex_fs ex_load ex_ck ?ms "\<lambda>_. NotReady" cb_init "''1''"] ex_clean ex_picked ex_debug_ok
    by (simp add: map_filter_simps ex_load_def numeral_2_eq_2)
qed

text \<open>
  An exception that leaves the loop over the modules leaves the callbacks paused: no event evaluates a callback
  from then on, until someone else unpauses them.
\<close>

theorem load_modules_error_paused:
  assumes "fst (load_each fs env w ck ms 0 0 (st\<lparr>ls_cb := pause (ls_cb st)\<rparr>)) = Inl e"
  shows "\<exists>st'. load_modules fs env w ck (Inr release) (gen_of_list ms) st = (Inl e, st') \<and>
    ls_cb st' = pause (ls_cb st) \<and> (\<forall>w'. new_objfile w' (ls_cb st') = (ls_cb st', None))"
  using assms by (rule load_modules_raises)

theorem load_modules_error_paused_witness:
  "\<exists>st'. load_modules ex_fs (ex_genv\<lparr>ge_execute := (\<lambda>_. Inl GdbError)\<rparr>) (\<lambda>_. NotReady) ex_ck (Inr ''1'')
      (gen_of_list [ex_module ''a_b'']) ex_load = (Inl CrashKernelError, st') \<and> paused (ls_cb st')"
proof -
  have "fst (load_each ex_fs (ex_genv\<lparr>ge_execute := (\<lambda>_. Inl GdbError)\<rparr>) (\<lambda>_. NotReady) ex_ck [ex_module ''a_b''] 0 0
      (ex_load\<lparr>ls_cb := pause (ls_cb ex_load)\<rparr>)) = Inl CrashKernelError" by code_simp
  from load_modules_error_paused [OF this, of "''1''"] show ?thesis by (auto simp: pause_def)
qed

text \<open>
  The fallback to the minimal symbol is taken for the version, but not for the version magic, when the symbol is
  missing.
\<close>

theorem vermagic_no_fallback:
  "extract_vermagic (Inl MissingSymbolError) r = Inl MissingSymbolError"
  "extract_version (Inl MissingSymbolError) (Inr ''Linux version 5.3.18-1 (geeko@buildhost)'') = Inr ''5.3.18-1''"
  by code_simp+

lemma setup_roots_nonempty: "setup_roots fs spec = Inr rs \<Longrightarrow> rs \<noteq> []"
  by (auto simp: setup_roots_def Let_def split: path_spec.splits if_splits)

lemma setup_module_path_exists: "setup_module_path fs rs v spec = Inr ps \<Longrightarrow> p \<in> set ps \<Longrightarrow> fs_exists fs p"
  by (cases spec) (auto simp: setup_module_path_def under_roots_def split: if_splits)

lemma setup_module_debuginfo_path_exists:
  "setup_module_debuginfo_path fs rs v spec = Inr ps \<Longrightarrow> p \<in> set ps \<Longrightarrow> fs_exists fs p"
  by (cases spec) (auto simp: setup_module_debuginfo_path_def under_roots_def find_debuginfo_paths_def split: if_splits)

lemma debug_loop_symbols:
  "load_vmlinux_debuginfo env w ob paths st = (Inr u, st') \<Longrightarrow> has_symbols env ob st'"
  by (auto simp: load_vmlinux_debuginfo_def split: if_splits prod.splits sum.splits)

text \<open>
  A \<open>CrashKernel\<close> that was made: the kernel has debug symbols, there is a root, and the directories with modules and
  with their debug information exist.
\<close>

theorem crash_kernel_init_paths:
  assumes "crash_kernel_init fs env im w roots vd mp md st = (Inr ck, st')"
  shows "has_symbols env (im_objfile im) st' \<and> ck_roots ck \<noteq> [] \<and>
    (\<forall>p \<in> set (ck_module_path ck @ ck_module_debuginfo_path ck). fs_exists fs p)"
proof -
  obtain ck0 version kern where ck0: "setup_paths fs kern version roots vd mp md = Inr ck0"
    "has_symbols env (im_objfile im) st'" "ck_roots ck = ck_roots ck0" "ck_module_path ck = ck_module_path ck0"
    "ck_module_debuginfo_path ck = ck_module_debuginfo_path ck0"
    using assms by (auto simp: crash_kernel_init_def Let_def bindR_eq_Inr bindR_eq_Inl split: sum.splits prod.splits
        dest!: debug_loop_symbols)
  moreover obtain rs where "setup_roots fs roots = Inr rs" "setup_module_path fs rs version mp = Inr (ck_module_path ck0)"
    "setup_module_debuginfo_path fs rs version md = Inr (ck_module_debuginfo_path ck0)" "ck_roots ck0 = rs"
    using ck0(1) by (auto simp: setup_paths_def bindR_eq_Inr)
  ultimately show ?thesis
    using setup_roots_nonempty setup_module_path_exists setup_module_debuginfo_path_exists by fastforce
qed

end
