(* ===== verification/Lookup.thy ===== *)
theory Lookup
  imports Callbacks
begin

text \<open>
  Named callbacks and delayed values of \<^verbatim>\<open>crash/infra/lookup.py\<close> and their collections in \<^verbatim>\<open>crash/util/symbols.py\<close>, on top
  of the callback machine of theory \<open>Callbacks\<close>.

  There the outcome of a callback is a parameter.  Here it comes from what gdb knows at that moment: a table of minimal
  symbols, of symbols and of types.  The state of the whole is the callback machine together with the delayed values and
  their contents.  The main result is that the machine implements a simple specification: the content of a delayed value
  is what the first table gives in which it was found, over the tables at the moments when it is evaluated.
\<close>

section \<open>What gdb knows\<close>

record sym_value =
  sv_type :: gtype
  sv_address :: addr

record msymbol =
  ms_name :: string
  ms_address :: addr

record gsymbol =
  gy_name :: string
  gy_value :: "sym_value res"

record gdb_tables =
  gb_minimal :: "string \<Rightarrow> msymbol option"
  gb_symbol :: "string \<Rightarrow> gsymbol option"
  gb_type :: "string \<Rightarrow> gtype res"

datatype found = FMinSym msymbol | FSymbol gsymbol | FValue sym_value | FAddress addr | FType gtype | FInt int

section \<open>Named callbacks\<close>

datatype cb_class = MinimalSymbolCallback | SymbolCallback | SymvalCallback | TypeCallback

text \<open>\<open>check_ready\<close>: only a \<^verbatim>\<open>gdb.MemoryError\<close> of \<open>value()\<close>, and any \<^verbatim>\<open>gdb.error\<close> of \<open>lookup_type\<close>, mean not ready.\<close>

fun check_ready :: "gdb_tables \<Rightarrow> cb_class \<Rightarrow> string \<Rightarrow> found option res" where
  "check_ready t MinimalSymbolCallback name = Inr (map_option FMinSym (gb_minimal t name))"
| "check_ready t SymbolCallback name = Inr (map_option FSymbol (gb_symbol t name))"
| "check_ready t SymvalCallback name = (case gb_symbol t name of
       None \<Rightarrow> Inr None
     | Some y \<Rightarrow> (case gy_value y of
          Inr v \<Rightarrow> Inr (Some (FValue v))
        | Inl e \<Rightarrow> if catches GdbMemoryError e then Inr None else Inl e))"
| "check_ready t TypeCallback name = (case gb_type t name of
       Inr ty \<Rightarrow> Inr (Some (FType ty))
     | Inl e \<Rightarrow> if catches GdbError e then Inr None else Inl e)"

text \<open>The name that a callback of a class looks up: \<open>TypeCallback\<close> strips a pointer from the name it is given.\<close>

definition callback_name :: "cb_class \<Rightarrow> string \<Rightarrow> string res" where
  "callback_name cls name =
     (if cls = TypeCallback then bindR (resolve_type_name name) (\<lambda>(b, a, p). Inr b) else Inr name)"

definition callback_attrname :: "cb_class \<Rightarrow> string \<Rightarrow> string res" where
  "callback_attrname cls name =
     (if cls = TypeCallback then bindR (resolve_type_name name) (\<lambda>(b, a, p). Inr a) else Inr name)"

section \<open>Delayed values\<close>

datatype delayed_class =
  DelayedValue | DelayedMinimalSymbol | DelayedSymbol | DelayedType | DelayedSymval | DelayedMinimalSymval

fun callback_class :: "delayed_class \<Rightarrow> cb_class option" where
  "callback_class DelayedValue = None"
| "callback_class DelayedMinimalSymbol = Some MinimalSymbolCallback"
| "callback_class DelayedSymbol = Some SymbolCallback"
| "callback_class DelayedType = Some TypeCallback"
| "callback_class DelayedSymval = Some SymbolCallback"
| "callback_class DelayedMinimalSymval = Some MinimalSymbolCallback"

record delayed =
  dl_class :: delayed_class
  dl_name :: string
  dl_attrname :: string
  dl_pointer :: bool

definition delayed_new :: "delayed_class \<Rightarrow> string \<Rightarrow> delayed res" where
  "delayed_new cls name =
     (if cls = DelayedType
      then bindR (resolve_type_name name) (\<lambda>(b, a, p). Inr \<lparr>dl_class = cls, dl_name = b, dl_attrname = a, dl_pointer = p\<rparr>)
      else Inr \<lparr>dl_class = cls, dl_name = name, dl_attrname = name, dl_pointer = False\<rparr>)"

definition delayed_get :: "found option \<Rightarrow> found res" where
  "delayed_get v = of_option DelayedAttributeError v"

text \<open>
  \<open>callback\<close> of the classes: the content afterwards.  The base class keeps the first value; the others store what they
  make of the result.  The results of the wrong kind cannot come from the callback class of the delayed value.
\<close>

fun deliver :: "delayed_class \<Rightarrow> bool \<Rightarrow> found \<Rightarrow> found option \<Rightarrow> found option res" where
  "deliver DelayedType ptr (FType ty) old = Inr (Some (FType (if ptr then gt_pointer ty else ty)))"
| "deliver DelayedSymval ptr (FSymbol y) old = bindR (gy_value y) (\<lambda>v.
     Inr (Some (if gt_code (sv_type v) = CODE_FUNC then FAddress (sv_address v) else FValue v)))"
| "deliver DelayedMinimalSymval ptr (FMinSym m) old = Inr (Some (FInt (ms_address m)))"
| "deliver cls ptr v old = Inr (case old of Some x \<Rightarrow> Some x | None \<Rightarrow> Some v)"

section \<open>The machine\<close>

text \<open>The callbacks, the delayed values by the identifiers of their callbacks with the name each looks up, and the contents.\<close>

record lookup_sys =
  lk_cb :: cb_sys
  lk_delayed :: "cbid \<Rightarrow> (delayed \<times> cb_class \<times> string) option"
  lk_vals :: "cbid \<Rightarrow> found option"

definition lookup :: "gdb_tables \<Rightarrow> delayed \<times> cb_class \<times> string \<Rightarrow> found option \<Rightarrow> found option res option res" where
  "lookup t dcn old = (case dcn of (d, cls, name) \<Rightarrow>
     bindR (check_ready t cls name) (\<lambda>r. Inr (map_option (\<lambda>v. deliver (dl_class d) (dl_pointer d) v old) r)))"

definition lookup_outcome :: "gdb_tables \<Rightarrow> lookup_sys \<Rightarrow> cbid \<Rightarrow> outcome" where
  "lookup_outcome t s c = (case lk_delayed s c of
       None \<Rightarrow> NotReady
     | Some d \<Rightarrow> (case lookup t d (lk_vals s c) of
          Inl e \<Rightarrow> CheckExc e
        | Inr None \<Rightarrow> NotReady
        | Inr (Some (Inl e)) \<Rightarrow> Called (CbExc e)
        | Inr (Some (Inr v)) \<Rightarrow> Called Done))"

text \<open>The contents after an operation, from the calls it added to the log.\<close>

definition delivered :: "gdb_tables \<Rightarrow> lookup_sys \<Rightarrow> (cbid \<times> bool) list \<Rightarrow> cbid \<Rightarrow> found option" where
  "delivered t s log c = (if (c, True) \<in> set log
     then (case lk_delayed s c of
         None \<Rightarrow> lk_vals s c
       | Some d \<Rightarrow> (case lookup t d (lk_vals s c) of Inr (Some (Inr v)) \<Rightarrow> v | _ \<Rightarrow> lk_vals s c))
     else lk_vals s c)"

definition with_lookup ::
  "gdb_tables \<Rightarrow> ((cbid \<Rightarrow> outcome) \<Rightarrow> cb_sys \<Rightarrow> cb_sys \<times> exc option) \<Rightarrow> lookup_sys \<Rightarrow> lookup_sys \<times> exc option" where
  "with_lookup t op s = (case op (lookup_outcome t s) (lk_cb s) of (cb, e) \<Rightarrow>
     (s\<lparr>lk_cb := cb, lk_vals := delivered t s (drop (length (calls (lk_cb s))) (calls cb))\<rparr>, e))"

text \<open>
  The constructor of a delayed value: \<open>attach_callback\<close> makes the callback, which connects itself.  The generic class has
  none.
\<close>

definition delayed_attach ::
  "gdb_tables \<Rightarrow> bool \<Rightarrow> bool \<Rightarrow> bool \<Rightarrow> delayed_class \<Rightarrow> string \<Rightarrow> cbid \<Rightarrow> lookup_sys \<Rightarrow> delayed res \<times> lookup_sys" where
  "delayed_attach t wait target objfiles cls name c s = (case delayed_new cls name of
       Inl e \<Rightarrow> (Inl e, s)
     | Inr d \<Rightarrow> (case callback_class cls of
          None \<Rightarrow> (Inr d, s)
        | Some k \<Rightarrow> (case callback_name k (dl_name d) of
             Inl e \<Rightarrow> (Inl e, s)
           | Inr n \<Rightarrow> (case with_lookup t (\<lambda>w. connect_callback w objfiles c)
                 (s\<lparr>lk_cb := cb_new c wait target (lk_cb s), lk_delayed := (lk_delayed s)(c \<mapsto> (d, k, n))\<rparr>) of
                (s', Some e) \<Rightarrow> (Inl e, s')
              | (s', None) \<Rightarrow> (Inr d, s')))))"

text \<open>\<open>DelayedCollection.__init__\<close>, with the identifiers from \<open>k\<close> on.\<close>

fun collection_new ::
  "gdb_tables \<Rightarrow> bool \<Rightarrow> bool \<Rightarrow> bool \<Rightarrow> delayed_class \<Rightarrow> string list \<Rightarrow> cbid \<Rightarrow> (string \<times> cbid) list \<Rightarrow> lookup_sys \<Rightarrow>
    (string \<times> cbid) list res \<times> lookup_sys" where
  "collection_new t wait target objfiles cls [] k attrs s = (Inr attrs, s)"
| "collection_new t wait target objfiles cls (name # names) k attrs s =
     (case delayed_attach t wait target objfiles cls name k s of
        (Inl e, s') \<Rightarrow> (Inl e, s')
      | (Inr d, s') \<Rightarrow> collection_new t wait target objfiles cls names (Suc k)
          (AList.update (dl_name d) k (AList.update (dl_attrname d) k attrs)) s')"

definition collection_view :: "(string \<times> cbid) list \<Rightarrow> lookup_sys \<Rightarrow> found collection" where
  "collection_view attrs s = \<lparr>co_attrs = attrs, co_vals = lk_vals s, co_cached = (\<lambda>_. None)\<rparr>"

text \<open>\<open>CallbackCollection\<close>: the callbacks by their attribute names; a later one of the same name replaces an earlier one.\<close>

fun callback_collection :: "cb_class \<Rightarrow> (string \<times> 'f) list \<Rightarrow> cbid \<Rightarrow> (string \<times> cbid) list \<Rightarrow> (string \<times> cbid) list res" where
  "callback_collection cls [] k attrs = Inr attrs"
| "callback_collection cls ((name, f) # cbs) k attrs = bindR (callback_attrname cls name) (\<lambda>a.
     callback_collection cls cbs (Suc k) (AList.update a k attrs))"

text \<open>The events of a session.\<close>

datatype lookup_event = ObjfileLoaded gdb_tables | TargetOpened gdb_tables | Paused | Unpaused gdb_tables

fun lookup_step :: "lookup_event \<Rightarrow> lookup_sys \<Rightarrow> lookup_sys \<times> exc option" where
  "lookup_step (ObjfileLoaded t) s = with_lookup t new_objfile s"
| "lookup_step (TargetOpened t) s = with_lookup t target_ready s"
| "lookup_step Paused s = (s\<lparr>lk_cb := pause (lk_cb s)\<rparr>, None)"
| "lookup_step (Unpaused t) s = with_lookup t unpause s"

fun lookup_run :: "lookup_event list \<Rightarrow> lookup_sys \<Rightarrow> lookup_sys \<times> exc option" where
  "lookup_run [] s = (s, None)"
| "lookup_run (ev # evs) s = (case lookup_step ev s of (s', None) \<Rightarrow> lookup_run evs s' | (s', Some e) \<Rightarrow> (s', Some e))"

section \<open>Passes over the callbacks\<close>

text \<open>
  What an operation does that evaluates the callbacks of \<open>E\<close>, all of which are connected: the ones whose outcome is done
  are completed and logged, and none of \<open>E\<close> waits any more.
\<close>

definition pass :: "(cbid \<Rightarrow> outcome) \<Rightarrow> cbid set \<Rightarrow> cb_sys \<Rightarrow> cb_sys \<Rightarrow> bool" where
  "pass w E s s' \<longleftrightarrow>
     (\<forall>d. (completed (obj s' d) \<longleftrightarrow> completed (obj s d) \<or> d \<in> E \<and> w d = Called Done) \<and>
          (connected (obj s' d) \<longleftrightarrow> connected (obj s d) \<and> \<not> (d \<in> E \<and> w d = Called Done)) \<and>
          (waiting (obj s' d) \<longleftrightarrow> waiting (obj s d) \<and> d \<notin> E)) \<and>
     (\<exists>log. calls s' = calls s @ log \<and> (\<forall>d. (d, True) \<in> set log \<longleftrightarrow> d \<in> E \<and> w d = Called Done)) \<and>
     pending_list s' = filter (\<lambda>c. connected (obj s' c)) (pending_list s) \<and> paused s' = paused s \<and> handlers s' = handlers s"

definition lists_ok :: "cb_sys \<Rightarrow> bool" where
  "lists_ok s \<longleftrightarrow> distinct (pending_list s) \<and> distinct (waitlist s) \<and>
     (\<forall>c. connected (obj s c) \<longleftrightarrow> c \<in> set (pending_list s)) \<and> (\<forall>c. connected (obj s c) \<longrightarrow> \<not> completed (obj s c)) \<and>
     (\<forall>c. c \<in> set (waitlist s) \<longleftrightarrow> connected (obj s c) \<and> waiting (obj s c))"

definition awake :: "cb_sys \<Rightarrow> cbid set" where
  "awake s = {c \<in> set (pending_list s). \<not> waiting (obj s c)}"

lemma call_log_done: "(d, True) \<in> set (call_log w s c) \<longleftrightarrow> d = c \<and> finishes w s c"
  by (auto simp: call_log_def finishes_def split: outcome.splits)

lemma evaluate_all_awake:
  assumes "lists_ok s" "\<not> paused s" "\<forall>c. quiet (w c)"
  shows "\<exists>s'. evaluate_all w s = (s', None) \<and> pass w (awake s) s s' \<and> waitlist s' = waitlist s"
proof -
  have "distinct (pending_list s)" "\<forall>c \<in> set (pending_list s). quiet (w c) \<and> \<not> completed (obj s c)"
    using assms by (auto simp: lists_ok_def)
  then obtain s1 where s1: "for_callbacks (evaluate w False) (pending_list s) s = (s1, None)"
    "calls s1 = calls s @ concat (map (call_log w s) (pending_list s))" "pending_list s1 = pending_list s"
    "waitlist s1 = waitlist s" "paused s1 = paused s" "handlers s1 = handlers s"
    "\<forall>d. obj s1 d = (if d \<in> set (pending_list s) \<and> finishes w s d
        then (obj s d)\<lparr>completed := True, connected := False\<rparr> else obj s d)"
    using for_evaluate_quiet [of "pending_list s" w s] by auto
  have E: "d \<in> awake s \<and> w d = Called Done \<longleftrightarrow> d \<in> set (pending_list s) \<and> finishes w s d" for d
    by (auto simp: awake_def finishes_def)
  have "\<forall>d. (d, True) \<in> set (concat (map (call_log w s) (pending_list s))) \<longleftrightarrow> d \<in> awake s \<and> w d = Called Done"
    unfolding E by (auto simp: call_log_done)
  then have "pass w (awake s) s (update_pending s1)"
    using s1 unfolding pass_def E by (auto simp: awake_def)
  then show ?thesis using s1 assms(2) by (simp add: evaluate_all_def)
qed

lemma complete_wait_quiet:
  assumes "quiet (w c)" and "\<not> completed (obj s c)"
  shows "\<exists>s'. complete_wait_for_target w c s = (s', None) \<and>
    (\<exists>log. calls s' = calls s @ log \<and> (\<forall>d. (d, True) \<in> set log \<longleftrightarrow> d = c \<and> w d = Called Done)) \<and>
    pending_list s' = pending_list s \<and> paused s' = paused s \<and> handlers s' = handlers s \<and>
    (\<forall>d. obj s' d = (if d = c then (if w c = Called Done then (obj s c)\<lparr>completed := True, connected := False, waiting := False\<rparr>
                                    else (obj s c)\<lparr>waiting := False\<rparr>) else obj s d))"
proof -
  let ?s = "set_obj c ((obj s c)\<lparr>waiting := False\<rparr>) s"
  obtain s' where s': "evaluate w False c ?s = (s', None)" "calls s' = calls ?s @ call_log w ?s c"
    "pending_list s' = pending_list ?s" "paused s' = paused ?s" "handlers s' = handlers ?s"
    "\<forall>d. obj s' d = (if d = c \<and> finishes w ?s c then (obj ?s c)\<lparr>completed := True, connected := False\<rparr> else obj ?s d)"
    using evaluate_quiet [of w c ?s] assms by (auto simp: obj_set_obj)
  have "finishes w ?s c \<longleftrightarrow> w c = Called Done" by (simp add: finishes_def obj_set_obj)
  then show ?thesis using s' call_log_done [of _ w ?s c]
    by (auto simp: complete_wait_for_target_def obj_set_obj)
qed

lemma for_complete_wait_quiet:
  assumes "distinct cs" "\<forall>c \<in> set cs. quiet (w c) \<and> \<not> completed (obj s c)"
  shows "\<exists>s'. for_callbacks (complete_wait_for_target w) cs s = (s', None) \<and>
    (\<exists>log. calls s' = calls s @ log \<and> (\<forall>d. (d, True) \<in> set log \<longleftrightarrow> d \<in> set cs \<and> w d = Called Done)) \<and>
    pending_list s' = pending_list s \<and> paused s' = paused s \<and> handlers s' = handlers s \<and>
    (\<forall>d. obj s' d = (if d \<in> set cs then (if w d = Called Done then (obj s d)\<lparr>completed := True, connected := False, waiting := False\<rparr>
                                    else (obj s d)\<lparr>waiting := False\<rparr>) else obj s d))"
  using assms
proof (induction cs arbitrary: s)
  case (Cons c cs)
  obtain s1 log1 where s1: "complete_wait_for_target w c s = (s1, None)" "calls s1 = calls s @ log1"
    "\<forall>d. (d, True) \<in> set log1 \<longleftrightarrow> d = c \<and> w d = Called Done"
    "pending_list s1 = pending_list s" "paused s1 = paused s" "handlers s1 = handlers s"
    "\<forall>d. obj s1 d = (if d = c then (if w c = Called Done then (obj s c)\<lparr>completed := True, connected := False, waiting := False\<rparr>
                                    else (obj s c)\<lparr>waiting := False\<rparr>) else obj s d)"
    using complete_wait_quiet [of w c s] Cons.prems by auto
  have same: "obj s1 d = obj s d" if "d \<in> set cs" for d using s1(7) Cons.prems(1) that by auto
  then have "\<forall>c \<in> set cs. quiet (w c) \<and> \<not> completed (obj s1 c)" using Cons.prems(2) by auto
  then obtain s2 log2 where s2: "for_callbacks (complete_wait_for_target w) cs s1 = (s2, None)" "calls s2 = calls s1 @ log2"
    "\<forall>d. (d, True) \<in> set log2 \<longleftrightarrow> d \<in> set cs \<and> w d = Called Done"
    "pending_list s2 = pending_list s1" "paused s2 = paused s1" "handlers s2 = handlers s1"
    "\<forall>d. obj s2 d = (if d \<in> set cs then (if w d = Called Done then (obj s1 d)\<lparr>completed := True, connected := False, waiting := False\<rparr>
                                    else (obj s1 d)\<lparr>waiting := False\<rparr>) else obj s1 d)"
    using Cons.IH [of s1] Cons.prems(1) by auto
  have "\<forall>d. (d, True) \<in> set (log1 @ log2) \<longleftrightarrow> d \<in> set (c # cs) \<and> w d = Called Done" using s1(3) s2(3) by auto
  moreover have "calls s2 = calls s @ log1 @ log2" using s1(2) s2(2) by simp
  moreover have "\<forall>d. obj s2 d = (if d \<in> set (c # cs) then (if w d = Called Done then (obj s d)\<lparr>completed := True, connected := False, waiting := False\<rparr>
      else (obj s d)\<lparr>waiting := False\<rparr>) else obj s d)"
    using s1(7) s2(7) same Cons.prems(1) by auto
  ultimately show ?case using s1(1,4-6) s2(1,4-6) by auto
qed simp

lemma target_ready_pass:
  assumes "lists_ok s" "\<forall>c. quiet (w c)"
  shows "\<exists>s'. target_ready w s = (s', None) \<and> pass w (set (waitlist s)) s s' \<and> waitlist s' = []"
proof -
  have "distinct (waitlist s)" "\<forall>c \<in> set (waitlist s). quiet (w c) \<and> \<not> completed (obj s c)"
    using assms by (auto simp: lists_ok_def)
  then obtain s1 log where s1: "for_callbacks (complete_wait_for_target w) (waitlist s) s = (s1, None)" "calls s1 = calls s @ log"
    "\<forall>d. (d, True) \<in> set log \<longleftrightarrow> d \<in> set (waitlist s) \<and> w d = Called Done"
    "pending_list s1 = pending_list s" "paused s1 = paused s" "handlers s1 = handlers s"
    "\<forall>d. obj s1 d = (if d \<in> set (waitlist s) then (if w d = Called Done then (obj s d)\<lparr>completed := True, connected := False, waiting := False\<rparr>
                                    else (obj s d)\<lparr>waiting := False\<rparr>) else obj s d)"
    using for_complete_wait_quiet [of "waitlist s" w s] by auto
  then have "pass w (set (waitlist s)) s (update_pending (s1\<lparr>waitlist := []\<rparr>))"
    by (auto simp: pass_def)
  then show ?thesis using s1(1) by (simp add: target_ready_def)
qed

lemma passD:
  assumes "pass w E s s'"
  shows "completed (obj s' d) \<longleftrightarrow> completed (obj s d) \<or> d \<in> E \<and> w d = Called Done"
    and "connected (obj s' d) \<longleftrightarrow> connected (obj s d) \<and> \<not> (d \<in> E \<and> w d = Called Done)"
    and "waiting (obj s' d) \<longleftrightarrow> waiting (obj s d) \<and> d \<notin> E"
    and "pending_list s' = filter (\<lambda>c. connected (obj s' c)) (pending_list s)" and "paused s' = paused s" and "handlers s' = handlers s"
    and "\<exists>log. calls s' = calls s @ log \<and> (\<forall>d. (d, True) \<in> set log \<longleftrightarrow> d \<in> E \<and> w d = Called Done)"
  using assms unfolding pass_def by blast+

lemma pass_lists_ok:
  assumes "lists_ok s" "pass w E s s'"
    and "E = set (waitlist s) \<and> waitlist s' = [] \<or> E \<inter> set (waitlist s) = {} \<and> waitlist s' = waitlist s"
  shows "lists_ok s'"
proof -
  note obj' = passD(2,3,1) [OF assms(2)]
  note pend = passD(4) [OF assms(2)]
  have ok: "distinct (pending_list s)" "distinct (waitlist s)" "connected (obj s c) \<longleftrightarrow> c \<in> set (pending_list s)"
    "connected (obj s c) \<Longrightarrow> \<not> completed (obj s c)" "c \<in> set (waitlist s) \<longleftrightarrow> connected (obj s c) \<and> waiting (obj s c)" for c
    using assms(1) by (auto simp: lists_ok_def)
  have "c \<in> set (pending_list s') \<longleftrightarrow> connected (obj s' c)" for c using obj'(1) ok(3) by (auto simp: pend)
  moreover have "c \<in> set (waitlist s') \<longleftrightarrow> connected (obj s' c) \<and> waiting (obj s' c)" for c
    using assms(3) obj'(1,2) [of c] ok(5) [of c] by auto
  moreover have "distinct (waitlist s')" using assms(3) ok(2) by auto
  moreover have "connected (obj s' c) \<Longrightarrow> \<not> completed (obj s' c)" for c using obj'(1,3) [of c] ok(4) by auto
  ultimately show ?thesis using ok(1) by (simp add: lists_ok_def pend)
qed

text \<open>A second pass with the same outcomes adds nothing to the first.\<close>

lemma pass_again:
  assumes "pass w E s s1" "pass w E1 s1 s2" "\<forall>d \<in> E1. w d \<noteq> Called Done" "E1 \<subseteq> E"
  shows "pass w E s s2"
proof -
  note p1 = passD [OF assms(1)] and p2 = passD [OF assms(2)]
  have no: "\<not> (d \<in> E1 \<and> w d = Called Done)" for d using assms(3) by blast
  obtain log1 log2 where log: "calls s1 = calls s @ log1" "\<forall>d. (d, True) \<in> set log1 \<longleftrightarrow> d \<in> E \<and> w d = Called Done"
    "calls s2 = calls s1 @ log2" "\<forall>d. (d, True) \<notin> set log2"
    using p1(7) p2(7) no by metis
  have calls: "\<exists>log. calls s2 = calls s @ log \<and> (\<forall>d. (d, True) \<in> set log \<longleftrightarrow> d \<in> E \<and> w d = Called Done)"
    using log by (intro exI [of _ "log1 @ log2"]) auto
  have conn: "connected (obj s2 d) = connected (obj s1 d)" for d using p2(2) no by simp
  have "pending_list s2 = filter (\<lambda>c. connected (obj s2 c)) (pending_list s)" unfolding p2(4) p1(4) conn by simp
  moreover have "completed (obj s2 d) = completed (obj s1 d)" for d using p2(1) no by simp
  moreover have "waiting (obj s2 d) \<longleftrightarrow> waiting (obj s d) \<and> d \<notin> E" for d using p2(3) p1(3) assms(4) by auto
  ultimately show ?thesis using calls unfolding pass_def by (simp add: conn p1(1,2) p1(5,6) p2(5,6))
qed

lemma awake_after:
  assumes "lists_ok s" "pass w (awake s) s s'" "d \<in> awake s'"
  shows "d \<in> awake s \<and> w d \<noteq> Called Done"
  using assms by (auto simp: awake_def pass_def lists_ok_def)

lemma awake_waitlist: "lists_ok s \<Longrightarrow> awake s \<inter> set (waitlist s) = {}"
  by (auto simp: awake_def lists_ok_def)

lemma new_objfile_pass:
  assumes "lists_ok s" "\<not> paused s" "\<forall>c. quiet (w c)" "0 < handlers s"
  shows "\<exists>s'. new_objfile w s = (s', None) \<and> pass w (awake s) s s' \<and> waitlist s' = waitlist s"
proof -
  have rest: "pass w (awake s) s (fst (run_handlers w n s1)) \<and> waitlist (fst (run_handlers w n s1)) = waitlist s"
    if "pass w (awake s) s s1" "waitlist s1 = waitlist s" for n s1
    using that
  proof (induction n arbitrary: s1)
    case (Suc n)
    have ok1: "lists_ok s1" using pass_lists_ok [OF assms(1) Suc.prems(1)] awake_waitlist [OF assms(1)] Suc.prems(2) by blast
    have "\<not> paused s1" using assms(2) Suc.prems(1) by (simp add: pass_def)
    then obtain s2 where s2: "evaluate_all w s1 = (s2, None)" "pass w (awake s1) s1 s2" "waitlist s2 = waitlist s1"
      using evaluate_all_awake [OF ok1] assms(3) by blast
    have "pass w (awake s) s s2"
      using pass_again [OF Suc.prems(1) s2(2)] awake_after [OF assms(1) Suc.prems(1)] by blast
    then show ?case using Suc.IH [of s2] s2 Suc.prems(2) by (simp add: split_beta)
  qed simp
  obtain s1 where s1: "evaluate_all w s = (s1, None)" "pass w (awake s) s s1" "waitlist s1 = waitlist s"
    using evaluate_all_awake [OF assms(1-3)] by blast
  obtain n where "handlers s = Suc n" using assms(4) gr0_implies_Suc by blast
  then show ?thesis using rest [OF s1(2,3), of n] s1(1) by (simp add: new_objfile_def split_beta)
qed

section \<open>The specification of a delayed value\<close>

text \<open>What a table gives for a delayed value that has none yet.\<close>

definition found_value :: "gdb_tables \<Rightarrow> delayed \<times> cb_class \<times> string \<Rightarrow> found option" where
  "found_value t d = (case lookup t d None of Inr (Some (Inr v)) \<Rightarrow> v | _ \<Rightarrow> None)"

fun first_found :: "delayed \<times> cb_class \<times> string \<Rightarrow> gdb_tables list \<Rightarrow> found option" where
  "first_found d [] = None"
| "first_found d (t # ts) = (case found_value t d of Some v \<Rightarrow> Some v | None \<Rightarrow> first_found d ts)"

text \<open>The tables at the moments when a value is evaluated: it may wait for the target, and the callbacks may be paused.\<close>

fun seen :: "bool \<Rightarrow> bool \<Rightarrow> lookup_event list \<Rightarrow> gdb_tables list" where
  "seen wait pau [] = []"
| "seen wait pau (ObjfileLoaded t # evs) = (if wait \<or> pau then [] else [t]) @ seen wait pau evs"
| "seen wait pau (TargetOpened t # evs) = (if wait then [t] else []) @ seen False pau evs"
| "seen wait pau (Paused # evs) = seen wait True evs"
| "seen wait pau (Unpaused t # evs) = (if wait then [] else [t]) @ seen wait False evs"

text \<open>Reading the table raises only exceptions of gdb.\<close>

definition tables_ok :: "gdb_tables \<Rightarrow> bool" where
  "tables_ok t \<longleftrightarrow> (\<forall>n y e. gb_symbol t n = Some y \<and> gy_value y = Inl e \<longrightarrow> catches GdbError e) \<and>
     (\<forall>n e. gb_type t n = Inl e \<longrightarrow> catches GdbError e)"

fun event_ok :: "lookup_event \<Rightarrow> bool" where
  "event_ok (ObjfileLoaded t) \<longleftrightarrow> tables_ok t"
| "event_ok (TargetOpened t) \<longleftrightarrow> tables_ok t"
| "event_ok Paused \<longleftrightarrow> True"
| "event_ok (Unpaused t) \<longleftrightarrow> tables_ok t"

definition lk_inv :: "lookup_sys \<Rightarrow> bool" where
  "lk_inv s \<longleftrightarrow> lists_ok (lk_cb s) \<and> (\<forall>c. lk_delayed s c \<noteq> None \<longrightarrow> 0 < handlers (lk_cb s) \<and>
     (if lk_vals s c = None then connected (obj (lk_cb s) c) else \<not> connected (obj (lk_cb s) c) \<and> \<not> waiting (obj (lk_cb s) c)))"

section \<open>The machine implements the specification\<close>

lemma deliver_None: "deliver cls p v None = Inr r \<Longrightarrow> r \<noteq> None"
  by (cases "(cls, p, v, None :: found option)" rule: deliver.cases) (auto simp: bindR_eq_Inr bindR_eq_Inl split: sum.splits)

lemma deliver_Inl: "deliver cls p v old = Inl e \<Longrightarrow> \<exists>y. v = FSymbol y \<and> gy_value y = Inl e"
  by (cases "(cls, p, v, old)" rule: deliver.cases) (auto simp: bindR_eq_Inr bindR_eq_Inl split: sum.splits)

lemma check_ready_symbol: "check_ready t cls n = Inr (Some (FSymbol y)) \<Longrightarrow> gb_symbol t n = Some y"
  by (cases cls) (auto split: option.splits sum.splits if_splits)

lemma check_ready_Inl: "tables_ok t \<Longrightarrow> check_ready t cls n = Inl e \<Longrightarrow> catches GdbError e"
  by (cases cls) (auto simp: tables_ok_def split: option.splits sum.splits if_splits)

lemma lookup_quiet:
  assumes "tables_ok t"
  shows "quiet (lookup_outcome t s c)"
proof -
  have "catches GdbError e" if "check_ready t cls n = Inr (Some v)" "deliver k p v old = Inl e" for cls n v k p old e
    using deliver_Inl [OF that(2)] check_ready_symbol that(1) assms unfolding tables_ok_def by metis
  then show ?thesis using check_ready_Inl [OF assms]
    by (auto simp: lookup_outcome_def lookup_def bindR_eq_Inr bindR_eq_Inl split: option.splits sum.splits prod.splits)
qed

lemma lookup_outcome_Done:
  assumes "lk_delayed s c = Some d" "lk_vals s c = None"
  shows "lookup_outcome t s c = Called Done \<longleftrightarrow> found_value t d \<noteq> None"
    and "lookup_outcome t s c = Called Done \<Longrightarrow> lookup t d None = Inr (Some (Inr (found_value t d)))"
  using assms deliver_None
  by (auto simp: lookup_outcome_def found_value_def lookup_def bindR_eq_Inr bindR_eq_Inl split: option.splits sum.splits prod.splits)

lemma lk_invD:
  assumes "lk_inv s"
  shows "lists_ok (lk_cb s)" and "lk_delayed s c = Some d \<Longrightarrow> 0 < handlers (lk_cb s)"
    and "lk_delayed s c = Some d \<Longrightarrow>
      if lk_vals s c = None then connected (obj (lk_cb s) c) else \<not> connected (obj (lk_cb s) c) \<and> \<not> waiting (obj (lk_cb s) c)"
  using assms unfolding lk_inv_def by blast+

lemma with_lookup_pass:
  assumes "lk_inv s" "op (lookup_outcome t s) (lk_cb s) = (cb, None)" "pass (lookup_outcome t s) E (lk_cb s) cb"
    and "E \<subseteq> {c. connected (obj (lk_cb s) c)}"
    and "E = set (waitlist (lk_cb s)) \<and> waitlist cb = [] \<or> E \<inter> set (waitlist (lk_cb s)) = {} \<and> waitlist cb = waitlist (lk_cb s)"
  obtains s' where "with_lookup t op s = (s', None)" "lk_inv s'" "lk_cb s' = cb" "lk_delayed s' = lk_delayed s"
    "\<And>c d. lk_delayed s c = Some d \<Longrightarrow> lk_vals s' c = (if c \<in> E then found_value t d else lk_vals s c)"
    "\<And>c. lk_delayed s c = None \<Longrightarrow> lk_vals s' c = lk_vals s c"
proof -
  let ?w = "lookup_outcome t s"
  define s' where "s' = s\<lparr>lk_cb := cb, lk_vals := delivered t s (drop (length (calls (lk_cb s))) (calls cb))\<rparr>"
  note p = passD [OF assms(3)]
  obtain log where "calls cb = calls (lk_cb s) @ log" "\<forall>d. (d, True) \<in> set log \<longleftrightarrow> d \<in> E \<and> ?w d = Called Done"
    using p(7) by blast
  then have log: "(c, True) \<in> set (drop (length (calls (lk_cb s))) (calls cb)) \<longleftrightarrow> c \<in> E \<and> ?w c = Called Done" for c
    by simp
  note old = lk_invD [OF assms(1)]
  have none: "lk_vals s c = None" if "lk_delayed s c = Some d" "c \<in> E" for c d
  proof -
    have "connected (obj (lk_cb s) c)" using assms(4) that(2) by blast
    then show ?thesis using old(3) [OF that(1)] by (cases "lk_vals s c") simp_all
  qed
  have vals: "lk_vals s' c = (if c \<in> E then found_value t d else lk_vals s c)" if "lk_delayed s c = Some d" for c d
  proof (cases "c \<in> E")
    case True
    then show ?thesis using none [OF that True] lookup_outcome_Done [OF that, of t]
      by (simp add: s'_def delivered_def log that)
  qed (simp add: s'_def delivered_def log)
  have lists: "lists_ok cb" by (rule pass_lists_ok [OF old(1) assms(3,5)])
  have inv: "lk_inv s'"
    unfolding lk_inv_def
  proof (intro conjI allI impI)
    fix c assume "lk_delayed s' c \<noteq> None"
    then obtain d where d: "lk_delayed s c = Some d" by (auto simp: s'_def)
    show "0 < handlers (lk_cb s')" using old(2) [OF d] p(6) by (simp add: s'_def)
    show "if lk_vals s' c = None then connected (obj (lk_cb s') c) else \<not> connected (obj (lk_cb s') c) \<and> \<not> waiting (obj (lk_cb s') c)"
    proof (cases "c \<in> E")
      case True
      have "connected (obj (lk_cb s) c)" using assms(4) True by blast
      then show ?thesis using True vals [OF d] lookup_outcome_Done(1) [OF d none [OF d True], of t] p(2,3) [of c]
        by (cases "found_value t d") (simp_all add: s'_def)
    next
      case False
      then show ?thesis using old(3) [OF d] vals [OF d] p(2,3) [of c] by (simp add: s'_def)
    qed
  qed (use lists in \<open>simp add: s'_def\<close>)
  have eq: "with_lookup t op s = (s', None)" using assms(2) by (simp add: with_lookup_def s'_def)
  have sel: "lk_cb s' = cb" "lk_delayed s' = lk_delayed s" by (simp_all add: s'_def)
  have other: "lk_vals s' c = lk_vals s c" if "lk_delayed s c = None" for c using that by (simp add: s'_def delivered_def)
  show ?thesis by (rule that [OF eq inv sel vals other])
qed

text \<open>A delayed value as the specification sees it: whether it waits, whether callbacks are paused, and its content.\<close>

definition lk_abs :: "cbid \<Rightarrow> lookup_sys \<Rightarrow> bool \<times> bool \<times> found option" where
  "lk_abs c s = (waiting (obj (lk_cb s) c), paused (lk_cb s), lk_vals s c)"

definition look :: "gdb_tables \<Rightarrow> delayed \<times> cb_class \<times> string \<Rightarrow> found option \<Rightarrow> found option" where
  "look t d v = (case v of Some x \<Rightarrow> Some x | None \<Rightarrow> found_value t d)"

fun spec_step :: "lookup_event \<Rightarrow> delayed \<times> cb_class \<times> string \<Rightarrow> bool \<times> bool \<times> found option \<Rightarrow> bool \<times> bool \<times> found option" where
  "spec_step (ObjfileLoaded t) d (wait, pau, v) = (wait, pau, if wait \<or> pau then v else look t d v)"
| "spec_step (TargetOpened t) d (wait, pau, v) = (False, pau, if wait then look t d v else v)"
| "spec_step Paused d (wait, pau, v) = (wait, True, v)"
| "spec_step (Unpaused t) d (wait, pau, v) = (wait, False, if wait then v else look t d v)"

definition refines :: "lookup_event \<Rightarrow> lookup_sys \<Rightarrow> lookup_sys \<Rightarrow> bool" where
  "refines ev s s' \<longleftrightarrow> lk_inv s' \<and> lk_delayed s' = lk_delayed s \<and>
     (\<forall>c d. lk_delayed s c = Some d \<longrightarrow> lk_abs c s' = spec_step ev d (lk_abs c s))"

text \<open>A delayed value without content is connected; with content, no pass evaluates it.\<close>

lemma delayed_cases:
  assumes "lk_inv s" "lk_delayed s c = Some d"
  obtains "lk_vals s c = None" "connected (obj (lk_cb s) c)"
  | v where "lk_vals s c = Some v" "\<not> connected (obj (lk_cb s) c)" "\<not> waiting (obj (lk_cb s) c)"
  using lk_invD(3) [OF assms] by (cases "lk_vals s c") (auto intro: that)

lemma awake_delayed:
  "lists_ok s \<Longrightarrow> c \<in> awake s \<longleftrightarrow> connected (obj s c) \<and> \<not> waiting (obj s c)"
  "lists_ok s \<Longrightarrow> c \<in> set (waitlist s) \<longleftrightarrow> connected (obj s c) \<and> waiting (obj s c)"
  by (auto simp: awake_def lists_ok_def)

lemma with_lookup_abs:
  assumes "lk_inv s" "op (lookup_outcome t s) (lk_cb s) = (cb, None)" "pass (lookup_outcome t s) E (lk_cb s) cb"
    and "E = set (waitlist (lk_cb s)) \<and> waitlist cb = [] \<or> E = awake (lk_cb s) \<and> waitlist cb = waitlist (lk_cb s)"
  shows "\<exists>s'. with_lookup t op s = (s', None) \<and> lk_inv s' \<and> lk_delayed s' = lk_delayed s \<and>
    (\<forall>c d. lk_delayed s c = Some d \<longrightarrow> lk_abs c s' = (waiting (obj (lk_cb s) c) \<and> c \<notin> E, paused (lk_cb s),
       if c \<in> E then look t d (lk_vals s c) else lk_vals s c))"
proof -
  note ok = lk_invD(1) [OF assms(1)]
  have sub: "E \<subseteq> {c. connected (obj (lk_cb s) c)}" using assms(4) awake_delayed [OF ok] by blast
  have wl: "E = set (waitlist (lk_cb s)) \<and> waitlist cb = [] \<or> E \<inter> set (waitlist (lk_cb s)) = {} \<and> waitlist cb = waitlist (lk_cb s)"
    using assms(4) awake_waitlist [OF ok] by blast
  obtain s' where s': "with_lookup t op s = (s', None)" "lk_inv s'" "lk_cb s' = cb" "lk_delayed s' = lk_delayed s"
    "\<And>c d. lk_delayed s c = Some d \<Longrightarrow> lk_vals s' c = (if c \<in> E then found_value t d else lk_vals s c)"
    using with_lookup_pass [where op = op, OF assms(1-3) sub wl] by metis
  have "lk_abs c s' = (waiting (obj (lk_cb s) c) \<and> c \<notin> E, paused (lk_cb s), if c \<in> E then look t d (lk_vals s c) else lk_vals s c)"
    if d: "lk_delayed s c = Some d" for c d
    using assms(1) d
  proof (cases rule: delayed_cases)
    case 1
    then show ?thesis using s'(5) [OF d] passD(3,5) [OF assms(3)] by (simp add: lk_abs_def s'(3) look_def)
  next
    case (2 v)
    then have "c \<notin> E" using sub by blast
    then show ?thesis using s'(5) [OF d] passD(3,5) [OF assms(3)] by (simp add: lk_abs_def s'(3))
  qed
  then show ?thesis using s'(1,2,4) by blast
qed

text \<open>When a delayed value is awake or on the wait list, in terms of its content.\<close>

lemma delayed_sets:
  assumes "lk_inv s" "lk_delayed s c = Some d"
  shows "c \<in> awake (lk_cb s) \<longleftrightarrow> \<not> waiting (obj (lk_cb s) c) \<and> lk_vals s c = None"
    and "c \<in> set (waitlist (lk_cb s)) \<longleftrightarrow> waiting (obj (lk_cb s) c)"
proof -
  note sets = awake_delayed [OF lk_invD(1) [OF assms(1)], of c]
  show "c \<in> awake (lk_cb s) \<longleftrightarrow> \<not> waiting (obj (lk_cb s) c) \<and> lk_vals s c = None"
    using assms by (cases rule: delayed_cases) (simp_all add: sets)
  show "c \<in> set (waitlist (lk_cb s)) \<longleftrightarrow> waiting (obj (lk_cb s) c)"
    using assms by (cases rule: delayed_cases) (simp_all add: sets)
qed

lemma look_Some [simp]: "look t d (Some v) = Some v"
  by (simp add: look_def)

lemma refines_objfile:
  assumes "lk_inv s" "tables_ok t" "lk_delayed s c0 = Some d0"
  shows "\<exists>s'. lookup_step (ObjfileLoaded t) s = (s', None) \<and> refines (ObjfileLoaded t) s s'"
proof (cases "paused (lk_cb s)")
  case True
  moreover have "delivered t s [] = lk_vals s" by (simp add: fun_eq_iff delivered_def)
  ultimately have "with_lookup t new_objfile s = (s, None)" by (simp add: with_lookup_def new_objfile_paused)
  then show ?thesis using assms(1) True by (simp add: refines_def lk_abs_def)
next
  case False
  obtain cb where cb: "new_objfile (lookup_outcome t s) (lk_cb s) = (cb, None)"
    "pass (lookup_outcome t s) (awake (lk_cb s)) (lk_cb s) cb" "waitlist cb = waitlist (lk_cb s)"
    using new_objfile_pass [OF lk_invD(1) [OF assms(1)] False, of "lookup_outcome t s"] lookup_quiet [OF assms(2)]
      lk_invD(2) [OF assms(1,3)] by blast
  obtain s' where s': "with_lookup t new_objfile s = (s', None)" "lk_inv s'" "lk_delayed s' = lk_delayed s"
    "\<And>c d. lk_delayed s c = Some d \<Longrightarrow> lk_abs c s' = (waiting (obj (lk_cb s) c) \<and> c \<notin> awake (lk_cb s), paused (lk_cb s),
       if c \<in> awake (lk_cb s) then look t d (lk_vals s c) else lk_vals s c)"
    using with_lookup_abs [where op = new_objfile, OF assms(1) cb(1,2) disjI2 [OF conjI [OF refl cb(3)]]] by blast
  have "lk_abs c s' = spec_step (ObjfileLoaded t) d (lk_abs c s)" if d: "lk_delayed s c = Some d" for c d
    unfolding s'(4) [OF d] unfolding lk_abs_def using delayed_sets(1) [OF assms(1) d] False by (cases "lk_vals s c") auto
  then show ?thesis using s' by (simp add: refines_def)
qed

lemma refines_target:
  assumes "lk_inv s" "tables_ok t"
  shows "\<exists>s'. lookup_step (TargetOpened t) s = (s', None) \<and> refines (TargetOpened t) s s'"
proof -
  obtain cb where cb: "target_ready (lookup_outcome t s) (lk_cb s) = (cb, None)"
    "pass (lookup_outcome t s) (set (waitlist (lk_cb s))) (lk_cb s) cb" "waitlist cb = []"
    using target_ready_pass [OF lk_invD(1) [OF assms(1)]] lookup_quiet [OF assms(2)] by blast
  obtain s' where s': "with_lookup t target_ready s = (s', None)" "lk_inv s'" "lk_delayed s' = lk_delayed s"
    "\<And>c d. lk_delayed s c = Some d \<Longrightarrow> lk_abs c s' = (waiting (obj (lk_cb s) c) \<and> c \<notin> set (waitlist (lk_cb s)), paused (lk_cb s),
       if c \<in> set (waitlist (lk_cb s)) then look t d (lk_vals s c) else lk_vals s c)"
    using with_lookup_abs [where op = target_ready, OF assms(1) cb(1,2) disjI1 [OF conjI [OF refl cb(3)]]] by blast
  have "lk_abs c s' = spec_step (TargetOpened t) d (lk_abs c s)" if d: "lk_delayed s c = Some d" for c d
    unfolding s'(4) [OF d] unfolding lk_abs_def using delayed_sets(2) [OF assms(1) d] by auto
  then show ?thesis using s' by (simp add: refines_def)
qed

lemma lists_ok_paused [simp]: "lists_ok (s\<lparr>paused := b\<rparr>) = lists_ok s"
  by (simp add: lists_ok_def)

lemma lk_inv_paused: "lk_inv s \<Longrightarrow> lk_inv (s\<lparr>lk_cb := (lk_cb s)\<lparr>paused := b\<rparr>\<rparr>)"
  by (simp add: lk_inv_def)

lemma refines_unpause:
  assumes "lk_inv s" "tables_ok t"
  shows "\<exists>s'. lookup_step (Unpaused t) s = (s', None) \<and> refines (Unpaused t) s s'"
proof -
  let ?s = "s\<lparr>lk_cb := (lk_cb s)\<lparr>paused := False\<rparr>\<rparr>"
  note inv = lk_inv_paused [OF assms(1), of False]
  have same: "lookup_outcome t ?s = lookup_outcome t s" "delivered t ?s = delivered t s"
    by (simp_all add: fun_eq_iff lookup_outcome_def delivered_def cong: option.case_cong sum.case_cong)
  obtain cb where cb: "evaluate_all (lookup_outcome t ?s) (lk_cb ?s) = (cb, None)"
    "pass (lookup_outcome t ?s) (awake (lk_cb ?s)) (lk_cb ?s) cb" "waitlist cb = waitlist (lk_cb ?s)"
    using evaluate_all_awake [OF lk_invD(1) [OF inv], of "lookup_outcome t ?s"] lookup_quiet [OF assms(2)] by auto
  obtain s' where s': "with_lookup t evaluate_all ?s = (s', None)" "lk_inv s'" "lk_delayed s' = lk_delayed ?s"
    "\<And>c d. lk_delayed ?s c = Some d \<Longrightarrow> lk_abs c s' = (waiting (obj (lk_cb ?s) c) \<and> c \<notin> awake (lk_cb ?s), paused (lk_cb ?s),
       if c \<in> awake (lk_cb ?s) then look t d (lk_vals ?s c) else lk_vals ?s c)"
    using with_lookup_abs [where op = evaluate_all, OF inv cb(1,2) disjI2 [OF conjI [OF refl cb(3)]]] by blast
  have "with_lookup t unpause s = with_lookup t evaluate_all ?s"
    by (simp add: with_lookup_def unpause_def same split: prod.splits)
  moreover have "lk_abs c s' = spec_step (Unpaused t) d (lk_abs c s)" if d: "lk_delayed s c = Some d" for c d
  proof -
    have d': "lk_delayed ?s c = Some d" using d by simp
    show ?thesis unfolding s'(4) [OF d'] unfolding lk_abs_def using delayed_sets(1) [OF inv d'] by (cases "lk_vals s c") auto
  qed
  ultimately show ?thesis using s' by (simp add: refines_def)
qed

lemma lookup_step_refines:
  assumes "lk_inv s" "event_ok ev" "lk_delayed s c0 = Some d0"
  shows "\<exists>s'. lookup_step ev s = (s', None) \<and> refines ev s s'"
proof (cases ev)
  case Paused
  then show ?thesis using lk_inv_paused [OF assms(1), of True]
    by (simp add: refines_def pause_def lk_abs_def)
next
  case (ObjfileLoaded t)
  then show ?thesis using assms refines_objfile by simp
next
  case (TargetOpened t)
  then show ?thesis using assms refines_target by simp
next
  case (Unpaused t)
  then show ?thesis using assms refines_unpause by simp
qed

lemma lookup_run_refines:
  assumes "lk_inv s" "\<forall>ev \<in> set evs. event_ok ev" "lk_delayed s c = Some d"
  shows "\<exists>s'. lookup_run evs s = (s', None) \<and> lk_inv s' \<and> lk_delayed s' = lk_delayed s \<and>
    (\<forall>c d. lk_delayed s c = Some d \<longrightarrow> lk_vals s' c = (case lk_abs c s of (wait, pau, v) \<Rightarrow>
       case v of Some x \<Rightarrow> Some x | None \<Rightarrow> first_found d (seen wait pau evs)))"
  using assms
proof (induction evs arbitrary: s)
  case Nil
  then show ?case by (auto simp: lk_abs_def split: option.splits)
next
  case (Cons ev evs)
  obtain s1 where s1: "lookup_step ev s = (s1, None)" "refines ev s s1"
    using lookup_step_refines [OF Cons.prems(1) _ Cons.prems(3)] Cons.prems(2) by auto
  then obtain s' where s': "lookup_run evs s1 = (s', None)" "lk_inv s'" "lk_delayed s' = lk_delayed s1"
    "\<And>c d. lk_delayed s1 c = Some d \<Longrightarrow> lk_vals s' c = (case lk_abs c s1 of (wait, pau, v) \<Rightarrow>
       case v of Some x \<Rightarrow> Some x | None \<Rightarrow> first_found d (seen wait pau evs))"
    using Cons.IH [of s1] Cons.prems by (auto simp: refines_def)
  have "lk_vals s' e = (case lk_abs e s of (wait, pau, v) \<Rightarrow> case v of Some x \<Rightarrow> Some x | None \<Rightarrow> first_found d' (seen wait pau (ev # evs)))"
    if "lk_delayed s e = Some d'" for e d'
  proof -
    have "lk_abs e s1 = spec_step ev d' (lk_abs e s)" "lk_delayed s1 e = Some d'"
      using s1(2) that unfolding refines_def by metis+
    then show ?thesis using s'(4) [of e d']
      by (cases ev; cases "lk_abs e s") (auto simp: look_def split: option.splits if_splits)
  qed
  then show ?case using s1 s'(1-3) by (simp add: refines_def)
qed

section \<open>Collections\<close>

definition fresh :: "cbid \<Rightarrow> lookup_sys \<Rightarrow> bool" where
  "fresh c s \<longleftrightarrow> objs (lk_cb s) c = None \<and> lk_delayed s c = None \<and> lk_vals s c = None"

text \<open>A delayed value of a collection with its callback.\<close>

definition delayed_entry :: "delayed_class \<Rightarrow> string \<Rightarrow> (delayed \<times> cb_class \<times> string) res" where
  "delayed_entry cls name = bindR (delayed_new cls name) (\<lambda>d. bindR (of_option ValueError (callback_class cls)) (\<lambda>k.
     bindR (callback_name k (dl_name d)) (\<lambda>n. Inr (d, k, n))))"

text \<open>What a new callback becomes: done at once, or connected, and then perhaps waiting.\<close>

lemma connect_new:
  assumes "obj s c = \<lparr>completed = False, connected = False, waiting = W\<rparr>" "quiet (w c)"
    and "don \<longleftrightarrow> \<not> W \<and> objfiles \<and> w c = Called Done"
  shows "\<exists>s'. connect_callback w objfiles c s = (s', None) \<and>
    (\<forall>e. obj s' e = (if e = c then \<lparr>completed = don, connected = \<not> don, waiting = W\<rparr> else obj s e)) \<and>
    pending_list s' = pending_list s @ (if don then [] else [c]) \<and> waitlist s' = waitlist s @ (if W then [c] else []) \<and>
    (\<exists>log. calls s' = calls s @ log \<and> (\<forall>e. (e, True) \<in> set log \<longleftrightarrow> e = c \<and> don)) \<and>
    paused s' = paused s \<and> handlers s' = handlers s \<and> (\<forall>e. e \<noteq> c \<longrightarrow> objs s' e = objs s e)"
proof (cases "\<not> W \<and> objfiles")
  case True
  then show ?thesis using assms
    by (cases "w c" rule: quiet.cases)
       (auto simp: connect_callback_def evaluate_def gdb_caught_def complete_def Let_def obj_set_obj)
qed (use assms in \<open>auto simp: connect_callback_def obj_set_obj\<close>)

lemma lists_ok_connect:
  assumes "lists_ok s" "objs s c = None" "\<forall>e. obj s' e = (if e = c then \<lparr>completed = don, connected = \<not> don, waiting = W\<rparr> else obj s e)"
    and "pending_list s' = pending_list s @ (if don then [] else [c])" "waitlist s' = waitlist s @ (if W then [c] else [])" "don \<longrightarrow> \<not> W"
  shows "lists_ok s'"
  using assms obj_None [OF assms(2)] unfolding lists_ok_def by auto

lemma delayed_attach_new:
  assumes "lk_inv s" "fresh c s" "tables_ok t" "delayed_entry cls name = Inr (d, k, n)" "W \<longleftrightarrow> wait \<and> \<not> target"
  shows "\<exists>s'. delayed_attach t wait target objfiles cls name c s = (Inr d, s') \<and> lk_inv s' \<and>
    lk_delayed s' = (lk_delayed s)(c \<mapsto> (d, k, n)) \<and>
    lk_abs c s' = (W, paused (lk_cb s), if objfiles \<and> \<not> W then found_value t (d, k, n) else None) \<and>
    (\<forall>e. e \<noteq> c \<longrightarrow> lk_abs e s' = lk_abs e s \<and> (fresh e s' \<longleftrightarrow> fresh e s))"
proof -
  define s1 where "s1 = s\<lparr>lk_cb := cb_new c wait target (lk_cb s), lk_delayed := (lk_delayed s)(c \<mapsto> (d, k, n))\<rparr>"
  let ?w = "lookup_outcome t s1" and ?cb1 = "lk_cb s1"
  define don where "don \<longleftrightarrow> \<not> W \<and> objfiles \<and> ?w c = Called Done"
  have fr: "objs (lk_cb s) c = None" "lk_delayed s c = None" "lk_vals s c = None" using assms(2) by (simp_all add: fresh_def)
  have ob: "obj ?cb1 e = (if e = c then \<lparr>completed = False, connected = False, waiting = W\<rparr> else obj (lk_cb s) e)" for e
    using assms(5) by (simp add: s1_def cb_new_def obj_def set_obj_def)
  have sel1: "pending_list ?cb1 = pending_list (lk_cb s)" "waitlist ?cb1 = waitlist (lk_cb s)" "paused ?cb1 = paused (lk_cb s)"
    "handlers ?cb1 = handlers (lk_cb s) + 1" "\<And>e. e \<noteq> c \<Longrightarrow> objs ?cb1 e = objs (lk_cb s) e" "lk_vals s1 = lk_vals s"
    by (simp_all add: s1_def cb_new_def)
  obtain cb log where cb: "connect_callback ?w objfiles c ?cb1 = (cb, None)"
    "\<forall>e. obj cb e = (if e = c then \<lparr>completed = don, connected = \<not> don, waiting = W\<rparr> else obj ?cb1 e)"
    "pending_list cb = pending_list ?cb1 @ (if don then [] else [c])" "waitlist cb = waitlist ?cb1 @ (if W then [c] else [])"
    "calls cb = calls ?cb1 @ log" "\<forall>e. (e, True) \<in> set log \<longleftrightarrow> e = c \<and> don"
    "paused cb = paused ?cb1" "handlers cb = handlers ?cb1" "\<forall>e. e \<noteq> c \<longrightarrow> objs cb e = objs ?cb1 e"
    using connect_new [of ?cb1 c W ?w don objfiles] ob lookup_quiet [OF assms(3)] don_def by auto
  define s' where "s' = s1\<lparr>lk_cb := cb, lk_vals := delivered t s1 log\<rparr>"
  have d1: "lk_delayed s1 c = Some (d, k, n)" and v1: "lk_vals s1 c = None" using fr by (simp_all add: s1_def)
  have val: "lk_vals s' c = (if objfiles \<and> \<not> W then found_value t (d, k, n) else None)"
    using lookup_outcome_Done [OF d1 v1, of t] cb(6) d1 v1 by (auto simp: s'_def delivered_def don_def)
  have don: "don \<longleftrightarrow> lk_vals s' c \<noteq> None"
    using val lookup_outcome_Done(1) [OF d1 v1, of t] by (auto simp: don_def)
  have other: "lk_vals s' e = lk_vals s e" if "e \<noteq> c" for e using that cb(6) sel1(6) by (simp add: s'_def delivered_def)
  have lists: "lists_ok cb"
    using lists_ok_connect [OF lk_invD(1) [OF assms(1)] fr(1), of cb don W] cb(2-4) ob sel1 by (auto simp: don_def)
  have inv: "lk_inv s'"
    unfolding lk_inv_def
  proof (intro conjI allI impI)
    fix e assume e: "lk_delayed s' e \<noteq> None"
    show "0 < handlers (lk_cb s')" using cb(8) sel1(4) by (simp add: s'_def)
    show "if lk_vals s' e = None then connected (obj (lk_cb s') e) else \<not> connected (obj (lk_cb s') e) \<and> \<not> waiting (obj (lk_cb s') e)"
    proof (cases "e = c")
      case True
      then show ?thesis using don cb(2) by (auto simp: s'_def don_def)
    next
      case False
      then obtain de where "lk_delayed s e = Some de" using e by (auto simp: s'_def s1_def)
      from lk_invD(3) [OF assms(1) this] show ?thesis using False other [OF False] cb(2) ob [of e] by (simp add: s'_def)
    qed
  qed (use lists in \<open>simp add: s'_def\<close>)
  have "with_lookup t (\<lambda>w. connect_callback w objfiles c) s1 = (s', None)"
    using cb(1,5) by (simp add: with_lookup_def s'_def)
  then have "delayed_attach t wait target objfiles cls name c s = (Inr d, s')"
    using assms(4) by (auto simp: delayed_attach_def delayed_entry_def s1_def bindR_eq_Inr split: option.splits)
  moreover have "lk_abs c s' = (W, paused (lk_cb s), if objfiles \<and> \<not> W then found_value t (d, k, n) else None)"
    using val cb(2,7) sel1(3) by (simp add: lk_abs_def s'_def)
  moreover have "lk_abs e s' = lk_abs e s \<and> (fresh e s' \<longleftrightarrow> fresh e s)" if "e \<noteq> c" for e
    using that other [OF that] cb(2,7,9) ob [of e] sel1(3,5) by (simp add: lk_abs_def fresh_def s'_def s1_def)
  ultimately show ?thesis using inv by (intro exI [of _ s']) (simp add: s'_def s1_def)
qed

lemma collection_new_spec:
  assumes "lk_inv s" "\<forall>c \<ge> k. fresh c s" "tables_ok t" "mapR (delayed_entry cls) names = Inr ds" "W \<longleftrightarrow> wait \<and> \<not> target"
  shows "\<exists>s'. collection_new t wait target objfiles cls names k attrs s =
      (Inr (coll_add (map (\<lambda>d. (dl_name (fst d), dl_attrname (fst d))) ds) k attrs), s') \<and> lk_inv s' \<and>
    (\<forall>i < length ds. lk_delayed s' (k + i) = Some (ds ! i) \<and>
      lk_abs (k + i) s' = (W, paused (lk_cb s), if objfiles \<and> \<not> W then found_value t (ds ! i) else None)) \<and>
    (\<forall>e < k. lk_abs e s' = lk_abs e s \<and> lk_delayed s' e = lk_delayed s e)"
  using assms
proof (induction names arbitrary: k attrs s ds)
  case Nil
  then show ?case by simp
next
  case (Cons name names)
  obtain d cls' n ds' where ds: "delayed_entry cls name = Inr (d, cls', n)" "mapR (delayed_entry cls) names = Inr ds'" "ds = (d, cls', n) # ds'"
    using Cons.prems(4) by (auto simp: bindR_eq_Inr)
  have fr: "fresh k s" using Cons.prems(2) by simp
  obtain s1 where s1: "delayed_attach t wait target objfiles cls name k s = (Inr d, s1)" "lk_inv s1"
    "lk_delayed s1 = (lk_delayed s)(k \<mapsto> (d, cls', n))"
    "lk_abs k s1 = (W, paused (lk_cb s), if objfiles \<and> \<not> W then found_value t (d, cls', n) else None)"
    "\<forall>e. e \<noteq> k \<longrightarrow> lk_abs e s1 = lk_abs e s \<and> (fresh e s1 \<longleftrightarrow> fresh e s)"
    using delayed_attach_new [OF Cons.prems(1) fr Cons.prems(3) ds(1) Cons.prems(5)] by blast
  have pau: "paused (lk_cb s1) = paused (lk_cb s)" using s1(4) by (simp add: lk_abs_def)
  have "\<forall>c \<ge> Suc k. fresh c s1" using s1(5) Cons.prems(2) by simp
  then obtain s' where s': "collection_new t wait target objfiles cls names (Suc k)
        (AList.update (dl_name d) k (AList.update (dl_attrname d) k attrs)) s1 =
      (Inr (coll_add (map (\<lambda>d. (dl_name (fst d), dl_attrname (fst d))) ds') (Suc k)
        (AList.update (dl_name d) k (AList.update (dl_attrname d) k attrs))), s')" "lk_inv s'"
    "\<forall>i < length ds'. lk_delayed s' (Suc k + i) = Some (ds' ! i) \<and>
      lk_abs (Suc k + i) s' = (W, paused (lk_cb s1), if objfiles \<and> \<not> W then found_value t (ds' ! i) else None)"
    "\<forall>e < Suc k. lk_abs e s' = lk_abs e s1 \<and> lk_delayed s' e = lk_delayed s1 e"
    using Cons.IH [OF s1(2) _ Cons.prems(3) ds(2) Cons.prems(5)] by blast
  have "lk_delayed s' (k + i) = Some (ds ! i) \<and>
      lk_abs (k + i) s' = (W, paused (lk_cb s), if objfiles \<and> \<not> W then found_value t (ds ! i) else None)" if "i < length ds" for i
    using that s'(3,4) s1(3,4) pau by (cases i) (simp_all add: ds(3))
  moreover have "\<forall>e < k. lk_abs e s' = lk_abs e s \<and> lk_delayed s' e = lk_delayed s e"
    using s'(4) s1(3,5) by simp
  ultimately show ?case using s1(1) s'(1,2) by (simp add: ds(3))
qed

section \<open>Properties\<close>

text \<open>
  C6: From the names of a collection to what its attributes give: on a system in a consistent state, a new collection of
  symbols, minimal symbols, values or types is created without an exception, any sequence of loaded object files, openings
  of the target, pauses and resumptions runs without one, and then an attribute of the collection is the value that the
  first table gives in which its name was found, over exactly the tables at which it is due to be looked up (at its
  creation if there is an object file and it need not wait; when the target is opened if it waits; at every object file
  after that unless the callbacks are paused; and when they are resumed), or a \<^verbatim>\<open>DelayedAttributeError\<close> if there is none.
\<close>

theorem collection_first_found:
  assumes "lk_inv s" "\<forall>c \<ge> k. fresh c s" "tables_ok t" "\<forall>ev \<in> set evs. event_ok ev"
    and "mapR (delayed_entry cls) names = Inr ds" "names \<noteq> []" "W \<longleftrightarrow> wait \<and> \<not> target"
  shows "\<exists>attrs s1 s2. collection_new t wait target objfiles cls names k [] s = (Inr attrs, s1) \<and>
    attrs = coll_add (map (\<lambda>d. (dl_name (fst d), dl_attrname (fst d))) ds) k [] \<and> lookup_run evs s1 = (s2, None) \<and>
    (\<forall>i < length ds. \<forall>a. map_of attrs a = Some (k + i) \<longrightarrow> fst (coll_getattr a (collection_view attrs s2)) =
      of_option DelayedAttributeError (first_found (ds ! i) ((if objfiles \<and> \<not> W then [t] else []) @ seen W (paused (lk_cb s)) evs)))"
proof -
  obtain attrs s1 where s1: "collection_new t wait target objfiles cls names k [] s = (Inr attrs, s1)"
    "attrs = coll_add (map (\<lambda>d. (dl_name (fst d), dl_attrname (fst d))) ds) k []" "lk_inv s1"
    "\<forall>i < length ds. lk_delayed s1 (k + i) = Some (ds ! i) \<and>
      lk_abs (k + i) s1 = (W, paused (lk_cb s), if objfiles \<and> \<not> W then found_value t (ds ! i) else None)"
    using collection_new_spec [OF assms(1-3,5,7), of objfiles "[]"] by blast
  have "0 < length ds" using assms(5,6) by (cases names) (auto simp: bindR_eq_Inr)
  then obtain s2 where s2: "lookup_run evs s1 = (s2, None)"
    "\<And>c d. lk_delayed s1 c = Some d \<Longrightarrow> lk_vals s2 c = (case lk_abs c s1 of (wait, pau, v) \<Rightarrow>
       case v of Some x \<Rightarrow> Some x | None \<Rightarrow> first_found d (seen wait pau evs))"
    using lookup_run_refines [OF s1(3) assms(4), of "k + 0" "ds ! 0"] s1(4) by blast
  have vals: "lk_vals s2 (k + i) = first_found (ds ! i) ((if objfiles \<and> \<not> W then [t] else []) @ seen W (paused (lk_cb s)) evs)"
    if "i < length ds" for i
    using s2(2) [of "k + i" "ds ! i"] s1(4) that by (auto split: option.splits)
  have exc: "\<not> catches NameError DelayedAttributeError" by code_simp
  have "fst (coll_getattr a (collection_view attrs s2)) = of_option DelayedAttributeError (lk_vals s2 c)"
    if "map_of attrs a = Some c" for a c
    using that by (simp add: coll_getattr_def coll_get_def collection_view_def Let_def exc split: option.splits)
  then show ?thesis using s1(1,2) s2(1) vals by auto
qed


definition ex_lookup :: lookup_sys where
  "ex_lookup = \<lparr>lk_cb = cb_init, lk_delayed = (\<lambda>_. None), lk_vals = (\<lambda>_. None)\<rparr>"

definition ex_foo_type :: gtype where
  "ex_foo_type = GType CODE_STRUCT 8 ''foo'' None []"

definition ex_tables :: "bool \<Rightarrow> gdb_tables" where
  "ex_tables b = \<lparr>gb_minimal = (\<lambda>_. None), gb_symbol = (\<lambda>_. None),
     gb_type = (\<lambda>n. if b \<and> n = ''struct foo'' then Inr ex_foo_type else Inl GdbError)\<rparr>"

lemma ex_tables_ok: "tables_ok (ex_tables b)"
proof -
  have "catches GdbError GdbError" by code_simp
  then show ?thesis by (auto simp: tables_ok_def ex_tables_def split: if_splits)
qed

lemma ex_lookup_inv: "lk_inv ex_lookup"
  by (simp add: lk_inv_def lists_ok_def ex_lookup_def cb_init_def obj_def)

theorem collection_first_found_witness:
  "\<exists>attrs s1 s2. collection_new (ex_tables False) True False True DelayedType [''struct foo'', ''struct foo *''] 0 [] ex_lookup = (Inr attrs, s1) \<and>
     lookup_run [TargetOpened (ex_tables False), Paused, ObjfileLoaded (ex_tables True), Unpaused (ex_tables True)] s1 = (s2, None) \<and>
     fst (coll_getattr ''foo_p_type'' (collection_view attrs s2)) = Inr (FType (gt_pointer ex_foo_type))"
proof -
  let ?evs = "[TargetOpened (ex_tables False), Paused, ObjfileLoaded (ex_tables True), Unpaused (ex_tables True)]"
  let ?d = "\<lambda>a p. (\<lparr>dl_class = DelayedType, dl_name = ''struct foo'', dl_attrname = a, dl_pointer = p\<rparr>, TypeCallback, ''struct foo'')"
  have ds: "mapR (delayed_entry DelayedType) [''struct foo'', ''struct foo *''] = Inr [?d ''foo_type'' False, ?d ''foo_p_type'' True]"
    by code_simp
  obtain attrs s1 s2 where r: "collection_new (ex_tables False) True False True DelayedType [''struct foo'', ''struct foo *''] 0 [] ex_lookup = (Inr attrs, s1)"
    "attrs = coll_add (map (\<lambda>d. (dl_name (fst d), dl_attrname (fst d))) [?d ''foo_type'' False, ?d ''foo_p_type'' True]) 0 []"
    "lookup_run ?evs s1 = (s2, None)"
    "\<forall>i < 2. \<forall>a. map_of attrs a = Some (0 + i) \<longrightarrow> fst (coll_getattr a (collection_view attrs s2)) =
      of_option DelayedAttributeError (first_found ([?d ''foo_type'' False, ?d ''foo_p_type'' True] ! i)
        ((if True \<and> \<not> True then [ex_tables False] else []) @ seen True (paused (lk_cb ex_lookup)) ?evs))"
    using collection_first_found [OF ex_lookup_inv _ ex_tables_ok _ ds, of 0 ?evs True True False False True] ex_tables_ok
    by (auto simp: fresh_def ex_lookup_def cb_init_def)
  have "map_of attrs ''foo_p_type'' = Some (0 + 1)" unfolding r(2) by code_simp
  then have "fst (coll_getattr ''foo_p_type'' (collection_view attrs s2)) =
      of_option DelayedAttributeError (first_found (?d ''foo_p_type'' True)
        (seen True (paused (lk_cb ex_lookup)) ?evs))"
    using r(4) [rule_format, of 1 "''foo_p_type''"] by simp
  also have "\<dots> = Inr (FType (gt_pointer ex_foo_type))" by code_simp
  finally show ?thesis using r(1,3) by blast
qed

text \<open>
  A pointer to a pointer is stripped twice, by the delayed value and by its callback, and one level is put back: the
  collection gives the type of a simple pointer, under an attribute name with an asterisk.
\<close>

lemma double_pointer_type:
  "delayed_entry DelayedType ''struct foo **'' =
     Inr (\<lparr>dl_class = DelayedType, dl_name = ''struct foo *'', dl_attrname = ''foo_*_p_type'', dl_pointer = True\<rparr>, TypeCallback, ''struct foo'')"
  "gb_type t ''struct foo'' = Inr ty \<Longrightarrow>
   found_value t (\<lparr>dl_class = DelayedType, dl_name = ''struct foo *'', dl_attrname = ''foo_*_p_type'', dl_pointer = True\<rparr>, TypeCallback, ''struct foo'') =
     Some (FType (gt_pointer ty))"
  by (code_simp, simp add: found_value_def lookup_def)

end
