(* ===== verification/Session.thy ===== *)
theory Session
  imports Kernel Lookup
begin

text \<open>
  The session: \<^verbatim>\<open>crash/session.py\<close>.  The constructor chooses the target, which completes the callbacks that wait for it
  and sets up the tasks, makes the \<open>CrashKernel\<close>, imports the modules of the package, loads the modules of the kernel
  and switches to the thread that crashed.  The callbacks are shared by all these parts.  \<^verbatim>\<open>crash/requirements/__init__.py\<close>
  comes first: the checks that an import of the package makes.
\<close>

section \<open>Requirements\<close>

text \<open>
  \<^verbatim>\<open>crash/requirements/__init__.py\<close>: which names the modules \<^verbatim>\<open>gdb\<close> and \<^verbatim>\<open>kdumpfile\<close> have, and what \<^verbatim>\<open>lookup_symbol\<close> does when it
  is called without a block.  Its first failing check ends the import.
\<close>

record installed =
  in_names :: "string list"
  in_lookup_symbol :: "unit res"
  in_from_pointer :: bool

definition check_name :: "installed \<Rightarrow> string \<Rightarrow> unit res" where
  "check_name env n = (if n \<in> set (in_names env) then Inr () else Inl IncompatibleGDBError)"

definition check_requirements :: "installed \<Rightarrow> unit res" where
  "check_requirements env =
     bindR (check_name env ''Target'') (\<lambda>_.
     bindR (case in_lookup_symbol env of
         Inl e \<Rightarrow> Inl (if catches TypeError e then IncompatibleGDBError else e) | Inr _ \<Rightarrow> Inr ()) (\<lambda>_.
     bindR (check_name env ''MinSymbol'') (\<lambda>_. bindR (check_name env ''RegisterDescriptor'') (\<lambda>_.
     bindR (check_name env ''LinuxKernelTarget'') (\<lambda>_.
       if in_from_pointer env then Inr () else Inl IncompatibleKdumpfileError)))))"

lemma requirements_met:
  "check_requirements env = Inr () \<longleftrightarrow>
     set [''Target'', ''MinSymbol'', ''RegisterDescriptor'', ''LinuxKernelTarget''] \<subseteq> set (in_names env) \<and>
     in_lookup_symbol env = Inr () \<and> in_from_pointer env"
  by (auto simp: check_requirements_def check_name_def bindR_eq_Inr split: sum.splits)

section \<open>Loading of the submodules\<close>

text \<open>
  \<open>autoload_submodules\<close> of \<^verbatim>\<open>crash/infra/__init__.py\<close>, without the callback, which no caller passes.  A package is its \<open>__file__\<close>,
  if it has one, the names of the files that \<^verbatim>\<open>glob\<close> finds in its directory, without their extension, and its packages.  The
  state is that of the interpreter: \<open>loaded\<close> is membership in \<open>sys.modules\<close> and \<open>imp\<close> is \<open>importlib.import_module\<close>.
\<close>

datatype package = Package (pk_file: bool) (pk_modules: "string list") (pk_packages: "(string \<times> package) list")

fun import_all :: "(string \<Rightarrow> 'm \<Rightarrow> unit res \<times> 'm) \<Rightarrow> string list \<Rightarrow> 'm \<Rightarrow> unit res \<times> 'm" where
  "import_all imp [] st = (Inr (), st)"
| "import_all imp (m # ms) st = (case imp m st of (Inl e, st1) \<Rightarrow> (Inl e, st1) | (Inr _, st1) \<Rightarrow> import_all imp ms st1)"

definition submodules :: "string \<Rightarrow> string list \<Rightarrow> string list" where
  "submodules caller ms = map (\<lambda>m. caller @ ''.'' @ m) (filter (\<lambda>m. m \<noteq> ''__init__'') ms)"

fun autoload_submodules ::
      "(string \<Rightarrow> 'm \<Rightarrow> unit res \<times> 'm) \<Rightarrow> ('m \<Rightarrow> string \<Rightarrow> bool) \<Rightarrow> string \<Rightarrow> package \<Rightarrow> 'm \<Rightarrow> string list res \<times> 'm"
  and autoload_packages ::
      "(string \<Rightarrow> 'm \<Rightarrow> unit res \<times> 'm) \<Rightarrow> ('m \<Rightarrow> string \<Rightarrow> bool) \<Rightarrow> string \<Rightarrow> (string \<times> package) list \<Rightarrow> 'm \<Rightarrow> string list res \<times> 'm"
where
  "autoload_submodules imp loaded caller (Package has_file ms ps) st =
     (case if loaded st caller then (Inr (), st) else imp caller st of
        (Inl e, st1) \<Rightarrow> (Inl e, st1)
      | (Inr _, st1) \<Rightarrow>
          if \<not> has_file then (Inr [], st1)
          else (case import_all imp (submodules caller ms) st1 of
             (Inl e, st2) \<Rightarrow> (Inl e, st2)
           | (Inr _, st2) \<Rightarrow> (case autoload_packages imp loaded caller ps st2 of
                (r, st3) \<Rightarrow> (bindR r (\<lambda>mods. Inr ((if loaded st caller then [] else [caller]) @ submodules caller ms @ mods)), st3))))"
| "autoload_packages imp loaded caller [] st = (Inr [], st)"
| "autoload_packages imp loaded caller ((n, p) # ps) st = (case imp (caller @ ''.'' @ n) st of
       (Inl e, st1) \<Rightarrow> (Inl e, st1)
     | (Inr _, st1) \<Rightarrow> (case autoload_submodules imp loaded (caller @ ''.'' @ n) p st1 of
          (Inl e, st2) \<Rightarrow> (Inl e, st2)
        | (Inr mods, st2) \<Rightarrow> (case autoload_packages imp loaded caller ps st2 of
             (r, st3) \<Rightarrow> (bindR r (\<lambda>mods'. Inr (mods @ mods')), st3))))"

text \<open>The modules and packages below a package that has files.\<close>

fun package_tree :: "string \<Rightarrow> package \<Rightarrow> string list" where
  "package_tree caller (Package has_file ms ps) =
     (if has_file then submodules caller ms @ concat (map (\<lambda>(n, p). (caller @ ''.'' @ n) # package_tree (caller @ ''.'' @ n) p) ps) else [])"

definition importer :: "(string \<Rightarrow> 'm \<Rightarrow> unit res \<times> 'm) \<Rightarrow> ('m \<Rightarrow> string \<Rightarrow> bool) \<Rightarrow> string set \<Rightarrow> bool" where
  "importer imp loaded names \<longleftrightarrow> (\<forall>m \<in> names. \<forall>st st'. imp m st = (Inr (), st') \<longrightarrow>
     loaded st' m \<and> (\<forall>k. loaded st k \<longrightarrow> loaded st' k))"

lemma importer_mono: "importer imp loaded A \<Longrightarrow> B \<subseteq> A \<Longrightarrow> importer imp loaded B"
  unfolding importer_def by blast

lemma import_all_loads:
  "importer imp loaded (set ms) \<Longrightarrow> import_all imp ms st = (Inr (), st') \<Longrightarrow>
     (\<forall>m \<in> set ms. loaded st' m) \<and> (\<forall>k. loaded st k \<longrightarrow> loaded st' k)"
proof (induction ms arbitrary: st)
  case (Cons m ms)
  then obtain st1 where st1: "imp m st = (Inr (), st1)" "import_all imp ms st1 = (Inr (), st')"
    by (auto split: prod.splits sum.splits)
  have "loaded st1 m \<and> (\<forall>k. loaded st k \<longrightarrow> loaded st1 k)" using Cons.prems(1) st1(1) by (simp add: importer_def)
  moreover have "importer imp loaded (set ms)" using Cons.prems(1) by (rule importer_mono) auto
  ultimately show ?case using Cons.IH [OF _ st1(2)] by auto
qed simp

lemma autoload_loads:
  "importer imp loaded (insert caller (set (package_tree caller p))) \<Longrightarrow>
   autoload_submodules imp loaded caller p st = (Inr mods, st') \<Longrightarrow>
     loaded st' caller \<and> (\<forall>m \<in> set (package_tree caller p). loaded st' m) \<and> (\<forall>k. loaded st k \<longrightarrow> loaded st' k)"
  "importer imp loaded (\<Union>(n, p) \<in> set ps. insert (caller @ ''.'' @ n) (set (package_tree (caller @ ''.'' @ n) p))) \<Longrightarrow>
   autoload_packages imp loaded caller ps st = (Inr mods, st') \<Longrightarrow>
     (\<forall>(n, p) \<in> set ps. loaded st' (caller @ ''.'' @ n) \<and> (\<forall>m \<in> set (package_tree (caller @ ''.'' @ n) p). loaded st' m)) \<and>
     (\<forall>k. loaded st k \<longrightarrow> loaded st' k)"
proof (induction imp loaded caller p st and imp loaded caller ps st arbitrary: mods st' and mods st'
    rule: autoload_submodules_autoload_packages.induct)
  case (1 imp loaded caller has_file ms ps st)
  obtain st1 where st1: "(if loaded st caller then (Inr (), st) else imp caller st) = (Inr (), st1)"
    using 1(3) by (auto split: prod.splits sum.splits)
  then have keep1: "loaded st1 caller \<and> (\<forall>k. loaded st k \<longrightarrow> loaded st1 k)"
    using 1(2) by (auto simp: importer_def split: if_splits)
  show ?case
  proof (cases has_file)
    case False
    then have "st' = st1" using 1(3) st1 by simp
    then show ?thesis using keep1 False by simp
  next
    case True
    obtain st2 mods' where st2: "import_all imp (submodules caller ms) st1 = (Inr (), st2)"
      "autoload_packages imp loaded caller ps st2 = (Inr mods', st')"
      using 1(3) st1 True by (auto simp: bindR_eq_Inr split: prod.splits sum.splits)
    have names: "importer imp loaded (set (submodules caller ms))"
      "importer imp loaded (\<Union>(n, p) \<in> set ps. insert (caller @ ''.'' @ n) (set (package_tree (caller @ ''.'' @ n) p)))"
      by (rule importer_mono [OF 1(2)], use True in auto)+
    have all: "(\<forall>m \<in> set (submodules caller ms). loaded st2 m) \<and> (\<forall>k. loaded st1 k \<longrightarrow> loaded st2 k)"
      using import_all_loads [OF names(1) st2(1)] .
    have "(\<forall>(n, p) \<in> set ps. loaded st' (caller @ ''.'' @ n) \<and> (\<forall>m \<in> set (package_tree (caller @ ''.'' @ n) p). loaded st' m)) \<and>
        (\<forall>k. loaded st2 k \<longrightarrow> loaded st' k)"
      using 1(1) [OF st1 [symmetric] refl _ st2(1) [symmetric] refl names(2) st2(2)] True by simp
    then show ?thesis using keep1 all True by auto
  qed
next
  case (3 imp loaded caller n p ps st)
  let ?n = "caller @ ''.'' @ n"
  obtain st1 where st1: "imp ?n st = (Inr (), st1)" using 3(4) by (auto split: prod.splits sum.splits)
  obtain mods1 st2 where st2: "autoload_submodules imp loaded ?n p st1 = (Inr mods1, st2)"
    using 3(4) st1 by (auto split: prod.splits sum.splits)
  obtain mods2 where st3: "autoload_packages imp loaded caller ps st2 = (Inr mods2, st')"
    using 3(4) st1 st2 by (auto simp: bindR_eq_Inr split: prod.splits)
  have names: "importer imp loaded (insert ?n (set (package_tree ?n p)))"
    "importer imp loaded (\<Union>(n, p) \<in> set ps. insert (caller @ ''.'' @ n) (set (package_tree (caller @ ''.'' @ n) p)))"
    by (rule importer_mono [OF 3(3)], auto)+
  have "\<forall>k. loaded st k \<longrightarrow> loaded st1 k" using 3(3) st1 by (simp add: importer_def)
  moreover have "loaded st2 ?n \<and> (\<forall>m \<in> set (package_tree ?n p). loaded st2 m) \<and> (\<forall>k. loaded st1 k \<longrightarrow> loaded st2 k)"
    using 3(1) [OF st1 [symmetric] refl names(1) st2] .
  moreover have "(\<forall>(n, p) \<in> set ps. loaded st' (caller @ ''.'' @ n) \<and> (\<forall>m \<in> set (package_tree (caller @ ''.'' @ n) p). loaded st' m)) \<and>
      (\<forall>k. loaded st2 k \<longrightarrow> loaded st' k)"
    using 3(2) [OF st1 [symmetric] refl st2 [symmetric] refl names(2) st3] .
  ultimately show ?case by auto
qed simp_all

text \<open>When the imports of the modules of a package succeed and keep a property of the state, so does the whole.\<close>

definition imports_keep ::
  "(string \<Rightarrow> 'm \<Rightarrow> unit res \<times> 'm) \<Rightarrow> ('m \<Rightarrow> bool) \<Rightarrow> string set \<Rightarrow> bool" where
  "imports_keep imp P names \<longleftrightarrow> (\<forall>m \<in> names. \<forall>st. P st \<longrightarrow> (\<exists>st'. imp m st = (Inr (), st') \<and> P st'))"

lemma imports_keep_mono: "imports_keep imp P A \<Longrightarrow> B \<subseteq> A \<Longrightarrow> imports_keep imp P B"
  unfolding imports_keep_def by blast

lemma import_all_keeps:
  "imports_keep imp P (set ms) \<Longrightarrow> P st \<Longrightarrow> \<exists>st'. import_all imp ms st = (Inr (), st') \<and> P st'"
proof (induction ms arbitrary: st)
  case (Cons m ms)
  obtain st1 where "imp m st = (Inr (), st1)" "P st1" using Cons.prems by (auto simp: imports_keep_def)
  then show ?case using Cons.IH [of st1] Cons.prems by (simp add: imports_keep_def)
qed simp

lemma autoload_keeps:
  "imports_keep imp P (insert caller (set (package_tree caller p))) \<Longrightarrow> P st \<Longrightarrow>
     \<exists>mods st'. autoload_submodules imp loaded caller p st = (Inr mods, st') \<and> P st'"
  "imports_keep imp P (\<Union>(n, p) \<in> set ps. insert (caller @ ''.'' @ n) (set (package_tree (caller @ ''.'' @ n) p))) \<Longrightarrow> P st \<Longrightarrow>
     \<exists>mods st'. autoload_packages imp loaded caller ps st = (Inr mods, st') \<and> P st'"
proof (induction imp loaded caller p st and imp loaded caller ps st rule: autoload_submodules_autoload_packages.induct)
  case (1 imp loaded caller has_file ms ps st)
  obtain st1 where st1: "(if loaded st caller then (Inr (), st) else imp caller st) = (Inr (), st1)" "P st1"
  proof (cases "loaded st caller")
    case True
    then show ?thesis using 1(3) that by simp
  next
    case False
    obtain st1 where "imp caller st = (Inr (), st1)" "P st1"
      using 1(2, 3) by (auto simp: imports_keep_def simp del: package_tree.simps)
    then show ?thesis using that False by simp
  qed
  show ?case
  proof (cases has_file)
    case True
    have names: "imports_keep imp P (set (submodules caller ms))"
      "imports_keep imp P (\<Union>(n, p) \<in> set ps. insert (caller @ ''.'' @ n) (set (package_tree (caller @ ''.'' @ n) p)))"
      by (rule imports_keep_mono [OF 1(2)], use True in auto)+
    obtain st2 where st2: "import_all imp (submodules caller ms) st1 = (Inr (), st2)" "P st2"
      using import_all_keeps [OF names(1) st1(2)] by blast
    have "\<exists>mods st'. autoload_packages imp loaded caller ps st2 = (Inr mods, st') \<and> P st'"
      using 1(1) [OF st1(1) [symmetric] refl _ st2(1) [symmetric] refl names(2) st2(2)] True by simp
    then show ?thesis using st1 st2 True by auto
  qed (use st1 in simp)
next
  case (3 imp loaded caller n p ps st)
  let ?n = "caller @ ''.'' @ n"
  obtain st1 where st1: "imp ?n st = (Inr (), st1)" "P st1" using 3(3, 4) by (auto simp: imports_keep_def)
  have names: "imports_keep imp P (insert ?n (set (package_tree ?n p)))"
    "imports_keep imp P (\<Union>(n, p) \<in> set ps. insert (caller @ ''.'' @ n) (set (package_tree (caller @ ''.'' @ n) p)))"
    by (rule imports_keep_mono [OF 3(3)], auto)+
  obtain mods1 st2 where st2: "autoload_submodules imp loaded ?n p st1 = (Inr mods1, st2)" "P st2"
    using 3(1) [OF st1(1) [symmetric] refl names(1) st1(2)] by blast
  obtain mods2 st3 where "autoload_packages imp loaded caller ps st2 = (Inr mods2, st3)" "P st3"
    using 3(2) [OF st1(1) [symmetric] refl st2(1) [symmetric] refl names(2) st2(2)] by blast
  then show ?case using st1 st2 by simp
qed simp

section \<open>The session\<close>

text \<open>
  What an import changes: the names in \<open>sys.modules\<close> and, since the code of a module makes and connects callbacks, the callbacks.
\<close>

record interp =
  it_modules :: "string list"
  it_cb :: cb_sys

definition is_loaded :: "interp \<Rightarrow> string \<Rightarrow> bool" where
  "is_loaded st m \<longleftrightarrow> m \<in> set (it_modules st)"

record session_env =
  se_target :: target_env
  se_fs :: file_system
  se_gdb :: gdb_env
  se_image :: image_env
  se_import :: "string \<Rightarrow> interp \<Rightarrow> unit res \<times> interp"
  se_package :: "string \<Rightarrow> package"
  se_release :: "string res"
  se_modules :: "kmodule gen"
  se_switch :: "addr \<Rightarrow> unit res"
  se_where :: "unit res"

text \<open>The outcomes of the callbacks when the target is opened, when debug information is added, and after the modules.\<close>

record session_outcomes =
  w_target :: "cbid \<Rightarrow> outcome"
  w_debug :: "cbid \<Rightarrow> outcome"
  w_modules :: "cbid \<Rightarrow> outcome"

record paths_arg =
  pa_roots :: path_spec
  pa_vmlinux_debuginfo :: path_spec
  pa_module_path :: path_spec
  pa_module_debuginfo_path :: path_spec

record session =
  sn_open :: open_state
  sn_modules :: "string list"
  sn_load :: load_state

definition session_kernel :: "session_env \<Rightarrow> session_outcomes \<Rightarrow> paths_arg \<Rightarrow> load_state \<Rightarrow> crash_kernel res \<times> load_state" where
  "session_kernel env w args ld = crash_kernel_init (se_fs env) (se_gdb env) ((se_image env)\<lparr>im_target := CrashTarget\<rparr>) (w_debug w)
     (pa_roots args) (pa_vmlinux_debuginfo args) (pa_module_path args) (pa_module_debuginfo_path args) ld"

text \<open>The three packages whose submodules are imported, in order.\<close>

definition session_packages :: "string list" where
  "session_packages = [''crash.cache'', ''crash.subsystem'', ''crash.commands'']"

fun autoload_each :: "session_env \<Rightarrow> string list \<Rightarrow> interp \<Rightarrow> unit res \<times> interp" where
  "autoload_each env [] st = (Inr (), st)"
| "autoload_each env (caller # cs) st = (case autoload_submodules (se_import env) is_loaded caller (se_package env caller) st of
       (Inl e, st1) \<Rightarrow> (Inl e, st1)
     | (Inr _, st1) \<Rightarrow> autoload_each env cs st1)"

text \<open>The switch to the crashing thread; an error of gdb is only reported.\<close>

definition show_crash :: "session_env \<Rightarrow> addr option \<Rightarrow> unit res" where
  "show_crash env th = (case th of
       None \<Rightarrow> Inr ()
     | Some a \<Rightarrow> (case se_switch env a of
          Inl e \<Rightarrow> if catches GdbError e then Inr () else Inl e
        | Inr _ \<Rightarrow> se_where env))"

text \<open>The modules and what follows them.\<close>

definition session_modules ::
  "session_env \<Rightarrow> session_outcomes \<Rightarrow> addr option \<Rightarrow> crash_kernel \<Rightarrow> load_state \<Rightarrow> unit res \<times> load_state" where
  "session_modules env w crashing_thread ck ld =
     (case load_modules (se_fs env) (se_gdb env) (w_modules w) ck (se_release env) (se_modules env) ld of
        (Inl e, ld1) \<Rightarrow> (if catches CrashKernelError e then Inr () else Inl e, ld1)
      | (Inr n, ld1) \<Rightarrow> (show_crash env crashing_thread, ld1))"

text \<open>
  The constructor.  The callbacks are one state: the target leaves them in \<open>sn_open\<close>, the import of \<^verbatim>\<open>crash.kernel\<close>, which the
  constructor makes itself, continues with them, then \<^verbatim>\<open>CrashKernel\<close>, the imports of the packages, and the modules; the last
  state is that of \<open>sn_load\<close>.
\<close>

definition session_init :: "session_env \<Rightarrow> session_outcomes \<Rightarrow> paths_arg \<Rightarrow> session \<Rightarrow> unit res \<times> session" where
  "session_init env w args sn = (case setup_target (se_target env) (w_target w) targets (sn_open sn) of
       (Inl e, op1) \<Rightarrow> (Inl e, sn\<lparr>sn_open := op1\<rparr>)
     | (Inr c, op1) \<Rightarrow>
         (case se_import env ''crash.kernel'' \<lparr>it_modules = sn_modules sn, it_cb = op_cb op1\<rparr> of
            (Inl e, it1) \<Rightarrow> (Inl e, \<lparr>sn_open = op1, sn_modules = it_modules it1, sn_load = (sn_load sn)\<lparr>ls_cb := it_cb it1\<rparr>\<rparr>)
          | (Inr _, it1) \<Rightarrow>
              (case session_kernel env w args ((sn_load sn)\<lparr>ls_cb := it_cb it1\<rparr>) of
                 (Inl e, ld1) \<Rightarrow> (Inl e, \<lparr>sn_open = op1, sn_modules = it_modules it1, sn_load = ld1\<rparr>)
               | (Inr ck, ld1) \<Rightarrow>
                   (case autoload_each env session_packages \<lparr>it_modules = it_modules it1, it_cb = ls_cb ld1\<rparr> of
                      (Inl e, it2) \<Rightarrow> (Inl e, \<lparr>sn_open = op1, sn_modules = it_modules it2, sn_load = ld1\<lparr>ls_cb := it_cb it2\<rparr>\<rparr>)
                    | (Inr _, it2) \<Rightarrow>
                        (case session_modules env w (tg_crashing (op_target op1)) ck (ld1\<lparr>ls_cb := it_cb it2\<rparr>) of
                           (r, ld2) \<Rightarrow> (r, \<lparr>sn_open = op1, sn_modules = it_modules it2, sn_load = ld2\<rparr>))))))"

section \<open>The constructor leaves the caches empty\<close>

lemma vmlinux_debug_loop_find: "ls_find (snd (vmlinux_debug_loop env w ob ps st)) = ls_find st"
  by (induction ps arbitrary: st) (auto simp: add_separate_debug_file_def announce_def split: sum.splits)

lemma crash_kernel_init_find:
  assumes "crash_kernel_init fs env im w roots vd mp md st = (Inr ck, st')"
  shows "ls_find st' = find_init"
proof -
  have "ls_find st1 = ls_find st0" if "load_vmlinux_debuginfo env w ob ps st0 = (r, st1)" for ob ps st0 r st1
    using that vmlinux_debug_loop_find [of env w ob _ st0]
    by (auto simp: load_vmlinux_debuginfo_def split: if_splits prod.splits sum.splits) (metis snd_conv)+
  then show ?thesis using assms by (auto simp: crash_kernel_init_def Let_def split: sum.splits prod.splits)
qed

section \<open>The stages of a session that starts well\<close>

subsection \<open>The target\<close>

text \<open>
  An image that can be opened: registers can be fetched, there are symbols, gdb opens the image, and the run queues, the
  registers of their CPUs and the tasks of the threads can be read.
\<close>

definition image_opens :: "target_env \<Rightarrow> open_state \<Rightarrow> bool" where
  "image_opens env st \<longleftrightarrow> (tv_thread_return env \<or> tv_frame_type env) \<and> tv_has_symbols env \<and> tv_gdb_open env = Inr () \<and>
     task_types_ok (te_task_type (tv_tasks env)) (te_mm_type (tv_tasks env)) \<and>
     (\<exists>rqs pst cur rg cc tk. get_percpu_vars (tv_percpu env) (op_percpu st) (tv_runqueues env) None = (Inr rqs, pst) \<and>
        (\<forall>(k, x) \<in> set rqs. 0 \<le> k \<and> te_rq_curr (tv_tasks env) x = Inr (cur k) \<and> te_regs (tv_tasks env) k = Inr (rg k)) \<and>
        crashing_cpu_of (tv_tasks env) = Inr cc \<and>
        (\<forall>th \<in> set (tg_threads (op_target st)). te_task_at (tv_tasks env) (th_address th) = Inr (tk (th_address th))))"

text \<open>Callbacks that no operation has failed on, and none of which is completed before its target.\<close>

definition cb_waits_ok :: "cb_sys \<Rightarrow> bool" where
  "cb_waits_ok s \<longleftrightarrow> cb_good s \<and> (\<forall>c \<in> set (waitlist s). \<not> completed (obj s c))"

lemma target_ready_quiet:
  assumes "cb_waits_ok s" and "\<forall>c. quiet (w c)"
  shows "\<exists>s'. target_ready w s = (s', None) \<and> cb_good s'"
proof -
  have "distinct (waitlist s)" using assms(1) by (simp add: cb_waits_ok_def cb_good_def cb_mid_def cb_core_def)
  then obtain s1 where "for_callbacks (complete_wait_for_target w) (waitlist s) s = (s1, None)"
    using for_complete_wait_quiet [of "waitlist s" w s] assms by (auto simp: cb_waits_ok_def)
  then have "target_ready w s = (update_pending (s1\<lparr>waitlist := []\<rparr>), None)" by (simp add: target_ready_def)
  then show ?thesis using cb_good_target_ready assms(1) by (auto simp: cb_waits_ok_def)
qed

lemma setup_target_opens:
  assumes "image_opens env st" and "cb_waits_ok (op_cb st)" and "\<forall>c. quiet (w c)"
  shows "\<exists>c st'. setup_target env w targets st = (Inr c, st') \<and> cb_good (op_cb st')"
proof -
  obtain cb where cb: "target_ready w (op_cb st) = (cb, None)" "cb_good cb" using target_ready_quiet [OF assms(2, 3)] by blast
  obtain pst tst where tasks: "setup_tasks (tv_tasks env) (tv_percpu env) (tv_runqueues env) (op_percpu st) (op_target st) = (Inr (), pst, tst)"
    using assms(1) setup_tasks_returns [of "tv_percpu env" "op_percpu st" "tv_runqueues env" _ _ "tv_tasks env" _ _ _ "op_target st"]
    unfolding image_opens_def by blast
  have "catches IncorrectTargetError IncorrectTargetError" by code_simp
  moreover have "target_open env w c st = (if fetch_registers_usable (tv_frame_type env) (tv_thread_return env) c
      then (Inr (), st\<lparr>op_cb := cb, op_percpu := pst, op_target := tst\<rparr>) else (Inl IncorrectTargetError, st))" for c
    using assms(1) cb tasks by (simp add: target_open_def image_opens_def)
  ultimately show ?thesis using assms(1) cb(2)
    by (cases "tv_thread_return env") (auto simp: image_opens_def targets_def target_new_def)
qed

subsection \<open>The kernel\<close>

text \<open>The kernel as its image and the paths given make it.\<close>

definition kernel_of :: "session_env \<Rightarrow> paths_arg \<Rightarrow> crash_kernel res" where
  "kernel_of env args = (case ge_filename (se_gdb env) (im_objfile (se_image env)) of
       None \<Rightarrow> Inl RuntimeError
     | Some f \<Rightarrow> if f = [] then Inl RuntimeError else
         bindR (extract_version (im_uts_release (se_image env)) (im_linux_banner (se_image env))) (\<lambda>version.
         bindR (setup_paths (se_fs env) (basename f) version (pa_roots args) (pa_vmlinux_debuginfo args)
           (pa_module_path args) (pa_module_debuginfo_path args)) (\<lambda>ck.
         bindR (extract_vermagic (im_vermagic (se_image env)) (im_vermagic_min (se_image env))) (\<lambda>v.
         Inr (ck\<lparr>ck_vermagic := v\<rparr>)))))"

text \<open>The kernel has symbols, or has them with all the files of debug information that gdb accepts.\<close>

definition debug_found :: "gdb_env \<Rightarrow> string \<Rightarrow> string list \<Rightarrow> load_state \<Rightarrow> bool" where
  "debug_found env ob paths st \<longleftrightarrow> has_symbols env ob st \<or>
     ge_symbols env ob (map snd (filter (\<lambda>d. fst d = ob) (ls_debug st)) @
       filter (\<lambda>p. \<not> isl (ge_add_debug env ob p))
         ((case build_id_path (ge_build_id env ob) of None \<Rightarrow> [] | Some b \<Rightarrow> [b]) @ paths))"

lemma run_handlers_quiet:
  "cb_good s \<Longrightarrow> \<forall>c. quiet (w c) \<Longrightarrow> cb_good (fst (run_handlers w n s))"
proof (induction n arbitrary: s)
  case (Suc n)
  show ?case
  proof (cases "paused s")
    case True
    then show ?thesis using run_handlers_paused [of s w "Suc n"] Suc.prems(1) by simp
  next
    case False
    then obtain s1 where s1: "evaluate_all w s = (s1, None)"
      using evaluate_all_quiet [OF Suc.prems(1), of w] Suc.prems(2) by auto
    then have "cb_good s1" using cb_good_evaluate_all [OF Suc.prems(1)] by blast
    then show ?thesis using Suc.IH [of s1] Suc.prems(2) s1 by (simp add: split_beta)
  qed
qed simp

lemma announce_quiet: "cb_good (ls_cb st) \<Longrightarrow> \<forall>c. quiet (w c) \<Longrightarrow> cb_good (ls_cb (announce w st))"
  using run_handlers_quiet by (simp add: announce_def new_objfile_def)

lemma has_symbols_announce [simp]:
  "has_symbols env ob (announce w st) = has_symbols env ob st" "ls_debug (announce w st) = ls_debug st"
  "ls_commands (announce w st) = ls_commands st"
  by (simp_all add: announce_def has_symbols_def)

lemma vmlinux_debug_loop_finds:
  assumes "debug_ok env" and "\<forall>c. quiet (w c)" and "cb_good (ls_cb st)"
    and "ge_symbols env ob (map snd (filter (\<lambda>d. fst d = ob) (ls_debug st)) @ filter (\<lambda>p. \<not> isl (ge_add_debug env ob p)) ps)"
  shows "\<exists>st'. vmlinux_debug_loop env w ob ps st = (Inr (), st') \<and> has_symbols env ob st' \<and> cb_good (ls_cb st') \<and>
    ls_commands st' = ls_commands st"
  using assms(3-)
proof (induction ps arbitrary: st)
  case (Cons p ps)
  show ?case
  proof (cases "ge_add_debug env ob p")
    case (Inl e)
    then have "catches GdbError e" using assms(1) by (simp add: debug_ok_def)
    moreover obtain st' where "vmlinux_debug_loop env w ob ps st = (Inr (), st')" "has_symbols env ob st'" "cb_good (ls_cb st')"
      "ls_commands st' = ls_commands st"
      using Cons.IH [of st] Cons.prems Inl by auto
    ultimately show ?thesis using Inl by (simp add: add_separate_debug_file_def)
  next
    case (Inr u)
    let ?st = "announce w (st\<lparr>ls_debug := ls_debug st @ [(ob, p)]\<rparr>)"
    have good: "cb_good (ls_cb ?st)" using announce_quiet Cons.prems(1) assms(2) by simp
    show ?thesis
    proof (cases "has_symbols env ob ?st")
      case True
      then show ?thesis using good Inr by (simp add: add_separate_debug_file_def)
    next
      case False
      moreover obtain st' where "vmlinux_debug_loop env w ob ps ?st = (Inr (), st')" "has_symbols env ob st'" "cb_good (ls_cb st')"
        "ls_commands st' = ls_commands ?st"
        using Cons.IH [of ?st] Cons.prems(2) good Inr by auto
      ultimately show ?thesis using Inr by (simp add: add_separate_debug_file_def)
    qed
  qed
qed (simp add: has_symbols_def)

lemma session_kernel_found:
  assumes "kernel_of env args = Inr ck" and "debug_found (se_gdb env) (im_objfile (se_image env)) (ck_vmlinux_debuginfo ck) ld"
    and "debug_ok (se_gdb env)" and "\<forall>c. quiet (w_debug w c)" and "cb_good (ls_cb ld)"
  shows "\<exists>ld1. session_kernel env w args ld = (Inr ck, ld1) \<and> ls_find ld1 = find_init \<and> cb_good (ls_cb ld1) \<and>
    ls_commands ld1 = ls_commands ld"
proof -
  let ?ob = "im_objfile (se_image env)" and ?ld = "ld\<lparr>ls_find := find_init\<rparr>"
  obtain f version ck0 v where f: "ge_filename (se_gdb env) ?ob = Some f" "f \<noteq> []"
    "extract_version (im_uts_release (se_image env)) (im_linux_banner (se_image env)) = Inr version"
    "setup_paths (se_fs env) (basename f) version (pa_roots args) (pa_vmlinux_debuginfo args)
       (pa_module_path args) (pa_module_debuginfo_path args) = Inr ck0"
    "extract_vermagic (im_vermagic (se_image env)) (im_vermagic_min (se_image env)) = Inr v" "ck = ck0\<lparr>ck_vermagic := v\<rparr>"
    using assms(1) by (auto simp: kernel_of_def bindR_eq_Inr split: option.splits if_splits)
  have "\<exists>ld1. load_vmlinux_debuginfo (se_gdb env) (w_debug w) ?ob (ck_vmlinux_debuginfo ck0) ?ld = (Inr (), ld1) \<and>
      cb_good (ls_cb ld1) \<and> ls_commands ld1 = ls_commands ld"
  proof (cases "has_symbols (se_gdb env) ?ob ld")
    case True
    then have "has_symbols (se_gdb env) ?ob ?ld" by (simp add: has_symbols_def)
    then show ?thesis using assms(5) by (simp add: load_vmlinux_debuginfo_def)
  next
    case False
    then have not: "\<not> has_symbols (se_gdb env) ?ob ?ld" by (simp add: has_symbols_def)
    let ?ps = "(case build_id_path (ge_build_id (se_gdb env) ?ob) of None \<Rightarrow> [] | Some b \<Rightarrow> [b]) @ ck_vmlinux_debuginfo ck0"
    have sym: "ge_symbols (se_gdb env) ?ob (map snd (filter (\<lambda>d. fst d = ?ob) (ls_debug ?ld)) @
        filter (\<lambda>p. \<not> isl (ge_add_debug (se_gdb env) ?ob p)) ?ps)"
      using assms(2) False f(6) by (simp add: debug_found_def)
    then obtain ld1 where "vmlinux_debug_loop (se_gdb env) (w_debug w) ?ob ?ps ?ld = (Inr (), ld1)"
      "has_symbols (se_gdb env) ?ob ld1" "cb_good (ls_cb ld1)" "ls_commands ld1 = ls_commands ld"
      using vmlinux_debug_loop_finds [OF assms(3, 4), of ?ld ?ob ?ps] assms(5) by auto
    then show ?thesis using not by (simp add: load_vmlinux_debuginfo_def)
  qed
  then obtain ld1 where "session_kernel env w args ld = (Inr ck, ld1)" "cb_good (ls_cb ld1)" "ls_commands ld1 = ls_commands ld"
    using f by (auto simp: session_kernel_def crash_kernel_init_def check_target_def)
  then show ?thesis using crash_kernel_init_find unfolding session_kernel_def by blast
qed

subsection \<open>The imports\<close>

text \<open>
  Importing a module enters its name, keeps the others, and only makes and connects callbacks, through the operations of
  their class and without an exception.
\<close>

definition import_ok :: "(string \<Rightarrow> interp \<Rightarrow> unit res \<times> interp) \<Rightarrow> string \<Rightarrow> bool" where
  "import_ok imp m \<longleftrightarrow> (\<forall>st. \<exists>st'. imp m st = (Inr (), st') \<and> is_loaded st' m \<and> set (it_modules st) \<subseteq> set (it_modules st') \<and>
     cb_step\<^sup>*\<^sup>* ([], it_cb st) ([], it_cb st'))"

definition session_names :: "session_env \<Rightarrow> string set" where
  "session_names env = (\<Union>c \<in> set session_packages. insert c (set (package_tree c (se_package env c))))"

lemma cb_steps_good: "cb_step\<^sup>*\<^sup>* ([], s) ([], s') \<Longrightarrow> cb_good s \<Longrightarrow> cb_good s'"
proof -
  have "cb_step\<^sup>*\<^sup>* x y \<Longrightarrow> snd x = s \<Longrightarrow> fst y = [] \<Longrightarrow> fst x = [] \<Longrightarrow> cb_good s \<Longrightarrow> cb_good (snd y)" for x y
  proof (induction rule: rtranclp_induct)
    case (step y z)
    obtain es t es' t' where "y = (es, t)" "z = (es', t')" by (cases y; cases z) blast
    then show ?case using step cb_step_good [of es t es' t'] cb_step_clean [of es t es' t'] by auto
  qed simp
  then show "cb_step\<^sup>*\<^sup>* ([], s) ([], s') \<Longrightarrow> cb_good s \<Longrightarrow> cb_good s'" by fastforce
qed

lemma imports_keep_good:
  assumes "\<forall>m \<in> names. import_ok imp m"
  shows "imports_keep imp (\<lambda>st. cb_good (it_cb st) \<and> M \<subseteq> set (it_modules st)) names"
  using assms cb_steps_good unfolding imports_keep_def import_ok_def by blast

lemma import_ok_importer: "\<forall>m \<in> names. import_ok imp m \<Longrightarrow> importer imp is_loaded names"
  unfolding import_ok_def importer_def is_loaded_def by (metis Pair_inject subsetD)

lemma autoload_each_ok:
  assumes "\<forall>m \<in> (\<Union>c \<in> set cs. insert c (set (package_tree c (se_package env c)))). import_ok (se_import env) m" and "cb_good (it_cb st)"
  shows "\<exists>st'. autoload_each env cs st = (Inr (), st') \<and> cb_good (it_cb st') \<and> set (it_modules st) \<subseteq> set (it_modules st') \<and>
    (\<Union>c \<in> set cs. insert c (set (package_tree c (se_package env c)))) \<subseteq> set (it_modules st')"
  using assms
proof (induction cs arbitrary: st)
  case (Cons c cs)
  let ?names = "insert c (set (package_tree c (se_package env c)))"
  let ?rest = "\<Union>c \<in> set cs. insert c (set (package_tree c (se_package env c)))"
  have ok: "\<forall>m \<in> ?names. import_ok (se_import env) m" and rest: "\<forall>m \<in> ?rest. import_ok (se_import env) m"
    using Cons.prems(1) unfolding list.set UN_insert by blast+
  obtain mods st1 where st1: "autoload_submodules (se_import env) is_loaded c (se_package env c) st = (Inr mods, st1)" "cb_good (it_cb st1)"
    using autoload_keeps(1) [OF imports_keep_good [OF ok, of "{}"], of st is_loaded] Cons.prems(2) by auto
  have "?names \<subseteq> set (it_modules st1)" "set (it_modules st) \<subseteq> set (it_modules st1)"
    using autoload_loads(1) [OF import_ok_importer [OF ok] st1(1)] by (auto simp: is_loaded_def)
  moreover obtain st2 where "autoload_each env cs st1 = (Inr (), st2)" "cb_good (it_cb st2)"
    "set (it_modules st1) \<subseteq> set (it_modules st2)" "?rest \<subseteq> set (it_modules st2)"
    using Cons.IH [OF rest st1(2)] by blast
  ultimately have "autoload_each env (c # cs) st = (Inr (), st2)" "cb_good (it_cb st2)"
    "set (it_modules st) \<subseteq> set (it_modules st2)" "?names \<union> ?rest \<subseteq> set (it_modules st2)"
    using st1(1) by (simp, simp, blast+)
  then show ?case unfolding list.set UN_insert by blast
qed simp

subsection \<open>Together\<close>

text \<open>What the first stages need: the image, the files and gdb, the packages, and callbacks that raise nothing but gdb's errors.\<close>

definition session_starts :: "session_env \<Rightarrow> session_outcomes \<Rightarrow> paths_arg \<Rightarrow> session \<Rightarrow> crash_kernel \<Rightarrow> bool" where
  "session_starts env w args sn ck \<longleftrightarrow> image_opens (se_target env) (sn_open sn) \<and> kernel_of env args = Inr ck \<and>
     debug_found (se_gdb env) (im_objfile (se_image env)) (ck_vmlinux_debuginfo ck) (sn_load sn) \<and>
     debug_ok (se_gdb env) \<and> (\<forall>p e. fs_lines (se_fs env) p = Inl e \<longrightarrow> catches IOError e) \<and>
     (\<forall>m \<in> insert ''crash.kernel'' (session_names env). import_ok (se_import env) m) \<and>
     (\<forall>c. quiet (w_target w c) \<and> quiet (w_debug w c) \<and> quiet (w_modules w c)) \<and>
     cb_waits_ok (op_cb (sn_open sn))"

text \<open>The callbacks after the imports, which the loading of the modules starts from.\<close>

definition stages_done :: "session_env \<Rightarrow> session_outcomes \<Rightarrow> paths_arg \<Rightarrow> session \<Rightarrow> crash_kernel \<Rightarrow> open_state \<Rightarrow> load_state \<Rightarrow> interp \<Rightarrow> bool" where
  "stages_done env w args sn ck op1 ld1 it2 \<longleftrightarrow>
     (\<exists>c it1. setup_target (se_target env) (w_target w) targets (sn_open sn) = (Inr c, op1) \<and>
        se_import env ''crash.kernel'' \<lparr>it_modules = sn_modules sn, it_cb = op_cb op1\<rparr> = (Inr (), it1) \<and>
        session_kernel env w args ((sn_load sn)\<lparr>ls_cb := it_cb it1\<rparr>) = (Inr ck, ld1) \<and>
        autoload_each env session_packages \<lparr>it_modules = it_modules it1, it_cb = ls_cb ld1\<rparr> = (Inr (), it2))"

lemma session_stages:
  assumes "session_starts env w args sn ck"
  shows "\<exists>op1 ld1 it2. stages_done env w args sn ck op1 ld1 it2 \<and> cb_good (it_cb it2) \<and> find_ok (se_fs env) (ls_find ld1) \<and>
    ls_commands ld1 = ls_commands (sn_load sn) \<and> insert ''crash.kernel'' (session_names env) \<subseteq> set (it_modules it2)"
proof -
  obtain c op1 where op1: "setup_target (se_target env) (w_target w) targets (sn_open sn) = (Inr c, op1)" "cb_good (op_cb op1)"
    using setup_target_opens [of "se_target env" "sn_open sn" "w_target w"] assms by (auto simp: session_starts_def)
  have "import_ok (se_import env) ''crash.kernel''" using assms by (simp add: session_starts_def)
  then obtain it1 where it1: "se_import env ''crash.kernel'' \<lparr>it_modules = sn_modules sn, it_cb = op_cb op1\<rparr> = (Inr (), it1)"
    "is_loaded it1 ''crash.kernel''" "cb_step\<^sup>*\<^sup>* ([], op_cb op1) ([], it_cb it1)"
    unfolding import_ok_def by (metis interp.select_convs(2))
  have good1: "cb_good (it_cb it1)" using cb_steps_good [OF it1(3) op1(2)] .
  have "debug_found (se_gdb env) (im_objfile (se_image env)) (ck_vmlinux_debuginfo ck) ((sn_load sn)\<lparr>ls_cb := it_cb it1\<rparr>)"
    using assms by (simp add: session_starts_def debug_found_def has_symbols_def)
  then obtain ld1 where ld1: "session_kernel env w args ((sn_load sn)\<lparr>ls_cb := it_cb it1\<rparr>) = (Inr ck, ld1)" "ls_find ld1 = find_init"
    "cb_good (ls_cb ld1)" "ls_commands ld1 = ls_commands (sn_load sn)"
    using session_kernel_found [of env args ck "(sn_load sn)\<lparr>ls_cb := it_cb it1\<rparr>" w] assms good1 by (auto simp: session_starts_def)
  have "\<forall>m \<in> session_names env. import_ok (se_import env) m" using assms by (simp add: session_starts_def)
  then obtain it2 where it2: "autoload_each env session_packages \<lparr>it_modules = it_modules it1, it_cb = ls_cb ld1\<rparr> = (Inr (), it2)"
    "cb_good (it_cb it2)" "set (it_modules it1) \<subseteq> set (it_modules it2)" "session_names env \<subseteq> set (it_modules it2)"
    using autoload_each_ok [of env session_packages "\<lparr>it_modules = it_modules it1, it_cb = ls_cb ld1\<rparr>"] ld1(3)
    unfolding session_names_def by auto
  have "stages_done env w args sn ck op1 ld1 it2" using op1(1) it1(1) ld1(1) it2(1) unfolding stages_done_def by blast
  moreover have "find_ok (se_fs env) (ls_find ld1)" using ld1(2) assms by (simp add: find_ok_init session_starts_def)
  moreover have "insert ''crash.kernel'' (session_names env) \<subseteq> set (it_modules it2)"
    using it1(2) it2(3, 4) by (auto simp: is_loaded_def)
  ultimately show ?thesis using it2(2) ld1(4) by blast
qed

lemma session_init_stages:
  assumes "stages_done env w args sn ck op1 ld1 it2"
    and "session_modules env w (tg_crashing (op_target op1)) ck (ld1\<lparr>ls_cb := it_cb it2\<rparr>) = (r, ld)"
  shows "session_init env w args sn = (r, \<lparr>sn_open = op1, sn_modules = it_modules it2, sn_load = ld\<rparr>)"
  using assms by (auto simp: stages_done_def session_init_def)

section \<open>An example\<close>

definition ex_runqueues :: percpu_arg where
  "ex_runqueues = PSymbol \<lparr>gv_type = ex_int, gv_address = Some 4100, gv_int = 0\<rparr>"

text \<open>
  Importing \<^verbatim>\<open>crash.commands.dev\<close> makes a callback and connects it; the other imports make none.  The two callbacks of
  \<open>ex_two\<close> are there before.
\<close>

definition ex_import :: "string \<Rightarrow> interp \<Rightarrow> unit res \<times> interp" where
  "ex_import m st = (Inr (), \<lparr>it_modules = List.insert m (it_modules st),
     it_cb = (if m = ''crash.commands.dev'' \<and> objs (it_cb st) 2 = None
       then fst (connect_callback (\<lambda>_. NotReady) False 2 (cb_new 2 True True (it_cb st))) else it_cb st)\<rparr>)"

definition ex_package :: "string \<Rightarrow> package" where
  "ex_package c = Package True (if c = ''crash.commands'' then [''__init__'', ''dev''] else [''__init__'']) []"

definition ex_session_env :: "gdb_env \<Rightarrow> session_env" where
  "ex_session_env ge = \<lparr>se_target = \<lparr>tv_frame_type = True, tv_thread_return = False, tv_has_symbols = True, tv_gdb_open = Inr (),
       tv_tasks = ex_tasks_env, tv_percpu = ex_penv, tv_runqueues = ex_runqueues\<rparr>,
     se_fs = ex_fs, se_gdb = ge,
     se_image = \<lparr>im_target = NoTarget, im_objfile = ''vmlinux'', im_uts_release = Inr ''1'', im_linux_banner = Inl MissingSymbolError,
       im_vermagic = Inr ''v'', im_vermagic_min = Inl MissingSymbolError\<rparr>,
     se_import = ex_import, se_package = ex_package, se_release = Inr ''1'',
     se_modules = gen_of_list [ex_module ''a_b'', ex_module ''c'', ex_module ''d''], se_switch = (\<lambda>_. Inr ()), se_where = Inr ()\<rparr>"

definition ex_session :: session where
  "ex_session = \<lparr>sn_open = \<lparr>op_cb = ex_two, op_percpu = percpu_init\<lparr>nr_cpus := 2, static_ranges := [(4096, 4096)]\<rparr>, op_target = ex_target_state\<rparr>,
     sn_modules = [], sn_load = ex_load\<rparr>"

text \<open>The first callback is ready when the modules are loaded, the others never.\<close>

definition ex_outcomes :: session_outcomes where
  "ex_outcomes = \<lparr>w_target = (\<lambda>_. NotReady), w_debug = (\<lambda>_. NotReady), w_modules = (\<lambda>c. if c = 0 then Called Done else NotReady)\<rparr>"

definition ex_paths :: paths_arg where
  "ex_paths = \<lparr>pa_roots = PathNone, pa_vmlinux_debuginfo = PathNone, pa_module_path = PathStr ''/m'', pa_module_debuginfo_path = PathNone\<rparr>"

lemma ex_import_ok: "import_ok ex_import m"
proof -
  have "cb_step\<^sup>*\<^sup>* ([], s) ([], fst (connect_callback (\<lambda>_. NotReady) False 2 (cb_new 2 True True s)))" if "objs s 2 = None" for s
  proof -
    let ?s1 = "cb_new 2 True True s"
    have "cb_step ([], s) ([], ?s1)" using that by (rule cb_step.New)
    moreover have "snd (connect_callback (\<lambda>_. NotReady) False 2 ?s1) = None" "objs ?s1 2 \<noteq> None"
      by (auto simp: connect_callback_def cb_new_def obj_set_obj)
    then have "cb_step ([], ?s1) ([], fst (connect_callback (\<lambda>_. NotReady) False 2 ?s1))"
      using cb_step.Connect [of ?s1 2 "\<lambda>_. NotReady" False "fst (connect_callback (\<lambda>_. NotReady) False 2 ?s1)" None "[]"]
      by (simp add: prod_eq_iff raised_def)
    ultimately show ?thesis by (meson converse_rtranclp_into_rtranclp r_into_rtranclp)
  qed
  then show ?thesis by (auto simp: import_ok_def ex_import_def is_loaded_def)
qed

lemma ex_kernel_of:
  assumes "ge_filename ge = Some"
  shows "kernel_of (ex_session_env ge) ex_paths = Inr ex_ck"
proof -
  have "setup_paths ex_fs (basename ''vmlinux'') ''1'' PathNone PathNone (PathStr ''/m'') PathNone = Inr (ex_ck\<lparr>ck_vermagic := []\<rparr>)"
    by code_simp
  then show ?thesis using assms
    by (simp add: kernel_of_def ex_session_env_def ex_paths_def extract_version_def extract_vermagic_def ex_ck_def)
qed

lemma ex_image_opens: "image_opens (se_target (ex_session_env ge)) (sn_open ex_session)"
proof -
  let ?rqs = "[(0, PObject 65540 (Some ex_int)), (1, PObject 131076 (Some ex_int))] :: (int \<times> percpu_val) list"
  let ?pst = "percpu_init\<lparr>nr_cpus := 2, static_ranges := [(4096, 4096)]\<rparr>"
  have "get_percpu_vars ex_penv ?pst ex_runqueues None = (Inr ?rqs, ?pst)" by code_simp
  moreover have "task_types_ok (te_task_type ex_tasks_env) (te_mm_type ex_tasks_env)" by code_simp
  moreover have "\<forall>(k, x) \<in> set ?rqs. 0 \<le> k \<and> te_rq_curr ex_tasks_env x = Inr (16 * (k + 1)) \<and> te_regs ex_tasks_env k = Inr [(''rip'', k)]"
    "crashing_cpu_of ex_tasks_env = Inr 1"
    "\<forall>th \<in> set (tg_threads ex_target_state). te_task_at ex_tasks_env (th_address th) = Inr (ex_thread_task (th_address th))"
    by (simp_all add: ex_tasks_env_def crashing_cpu_of_def)
  moreover have "se_target (ex_session_env ge) = \<lparr>tv_frame_type = True, tv_thread_return = False, tv_has_symbols = True, tv_gdb_open = Inr (),
       tv_tasks = ex_tasks_env, tv_percpu = ex_penv, tv_runqueues = ex_runqueues\<rparr>"
    "op_percpu (sn_open ex_session) = ?pst" "op_target (sn_open ex_session) = ex_target_state"
    by (simp_all add: ex_session_env_def ex_session_def)
  ultimately show ?thesis unfolding image_opens_def
    by (intro conjI exI [of _ ?rqs] exI [of _ ?pst] exI [of _ "\<lambda>k. 16 * (k + 1)"] exI [of _ "\<lambda>k. [(''rip'', k)]"] exI [of _ 1]
        exI [of _ ex_thread_task]) simp_all
qed

lemma ex_session_starts:
  assumes "ge_symbols ge = (\<lambda>_ _. True)" and "ge_filename ge = Some" and "debug_ok ge"
  shows "session_starts (ex_session_env ge) ex_outcomes ex_paths ex_session ex_ck"
proof -
  have "waitlist ex_two = []" by code_simp
  then have "cb_waits_ok ex_two" using cb_reachable_good [OF ex_two_reachable] by (simp add: cb_waits_ok_def)
  then show ?thesis
    unfolding session_starts_def using ex_image_opens ex_kernel_of [OF assms(2)] assms ex_fs_lines ex_import_ok
    by (auto simp: debug_found_def has_symbols_def ex_outcomes_def ex_session_def ex_session_env_def)
qed

section \<open>Properties\<close>

text \<open>
  C7: A session that starts well.  When the image opens and its run queues and tasks can be read, the kernel and its
  debug information are found, the modules of the three packages can be imported, the modules of the kernel load
  cleanly, no callback raises an exception that is not gdb's and gdb answers the switch to the crashing thread with
  nothing but its own error, the session ends normally.  All submodules of the packages are imported; every module of
  the kernel with a suitable file was loaded, in order; and of the callbacks that were pending after the imports, which
  themselves make callbacks, exactly those are still pending that were not done in the one pass after the modules.
\<close>

theorem session_completes:
  assumes "session_starts env w args sn ck" and "se_release env = Inr release" and "se_modules env = gen_of_list ms"
    and "list_all (loads_cleanly (se_fs env) (se_gdb env) ck) ms"
    and "\<forall>a e. se_switch env a = Inl e \<longrightarrow> catches GdbError e" and "se_where env = Inr ()"
  shows "\<exists>op1 ld1 it2 ld. session_init env w args sn = (Inr (), \<lparr>sn_open = op1, sn_modules = it_modules it2, sn_load = ld\<rparr>) \<and>
    stages_done env w args sn ck op1 ld1 it2 \<and>
    insert ''crash.kernel'' (session_names env) \<subseteq> set (it_modules it2) \<and>
    ls_commands ld = ls_commands (sn_load sn) @ map snd (List.map_filter (picked (se_fs env) (se_gdb env) ck) ms) \<and>
    \<not> paused (ls_cb ld) \<and>
    pending_list (ls_cb ld) = filter (\<lambda>c. \<not> finishes (w_modules w) (it_cb it2) c) (pending_list (it_cb it2))"
proof -
  obtain op1 ld1 it2 where st: "stages_done env w args sn ck op1 ld1 it2" "cb_good (it_cb it2)" "find_ok (se_fs env) (ls_find ld1)"
    "ls_commands ld1 = ls_commands (sn_load sn)" "insert ''crash.kernel'' (session_names env) \<subseteq> set (it_modules it2)"
    using session_stages [OF assms(1)] by blast
  have good: "cb_good ((it_cb it2)\<lparr>paused := False\<rparr>)" using st(2) by (rule cb_good_paused)
  have fin: "finishes (w_modules w) ((it_cb it2)\<lparr>paused := False\<rparr>) = finishes (w_modules w) (it_cb it2)"
    by (simp add: fun_eq_iff finishes_def obj_def)
  have "\<forall>c. quiet (w_modules w c)" "debug_ok (se_gdb env)" using assms(1) by (simp_all add: session_starts_def)
  then obtain cb where cb: "unpause (w_modules w) (it_cb it2) = (cb, None)" "\<not> paused cb"
    "pending_list cb = filter (\<lambda>c. \<not> finishes (w_modules w) (it_cb it2) c) (pending_list (it_cb it2))"
    using evaluate_all_quiet [OF good, of "w_modules w"] fin by (auto simp: unpause_def)
  let ?ld1 = "ld1\<lparr>ls_cb := it_cb it2\<rparr>"
  obtain n ld where ld: "load_modules (se_fs env) (se_gdb env) (w_modules w) ck (Inr release) (gen_of_list ms) ?ld1 = (Inr n, ld)"
    "ls_commands ld = ls_commands ld1 @ map snd (List.map_filter (picked (se_fs env) (se_gdb env) ck) ms)" "ls_cb ld = cb"
    using load_modules_clean [OF \<open>debug_ok (se_gdb env)\<close> _ assms(4), of ?ld1 "w_modules w" cb release] st(3) cb(1) by auto
  have "show_crash env (tg_crashing (op_target op1)) = Inr ()"
    using assms(5, 6) by (auto simp: show_crash_def split: option.splits sum.splits)
  then have "session_modules env w (tg_crashing (op_target op1)) ck ?ld1 = (Inr (), ld)"
    using ld(1) assms(2, 3) by (simp add: session_modules_def)
  from session_init_stages [OF st(1) this] show ?thesis
    using st(1, 4, 5) ld(2, 3) cb(2, 3)
    by (intro exI [of _ op1] exI [of _ ld1] exI [of _ it2] exI [of _ ld] conjI) simp_all
qed

text \<open>In the example the callbacks 0, 1 and 2 are pending after the imports, and the first is done with the modules.\<close>

definition ex_after_imports :: interp where
  "ex_after_imports =
     (let env = ex_session_env ex_genv;
          op1 = snd (setup_target (se_target env) (w_target ex_outcomes) targets (sn_open ex_session));
          it1 = snd (se_import env ''crash.kernel'' \<lparr>it_modules = sn_modules ex_session, it_cb = op_cb op1\<rparr>);
          ld1 = snd (session_kernel env ex_outcomes ex_paths ((sn_load ex_session)\<lparr>ls_cb := it_cb it1\<rparr>))
      in snd (autoload_each env session_packages \<lparr>it_modules = it_modules it1, it_cb = ls_cb ld1\<rparr>))"

lemma ex_stages:
  assumes "stages_done (ex_session_env ex_genv) ex_outcomes ex_paths ex_session ex_ck op1 ld1 it2"
  shows "pending_list (it_cb it2) = [0, 1, 2]" "\<not> waiting (obj (it_cb it2) 0)"
proof -
  have "it2 = ex_after_imports" using assms unfolding stages_done_def ex_after_imports_def Let_def by force
  moreover have "pending_list (it_cb ex_after_imports) = [0, 1, 2]" "\<not> waiting (obj (it_cb ex_after_imports) 0)" by code_simp+
  ultimately show "pending_list (it_cb it2) = [0, 1, 2]" "\<not> waiting (obj (it_cb it2) 0)" by simp_all
qed

theorem session_completes_witness:
  "\<exists>op1 mods ld. session_init (ex_session_env ex_genv) ex_outcomes ex_paths ex_session =
      (Inr (), \<lparr>sn_open = op1, sn_modules = mods, sn_load = ld\<rparr>) \<and>
    ls_commands ld = [''add-symbol-file /m/a-b.ko 0x10  -o 0xff000000''] \<and> ''crash.commands.dev'' \<in> set mods \<and>
    pending_list (ls_cb ld) = [1, 2]"
proof -
  have ge: "ge_symbols ex_genv = (\<lambda>_ _. True)" "ge_filename ex_genv = Some" by (simp_all add: ex_genv_def)
  let ?env = "ex_session_env ex_genv" and ?ms = "[ex_module ''a_b'', ex_module ''c'', ex_module ''d'']"
  have env: "se_release ?env = Inr ''1''" "se_modules ?env = gen_of_list ?ms" "se_where ?env = Inr ()" "se_fs ?env = ex_fs" "se_gdb ?env = ex_genv"
    "\<forall>a e. se_switch ?env a = Inl e \<longrightarrow> catches GdbError e"
    by (simp_all add: ex_session_env_def)
  have clean: "list_all (loads_cleanly (se_fs ?env) (se_gdb ?env) ex_ck) ?ms" using ex_clean unfolding env(4, 5) .
  obtain op1 ld1 it2 ld where run: "session_init ?env ex_outcomes ex_paths ex_session =
      (Inr (), \<lparr>sn_open = op1, sn_modules = it_modules it2, sn_load = ld\<rparr>)"
    "stages_done ?env ex_outcomes ex_paths ex_session ex_ck op1 ld1 it2" "session_names ?env \<subseteq> set (it_modules it2)"
    "ls_commands ld = ls_commands (sn_load ex_session) @ map snd (List.map_filter (picked ex_fs ex_genv ex_ck) ?ms)"
    "pending_list (ls_cb ld) = filter (\<lambda>c. \<not> finishes (w_modules ex_outcomes) (it_cb it2) c) (pending_list (it_cb it2))"
    using session_completes [OF ex_session_starts [OF ge ex_debug_ok] env(1, 2) clean env(6, 3)]
    unfolding env(4, 5) by (elim exE conjE) (rule that, assumption+, blast, assumption+)
  have "''crash.commands.dev'' \<in> session_names ?env"
    by (simp add: session_names_def session_packages_def ex_session_env_def ex_package_def submodules_def)
  moreover have "pending_list (ls_cb ld) = [1, 2]"
    using run(5) ex_stages [OF run(2)] by (simp add: finishes_def ex_outcomes_def)
  moreover have "ls_commands ld = [''add-symbol-file /m/a-b.ko 0x10  -o 0xff000000'']"
    using run(4) by (simp add: map_filter_simps ex_picked ex_session_def ex_load_def)
  ultimately show ?thesis using run(1, 3) by blast
qed

text \<open>
  C35: A module that gdb rejects.  In a session that starts as above, when the modules before it load cleanly and gdb fails
  to execute the command for its first suitable file, the session ends without an exception, with the modules before it
  loaded and the callbacks paused: no object file that is loaded later completes a callback, so the values that depend on
  one stay unavailable.
\<close>

theorem session_rejected_module:
  assumes "session_starts env w args sn ck" and "se_release env = Inr release" and "se_modules env = gen_of_list (ms @ m # ms')"
    and "list_all (loads_cleanly (se_fs env) (se_gdb env) ck) ms" and "gdb_rejects (se_fs env) (se_gdb env) ck m"
  shows "\<exists>op1 mods ld. session_init env w args sn = (Inr (), \<lparr>sn_open = op1, sn_modules = mods, sn_load = ld\<rparr>) \<and>
    ls_commands ld = ls_commands (sn_load sn) @ map snd (List.map_filter (picked (se_fs env) (se_gdb env) ck) ms) \<and>
    paused (ls_cb ld) \<and> (\<forall>w'. new_objfile w' (ls_cb ld) = (ls_cb ld, None))"
proof -
  obtain op1 ld1 it2 where st: "stages_done env w args sn ck op1 ld1 it2" "find_ok (se_fs env) (ls_find ld1)"
    "ls_commands ld1 = ls_commands (sn_load sn)"
    using session_stages [OF assms(1)] by blast
  let ?ld1 = "ld1\<lparr>ls_cb := it_cb it2\<rparr>" and ?ld0 = "ld1\<lparr>ls_cb := pause (it_cb it2)\<rparr>"
  have "debug_ok (se_gdb env)" using assms(1) by (simp add: session_starts_def)
  then obtain ld where ld: "load_each (se_fs env) (se_gdb env) (w_modules w) ck (ms @ m # ms') 0 0 ?ld0 = (Inl CrashKernelError, ld)"
    "ls_commands ld = ls_commands ld1 @ map snd (List.map_filter (picked (se_fs env) (se_gdb env) ck) ms)"
    using load_each_rejected [OF _ _ _ assms(4, 5), of ?ld0 "w_modules w" ms'] st(2) by (auto simp: pause_def)
  have "paused (ls_cb ld)" using load_each_paused [OF _ ld(1)] by (simp add: pause_def)
  moreover have "catches CrashKernelError CrashKernelError" by code_simp
  then have "session_modules env w (tg_crashing (op_target op1)) ck ?ld1 = (Inr (), ld)"
    using ld(1) assms(2, 3) by (simp add: session_modules_def load_modules_def)
  ultimately show ?thesis using session_init_stages [OF st(1)] ld(2) st(3) new_objfile_paused by metis
qed

theorem session_rejected_module_witness:
  "\<exists>op1 mods ld. session_init (ex_session_env (ex_genv\<lparr>ge_execute := (\<lambda>_. Inl GdbError)\<rparr>)) ex_outcomes ex_paths ex_session =
     (Inr (), \<lparr>sn_open = op1, sn_modules = mods, sn_load = ld\<rparr>) \<and> ls_commands ld = [] \<and>
     new_objfile (\<lambda>_. Called Done) (ls_cb ld) = (ls_cb ld, None)"
proof -
  let ?ge = "ex_genv\<lparr>ge_execute := (\<lambda>_. Inl GdbError)\<rparr>"
  let ?env = "ex_session_env ?ge"
  have "ge_symbols ?ge = (\<lambda>_ _. True)" "ge_filename ?ge = Some" "debug_ok ?ge" by (simp_all add: ex_genv_def debug_ok_def)
  note starts = ex_session_starts [OF this]
  have env: "se_release ?env = Inr ''1''" "se_modules ?env = gen_of_list ([] @ ex_module ''a_b'' # [ex_module ''c'', ex_module ''d''])"
    "se_fs ?env = ex_fs" "se_gdb ?env = ?ge"
    by (simp_all add: ex_session_env_def)
  have "gdb_rejects ex_fs ?ge ex_ck (ex_module ''a_b'')" by code_simp
  then show ?thesis
    using session_rejected_module [OF starts env(1, 2)] unfolding env(3, 4) by (auto simp: ex_session_def ex_load_def map_filter_simps)
qed

end
