(* ===== verification/Kmem.thy ===== *)
theory Kmem
  imports Kmem_Cache Ps
begin

text \<open>
  The command \<open>kmem\<close>: \<^verbatim>\<open>crash/commands/kmem.py\<close>, and the parts of \<^verbatim>\<open>crash/types/slab.py\<close> that only it uses: the slab of
  a page or of an object, and the headers and object lists of a slab.

  The command is a generator of the lines it prints.  A slab is seen through the operations the command uses, which
  both allocators provide.
\<close>

section \<open>Slabs as the command sees them\<close>

text \<open>The slab after \<open>populate_free\<close> and, for SLUB, \<open>slub_process_once\<close>.\<close>

record slab_ops =
  so_address :: addr
  so_cache_name :: string
  so_object_size :: int
  so_short_header :: string
  so_long_header :: string
  so_objects :: "string list"
  so_contains :: "int \<Rightarrow> (bool \<times> int \<times> string option) res"
  so_in_use :: "int \<Rightarrow> bool \<times> string option"

definition py_0x :: "int \<Rightarrow> string" where
  "py_0x n = ''0x'' @ py_hexi n"

definition outside_desc :: string where
  "outside_desc = ''address outside of valid object range''"

definition ac_desc :: "ac_entry \<Rightarrow> string" where
  "ac_desc d = (case ac_kind d of
       AC_PERCPU \<Rightarrow> ''cpu '' @ py_dec (ac_nid_tgt d) @ '' cache''
     | AC_SHARED \<Rightarrow> ''shared cache on node '' @ py_dec (ac_nid_tgt d)
     | AC_ALIEN \<Rightarrow> ''alien cache on node '' @ py_dec (ac_nid_src d) @ '' for node '' @ py_dec (ac_nid_tgt d))"

text \<open>SLAB: both headers are the address, and \<open>print_objects\<close> prints nothing.\<close>

definition ops_of_slab :: "array_caches \<Rightarrow> int \<Rightarrow> slab \<Rightarrow> slab_ops" where
  "ops_of_slab acs object_size sl =
     \<lparr>so_address = sl_address sl, so_cache_name = sc_name (sl_cache sl), so_object_size = object_size,
      so_short_header = py_0x (sl_address sl), so_long_header = py_0x (sl_address sl), so_objects = [],
      so_contains = (\<lambda>a. bindR (contains_obj sl a) (\<lambda>(b, ob). Inr (b, ob, if b then None else Some outside_desc))),
      so_in_use = (\<lambda>a. case obj_in_use acs sl a of (b, d) \<Rightarrow> (b, map_option ac_desc d))\<rparr>"

definition slub_desc :: "contains_desc \<Rightarrow> string" where
  "slub_desc d = (case d of
       OutsideRange \<Rightarrow> outside_desc
     | LeftRedZone \<Rightarrow> ''address inside left red zone padding''
     | BehindObject \<Rightarrow> ''address inside metadata behind object'')"

definition slub_short_header :: "slub_cache \<Rightarrow> slub \<Rightarrow> string" where
  "slub_short_header c u = py_0x (ul_address u) @ '' ('' @ slab_role c u @ '')''"

definition slub_long_header :: "slub_cache \<Rightarrow> slub \<Rightarrow> string" where
  "slub_long_header c u = slub_short_header c u @ '' objects '' @ py_dec (ul_nr_objects u) @ '' active '' @
     py_dec (ul_nr_inuse u) @ '' free '' @ py_dec (ul_nr_free u) @ '' base addr '' @ py_0x (ul_base_address u)"

definition slub_object_line :: "slub_cache \<Rightarrow> slub \<Rightarrow> int \<Rightarrow> string" where
  "slub_object_line c u ob = (case map_of (uc_cpu_freelists c) ob of
       Some d \<Rightarrow> ''  '' @ py_0x ob @ ''  ('' @ d @ '')''
     | None \<Rightarrow> if ob \<in> ul_free u then ''  '' @ py_0x ob else '' ['' @ py_0x ob @ '']'')"

definition slub_print_objects :: "slub_cache \<Rightarrow> slub \<Rightarrow> string list" where
  "slub_print_objects c u = ''  FREE / [ALLOCATED]'' # map (slub_object_line c u) (slub_get_objects c u)"

definition ops_of_slub :: "slub_cache \<Rightarrow> slub \<Rightarrow> slab_ops" where
  "ops_of_slub c u =
     \<lparr>so_address = ul_address u, so_cache_name = uc_name c, so_object_size = uc_object_size c,
      so_short_header = slub_short_header c u, so_long_header = slub_long_header c u,
      so_objects = slub_print_objects c u,
      so_contains = (\<lambda>a. bindR (slub_contains_obj c u a) (\<lambda>(b, ob, d). Inr (b, ob, map_option slub_desc d))),
      so_in_use = slub_obj_in_use c u\<rparr>"

section \<open>Finding a slab\<close>

text \<open>
  What the command uses: the caches with their names and what \<open>check_all\<close> and \<open>list_all\<close> print; the pages; whether the
  allocator is SLUB, and for SLAB whether a slab is its page; and the slab of a cache at a page or at an address.
\<close>

record 'c kmem_env =
  ke_registry :: "'c kmem_registry"
  ke_name :: "'c \<Rightarrow> string"
  ke_check_all :: "'c \<Rightarrow> string gen"
  ke_list_all :: "nat \<Rightarrow> 'c \<Rightarrow> string gen"
  ke_cfg :: page_cfg
  ke_pages :: page_env
  ke_mem :: page_mem
  ke_slub :: bool
  ke_page_slab :: bool
  ke_slab_of_page :: "page \<Rightarrow> 'c \<Rightarrow> slab_ops res"
  ke_slab_at :: "addr \<Rightarrow> 'c \<Rightarrow> slab_ops res"

definition slub_from_page :: "'c kmem_env \<Rightarrow> page \<Rightarrow> slab_ops res" where
  "slub_from_page env p = bindR (of_option GdbMemoryError (ke_mem env (pg_address p))) (\<lambda>f.
     bindR (kmem_cache_from_addr (ke_registry env) (pf_slab_cache f)) (ke_slab_of_page env p))"

definition slab_from_page_slab :: "'c kmem_env \<Rightarrow> page \<Rightarrow> slab_ops res" where
  "slab_from_page_slab env p = bindR (get_slab_cache (ke_cfg env) (ke_mem env) p) (\<lambda>a.
     bindR (kmem_cache_from_addr (ke_registry env) a) (\<lambda>c.
     if ke_page_slab env then ke_slab_of_page env p c
     else bindR (get_slab_page (ke_cfg env) (ke_mem env) p) (\<lambda>sa. ke_slab_at env sa c)))"

definition slab_from_page :: "'c kmem_env \<Rightarrow> page \<Rightarrow> slab_ops res" where
  "slab_from_page env p = (if ke_slub env then slub_from_page env p else slab_from_page_slab env p)"

definition slab_from_obj_addr :: "'c kmem_env \<Rightarrow> addr \<Rightarrow> slab_ops option res" where
  "slab_from_obj_addr env a =
     bindR (page_from_addr (ke_cfg env) (ke_pages env) (ke_mem env) a) (\<lambda>p.
     bindR (compound_head (ke_cfg env) (ke_pages env) (ke_mem env) p) (\<lambda>h.
     if \<not> is_slab (ke_cfg env) h then Inr None
     else bindR (slab_from_page env h) (\<lambda>s. Inr (Some s))))"

definition find_kmem_cache :: "'c kmem_env \<Rightarrow> string \<Rightarrow> 'c option" where
  "find_kmem_cache env query = (case kmem_cache_from_name (ke_registry env) query of
       Inr c \<Rightarrow> Some c
     | Inl e \<Rightarrow> (case safe_int query of
          None \<Rightarrow> None
        | Some a \<Rightarrow> (case kmem_cache_from_addr (ke_registry env) a of Inr c \<Rightarrow> Some c | Inl e \<Rightarrow> None)))"

section \<open>The command\<close>

record kmem_args =
  ka_slabcheck :: bool
  ka_slablist :: nat
  ka_z :: bool
  ka_V :: bool
  ka_address :: "string option"

definition slab_details :: "slab_ops \<Rightarrow> string list" where
  "slab_details s = [[], ''Slab details: '' @ so_long_header s] @ so_objects s"

text \<open>
  The line on an address of a slab.  \<open>contains_obj\<close> gives the object 0, not \<open>None\<close>, for an address outside of all
  objects, so the line for an invalid address always names an object.
\<close>

definition object_line :: "slab_ops \<Rightarrow> addr \<Rightarrow> int \<Rightarrow> string" where
  "object_line s a ob = (case so_in_use s ob of (used, details) \<Rightarrow>
     (if used then ''ALLOCATED'' else ''FREE'') @ (case details of None \<Rightarrow> [] | Some d \<Rightarrow> '' (in '' @ d @ '')'') @
     '' object '' @ py_0x ob @
     (if a - ob = 0 then [] else '' offset '' @ py_0x (a - ob) @ '' ('' @ py_dec (a - ob) @ '')'') @
     '' size '' @ py_0x (so_object_size s) @ '' ('' @ py_dec (so_object_size s) @ '') from cache '' @ so_cache_name s @
     '' slab '' @ so_short_header s)"

definition invalid_line :: "slab_ops \<Rightarrow> int \<Rightarrow> string option \<Rightarrow> string" where
  "invalid_line s ob reason = ''INVALID address on slab '' @ py_0x (so_address s) @ '' from cache '' @ so_cache_name s @
     '' object '' @ py_0x ob @ (case reason of None \<Rightarrow> [] | Some r \<Rightarrow> '' ('' @ r @ '')'')"

definition address_report :: "kmem_args \<Rightarrow> addr \<Rightarrow> slab_ops \<Rightarrow> string gen" where
  "address_report args a s = gen_try (so_contains s a) (\<lambda>(valid, ob, reason).
     gen_of_list ((if valid then object_line s a ob else invalid_line s ob reason) #
       (if ka_slablist args > 0 then slab_details s else [])))"

definition page_report :: "'c kmem_env \<Rightarrow> kmem_args \<Rightarrow> addr \<Rightarrow> page \<Rightarrow> string gen" where
  "page_report env args a p = gen_yields
     [py_0x a @ '' belongs to a struct page '' @ py_0x (pg_address p) @ '' pfn '' @ py_dec (pg_pfn p)]
     (gen_try (compound_head (ke_cfg env) (ke_pages env) (ke_mem env) p) (\<lambda>h.
        if is_slab (ke_cfg env) h
        then gen_try (slab_from_page env p) (\<lambda>s. gen_of_list
          ((if ka_slabcheck args \<or> ka_slablist args > 0
            then [''page belongs to cache '' @ so_cache_name s @ '' slab '' @ so_short_header s] else []) @
           (if ka_slablist args > 0 then slab_details s else [])))
        else gen_done))"

definition kmem_address :: "'c kmem_env \<Rightarrow> kmem_args \<Rightarrow> string gen" where
  "kmem_address env args = (case ka_address args of
       None \<Rightarrow> gen_raise CommandLineError
     | Some q \<Rightarrow>
         if q = [] then gen_raise CommandLineError
         else (case safe_int q of
             None \<Rightarrow> gen_raise CommandLineError
           | Some a \<Rightarrow> gen_try (safe_page_from_page_addr (ke_cfg env) (ke_pages env) (ke_mem env) a) (\<lambda>p. case p of
                Some p \<Rightarrow> page_report env args a p
              | None \<Rightarrow> gen_try (slab_from_obj_addr env a) (\<lambda>s. case s of
                   None \<Rightarrow> gen_raise CommandError
                 | Some s \<Rightarrow> address_report args a s))))"

definition check_all_caches :: "'c kmem_env \<Rightarrow> string gen" where
  "check_all_caches env = gen_yields [''Checking all kmem caches...'']
     (gen_seq (gen_for (kmem_cache_get_all (ke_registry env)) (\<lambda>c. gen_yields [ke_name env c] (ke_check_all env c)))
       (gen_of_list [''Checking done.'']))"

definition check_one_cache :: "'c kmem_env \<Rightarrow> string \<Rightarrow> 'c \<Rightarrow> string gen" where
  "check_one_cache env q c = gen_yields [''Checking kmem cache '' @ q]
     (gen_seq (ke_check_all env c) (gen_of_list [''Checking done.'']))"

definition list_all_caches :: "'c kmem_env \<Rightarrow> nat \<Rightarrow> string gen" where
  "list_all_caches env level = gen_yields [''Listing all kmem caches...'']
     (gen_for (kmem_cache_get_all (ke_registry env)) (ke_list_all env level))"

definition kmem_slabs :: "'c kmem_env \<Rightarrow> kmem_args \<Rightarrow> string gen" where
  "kmem_slabs env args =
     (if ka_slabcheck args \<and> ka_address args = None then check_all_caches env
      else if ka_slabcheck args \<and> find_kmem_cache env (the (ka_address args)) \<noteq> None
      then check_one_cache env (the (ka_address args)) (the (find_kmem_cache env (the (ka_address args))))
      else if ka_slablist args > 0 \<and> ka_address args = None then list_all_caches env (ka_slablist args)
      else if ka_slablist args > 0 \<and> find_kmem_cache env (the (ka_address args)) \<noteq> None
      then ke_list_all env (ka_slablist args) (the (find_kmem_cache env (the (ka_address args))))
      else kmem_address env args)"

section \<open>Statistics\<close>

text \<open>
  \<open>__print_vmstat\<close>: the number of an item is its value plus the differences of the CPUs, the differences in parentheses.
  The names are as many as the items, or else the loop ends with an \<^verbatim>\<open>IndexError\<close>.
\<close>

definition vmstat_line :: "nat \<Rightarrow> string \<Rightarrow> int \<Rightarrow> int \<Rightarrow> string" where
  "vmstat_line just name v d = rjust just name @ '': '' @ py_dec v @ '' ('' @ py_dec d @ '')''"

fun vmstat_lines :: "nat \<Rightarrow> nat \<Rightarrow> string list \<Rightarrow> int list \<Rightarrow> int list \<Rightarrow> string gen" where
  "vmstat_lines 0 just names vs ds = gen_done"
| "vmstat_lines (Suc n) just names vs ds = (case (names, vs, ds) of
       (name # names', v # vs', d # ds') \<Rightarrow> gen_yields [vmstat_line just name v d] (vmstat_lines n just names' vs' ds')
     | _ \<Rightarrow> gen_raise IndexError)"

definition print_vmstat :: "vmstat_state \<Rightarrow> int list \<Rightarrow> int list \<Rightarrow> string gen" where
  "print_vmstat st vmstat diffs =
     (if vm_stat_names st = [] then gen_raise ValueError
      else vmstat_lines (nat (nr_stat_items st)) (Max (set (map length (vm_stat_names st)))) (vm_stat_names st)
        (map (\<lambda>(v, d). v + d) (zip vmstat diffs)) diffs)"

text \<open>What the statistics are read from; \<open>vs_vm_stat\<close> is the symbol and its elements.\<close>

record vmstat_env =
  vs_state :: vmstat_state
  vs_vm_stat :: "(int \<Rightarrow> int res) res"
  vs_populated_zones :: "zone gen"
  vs_add_diffs :: "zone \<Rightarrow> int list \<Rightarrow> int list res"
  vs_events :: "int list res"

fun sum_zone_diffs :: "vmstat_env \<Rightarrow> zone list \<Rightarrow> int list \<Rightarrow> int list res" where
  "sum_zone_diffs env [] ds = Inr ds"
| "sum_zone_diffs env (z # zs) ds = bindR (vs_add_diffs env z ds) (sum_zone_diffs env zs)"

definition event_lines :: "string list \<Rightarrow> int list \<Rightarrow> string gen" where
  "event_lines names vs = (if names = [] then gen_raise ValueError
     else gen_of_list (map (\<lambda>(n, v). rjust (Max (set (map length names))) n @ '': '' @ py_dec v) (zip names vs)))"

definition print_vmstats :: "vmstat_env \<Rightarrow> string gen" where
  "print_vmstats env = (case vs_vm_stat env of
       Inl e \<Rightarrow> gen_raise (if catches MissingSymbolError e then CommandError else e)
     | Inr vm_stat \<Rightarrow> gen_yields [''  VM_STAT:'']
         (gen_try (mapR vm_stat [0..nr_stat_items (vs_state env) - 1]) (\<lambda>stats.
          gen_try (gen_to_list (vs_populated_zones env)) (\<lambda>zs.
          gen_try (sum_zone_diffs env zs (replicate (nat (nr_stat_items (vs_state env))) 0)) (\<lambda>diffs.
          gen_seq (print_vmstat (vs_state env) stats diffs)
            (gen_yields [[], ''  VM_EVENT_STATES:''] (gen_try (vs_events env) (event_lines (vm_event_names (vs_state env)))))))))) "

text \<open>\<open>print_zones\<close>, with what it prints of a zone and of the check of its free pages.\<close>

record zones_env =
  zs_zones :: "zone gen"
  zs_name :: "zone \<Rightarrow> string res"
  zs_populated :: "zone \<Rightarrow> bool res"
  zs_vmstat :: "zone \<Rightarrow> int list res"
  zs_diffs :: "zone \<Rightarrow> int list res"
  zs_check :: "zone \<Rightarrow> string gen"

definition zone_header :: "zone \<Rightarrow> string \<Rightarrow> string" where
  "zone_header z name = ''NODE: '' @ py_dec (zn_nid z) @ ''  ZONE: '' @ py_dec (zn_zid z) @ ''  ADDR: '' @
     py_hexi (zn_address z) @ ''  NAME: '' @ [CHR 0x22] @ name @ [CHR 0x22]"

definition print_zone :: "vmstat_state \<Rightarrow> zones_env \<Rightarrow> zone \<Rightarrow> string gen" where
  "print_zone st env z = gen_try (zs_name env z) (\<lambda>name. gen_yields [zone_header z name]
     (gen_try (zs_populated env z) (\<lambda>p.
        if \<not> p then gen_of_list [''  [unpopulated]'', []]
        else gen_yields [''  VM_STAT:'']
          (gen_try (zs_vmstat env z) (\<lambda>vs. gen_try (zs_diffs env z) (\<lambda>ds.
             gen_seq (print_vmstat st vs ds) (gen_yields [[]] (zs_check env z))))))))"

definition print_zones :: "vmstat_state \<Rightarrow> zones_env \<Rightarrow> string gen" where
  "print_zones st env = gen_bind (zs_zones env) (print_zone st env)"

definition kmem_execute :: "'c kmem_env \<Rightarrow> vmstat_env \<Rightarrow> zones_env \<Rightarrow> kmem_args \<Rightarrow> string gen" where
  "kmem_execute env venv zenv args =
     (if ka_z args then print_zones (vs_state venv) zenv
      else if ka_V args then print_vmstats venv
      else kmem_slabs env args)"

section \<open>What the command prints\<close>

lemma slub_line_allocated:
  assumes "ob \<in> set (slub_get_objects c u)"
  shows "slub_object_line c u ob = '' ['' @ py_0x ob @ '']'' \<longleftrightarrow> ob \<in> set (slub_get_allocated_objects c u)"
  using assms
  by (auto simp: slub_object_line_def slub_get_allocated_objects_def slub_obj_in_use_def split: option.splits)

lemma slub_in_use_allocated:
  "ob \<in> set (slub_get_objects c u) \<Longrightarrow>
   fst (so_in_use (ops_of_slub c u) ob) \<longleftrightarrow> ob \<in> set (slub_get_allocated_objects c u)"
  by (simp add: ops_of_slub_def slub_get_allocated_objects_def)

lemma vmstat_lines_zip:
  "length names = n \<Longrightarrow> length vs = n \<Longrightarrow> length ds = n \<Longrightarrow>
   vmstat_lines n just names vs ds = gen_of_list (map (\<lambda>(name, v, d). vmstat_line just name v d) (zip names (zip vs ds)))"
proof (induction n arbitrary: names vs ds)
  case (Suc n)
  then obtain name names' v vs' d ds' where "names = name # names'" "vs = v # vs'" "ds = d # ds'"
    by (metis length_Suc_conv)
  then show ?case using Suc by (simp add: gen_simps)
qed (simp add: gen_simps)

lemma kmem_address_slab:
  assumes "ka_address args = Some q" and "q \<noteq> []" and "safe_int q = Some a"
    and "safe_page_from_page_addr (ke_cfg env) (ke_pages env) (ke_mem env) a = Inr None"
    and "slab_from_obj_addr env a = Inr (Some s)"
  shows "kmem_address env args = address_report args a s"
  using assms by (simp add: kmem_address_def)

text \<open>With \<open>-s\<close> and \<open>-S\<close> the query is first looked up as a cache, by its name and then by its address.\<close>

definition queried_cache :: "'c kmem_env \<Rightarrow> kmem_args \<Rightarrow> string \<Rightarrow> 'c option" where
  "queried_cache env args q = (if ka_slabcheck args \<or> ka_slablist args > 0 then find_kmem_cache env q else None)"

lemma kmem_slabs_query:
  "ka_address args = Some q \<Longrightarrow> kmem_slabs env args = (case queried_cache env args q of
     Some k \<Rightarrow> if ka_slabcheck args then check_one_cache env q k else ke_list_all env (ka_slablist args) k
   | None \<Rightarrow> kmem_address env args)"
  by (auto simp: kmem_slabs_def queried_cache_def)

section \<open>Properties\<close>


definition ex_kmem_env :: "unit kmem_env" where
  "ex_kmem_env = \<lparr>ke_registry = \<lparr>by_name = [(''kmalloc-32'', ())], by_addr = [(64, ())]\<rparr>, ke_name = (\<lambda>_. ''kmalloc-32''),
     ke_check_all = (\<lambda>_. gen_done), ke_list_all = (\<lambda>_ _. gen_done),
     ke_cfg = page_init\<lparr>directmap_base := 4096, vmemmap_base := 2 ^ 20, vmemmap := Some (2 ^ 20), PG_slab := 1, PG_tail := 2,
       is_tail_kind := Some TailFlag\<rparr>,
     ke_pages = \<lparr>page_sizeof = 64, section_mem_map = (\<lambda>_ _. Inl GdbMemoryError), max_pfn = 1000\<rparr>,
     ke_mem = (\<lambda>_. Some \<lparr>pf_flags = 1, pf_compound_head = 0, pf_first_page = 0, pf_mapping = 0, pf_lru_next = 0, pf_lru_prev = 0,
       pf_slab_cache = 64, pf_slab_page = 0\<rparr>),
     ke_slub = True, ke_page_slab = True,
     ke_slab_of_page = (\<lambda>_ _. Inr (ops_of_slub ex_slub_cache ex_slub)), ke_slab_at = (\<lambda>_ _. Inl GdbMemoryError)\<rparr>"

lemma ex_kmem_slab: "slab_from_obj_addr ex_kmem_env 4186 = Inr (Some (ops_of_slub ex_slub_cache ex_slub))"
  by (simp add: slab_from_obj_addr_def ex_kmem_env_def page_from_addr_def pfn_to_page_def pfn_to_page_addr_def page_init_def
      Page_new_def compound_head_def is_tail_def is_slab_def slab_from_page_def slub_from_page_def kmem_cache_from_addr_def ptr_add_def)

lemma ex_kmem_objects: "4176 \<in> set (slub_get_objects ex_slub_cache ex_slub)"
  "4176 \<in> set (slub_get_allocated_objects ex_slub_cache ex_slub)"
  by code_simp+

lemma ex_kmem_query: "safe_int ''4186'' = Some 4186"
  by code_simp

lemma ex_kmem_cache: "0 < uc_size ex_slub_cache" "0 \<le> red_left_pad ex_slub_cache"
    "red_left_pad ex_slub_cache + uc_inuse ex_slub_cache \<le> uc_size ex_slub_cache" "(4176::int) \<noteq> 0" "(4176::int) \<le> 4186"
    "4186 < 4176 + uc_inuse ex_slub_cache"
  by (simp_all add: ex_slub_cache_def red_left_pad_def SLAB_RED_ZONE_def)

lemma ex_kmem_query_no_cache: "find_kmem_cache ex_kmem_env ''4186'' = None"
  by (simp add: find_kmem_cache_def kmem_cache_from_name_def kmem_cache_from_addr_def ex_kmem_query ex_kmem_env_def)


text \<open>A query is the name of a cache before it is an address.\<close>

theorem find_kmem_cache_name:
  "map_of (by_name (ke_registry env)) q = Some c \<Longrightarrow> find_kmem_cache env q = Some c"
  by (simp add: find_kmem_cache_def kmem_cache_from_name_def)

text \<open>
  The statistics of a zone: one line for each item, in order, with the value corrected by the differences of the CPUs.
\<close>

theorem print_vmstat_items:
  assumes "length (vm_stat_names st) = nat (nr_stat_items st)" and "0 < nr_stat_items st"
    and "length vs = nat (nr_stat_items st)" and "length ds = nat (nr_stat_items st)"
  shows "print_vmstat st vs ds = gen_of_list (map (\<lambda>(name, v, d).
      vmstat_line (Max (length ` set (vm_stat_names st))) name (v + d) d) (zip (vm_stat_names st) (zip vs ds)))"
proof -
  have "zip (map (\<lambda>(v, d). v + d) (zip vs ds)) ds = map (\<lambda>(v, d). (v + d, d)) (zip vs ds)" for vs ds :: "int list"
    by (induction vs ds rule: list_induct2') auto
  then show ?thesis using assms vmstat_lines_zip [of "vm_stat_names st" "nat (nr_stat_items st)" "map (\<lambda>(v, d). v + d) (zip vs ds)" ds]
    by (auto simp: print_vmstat_def zip_map2 case_prod_beta' comp_def)
qed

end
