(* ===== verification/Commands.thy ===== *)
theory Commands
  imports Kmem Filesystem Fnmatch "HOL-Library.Char_ord" "HOL-Library.List_Lexorder" "HOL-Library.Product_Lexorder"
begin

text \<open>
  Commands: the base class of \<^verbatim>\<open>crash/commands/__init__.py\<close> and the commands \<open>help\<close>, \<open>task\<close>, \<open>dev\<close>, \<open>sys\<close>, \<open>btrfs\<close>,
  \<open>lsmod\<close>, \<open>cgroup\<close> and \<open>kernfs\<close>.

  A command is a generator of the lines it prints.  The parsing of the arguments by \<^verbatim>\<open>argparse\<close> is a parameter of
  \<open>invoke\<close>; the commands take the parsed arguments.
\<close>

section \<open>The base class\<close>

text \<open>What \<open>invoke\<close> prints: the lines of the command, the report of an exception, and the usage.\<close>

datatype cmd_out = Line string | Report string exc | Unavailable string exc | UsageOf string

definition invoke_uncaught :: "string list res \<Rightarrow> (string list \<Rightarrow> 'a res) \<Rightarrow> ('a \<Rightarrow> string gen) \<Rightarrow> string gen" where
  "invoke_uncaught argv parse_args execute = gen_try (bindR argv parse_args) execute"

definition invoke :: "string \<Rightarrow> string list res \<Rightarrow> (string list \<Rightarrow> 'a res) \<Rightarrow> ('a \<Rightarrow> string gen) \<Rightarrow> cmd_out gen" where
  "invoke name argv parse_args execute = (case invoke_uncaught argv parse_args execute of (lines, exn) \<Rightarrow>
     gen_yields (map Line lines) (case exn of
       None \<Rightarrow> gen_done
     | Some e \<Rightarrow>
         if catches CommandError e then gen_of_list [Report name e]
         else if catches CommandLineError e then gen_of_list [Report name e, UsageOf name]
         else if catches DelayedAttributeError e then gen_of_list [Unavailable name e]
         else if catches SystemExit e \<or> catches KeyboardInterrupt e then gen_done
         else gen_raise e))"

text \<open>\<open>Command.__init__\<close>: the parser is of the right class, another object, or missing.\<close>

datatype parser_arg = NoParser | CommandParser | OtherParser

type_synonym 'c commands = "(string \<times> 'c) list"

definition command_name :: "string \<Rightarrow> string" where
  "command_name name = ''py'' @ name"

definition command_new :: "string \<Rightarrow> parser_arg \<Rightarrow> 'c \<Rightarrow> 'c commands \<Rightarrow> 'c commands res" where
  "command_new name parser c cmds =
     (if parser = OtherParser then Inl ArgumentTypeError else Inr (AList.update (command_name name) c cmds))"

text \<open>\<open>ArgumentParser\<close>: a name is required; the help text is a file, or else the generic text.\<close>

definition parser_new :: "string \<Rightarrow> unit res" where
  "parser_new prog = (if prog = [] then Inl CommandError else Inr ())"

definition format_help :: "string option \<Rightarrow> (string \<Rightarrow> string res) \<Rightarrow> string \<Rightarrow> string \<Rightarrow> string res" where
  "format_help help_dir rd generic prog =
     (case bindR (of_option KeyError help_dir) (\<lambda>d. rd (d @ ''/commands/'' @ prog @ ''.txt'')) of
        Inr text \<Rightarrow> Inr text
      | Inl e \<Rightarrow>
          if catches KeyError e \<or> catches FileNotFoundError e
          then Inr (''Could not locate help file.'' @ [CHR 0x0A] @ ''Generic help text follows.'' @ [CHR 0x0A, CHR 0x0A] @ generic)
          else Inl e)"

section \<open>help and task\<close>

text \<open>A command with its documentation string and the result of \<open>format_help\<close>.\<close>

record command =
  cm_doc :: "string option"
  cm_help :: "string res"

definition command_summary :: "command \<Rightarrow> string" where
  "command_summary c = (let s = (case cm_doc c of None \<Rightarrow> [] | Some d \<Rightarrow> py_strip d)
     in if s = [] then ''no help text provided'' else s)"

definition help_execute :: "command commands \<Rightarrow> string list \<Rightarrow> string gen" where
  "help_execute cmds args =
     (if args = []
      then gen_of_list (''Available commands:'' #
        map (\<lambda>name. ljust 15 name @ '' - '' @ command_summary (the (map_of cmds name))) (sort (map fst cmds)))
      else gen_for args (\<lambda>name. case bindR (of_option KeyError (map_of cmds name)) cm_help of
          Inr text \<Rightarrow> gen_of_list [py_strip text]
        | Inl e \<Rightarrow> gen_raise (if catches KeyError e then CommandError else e)))"

text \<open>\<open>task\<close>: the command for gdb, from the number of the thread of the task.\<close>

definition task_execute :: "task_cache \<Rightarrow> (linux_task \<Rightarrow> int res) \<Rightarrow> int res \<Rightarrow> (string \<Rightarrow> unit res) \<Rightarrow> int list \<Rightarrow> string gen" where
  "task_execute tasks thread_num selected gdb_execute args =
     (case bindR (if args \<noteq> [] then bindR (get_task (hd args) tasks) thread_num else selected)
        (\<lambda>n. gdb_execute (''thread '' @ py_dec n)) of
        Inr _ \<Rightarrow> gen_done
      | Inl e \<Rightarrow>
          if catches KeyError e
          then (if args = [] then gen_raise IndexError else gen_of_list [''No such task with pid '' @ py_dec (hd args)])
          else gen_raise e)"

section \<open>dev, sys and btrfs\<close>

definition zfill :: "nat \<Rightarrow> string \<Rightarrow> string" where
  "zfill w s = replicate (w - length s) CHR ''0'' @ s"

definition dev_header :: string where
  "dev_header = center 5 ''MAJOR'' @ '' '' @ center 16 ''GENDISK'' @ '' '' @ center 10 ''NAME'' @ '' '' @ center 16 ''REQUEST_QUEUE'' @ '' '' @
     center 5 ''TOTAL'' @ '' '' @ center 5 ''ASYNC'' @ '' '' @ center 5 ''SYNC'' @ '' '' @ center 5 ''DRV''"

record disk_info =
  di_major :: int
  di_address :: addr
  di_name :: string
  di_queue :: addr
  di_stats :: "(int \<times> int) \<times> (int \<times> int)"

definition dev_line :: "disk_info \<Rightarrow> string" where
  "dev_line d = (case di_stats d of ((a, s), (da, ds)) \<Rightarrow>
     rjust 5 (py_dec (di_major d)) @ '' '' @ zfill 16 (py_hexi (di_address d)) @ '' '' @ ljust 10 (di_name d) @ '' '' @
     zfill 16 (py_hexi (di_queue d)) @ '' '' @ rjust 5 (py_dec (a + s)) @ '' '' @ rjust 5 (py_dec a) @ '' '' @
     rjust 5 (py_dec s) @ '' '' @ rjust 5 (py_dec (da + ds)))"

definition dev_execute :: "'d gen \<Rightarrow> ('d \<Rightarrow> disk_info res) \<Rightarrow> bool \<Rightarrow> string gen" where
  "dev_execute disks info d =
     (if d then gen_yields [dev_header] (gen_bind disks (\<lambda>x. gen_try (info x) (\<lambda>i. gen_of_list [dev_line i]))) else gen_done)"

text \<open>\<open>sys\<close>: the values of the system caches, as strings, and the text of the configuration.\<close>

record sys_values =
  sy_uptime :: "string res"
  sy_loadavg :: "string res"
  sy_utsname :: "string \<Rightarrow> string res"
  sy_config :: "string res"

definition sys_default :: "sys_values \<Rightarrow> string gen" where
  "sys_default v = gen_for
     [(''      UPTIME: '', sy_uptime v), (''LOAD AVERAGE: '', sy_loadavg v), (''    NODENAME: '', sy_utsname v ''nodename''),
      (''     RELEASE: '', sy_utsname v ''release''), (''     VERSION: '', sy_utsname v ''version''),
      (''     MACHINE: '', sy_utsname v ''machine'')] (\<lambda>(label, r). gen_try r (\<lambda>s. gen_of_list [label @ s]))"

definition sys_execute :: "sys_values \<Rightarrow> string option \<Rightarrow> string gen" where
  "sys_execute v config = (case config of
       None \<Rightarrow> sys_default v
     | Some c \<Rightarrow>
         if c = [] then sys_default v
         else if c = ''config'' then gen_try (sy_config v) (\<lambda>s. gen_of_list [s])
         else gen_raise CommandLineError)"

text \<open>\<open>btrfs list\<close>: the superblocks with their types, devices and identifiers.\<close>

record fs_info =
  fi_address :: addr
  fi_type :: string
  fi_device :: string
  fi_fsid :: "string res"
  fi_metadata_uuid :: "string res"

definition tab :: string where
  "tab = [CHR 0x09]"

fun list_btrfs_loop :: "bool \<Rightarrow> bool \<Rightarrow> fs_info list \<Rightarrow> string gen \<times> bool" where
  "list_btrfs_loop m header [] = (gen_done, header)"
| "list_btrfs_loop m header (sb # sbs) =
     (if fi_type sb \<noteq> ''btrfs'' then list_btrfs_loop m header sbs
      else (case (if m then fi_metadata_uuid sb else fi_fsid sb) of
          Inl e \<Rightarrow> (gen_raise e, header)
        | Inr u \<Rightarrow> (case list_btrfs_loop m False sbs of (g, h) \<Rightarrow>
            (gen_yields ((if header then [''SUPER BLOCK'' @ tab @ tab @ ''DEVICE'' @ tab @ tab @ (if m then ''METADATA UUID'' else ''FSID'')] else []) @
               [py_0x (fi_address sb) @ tab @ fi_device sb @ tab @ tab @ u]) g, h))))"

definition list_btrfs :: "bool \<Rightarrow> fs_info gen \<Rightarrow> string gen" where
  "list_btrfs m sbs = (case list_btrfs_loop m True (fst sbs) of (g, header) \<Rightarrow>
     gen_seq (gen_seq g ([], snd sbs)) (gen_of_list (if header then [''No btrfs file systems were mounted.''] else [])))"

definition subcommand_execute :: "string gen option \<Rightarrow> string gen" where
  "subcommand_execute sub = (case sub of None \<Rightarrow> gen_raise CommandLineError | Some g \<Rightarrow> g)"

section \<open>lsmod\<close>

text \<open>What the command reads of a module; \<open>mo_uses\<close> are the names of the modules on its \<open>source_list\<close>.\<close>

record module_info =
  mo_name :: "string res"
  mo_has_core_layout :: bool
  mo_core_layout :: "(int \<times> int) res"
  mo_module_core :: "(int \<times> int) res"
  mo_percpu :: int
  mo_percpu_size :: int
  mo_percpu_at :: "int \<Rightarrow> int res"
  mo_uses :: "string gen"

definition module_percpu_line :: "module_info \<Rightarrow> string \<Rightarrow> int \<Rightarrow> string gen" where
  "module_percpu_line m name cpu =
     (if mo_percpu m = 0 then gen_done
      else gen_try (if cpu \<noteq> - 1 then mo_percpu_at m cpu else Inr (mo_percpu m)) (\<lambda>a.
        gen_of_list [ljust 16 name @ tab @ py_0x a @ (if cpu \<noteq> - 1 then tab @ tab else tab @ tab @ tab) @ py_dec (mo_percpu_size m)]))"

definition module_line :: "module_info \<Rightarrow> string \<Rightarrow> bool \<Rightarrow> string gen" where
  "module_line m name core_layout =
     gen_try (if core_layout then mo_core_layout m else mo_module_core m) (\<lambda>(a, sz).
     gen_try (gen_to_list (mo_uses m)) (\<lambda>uses.
     gen_of_list [ljust 16 name @ tab @ py_0x a @ tab @ py_dec sz @ tab @ py_dec (int (length uses)) @
       (if uses = [] then [] else '' '' @ py_join '','' uses)]))"

definition lsmod_header :: "int option \<Rightarrow> string" where
  "lsmod_header p = (case p of
       None \<Rightarrow> ''Module'' @ tab @ tab @ tab @ ''Address'' @ tab @ tab @ tab @ ''Size'' @ tab @ ''Used by''
     | Some cpu \<Rightarrow>
         if cpu = - 1 then ''Module'' @ tab @ tab @ tab @ ''Percpu Base'' @ tab @ tab @ ''Size''
         else ''Module'' @ tab @ tab @ tab @ ''Percpu Base@CPU'' @ py_dec cpu @ tab @ tab @ ''Size'')"

text \<open>\<open>core_layout\<close> is that of the first module, \<open>print_header\<close> is cleared by the first module that matches.\<close>

fun lsmod_loop :: "(string \<Rightarrow> bool) \<Rightarrow> int option \<Rightarrow> bool option \<Rightarrow> bool \<Rightarrow> module_info list \<Rightarrow> string gen" where
  "lsmod_loop matches p core_layout header [] = gen_done"
| "lsmod_loop matches p core_layout header (m # ms) =
     (let cl = (case core_layout of None \<Rightarrow> mo_has_core_layout m | Some b \<Rightarrow> b)
      in gen_try (mo_name m) (\<lambda>name.
           if \<not> matches name then lsmod_loop matches p (Some cl) header ms
           else gen_seq (gen_yields (if header then [lsmod_header p] else [])
               (case p of Some cpu \<Rightarrow> module_percpu_line m name cpu | None \<Rightarrow> module_line m name cl))
             (lsmod_loop matches p (Some cl) False ms)))"

definition lsmod_execute :: "int option \<Rightarrow> string list \<Rightarrow> module_info gen \<Rightarrow> string gen" where
  "lsmod_execute p args mods = gen_seq
     (lsmod_loop (if args = [] then (\<lambda>_. True) else fnmatch (hd args)) p None True (fst mods)) ([], snd mods)"

section \<open>cgroup\<close>

text \<open>A hierarchy, and for a task the group in it with its path.\<close>

record hierarchy =
  hi_id :: int
  hi_address :: addr
  hi_mask :: int
  hi_name :: string

definition cgroup_controllers :: "subsys \<Rightarrow> hierarchy \<Rightarrow> string list res" where
  "cgroup_controllers ss h = bindR (subsys_mask_to_names ss (hi_mask h)) (\<lambda>names.
     Inr (names @ (if hi_name h = [] then [] else [''name='' @ hi_name h])))"

definition cgroup_task_line :: "hierarchy \<Rightarrow> string list \<Rightarrow> addr \<times> string \<Rightarrow> string" where
  "cgroup_task_line h controllers cg = rjust 12 (py_dec (hi_id h)) @ '' '' @ zfill 16 (py_hexi (hi_address h)) @ '' '' @
     ljust 32 (py_join '','' controllers) @ '' '' @ zfill 16 (py_hexi (fst cg)) @ '' '' @ ljust 20 (snd cg)"

definition cgroup_task_header :: string where
  "cgroup_task_header = center 12 ''hierarchy_id'' @ '' '' @ center 16 ''cgroup_root'' @ '' '' @ center 32 ''controllers/name'' @ '' '' @
     center 16 ''cgroup'' @ '' '' @ center 20 ''path''"

text \<open>Every \<^verbatim>\<open>KeyError\<close> of the body is reported as a missing task.\<close>

definition rename_exc :: "exc \<Rightarrow> exc \<Rightarrow> 'a gen \<Rightarrow> 'a gen" where
  "rename_exc c e' g = (fst g, map_option (\<lambda>e. if catches c e then e' else e) (snd g))"

definition cgroup_show_task ::
  "subsys \<Rightarrow> task_cache \<Rightarrow> hierarchy gen \<Rightarrow> (linux_task \<Rightarrow> hierarchy \<Rightarrow> (addr \<times> string) res) \<Rightarrow> int \<Rightarrow> string gen" where
  "cgroup_show_task ss tasks hs cgroup_of pid = rename_exc KeyError CommandError
     (gen_try (get_task pid tasks) (\<lambda>t. gen_yields [cgroup_task_header]
        (gen_try (gen_to_list hs) (\<lambda>l. gen_for (sort_key hi_id l) (\<lambda>h.
           gen_try (cgroup_controllers ss h) (\<lambda>cs. gen_try (cgroup_of t h) (\<lambda>cg. gen_of_list [cgroup_task_line h cs cg])))))))"

definition cgroup_show_tasks :: "(addr \<Rightarrow> int res) \<Rightarrow> addr gen \<Rightarrow> string gen" where
  "cgroup_show_tasks pid_of tasks = gen_yields [center 10 ''PID'' @ '' '' @ center 16 ''task_struct'']
     (gen_try (gen_to_list tasks) (\<lambda>ts. gen_try (mapR (\<lambda>t. bindR (pid_of t) (\<lambda>p. Inr (p, t))) ts) (\<lambda>ps.
        gen_of_list (map (\<lambda>(p, t). rjust 10 (py_dec p) @ '' '' @ zfill 16 (py_hexi t)) (sort_key fst ps)))))"

record subsys_info =
  su_name :: string
  su_hierarchy_id :: int
  su_nr_cgrps :: int
  su_address :: addr
  su_root :: addr

definition controller_line :: "subsys_info \<Rightarrow> string" where
  "controller_line s = ljust 16 (su_name s) @ '' '' @ rjust 16 (py_dec (su_hierarchy_id s)) @ '' '' @ rjust 16 (py_dec (su_nr_cgrps s)) @
     '' '' @ zfill 16 (py_hexi (su_address s)) @ '' '' @ zfill 16 (py_hexi (su_root s))"

definition cgroup_show_controllers :: "subsys_info gen \<Rightarrow> string gen" where
  "cgroup_show_controllers sss = gen_yields
     [center 16 ''subsys'' @ '' '' @ center 16 ''hierarchy_id'' @ '' '' @ center 16 ''num_cgroups'' @ '' '' @ center 16 ''cgroup_subsys'' @ '' '' @
      center 16 ''cgroup_root'']
     (gen_bind sss (\<lambda>s. gen_of_list [controller_line s]))"

text \<open>The options: a missing one is \<open>False\<close>; \<open>-s\<close> and \<open>-c\<close> are tested for their truth.\<close>

record cgroup_args =
  ca_t :: "int option"
  ca_g :: "addr option"
  ca_s :: "int option"
  ca_c :: bool

definition cgroup_execute :: "(int \<Rightarrow> string gen) \<Rightarrow> (addr \<Rightarrow> string gen) \<Rightarrow> string gen \<Rightarrow> cgroup_args \<Rightarrow> string gen" where
  "cgroup_execute show_task show_tasks controllers args = (case ca_t args of
       Some pid \<Rightarrow> show_task pid
     | None \<Rightarrow> (case ca_g args of
          Some a \<Rightarrow> show_tasks a
        | None \<Rightarrow>
            if ca_s args \<noteq> None \<and> ca_s args \<noteq> Some 0 then gen_raise NotImplementedError
            else if ca_c args then gen_raise NotImplementedError
            else controllers))"

section \<open>kernfs\<close>

definition KERNFS_LINK :: int where
  "KERNFS_LINK = 4"

record kn_info =
  ki_name :: string
  ki_flags :: int
  ki_mode :: int

text \<open>The nodes, and the children of a directory as \<open>for_each_child\<close> gives them.\<close>

record kernfs_env =
  kl_node :: "addr \<Rightarrow> kn_info res"
  kl_children :: "addr \<Rightarrow> addr gen res"

definition is_kn_dir :: "kn_info \<Rightarrow> bool" where
  "is_kn_dir n \<longleftrightarrow> ki_flags n AND KERNFS_DIR \<noteq> 0"

fun py_oct :: "nat \<Rightarrow> string" where
  "py_oct n = (if n < 8 then [char_of (48 + n)] else py_oct (n div 8) @ [char_of (48 + n mod 8)])"

declare py_oct.simps [simp del]

definition show_one_kn :: "addr \<Rightarrow> kn_info \<Rightarrow> string" where
  "show_one_kn a n = ''    '' @ (if is_kn_dir n then ''d'' else '' '') @ (if ki_flags n AND KERNFS_LINK \<noteq> 0 then ''l'' else '' '') @ ''    '' @
     zfill 3 (py_oct (nat (ki_mode n AND 0x1ff))) @ '' '' @ ljust 32 (ki_name n) @ '' '' @ zfill 16 (py_hexi a)"

text \<open>The children, each with what is read of it: in the order of the tree, or directories first and by name.\<close>

definition ls_children :: "kernfs_env \<Rightarrow> bool \<Rightarrow> addr \<Rightarrow> (addr \<times> kn_info) gen" where
  "ls_children env f kn = gen_try (kl_children env kn) (\<lambda>g.
     let h = gen_bind g (\<lambda>c. gen_try (kl_node env c) (\<lambda>n. gen_of_list [(c, n)]))
     in if f then gen_try (gen_to_list h) (\<lambda>cs. gen_of_list (sort_key (\<lambda>(c, n). (\<not> is_kn_dir n, ki_name n)) cs)) else h)"

text \<open>One directory: what is printed, and its subdirectories.\<close>

definition ls_one :: "kernfs_env \<Rightarrow> bool \<Rightarrow> string \<Rightarrow> addr \<Rightarrow> string gen \<times> addr list" where
  "ls_one env f prefix kn = (let cs = ls_children env f kn
     in (gen_yields [prefix @ '':''] (gen_seq (gen_bind cs (\<lambda>(c, n). gen_of_list [show_one_kn c n])) (gen_of_list [[]])),
         map fst (filter (\<lambda>(c, n). is_kn_dir n) (fst cs))))"

text \<open>
  \<open>_ls_dir\<close> calls itself for the subdirectories; the directories that are still to be listed, with their depths and
  prefixes, are a stack here.  A negative depth never becomes 0.
\<close>

definition ls_step :: "kernfs_env \<Rightarrow> bool \<Rightarrow> (addr \<times> int \<times> string) list \<Rightarrow> ((addr \<times> int \<times> string) list, string) step" where
  "ls_step env f stack = (case stack of
       [] \<Rightarrow> Stop [] None
     | (kn, depth, prefix) # rest \<Rightarrow> (case kl_node env kn of
          Inl e \<Rightarrow> Stop [] (Some e)
        | Inr n \<Rightarrow>
            (let prefix' = prefix @ ki_name n @ ''/''; (g, subdirs) = ls_one env f prefix' kn
             in case snd g of
                  Some e \<Rightarrow> Stop (fst g) (Some e)
                | None \<Rightarrow> Next (fst g) ((if depth \<noteq> 0 then map (\<lambda>s. (s, depth - 1, prefix')) subdirs else []) @ rest))))"

definition ls_header :: string where
  "ls_header = center 6 ''flags'' @ '' '' @ center 6 ''mode'' @ '' '' @ center 32 ''name'' @ '' '' @ center 16 ''kernfs_node''"

definition command_ls :: "kernfs_env \<Rightarrow> bool \<Rightarrow> int \<Rightarrow> addr \<Rightarrow> string gen option" where
  "command_ls env f depth kn = (case kl_node env kn of
       Inl e \<Rightarrow> Some (gen_raise e)
     | Inr n \<Rightarrow>
         if \<not> is_kn_dir n then Some (gen_raise CommandError)
         else map_option (gen_yields [ls_header]) (gen_while (ls_step env f) [(kn, depth, [])]))"

section \<open>Listing a kernfs tree\<close>

text \<open>
  The listing as a recursion over the tree, \<open>d\<close> levels deep: a directory with its children, then each of its
  subdirectories in the order of their lines.
\<close>

fun ls_tree :: "kernfs_env \<Rightarrow> bool \<Rightarrow> nat \<Rightarrow> string \<Rightarrow> addr \<Rightarrow> string gen" where
  "ls_tree env f d prefix kn = gen_try (kl_node env kn) (\<lambda>n.
     let prefix' = prefix @ ki_name n @ ''/''; (g, subdirs) = ls_one env f prefix' kn
     in gen_seq g (case d of 0 \<Rightarrow> gen_done | Suc d' \<Rightarrow> gen_for subdirs (ls_tree env f d' prefix')))"

declare ls_tree.simps [simp del]

text \<open>A tree without cycles: a rank falls from every directory to its subdirectories.\<close>

definition ranked :: "kernfs_env \<Rightarrow> bool \<Rightarrow> (addr \<Rightarrow> nat) \<Rightarrow> bool" where
  "ranked env f r \<longleftrightarrow> (\<forall>kn. \<forall>s \<in> set (snd (ls_one env f [] kn)). r s < r kn)"

definition depth_covers :: "kernfs_env \<Rightarrow> bool \<Rightarrow> (addr \<Rightarrow> nat) \<Rightarrow> int \<Rightarrow> addr \<Rightarrow> nat \<Rightarrow> bool" where
  "depth_covers env f r depth kn d \<longleftrightarrow> depth = int d \<or> depth < 0 \<and> ranked env f r \<and> r kn \<le> d"

text \<open>A generator, then the rest of a loop, which does not run after an exception.\<close>

definition run_then :: "'a gen \<Rightarrow> 'a gen option \<Rightarrow> 'a gen option" where
  "run_then g r = (case snd g of Some e \<Rightarrow> Some g | None \<Rightarrow> map_option (gen_yields (fst g)) r)"

lemma run_then_done [simp]: "run_then gen_done r = r"
  by (cases r) (simp_all add: run_then_def gen_simps)

lemma run_then_raise [simp]: "run_then (gen_raise e) r = Some (gen_raise e)"
  by (simp add: run_then_def)

lemma run_then_seq: "run_then (gen_seq g h) r = run_then g (run_then h r)"
  by (cases r) (auto simp: run_then_def gen_seq_def gen_simps split: option.splits)

lemma run_then_end: "run_then g (Some gen_done) = Some g"
  by (cases g) (auto simp: run_then_def gen_yields_def split: option.splits)

lemma ls_one_subdirs: "snd (ls_one env f prefix kn) = snd (ls_one env f [] kn)"
  by (simp add: ls_one_def Let_def)

lemma depth_covers_sub:
  assumes "depth_covers env f r depth kn (Suc d)" "s \<in> set (snd (ls_one env f prefix kn))"
  shows "depth_covers env f r (depth - 1) s d"
proof -
  have "s \<in> set (snd (ls_one env f [] kn))" using assms(2) by (simp add: ls_one_subdirs [of env f prefix])
  then have "r s < r kn" if "ranked env f r" using that unfolding ranked_def by blast
  then show ?thesis using assms(1) by (auto simp: depth_covers_def)
qed

lemma depth_covers_0:
  assumes "depth_covers env f r depth kn 0" "depth \<noteq> 0"
  shows "snd (ls_one env f prefix kn) = []"
proof -
  have "ranked env f r" "r kn = 0" using assms by (auto simp: depth_covers_def)
  then have "set (snd (ls_one env f [] kn)) = {}" unfolding ranked_def by (metis all_not_in_conv not_less0)
  then show ?thesis by (simp add: ls_one_subdirs [of env f prefix])
qed

lemma ls_stack_for:
  assumes "\<And>s rest. s \<in> set ss \<Longrightarrow> gen_while (ls_step env f) ((s, k, p) # rest) = run_then (h s) (gen_while (ls_step env f) rest)"
  shows "gen_while (ls_step env f) (map (\<lambda>s. (s, k, p)) ss @ rest) = run_then (gen_for ss h) (gen_while (ls_step env f) rest)"
  using assms by (induction ss) (simp_all add: run_then_seq)

lemma ls_pop:
  assumes "kl_node env kn = Inr n" "ls_one env f (prefix @ ki_name n @ ''/'') kn = (g, ss)"
  shows "gen_while (ls_step env f) ((kn, depth, prefix) # rest) = run_then g
    (gen_while (ls_step env f) ((if depth \<noteq> 0 then map (\<lambda>s. (s, depth - 1, prefix @ ki_name n @ ''/'')) ss else []) @ rest))"
proof (cases g)
  case (Pair xs e)
  then show ?thesis using assms
    by (cases e) (simp_all add: gen_while_Stop gen_while_Next ls_step_def run_then_def)
qed

lemma ls_pop_raise:
  "kl_node env kn = Inl e \<Longrightarrow> gen_while (ls_step env f) ((kn, depth, prefix) # rest) = Some (gen_raise e)"
  by (simp add: gen_while_Stop ls_step_def gen_raise_def)

lemma ls_run:
  assumes "depth_covers env f r depth kn d"
  shows "gen_while (ls_step env f) ((kn, depth, prefix) # rest) =
    run_then (ls_tree env f d prefix kn) (gen_while (ls_step env f) rest)"
  using assms
proof (induction d arbitrary: kn depth prefix rest)
  case 0
  show ?case
  proof (cases "kl_node env kn")
    case (Inr n)
    obtain g ss where one: "ls_one env f (prefix @ ki_name n @ ''/'') kn = (g, ss)" by (metis surj_pair)
    moreover have "depth \<noteq> 0 \<Longrightarrow> ss = []" using depth_covers_0 [OF 0] one by (metis snd_conv)
    ultimately show ?thesis using Inr ls_pop [OF Inr one]
      by (simp add: ls_tree.simps [of env f 0] run_then_seq)
  qed (simp add: ls_pop_raise ls_tree.simps [of env f 0])
next
  case (Suc d)
  show ?case
  proof (cases "kl_node env kn")
    case (Inr n)
    let ?p = "prefix @ ki_name n @ ''/''"
    obtain g ss where one: "ls_one env f ?p kn = (g, ss)" by (metis surj_pair)
    have nz: "depth \<noteq> 0" using Suc.prems by (auto simp: depth_covers_def)
    have "gen_while (ls_step env f) (map (\<lambda>s. (s, depth - 1, ?p)) ss @ rest) =
        run_then (gen_for ss (ls_tree env f d ?p)) (gen_while (ls_step env f) rest)"
    proof (rule ls_stack_for)
      fix s rest assume "s \<in> set ss"
      then have "depth_covers env f r (depth - 1) s d" using depth_covers_sub [OF Suc.prems] one by (metis snd_conv)
      then show "gen_while (ls_step env f) ((s, depth - 1, ?p) # rest) =
          run_then (ls_tree env f d ?p s) (gen_while (ls_step env f) rest)" by (rule Suc.IH)
    qed
    moreover have "ls_tree env f (Suc d) prefix kn = gen_seq g (gen_for ss (ls_tree env f d ?p))"
      using Inr one by (simp add: ls_tree.simps [of env f "Suc d"])
    ultimately show ?thesis using ls_pop [OF Inr one] nz by (simp add: run_then_seq)
  qed (simp add: ls_pop_raise ls_tree.simps [of env f "Suc d"])
qed


definition ex_kernfs :: kernfs_env where
  "ex_kernfs = \<lparr>kl_node = (\<lambda>a. Inr \<lparr>ki_name = replicate (nat a) CHR ''a'', ki_flags = (if a < 4 then 1 else 2), ki_mode = 73\<rparr>),
     kl_children = (\<lambda>a. Inr (gen_of_list (if a = 1 then [4, 3, 2] else if a = 2 then [5] else [])))\<rparr>"


section \<open>Reports of the commands\<close>

text \<open>The exceptions that \<open>invoke\<close> turns into a report, or into silence.\<close>

definition translated :: "exc \<Rightarrow> bool" where
  "translated e \<longleftrightarrow> (\<exists>c \<in> {CommandError, CommandLineError, DelayedAttributeError, SystemExit, KeyboardInterrupt}. catches c e)"

lemma invoke_translates:
  assumes "invoke_uncaught argv parse_args execute = (lines, exn)"
  shows "snd (invoke name argv parse_args execute) = (case exn of None \<Rightarrow> None | Some e \<Rightarrow> if translated e then None else Some e)"
    and "\<exists>report. fst (invoke name argv parse_args execute) = map Line lines @ report \<and> (exn = None \<longrightarrow> report = []) \<and> length report \<le> 2"
  using assms by (auto simp: invoke_def translated_def split: option.splits)

text \<open>
  \<open>help\<close> after commands were created in any order: each name is listed once, in ascending order, with the summary of the
  command that was created last under it.
\<close>

definition register_all :: "(string \<times> command) list \<Rightarrow> command commands" where
  "register_all cs = foldl (\<lambda>d c. AList.update (command_name (fst c)) (snd c) d) [] cs"

lemma register_all_new:
  "foldR (\<lambda>c d. command_new (fst c) CommandParser (snd c) d) cs [] = Inr (register_all cs)"
proof -
  have "foldR (\<lambda>c d. command_new (fst c) CommandParser (snd c) d) cs d =
      Inr (foldl (\<lambda>d c. AList.update (command_name (fst c)) (snd c) d) d cs)" for d
    by (induction cs arbitrary: d) (simp_all add: command_new_def)
  then show ?thesis by (simp add: register_all_def)
qed

lemma help_lists_commands:
  shows "map_of (register_all cs) = map_of (rev (map (\<lambda>(n, c). (command_name n, c)) cs))"
    and "\<exists>names. sorted names \<and> distinct names \<and> set names = command_name ` fst ` set cs \<and>
      help_execute (register_all cs) [] = gen_of_list (''Available commands:'' #
        map (\<lambda>name. ljust 15 name @ '' - '' @ command_summary (the (map_of (register_all cs) name))) names)"
proof -
  let ?f = "\<lambda>(n, c). (command_name n, c)"
  have fold: "register_all cs = foldl (\<lambda>d kv. AList.update (fst kv) (snd kv) d) [] (map ?f cs)"
    by (simp add: register_all_def foldl_map case_prod_beta)
  show keys: "map_of (register_all cs) = map_of (rev (map ?f cs))" unfolding fold map_of_foldl_update by simp
  have "distinct (map fst d) \<Longrightarrow> distinct (map fst (foldl (\<lambda>d c. AList.update (command_name (fst c)) (snd c) d) d cs))" for d :: "command commands"
    by (induction cs arbitrary: d) (simp_all add: distinct_update)
  then have "distinct (map fst (register_all cs))" by (simp add: register_all_def)
  moreover have "set (map fst (register_all cs)) = command_name ` fst ` set cs"
  proof -
    have "set (map fst (register_all cs)) = dom (map_of (register_all cs))" by (simp add: dom_map_of_conv_image_fst)
    also have "\<dots> = fst ` set (map ?f cs)" by (simp add: keys dom_map_of_conv_image_fst)
    finally show ?thesis by (simp add: image_image case_prod_beta)
  qed
  ultimately show "\<exists>names. sorted names \<and> distinct names \<and> set names = command_name ` fst ` set cs \<and>
      help_execute (register_all cs) [] = gen_of_list (''Available commands:'' #
        map (\<lambda>name. ljust 15 name @ '' - '' @ command_summary (the (map_of (register_all cs) name))) names)"
    by (intro exI [of _ "sort (map fst (register_all cs))"]) (simp add: help_execute_def)
qed

text \<open>
  \<open>lsmod\<close> over readable modules: the header once, before the lines of exactly the matching modules, in their order.
\<close>

definition module_lines :: "int option \<Rightarrow> bool \<Rightarrow> module_info \<Rightarrow> string gen" where
  "module_lines p cl m = gen_try (mo_name m) (\<lambda>name. case p of Some cpu \<Rightarrow> module_percpu_line m name cpu | None \<Rightarrow> module_line m name cl)"

lemma lsmod_loop_lines:
  assumes "\<forall>m \<in> set ms. mo_name m = Inr (nm m) \<and> mo_has_core_layout m = cl" "c = None \<or> c = Some cl"
  shows "lsmod_loop P p c h ms = gen_yields (if h \<and> filter (\<lambda>m. P (nm m)) ms \<noteq> [] then [lsmod_header p] else [])
    (gen_for (filter (\<lambda>m. P (nm m)) ms) (module_lines p cl))"
  using assms
proof (induction ms arbitrary: c h)
  case (Cons m ms)
  then have name: "mo_name m = Inr (nm m)" and cl: "(case c of None \<Rightarrow> mo_has_core_layout m | Some b \<Rightarrow> b) = cl" by auto
  have IH: "lsmod_loop P p (Some cl) h' ms = gen_yields (if h' \<and> filter (\<lambda>m. P (nm m)) ms \<noteq> [] then [lsmod_header p] else [])
    (gen_for (filter (\<lambda>m. P (nm m)) ms) (module_lines p cl))" for h'
    using Cons by simp
  have "module_lines p cl m = (case p of Some cpu \<Rightarrow> module_percpu_line m (nm m) cpu | None \<Rightarrow> module_line m (nm m) cl)"
    by (simp add: module_lines_def name)
  then show ?case by (simp add: name cl IH gen_simps)
qed (simp add: gen_simps)

lemma lsmod_lists_modules:
  assumes "\<forall>m \<in> set ms. mo_name m = Inr (nm m) \<and> mo_has_core_layout m = cl"
    and "ms' = filter (\<lambda>m. args = [] \<or> fnmatch (hd args) (nm m)) ms"
  shows "lsmod_execute p args (gen_of_list ms) =
    gen_yields (if ms' = [] then [] else [lsmod_header p]) (gen_for ms' (module_lines p cl))"
proof -
  let ?P = "if args = [] then (\<lambda>_. True) else fnmatch (hd args)"
  have "ms' = filter (\<lambda>m. ?P (nm m)) ms" using assms(2) by simp
  then have "lsmod_loop ?P p None True ms = gen_yields (if ms' = [] then [] else [lsmod_header p]) (gen_for ms' (module_lines p cl))"
    using lsmod_loop_lines [OF assms(1), of None ?P p True] by simp
  moreover have "gen_seq g ([], None) = g" for g :: "string gen"
    by (cases g) (simp add: gen_seq_def gen_yields_def split: option.splits)
  ultimately show ?thesis by (simp add: lsmod_execute_def)
qed

end
