(* ===== verification/Vtop.thy ===== *)
theory Vtop
  imports Kmem Target
begin

text \<open>
  Address translation: \<^verbatim>\<open>crash/addrxlat.py\<close> and \<^verbatim>\<open>crash/commands/vtop.py\<close>.

  The translation itself is done by libaddrxlat.  What the code uses of it is a parameter: the search in the maps of
  translation methods, and the object \<open>Step\<close> that walks the page tables, with its operations \<open>launch\<close> and \<open>step\<close>.  A call
  of \<open>step\<close> changes the object also when it raises.
\<close>

section \<open>The translation context\<close>

datatype sym_type = SYM_VALUE | SYM_SIZEOF | SYM_OFFSETOF | SYM_OTHER

text \<open>Addresses of minimal symbols, types of variables and typedefs, types of structures, and the callback of the base class.\<close>

record sym_env =
  ct_minimal :: "string \<Rightarrow> int option"
  ct_symbol :: "string \<Rightarrow> gtype option"
  ct_struct :: "string \<Rightarrow> gtype option"
  ct_super :: "sym_type \<Rightarrow> string list \<Rightarrow> int res"

definition py_arg :: "string list \<Rightarrow> nat \<Rightarrow> string res" where
  "py_arg args i = of_option IndexError (if i < length args then Some (args ! i) else None)"

definition cb_sym :: "sym_env \<Rightarrow> sym_type \<Rightarrow> string list \<Rightarrow> int res" where
  "cb_sym env ty args = (case ty of
       SYM_VALUE \<Rightarrow> bindR (py_arg args 0) (\<lambda>a. case ct_minimal env a of Some v \<Rightarrow> Inr v | None \<Rightarrow> ct_super env ty args)
     | SYM_SIZEOF \<Rightarrow> bindR (py_arg args 0) (\<lambda>a. case ct_symbol env a of
           Some t \<Rightarrow> Inr (int (gt_sizeof t)) | None \<Rightarrow> ct_super env ty args)
     | SYM_OFFSETOF \<Rightarrow> bindR (py_arg args 0) (\<lambda>a.
         case (case ct_struct env a of Some t \<Rightarrow> Some t | None \<Rightarrow> ct_symbol env a) of
           None \<Rightarrow> ct_super env ty args
         | Some t \<Rightarrow> bindR (py_arg args 1) (\<lambda>m. bindR (offsetof t m True) (\<lambda>ret.
             if ret = None then Inl RuntimeError else ct_super env ty args)))
     | SYM_OTHER \<Rightarrow> ct_super env ty args)"

text \<open>The callbacks that read memory, with what gdb reads at an address for a size in bytes.\<close>

definition cb_read32 :: "(nat \<Rightarrow> int \<Rightarrow> int res) \<Rightarrow> int \<Rightarrow> int res" where
  "cb_read32 rd a = rd 4 a"

definition cb_read64 :: "(nat \<Rightarrow> int \<Rightarrow> int res) \<Rightarrow> int \<Rightarrow> int res" where
  "cb_read64 rd a = rd 8 a"

text \<open>A method is linear with an offset, or of another kind; a range may have none.\<close>

datatype meth_kind = Linear int | OtherKind

fun is_non_auto :: "('m \<Rightarrow> meth_kind) \<Rightarrow> 'm option list \<Rightarrow> bool" where
  "is_non_auto get_meth [] = False"
| "is_non_auto get_meth (None # rs) = is_non_auto get_meth rs"
| "is_non_auto get_meth (Some m # rs) = (if get_meth m \<noteq> Linear 0 then True else is_non_auto get_meth rs)"

text \<open>The context and system of the dump file, or new ones when the target has none; a missing target is not caught.\<close>

definition translation_new :: "current_target \<Rightarrow> 'x res \<Rightarrow> 'x res \<Rightarrow> 'x res" where
  "translation_new tgt kdumpfile os_init = (case bindR (check_target tgt) (\<lambda>_. kdumpfile) of
       Inr x \<Rightarrow> Inr x
     | Inl e \<Rightarrow> if catches AttributeError e then os_init else Inl e)"

section \<open>Walking the page tables\<close>

record xstep =
  sp_remain :: int
  sp_base :: int
  sp_idx :: "int list"
  sp_elemsz :: int
  sp_raw :: int

record 'm xlat_env =
  xl_hw :: "int \<Rightarrow> 'm option"
  xl_kv_phys :: "int \<Rightarrow> 'm option"
  xl_launch :: "'m \<Rightarrow> int \<Rightarrow> xstep res"
  xl_step :: "xstep \<Rightarrow> exc option \<times> xstep"
  xl_phys :: "int \<Rightarrow> int res"
  xl_machine_phys :: "int \<Rightarrow> int res"
  xl_non_auto :: bool

definition table_names :: "string list" where
  "table_names = [''PTE'', ''PMD'', ''PUD'', ''PGD'']"

definition pgt_begin :: "'m xlat_env \<Rightarrow> int \<Rightarrow> xstep option res" where
  "pgt_begin env a = (case (case xl_hw env a of Some m \<Rightarrow> Some m | None \<Rightarrow> xl_kv_phys env a) of
       None \<Rightarrow> Inr None
     | Some m \<Rightarrow> bindR (xl_launch env m a) (\<lambda>s. Inr (Some s)))"

text \<open>\<open>next\<close>: no more tables, or the name of the table, the address of its entry, the note and the step afterwards.\<close>

definition pgt_next :: "'m xlat_env \<Rightarrow> xstep \<Rightarrow> (string \<times> int \<times> string \<times> xstep) option res" where
  "pgt_next env s =
     (if sp_remain s \<le> 1 then Inr None
      else let level = nat (sp_remain s - 1)
           in if length table_names < level then Inl IndexError
              else if length (sp_idx s) \<le> level then Inl IndexError
              else let a = sp_base s + sp_idx s ! level * sp_elemsz s
                   in case xl_step env s of
                        (None, s') \<Rightarrow> Inr (Some (table_names ! (level - 1), a, [], s'))
                      | (Some e, s') \<Rightarrow>
                          if catches AddrxlatNotPresentError e
                          then Inr (Some (table_names ! (level - 1), a, '' (NOT PRESENT)'', s'\<lparr>sp_remain := 0\<rparr>))
                          else Inl e)"

definition pgt_address :: "'m xlat_env \<Rightarrow> int \<Rightarrow> string res" where
  "pgt_address env a = (let s = rjust 16 (py_hexi a)
     in if \<not> xl_non_auto env then Inr s
        else case xl_machine_phys env a of
            Inr p \<Rightarrow> Inr (s @ '' [machine], '' @ py_hexi p @ '' [phys]'')
          | Inl e \<Rightarrow> if catches AddrxlatNotPresentError e \<or> catches AddrxlatNoDataError e
              then Inr (s @ '' [machine], N/A'') else Inl e)"

definition pgt_value :: "xstep \<Rightarrow> string \<Rightarrow> string" where
  "pgt_value s note = py_hexi (sp_raw s) @ note"

section \<open>The command\<close>

definition table_line :: "string \<Rightarrow> string \<Rightarrow> string \<Rightarrow> string" where
  "table_line name a v = rjust 4 name @ '': '' @ a @ '' => '' @ v"

text \<open>The loop over the tables, and the line for the page after it.\<close>

definition vtop_step :: "'m xlat_env \<Rightarrow> xstep \<Rightarrow> (xstep, string) step" where
  "vtop_step env s = (case pgt_next env s of
       Inl e \<Rightarrow> Stop [] (Some e)
     | Inr None \<Rightarrow>
         if sp_remain s = 0 then Stop [] None
         else (case pgt_address env (sp_base s) of
             Inl e \<Rightarrow> Stop [] (Some e)
           | Inr a \<Rightarrow> Stop [''PAGE: '' @ a] None)
     | Inr (Some (name, p, note, s')) \<Rightarrow> (case pgt_address env p of
          Inl e \<Rightarrow> Stop [] (Some e)
        | Inr a \<Rightarrow> Next [table_line name a (pgt_value s' note)] s'))"

definition vtop_walk :: "'m xlat_env \<Rightarrow> int \<Rightarrow> string gen option" where
  "vtop_walk env a = (case pgt_begin env a of
       Inl e \<Rightarrow> Some (gen_raise e)
     | Inr None \<Rightarrow> Some (gen_of_list [''NO TRANSLATION''])
     | Inr (Some s) \<Rightarrow> gen_while (vtop_step env) s)"

definition vtop_header :: "'m xlat_env \<Rightarrow> int \<Rightarrow> string gen" where
  "vtop_header env a = gen_yields [ljust 16 ''VIRTUAL'' @ ''  '' @ ljust 16 ''PHYSICAL'']
     (gen_try (case xl_phys env a of
          Inr p \<Rightarrow> Inr (py_hexi p)
        | Inl e \<Rightarrow> if catches AddrxlatError e then Inr ''---'' else Inl e)
       (\<lambda>phys. gen_of_list [ljust 16 (py_hexi a) @ ''  '' @ ljust 16 phys, []]))"

definition vtop_one :: "'m xlat_env \<Rightarrow> string \<Rightarrow> string gen option" where
  "vtop_one env arg = (case py_int arg 16 of
       Inl e \<Rightarrow> Some (gen_raise (if catches ValueError e then CommandLineError else e))
     | Inr a \<Rightarrow> (let h = vtop_header env a
         in if snd h \<noteq> None then Some h
            else map_option (\<lambda>g. gen_seq h (gen_seq g (gen_of_list [[]]))) (vtop_walk env a)))"

fun vtop_args :: "'m xlat_env \<Rightarrow> string list \<Rightarrow> string gen option" where
  "vtop_args env [] = Some gen_done"
| "vtop_args env (arg # args) = Option.bind (vtop_one env arg) (\<lambda>g.
     if snd g \<noteq> None then Some g else map_option (gen_seq g) (vtop_args env args))"

definition vtop_execute :: "'m xlat_env res \<Rightarrow> bool \<Rightarrow> string list \<Rightarrow> string gen option" where
  "vtop_execute xlat c args =
     (if c then Some (gen_raise CommandError)
      else case xlat of Inl e \<Rightarrow> Some (gen_raise e) | Inr env \<Rightarrow> vtop_args env args)"

section \<open>The walk ends and shows every level\<close>

text \<open>What libaddrxlat documents of \<open>step\<close>: the number of remaining steps falls.\<close>

definition steps_fall :: "'m xlat_env \<Rightarrow> bool" where
  "steps_fall env \<longleftrightarrow> (\<forall>s e s'. xl_step env s = (e, s') \<longrightarrow> sp_remain s' < sp_remain s)"

lemma pgt_next_falls:
  assumes "steps_fall env" "pgt_next env s = Inr (Some (name, a, note, s'))"
  shows "1 < sp_remain s \<and> sp_remain s' < sp_remain s"
  using assms by (auto simp: pgt_next_def Let_def steps_fall_def split: if_splits prod.splits option.splits)

lemma vtop_walk_ends:
  assumes "steps_fall env"
  shows "\<exists>g. gen_while (vtop_step env) s = Some g"
proof (rule gen_while_terminates [where I = "\<lambda>_. True" and m = "\<lambda>s. nat (sp_remain s)"])
  fix s ys s' assume "vtop_step env s = Next ys s'"
  then obtain name a nt where "pgt_next env s = Inr (Some (name, a, nt, s'))"
    by (auto simp: vtop_step_def split: sum.splits option.splits if_splits)
  then show "True \<and> nat (sp_remain s') < nat (sp_remain s)" using pgt_next_falls [OF assms] by fastforce
qed simp

text \<open>The lines of a walk through the steps of a list, each with one step less to go than the one before.\<close>

fun walk_lines :: "'m xlat_env \<Rightarrow> xstep \<Rightarrow> xstep list \<Rightarrow> string list" where
  "walk_lines env s [] = [''PAGE: '' @ rjust 16 (py_hexi (sp_base s))]"
| "walk_lines env s (s' # ss) = (let l = length ss + 1 in
     table_line (table_names ! (l - 1)) (rjust 16 (py_hexi (sp_base s + sp_idx s ! l * sp_elemsz s))) (py_hexi (sp_raw s')) #
     walk_lines env s' ss)"

fun walks :: "'m xlat_env \<Rightarrow> xstep \<Rightarrow> xstep list \<Rightarrow> bool" where
  "walks env s [] \<longleftrightarrow> sp_remain s = 1"
| "walks env s (s' # ss) \<longleftrightarrow> sp_remain s = int (length ss) + 2 \<and> length ss + 1 < length (sp_idx s) \<and> xl_step env s = (None, s') \<and> walks env s' ss"

lemma vtop_walk_lines:
  assumes "\<not> xl_non_auto env" "walks env s ss" "length ss \<le> 4"
  shows "gen_while (vtop_step env) s = Some (gen_of_list (walk_lines env s ss))"
  using assms(2,3)
proof (induction ss arbitrary: s)
  case Nil
  then show ?case using assms(1) by (simp add: gen_while_Stop vtop_step_def pgt_next_def pgt_address_def gen_of_list_def)
next
  case (Cons s' ss)
  then have "pgt_next env s = Inr (Some (table_names ! length ss, sp_base s + sp_idx s ! (length ss + 1) * sp_elemsz s, [], s'))"
    by (simp add: pgt_next_def table_names_def nat_add_distrib)
  then have "vtop_step env s = Next [table_line (table_names ! length ss)
      (rjust 16 (py_hexi (sp_base s + sp_idx s ! (length ss + 1) * sp_elemsz s))) (py_hexi (sp_raw s'))] s'"
    using assms(1) by (simp add: vtop_step_def pgt_address_def pgt_value_def)
  then show ?case using Cons by (simp add: gen_while_Next gen_simps)
qed

text \<open>An entry that is not present ends the walk with its line, and no page is shown.\<close>

lemma vtop_not_present:
  assumes "\<not> xl_non_auto env" "sp_remain s = int l + 1" "0 < l" "l \<le> 4" "l < length (sp_idx s)"
    and "xl_step env s = (Some e, s')" "catches AddrxlatNotPresentError e"
  shows "gen_while (vtop_step env) s = Some (gen_of_list
    [table_line (table_names ! (l - 1)) (rjust 16 (py_hexi (sp_base s + sp_idx s ! l * sp_elemsz s))) (py_hexi (sp_raw s') @ '' (NOT PRESENT)'')])"
proof -
  have "pgt_next env s = Inr (Some (table_names ! (l - 1), sp_base s + sp_idx s ! l * sp_elemsz s, '' (NOT PRESENT)'', s'\<lparr>sp_remain := 0\<rparr>))"
    using assms(2-7) by (simp add: pgt_next_def table_names_def)
  then have "vtop_step env s = Next [table_line (table_names ! (l - 1))
      (rjust 16 (py_hexi (sp_base s + sp_idx s ! l * sp_elemsz s))) (py_hexi (sp_raw s') @ '' (NOT PRESENT)'')] (s'\<lparr>sp_remain := 0\<rparr>)"
    using assms(1) by (simp add: vtop_step_def pgt_address_def pgt_value_def)
  moreover have "gen_while (vtop_step env) (s'\<lparr>sp_remain := 0\<rparr>) = Some gen_done"
    by (simp add: gen_while_Stop vtop_step_def pgt_next_def gen_done_def)
  ultimately show ?thesis by (simp add: gen_while_Next gen_simps)
qed

text \<open>Only four tables have names: with a fifth level the walk ends at its first step.\<close>

lemma vtop_five_levels: "5 < sp_remain s \<Longrightarrow> gen_while (vtop_step env) s = Some (gen_raise IndexError)"
proof -
  assume five: "5 < sp_remain s"
  then have "length table_names < nat (sp_remain s - 1)" by (simp add: table_names_def)
  then have "pgt_next env s = Inl IndexError" using five by (simp add: pgt_next_def Let_def)
  then have "vtop_step env s = Stop [] (Some IndexError)" by (simp add: vtop_step_def)
  then show ?thesis by (simp add: gen_while_Stop gen_raise_def)
qed

text \<open>The offset of a member is computed and dropped: the answer is always that of the base class, or an exception.\<close>

lemma cb_sym_offsetof_lost: "cb_sym env SYM_OFFSETOF args = Inr v \<Longrightarrow> ct_super env SYM_OFFSETOF args = Inr v"
  by (auto simp: cb_sym_def bindR_eq_Inr split: option.splits if_splits)

section \<open>Properties\<close>


definition ex_xstep :: "int \<Rightarrow> xstep" where
  "ex_xstep r = \<lparr>sp_remain = r, sp_base = 16 * r, sp_idx = [0, 1, 2, 3, 4, 0, 0, 0, 0], sp_elemsz = 8, sp_raw = r\<rparr>"

definition ex_xlat :: "unit xlat_env" where
  "ex_xlat = \<lparr>xl_hw = (\<lambda>a. if a < 128 then Some () else None), xl_kv_phys = (\<lambda>_. None), xl_launch = (\<lambda>_ _. Inr (ex_xstep 3)),
     xl_step = (\<lambda>s. (None, ex_xstep (sp_remain s - 1))), xl_phys = (\<lambda>a. Inr (a + 1)), xl_machine_phys = Inr, xl_non_auto = False\<rparr>"


text \<open>
  The command returns for every list of arguments, when every step of the library leaves fewer steps to go.
\<close>

theorem vtop_returns:
  assumes "steps_fall env"
  shows "\<exists>g. vtop_args env args = Some g"
proof -
  have walk: "\<exists>g. vtop_walk env a = Some g" for a
    using vtop_walk_ends [OF assms] by (auto simp: vtop_walk_def split: sum.splits option.splits)
  have one: "\<exists>g. vtop_one env arg = Some g" for arg
  proof (cases "py_int arg 16")
    case (Inr a)
    then show ?thesis using walk [of a] by (auto simp: vtop_one_def Let_def)
  qed (simp add: vtop_one_def)
  show ?thesis
  proof (induction args)
    case (Cons arg args)
    then show ?case using one [of arg] by auto
  qed simp
qed

end
