(* ===== verification/File_Commands.thy ===== *)
theory File_Commands
  imports Commands Xfs
begin

text \<open>
  The commands for file systems, \<^verbatim>\<open>crash/commands/mount.py\<close> and \<^verbatim>\<open>crash/commands/xfs.py\<close>, with the parts of
  \<^verbatim>\<open>crash/subsystem/filesystem/mount.py\<close> that adapt to the kernel.  They combine the lists of theory \<open>Linked_List\<close> with the
  paths and super blocks of \<open>Filesystem\<close> and the structures of \<open>Xfs\<close>.
\<close>

section \<open>Mounts of a kernel\<close>

text \<open>The class variables of \<open>Mount\<close>: the root of the initial task, and whether an iterator was chosen.\<close>

record mount_iface =
  mi_init_fs_root :: "fs_path option"
  mi_nsproxy :: bool

definition check_task_interface :: "fs_path res \<Rightarrow> bool \<Rightarrow> mount_iface \<Rightarrow> mount_iface \<times> exc option" where
  "check_task_interface root has_nsproxy st = (case root of
       Inl e \<Rightarrow> (st, Some e)
     | Inr r \<Rightarrow>
         let st' = st\<lparr>mi_init_fs_root := Some r\<rparr>
         in if has_nsproxy then (st'\<lparr>mi_nsproxy := True\<rparr>, None) else (st', Some NotImplementedError))"

text \<open>Old kernels have only \<open>struct vfsmount\<close>; \<open>types.vfsmount_type\<close> may not be known yet.\<close>

definition or_gdb_error :: "'a res \<Rightarrow> 'a res \<Rightarrow> 'a res" where
  "or_gdb_error r r' = (case r of Inr v \<Rightarrow> Inr v | Inl e \<Rightarrow> if catches GdbError e then r' else Inl e)"

definition check_mount_type :: "gtype res \<Rightarrow> gtype res \<Rightarrow> gtype res" where
  "check_mount_type mount_type vfsmount_type = or_gdb_error mount_type vfsmount_type"

text \<open>The members are in \<open>mnt\<close> inside the structure, or in the structure itself.\<close>

definition mount_super :: "addr res \<Rightarrow> addr res \<Rightarrow> addr res" where
  "mount_super in_mnt direct = or_gdb_error in_mnt direct"

definition mount_root :: "'v res \<Rightarrow> 'v \<Rightarrow> ('v \<Rightarrow> addr res) \<Rightarrow> addr res" where
  "mount_root in_mnt self get_root = bindR (or_gdb_error in_mnt (Inr self)) get_root"

definition mount_device :: "string option \<Rightarrow> string" where
  "mount_device devname = (case devname of None \<Rightarrow> ''none'' | Some s \<Rightarrow> s)"

text \<open>The iterator: \<open>AttributeError\<close> before one is chosen; \<open>init_task\<close> when no task is given.\<close>

definition mounts_of :: "list_mem \<Rightarrow> mount_iface \<Rightarrow> gtype res \<Rightarrow> addr res \<Rightarrow> addr option \<Rightarrow> addr gen option" where
  "mounts_of mem st mount_type init_ns ns =
     (case bindR (case ns of Some a \<Rightarrow> Inr a | None \<Rightarrow> init_ns) (\<lambda>a.
        if \<not> mi_nsproxy st then Inl AttributeError else bindR mount_type (\<lambda>t. Inr (a, t))) of
        Inl e \<Rightarrow> Some (gen_raise e)
      | Inr (a, t) \<Rightarrow> for_each_mount mem a t)"

section \<open>The command mount\<close>

definition mount_header :: string where
  "mount_header = center 16 ''MOUNT'' @ '' '' @ center 16 ''SUPERBLK'' @ '' '' @ center 10 ''TYPE'' @ '' '' @ center 16 ''DEVNAME'' @ '' '' @ ''PATH''"

definition mount_text :: "fs_mem \<Rightarrow> bool \<Rightarrow> bool \<Rightarrow> addr \<Rightarrow> mount \<Rightarrow> string \<Rightarrow> string" where
  "mount_text fm v f a m path =
     (if v
      then zfill 16 (py_hexi a) @ '' '' @ zfill 16 (py_hexi (mnt_sb m)) @ ''  '' @ ljust 10 (mount_fstype fm m) @ '' '' @
        ljust 16 (mnt_devname m) @ '' '' @ path
      else mnt_devname m @ '' on '' @ path @ '' type '' @ mount_fstype fm m @ (if f then '' ('' @ mount_flags 4 m False @ '')'' else []))"

definition show_mount :: "fs_mem \<Rightarrow> fs_path \<Rightarrow> bool \<Rightarrow> bool \<Rightarrow> addr \<Rightarrow> string gen option" where
  "show_mount fm root v f a = (case fm_mount fm a of
       Inl e \<Rightarrow> Some (gen_raise e)
     | Inr m \<Rightarrow> map_option (\<lambda>r. gen_try r (\<lambda>path. gen_of_list [mount_text fm v f a m path])) (d_path fm root (MountArg a) (mnt_root m)))"

text \<open>A loop of a command over a list, whose body may not return.\<close>

fun for_opt :: "('a \<Rightarrow> 'b gen option) \<Rightarrow> 'a list \<Rightarrow> 'b gen option" where
  "for_opt body [] = Some gen_done"
| "for_opt body (x # xs) = Option.bind (body x) (\<lambda>g. if snd g \<noteq> None then Some g else map_option (gen_seq g) (for_opt body xs))"

definition mount_execute :: "fs_mem \<Rightarrow> fs_path \<Rightarrow> bool \<Rightarrow> bool \<Rightarrow> addr gen option \<Rightarrow> string gen option" where
  "mount_execute fm root v f mounts = Option.bind mounts (\<lambda>ms.
     map_option (\<lambda>g. gen_yields (if v then [mount_header] else []) (gen_seq g ([], snd ms))) (for_opt (show_mount fm root v f) (fst ms)))"

section \<open>The command xfs\<close>

fun list_xfs_loop :: "bool \<Rightarrow> fs_info list \<Rightarrow> string gen \<times> bool" where
  "list_xfs_loop header [] = (gen_done, header)"
| "list_xfs_loop header (sb # sbs) =
     (if fi_type sb \<noteq> ''xfs'' then list_xfs_loop header sbs
      else (case fi_fsid sb of
          Inl e \<Rightarrow> (gen_raise e, header)
        | Inr u \<Rightarrow> (case list_xfs_loop False sbs of (g, h) \<Rightarrow>
            (gen_yields ((if header then [''SUPER BLOCK'' @ tab @ tab @ tab @ ''DEVICE'' @ tab @ tab @ ''UUID''] else []) @
               [py_0x (fi_address sb) @ tab @ fi_device sb @ tab @ u]) g, h))))"

definition list_xfs :: "fs_info gen \<Rightarrow> string gen" where
  "list_xfs sbs = (case list_xfs_loop True (fst sbs) of (g, header) \<Rightarrow>
     gen_seq (gen_seq g ([], snd sbs)) (gen_of_list (if header then [''No xfs file systems are mounted.''] else [])))"

text \<open>What \<open>show\<close> and \<open>dump-buft\<close> read of the super block at an address and of its mount.\<close>

record xfs_view =
  xv_super :: "addr \<Rightarrow> super_block"
  xv_id :: "addr \<Rightarrow> string res"
  xv_uuid :: "addr \<Rightarrow> string res"
  xv_flags :: "addr \<Rightarrow> (int \<times> nat) res"  \<comment> \<open>\<open>m_flags\<close> and its size\<close>
  xv_version :: "addr \<Rightarrow> int res"
  xv_ail :: "addr \<Rightarrow> addr res"  \<comment> \<open>address of \<open>m_ail->xa_ail\<close>, which new kernels do not have\<close>
  xv_ddev :: "addr \<Rightarrow> addr res"
  xv_ldev :: "addr \<Rightarrow> addr res"
  xv_queue :: "addr \<Rightarrow> (addr \<times> xfs_buf) gen"  \<comment> \<open>the buffers on \<open>bt_delwrite_queue\<close>\<close>

definition view_super :: "xfs_view \<Rightarrow> gtype \<Rightarrow> address_specifier \<Rightarrow> addr res" where
  "view_super xv super_block_type desc = (case get_super_block (xv_super xv) super_block_type desc False of
       Inr a \<Rightarrow> Inr a
     | Inl e \<Rightarrow> Inl (if catches GdbNotAvailableError e then CommandError else e))"

definition show_xfs :: "list_mem \<Rightarrow> xfs_view \<Rightarrow> gtype \<Rightarrow> address_specifier \<Rightarrow> string gen" where
  "show_xfs mem xv super_block_type desc =
     gen_try (view_super xv super_block_type desc) (\<lambda>sb. gen_try (xfs_mount (xv_super xv sb) False) (\<lambda>mp.
     gen_try (xv_id xv sb) (\<lambda>dev. gen_yields [''Device: '' @ dev]
     (gen_try (xv_uuid xv mp) (\<lambda>u. gen_yields [''UUID: '' @ u, ''VFS superblock flags: '' @ super_flags 8 (xv_super xv sb)]
     (gen_try (xv_flags xv mp) (\<lambda>(fl, sz). gen_yields [''Flags: '' @ xfs_mount_flags sz fl]
     (gen_try (xv_version xv mp) (\<lambda>ver. gen_yields [''Version: '' @ py_dec (xfs_mount_version ver)]
     (gen_try (bindR (xv_ail xv mp) (list_empty mem)) (\<lambda>e.
        gen_of_list [if e then ''AIL is empty'' else ''AIL has items queued''])))))))))))"

definition dump_buftarg :: "xfs_view \<Rightarrow> addr \<Rightarrow> string gen" where
  "dump_buftarg xv targ = gen_bind (xv_queue xv targ) (\<lambda>(a, b).
     gen_try (xfs_format_xfsbuf False b) (\<lambda>s. gen_of_list [py_hexi a @ '' '' @ s]))"

definition dump_buftargs :: "xfs_view \<Rightarrow> gtype \<Rightarrow> address_specifier \<Rightarrow> string gen" where
  "dump_buftargs xv super_block_type desc =
     gen_try (view_super xv super_block_type desc) (\<lambda>sb. gen_try (xfs_mount (xv_super xv sb) False) (\<lambda>mp.
     gen_try (xv_ddev xv mp) (\<lambda>ddev. gen_try (xv_ldev xv mp) (\<lambda>ldev.
       gen_yields [''Data device queue @ '' @ py_hexi ddev @ '':'']
         (gen_seq (dump_buftarg xv ddev)
           (if ddev \<noteq> ldev then gen_yields [''Log device queue:''] (dump_buftarg xv ldev) else gen_done))))))"

text \<open>
  \<open>dump-ail\<close>: what it reads of the active item list of a mount, then the items.  The second line is printed in two pieces; the
  member \<open>xa_log_flush\<close> is read when the kernel has it.
\<close>

record ail_view =
  av_ail :: "addr \<Rightarrow> addr res"
  av_target :: "addr \<Rightarrow> int res"
  av_last_pushed :: "addr \<Rightarrow> int res"
  av_log_flush :: "(addr \<Rightarrow> int res) option"

definition dump_ail_header :: "ail_view \<Rightarrow> addr \<Rightarrow> string gen" where
  "dump_ail_header av ail = gen_yields [''AIL @ '' @ py_hexi ail]
     (gen_try (av_target av ail) (\<lambda>t. gen_try (av_last_pushed av ail) (\<lambda>l.
        gen_yields [''target='' @ py_dec t @ '' last_pushed_lsn='' @ py_dec l @ '' log_flush='']
          (case av_log_flush av of
             None \<Rightarrow> gen_of_list [''[N/A]'']
           | Some flush \<Rightarrow> gen_try (flush ail) (\<lambda>f. gen_of_list [py_dec f])))))"

definition dump_ail :: "dump_env \<Rightarrow> xfs_view \<Rightarrow> ail_view \<Rightarrow> gtype \<Rightarrow> address_specifier \<Rightarrow> string gen option" where
  "dump_ail env xv av super_block_type desc =
     (case bindR (view_super xv super_block_type desc) (\<lambda>sb. bindR (xfs_mount (xv_super xv sb) False) (av_ail av)) of
        Inl e \<Rightarrow> Some (gen_raise e)
      | Inr ail \<Rightarrow>
          if snd (dump_ail_header av ail) \<noteq> None then Some (dump_ail_header av ail)
          else map_option (gen_seq (dump_ail_header av ail)) (dump_ail_items env (Inr ail)))"

section \<open>What the commands print\<close>

lemma for_opt_ok:
  "\<forall>x \<in> set xs. body x = Some (gen_of_list (h x)) \<Longrightarrow> for_opt body xs = Some (gen_of_list (concat (map h xs)))"
  by (induction xs) (auto simp: gen_simps)

text \<open>The path at which a mount is shown, from the names that lead to its root.\<close>

definition shown_path :: "string list \<Rightarrow> string" where
  "shown_path names = (if names = [] then ''/'' else path_string names)"

lemma show_mount_reaches:
  assumes "fm_mount fm a = Inr m" "reaches fm root a (mnt_root m) names"
  shows "show_mount fm root v f a = Some (gen_of_list [mount_text fm v f a m (shown_path names)])"
proof -
  have "path_string names = [] \<longleftrightarrow> names = []" by (cases names) (simp_all add: path_string_def)
  then have "d_path fm root (MountArg a) (mnt_root m) = Some (Inr (shown_path names))"
    using d_path_loop_reaches [OF assms(2), of "[]"] by (simp add: d_path_def real_mount_def shown_path_def)
  then show ?thesis using assms(1) by (simp add: show_mount_def)
qed

text \<open>
  The listing of XFS file systems: one header before the lines of exactly the super blocks of that type, in the order of
  the list, or the message that there are none.
\<close>

lemma list_xfs_lines:
  assumes "\<forall>sb \<in> set sbs. fi_fsid sb = Inr (u sb)" "xs = filter (\<lambda>sb. fi_type sb = ''xfs'') sbs"
  shows "list_xfs (gen_of_list sbs) = gen_of_list (if xs = [] then [''No xfs file systems are mounted.'']
    else (''SUPER BLOCK'' @ tab @ tab @ tab @ ''DEVICE'' @ tab @ tab @ ''UUID'') # map (\<lambda>sb. py_0x (fi_address sb) @ tab @ fi_device sb @ tab @ u sb) xs)"
proof -
  let ?line = "\<lambda>sb. py_0x (fi_address sb) @ tab @ fi_device sb @ tab @ u sb"
  let ?xs = "filter (\<lambda>sb. fi_type sb = ''xfs'') sbs"
  have "list_xfs_loop h sbs = (gen_of_list ((if h \<and> ?xs \<noteq> [] then [''SUPER BLOCK'' @ tab @ tab @ tab @ ''DEVICE'' @ tab @ tab @ ''UUID''] else []) @
      map ?line ?xs), h \<and> ?xs = [])" for h
    using assms(1) by (induction sbs arbitrary: h) (auto simp: gen_simps)
  then show ?thesis using assms(2) by (simp add: list_xfs_def gen_simps gen_of_list_def gen_seq_def gen_yields_def)
qed

text \<open>A queue with a readable buffer cannot be dumped: the formatting of the first buffer always raises.\<close>

lemma dump_buftarg_raises:
  assumes "fst (xv_queue xv targ) = (a, b) # rest" "b_flags b = Inr x" "b_pin_count b = Inr y" "b_sema_count b = Inr z"
  shows "dump_buftarg xv targ = gen_raise GdbError"
  using assms by (simp add: dump_buftarg_def gen_bind_def xfs_format_xfsbuf_def gen_simps)

section \<open>Properties\<close>

text \<open>
  C16: \<open>mount\<close> lists the name space: from a well-formed list of mounts whose roots are reached by lists of names, across any
  number of mount points, it prints for every mount, in the order of the list, one line with its device, its path, its type
  and, with \<open>-f\<close>, its flags, or with \<open>-v\<close> a header and then addresses, type, device and path, and returns without an
  exception.
\<close>

theorem mount_lists_namespace:
  assumes "is_list mem ns (map (\<lambda>a. ptr_add a (int off)) as)" "offsetof_err t ''mnt_list'' = Inr off"
    and "\<forall>a \<in> set as. 0 \<le> a \<and> a < 2 ^ 64" "mi_nsproxy st"
    and "\<forall>a \<in> set as. fm_mount fm a = Inr (m a) \<and> reaches fm root a (mnt_root (m a)) (names a)"
  shows "mount_execute fm root v f (mounts_of mem st (Inr t) (Inr ns) None) = Some (gen_of_list
    ((if v then [mount_header] else []) @ map (\<lambda>a. mount_text fm v f a (m a) (shown_path (names a))) as))"
proof -
  have "mounts_of mem st (Inr t) (Inr ns) None = Some (gen_of_list as)"
    using list_for_each_entry_ok(1) [OF assms(1-3)] assms(4) by (simp add: mounts_of_def for_each_mount_def)
  moreover have "for_opt (show_mount fm root v f) as =
      Some (gen_of_list (concat (map (\<lambda>a. [mount_text fm v f a (m a) (shown_path (names a))]) as)))"
    using assms(5) by (intro for_opt_ok) (simp add: show_mount_reaches)
  ultimately show ?thesis
    by (simp add: mount_execute_def gen_simps gen_of_list_def gen_seq_def gen_yields_def)
qed

definition ex_mount_type :: gtype where
  "ex_mount_type = GType CODE_STRUCT 40 ''mount'' None
     [GField (Some ''mnt_list'') 64 (GType CODE_STRUCT 16 ''list_head'' None [])]"

definition ex_mount :: "addr \<Rightarrow> mount" where
  "ex_mount a = (if a = 100
     then \<lparr>mnt_parent = 100, mnt_mountpoint = 10, mnt_root = 10, mnt_sb = 1, mnt_devname = ''/dev/sda1'', mnt_flags = 0\<rparr>
     else \<lparr>mnt_parent = 100, mnt_mountpoint = 11, mnt_root = 20, mnt_sb = 2, mnt_devname = ''/dev/sdb1'', mnt_flags = 33\<rparr>)"

theorem mount_lists_namespace_witness:
  "mount_execute ex_fs \<lparr>path_mnt = 132, path_dentry = 10\<rparr> False False
     (mounts_of (mem_of [(50, 108, 208), (108, 208, 50), (208, 50, 108)]) \<lparr>mi_init_fs_root = None, mi_nsproxy = True\<rparr>
       (Inr ex_mount_type) (Inr 50) None) =
   Some (gen_of_list [''/dev/sda1 on / type xfs'', ''/dev/sdb1 on /usr type xfs''])"
proof -
  let ?mem = "mem_of [(50, 108, 208), (108, 208, 50), (208, 50, 108)]" and ?r = "\<lparr>path_mnt = 132, path_dentry = 10\<rparr>"
    and ?st = "\<lparr>mi_init_fs_root = None, mi_nsproxy = True\<rparr>" and ?names = "\<lambda>a. if a = 100 then [] else [''usr'']"
  have r0: "reaches ex_fs ?r 100 10 []" by (rule start) (simp add: at_root_def ex_fs_def ptr_add_def)
  then have "reaches ex_fs ?r 100 11 ([] @ [d_name \<lparr>d_parent = 10, d_name = ''usr''\<rparr>])"
    by (rule child) (simp add: ex_fs_def at_root_def)+
  then have "reaches ex_fs ?r 200 (mnt_root (ex_mount 200)) [''usr'']"
    by (intro cross [of _ _ 100 11]) (simp_all add: ex_fs_def ex_mount_def at_root_def ptr_add_def)
  then have "\<forall>a \<in> set [100, 200]. fm_mount ex_fs a = Inr (ex_mount a) \<and> reaches ex_fs ?r a (mnt_root (ex_mount a)) (?names a)"
    using r0 by (simp add: ex_fs_def ex_mount_def)
  moreover have "is_list ?mem 50 (map (\<lambda>a. ptr_add a (int 8)) [100, 200])" by (simp add: is_list_def mem_of_def ptr_add_def)
  moreover have "offsetof_err ex_mount_type ''mnt_list'' = Inr 8" by code_simp
  moreover have "\<forall>a \<in> set [100, 200 :: int]. 0 \<le> a \<and> a < 2 ^ 64" by simp
  ultimately have "mount_execute ex_fs ?r False False (mounts_of ?mem ?st (Inr ex_mount_type) (Inr 50) None) =
      Some (gen_of_list ((if False then [mount_header] else []) @
        map (\<lambda>a. mount_text ex_fs False False a (ex_mount a) (shown_path (?names a))) [100, 200]))"
    by (intro mount_lists_namespace) simp_all
  then show ?thesis
    by (simp add: mount_text_def ex_mount_def shown_path_def path_string_def mount_fstype_def super_fstype_def ex_fs_def)
qed

end
