(* ===== verification/Slab_Config.thy ===== *)
theory Slab_Config
  imports Kmem_Cache
begin

text \<open>
  How \<^verbatim>\<open>crash/types/slab.py\<close> adapts to the kernel, and the operations of a whole cache: the callbacks on types that set the
  variables of the classes \<open>SlabSLAB\<close> and \<open>KmemCache\<close>, the construction of a cache for the allocator found, the nodes of a
  cache, its listing and check, and the objects that are allocated from it.
\<close>

section \<open>Configuration\<close>

record slab_cfg =
  sg_page_slab :: bool
  sg_slab_type :: "gtype option"
  sg_list_head :: string
  sg_bufctl_type :: "gtype option"
  sg_percpu_name :: "string option"
  sg_SLUB :: bool
  sg_buffer_size_name :: "string option"
  sg_percpu_cache :: "bool option"
  sg_head_name :: string
  sg_nodelists_name :: "string option"
  sg_slub_debug :: bool
  sg_alien_cache :: bool

definition slab_cfg_init :: slab_cfg where
  "slab_cfg_init = \<lparr>sg_page_slab = False, sg_slab_type = None, sg_list_head = ''list'', sg_bufctl_type = None, sg_percpu_name = None,
     sg_SLUB = False, sg_buffer_size_name = None, sg_percpu_cache = None, sg_head_name = ''list'', sg_nodelists_name = None,
     sg_slub_debug = True, sg_alien_cache = False\<rparr>"

definition check_page_type :: "gtype \<Rightarrow> slab_cfg \<Rightarrow> slab_cfg" where
  "check_page_type t c = (if \<not> sg_page_slab c then c\<lparr>sg_page_slab := True, sg_slab_type := Some t, sg_list_head := ''lru''\<rparr> else c)"

definition check_slab_type :: "gtype \<Rightarrow> slab_cfg \<Rightarrow> slab_cfg" where
  "check_slab_type t c = c\<lparr>sg_page_slab := False, sg_slab_type := Some t, sg_list_head := ''list''\<rparr>"

definition check_bufctl_type :: "gtype \<Rightarrow> slab_cfg \<Rightarrow> slab_cfg" where
  "check_bufctl_type t c = c\<lparr>sg_bufctl_type := Some t\<rparr>"

text \<open>An assignment whose right side may raise; what was assigned before it stays.\<close>

definition assigning :: "'a res \<Rightarrow> ('a \<Rightarrow> slab_cfg \<Rightarrow> slab_cfg) \<Rightarrow> slab_cfg \<times> exc option \<Rightarrow> slab_cfg \<times> exc option" where
  "assigning r f st = (case st of (c, Some e) \<Rightarrow> (c, Some e)
     | (c, None) \<Rightarrow> (case r of Inl e \<Rightarrow> (c, Some e) | Inr v \<Rightarrow> (f v c, None)))"

definition check_kmem_cache_type :: "gtype \<Rightarrow> slab_cfg \<Rightarrow> slab_cfg \<times> exc option" where
  "check_kmem_cache_type t c0 =
     (case assigning (find_member_variant t [''cpu_cache'', ''cpu_slab'', ''array'']) (\<lambda>v c. c\<lparr>sg_percpu_name := Some v\<rparr>) (c0, None) of
        (c, Some e) \<Rightarrow> (c, Some e)
      | (c, None) \<Rightarrow> assigning (find_member_variant t [''nodelists'', ''node'']) (\<lambda>v c. c\<lparr>sg_nodelists_name := Some v\<rparr>)
          (if sg_percpu_name c = Some ''cpu_slab'' then (c\<lparr>sg_SLUB := True\<rparr>, None)
           else assigning (find_member_variant t [''next'', ''list'']) (\<lambda>v c. c\<lparr>sg_head_name := v\<rparr>)
             (assigning (find_member_variant t [''buffer_size'', ''size''])
               (\<lambda>v c. c\<lparr>sg_buffer_size_name := Some v, sg_percpu_cache := Some (sg_percpu_name c = Some ''cpu_cache'')\<rparr>) (c, None))))"

text \<open>The variable is initialised with \<open>True\<close>, so that this callback changes nothing.\<close>

definition check_kmem_cache_node_type :: "gtype \<Rightarrow> slab_cfg \<Rightarrow> slab_cfg \<times> exc option" where
  "check_kmem_cache_node_type t c = (case safe_find_member_variant t [''nr_slabs''] of
       Inl e \<Rightarrow> (c, Some e)
     | Inr None \<Rightarrow> (c, None)
     | Inr (Some _) \<Rightarrow> (c\<lparr>sg_slub_debug := True\<rparr>, None))"

definition setup_alien_cache_type :: "gtype \<Rightarrow> slab_cfg \<Rightarrow> slab_cfg" where
  "setup_alien_cache_type t c = c\<lparr>sg_alien_cache := True\<rparr>"

text \<open>The callbacks, in the order in which the module registers them.\<close>

datatype cfg_event = PageType gtype | SlabType gtype | BufctlType gtype | CacheType gtype | NodeType gtype | AlienType gtype

fun cfg_step :: "cfg_event \<Rightarrow> slab_cfg \<Rightarrow> slab_cfg \<times> exc option" where
  "cfg_step (PageType t) c = (check_page_type t c, None)"
| "cfg_step (SlabType t) c = (check_slab_type t c, None)"
| "cfg_step (BufctlType t) c = (check_bufctl_type t c, None)"
| "cfg_step (CacheType t) c = check_kmem_cache_type t c"
| "cfg_step (NodeType t) c = check_kmem_cache_node_type t c"
| "cfg_step (AlienType t) c = (setup_alien_cache_type t c, None)"

definition cfg_run :: "cfg_event list \<Rightarrow> slab_cfg \<Rightarrow> slab_cfg" where
  "cfg_run evs c = foldl (\<lambda>c ev. fst (cfg_step ev c)) c evs"

section \<open>Caches\<close>

text \<open>\<open>create\<close>: a cache of the class for the allocator; the constructors read the cache and may raise.\<close>

definition kmem_cache_create :: "slab_cfg \<Rightarrow> 'a res \<Rightarrow> 'b res \<Rightarrow> ('a + 'b) res" where
  "kmem_cache_create cfg new_slub new_slab =
     (if sg_SLUB cfg then bindR new_slub (\<lambda>c. Inr (Inl c)) else bindR new_slab (\<lambda>c. Inr (Inr c)))"

definition get_nodelists :: "int gen \<Rightarrow> (int \<Rightarrow> addr res) \<Rightarrow> (int \<times> addr) gen" where
  "get_nodelists nids nodelist = gen_bind nids (\<lambda>nid. gen_try (nodelist nid) (\<lambda>a. if a = 0 then gen_done else gen_of_list [(nid, a)]))"

definition slab_list_all :: "nat \<Rightarrow> string list" where
  "slab_list_all verbosity = [''Not yet implemented for SLAB'']"

definition slub_list_all :: "slub_env \<Rightarrow> nat \<Rightarrow> int list \<Rightarrow> slub_node list \<Rightarrow> slub_state \<Rightarrow> slub_result option" where
  "slub_list_all env verbosity cpus nodes s = process_all env verbosity cpus nodes s"

definition slub_check_all :: "slub_env \<Rightarrow> int list \<Rightarrow> slub_node list \<Rightarrow> slub_state \<Rightarrow> slub_result option" where
  "slub_check_all env cpus nodes s = process_all env 1 cpus nodes s"

text \<open>
  The allocated objects of the slabs of a list; \<open>populate\<close> is \<open>populate_free\<close>, which \<open>obj_in_use\<close> calls, and the slabs that
  are skipped are only reported.
\<close>

fun items_objects :: "(slab \<Rightarrow> slab res) \<Rightarrow> array_caches \<Rightarrow> slab_item \<Rightarrow> int gen" where
  "items_objects populate acs (Skipped m) = gen_done"
| "items_objects populate acs (Found sl) = gen_try (populate sl) (\<lambda>sl'. gen_of_list (get_allocated_objects acs sl'))"

definition list_objects ::
  "list_mem \<Rightarrow> (slab_list \<Rightarrow> addr) \<Rightarrow> (addr \<Rightarrow> slab res) \<Rightarrow> (slab \<Rightarrow> slab res) \<Rightarrow> array_caches \<Rightarrow> slab_list \<Rightarrow> int gen option" where
  "list_objects mem heads from_head populate acs k =
     map_option (\<lambda>g. gen_bind g (items_objects populate acs)) (get_slabs_of_type mem heads from_head k False False)"

fun nodes_objects :: "('n \<Rightarrow> slab_list \<Rightarrow> int gen option) \<Rightarrow> 'n list \<Rightarrow> int gen option" where
  "nodes_objects objs_of [] = Some gen_done"
| "nodes_objects objs_of (n # ns) = Option.bind (objs_of n SlabPartial) (\<lambda>g. if snd g \<noteq> None then Some g else
     Option.bind (objs_of n SlabFull) (\<lambda>h. if snd h \<noteq> None then Some (gen_seq g h) else
       map_option (\<lambda>r. gen_seq g (gen_seq h r)) (nodes_objects objs_of ns)))"

definition cache_allocated_objects ::
  "list_mem \<Rightarrow> (addr \<Rightarrow> slab_list \<Rightarrow> addr) \<Rightarrow> (addr \<Rightarrow> slab res) \<Rightarrow> (slab \<Rightarrow> slab res) \<Rightarrow> array_caches \<Rightarrow> (int \<times> addr) gen \<Rightarrow>
     int gen option" where
  "cache_allocated_objects mem heads from_head populate acs nodes = map_option (\<lambda>g. gen_seq g ([], snd nodes))
     (nodes_objects (\<lambda>n. list_objects mem (heads n) from_head populate acs) (map snd (fst nodes)))"

text \<open>For SLUB only the partial slabs of the nodes are looked at.\<close>

definition slub_cache_objects :: "slub_cache \<Rightarrow> (slub \<Rightarrow> slub res) \<Rightarrow> slub_node list \<Rightarrow> int gen" where
  "slub_cache_objects c populate nodes = gen_for nodes (\<lambda>n. gen_bind (sn_partial n) (\<lambda>u.
     gen_try (populate u) (\<lambda>u'. gen_of_list (slub_get_allocated_objects c u'))))"

section \<open>The layout of slabs\<close>

definition layout :: "slab_cfg \<Rightarrow> bool \<times> gtype option \<times> string" where
  "layout c = (sg_page_slab c, sg_slab_type c, sg_list_head c)"

fun about_layout :: "cfg_event \<Rightarrow> bool" where
  "about_layout (PageType t) = True"
| "about_layout (SlabType t) = True"
| "about_layout ev = False"

lemma layout_other: "\<not> about_layout ev \<Longrightarrow> layout (fst (cfg_step ev c)) = layout c"
  by (cases ev) (auto simp: layout_def check_bufctl_type_def check_kmem_cache_type_def check_kmem_cache_node_type_def
      setup_alien_cache_type_def assigning_def split: prod.splits option.splits sum.splits if_splits)

lemma layout_step: "layout c = layout c' \<Longrightarrow> about_layout ev \<Longrightarrow> layout (fst (cfg_step ev c)) = layout (fst (cfg_step ev c'))"
  by (cases ev) (auto simp: layout_def check_page_type_def check_slab_type_def)

lemma layout_filter: "layout c = layout c' \<Longrightarrow> layout (cfg_run evs c) = layout (cfg_run (filter about_layout evs) c')"
proof (induction evs arbitrary: c c')
  case (Cons ev evs)
  show ?case
  proof (cases "about_layout ev")
    case True
    then show ?thesis using Cons.IH [OF layout_step [OF Cons.prems True]] by (simp add: cfg_run_def)
  next
    case False
    then have "layout (fst (cfg_step ev c)) = layout c'" using layout_other Cons.prems by simp
    then show ?thesis using Cons.IH False by (simp add: cfg_run_def)
  qed
qed (simp add: cfg_run_def)

text \<open>
  In the order of registration, the type of pages before that of slabs, the layout is that of the kernel: the slab
  structure if it exists, else the page; the other callbacks may come anywhere.  In the opposite order the page wins.
\<close>

lemma layout_of_kernel:
  assumes "filter about_layout evs = [PageType p] @ (case slab of None \<Rightarrow> [] | Some t \<Rightarrow> [SlabType t])"
  shows "layout (cfg_run evs slab_cfg_init) = (case slab of None \<Rightarrow> (True, Some p, ''lru'') | Some t \<Rightarrow> (False, Some t, ''list''))"
  unfolding layout_filter [OF refl, of evs] assms
  by (simp add: cfg_run_def layout_def check_page_type_def check_slab_type_def slab_cfg_init_def split: option.splits)

lemma layout_opposite_order:
  assumes "filter about_layout evs = [SlabType t, PageType p]"
  shows "layout (cfg_run evs slab_cfg_init) = (True, Some p, ''lru'')"
  unfolding layout_filter [OF refl, of evs] assms
  by (simp add: cfg_run_def layout_def check_page_type_def check_slab_type_def slab_cfg_init_def)

section \<open>Allocated objects of a cache\<close>

lemma list_objects_ok:
  assumes "is_list mem (heads k) as" "\<forall>a \<in> set as. (\<forall>k'. k' \<noteq> k \<longrightarrow> a \<noteq> heads k') \<and> from_head a = Inr (sl a) \<and> populate (sl a) = Inr (sl' a)"
  shows "list_objects mem heads from_head populate acs k = Some (gen_of_list (concat (map (\<lambda>a. get_allocated_objects acs (sl' a)) as)))"
proof -
  let ?wrong = "map (\<lambda>t. (heads t, t)) (filter (\<lambda>t. t \<noteq> k) [SlabFree, SlabFull, SlabPartial])"
  have "list_for_each mem (ListObj (heads k)) \<lparr>include_head = False, reverse = False, exact_cycles = False\<rparr> = Some (gen_of_list as)"
    using list_for_each_ok [OF assms(1), of "ListObj (heads k)"] by simp
  moreover have "slab_item_of ?wrong from_head a = gen_of_list [Found (sl a)]" if "a \<in> set as" for a
  proof -
    have "map_of ?wrong a = None" using assms(2) that by (auto simp: map_of_eq_None_iff)
    then show ?thesis using assms(2) that by (simp add: slab_item_of_def)
  qed
  then have "gen_for as (slab_item_of ?wrong from_head) = gen_of_list (concat (map (\<lambda>a. [Found (sl a)]) as))"
    by (intro gen_for_of_list) simp
  ultimately have "get_slabs_of_type mem heads from_head k False False = Some (gen_of_list (map (\<lambda>a. Found (sl a)) as))"
    by (simp add: get_slabs_of_type_def gen_simps)
  moreover have "gen_for (map (\<lambda>a. Found (sl a)) as) (items_objects populate acs) =
      gen_of_list (concat (map (\<lambda>a. get_allocated_objects acs (sl' a)) as))"
    using assms(2) by (induction as) (simp_all add: gen_simps)
  ultimately show ?thesis by (simp add: list_objects_def gen_simps)
qed

lemma nodes_objects_ok:
  "\<forall>n \<in> set ns. objs_of n SlabPartial = Some (gen_of_list (p n)) \<and> objs_of n SlabFull = Some (gen_of_list (q n)) \<Longrightarrow>
   nodes_objects objs_of ns = Some (gen_of_list (concat (map (\<lambda>n. p n @ q n) ns)))"
  by (induction ns) (auto simp: gen_simps)

text \<open>
  The objects allocated from a SLAB cache are those of the partial slabs and then of the full slabs of every node, in the
  order of the nodes and of their lists, when the lists are well-formed and the slabs can be read.
\<close>

lemma cache_allocated_objects_ok:
  assumes "\<forall>n \<in> set ns. \<forall>k \<in> {SlabPartial, SlabFull}. is_list mem (heads n k) (as n k) \<and>
      (\<forall>a \<in> set (as n k). (\<forall>k'. k' \<noteq> k \<longrightarrow> a \<noteq> heads n k') \<and> from_head a = Inr (sl a) \<and> populate (sl a) = Inr (sl' a))"
  shows "cache_allocated_objects mem heads from_head populate acs (gen_of_list (map (Pair nid) ns)) =
    Some (gen_of_list (concat (map (\<lambda>n. concat (map (\<lambda>a. get_allocated_objects acs (sl' a)) (as n SlabPartial @ as n SlabFull))) ns)))"
proof -
  have "list_objects mem (heads n) from_head populate acs k = Some (gen_of_list (concat (map (\<lambda>a. get_allocated_objects acs (sl' a)) (as n k))))"
    if "n \<in> set ns" "k \<in> {SlabPartial, SlabFull}" for n k
    by (rule list_objects_ok [where sl = sl]) (use assms that in blast)+
  then have "nodes_objects (\<lambda>n. list_objects mem (heads n) from_head populate acs) ns = Some (gen_of_list (concat (map
      (\<lambda>n. concat (map (\<lambda>a. get_allocated_objects acs (sl' a)) (as n SlabPartial)) @
           concat (map (\<lambda>a. get_allocated_objects acs (sl' a)) (as n SlabFull))) ns)))"
    by (intro nodes_objects_ok) simp
  then show ?thesis by (simp add: cache_allocated_objects_def comp_def gen_of_list_def gen_seq_def gen_yields_def)
qed

end
