(* ===== verification/Argparse.thy ===== *)
theory Argparse
  imports Struct_Layout "HOL-Library.AList"
begin

text \<open>
  The command lines of the commands.  \<^verbatim>\<open>ArgumentParser\<close> of \<^verbatim>\<open>crash/commands/__init__.py\<close> is Python's \<^verbatim>\<open>argparse\<close> with errors
  raised as \<open>CommandLineError\<close>; the first part models of \<^verbatim>\<open>argparse\<close> (Python 3.11) what the commands use: options with one
  dash that may be joined, their arguments, mutually exclusive groups, at most one positional argument, and one level of
  sub-commands.  The second part has the parsers that the commands build, in the order of their \<open>add_argument\<close> calls.

  Printing of help is left out: \<open>-h\<close> ends with \<open>SystemExit\<close>.
\<close>

section \<open>Parsers\<close>

datatype arg_value = VNone | VBool bool | VInt int | VStr string | VList "arg_value list" | VMethod string

datatype nargs = One | AtMostOne | OneOrMore | Remainder | Exactly nat | SubParser

datatype action_kind = Store | StoreTrue | StoreFalse | Count | Help | SubCommand

datatype arg_type = StrArg | IntArg | AddressArg

record action =
  ac_options :: "string list"
  ac_dest :: string
  ac_kind :: action_kind
  ac_nargs :: nargs
  ac_type :: arg_type
  ac_default :: arg_value
  ac_const :: arg_value
  ac_required :: bool
  ac_group :: "nat option"

record parser =
  pr_options :: "action list"
  pr_positional :: "action option"
  pr_defaults :: "(string \<times> arg_value) list"

type_synonym namespace = "(string \<times> arg_value) list"

text \<open>\<open>add_argument\<close> with an option of one letter, whose \<open>dest\<close> is that letter, and with the name of a positional argument.\<close>

definition option_of :: "string \<Rightarrow> action" where
  "option_of opt = \<lparr>ac_options = [opt], ac_dest = tl opt, ac_kind = Store, ac_nargs = One, ac_type = StrArg, ac_default = VNone,
     ac_const = VNone, ac_required = False, ac_group = None\<rparr>"

definition store_true :: "string \<Rightarrow> action" where
  "store_true opt = (option_of opt)\<lparr>ac_kind := StoreTrue, ac_nargs := Exactly 0, ac_default := VBool False, ac_const := VBool True\<rparr>"

definition positional :: "string \<Rightarrow> nargs \<Rightarrow> action" where
  "positional dest n = \<lparr>ac_options = [], ac_dest = dest, ac_kind = Store, ac_nargs = n, ac_type = StrArg, ac_default = VNone,
     ac_const = VNone, ac_required = n \<noteq> AtMostOne, ac_group = None\<rparr>"

text \<open>Every parser has the option for help; \<open>add_subparsers\<close> makes a positional argument that is not required.\<close>

definition help_action :: action where
  "help_action = (option_of ''-h'')\<lparr>ac_options := [''-h'', ''--help''], ac_dest := ''help'', ac_kind := Help, ac_nargs := Exactly 0\<rparr>"

definition sub_action :: action where
  "sub_action = (positional '''' SubParser)\<lparr>ac_kind := SubCommand, ac_required := False\<rparr>"

definition optionals :: "parser \<Rightarrow> action list" where
  "optionals P = help_action # pr_options P"

definition actions :: "parser \<Rightarrow> action list" where
  "actions P = optionals P @ (case pr_positional P of None \<Rightarrow> [] | Some a \<Rightarrow> [a])"

definition option_map :: "parser \<Rightarrow> (string \<times> action) list" where
  "option_map P = concat (map (\<lambda>a. map (\<lambda>s. (s, a)) (ac_options a)) (optionals P))"

section \<open>Classes of arguments\<close>

text \<open>An option that was recognised: its action, the option string, the separator and the argument joined to it.\<close>

type_synonym option_tuple = "action option \<times> string \<times> string option \<times> string option"

datatype arg_class = IsArg | IsDash | IsOption option_tuple

definition is_option :: "arg_class \<Rightarrow> bool" where
  "is_option c \<longleftrightarrow> (case c of IsOption _ \<Rightarrow> True | _ \<Rightarrow> False)"

definition partition_eq :: "string \<Rightarrow> string \<times> string option" where
  "partition_eq s = (takeWhile (\<lambda>c. c \<noteq> CHR ''='') s,
     case dropWhile (\<lambda>c. c \<noteq> CHR ''='') s of [] \<Rightarrow> None | _ # r \<Rightarrow> Some r)"

definition starts_with :: "string \<Rightarrow> string \<Rightarrow> bool" where
  "starts_with s p \<longleftrightarrow> take (length p) s = p"

definition option_tuples :: "parser \<Rightarrow> string \<Rightarrow> option_tuple list" where
  "option_tuples P s =
     (if s ! 1 = CHR ''-''
      then (case partition_eq s of (p, ex) \<Rightarrow>
        map (\<lambda>(opt, a). (Some a, opt, map_option (\<lambda>_. ''='') ex, ex)) (filter (\<lambda>(opt, a). starts_with opt p) (option_map P)))
      else concat (map (\<lambda>(opt, a).
          if opt = take 2 s then [(Some a, opt, Some [], Some (drop 2 s))]
          else if starts_with opt s then [(Some a, opt, None, None)] else []) (option_map P)))"

definition all_digits :: "string \<Rightarrow> bool" where
  "all_digits s \<longleftrightarrow> list_all (\<lambda>c. c \<in> set ''0123456789'') s"

definition negative_number :: "string \<Rightarrow> bool" where
  "negative_number s \<longleftrightarrow> (case s of
       [] \<Rightarrow> False
     | c # r \<Rightarrow> c = CHR ''-'' \<and>
         (r \<noteq> [] \<and> all_digits r \<or>
          (case dropWhile (\<lambda>c. c \<noteq> CHR ''.'') r of
             [] \<Rightarrow> False
           | _ # f \<Rightarrow> all_digits (takeWhile (\<lambda>c. c \<noteq> CHR ''.'') r) \<and> f \<noteq> [] \<and> all_digits f)))"

definition parse_optional :: "parser \<Rightarrow> string \<Rightarrow> option_tuple option res" where
  "parse_optional P s =
     (if s = [] \<or> hd s \<noteq> CHR ''-'' then Inr None
      else case map_of (option_map P) s of
          Some a \<Rightarrow> Inr (Some (Some a, s, None, None))
        | None \<Rightarrow>
            if length s = 1 then Inr None
            else case (case partition_eq s of
                   (opt, Some ex) \<Rightarrow> map_option (\<lambda>a. (Some a, opt, Some ''='', Some ex)) (map_of (option_map P) opt)
                 | (_, None) \<Rightarrow> None) of
                Some t \<Rightarrow> Inr (Some t)
              | None \<Rightarrow> (case option_tuples P s of
                  [t] \<Rightarrow> Inr (Some t)
                | _ # _ # _ \<Rightarrow> Inl CommandLineError
                | [] \<Rightarrow> if negative_number s \<or> CHR '' '' \<in> set s then Inr None else Inr (Some (None, s, None, None))))"

fun classify :: "parser \<Rightarrow> string list \<Rightarrow> (string \<times> arg_class) list res" where
  "classify P [] = Inr []"
| "classify P (s # ss) =
     (if s = ''--'' then Inr ((s, IsDash) # map (\<lambda>s. (s, IsArg)) ss)
      else bindR (parse_optional P s) (\<lambda>t. bindR (classify P ss) (\<lambda>cs.
        Inr ((s, case t of None \<Rightarrow> IsArg | Some t \<Rightarrow> IsOption t) # cs))))"

section \<open>Numbers of arguments\<close>

definition run_of :: "('a \<Rightarrow> bool) \<Rightarrow> 'a list \<Rightarrow> nat" where
  "run_of p cs = length (takeWhile p cs)"

text \<open>How many of the next arguments an option takes, and a positional argument, which may have \<open>--\<close> among them.\<close>

fun match_optional :: "nargs \<Rightarrow> arg_class list \<Rightarrow> nat option" where
  "match_optional (Exactly n) cs = (if n \<le> run_of (\<lambda>c. c = IsArg) cs then Some n else None)"
| "match_optional One cs = (if 1 \<le> run_of (\<lambda>c. c = IsArg) cs then Some 1 else None)"
| "match_optional AtMostOne cs = Some (min 1 (run_of (\<lambda>c. c = IsArg) cs))"
| "match_optional OneOrMore cs = (let n = run_of (\<lambda>c. c = IsArg) cs in if n = 0 then None else Some n)"
| "match_optional Remainder cs = Some (run_of (\<lambda>c. c \<noteq> IsDash) cs)"
| "match_optional SubParser cs = (if 1 \<le> run_of (\<lambda>c. c = IsArg) cs then Some (run_of (\<lambda>c. c \<noteq> IsDash) cs) else None)"

fun match_exact :: "nat \<Rightarrow> arg_class list \<Rightarrow> nat option" where
  "match_exact 0 cs = Some (run_of (\<lambda>c. c = IsDash) cs)"
| "match_exact (Suc n) cs = (let d = run_of (\<lambda>c. c = IsDash) cs in
     case drop d cs of
       c # r \<Rightarrow> if c = IsArg then map_option (\<lambda>k. d + 1 + k) (match_exact n r) else None
     | [] \<Rightarrow> None)"

fun match_positional :: "nargs \<Rightarrow> arg_class list \<Rightarrow> nat option" where
  "match_positional (Exactly n) cs = match_exact n cs"
| "match_positional One cs = match_exact 1 cs"
| "match_positional AtMostOne cs = (case match_exact 1 cs of Some k \<Rightarrow> Some k | None \<Rightarrow> match_exact 0 cs)"
| "match_positional OneOrMore cs = (let d = run_of (\<lambda>c. c = IsDash) cs; n = run_of (\<lambda>c. \<not> is_option c) (drop d cs) in
     if n = 0 then None else Some (d + n))"
| "match_positional Remainder cs = Some (length cs)"
| "match_positional SubParser cs = (let d = run_of (\<lambda>c. c = IsDash) cs in
     if take 1 (drop d cs) = [IsArg] then Some (length cs) else None)"

section \<open>Actions\<close>

text \<open>\<open>ArgumentParser.address\<close>\<close>

definition parse_address :: "string \<Rightarrow> int res" where
  "parse_address s = py_int s 16"

definition get_value :: "arg_type \<Rightarrow> string \<Rightarrow> arg_value res" where
  "get_value ty s =
     (let checked = (\<lambda>r. case r of Inr n \<Rightarrow> Inr (VInt n) | Inl e \<Rightarrow> Inl (if catches ValueError e then CommandLineError else e))
      in case ty of StrArg \<Rightarrow> Inr (VStr s) | IntArg \<Rightarrow> checked (py_int s 10) | AddressArg \<Rightarrow> checked (parse_address s))"

definition get_values :: "action \<Rightarrow> string list \<Rightarrow> arg_value res" where
  "get_values a strs =
     (let strs = (if ac_options a = [] \<and> ac_nargs a \<noteq> SubParser \<and> ac_nargs a \<noteq> Remainder then remove1 ''--'' strs else strs)
      in if strs = [] \<and> ac_nargs a = AtMostOne
         then (case if ac_options a = [] then ac_default a else ac_const a of
             VStr s \<Rightarrow> get_value (ac_type a) s | v \<Rightarrow> Inr v)
         else if length strs = 1 \<and> (ac_nargs a = One \<or> ac_nargs a = AtMostOne) then get_value (ac_type a) (hd strs)
         else bindR (mapR (get_value (ac_type a)) strs) (\<lambda>vs. Inr (VList vs)))"

text \<open>
  The state of the parse.  \<open>ps_seen\<close> and \<open>ps_given\<close> are \<open>seen_actions\<close> and \<open>seen_non_default_actions\<close>, \<open>ps_sub\<close> the arguments
  that a sub-command did not recognise.
\<close>

record parse_state =
  ps_ns :: namespace
  ps_seen :: "action list"
  ps_given :: "action list"
  ps_extras :: "string list"
  ps_sub :: "string list"
  ps_left :: "action option"

type_synonym sub_parse = "arg_value list \<Rightarrow> (namespace \<times> string list) res"

definition conflicts :: "action \<Rightarrow> action \<Rightarrow> bool" where
  "conflicts a b \<longleftrightarrow> a \<noteq> b \<and> ac_group a \<noteq> None \<and> ac_group a = ac_group b"

definition merge_ns :: "namespace \<Rightarrow> namespace \<Rightarrow> namespace" where
  "merge_ns ns new = foldl (\<lambda>d kv. AList.update (fst kv) (snd kv) d) ns new"

definition call_action :: "sub_parse \<Rightarrow> action \<Rightarrow> arg_value \<Rightarrow> parse_state \<Rightarrow> parse_state res" where
  "call_action sub a v st = (case ac_kind a of
       Store \<Rightarrow> Inr (st\<lparr>ps_ns := AList.update (ac_dest a) v (ps_ns st)\<rparr>)
     | StoreTrue \<Rightarrow> Inr (st\<lparr>ps_ns := AList.update (ac_dest a) (VBool True) (ps_ns st)\<rparr>)
     | StoreFalse \<Rightarrow> Inr (st\<lparr>ps_ns := AList.update (ac_dest a) (VBool False) (ps_ns st)\<rparr>)
     | Count \<Rightarrow> (case map_of (ps_ns st) (ac_dest a) of
          Some (VInt n) \<Rightarrow> Inr (st\<lparr>ps_ns := AList.update (ac_dest a) (VInt (n + 1)) (ps_ns st)\<rparr>)
        | Some VNone \<Rightarrow> Inr (st\<lparr>ps_ns := AList.update (ac_dest a) (VInt 1) (ps_ns st)\<rparr>)
        | None \<Rightarrow> Inr (st\<lparr>ps_ns := AList.update (ac_dest a) (VInt 1) (ps_ns st)\<rparr>)
        | Some _ \<Rightarrow> Inl TypeError)
     | Help \<Rightarrow> Inl SystemExit
     | SubCommand \<Rightarrow> bindR (sub (case v of VList vs \<Rightarrow> vs | _ \<Rightarrow> [])) (\<lambda>(ns, rest).
          Inr (st\<lparr>ps_ns := merge_ns (ps_ns st) ns, ps_sub := ps_sub st @ rest\<rparr>)))"

definition take_action :: "sub_parse \<Rightarrow> action \<Rightarrow> string list \<Rightarrow> parse_state \<Rightarrow> parse_state res" where
  "take_action sub a strs st = bindR (get_values a strs) (\<lambda>v.
     let st1 = st\<lparr>ps_seen := a # ps_seen st\<rparr>
     in if v = ac_default a then call_action sub a v st1
        else if list_ex (conflicts a) (ps_given st) then Inl CommandLineError
        else call_action sub a v (st1\<lparr>ps_given := a # ps_given st\<rparr>))"

fun take_actions :: "sub_parse \<Rightarrow> (action \<times> string list) list \<Rightarrow> parse_state \<Rightarrow> parse_state res" where
  "take_actions sub [] st = Inr st"
| "take_actions sub ((a, strs) # as) st = bindR (take_action sub a strs st) (take_actions sub as)"

section \<open>The parse\<close>

text \<open>
  The options joined in one argument: the actions with their arguments, what is left unrecognised, and how many of the
  following arguments are used.
\<close>

function joined_options ::
  "parser \<Rightarrow> action \<Rightarrow> string \<Rightarrow> string option \<Rightarrow> string option \<Rightarrow> (string \<times> arg_class) list \<Rightarrow>
   ((action \<times> string list) list \<times> string list \<times> nat) res" where
  "joined_options P a opt sep None rest =
     bindR (of_option CommandLineError (match_optional (ac_nargs a) (map snd rest))) (\<lambda>n.
       Inr ([(a, map fst (take n rest))], [], n))"
| "joined_options P a opt sep (Some e) rest =
     bindR (of_option CommandLineError (match_optional (ac_nargs a) [IsArg])) (\<lambda>k.
       if k = 0 \<and> opt ! 1 \<noteq> CHR ''-'' \<and> e \<noteq> [] then
         (if sep \<noteq> None \<and> sep \<noteq> Some [] \<or> hd e = CHR ''-'' then Inl CommandLineError
          else case map_of (option_map P) [CHR ''-'', hd e] of
              None \<Rightarrow> Inr ([(a, [])], [CHR ''-'' # e], 0)
            | Some a' \<Rightarrow> bindR (case tl e of
                  [] \<Rightarrow> joined_options P a' [CHR ''-'', hd e] None None rest
                | c # r \<Rightarrow>
                    if c = CHR ''='' then joined_options P a' [CHR ''-'', hd e] (Some ''='') (Some r) rest
                    else joined_options P a' [CHR ''-'', hd e] (Some []) (Some (c # r)) rest)
                (\<lambda>(as, extra, n). Inr ((a, []) # as, extra, n)))
       else if k = 1 then Inr ([(a, [e])], [], 0)
       else Inl CommandLineError)"
  by pat_completeness auto
termination
proof (relation "measure (\<lambda>(P, a, opt, sep, ex, rest). case ex of None \<Rightarrow> 0 | Some e \<Rightarrow> Suc (length e))", goal_cases)
  case (3 P a opt sep e rest)
  then show ?case by (cases e) auto
next
  case (4 P a opt sep e rest)
  then show ?case by (cases e) auto
qed auto

definition consume_optional ::
  "sub_parse \<Rightarrow> parser \<Rightarrow> string \<Rightarrow> option_tuple \<Rightarrow> (string \<times> arg_class) list \<Rightarrow> parse_state \<Rightarrow> (parse_state \<times> nat) res" where
  "consume_optional sub P s t rest st = (case t of
       (None, _) \<Rightarrow> Inr (st\<lparr>ps_extras := ps_extras st @ [s]\<rparr>, 0)
     | (Some a, opt, sep, ex) \<Rightarrow> bindR (joined_options P a opt sep ex rest) (\<lambda>(as, extra, n).
         bindR (take_actions sub as (st\<lparr>ps_extras := ps_extras st @ extra\<rparr>)) (\<lambda>st'. Inr (st', n))))"

definition consume_positionals :: "sub_parse \<Rightarrow> (string \<times> arg_class) list \<Rightarrow> parse_state \<Rightarrow> (parse_state \<times> nat) res" where
  "consume_positionals sub toks st = (case ps_left st of
       None \<Rightarrow> Inr (st, 0)
     | Some a \<Rightarrow> (case match_positional (ac_nargs a) (map snd toks) of
          None \<Rightarrow> Inr (st, 0)
        | Some k \<Rightarrow> bindR (take_action sub a (map fst (take k toks)) st) (\<lambda>st'. Inr (st'\<lparr>ps_left := None\<rparr>, k))))"

definition consume_next ::
  "sub_parse \<Rightarrow> parser \<Rightarrow> (string \<times> arg_class) list \<Rightarrow> parse_state \<Rightarrow> (parse_state \<times> (string \<times> arg_class) list) res" where
  "consume_next sub P toks st = (case dropWhile (\<lambda>t. \<not> is_option (snd t)) toks of
       (s, IsOption t) # rest \<Rightarrow> bindR
          (consume_optional sub P s t rest
            (st\<lparr>ps_extras := ps_extras st @ map fst (takeWhile (\<lambda>t. \<not> is_option (snd t)) toks)\<rparr>))
          (\<lambda>(st', n). Inr (st', drop n rest))
     | _ \<Rightarrow> Inr (st, []))"

lemma consume_next_shorter:
  "consume_next sub P toks st = Inr (st', rest) \<Longrightarrow> toks \<noteq> [] \<Longrightarrow> length rest < length toks"
proof -
  assume "consume_next sub P toks st = Inr (st', rest)" and ne: "toks \<noteq> []"
  then have "rest = [] \<or> length rest < length (dropWhile (\<lambda>t. \<not> is_option (snd t)) toks)"
    by (auto simp: consume_next_def bindR_eq_Inr split: list.splits arg_class.splits)
  then show ?thesis using length_dropWhile_le [of "\<lambda>t. \<not> is_option (snd t)" toks] ne by auto
qed

function parse_loop :: "sub_parse \<Rightarrow> parser \<Rightarrow> (string \<times> arg_class) list \<Rightarrow> parse_state \<Rightarrow> parse_state res" where
  "parse_loop sub P toks st =
     (if \<not> list_ex (\<lambda>t. is_option (snd t)) toks
      then bindR (consume_positionals sub toks st) (\<lambda>(st1, k).
        Inr (st1\<lparr>ps_extras := ps_extras st1 @ map fst (drop k toks)\<rparr>))
      else bindR (if is_option (snd (hd toks)) then Inr (st, 0) else consume_positionals sub toks st) (\<lambda>(st1, k).
        if 0 < k then parse_loop sub P (drop k toks) st1
        else bindR (consume_next sub P toks st1) (\<lambda>(st2, rest). parse_loop sub P rest st2)))"
  by pat_completeness auto
termination
proof (relation "measure (\<lambda>(sub, P, toks, st). length toks)", goal_cases)
  case (2 sub P toks st x st1 k)
  then have "toks \<noteq> []" by auto
  then show ?case using 2 by simp
next
  case (3 sub P toks st x st1 k y st2 rest)
  then have "toks \<noteq> []" by auto
  then show ?case using 3 by (auto intro: consume_next_shorter)
qed simp

definition initial_ns :: "parser \<Rightarrow> namespace" where
  "initial_ns P = map (\<lambda>a. (ac_dest a, ac_default a)) (filter (\<lambda>a. ac_kind a \<noteq> Help \<and> ac_kind a \<noteq> SubCommand) (actions P)) @
     pr_defaults P"

definition parse_known_args :: "sub_parse \<Rightarrow> parser \<Rightarrow> string list \<Rightarrow> (namespace \<times> string list) res" where
  "parse_known_args sub P argv = bindR (classify P argv) (\<lambda>toks.
     bindR (parse_loop sub P toks
       \<lparr>ps_ns = initial_ns P, ps_seen = [], ps_given = [], ps_extras = [], ps_sub = [], ps_left = pr_positional P\<rparr>) (\<lambda>st.
     if list_ex (\<lambda>a. ac_required a \<and> a \<notin> set (ps_seen st)) (actions P) then Inl CommandLineError
     else Inr (ps_ns st, ps_extras st @ ps_sub st)))"

text \<open>\<open>add_parser\<close>: the sub-command that the first argument names parses the others.\<close>

definition sub_parser :: "(string \<times> parser) list \<Rightarrow> sub_parse" where
  "sub_parser subs vs = (case vs of
       VStr name # rest \<Rightarrow> bindR (of_option CommandLineError (map_of subs name)) (\<lambda>P.
         parse_known_args (\<lambda>_. Inl CommandLineError) P (map (\<lambda>v. case v of VStr s \<Rightarrow> s | _ \<Rightarrow> []) rest))
     | _ \<Rightarrow> Inl CommandLineError)"

definition parse_args :: "parser \<Rightarrow> (string \<times> parser) list \<Rightarrow> string list \<Rightarrow> namespace res" where
  "parse_args P subs argv = bindR (parse_known_args (sub_parser subs) P argv) (\<lambda>(ns, extras).
     if extras = [] then Inr ns else Inl CommandLineError)"

declare parse_loop.simps [simp del]
declare joined_options.simps [simp del]

section \<open>The parsers of the commands\<close>

definition parser_of :: "action list \<Rightarrow> action option \<Rightarrow> parser" where
  "parser_of opts pos = \<lparr>pr_options = opts, pr_positional = pos, pr_defaults = []\<rparr>"

text \<open>\<open>set_defaults(subcommand=self.method)\<close>\<close>

definition with_method :: "string \<Rightarrow> parser \<Rightarrow> parser" where
  "with_method m P = P\<lparr>pr_defaults := [(''subcommand'', VMethod m)]\<rparr>"

definition sub_commands_parser :: parser where
  "sub_commands_parser = parser_of [] (Some sub_action)"

text \<open>\<open>add_mutually_exclusive_group\<close>\<close>

definition exclusive :: "nat \<Rightarrow> action list \<Rightarrow> action list" where
  "exclusive g as = map (\<lambda>a. a\<lparr>ac_group := Some g\<rparr>) as"

definition ps_parser :: parser where
  "ps_parser = parser_of
     (exclusive 0 [store_true ''-k'', store_true ''-u'', store_true ''-G''] @
      exclusive 1 [store_true ''-s'', store_true ''-n''] @
      exclusive 2 [store_true ''-p'', store_true ''-c'', store_true ''-t'', store_true ''-l'', store_true ''-a'', store_true ''-g'',
        store_true ''-r''])
     (Some (positional ''args'' Remainder))"

definition kmem_parser :: parser where
  "kmem_parser = parser_of
     (exclusive 0 [(store_true ''-s'')\<lparr>ac_dest := ''slabcheck''\<rparr>,
        (option_of ''-S'')\<lparr>ac_kind := Count, ac_nargs := Exactly 0, ac_dest := ''slablist''\<rparr>, store_true ''-z'', store_true ''-V''])
     (Some (positional ''address'' AtMostOne))"

definition vtop_parser :: parser where
  "vtop_parser = parser_of (exclusive 0 [store_true ''-u'', store_true ''-k''] @ [store_true ''-c'']) (Some (positional ''args'' OneOrMore))"

definition cgroup_parser :: parser where
  "cgroup_parser = parser_of
     (exclusive 0 [(option_of ''-t'')\<lparr>ac_type := IntArg, ac_default := VBool False\<rparr>,
        (option_of ''-g'')\<lparr>ac_type := AddressArg, ac_default := VBool False\<rparr>,
        (option_of ''-s'')\<lparr>ac_type := IntArg, ac_default := VBool False\<rparr>,
        (option_of ''-c'')\<lparr>ac_nargs := Exactly 2, ac_default := VBool False\<rparr>]) None"

definition lsmod_parser :: parser where
  "lsmod_parser = parser_of [(option_of ''-p'')\<lparr>ac_nargs := AtMostOne, ac_const := VInt (- 1), ac_type := IntArg\<rparr>]
     (Some (positional ''args'' Remainder))"

definition log_parser :: parser where
  "log_parser = parser_of [store_true ''-t'', store_true ''-d'', store_true ''-m''] None"

definition mount_parser :: parser where
  "mount_parser = parser_of [store_true ''-v'', store_true ''-f'', store_true ''-d''] None"

definition dev_parser :: parser where
  "dev_parser = parser_of [(store_true ''-d'')\<lparr>ac_required := True\<rparr>] None"

definition sys_parser :: parser where
  "sys_parser = parser_of [] (Some (positional ''config'' AtMostOne))"

definition help_parser :: parser where
  "help_parser = parser_of [] (Some (positional ''args'' Remainder))"

definition task_parser :: parser where
  "task_parser = parser_of [] (Some ((positional ''pid'' Remainder)\<lparr>ac_type := IntArg\<rparr>))"

definition xfs_subparsers :: "(string \<times> parser) list" where
  "xfs_subparsers =
     [(''show'', with_method ''show_xfs'' (parser_of [] (Some (positional ''addr'' One)))),
      (''list'', with_method ''list_xfs'' (parser_of [] None)),
      (''dump-ail'', with_method ''dump_ail'' (parser_of [] (Some (positional ''addr'' One)))),
      (''dump-buft'', with_method ''dump_buftargs'' (parser_of [] (Some (positional ''addr'' One))))]"

definition kernfs_subparsers :: "(string \<times> parser) list" where
  "kernfs_subparsers =
     [(''ls'', with_method ''command_ls'' (parser_of
        [(option_of ''-R'')\<lparr>ac_type := IntArg, ac_default := VInt 0\<rparr>,
         (option_of ''-f'')\<lparr>ac_kind := StoreFalse, ac_nargs := Exactly 0, ac_default := VBool True, ac_const := VBool False\<rparr>]
        (Some ((positional ''kn'' One)\<lparr>ac_type := AddressArg\<rparr>))))]"

definition btrfs_subparsers :: "(string \<times> parser) list" where
  "btrfs_subparsers = [(''list'', with_method ''list_btrfs'' (parser_of [store_true ''-m''] None))]"

section \<open>What an action is given\<close>

text \<open>The number of values that \<open>get_values\<close> converts fits the action: for a positional argument \<open>--\<close> does not count.\<close>

definition value_strs :: "action \<Rightarrow> string list \<Rightarrow> string list" where
  "value_strs a strs = (if ac_options a = [] \<and> ac_nargs a \<noteq> SubParser \<and> ac_nargs a \<noteq> Remainder then remove1 ''--'' strs else strs)"

definition fits :: "action \<Rightarrow> string list \<Rightarrow> bool" where
  "fits a strs \<longleftrightarrow> (case ac_nargs a of
       One \<Rightarrow> length (value_strs a strs) = 1
     | AtMostOne \<Rightarrow> length (value_strs a strs) \<le> 1
     | OneOrMore \<Rightarrow> 1 \<le> length (value_strs a strs)
     | Exactly n \<Rightarrow> length (value_strs a strs) = n
     | _ \<Rightarrow> True)"

text \<open>Up to \<open>--\<close> no argument is \<open>--\<close>, after it all are arguments.\<close>

definition dashed :: "(string \<times> arg_class) list \<Rightarrow> bool" where
  "dashed toks \<longleftrightarrow> (\<exists>pre post. toks = pre @ post \<and> (\<forall>t \<in> set pre. snd t \<noteq> IsDash \<and> fst t \<noteq> ''--'') \<and>
     (post = [] \<or> (\<exists>ss. post = (''--'', IsDash) # map (\<lambda>s. (s, IsArg)) ss)))"

lemma dashed_take: "dashed toks \<Longrightarrow> dashed (take k toks)"
proof -
  assume "dashed toks"
  then obtain pre post where p: "toks = pre @ post" "\<forall>t \<in> set pre. snd t \<noteq> IsDash \<and> fst t \<noteq> ''--''"
    "post = [] \<or> (\<exists>ss. post = (''--'', IsDash) # map (\<lambda>s. (s, IsArg)) ss)" by (auto simp: dashed_def)
  have "take (k - length pre) post = [] \<or> (\<exists>ss. take (k - length pre) post = (''--'', IsDash) # map (\<lambda>s. (s, IsArg)) ss)"
    using p(3) by (cases "k - length pre") (auto simp: take_map)
  then show ?thesis unfolding dashed_def using p(1, 2)
    by (intro exI [of _ "take k pre"] exI [of _ "take (k - length pre) post"]) (auto dest: in_set_takeD)
qed

lemma dashed_count:
  "dashed toks \<Longrightarrow> length (remove1 ''--'' (map fst toks)) = length (filter (\<lambda>t. snd t \<noteq> IsDash) toks)"
proof -
  assume "dashed toks"
  then obtain pre post where p: "toks = pre @ post" "\<forall>t \<in> set pre. snd t \<noteq> IsDash \<and> fst t \<noteq> ''--''"
    "post = [] \<or> (\<exists>ss. post = (''--'', IsDash) # map (\<lambda>s. (s, IsArg)) ss)" by (auto simp: dashed_def)
  have "''--'' \<notin> fst ` set pre" using p(2) by auto
  moreover have "filter (\<lambda>t. snd t \<noteq> IsDash) pre = pre" using p(2) by (simp add: filter_id_conv)
  ultimately show ?thesis using p(1, 3) by (auto simp: remove1_append remove1_idem filter_map comp_def)
qed

lemma run_of_take: "n \<le> run_of p cs \<Longrightarrow> list_all p (take n cs) \<and> n \<le> length cs"
proof -
  assume n: "n \<le> run_of p cs"
  have "take n cs = take n (takeWhile p cs)"
    using n by (metis run_of_def takeWhile_eq_take take_take min.absorb1)
  then show ?thesis using n length_takeWhile_le [of p cs] set_takeWhileD [of _ p cs]
    by (auto simp: run_of_def list_all_iff dest: in_set_takeD)
qed

lemma match_optional_run:
  assumes "match_optional na cs = Some n"
  shows "n \<le> run_of (\<lambda>c. c \<noteq> IsDash) cs"
proof -
  have "run_of (\<lambda>c. c = IsArg) cs \<le> run_of (\<lambda>c. c \<noteq> IsDash) cs" by (induction cs) (auto simp: run_of_def)
  then show ?thesis using assms by (cases na) (auto simp: Let_def split: if_splits)
qed

lemma match_optional_fits:
  assumes "match_optional (ac_nargs a) (map snd rest) = Some n" and "ac_options a \<noteq> []"
  shows "fits a (map fst (take n rest))" and "\<forall>t \<in> set (take n rest). snd t \<noteq> IsDash"
proof -
  from run_of_take [OF match_optional_run [OF assms(1)]] have len: "n \<le> length rest" and "\<forall>t \<in> set (take n rest). snd t \<noteq> IsDash"
    by (auto simp: list_all_iff take_map)
  then show "\<forall>t \<in> set (take n rest). snd t \<noteq> IsDash" by blast
  show "fits a (map fst (take n rest))"
    using assms len by (cases "ac_nargs a") (auto simp: fits_def value_strs_def Let_def split: if_splits)
qed

lemma filter_run_of: "filter (\<lambda>c. c \<noteq> x) (take (run_of (\<lambda>c. c = x) cs) cs) = []"
  by (induction cs) (simp_all add: run_of_def)

lemma match_exact_Suc:
  assumes "match_exact (Suc n) cs = Some k" and "d = run_of (\<lambda>c. c = IsDash) cs"
  obtains r j where "drop d cs = IsArg # r" "match_exact n r = Some j" "k = d + (1 + j)"
  using assms by (cases "drop d cs") (auto simp: Let_def split: if_splits)

declare match_exact.simps [simp del]

lemma match_exact_count: "match_exact n cs = Some k \<Longrightarrow> length (filter (\<lambda>c. c \<noteq> IsDash) (take k cs)) = n"
proof (induction n arbitrary: cs k)
  case 0
  then have "k = run_of (\<lambda>c. c = IsDash) cs" by (simp add: match_exact.simps)
  then show ?case by (simp only: filter_run_of list.size)
next
  case (Suc n)
  define d where "d = run_of (\<lambda>c. c = IsDash) cs"
  obtain r j where r: "drop d cs = IsArg # r" "match_exact n r = Some j" "k = d + (1 + j)"
    using match_exact_Suc [OF Suc.prems d_def] by blast
  have "filter (\<lambda>c. c \<noteq> IsDash) (take d cs) = []" unfolding d_def by (rule filter_run_of)
  moreover have "take k cs = take d cs @ IsArg # take j r" unfolding r(3) take_add r(1) by simp
  ultimately show ?case using Suc.IH [OF r(2)] by simp
qed

lemma match_positional_fits:
  assumes "match_positional (ac_nargs a) (map snd toks) = Some k" and "dashed toks" and "ac_options a = []"
  shows "fits a (map fst (take k toks))"
proof -
  have "length (filter (\<lambda>c. c \<noteq> IsDash) (take k (map snd toks))) = length (filter (\<lambda>t. snd t \<noteq> IsDash) (take k toks))"
    by (simp add: take_map filter_map comp_def)
  then have count: "length (remove1 ''--'' (map fst (take k toks))) = length (filter (\<lambda>c. c \<noteq> IsDash) (take k (map snd toks)))"
    using dashed_count [OF dashed_take [OF assms(2)]] by simp
  show ?thesis
  proof (cases "ac_nargs a")
    case OneOrMore
    define d where "d = run_of (\<lambda>c. c = IsDash) (map snd toks)"
    have "k = d + run_of (\<lambda>c. \<not> is_option c) (drop d (map snd toks))" "run_of (\<lambda>c. \<not> is_option c) (drop d (map snd toks)) \<noteq> 0"
      using assms(1) OneOrMore by (auto simp: d_def Let_def split: if_splits)
    then obtain c r where c: "drop d (map snd toks) = c # r" "d < k"
      by (cases "drop d (map snd toks)") (auto simp: run_of_def)
    have "c \<noteq> IsDash" using c(1) by (auto simp: d_def run_of_def dropWhile_eq_drop [symmetric] dropWhile_eq_Cons_conv)
    moreover have "c \<in> set (take k (map snd toks))" using c
      by (metis in_set_conv_nth length_take min_less_iff_conj nth_take drop_eq_nths hd_drop_conv_nth length_drop
          list.sel(1) list.size(3) neq_Nil_conv zero_less_diff length_greater_0_conv list.discI)
    ultimately have "filter (\<lambda>c. c \<noteq> IsDash) (take k (map snd toks)) \<noteq> []" by (auto simp: filter_empty_conv)
    then show ?thesis using OneOrMore assms(3) count by (simp add: fits_def value_strs_def Suc_le_eq)
  next
    case AtMostOne
    then have "match_exact 1 (map snd toks) = Some k \<or> match_exact 0 (map snd toks) = Some k"
      using assms(1) by (auto split: option.splits)
    then show ?thesis using AtMostOne assms(3) count match_exact_count [of _ "map snd toks" k]
      by (fastforce simp: fits_def value_strs_def)
  qed (use assms count match_exact_count [of _ "map snd toks" k] in \<open>auto simp: fits_def value_strs_def\<close>)
qed

section \<open>Invariants of a parse\<close>

definition own_option :: "parser \<Rightarrow> action \<Rightarrow> bool" where
  "own_option P a \<longleftrightarrow> (\<exists>s. (s, a) \<in> set (option_map P))"

lemma own_option_iff: "own_option P a \<longleftrightarrow> a \<in> set (optionals P) \<and> ac_options a \<noteq> []"
  by (auto simp: own_option_def option_map_def image_iff ex_in_conv)

definition own_tokens :: "parser \<Rightarrow> (string \<times> arg_class) list \<Rightarrow> bool" where
  "own_tokens P toks \<longleftrightarrow> (\<forall>t \<in> set toks. \<forall>a x. snd t = IsOption (Some a, x) \<longrightarrow> own_option P a)"

lemma own_option_lookup: "map_of (option_map P) s = Some a \<Longrightarrow> own_option P a"
  unfolding own_option_def by (blast dest: map_of_SomeD)

lemma option_tuples_own: "(Some a, x) \<in> set (option_tuples P s) \<Longrightarrow> own_option P a"
  by (auto simp: option_tuples_def own_option_def split: if_splits prod.splits)

lemma parse_optional_own: "parse_optional P s = Inr (Some (Some a, x)) \<Longrightarrow> own_option P a"
proof -
  assume p: "parse_optional P s = Inr (Some (Some a, x))"
  have "map_of (option_map P) opt = Some a \<Longrightarrow> own_option P a" for opt by (rule own_option_lookup)
  then show ?thesis using p option_tuples_own [of a x P s]
    by (auto simp: parse_optional_def split: if_splits option.splits list.splits prod.splits)
qed

lemma classify_own: "classify P ss = Inr toks \<Longrightarrow> own_tokens P toks"
proof (induction ss arbitrary: toks)
  case (Cons s ss)
  then show ?case
    by (auto simp: own_tokens_def bindR_eq_Inr parse_optional_own split: if_splits option.splits)
qed (simp add: own_tokens_def)

lemma dashed_Cons: "dashed toks \<Longrightarrow> s \<noteq> ''--'' \<Longrightarrow> c \<noteq> IsDash \<Longrightarrow> dashed ((s, c) # toks)"
  unfolding dashed_def by (elim exE) (rule_tac x = "(s, c) # pre" in exI, auto)

lemma classify_dashed: "classify P ss = Inr toks \<Longrightarrow> dashed toks"
proof (induction ss arbitrary: toks)
  case Nil
  then show ?case by (simp add: dashed_def)
next
  case (Cons s ss)
  show ?case
  proof (cases "s = ''--''")
    case True
    then have "toks = [] @ ((''--'', IsDash) # map (\<lambda>s. (s, IsArg)) ss)" using Cons.prems by simp
    then show ?thesis unfolding dashed_def by fastforce
  next
    case False
    then obtain t cs where "classify P ss = Inr cs" "toks = (s, case t of None \<Rightarrow> IsArg | Some t \<Rightarrow> IsOption t) # cs"
      using Cons.prems by (auto simp: bindR_eq_Inr)
    then show ?thesis using Cons.IH False by (auto intro!: dashed_Cons split: option.splits)
  qed
qed

lemma joined_options_fit:
  assumes "joined_options P a opt sep ex rest = Inr (as, extra, n)" and "own_option P a"
  shows "(\<forall>(b, strs) \<in> set as. own_option P b \<and> fits b strs) \<and> (\<forall>t \<in> set (take n rest). snd t \<noteq> IsDash)"
  using assms
proof (induction P a opt sep ex rest arbitrary: as extra n rule: joined_options.induct)
  case (1 P a opt sep rest)
  then show ?case using match_optional_fits [of a rest n] own_option_iff [of P a]
    by (auto simp: joined_options.simps bindR_eq_Inr)
next
  case (2 P a opt sep e rest)
  obtain k where k: "match_optional (ac_nargs a) [IsArg] = Some k" using 2(4) by (auto simp: joined_options.simps bindR_eq_Inr)
  have fit: "fits a (take k [e])"
    using match_optional_fits(1) [of a "[(e, IsArg)]" k] k own_option_iff [of P a] 2(5) by (simp add: take_map [symmetric])
  consider "k = 0" "opt ! 1 \<noteq> CHR ''-''" "e \<noteq> []" | "k = 1" "as = [(a, [e])]" "n = 0"
    using 2(4) k by (auto simp: joined_options.simps split: if_splits)
  then show ?case
  proof cases
    case 1
    then have hd: "\<not> (sep \<noteq> None \<and> sep \<noteq> Some [] \<or> hd e = CHR ''-'')"
      using 2(4) k by (auto simp: joined_options.simps split: if_splits)
    show ?thesis
    proof (cases "map_of (option_map P) [CHR ''-'', hd e]")
      case None
      then show ?thesis using 2(4, 5) k 1 hd fit by (auto simp: joined_options.simps split: if_splits)
    next
      case (Some a')
      have own: "own_option P a'" using Some by (rule own_option_lookup)
      have "\<exists>as'. as = (a, []) # as' \<and> (\<forall>(b, strs) \<in> set as'. own_option P b \<and> fits b strs) \<and> (\<forall>t \<in> set (take n rest). snd t \<noteq> IsDash)"
      proof (cases "tl e")
        case Nil
        then show ?thesis using 2(4) 2(1) [OF _ _ hd Some Nil] own k 1 hd Some
          by (auto simp: joined_options.simps(2) bindR_eq_Inr)
      next
        case (Cons c r)
        then show ?thesis using 2(4) 2(2) [OF _ _ hd Some Cons] 2(3) [OF _ _ hd Some Cons] own k 1 hd Some
          by (cases "c = CHR ''=''") (auto simp: joined_options.simps(2) bindR_eq_Inr)
      qed
      then show ?thesis using fit 1 2(5) by auto
    qed
  next
    case 2
    then show ?thesis using fit \<open>own_option P a\<close> by simp
  qed
qed

definition own_action :: "parser \<Rightarrow> action \<Rightarrow> bool" where
  "own_action P a \<longleftrightarrow> own_option P a \<or> pr_positional P = Some a"

definition parse_start :: "parser \<Rightarrow> parse_state" where
  "parse_start P = \<lparr>ps_ns = initial_ns P, ps_seen = [], ps_given = [], ps_extras = [], ps_sub = [], ps_left = pr_positional P\<rparr>"

lemma take_action_left: "take_action sub a strs st = Inr st' \<Longrightarrow> ps_left st' = ps_left st"
  by (auto simp: take_action_def call_action_def bindR_eq_Inr Let_def
      split: if_splits action_kind.splits option.splits arg_value.splits)

lemma dashed_drop:
  assumes "dashed toks" and "\<forall>t \<in> set (take n toks). snd t \<noteq> IsDash"
  shows "dashed (drop n toks)"
proof -
  obtain pre post where p: "toks = pre @ post" "\<forall>t \<in> set pre. snd t \<noteq> IsDash \<and> fst t \<noteq> ''--''"
    "post = [] \<or> (\<exists>ss. post = (''--'', IsDash) # map (\<lambda>s. (s, IsArg)) ss)" using assms(1) by (auto simp: dashed_def)
  have "drop (n - length pre) post = post"
    using assms(2) p(1, 3) by (cases "n - length pre") auto
  then show ?thesis unfolding dashed_def using p
    by (intro exI [of _ "drop n pre"] exI [of _ post]) (auto dest: in_set_dropD)
qed

lemma dashed_before_option:
  assumes "dashed (xs @ (s, IsOption t) # rest)"
  shows "dashed rest"
proof -
  obtain pre post where p: "xs @ (s, IsOption t) # rest = pre @ post" "\<forall>t \<in> set pre. snd t \<noteq> IsDash \<and> fst t \<noteq> ''--''"
    "post = [] \<or> (\<exists>ss. post = (''--'', IsDash) # map (\<lambda>s. (s, IsArg)) ss)" using assms by (auto simp: dashed_def)
  then have "(s, IsOption t) \<notin> set post" by auto
  then obtain us where "pre = xs @ (s, IsOption t) # us" "rest = us @ post"
    using p(1) by (auto simp: append_eq_append_conv2 Cons_eq_append_conv)
  then show ?thesis unfolding dashed_def using p(2, 3) by auto
qed

text \<open>
  A property of the state that every action of the parser keeps, when it is given a fitting number of values, holds at the
  end of a parse.
\<close>

locale parse_invariant =
  fixes P :: parser and sub :: sub_parse and Q :: "parse_state \<Rightarrow> bool"
  assumes step: "own_action P a \<Longrightarrow> fits a strs \<Longrightarrow> Q st \<Longrightarrow> take_action sub a strs st = Inr st' \<Longrightarrow> Q st'"
    and extras: "Q st \<Longrightarrow> Q (st\<lparr>ps_extras := e\<rparr>)"
    and left: "Q st \<Longrightarrow> Q (st\<lparr>ps_left := l\<rparr>)"
begin

lemma take_actions_keep:
  "\<forall>(a, strs) \<in> set as. own_option P a \<and> fits a strs \<Longrightarrow> Q st \<Longrightarrow> take_actions sub as st = Inr st' \<Longrightarrow>
   Q st' \<and> ps_left st' = ps_left st"
proof (induction as arbitrary: st)
  case (Cons a as)
  obtain b strs where a: "a = (b, strs)" by (cases a)
  obtain st1 where st1: "take_action sub b strs st = Inr st1" "take_actions sub as st1 = Inr st'"
    using Cons.prems(3) by (auto simp: a bindR_eq_Inr)
  then have "Q st1" using step [of b strs st st1] Cons.prems(1, 2) by (auto simp: a own_action_def)
  then show ?case using Cons.IH [of st1] Cons.prems(1) st1 by (simp add: take_action_left)
qed simp

definition holds :: "(string \<times> arg_class) list \<Rightarrow> parse_state \<Rightarrow> bool" where
  "holds toks st \<longleftrightarrow> Q st \<and> own_tokens P toks \<and> (\<forall>a. pr_positional P = Some a \<longrightarrow> ac_options a = []) \<and>
     (ps_left st = None \<or> ps_left st = pr_positional P \<and> dashed toks)"

lemma consume_positionals_keep:
  assumes "consume_positionals sub toks st = Inr (st', k)" and "holds toks st"
  shows "Q st'" and "ps_left st' = None \<or> k = 0 \<and> st' = st"
proof -
  have "Q st' \<and> (ps_left st' = None \<or> k = 0 \<and> st' = st)"
  proof (cases "ps_left st")
    case (Some a)
    then have a: "pr_positional P = Some a" "dashed toks" "ac_options a = []" using assms(2) by (auto simp: holds_def)
    then show ?thesis using assms Some match_positional_fits [of a toks] step [of a _ st]
      by (auto simp: consume_positionals_def holds_def own_action_def bindR_eq_Inr split: option.splits intro!: left)
  qed (use assms in \<open>simp add: consume_positionals_def holds_def\<close>)
  then show "Q st'" "ps_left st' = None \<or> k = 0 \<and> st' = st" by auto
qed

lemma consume_next_keep:
  assumes "consume_next sub P toks st = Inr (st', rest)" and "holds toks st"
  shows "holds rest st'"
proof (cases "dropWhile (\<lambda>t. \<not> is_option (snd t)) toks")
  case Nil
  have "st' = st" "rest = []" using assms(1) unfolding consume_next_def Nil by simp_all
  moreover have "dashed []" "own_tokens P []" by (simp_all add: dashed_def own_tokens_def)
  ultimately show ?thesis using assms(2) by (auto simp: holds_def)
next
  case (Cons tok r)
  then have "is_option (snd tok)" by (metis dropWhile_eq_Cons_conv)
  then obtain s t where tok: "tok = (s, IsOption t)" by (cases tok) (auto simp: is_option_def split: arg_class.splits)
  let ?xs = "takeWhile (\<lambda>t. \<not> is_option (snd t)) toks"
  have toks: "toks = ?xs @ (s, IsOption t) # r" using takeWhile_dropWhile_id Cons tok by metis
  then have own: "own_tokens P ((s, IsOption t) # r)" using assms(2) unfolding holds_def own_tokens_def
    by (metis Un_iff set_append)
  have dashed: "dashed r" if "dashed toks" using that toks dashed_before_option by metis
  define st0 where "st0 = st\<lparr>ps_extras := ps_extras st @ map fst ?xs\<rparr>"
  have Q0: "Q st0" "ps_left st0 = ps_left st" using assms(2) by (simp_all add: st0_def holds_def extras)
  obtain n where n: "consume_optional sub P s t r st0 = Inr (st', n)" "rest = drop n r"
    using assms(1) by (auto simp: consume_next_def Cons tok st0_def bindR_eq_Inr)
  have "Q st' \<and> ps_left st' = ps_left st \<and> (dashed r \<longrightarrow> dashed (drop n r))"
  proof (cases t)
    case (fields ao opt sep ex)
    show ?thesis
    proof (cases ao)
      case None
      then show ?thesis using n fields Q0 extras [of st0] by (auto simp: consume_optional_def)
    next
      case (Some a)
      then obtain as extra where j: "joined_options P a opt sep ex r = Inr (as, extra, n)"
        "take_actions sub as (st0\<lparr>ps_extras := ps_extras st0 @ extra\<rparr>) = Inr st'"
        using n(1) fields by (auto simp: consume_optional_def bindR_eq_Inr)
      have "own_option P a" using own by (auto simp: own_tokens_def fields Some)
      from joined_options_fit [OF j(1) this] show ?thesis
        using take_actions_keep [OF _ extras [OF Q0(1)] j(2)] Q0(2) dashed_drop [of r n] by auto
    qed
  qed
  moreover have "own_tokens P rest" using own n(2) by (auto simp: own_tokens_def dest: in_set_dropD)
  ultimately show ?thesis using assms(2) dashed n(2) by (auto simp: holds_def)
qed

lemma parse_loop_keep: "parse_loop sub P toks st = Inr st' \<Longrightarrow> holds toks st \<Longrightarrow> Q st'"
proof (induction "length toks" arbitrary: toks st rule: less_induct)
  case less
  show ?case
  proof (cases "list_ex (\<lambda>t. is_option (snd t)) toks")
    case False
    then obtain st1 k where "consume_positionals sub toks st = Inr (st1, k)"
      "st' = st1\<lparr>ps_extras := ps_extras st1 @ map fst (drop k toks)\<rparr>"
      using less.prems(1) by (subst (asm) parse_loop.simps) (auto simp: bindR_eq_Inr)
    then show ?thesis using consume_positionals_keep(1) less.prems(2) extras by blast
  next
    case True
    then have ne: "toks \<noteq> []" by auto
    obtain st1 k where st1: "(if is_option (snd (hd toks)) then Inr (st, 0) else consume_positionals sub toks st) = Inr (st1, k)"
      and rest: "(if 0 < k then parse_loop sub P (drop k toks) st1
        else bindR (consume_next sub P toks st1) (\<lambda>(st2, rest). parse_loop sub P rest st2)) = Inr st'"
      using less.prems(1) True by (subst (asm) parse_loop.simps) (fastforce simp: bindR_eq_Inr)
    have keep: "Q st1" "ps_left st1 = None \<or> k = 0 \<and> st1 = st"
      using st1 consume_positionals_keep [of toks st st1 k] less.prems(2) by (auto simp: holds_def split: if_splits)
    show ?thesis
    proof (cases "0 < k")
      case pos: True
      then have "holds (drop k toks) st1"
        using keep less.prems(2) by (auto simp: holds_def own_tokens_def dest: in_set_dropD)
      then show ?thesis using less.hyps [of "drop k toks" st1] pos ne rest by simp
    next
      case False
      then obtain st2 r where n: "consume_next sub P toks st1 = Inr (st2, r)" "parse_loop sub P r st2 = Inr st'"
        using rest by (auto simp: bindR_eq_Inr)
      have "holds toks st1" using keep less.prems(2) by (auto simp: holds_def)
      then have "holds r st2" using consume_next_keep n(1) by blast
      then show ?thesis using less.hyps [of r st2] consume_next_shorter [OF n(1) ne] n(2) by blast
    qed
  qed
qed

lemma parse_known_keeps:
  assumes "parse_known_args sub P argv = Inr (ns, rest)" and "Q (parse_start P)"
    and "\<And>a. pr_positional P = Some a \<Longrightarrow> ac_options a = []"
  shows "\<exists>st. Q st \<and> ns = ps_ns st \<and> (\<forall>a \<in> set (actions P). ac_required a \<longrightarrow> a \<in> set (ps_seen st))"
proof -
  obtain toks st where toks: "classify P argv = Inr toks" and st: "parse_loop sub P toks (parse_start P) = Inr st"
    and ns: "\<not> list_ex (\<lambda>a. ac_required a \<and> a \<notin> set (ps_seen st)) (actions P)" "ns = ps_ns st"
    using assms(1) by (auto simp: parse_known_args_def parse_start_def [symmetric] bindR_eq_Inr split: if_splits)
  have "holds toks (parse_start P)"
    using toks classify_own classify_dashed assms(2, 3) by (auto simp: holds_def parse_start_def)
  then have "Q st" using parse_loop_keep st by blast
  then show ?thesis using ns by (auto simp: list_ex_iff)
qed

end

section \<open>Types of the results\<close>

definition value_actions :: "parser \<Rightarrow> action list" where
  "value_actions P = filter (\<lambda>a. ac_kind a \<noteq> Help \<and> ac_kind a \<noteq> SubCommand) (actions P)"

text \<open>Parsers without sub-commands, whose actions write to attributes of their own.\<close>

definition leaf_action :: "action \<Rightarrow> bool" where
  "leaf_action a \<longleftrightarrow> (case ac_default a of VList _ \<Rightarrow> False | _ \<Rightarrow> True) \<and>
     (case ac_kind a of
        Store \<Rightarrow> ac_nargs a \<noteq> SubParser
      | Count \<Rightarrow> ac_nargs a = Exactly 0 \<and> ac_default a = VNone
      | SubCommand \<Rightarrow> False
      | _ \<Rightarrow> ac_nargs a = Exactly 0)"

definition leaf_parser :: "parser \<Rightarrow> bool" where
  "leaf_parser P \<longleftrightarrow> list_all leaf_action (actions P) \<and> distinct (map fst (initial_ns P)) \<and>
     (case pr_positional P of None \<Rightarrow> True | Some a \<Rightarrow> ac_options a = [])"

fun scalar :: "arg_type \<Rightarrow> arg_value \<Rightarrow> bool" where
  "scalar StrArg (VStr s) = True"
| "scalar IntArg (VInt n) = True"
| "scalar AddressArg (VInt n) = True"
| "scalar _ _ = False"

text \<open>A value that an argument can have when it was given.\<close>

definition given_value :: "action \<Rightarrow> arg_value \<Rightarrow> bool" where
  "given_value a v \<longleftrightarrow> (case ac_kind a of
       StoreTrue \<Rightarrow> v = VBool True
     | StoreFalse \<Rightarrow> v = VBool False
     | Count \<Rightarrow> (case v of VInt n \<Rightarrow> 0 < n | _ \<Rightarrow> False)
     | _ \<Rightarrow> (case ac_nargs a of
          One \<Rightarrow> scalar (ac_type a) v
        | AtMostOne \<Rightarrow> v = ac_const a \<or> scalar (ac_type a) v
        | OneOrMore \<Rightarrow> (case v of VList vs \<Rightarrow> vs \<noteq> [] \<and> list_all (scalar (ac_type a)) vs | _ \<Rightarrow> False)
        | Exactly n \<Rightarrow> (case v of VList vs \<Rightarrow> length vs = n \<and> list_all (scalar (ac_type a)) vs | _ \<Rightarrow> False)
        | _ \<Rightarrow> (case v of VList vs \<Rightarrow> list_all (scalar (ac_type a)) vs | _ \<Rightarrow> False)))"

definition typed_ns :: "parser \<Rightarrow> namespace \<Rightarrow> bool" where
  "typed_ns P ns \<longleftrightarrow>
     (\<forall>a \<in> set (value_actions P). \<exists>v. map_of ns (ac_dest a) = Some v \<and> (v = ac_default a \<or> given_value a v)) \<and>
     (\<forall>k. k \<notin> ac_dest ` set (value_actions P) \<longrightarrow> map_of ns k = map_of (pr_defaults P) k) \<and> distinct (map fst ns)"

lemma get_value_scalar: "get_value ty s = Inr v \<Longrightarrow> scalar ty v"
  by (cases ty) (auto simp: get_value_def split: sum.splits)

lemma get_values_list:
  "mapR (get_value ty) strs = Inr vs \<Longrightarrow> list_all (scalar ty) vs"
  by (induction strs arbitrary: vs) (auto simp: bindR_eq_Inr get_value_scalar)

lemma get_values_given:
  assumes "get_values a strs = Inr v" and "fits a strs" and "ac_kind a = Store"
  shows "v = ac_default a \<or> given_value a v"
proof -
  have eq: "get_values a strs = (if value_strs a strs = [] \<and> ac_nargs a = AtMostOne
     then (case if ac_options a = [] then ac_default a else ac_const a of VStr s \<Rightarrow> get_value (ac_type a) s | v \<Rightarrow> Inr v)
     else if length (value_strs a strs) = 1 \<and> (ac_nargs a = One \<or> ac_nargs a = AtMostOne)
     then get_value (ac_type a) (hd (value_strs a strs))
     else bindR (mapR (get_value (ac_type a)) (value_strs a strs)) (\<lambda>vs. Inr (VList vs)))"
    unfolding get_values_def value_strs_def Let_def by (rule refl)
  consider (default) "value_strs a strs = []" "ac_nargs a = AtMostOne"
    | (one) "length (value_strs a strs) = 1" "ac_nargs a = One \<or> ac_nargs a = AtMostOne"
    | (list) vs where "mapR (get_value (ac_type a)) (value_strs a strs) = Inr vs" "v = VList vs" "ac_nargs a \<noteq> One" "ac_nargs a \<noteq> AtMostOne"
    using assms(1, 2) unfolding eq fits_def
    by (cases "ac_nargs a") (auto simp: bindR_eq_Inr le_Suc_eq split: if_splits)
  then show ?thesis
  proof cases
    case default
    then show ?thesis using assms(1, 3) get_value_scalar [of "ac_type a" _ v] unfolding eq
      by (auto simp: given_value_def split: if_splits arg_value.splits)
  next
    case one
    then have "scalar (ac_type a) v" using assms(1) get_value_scalar unfolding eq by (auto split: if_splits)
    then show ?thesis using one assms(3) by (auto simp: given_value_def)
  next
    case list
    then show ?thesis using assms(2, 3) mapR_length [OF list(1)] get_values_list [OF list(1)]
      by (cases "ac_nargs a") (auto simp: given_value_def fits_def)
  qed
qed

text \<open>What an action that belongs to a parser without sub-commands does to the attributes.\<close>

lemma own_action_in: "own_action P a \<Longrightarrow> a \<in> set (actions P)"
  by (auto simp: own_action_def own_option_iff actions_def)

lemma take_action_leaf:
  assumes "take_action sub a strs st = Inr st'" and "leaf_action a" and "fits a strs"
  obtains v w where "ps_ns st' = AList.update (ac_dest a) w (ps_ns st)"
    and "ps_given st' = (if v = ac_default a then ps_given st else a # ps_given st)"
    and "v = ac_default a \<or> \<not> list_ex (conflicts a) (ps_given st)"
    and "ac_kind a \<noteq> Help" and "ac_kind a \<noteq> SubCommand"
    and "v = ac_default a \<longrightarrow> w = ac_default a"
    and "(\<exists>u. map_of (ps_ns st) (ac_dest a) = Some u \<and> (u = ac_default a \<or> given_value a u)) \<longrightarrow> w = ac_default a \<or> given_value a w"
proof -
  obtain v where v: "get_values a strs = Inr v" using assms(1) by (auto simp: take_action_def bindR_eq_Inr)
  have list: "\<exists>vs. v = VList vs" if "ac_nargs a = Exactly 0"
    using v that by (auto simp: get_values_def Let_def bindR_eq_Inr split: if_splits)
  have flag: "v \<noteq> ac_default a" if "ac_kind a \<noteq> Store"
    using list assms(2) that by (cases "ac_kind a") (auto simp: leaf_action_def split: arg_value.splits)
  have kinds: "ac_kind a \<noteq> Help" "ac_kind a \<noteq> SubCommand"
    using assms(1, 2) v by (auto simp: take_action_def call_action_def leaf_action_def Let_def split: if_splits)
  show ?thesis
  proof (cases "ac_kind a = Store")
    case True
    then show ?thesis using that [of v v] assms(1) v get_values_given [OF v assms(3) True]
      by (auto simp: take_action_def call_action_def Let_def split: if_splits)
  next
    case False
    then show ?thesis using assms(1, 2) v flag kinds that
      by (cases "ac_kind a")
         (auto simp: take_action_def call_action_def Let_def leaf_action_def given_value_def
           split: if_splits option.splits arg_value.splits)
  qed
qed

lemma value_dests: "leaf_parser P \<Longrightarrow> a \<in> set (value_actions P) \<Longrightarrow> b \<in> set (value_actions P) \<Longrightarrow> ac_dest a = ac_dest b \<Longrightarrow> a = b"
  by (auto simp: leaf_parser_def initial_ns_def value_actions_def [symmetric] comp_def distinct_map dest: inj_onD)

lemma leaf_step:
  assumes "leaf_parser P" and "own_action P a" and "fits a strs" and "take_action sub a strs st = Inr st'"
  obtains v w where "a \<in> set (value_actions P)" and "ps_ns st' = AList.update (ac_dest a) w (ps_ns st)"
    and "ps_given st' = (if v = ac_default a then ps_given st else a # ps_given st)"
    and "v = ac_default a \<or> \<not> list_ex (conflicts a) (ps_given st)" and "v = ac_default a \<longrightarrow> w = ac_default a"
    and "(\<exists>u. map_of (ps_ns st) (ac_dest a) = Some u \<and> (u = ac_default a \<or> given_value a u)) \<longrightarrow> w = ac_default a \<or> given_value a w"
proof -
  have "leaf_action a" using assms(1) own_action_in [OF assms(2)] by (simp add: leaf_parser_def list_all_iff)
  then obtain v w where
    vw: "ps_ns st' = AList.update (ac_dest a) w (ps_ns st)" "ps_given st' = (if v = ac_default a then ps_given st else a # ps_given st)"
    "v = ac_default a \<or> \<not> list_ex (conflicts a) (ps_given st)" "ac_kind a \<noteq> Help" "ac_kind a \<noteq> SubCommand"
    "v = ac_default a \<longrightarrow> w = ac_default a"
    "(\<exists>u. map_of (ps_ns st) (ac_dest a) = Some u \<and> (u = ac_default a \<or> given_value a u)) \<longrightarrow> w = ac_default a \<or> given_value a w"
    by (rule take_action_leaf [OF assms(4) _ assms(3)])
  have "a \<in> set (value_actions P)" using own_action_in [OF assms(2)] vw(4, 5) by (simp add: value_actions_def)
  from that [OF this vw(1-3, 6, 7)] show ?thesis .
qed

definition types_kept :: "parser \<Rightarrow> parse_state \<Rightarrow> bool" where
  "types_kept P st \<longleftrightarrow> (leaf_parser P \<longrightarrow> typed_ns P (ps_ns st))"

interpretation types: parse_invariant P sub "types_kept P" for P sub
proof
  fix a strs st st'
  assume own: "own_action P a" and fit: "fits a strs" and Q: "types_kept P st" and act: "take_action sub a strs st = Inr st'"
  show "types_kept P st'"
  proof (cases "leaf_parser P")
    case True
    obtain v w where a: "a \<in> set (value_actions P)" and ns: "ps_ns st' = AList.update (ac_dest a) w (ps_ns st)"
      and w: "(\<exists>u. map_of (ps_ns st) (ac_dest a) = Some u \<and> (u = ac_default a \<or> given_value a u)) \<longrightarrow> w = ac_default a \<or> given_value a w"
      by (rule leaf_step [OF True own fit act])
    have "w = ac_default a \<or> given_value a w" using w Q a True by (auto simp: types_kept_def typed_ns_def)
    then show ?thesis using Q True a value_dests [OF True] ns
      by (auto simp: types_kept_def typed_ns_def update_conv' distinct_update)
  qed (simp add: types_kept_def)
qed (simp_all add: types_kept_def)

definition exclusion_kept :: "parser \<Rightarrow> parse_state \<Rightarrow> bool" where
  "exclusion_kept P st \<longleftrightarrow> (leaf_parser P \<longrightarrow>
     (\<forall>a \<in> set (value_actions P). map_of (ps_ns st) (ac_dest a) \<noteq> Some (ac_default a) \<longrightarrow> a \<in> set (ps_given st)) \<and>
     (\<forall>a \<in> set (ps_given st). \<forall>b \<in> set (ps_given st). \<not> conflicts a b))"

lemma conflicts_sym: "conflicts a b \<longleftrightarrow> conflicts b a"
  unfolding conflicts_def by metis

interpretation exclusion: parse_invariant P sub "exclusion_kept P" for P sub
proof
  fix a strs st st'
  assume own: "own_action P a" and fit: "fits a strs" and Q: "exclusion_kept P st" and act: "take_action sub a strs st = Inr st'"
  show "exclusion_kept P st'"
  proof (cases "leaf_parser P")
    case True
    obtain v w where a: "a \<in> set (value_actions P)" and ns: "ps_ns st' = AList.update (ac_dest a) w (ps_ns st)"
      and given: "ps_given st' = (if v = ac_default a then ps_given st else a # ps_given st)"
      and conf: "v = ac_default a \<or> \<not> list_ex (conflicts a) (ps_given st)" and w: "v = ac_default a \<longrightarrow> w = ac_default a"
      by (rule leaf_step [OF True own fit act])
    have "\<forall>b \<in> set (value_actions P). map_of (ps_ns st') (ac_dest b) \<noteq> Some (ac_default b) \<longrightarrow> b \<in> set (ps_given st')"
      using Q True w given a value_dests [OF True] by (auto simp: exclusion_kept_def ns update_conv' split: if_splits)
    moreover have "\<forall>b \<in> set (ps_given st'). \<forall>c \<in> set (ps_given st'). \<not> conflicts b c"
      using Q True conf conflicts_sym unfolding given by (auto simp: exclusion_kept_def list_ex_iff conflicts_def)
    ultimately show ?thesis by (simp add: exclusion_kept_def)
  qed (simp add: exclusion_kept_def)
qed (simp_all add: exclusion_kept_def)

lemma initial_ns_lookup:
  assumes "leaf_parser P" and "a \<in> set (value_actions P)"
  shows "map_of (initial_ns P) (ac_dest a) = Some (ac_default a)"
proof -
  have "(ac_dest a, ac_default a) \<in> set (initial_ns P)" using assms(2) by (auto simp: initial_ns_def value_actions_def)
  then show ?thesis using assms(1) by (simp add: leaf_parser_def)
qed

lemma parse_known_typed:
  assumes "leaf_parser P" and "parse_known_args sub P argv = Inr (ns, rest)"
  shows "typed_ns P ns"
proof -
  have "map_of (initial_ns P) k = map_of (pr_defaults P) k" if "k \<notin> ac_dest ` set (value_actions P)" for k
    using that by (auto simp: initial_ns_def value_actions_def map_add_def map_of_eq_None_iff image_iff split: option.splits dest!: map_of_SomeD)
  then have "types_kept P (parse_start P)"
    using initial_ns_lookup assms(1) by (auto simp: types_kept_def typed_ns_def parse_start_def leaf_parser_def)
  moreover have "\<And>a. pr_positional P = Some a \<Longrightarrow> ac_options a = []" using assms(1) by (simp add: leaf_parser_def)
  ultimately show ?thesis using types.parse_known_keeps [OF assms(2)] assms(1) by (auto simp: types_kept_def)
qed

lemma parse_known_exclusive:
  assumes "leaf_parser P" and "parse_known_args sub P argv = Inr (ns, rest)"
    and "a \<in> set (value_actions P)" and "b \<in> set (value_actions P)" and "conflicts a b"
  shows "map_of ns (ac_dest a) = Some (ac_default a) \<or> map_of ns (ac_dest b) = Some (ac_default b)"
proof -
  have "exclusion_kept P (parse_start P)"
    using initial_ns_lookup assms(1) by (auto simp: exclusion_kept_def parse_start_def)
  moreover have "\<And>a. pr_positional P = Some a \<Longrightarrow> ac_options a = []" using assms(1) by (simp add: leaf_parser_def)
  ultimately obtain st where "exclusion_kept P st" "ns = ps_ns st" using exclusion.parse_known_keeps [OF assms(2)] by blast
  then show ?thesis using assms(1, 3-5) unfolding exclusion_kept_def by blast
qed

text \<open>The parsers of the commands without sub-commands, and the sub-commands of the others.\<close>

definition command_parsers :: "parser list" where
  "command_parsers = [ps_parser, kmem_parser, vtop_parser, cgroup_parser, lsmod_parser, log_parser, mount_parser, dev_parser, sys_parser,
     help_parser, task_parser]"

definition command_subparsers :: "(string \<times> parser) list list" where
  "command_subparsers = [xfs_subparsers, kernfs_subparsers, btrfs_subparsers]"

lemma leaf_parsers: "list_all leaf_parser command_parsers" "list_all (list_all (\<lambda>(name, P). leaf_parser P)) command_subparsers"
  by code_simp+

lemma command_parser_leaf: "P \<in> set command_parsers \<Longrightarrow> leaf_parser P"
  using leaf_parsers(1) by (simp add: list_all_iff)


definition ex_cgroup_ns :: namespace where
  "ex_cgroup_ns = [(''t'', VBool False), (''g'', VBool False), (''s'', VBool False), (''c'', VList [VStr ''cpu'', VStr ''weight''])]"




section \<open>Sub-commands\<close>

definition dispatched :: "(string \<times> parser) list \<Rightarrow> namespace \<Rightarrow> bool" where
  "dispatched subs ns \<longleftrightarrow> (\<exists>P \<in> snd ` set subs.
     (\<forall>a \<in> set (value_actions P). \<exists>v. map_of ns (ac_dest a) = Some v \<and> (v = ac_default a \<or> given_value a v)) \<and>
     (\<forall>m. map_of (pr_defaults P) ''subcommand'' = Some m \<and> ''subcommand'' \<notin> ac_dest ` set (value_actions P) \<longrightarrow>
        map_of ns ''subcommand'' = Some m))"

definition dispatch_kept :: "(string \<times> parser) list \<Rightarrow> parse_state \<Rightarrow> bool" where
  "dispatch_kept subs st \<longleftrightarrow> (list_all (\<lambda>(name, P). leaf_parser P) subs \<longrightarrow> ps_ns st = [] \<or> dispatched subs (ps_ns st))"

lemma merge_ns_lookup: "distinct (map fst new) \<Longrightarrow> map_of new k = Some v \<Longrightarrow> map_of (merge_ns ns new) k = Some v"
proof -
  assume d: "distinct (map fst new)" and v: "map_of new k = Some v"
  have "map_of (merge_ns ns new) = map_of ns ++ map_of (rev new)"
    unfolding merge_ns_def by (induction new arbitrary: ns) (simp_all add: update_conv' map_add_def fun_eq_iff split: option.splits)
  then show ?thesis using d v by (simp add: map_of_rev_distinct)
qed

lemma sub_parser_dispatched:
  assumes "sub_parser subs vs = Inr (new, rest)" and "list_all (\<lambda>(name, P). leaf_parser P) subs"
  shows "dispatched subs (merge_ns ns new)"
proof -
  obtain name P argv where P: "map_of subs name = Some P" "parse_known_args (\<lambda>_. Inl CommandLineError) P argv = Inr (new, rest)"
    using assms(1) by (auto simp: sub_parser_def bindR_eq_Inr split: list.splits arg_value.splits)
  have leaf: "leaf_parser P" using P(1) assms(2) by (auto simp: list_all_iff dest: map_of_SomeD)
  have new: "typed_ns P new" using leaf P(2) by (rule parse_known_typed)
  have merge: "map_of new k = Some v \<Longrightarrow> map_of (merge_ns ns new) k = Some v" for k v
    using new by (intro merge_ns_lookup) (auto simp: typed_ns_def)
  have "\<forall>a \<in> set (value_actions P). \<exists>v. map_of (merge_ns ns new) (ac_dest a) = Some v \<and> (v = ac_default a \<or> given_value a v)"
    using new merge unfolding typed_ns_def by metis
  moreover have "map_of (merge_ns ns new) ''subcommand'' = Some m"
    if "map_of (pr_defaults P) ''subcommand'' = Some m" "''subcommand'' \<notin> ac_dest ` set (value_actions P)" for m
    using new that merge unfolding typed_ns_def by metis
  moreover have "P \<in> snd ` set subs" using P(1) by (metis map_of_SomeD image_eqI snd_conv)
  ultimately show ?thesis unfolding dispatched_def by blast
qed

interpretation dispatch: parse_invariant sub_commands_parser "sub_parser subs" "dispatch_kept subs" for subs
proof
  fix a strs st st'
  assume own: "own_action sub_commands_parser a" and Q: "dispatch_kept subs st" and act: "take_action (sub_parser subs) a strs st = Inr st'"
  have "a = help_action \<or> a = sub_action"
    using own by (auto simp: own_action_def own_option_iff sub_commands_parser_def parser_of_def optionals_def)
  then have kind: "ac_kind a = Help \<or> ac_kind a = SubCommand" by (auto simp: help_action_def sub_action_def)
  obtain vs new rest where "sub_parser subs vs = Inr (new, rest)" "ps_ns st' = merge_ns (ps_ns st) new"
    using act kind by (auto simp: take_action_def call_action_def bindR_eq_Inr Let_def split: if_splits)
  then show "dispatch_kept subs st'" using sub_parser_dispatched by (auto simp: dispatch_kept_def)
qed (simp_all add: dispatch_kept_def)

lemma sub_methods:
  assumes "subs \<in> set command_subparsers" and "P \<in> snd ` set subs"
  obtains m where "pr_defaults P = [(''subcommand'', VMethod m)]" and "''subcommand'' \<notin> ac_dest ` set (value_actions P)"
proof -
  have "list_all (list_all (\<lambda>(name, P). (case pr_defaults P of [(k, VMethod m)] \<Rightarrow> k = ''subcommand'' | _ \<Rightarrow> False) \<and>
      ''subcommand'' \<notin> set (map ac_dest (value_actions P)))) command_subparsers" by code_simp
  then have "(case pr_defaults P of [(k, VMethod m)] \<Rightarrow> k = ''subcommand'' | _ \<Rightarrow> False) \<and> ''subcommand'' \<notin> set (map ac_dest (value_actions P))"
    using assms by (fastforce simp: list_all_iff)
  then show ?thesis using that by (auto split: list.splits prod.splits arg_value.splits)
qed


definition ex_ls_ns :: namespace where
  "ex_ls_ns = [(''R'', VInt 2), (''f'', VBool True), (''kn'', VInt 255), (''subcommand'', VMethod ''command_ls'')]"


section \<open>Flags and names\<close>

text \<open>A string that is no option of any parser, and a flag whose option the parser finds.\<close>

definition plain_arg :: "string \<Rightarrow> bool" where
  "plain_arg s \<longleftrightarrow> s = [] \<or> hd s \<noteq> CHR ''-''"

definition flag_option :: "parser \<Rightarrow> action \<Rightarrow> bool" where
  "flag_option P a \<longleftrightarrow> ac_kind a = StoreTrue \<and> ac_nargs a = Exactly 0 \<and> ac_options a \<noteq> [] \<and>
     (case ac_default a of VList _ \<Rightarrow> False | _ \<Rightarrow> True) \<and> hd (ac_options a) \<noteq> [] \<and> hd (hd (ac_options a)) = CHR ''-'' \<and>
     hd (ac_options a) \<noteq> ''--'' \<and> map_of (option_map P) (hd (ac_options a)) = Some a"

definition flag_token :: "action \<Rightarrow> string \<times> arg_class" where
  "flag_token a = (hd (ac_options a), IsOption (Some a, hd (ac_options a), None, None))"

definition set_flags :: "action list \<Rightarrow> namespace \<Rightarrow> namespace" where
  "set_flags fs ns = foldl (\<lambda>ns a. AList.update (ac_dest a) (VBool True) ns) ns fs"

lemma classify_plain: "\<forall>s \<in> set ss. plain_arg s \<Longrightarrow> classify P ss = Inr (map (\<lambda>s. (s, IsArg)) ss)"
  by (induction ss) (auto simp: plain_arg_def parse_optional_def)

lemma classify_flags:
  "\<forall>a \<in> set fs. flag_option P a \<Longrightarrow> \<forall>s \<in> set ss. plain_arg s \<Longrightarrow>
   classify P (map (\<lambda>a. hd (ac_options a)) fs @ ss) = Inr (map flag_token fs @ map (\<lambda>s. (s, IsArg)) ss)"
  by (induction fs) (simp_all add: classify_plain flag_option_def flag_token_def parse_optional_def)

lemma take_flag:
  assumes "flag_option P a" and "\<not> list_ex (conflicts a) (ps_given st)"
  shows "take_action sub a [] st = Inr (st\<lparr>ps_ns := AList.update (ac_dest a) (VBool True) (ps_ns st),
    ps_seen := a # ps_seen st, ps_given := a # ps_given st\<rparr>)"
proof -
  have "get_values a [] = Inr (VList [])" using assms(1) by (simp add: get_values_def flag_option_def Let_def)
  moreover have "VList [] \<noteq> ac_default a" using assms(1) by (auto simp: flag_option_def split: arg_value.splits)
  ultimately show ?thesis using assms by (simp add: take_action_def call_action_def flag_option_def Let_def)
qed

lemma parse_loop_flag:
  assumes "flag_option P a" and "\<not> list_ex (conflicts a) (ps_given st)"
  shows "parse_loop sub P (flag_token a # toks) st = parse_loop sub P toks
    (st\<lparr>ps_ns := AList.update (ac_dest a) (VBool True) (ps_ns st), ps_seen := a # ps_seen st, ps_given := a # ps_given st\<rparr>)"
proof -
  have "joined_options P a (hd (ac_options a)) None None toks = Inr ([(a, [])], [], 0)"
    using assms(1) by (simp add: joined_options.simps flag_option_def)
  then have "consume_next sub P (flag_token a # toks) st = Inr
      (st\<lparr>ps_ns := AList.update (ac_dest a) (VBool True) (ps_ns st), ps_seen := a # ps_seen st, ps_given := a # ps_given st\<rparr>, toks)"
    using take_flag [OF assms] by (simp add: consume_next_def flag_token_def is_option_def consume_optional_def)
  then show ?thesis by (subst parse_loop.simps) (simp add: flag_token_def is_option_def)
qed

lemma parse_loop_flags:
  assumes "\<forall>a \<in> set fs. flag_option P a" and "\<forall>a \<in> set fs. \<forall>b \<in> set fs \<union> set (ps_given st). \<not> conflicts a b"
  shows "parse_loop sub P (map flag_token fs @ toks) st = parse_loop sub P toks
    (st\<lparr>ps_ns := set_flags fs (ps_ns st), ps_seen := rev fs @ ps_seen st, ps_given := rev fs @ ps_given st\<rparr>)"
  using assms
proof (induction fs arbitrary: st)
  case (Cons a fs)
  let ?st = "st\<lparr>ps_ns := AList.update (ac_dest a) (VBool True) (ps_ns st), ps_seen := a # ps_seen st, ps_given := a # ps_given st\<rparr>"
  have "parse_loop sub P (map flag_token (a # fs) @ toks) st = parse_loop sub P (map flag_token fs @ toks) ?st"
    using Cons.prems by (simp add: parse_loop_flag list_ex_iff)
  then show ?case using Cons.IH [of ?st] Cons.prems by (simp add: set_flags_def)
qed (simp add: set_flags_def)

lemma parse_names:
  assumes "ps_left st = Some a" and "ac_nargs a = Remainder" and "ac_type a = StrArg" and "ac_kind a = Store" and "ac_group a = None"
  shows "\<exists>given. parse_loop sub P (map (\<lambda>s. (s, IsArg)) ss) st = Inr (st\<lparr>ps_ns := AList.update (ac_dest a) (VList (map VStr ss)) (ps_ns st),
    ps_seen := a # ps_seen st, ps_given := given, ps_left := None\<rparr>)"
proof -
  have "mapR (get_value StrArg) ss = Inr (map VStr ss)" by (intro mapR_Inr) (simp add: get_value_def)
  then have "get_values a ss = Inr (VList (map VStr ss))" using assms(2, 3) by (simp add: get_values_def Let_def)
  moreover have "\<not> list_ex (conflicts a) (ps_given st)" using assms(5) by (simp add: conflicts_def list_ex_iff)
  moreover define given where "given = (if VList (map VStr ss) = ac_default a then ps_given st else a # ps_given st)"
  ultimately have "take_action sub a ss st = Inr (st\<lparr>ps_ns := AList.update (ac_dest a) (VList (map VStr ss)) (ps_ns st),
      ps_seen := a # ps_seen st, ps_given := given\<rparr>)"
    using assms(4) by (cases st) (auto simp: take_action_def call_action_def Let_def)
  then show ?thesis using assms(1, 2) by (intro exI [of _ given], subst parse_loop.simps)
    (simp add: list_ex_iff is_option_def consume_positionals_def comp_def)
qed

lemma parse_flags_names:
  assumes "\<forall>a \<in> set fs. flag_option P a" and "\<forall>a \<in> set fs. \<forall>b \<in> set fs. \<not> conflicts a b" and "\<forall>s \<in> set ss. plain_arg s"
    and "pr_positional P = Some p" and "ac_nargs p = Remainder" and "ac_type p = StrArg" and "ac_kind p = Store" and "ac_group p = None"
    and "\<forall>a \<in> set (optionals P). \<not> ac_required a"
  shows "parse_args P subs (map (\<lambda>a. hd (ac_options a)) fs @ ss) =
    Inr (AList.update (ac_dest p) (VList (map VStr ss)) (set_flags fs (initial_ns P)))"
proof -
  let ?st = "(parse_start P)\<lparr>ps_ns := set_flags fs (initial_ns P), ps_seen := rev fs, ps_given := rev fs\<rparr>"
  have flags: "parse_loop sub P (map flag_token fs @ toks) (parse_start P) = parse_loop sub P toks ?st" for sub toks
    using parse_loop_flags [of fs P "parse_start P"] assms(1, 2) by (simp add: parse_start_def)
  obtain given where names: "parse_loop (sub_parser subs) P (map (\<lambda>s. (s, IsArg)) ss) ?st = Inr (?st\<lparr>ps_ns :=
      AList.update (ac_dest p) (VList (map VStr ss)) (set_flags fs (initial_ns P)), ps_seen := p # rev fs, ps_given := given, ps_left := None\<rparr>)"
    using parse_names [of ?st p "sub_parser subs" P ss] assms(4-8) by (auto simp: parse_start_def)
  have "\<not> list_ex (\<lambda>a. ac_required a \<and> a \<notin> set (p # rev fs)) (actions P)"
    using assms(4, 9) by (auto simp: actions_def list_ex_iff)
  then show ?thesis
    by (simp add: parse_args_def parse_known_args_def parse_start_def [symmetric] classify_flags [OF assms(1, 3)] flags names)
       (simp add: parse_start_def)
qed

text \<open>
  An argument that takes the remainder takes all from the first name on: options after it are not seen, so that
  \<^verbatim>\<open>ps init -k\<close> lists tasks of that name without the filter.
\<close>

lemma classify_strings: "classify P ss = Inr toks \<Longrightarrow> map fst toks = ss"
  by (induction ss arbitrary: toks) (auto simp: bindR_eq_Inr comp_def split: if_splits)

lemma parse_remainder:
  assumes "plain_arg s" and "classify P (s # ss) = Inr toks"
    and "pr_positional P = Some p" and "ac_nargs p = Remainder" and "ac_type p = StrArg" and "ac_kind p = Store" and "ac_group p = None"
    and "\<forall>a \<in> set (optionals P). \<not> ac_required a"
  shows "parse_args P subs (s # ss) = Inr (AList.update (ac_dest p) (VList (map VStr (s # ss))) (initial_ns P))"
proof -
  have fst: "map fst toks = s # ss" using assms(2) by (rule classify_strings)
  obtain r where toks: "toks = (s, IsArg) # r"
    using assms(1, 2) by (auto simp: plain_arg_def parse_optional_def bindR_eq_Inr split: if_splits)
  have "mapR (get_value StrArg) (s # ss) = Inr (map VStr (s # ss))" by (intro mapR_Inr) (simp add: get_value_def)
  then have "get_values p (s # ss) = Inr (VList (map VStr (s # ss)))" using assms(4, 5) by (simp add: get_values_def Let_def)
  moreover have "list_ex (conflicts p) (ps_given (parse_start P)) = False" by (simp add: parse_start_def)
  moreover define given where "given = (if VList (map VStr (s # ss)) = ac_default p then [] else [p])"
  ultimately have "take_action sub p (s # ss) (parse_start P) = Inr ((parse_start P)\<lparr>ps_ns :=
      AList.update (ac_dest p) (VList (map VStr (s # ss))) (initial_ns P), ps_seen := [p], ps_given := given\<rparr>)" for sub
    using assms(6) by (auto simp: take_action_def call_action_def Let_def parse_start_def)
  then have "consume_positionals sub toks (parse_start P) = Inr ((parse_start P)\<lparr>ps_ns :=
      AList.update (ac_dest p) (VList (map VStr (s # ss))) (initial_ns P), ps_seen := [p], ps_given := given, ps_left := None\<rparr>, length toks)" for sub
    using assms(3, 4) by (simp add: consume_positionals_def parse_start_def fst)
  then have "parse_loop sub P toks (parse_start P) = Inr ((parse_start P)\<lparr>ps_ns :=
      AList.update (ac_dest p) (VList (map VStr (s # ss))) (initial_ns P), ps_seen := [p], ps_given := given, ps_left := None\<rparr>)" for sub
    by (subst parse_loop.simps) (simp add: toks is_option_def parse_start_def parse_loop.simps [of _ _ "[]"] consume_positionals_def)
  moreover have "\<not> list_ex (\<lambda>a. ac_required a \<and> a \<notin> set [p]) (actions P)"
    using assms(3, 8) by (auto simp: actions_def list_ex_iff)
  ultimately show ?thesis
    unfolding parse_args_def parse_known_args_def parse_start_def [symmetric] assms(2) by (simp add: parse_start_def)
qed

text \<open>The option \<open>-p\<close> of \<open>lsmod\<close> takes the name that follows it for the number of a CPU.\<close>

lemma lsmod_percpu_name:
  assumes "plain_arg s" and "py_int s 10 = Inl e"
  shows "parse_args lsmod_parser [] [''-p'', s] = Inl CommandLineError"
proof -
  let ?p = "(option_of ''-p'')\<lparr>ac_nargs := AtMostOne, ac_const := VInt (- 1), ac_type := IntArg\<rparr>"
  have "map_of (option_map lsmod_parser) ''-p'' = Some ?p" by code_simp
  then have cls: "classify lsmod_parser [''-p'', s] = Inr [flag_token ?p, (s, IsArg)]"
    using assms(1) by (auto simp: flag_token_def option_of_def parse_optional_def plain_arg_def)
  have caught: "catches ValueError ValueError" by code_simp
  have "e = ValueError" using assms(2) by (auto simp: py_int_def of_option_def split: option.splits)
  then have "get_values ?p [s] = Inl CommandLineError"
    using assms(2) caught by (simp add: get_values_def get_value_def option_of_def)
  then have "parse_loop sub lsmod_parser [flag_token ?p, (s, IsArg)] st = Inl CommandLineError" for sub st
    by (subst parse_loop.simps) (simp add: flag_token_def is_option_def consume_next_def consume_optional_def joined_options.simps
        run_of_def option_of_def take_action_def)
  then show ?thesis by (simp add: parse_args_def parse_known_args_def cls del: classify.simps)
qed

lemma lsmod_percpu_name_example: "parse_args lsmod_parser [] [''-p'', ''ext*''] = Inl CommandLineError"
  by code_simp

end
