(* ===== verification/Command_Lines.thy ===== *)
theory Command_Lines
  imports Argparse File_Commands Vtop Printk
begin

text \<open>
  The commands as the user calls them: \<open>Command.invoke\<close> of \<^verbatim>\<open>crash/commands/__init__.py\<close> with the parser of each command
  (theory \<open>Argparse\<close>) and its \<open>execute\<close>.  The attributes of the parsed arguments become the arguments of the definitions
  that model \<open>execute\<close>.
\<close>

section \<open>Attributes\<close>

definition ns_flag :: "namespace \<Rightarrow> string \<Rightarrow> bool" where
  "ns_flag ns k \<longleftrightarrow> map_of ns k = Some (VBool True)"

definition ns_int :: "namespace \<Rightarrow> string \<Rightarrow> int option" where
  "ns_int ns k = (case map_of ns k of Some (VInt n) \<Rightarrow> Some n | _ \<Rightarrow> None)"

definition ns_str :: "namespace \<Rightarrow> string \<Rightarrow> string option" where
  "ns_str ns k = (case map_of ns k of Some (VStr s) \<Rightarrow> Some s | _ \<Rightarrow> None)"

definition ns_list :: "namespace \<Rightarrow> string \<Rightarrow> arg_value list" where
  "ns_list ns k = (case map_of ns k of Some (VList vs) \<Rightarrow> vs | _ \<Rightarrow> [])"

definition ns_strs :: "namespace \<Rightarrow> string \<Rightarrow> string list" where
  "ns_strs ns k = map (\<lambda>v. case v of VStr s \<Rightarrow> s | _ \<Rightarrow> []) (ns_list ns k)"

definition ns_ints :: "namespace \<Rightarrow> string \<Rightarrow> int list" where
  "ns_ints ns k = map (\<lambda>v. case v of VInt n \<Rightarrow> n | _ \<Rightarrow> 0) (ns_list ns k)"

definition ps_args_of :: "namespace \<Rightarrow> ps_args" where
  "ps_args_of ns = \<lparr>arg_s = ns_flag ns ''s'', arg_n = ns_flag ns ''n'', arg_k = ns_flag ns ''k'', arg_u = ns_flag ns ''u'',
     arg_G = ns_flag ns ''G'', arg_l = ns_flag ns ''l'',
     arg_unimplemented = list_ex (ns_flag ns) [''p'', ''c'', ''t'', ''a'', ''g'', ''r''],
     arg_pattern = (case ns_strs ns ''args'' of [] \<Rightarrow> None | p # _ \<Rightarrow> Some p)\<rparr>"

definition kmem_args_of :: "namespace \<Rightarrow> kmem_args" where
  "kmem_args_of ns = \<lparr>ka_slabcheck = ns_flag ns ''slabcheck'', ka_slablist = (case ns_int ns ''slablist'' of Some n \<Rightarrow> nat n | None \<Rightarrow> 0),
     ka_z = ns_flag ns ''z'', ka_V = ns_flag ns ''V'', ka_address = ns_str ns ''address''\<rparr>"

definition cgroup_args_of :: "namespace \<Rightarrow> cgroup_args" where
  "cgroup_args_of ns = \<lparr>ca_t = ns_int ns ''t'', ca_g = ns_int ns ''g'', ca_s = ns_int ns ''s'', ca_c = (ns_list ns ''c'' \<noteq> [])\<rparr>"

definition log_args_of :: "namespace \<Rightarrow> log_args" where
  "log_args_of ns = \<lparr>arg_t = ns_flag ns ''t'', arg_d = ns_flag ns ''d'', arg_m = ns_flag ns ''m''\<rparr>"

section \<open>The commands\<close>

definition run_command :: "string \<Rightarrow> parser \<Rightarrow> (string \<times> parser) list \<Rightarrow> (namespace \<Rightarrow> string gen) \<Rightarrow> string list res \<Rightarrow> cmd_out gen" where
  "run_command name P subs execute argv = invoke (command_name name) argv (parse_args P subs) execute"

text \<open>The same for a command that may not return.\<close>

definition run_looping ::
  "string \<Rightarrow> parser \<Rightarrow> (string \<times> parser) list \<Rightarrow> (namespace \<Rightarrow> string gen option) \<Rightarrow> string list res \<Rightarrow> cmd_out gen option" where
  "run_looping name P subs execute argv = (case bindR argv (parse_args P subs) of
       Inl e \<Rightarrow> Some (run_command name P subs (\<lambda>_. gen_done) argv)
     | Inr ns \<Rightarrow> map_option (\<lambda>g. run_command name P subs (\<lambda>_. g) argv) (execute ns))"

definition ps_command where
  "ps_command env ths states = run_command ''ps'' ps_parser [] (\<lambda>ns. fst (ps_execute env (ps_args_of ns) ths states))"

definition kmem_command where
  "kmem_command env venv zenv = run_command ''kmem'' kmem_parser [] (\<lambda>ns. kmem_execute env venv zenv (kmem_args_of ns))"

definition lsmod_command where
  "lsmod_command mods = run_command ''lsmod'' lsmod_parser [] (\<lambda>ns. lsmod_execute (ns_int ns ''p'') (ns_strs ns ''args'') mods)"

definition cgroup_command where
  "cgroup_command show_task show_tasks controllers =
     run_command ''cgroup'' cgroup_parser [] (\<lambda>ns. cgroup_execute show_task show_tasks controllers (cgroup_args_of ns))"

definition sys_command where
  "sys_command v = run_command ''sys'' sys_parser [] (\<lambda>ns. sys_execute v (ns_str ns ''config''))"

definition dev_command where
  "dev_command disks info = run_command ''dev'' dev_parser [] (\<lambda>ns. dev_execute disks info (ns_flag ns ''d''))"

definition help_command where
  "help_command cmds = run_command ''help'' help_parser [] (\<lambda>ns. help_execute cmds (ns_strs ns ''args''))"

definition task_command where
  "task_command tasks thread_num selected gdb_execute =
     run_command ''task'' task_parser [] (\<lambda>ns. task_execute tasks thread_num selected gdb_execute (ns_ints ns ''pid''))"

definition log_command where
  "log_command name p env len buf = run_looping name log_parser [] (\<lambda>ns. log_execute p env len buf (log_args_of ns))"

definition mount_command where
  "mount_command fm root mounts = run_looping ''mount'' mount_parser [] (\<lambda>ns. mount_execute fm root (ns_flag ns ''v'') (ns_flag ns ''f'') mounts)"

definition vtop_command where
  "vtop_command xlat = run_looping ''vtop'' vtop_parser [] (\<lambda>ns. vtop_execute xlat (ns_flag ns ''c'') (ns_strs ns ''args''))"

text \<open>The commands with sub-commands run the method in \<open>subcommand\<close>, if there is one.\<close>

definition run_method :: "(string \<times> string gen option) list \<Rightarrow> namespace \<Rightarrow> string gen option" where
  "run_method methods ns = (case map_of ns ''subcommand'' of
       Some (VMethod m) \<Rightarrow> (case map_of methods m of Some g \<Rightarrow> g | None \<Rightarrow> Some (gen_raise AttributeError))
     | _ \<Rightarrow> Some (subcommand_execute None))"

definition kernfs_command where
  "kernfs_command env = run_looping ''kernfs'' sub_commands_parser kernfs_subparsers (\<lambda>ns. run_method
     [(''command_ls'', command_ls env (ns_flag ns ''f'') (the (ns_int ns ''R'')) (the (ns_int ns ''kn'')))] ns)"

definition btrfs_command where
  "btrfs_command sbs = run_looping ''btrfs'' sub_commands_parser btrfs_subparsers (\<lambda>ns. run_method
     [(''list_btrfs'', Some (list_btrfs (ns_flag ns ''m'') sbs))] ns)"

definition xfs_command where
  "xfs_command mem env xv av super_block_type sbs = run_looping ''xfs'' sub_commands_parser xfs_subparsers (\<lambda>ns.
     let addr = AddrStr (the (ns_str ns ''addr'')) in run_method
     [(''list_xfs'', Some (list_xfs sbs)), (''show_xfs'', Some (show_xfs mem xv super_block_type addr)),
      (''dump_ail'', dump_ail env xv av super_block_type addr),
      (''dump_buftargs'', Some (dump_buftargs xv super_block_type addr))] ns)"

section \<open>The options of ps\<close>

text \<open>The command line that asks for given options.\<close>

definition ps_flags :: "ps_args \<Rightarrow> action list" where
  "ps_flags args = map snd (filter fst
     [(arg_k args, (store_true ''-k'')\<lparr>ac_group := Some 0\<rparr>), (arg_u args, (store_true ''-u'')\<lparr>ac_group := Some 0\<rparr>),
      (arg_G args, (store_true ''-G'')\<lparr>ac_group := Some 0\<rparr>), (arg_s args, (store_true ''-s'')\<lparr>ac_group := Some 1\<rparr>),
      (arg_n args, (store_true ''-n'')\<lparr>ac_group := Some 1\<rparr>), (arg_l args, (store_true ''-l'')\<lparr>ac_group := Some 2\<rparr>)])"

definition ps_argv :: "ps_args \<Rightarrow> string list" where
  "ps_argv args = map (\<lambda>a. hd (ac_options a)) (ps_flags args) @ (case arg_pattern args of None \<Rightarrow> [] | Some p \<Rightarrow> [p])"

definition ps_consistent :: "ps_args \<Rightarrow> bool" where
  "ps_consistent args \<longleftrightarrow> \<not> (arg_k args \<and> arg_u args) \<and> \<not> (arg_k args \<and> arg_G args) \<and> \<not> (arg_u args \<and> arg_G args) \<and>
     \<not> (arg_s args \<and> arg_n args)"

lemma ns_flag_set_flags: "ns_flag (set_flags fs ns) k \<longleftrightarrow> k \<in> ac_dest ` set fs \<or> ns_flag ns k"
  by (induction fs arbitrary: ns) (auto simp: set_flags_def ns_flag_def update_conv')

lemma ps_initial_flags: "\<not> ns_flag (initial_ns ps_parser) k"
proof -
  have "list_all (\<lambda>(k, v). v \<noteq> VBool True) (initial_ns ps_parser)" by code_simp
  then show ?thesis by (auto simp: ns_flag_def list_all_iff dest: map_of_SomeD)
qed

lemma ps_args_of_flags:
  assumes "\<not> arg_unimplemented args"
    and "ns = AList.update ''args'' (VList (map VStr (case arg_pattern args of None \<Rightarrow> [] | Some p \<Rightarrow> [p])))
      (set_flags (ps_flags args) (initial_ns ps_parser))"
  shows "ps_args_of ns = args"
proof -
  have flag: "ns_flag ns k \<longleftrightarrow> k \<in> ac_dest ` set (ps_flags args)" if "k \<noteq> ''args''" for k
    using that ns_flag_set_flags [of "ps_flags args" "initial_ns ps_parser" k] ps_initial_flags
    by (simp add: assms(2) ns_flag_def update_conv')
  have dests: "ac_dest ` set (ps_flags args) = {k. k = ''k'' \<and> arg_k args \<or> k = ''u'' \<and> arg_u args \<or> k = ''G'' \<and> arg_G args \<or>
      k = ''s'' \<and> arg_s args \<or> k = ''n'' \<and> arg_n args \<or> k = ''l'' \<and> arg_l args}"
    by (auto simp: ps_flags_def store_true_def option_of_def)
  have "ns_strs ns ''args'' = (case arg_pattern args of None \<Rightarrow> [] | Some p \<Rightarrow> [p])"
    by (simp add: assms(2) ns_strs_def ns_list_def update_conv' comp_def)
  then show ?thesis using assms(1)
    by (intro ps_args.equality) (simp_all add: ps_args_of_def flag dests split: option.splits)
qed

lemma ps_flags_known: "\<forall>a \<in> set (ps_flags args). flag_option ps_parser a"
proof -
  have "list_all (flag_option ps_parser) (ps_flags \<lparr>arg_s = True, arg_n = True, arg_k = True, arg_u = True, arg_G = True, arg_l = True,
      arg_unimplemented = False, arg_pattern = None\<rparr>)" by code_simp
  then show ?thesis by (auto simp: ps_flags_def list_all_iff)
qed

lemma ps_flags_conflicts: "ps_consistent args \<Longrightarrow> \<forall>a \<in> set (ps_flags args). \<forall>b \<in> set (ps_flags args). \<not> conflicts a b"
  by (auto simp: ps_flags_def ps_consistent_def conflicts_def store_true_def option_of_def)

lemma ps_parse:
  assumes "ps_consistent args" and "\<not> arg_unimplemented args" and "\<forall>p. arg_pattern args = Some p \<longrightarrow> plain_arg p"
  shows "\<exists>ns. parse_args ps_parser [] (ps_argv args) = Inr ns \<and> ps_args_of ns = args"
proof -
  let ?names = "case arg_pattern args of None \<Rightarrow> [] | Some p \<Rightarrow> [p]"
  have "\<forall>a \<in> set (optionals ps_parser). \<not> ac_required a" by code_simp
  moreover have "pr_positional ps_parser = Some (positional ''args'' Remainder)" by (simp add: ps_parser_def parser_of_def)
  moreover have "\<forall>s \<in> set ?names. plain_arg s" using assms(3) by (simp split: option.splits)
  ultimately have "parse_args ps_parser [] (ps_argv args) =
      Inr (AList.update ''args'' (VList (map VStr ?names)) (set_flags (ps_flags args) (initial_ns ps_parser)))"
    using parse_flags_names [OF ps_flags_known ps_flags_conflicts [OF assms(1)], of ?names "positional ''args'' Remainder" "[]"]
    by (simp add: ps_argv_def positional_def)
  then show ?thesis using ps_args_of_flags [OF assms(2) refl] by blast
qed

text \<open>
  C19: Every choice of the implemented options of \<open>ps\<close> that the groups allow, with or without a pattern, can be asked for: the
  command line that names the options, followed by the pattern, is parsed to exactly that choice, and the command prints
  what \<open>execute\<close> yields for it, with its exception reported.
\<close>

theorem ps_command_line:
  assumes "ps_consistent args" and "\<not> arg_unimplemented args" and "\<forall>p. arg_pattern args = Some p \<longrightarrow> plain_arg p"
  shows "\<exists>ns. parse_args ps_parser [] (ps_argv args) = Inr ns \<and> ps_args_of ns = args \<and>
    ps_command env ths states (Inr (ps_argv args)) =
      invoke ''pyps'' (Inr []) (\<lambda>_. Inr args) (\<lambda>args. fst (ps_execute env args ths states))"
proof -
  obtain ns where "parse_args ps_parser [] (ps_argv args) = Inr ns" "ps_args_of ns = args" using ps_parse [OF assms] by blast
  then show ?thesis by (auto simp: ps_command_def run_command_def invoke_def invoke_uncaught_def command_name_def)
qed

definition ex_ps_options :: ps_args where
  "ex_ps_options = \<lparr>arg_s = True, arg_n = False, arg_k = True, arg_u = False, arg_G = False, arg_l = False, arg_unimplemented = False,
     arg_pattern = Some ''kworker*''\<rparr>"

theorem ps_command_line_witness:
  "ps_argv ex_ps_options = [''-k'', ''-s'', ''kworker*''] \<and>
   (\<exists>ns. parse_args ps_parser [] (ps_argv ex_ps_options) = Inr ns \<and> ps_args_of ns = ex_ps_options)"
proof -
  have "ps_consistent ex_ps_options" "\<not> arg_unimplemented ex_ps_options" "\<forall>p. arg_pattern ex_ps_options = Some p \<longrightarrow> plain_arg p"
    by (simp_all add: ex_ps_options_def ps_consistent_def plain_arg_def)
  from ps_command_line [OF this, of ex_ps_env "[]" "[]"]
  have "\<exists>ns. parse_args ps_parser [] (ps_argv ex_ps_options) = Inr ns \<and> ps_args_of ns = ex_ps_options" by blast
  moreover have "ps_argv ex_ps_options = [''-k'', ''-s'', ''kworker*'']" by code_simp
  ultimately show ?thesis by blast
qed


section \<open>Errors on the command line\<close>

text \<open>Whatever the command line of \<open>ps\<close>, the options that reach \<open>execute\<close> are consistent.\<close>

lemma ns_flag_not_default: "map_of ns k = Some (VBool False) \<Longrightarrow> \<not> ns_flag ns k"
  by (simp add: ns_flag_def)

lemma ps_options_consistent:
  assumes "parse_args ps_parser [] argv = Inr ns"
  shows "ps_consistent (ps_args_of ns)"
proof -
  obtain rest where known: "parse_known_args (sub_parser []) ps_parser argv = Inr (ns, rest)"
    using assms by (auto simp: parse_args_def bindR_eq_Inr split: if_splits)
  have excl: "\<not> (ns_flag ns k \<and> ns_flag ns k')"
    if "(store_true (CHR ''-'' # k))\<lparr>ac_group := Some g\<rparr> \<in> set (value_actions ps_parser)"
      "(store_true (CHR ''-'' # k'))\<lparr>ac_group := Some g\<rparr> \<in> set (value_actions ps_parser)" "k \<noteq> k'" for k k' g
    using parse_known_exclusive [OF command_parser_leaf known that(1, 2)] that(3)
    by (auto simp: command_parsers_def conflicts_def store_true_def option_of_def dest: ns_flag_not_default)
  have acts: "(store_true ''-k'')\<lparr>ac_group := Some 0\<rparr> \<in> set (value_actions ps_parser)"
    "(store_true ''-u'')\<lparr>ac_group := Some 0\<rparr> \<in> set (value_actions ps_parser)"
    "(store_true ''-G'')\<lparr>ac_group := Some 0\<rparr> \<in> set (value_actions ps_parser)"
    "(store_true ''-s'')\<lparr>ac_group := Some 1\<rparr> \<in> set (value_actions ps_parser)"
    "(store_true ''-n'')\<lparr>ac_group := Some 1\<rparr> \<in> set (value_actions ps_parser)"
    by (simp_all add: value_actions_def actions_def optionals_def ps_parser_def parser_of_def exclusive_def store_true_def option_of_def
        help_action_def)
  show ?thesis
    using acts excl [where k = "''k''" and g = 0 and k' = "''u''"] excl [where k = "''k''" and g = 0 and k' = "''G''"]
      excl [where k = "''u''" and g = 0 and k' = "''G''"] excl [where k = "''s''" and g = 1 and k' = "''n''"]
    by (simp add: ps_consistent_def ps_args_of_def)
qed

text \<open>A command line that is refused runs nothing: the message and the usage are printed.\<close>

lemma run_command_refused:
  assumes "parse_args P subs argv = Inl CommandLineError"
  shows "run_command name P subs execute (Inr argv) =
    gen_of_list [Report (command_name name) CommandLineError, UsageOf (command_name name)]"
proof -
  have "\<not> catches CommandError CommandLineError" "catches CommandLineError CommandLineError" by code_simp+
  then show ?thesis using assms by (simp add: run_command_def invoke_def invoke_uncaught_def gen_simps gen_raise_def gen_yields_def gen_of_list_def)
qed

lemma run_without_sub_command:
  assumes "subs \<in> {kernfs_subparsers, btrfs_subparsers, xfs_subparsers}"
  shows "run_looping name sub_commands_parser subs (run_method methods) (Inr []) =
    Some (gen_of_list [Report (command_name name) CommandLineError, UsageOf (command_name name)])"
proof -
  have "parse_args sub_commands_parser subs [] = Inr []"
    using assms by (elim insertE emptyE) (simp, code_simp)+
  moreover have "\<not> catches CommandError CommandLineError" "catches CommandLineError CommandLineError" by code_simp+
  ultimately show ?thesis
    by (simp add: run_looping_def run_command_def invoke_def invoke_uncaught_def run_method_def subcommand_execute_def gen_simps gen_raise_def
        gen_yields_def gen_of_list_def)
qed

end
