(* ===== verification/Spec2Isabelle.thy ===== *)
theory Spec2Isabelle
  imports Bitmap Struct_Layout Linked_List Rbtree Percpu Page_Node Callbacks Slab Kmem_Cache Printk Task Filesystem
    Syscache Storage Decoders Xfs Ps Target Kernel Session Kmem Commands
    Lookup Vtop File_Commands Slab_Config Fnmatch
    Argparse Command_Lines
begin

text \<open>
  \<^bold>\<open>Verification of crash-python.\<close>

  crash-python is a package for gdb that analyses crash dumps of the Linux kernel.  It reads the structures of the
  kernel in the memory of a target through \<^verbatim>\<open>gdb.Value\<close>, walks its lists, trees, bitmaps, per-CPU areas, pages, slabs,
  tasks, mounts, queues and log buffers, and has commands that print them.  A dump may be corrupt, so most of the
  code has to deal with unreadable memory, cycles and inconsistent counts, and kernels differ, so it adapts itself to
  the types it finds by callbacks that run once a symbol or type is known.

  \<^bold>\<open>Conventions.\<close>  Theory \<open>Prelude\<close> has the exceptions of \<^verbatim>\<open>exceptions.py\<close> with their classes; a function that may raise
  returns \<open>'a res\<close>, a generator is the list of the values it yields and the exception that ends it (\<open>'a gen\<close>).  A loop
  that may not end is \<open>gen_while\<close> or another \<^verbatim>\<open>partial_function\<close> into \<open>option\<close>, where \<open>None\<close> means that the code does not
  return; there is no fuel, with one exception: the depth of Python's stack in \<open>Decoders\<close>, which is an argument and for
  which the result holds at every depth.  Memory of the target is a function from addresses to what is read there, or to
  the exception that reading raises; integers of Python are \<open>int\<close>, machine words are words of 64 bits or integers with the
  wrap-around written out.  What gdb, libkdumpfile, zlib and the architecture's code return is an argument of the
  definitions.  Texts of exceptions are not modelled, printed lines are where they carry information.

  \<^bold>\<open>Parts of the program and their theories.\<close>

  \<^item> \<open>Struct_Layout\<close> (\<^verbatim>\<open>util/__init__.py\<close>): member offsets through anonymous members and dotted paths, \<open>container_of\<close>, name
    variants, typed pointers from strings, flag words and UUIDs.  \<open>offsetof\<close> is lookup in the flattened members, and the
    conversions are inverse to each other.
  \<^item> \<open>Callbacks\<close> (\<^verbatim>\<open>infra/callback.py\<close>): the state machine of delayed callbacks as a step relation, with its invariant by
    induction over reachable states, and the names of types.  \<open>Lookup\<close> (\<^verbatim>\<open>infra/lookup.py\<close>, \<^verbatim>\<open>util/symbols.py\<close>): named callbacks, delayed values and their
    collections on that machine; a value is what the first table of gdb has in which its name is found.
  \<^item> \<open>Bitmap\<close> (\<^verbatim>\<open>types/bitmap.py\<close>, \<^verbatim>\<open>types/sbitmap.py\<close>): iteration and searches over bits, against the bits of the words.
  \<^item> \<open>Iterators\<close>, \<open>Linked_List\<close> (\<^verbatim>\<open>types/list.py\<close>, \<^verbatim>\<open>klist.py\<close>, \<^verbatim>\<open>module.py\<close>, \<^verbatim>\<open>classdev.py\<close>) and \<open>Rbtree\<close> (\<^verbatim>\<open>types/rbtree.py\<close>):
    walks with detection of cycles and corruption.  The locale of \<open>Iterators\<close> is the contract of a list iterator, which
    lists and klists provide and their clients rely on.
  \<^item> \<open>Percpu\<close> (\<^verbatim>\<open>types/percpu.py\<close>, \<^verbatim>\<open>types/cpu.py\<close>): ranges of per-CPU memory and the caches of them, address resolution.
  \<^item> \<open>Page_Node\<close> (\<^verbatim>\<open>types/page.py\<close>, \<^verbatim>\<open>node.py\<close>, \<^verbatim>\<open>zone.py\<close>, \<^verbatim>\<open>vmstat.py\<close>): configuration by callbacks in any order, conversions
    between frame numbers, addresses and \<open>struct page\<close>, checks of free areas.
  \<^item> \<open>Slab\<close>, \<open>Kmem_Cache\<close>, \<open>Slab_Config\<close> (\<^verbatim>\<open>types/slab.py\<close>): slabs of both allocators and their free lists; caches, slab lists
    and their consistency checks; the configuration by callbacks and the objects of a whole cache.  \<open>Kmem\<close>
    (\<^verbatim>\<open>commands/kmem.py\<close>): from an address to its slab and object, and the listings of caches and zones.
  \<^item> \<open>Printk\<close> (\<^verbatim>\<open>subsystem/printk\<close>, \<^verbatim>\<open>commands/dmesg.py\<close>): the three formats of the log; the lockless ring refines an
    abstract log.
  \<^item> \<open>Task\<close> (\<^verbatim>\<open>types/task.py\<close>, \<^verbatim>\<open>cache/tasks.py\<close>) and \<open>Ps\<close> (\<^verbatim>\<open>commands/ps.py\<close>): state flags, tasks and threads, and the
    process listing.
  \<^item> \<open>Filesystem\<close> (\<^verbatim>\<open>subsystem/filesystem/__init__.py\<close>, \<^verbatim>\<open>mount.py\<close>, \<^verbatim>\<open>btrfs.py\<close>, \<^verbatim>\<open>kernfs.py\<close>, \<^verbatim>\<open>subsystem/cgroup\<close>): super
    blocks, mounts, paths, kernfs nodes and control groups.
  \<^item> \<open>Syscache\<close> (\<^verbatim>\<open>cache/syscache.py\<close>): the kernel's configuration, read back from its text, uptime, and the load average,
    where a quotient of Python's floats is the exact rational rounded to the two places printed.
  \<^item> \<open>Storage\<close> (\<^verbatim>\<open>subsystem/storage/__init__.py\<close>, \<^verbatim>\<open>block.py\<close>, \<^verbatim>\<open>blockmq.py\<close>, \<^verbatim>\<open>blocksq.py\<close>): disks, devices, requests and
    request queues, with the tags of \<open>Bitmap\<close> and the lists of \<open>Linked_List\<close>.
  \<^item> \<open>Decoders\<close> (\<^verbatim>\<open>subsystem/storage/decoders.py\<close>, \<^verbatim>\<open>device_mapper.py\<close>, \<^verbatim>\<open>subsystem/filesystem/decoders.py\<close>, \<^verbatim>\<open>ext3.py\<close>)
    and \<open>Xfs\<close> (\<^verbatim>\<open>subsystem/filesystem/xfs.py\<close>): the registry of decoders and the stack of a bio; log
    items and flags of XFS.
  \<^item> \<open>Target\<close> (\<^verbatim>\<open>target\<close>): the choice of the target, the tasks as threads of gdb, and the registers of a thread, from the dump
    or from the frames of the stack.
  \<^item> \<open>Kernel\<close> (\<^verbatim>\<open>kernel.py\<close>): search for modules and debug information with the caches of file names, checks of versions, and
    the loading of modules with callbacks paused.
  \<^item> \<open>Session\<close> (\<^verbatim>\<open>session.py\<close>, \<^verbatim>\<open>requirements\<close>, \<^verbatim>\<open>infra/__init__.py\<close>): the checks of the installed gdb, the import of all
    submodules, and the start of a session, which composes \<open>Target\<close>, \<open>Kernel\<close> and \<open>Callbacks\<close>.
  \<^item> \<open>Vtop\<close> (\<^verbatim>\<open>addrxlat.py\<close>, \<^verbatim>\<open>commands/vtop.py\<close>): the levels of an address translation as they are printed.
  \<^item> \<open>Commands\<close> (\<^verbatim>\<open>commands/__init__.py\<close>, \<^verbatim>\<open>help.py\<close>, \<^verbatim>\<open>task.py\<close>, \<^verbatim>\<open>dev.py\<close>, \<^verbatim>\<open>syscmd.py\<close>, \<^verbatim>\<open>btrfs.py\<close>, \<^verbatim>\<open>lsmod.py\<close>, \<^verbatim>\<open>cgroup.py\<close>,
    \<^verbatim>\<open>kernfs.py\<close>): the base class, which turns exceptions into messages, and the lines of these commands;
    \<open>File_Commands\<close> (\<^verbatim>\<open>commands/mount.py\<close>, \<^verbatim>\<open>commands/xfs.py\<close>): those of the file systems.
  \<^item> \<open>Argparse\<close> and \<open>Command_Lines\<close> (the parsers in \<^verbatim>\<open>commands\<close>): what the commands use of Python's \<^verbatim>\<open>argparse\<close>, the parsers they
    build, and the commands from the command line to the printed lines.  The locale of \<open>Argparse\<close> carries a property that
    every action keeps through a whole parse; types, exclusion of options and the choice of sub-commands are its
    interpretations.  \<open>Fnmatch\<close>: the patterns of Python's \<^verbatim>\<open>fnmatch\<close>, for \<open>Kernel\<close>, \<open>Ps\<close> and \<open>Commands\<close>.
  \<^item> This theory: properties that span components, namely the disks found through the block class and the uptime
    computed from the image.

  \<^bold>\<open>Defects.\<close>  Where the code does not do what it means to, the model follows the code and a theorem or lemma states
  what happens: bits that \<open>find_next_set_bit\<close> misses, false reports of cycles, trees and partial lists with cycles that
  are walked for ever, callbacks that run twice, decoders that cannot be constructed or printed, states shown as running,
  an uptime that is not refreshed, a session that goes on with paused callbacks after a module was rejected, registers
  that can never be fetched again or are dropped, a target that is never chosen, an offset that is computed and lost, and
  page tables of five levels that \<open>vtop\<close> does not print, options that the arguments before them hide.

  \<^bold>\<open>Not modelled.\<close>  gdb, libkdumpfile, libaddrxlat, zlib and the ELF and zstd libraries are not part of the repository:
  what they return is a parameter.  Of \<^verbatim>\<open>argparse\<close> the printing of help and usage is left out, and the texts of messages
  everywhere.  The unwinding of stacks is done by gdb.  \<^verbatim>\<open>requirements/test_target.py\<close> is a class without behaviour that only
  has to be accepted by gdb.  The scripts in \<^verbatim>\<open>contrib\<close> are written in Python 2, with a \<^verbatim>\<open>print\<close> statement, and do not run with
  the package; the tests and the generators of the documentation are no part of the program.
\<close>

section \<open>Disks of the system\<close>

lemma block_devices_of_list:
  assumes "\<forall>d \<in> set ds. cd_type cenv d = Some (disk_type_address env) \<and> dev_to_gendisk env d = Inr (v d)"
  shows "gen_for ds (block_device_of env cenv) = gen_of_list (map v ds)"
proof -
  have "gen_for ds (block_device_of env cenv) = gen_of_list (concat (map (\<lambda>d. [v d]) ds))"
    using assms by (intro gen_for_of_list) (simp add: block_device_of_def)
  then show ?thesis by simp
qed

text \<open>
  C38: \<open>for_each_disk\<close> yields the disks of the block class: from a well-formed klist of devices, with \<open>knode_class\<close> on either
  side of its move into \<open>struct device_private\<close>, it yields for every device of the type of disks the disk that
  \<open>dev_to_gendisk\<close> gives, in the order of the list, skips the partitions, and ends without an exception.
\<close>

theorem disks_of_block_class:
  assumes "is_klist mem kenv k (map (\<lambda>b. ptr_add b (int off)) bs)"
    and "\<forall>b \<in> set bs. n_klist kenv (ptr_add b (int off)) = Some k"
    and "offsetof_err (if priv then cd_device_private_type cenv else cd_device_type cenv) ''knode_class'' = Inr off"
    and "\<forall>b \<in> set bs. 0 \<le> b \<and> b < 2 ^ 64 \<and> (priv \<longrightarrow> cd_device cenv b \<noteq> None)"
    and "\<forall>d \<in> set (class_devices cenv priv bs). cd_type cenv d \<noteq> None"
    and "\<forall>d \<in> set (class_devices cenv priv bs). cd_type cenv d = Some (disk_type_address env) \<longrightarrow> dev_to_gendisk env d = Inr (v d)"
  shows "for_each_disk env mem kenv cenv priv (KlistObj k) =
    Some (gen_of_list (map v (filter (\<lambda>d. cd_type cenv d = Some (disk_type_address env)) (class_devices cenv priv bs))))"
proof -
  let ?ds = "filter (\<lambda>d. cd_type cenv d = Some (disk_type_address env)) (class_devices cenv priv bs)"
  have "for_each_class_device mem kenv cenv priv (KlistObj k) (Some (disk_type_address env)) = Some (gen_of_list ?ds)"
    using for_each_class_device_ok [OF assms(1-5), of "Some (disk_type_address env)"] by simp
  moreover have "gen_for ?ds (block_device_of env cenv) = gen_of_list (map v ?ds)"
    using assms(6) by (intro block_devices_of_list) auto
  ultimately show ?thesis
    by (simp add: for_each_disk_def for_each_block_device_def subtype_address_def gen_bind_of_list)
qed

definition ex_disk_env :: blk_env where
  "ex_disk_env = ex_blk_env\<lparr>bd_disk := \<lambda>b. Inr (b + 4096)\<rparr>"

theorem disks_of_block_class_witness:
  "for_each_disk ex_disk_env ex_good ex_kenv ex_cenv True (KlistObj 92) = Some (gen_of_list [GendiskPtr 5256])"
proof -
  have "is_klist ex_good ex_kenv 92 (map (\<lambda>b. ptr_add b (int 16)) [176, 276])"
  proof -
    have "offsetof_err (klist_node_type ex_kenv) ''n_node'' = Inr 8" by code_simp
    moreover have "is_list ex_good (ptr_add 92 (int (k_list_off ex_kenv)))
        (map (\<lambda>b. ptr_add b (int 8)) (map (\<lambda>b. ptr_add b (int 16)) [176, 276]))" by code_simp
    moreover have "\<forall>b \<in> set (map (\<lambda>b. ptr_add b (int 16)) [176, 276]). 0 \<le> b \<and> b < 2 ^ 64" by code_simp
    ultimately show ?thesis unfolding is_klist_def by blast
  qed
  moreover have "\<forall>b \<in> set [176, 276]. n_klist ex_kenv (ptr_add b (int 16)) = Some 92" by code_simp
  moreover have "offsetof_err (if True then cd_device_private_type ex_cenv else cd_device_type ex_cenv) ''knode_class'' = Inr 16"
    by code_simp
  moreover have "\<forall>b \<in> set [176, 276]. 0 \<le> b \<and> b < 2 ^ 64 \<and> (True \<longrightarrow> cd_device ex_cenv b \<noteq> None)" by code_simp
  moreover have "\<forall>d \<in> set (class_devices ex_cenv True [176, 276]). cd_type ex_cenv d \<noteq> None" by code_simp
  moreover have "\<forall>d \<in> set (class_devices ex_cenv True [176, 276]). cd_type ex_cenv d = Some (disk_type_address ex_disk_env) \<longrightarrow>
      dev_to_gendisk ex_disk_env d = Inr (GendiskPtr (d + 4080))" by code_simp
  ultimately have "for_each_disk ex_disk_env ex_good ex_kenv ex_cenv True (KlistObj 92) =
    Some (gen_of_list (map (\<lambda>d. GendiskPtr (d + 4080))
      (filter (\<lambda>d. cd_type ex_cenv d = Some (disk_type_address ex_disk_env)) (class_devices ex_cenv True [176, 276]))))"
    by (rule disks_of_block_class)
  also have "\<dots> = Some (gen_of_list [GendiskPtr 5256])" by code_simp
  finally show ?thesis .
qed

section \<open>Uptime from the image\<close>



end
